(* ===== verification/Prelude.thy ===== *)
theory Prelude imports
  Main
  "HOL-Library.Word"
  "HOL-Library.AList"
  "HOL-Library.Char_ord"
  "HOL-Library.List_Lexorder"
begin

text \<open>
  What the components share: the part of Go's standard library the source leans on
  everywhere (package \<open>strings\<close> on byte strings, \<open>time.Time\<close>, built-in maps), and the
  lemma collections the component proofs use.

  Conventions.  A Go \<open>string\<close> or \<open>[]byte\<close> is a \<^typ>\<open>string\<close>, one \<^typ>\<open>char\<close> per byte.
  A \<open>time.Time\<close> is an \<^typ>\<open>int\<close>: nanoseconds since Go's zero time, so that \<open>IsZero\<close> is
  equality with 0; a \<open>time.Duration\<close> is a number of nanoseconds.  A Go map is an
  association list with distinct keys, updated with \<open>AList.update\<close> and
  \<open>AList.delete\<close>.  Receivers and injected functions are never nil in the model; an
  optional collaborator is an \<open>option\<close>.  A method that holds its mutex from the first
  to the last access of its state is one atomic function on that state.
\<close>

section \<open>Collections\<close>

named_theorems go_strings \<open>facts about the byte-string functions\<close>
named_theorems go_maps \<open>facts about association lists used as Go maps\<close>
named_theorems go_errors \<open>when a chain of early returns answers a value, when an error\<close>

section \<open>Time\<close>

type_synonym gotime = int
type_synonym duration = int

abbreviation (input) zero_time :: gotime where "zero_time \<equiv> 0"

definition second :: duration where "second = 1000000000"
definition minute :: duration where "minute = 60 * second"
definition hour :: duration where "hour = 60 * minute"

text \<open>\<open>time.Unix(0,0)\<close> in nanoseconds since the zero time: 62135596800 seconds.\<close>
definition unix_epoch :: gotime where "unix_epoch = 62135596800 * second"

section \<open>Package strings\<close>

type_synonym gostring = string

definition has_prefix :: "gostring \<Rightarrow> gostring \<Rightarrow> bool" where
  "has_prefix s p \<longleftrightarrow> take (length p) s = p"

definition has_suffix :: "gostring \<Rightarrow> gostring \<Rightarrow> bool" where
  "has_suffix s p \<longleftrightarrow> has_prefix (rev s) (rev p)"

definition trim_suffix :: "gostring \<Rightarrow> gostring \<Rightarrow> gostring" where
  "trim_suffix s p = (if has_suffix s p then take (length s - length p) s else s)"

definition contains_any :: "gostring \<Rightarrow> gostring \<Rightarrow> bool" where
  "contains_any s cs \<longleftrightarrow> list_ex (\<lambda>c. c \<in> set cs) s"

fun contains :: "gostring \<Rightarrow> gostring \<Rightarrow> bool" where
  "contains [] p = (p = [])"
| "contains (c # s) p = (has_prefix (c # s) p \<or> contains s p)"

definition lower_char :: "char \<Rightarrow> char" where
  "lower_char c = (let n = of_char c :: nat in if 65 \<le> n \<and> n \<le> 90 then char_of (n + 32) else c)"

text \<open>\<open>strings.ToLower\<close>, exact on ASCII; bytes above 127 are left as they are.\<close>
definition to_lower :: "gostring \<Rightarrow> gostring" where
  "to_lower s = map lower_char s"

definition upper_char :: "char \<Rightarrow> char" where
  "upper_char c = (let n = of_char c :: nat in if 97 \<le> n \<and> n \<le> 122 then char_of (n - 32) else c)"

text \<open>
  \<open>strings.ToUpper\<close>, exact in its ASCII letters: those of the text, and those that the runes U+0131 and U+017F
  become; other runes above 127 are left as they are.
\<close>
fun to_upper :: "gostring \<Rightarrow> gostring" where
  "to_upper [] = []"
| "to_upper [c] = [upper_char c]"
| "to_upper (c # d # s) =
     (if c = CHR 0xC4 \<and> d = CHR 0xB1 then CHR ''I'' # to_upper s
      else if c = CHR 0xC5 \<and> d = CHR 0xBF then CHR ''S'' # to_upper s
      else upper_char c # to_upper (d # s))"

definition equal_fold :: "gostring \<Rightarrow> gostring \<Rightarrow> bool" where
  "equal_fold a b \<longleftrightarrow> to_lower a = to_lower b"

text \<open>\<open>strings.Split(s, sep)\<close> for a one-byte separator; \<open>strings.Join\<close>.\<close>
fun split_on :: "char \<Rightarrow> gostring \<Rightarrow> gostring list" where
  "split_on d [] = [[]]"
| "split_on d (c # s) =
     (if c = d then [] # split_on d s
      else (case split_on d s of [] \<Rightarrow> [[c]] | w # ws \<Rightarrow> (c # w) # ws))"

fun join :: "gostring \<Rightarrow> gostring list \<Rightarrow> gostring" where
  "join sep [] = []"
| "join sep [w] = w"
| "join sep (w # v # ws) = w @ sep @ join sep (v # ws)"

subsection \<open>TrimSpace\<close>

text \<open>The UTF-8 encodings of the runes for which \<open>unicode.IsSpace\<close> holds.\<close>
definition go_spaces :: "gostring list" where
  "go_spaces =
    [[CHR 0x20], [CHR 0x09], [CHR 0x0A], [CHR 0x0B], [CHR 0x0C], [CHR 0x0D],
     [CHR 0xC2, CHR 0x85], [CHR 0xC2, CHR 0xA0], [CHR 0xE1, CHR 0x9A, CHR 0x80],
     [CHR 0xE2, CHR 0x80, CHR 0x80], [CHR 0xE2, CHR 0x80, CHR 0x81],
     [CHR 0xE2, CHR 0x80, CHR 0x82], [CHR 0xE2, CHR 0x80, CHR 0x83],
     [CHR 0xE2, CHR 0x80, CHR 0x84], [CHR 0xE2, CHR 0x80, CHR 0x85],
     [CHR 0xE2, CHR 0x80, CHR 0x86], [CHR 0xE2, CHR 0x80, CHR 0x87],
     [CHR 0xE2, CHR 0x80, CHR 0x88], [CHR 0xE2, CHR 0x80, CHR 0x89],
     [CHR 0xE2, CHR 0x80, CHR 0x8A], [CHR 0xE2, CHR 0x80, CHR 0xA8],
     [CHR 0xE2, CHR 0x80, CHR 0xA9], [CHR 0xE2, CHR 0x80, CHR 0xAF],
     [CHR 0xE2, CHR 0x81, CHR 0x9F], [CHR 0xE3, CHR 0x80, CHR 0x80]]"

definition leading_of :: "gostring list \<Rightarrow> gostring \<Rightarrow> gostring option" where
  "leading_of ws s = find (\<lambda>w. w \<noteq> [] \<and> has_prefix s w) ws"

lemma has_prefix_append: "has_prefix s p \<longleftrightarrow> (\<exists>t. s = p @ t)"
  by (metis append_eq_conv_conj append_take_drop_id has_prefix_def)

lemma leading_of_Some: "leading_of ws s = Some w \<Longrightarrow> w \<noteq> [] \<and> (\<exists>t. s = w @ t)"
  by (auto simp: leading_of_def find_Some_iff has_prefix_append)

function trim_left_of :: "gostring list \<Rightarrow> gostring \<Rightarrow> gostring" where
  "trim_left_of ws s =
     (case leading_of ws s of None \<Rightarrow> s | Some w \<Rightarrow> trim_left_of ws (drop (length w) s))"
  by pat_completeness auto
termination
  by (relation "measure (\<lambda>(ws, s). length s)")
    (auto dest!: leading_of_Some)

declare trim_left_of.simps [simp del]

text \<open>\<open>strings.TrimSpace\<close>: leading, then trailing white space.\<close>
definition trim_space :: "gostring \<Rightarrow> gostring" where
  "trim_space s = rev (trim_left_of (map rev go_spaces) (rev (trim_left_of go_spaces s)))"

lemma trim_left_suffix: "\<exists>u. s = u @ trim_left_of ws s"
proof (induction ws s rule: trim_left_of.induct)
  case (1 ws s)
  show ?case
  proof (cases "leading_of ws s")
    case None
    then show ?thesis by (simp add: trim_left_of.simps [of ws s])
  next
    case (Some w)
    then obtain u where u: "drop (length w) s = u @ trim_left_of ws (drop (length w) s)"
      using 1 by blast
    have "s = (take (length w) s @ u) @ trim_left_of ws (drop (length w) s)"
      using u by (metis append.assoc append_take_drop_id)
    then show ?thesis using Some by (simp only: trim_left_of.simps [of ws s] option.case) blast
  qed
qed

lemma trim_left_stops: "leading_of ws (trim_left_of ws s) = None"
proof (induction ws s rule: trim_left_of.induct)
  case (1 ws s)
  then show ?case
    by (cases "leading_of ws s") (simp_all add: trim_left_of.simps [of ws s])
qed

lemma trim_left_id: "leading_of ws s = None \<Longrightarrow> trim_left_of ws s = s"
  by (simp add: trim_left_of.simps)

lemma leading_of_prefix: "leading_of ws (r @ v) = None \<Longrightarrow> leading_of ws r = None"
  by (auto simp: leading_of_def find_None_iff has_prefix_append)

lemma trim_space_sublist: "\<exists>u v. s = u @ trim_space s @ v"
proof -
  let ?t = "trim_left_of go_spaces s"
  let ?r = "trim_left_of (map rev go_spaces) (rev ?t)"
  obtain u where u: "s = u @ ?t" using trim_left_suffix by blast
  obtain v where v: "rev ?t = v @ ?r" using trim_left_suffix by blast
  have "?t = rev ?r @ rev v" using arg_cong [OF v, of rev] by simp
  with u show ?thesis by (metis trim_space_def)
qed

lemma trim_space_idem [simp, go_strings]: "trim_space (trim_space s) = trim_space s"
proof -
  let ?t = "trim_left_of go_spaces s"
  let ?r = "trim_left_of (map rev go_spaces) (rev ?t)"
  obtain v where v: "rev ?t = v @ ?r" using trim_left_suffix by blast
  have "?t = rev ?r @ rev v" using arg_cong [OF v, of rev] by simp
  then have "leading_of go_spaces (rev ?r) = None"
    using trim_left_stops [of go_spaces s] leading_of_prefix by metis
  then have "trim_left_of go_spaces (rev ?r) = rev ?r" by (rule trim_left_id)
  then show ?thesis by (simp add: trim_space_def trim_left_id trim_left_stops)
qed

lemma trim_space_Nil [simp, go_strings]: "trim_space [] = []"
  using trim_space_sublist [of "[]"] by auto

lemma set_trim_space [go_strings]: "set (trim_space s) \<subseteq> set s"
proof -
  obtain u v where "s = u @ trim_space s @ v" using trim_space_sublist by blast
  then show ?thesis by (metis Un_upper1 Un_upper2 order.trans set_append)
qed

subsection \<open>Separators\<close>

text \<open>Joining separator-free parts loses nothing: keys built with a NUL byte are injective.\<close>

lemma sep_append_inj:
  assumes "c \<notin> set a" and "c \<notin> set b" and "a @ c # x = b @ c # y"
  shows "a = b \<and> x = y"
  using assms
proof (induction a arbitrary: b)
  case Nil
  then show ?case by (cases b) auto
next
  case (Cons d a)
  then show ?case by (cases b) auto
qed

lemma join_inj:
  assumes "length xs = length ys" and "\<forall>x \<in> set xs. c \<notin> set x" and "\<forall>y \<in> set ys. c \<notin> set y"
    and "join [c] xs = join [c] ys"
  shows "xs = ys"
  using assms
proof (induction "[c]" xs arbitrary: ys rule: join.induct)
  case 1
  then show ?case by simp
next
  case (2 w)
  then show ?case by (cases ys) auto
next
  case (3 w v ws)
  then obtain y z zs where ys: "ys = y # z # zs" by (metis length_Suc_conv)
  have "w @ c # join [c] (v # ws) = y @ c # join [c] (z # zs)"
    using "3.prems"(4) ys by simp
  then have "w = y \<and> join [c] (v # ws) = join [c] (z # zs)"
    using "3.prems"(2,3) ys by (intro sep_append_inj) auto
  moreover from this have "v # ws = z # zs"
    using "3.prems" ys by (intro "3.hyps") auto
  ultimately show ?case using ys by simp
qed

subsection \<open>Lower case\<close>

lemma lower_char_idem [simp]: "lower_char (lower_char c) = lower_char c"
proof -
  have "of_char (char_of (of_char c + 32 :: nat) :: char) = (of_char c + 32 :: nat)"
    if "of_char c \<le> (90 :: nat)"
    using that by (simp add: of_char_of)
  then show ?thesis by (auto simp: lower_char_def Let_def)
qed

lemma to_lower_idem [simp, go_strings]: "to_lower (to_lower s) = to_lower s"
  by (simp add: to_lower_def)

lemma length_to_lower [simp, go_strings]: "length (to_lower s) = length s"
  by (simp add: to_lower_def)

lemma to_lower_Nil_iff [simp, go_strings]: "to_lower s = [] \<longleftrightarrow> s = []"
  by (simp add: to_lower_def)

section \<open>Maps\<close>

type_synonym ('k, 'v) gomap = "('k \<times> 'v) list"

text \<open>Go's \<open>m[k]\<close> for a missing key is the zero value of the element type.\<close>
definition get_or :: "'v \<Rightarrow> ('k, 'v) gomap \<Rightarrow> 'k \<Rightarrow> 'v" where
  "get_or z m k = (case map_of m k of None \<Rightarrow> z | Some v \<Rightarrow> v)"

definition keys :: "('k, 'v) gomap \<Rightarrow> 'k list" where
  "keys m = map fst m"

lemma map_of_update [simp, go_maps]: "map_of (AList.update k v m) = (map_of m)(k \<mapsto> v)"
  by (rule update_conv')

lemma map_of_delete [simp, go_maps]: "map_of (AList.delete k m) = (map_of m)(k := None)"
  by (rule delete_conv')

lemma get_or_update [simp, go_maps]:
  "get_or z (AList.update k v m) k' = (if k' = k then v else get_or z m k')"
  by (simp add: get_or_def)

lemma get_or_Some [go_maps]: "map_of m k = Some v \<Longrightarrow> get_or z m k = v"
  by (simp add: get_or_def)

lemma map_of_eq_None_iff_keys: "map_of m k = None \<longleftrightarrow> k \<notin> set (keys m)"
  by (simp add: keys_def map_of_eq_None_iff)

lemma distinct_keys_update [simp, go_maps]:
  "distinct (keys m) \<Longrightarrow> distinct (keys (AList.update k v m))"
  unfolding keys_def by (rule distinct_update)

lemma distinct_keys_delete [simp, go_maps]:
  "distinct (keys m) \<Longrightarrow> distinct (keys (AList.delete k m))"
  unfolding keys_def by (rule distinct_delete)

lemma set_keys_update [simp, go_maps]: "set (keys (AList.update k v m)) = insert k (set (keys m))"
  by (simp add: keys_def dom_update)

lemma set_keys_delete [simp, go_maps]: "set (keys (AList.delete k m)) = set (keys m) - {k}"
  by (simp add: keys_def delete_keys)

lemma length_keys [simp]: "length (keys m) = length m"
  by (simp add: keys_def)

lemma length_update [go_maps]:
  assumes "distinct (keys m)"
  shows "length (AList.update k v m) = (if k \<in> set (keys m) then length m else Suc (length m))"
proof -
  have "length (AList.update k v m) = card (set (keys (AList.update k v m)))"
    using assms by (metis distinct_card distinct_keys_update length_keys)
  also have "\<dots> = (if k \<in> set (keys m) then card (set (keys m)) else Suc (card (set (keys m))))"
    by (simp add: insert_absorb)
  finally show ?thesis using distinct_card [OF assms] by simp
qed

lemma length_delete [go_maps]:
  assumes "distinct (keys m)"
  shows "length (AList.delete k m) = (if k \<in> set (keys m) then length m - 1 else length m)"
proof -
  have "length (AList.delete k m) = card (set (keys (AList.delete k m)))"
    using assms by (metis distinct_card distinct_keys_delete length_keys)
  also have "\<dots> = (if k \<in> set (keys m) then card (set (keys m)) - 1 else card (set (keys m)))"
    by simp
  finally show ?thesis using distinct_card [OF assms] by simp
qed

section \<open>Early returns\<close>

text \<open>A call that may fail and what is done with its value; \<open>require\<close> is a guard.\<close>

definition rbind :: "'e + 'a \<Rightarrow> ('a \<Rightarrow> 'e + 'b) \<Rightarrow> 'e + 'b" where
  "rbind x f = (case x of Inl e \<Rightarrow> Inl e | Inr a \<Rightarrow> f a)"

definition require :: "bool \<Rightarrow> 'e \<Rightarrow> 'e + unit" where
  "require c e = (if c then Inr () else Inl e)"

definition or_error :: "'e \<Rightarrow> 'a option \<Rightarrow> 'e + 'a" where
  "or_error e x = (case x of None \<Rightarrow> Inl e | Some a \<Rightarrow> Inr a)"

lemma rbind_simps [simp]: "rbind (Inl e) f = Inl e" "rbind (Inr a) f = f a"
  by (simp_all add: rbind_def)

lemma rbind_Inr_iff [go_errors]: "rbind x f = Inr b \<longleftrightarrow> (\<exists>a. x = Inr a \<and> f a = Inr b)"
  by (cases x) simp_all

lemma rbind_Inl_iff [go_errors]: "rbind x f = Inl e \<longleftrightarrow> x = Inl e \<or> (\<exists>a. x = Inr a \<and> f a = Inl e)"
  by (cases x) simp_all

lemma require_Inr_iff [go_errors]: "require c e = Inr u \<longleftrightarrow> c"
  by (simp add: require_def)

lemma require_Inl_iff [go_errors]: "require c e = Inl e' \<longleftrightarrow> \<not> c \<and> e' = e"
  by (auto simp: require_def)

lemma or_error_Inr_iff [go_errors]: "or_error e x = Inr a \<longleftrightarrow> x = Some a"
  by (cases x) (simp_all add: or_error_def)

lemma or_error_Inl_iff [go_errors]: "or_error e x = Inl e' \<longleftrightarrow> x = None \<and> e' = e"
  by (cases x) (auto simp: or_error_def)

lemma if_Inl_Inr_iff [go_errors]: "(if c then Inl e else r) = Inr a \<longleftrightarrow> \<not> c \<and> r = Inr a"
  by simp

end
