(* ===== verification/Codec.thy ===== *)
theory Codec imports
  Prelude
begin

text \<open>
  The byte encodings the source takes from the standard library:
  \<open>base64.RawURLEncoding\<close> (tickets, cookies, tokens and identifiers) and \<open>hex\<close> (digests),
  each with its round trip.  Decoding is as lenient as Go's: carriage returns and newlines
  are skipped and the unused low bits of the last base64 digit are not checked.
\<close>

abbreviation byte_val :: "char \<Rightarrow> nat" where "byte_val c \<equiv> of_char c"

lemma byte_val_less [simp]: "byte_val c < 256"
  by simp

lemma byte_val_char_of [simp]: "n < 256 \<Longrightarrow> byte_val (char_of n) = n" for n :: nat
  by (simp add: of_char_of)

section \<open>base64.RawURLEncoding\<close>

definition b64_char :: "nat \<Rightarrow> char" where
  "b64_char n =
     (if n < 26 then char_of (n + 65)
      else if n < 52 then char_of (n + 71)
      else if n < 62 then char_of (n - 4)
      else if n = 62 then CHR ''-'' else CHR ''_'')"

definition b64_val :: "char \<Rightarrow> nat option" where
  "b64_val c =
     (let n = byte_val c in
      if 65 \<le> n \<and> n \<le> 90 then Some (n - 65)
      else if 97 \<le> n \<and> n \<le> 122 then Some (n - 71)
      else if 48 \<le> n \<and> n \<le> 57 then Some (n + 4)
      else if n = 45 then Some 62
      else if n = 95 then Some 63
      else None)"

fun b64_digits :: "gostring \<Rightarrow> nat list" where
  "b64_digits [] = []"
| "b64_digits [a] = [byte_val a div 4, (byte_val a mod 4) * 16]"
| "b64_digits [a, b] =
     [byte_val a div 4, (byte_val a mod 4) * 16 + byte_val b div 16, (byte_val b mod 16) * 4]"
| "b64_digits (a # b # c # s) =
     byte_val a div 4 # ((byte_val a mod 4) * 16 + byte_val b div 16) #
     ((byte_val b mod 16) * 4 + byte_val c div 64) # (byte_val c mod 64) # b64_digits s"

definition b64_encode :: "gostring \<Rightarrow> gostring" where
  "b64_encode s = map b64_char (b64_digits s)"

fun b64_bytes :: "nat list \<Rightarrow> gostring option" where
  "b64_bytes [] = Some []"
| "b64_bytes [v] = None"
| "b64_bytes [v, w] = Some [char_of (v * 4 + w div 16)]"
| "b64_bytes [v, w, x] = Some [char_of (v * 4 + w div 16), char_of ((w mod 16) * 16 + x div 4)]"
| "b64_bytes (v # w # x # y # r) =
     map_option (\<lambda>s. char_of (v * 4 + w div 16) # char_of ((w mod 16) * 16 + x div 4) #
                     char_of ((x mod 4) * 64 + y) # s) (b64_bytes r)"

definition b64_decode :: "gostring \<Rightarrow> gostring option" where
  "b64_decode s =
     (case those (map b64_val (filter (\<lambda>c. c \<noteq> CHR 0x0A \<and> c \<noteq> CHR 0x0D) s)) of
        None \<Rightarrow> None
      | Some vs \<Rightarrow> b64_bytes vs)"

lemma b64_val_char [simp]: "n < 64 \<Longrightarrow> b64_val (b64_char n) = Some n"
  by (auto simp: b64_val_def b64_char_def Let_def)

lemma b64_digits_less: "\<forall>d \<in> set (b64_digits s). d < 64"
proof (induction s rule: b64_digits.induct)
  case (2 a)
  have "byte_val a < 256" by simp
  then show ?case by (simp only: b64_digits.simps) (auto simp: less_mult_imp_div_less)
next
  case (3 a b)
  have "byte_val a div 4 < 64" and "byte_val a mod 4 * 16 + byte_val b div 16 < 64"
    and "byte_val b mod 16 * 4 < 64"
    using byte_val_less [of a] byte_val_less [of b] by arith+
  then show ?case by simp
next
  case (4 a b c s)
  have "byte_val a div 4 < 64" and "byte_val a mod 4 * 16 + byte_val b div 16 < 64"
    and "byte_val b mod 16 * 4 + byte_val c div 64 < 64"
    using byte_val_less [of a] byte_val_less [of b] byte_val_less [of c] by arith+
  with 4 show ?case by simp
qed simp

lemma b64_char_no_newline: "b64_char n \<noteq> CHR 0x0A" "b64_char n \<noteq> CHR 0x0D" "b64_char n \<noteq> CHR ''.''"
proof -
  have "byte_val (b64_char n) \<notin> {10, 13, 46}" by (auto simp: b64_char_def)
  then show "b64_char n \<noteq> CHR 0x0A" "b64_char n \<noteq> CHR 0x0D" "b64_char n \<noteq> CHR ''.''" by auto
qed

lemma those_map_b64: "\<forall>d \<in> set ds. d < 64 \<Longrightarrow> those (map b64_val (map b64_char ds)) = Some ds"
  by (induction ds) auto

lemma b64_bytes_digits: "b64_bytes (b64_digits s) = Some s"
proof (induction s rule: b64_digits.induct)
  case (2 a)
  have "byte_val a div 4 * 4 + byte_val a mod 4 * 16 div 16 = byte_val a" by simp
  then show ?case by simp
next
  case (3 a b)
  have "byte_val b div 16 < 16" using byte_val_less [of b] by arith
  then have "byte_val a div 4 * 4 + ((byte_val a mod 4) * 16 + byte_val b div 16) div 16 = byte_val a"
    and "((byte_val a mod 4) * 16 + byte_val b div 16) mod 16 * 16 + (byte_val b mod 16) * 4 div 4 = byte_val b"
    by simp_all
  then show ?case by (simp del: div_mult_self1 div_mult_self2 mod_mult_self1)
next
  case (4 a b c s)
  have "byte_val b div 16 < 16" and "byte_val c div 64 < 4"
    using byte_val_less [of b] byte_val_less [of c] by arith+
  then have "byte_val a div 4 * 4 + ((byte_val a mod 4) * 16 + byte_val b div 16) div 16 = byte_val a"
    and "((byte_val a mod 4) * 16 + byte_val b div 16) mod 16 * 16
           + ((byte_val b mod 16) * 4 + byte_val c div 64) div 4 = byte_val b"
    and "((byte_val b mod 16) * 4 + byte_val c div 64) mod 4 * 64 + byte_val c mod 64 = byte_val c"
    by simp_all
  with 4 show ?case by (simp del: div_mult_self1 div_mult_self2 mod_mult_self1)
qed simp

theorem b64_roundtrip: "b64_decode (b64_encode s) = Some s"
proof -
  have "filter (\<lambda>c. c \<noteq> CHR 0x0A \<and> c \<noteq> CHR 0x0D) (b64_encode s) = b64_encode s"
    by (auto simp: b64_encode_def filter_id_conv b64_char_no_newline)
  then show ?thesis
    using b64_digits_less those_map_b64 [of "b64_digits s"]
    by (simp add: b64_decode_def b64_bytes_digits del: map_map) (simp add: b64_encode_def b64_bytes_digits)
qed

lemma b64_encode_inj: "b64_encode s = b64_encode t \<Longrightarrow> s = t"
  by (metis b64_roundtrip option.inject)

lemma b64_encode_no_dot: "CHR ''.'' \<notin> set (b64_encode s)"
  using b64_char_no_newline(3) by (auto simp: b64_encode_def) metis

lemma b64_encode_Nil_iff [simp]: "b64_encode s = [] \<longleftrightarrow> s = []"
  by (cases s rule: b64_digits.cases) (simp_all add: b64_encode_def)

section \<open>Decimal numbers\<close>

fun dec_digits :: "nat \<Rightarrow> gostring" where
  "dec_digits n = (if n < 10 then [char_of (n + 48)] else dec_digits (n div 10) @ [char_of (n mod 10 + 48)])"

declare dec_digits.simps [simp del]

text \<open>\<open>strconv.Itoa\<close>, and the verb \<open>%06d\<close> for a non-negative number.\<close>
definition itoa :: "int \<Rightarrow> gostring" where
  "itoa n = (if n < 0 then CHR ''-'' # dec_digits (nat (- n)) else dec_digits (nat n))"

definition pad_dec :: "nat \<Rightarrow> nat \<Rightarrow> gostring" where
  "pad_dec w n = replicate (w - length (dec_digits n)) CHR ''0'' @ dec_digits n"

definition is_digit :: "char \<Rightarrow> bool" where
  "is_digit c \<longleftrightarrow> 48 \<le> byte_val c \<and> byte_val c \<le> 57"

definition dec_val :: "gostring \<Rightarrow> nat" where
  "dec_val s = foldl (\<lambda>n c. n * 10 + (byte_val c - 48)) 0 s"

lemma dec_val_append [simp]: "dec_val (s @ [c]) = dec_val s * 10 + (byte_val c - 48)"
  by (simp add: dec_val_def)

lemma dec_val_digits [simp]: "dec_val (dec_digits n) = n"
proof (induction n rule: dec_digits.induct)
  case (1 n)
  show ?case
  proof (cases "n < 10")
    case True
    then show ?thesis by (subst dec_digits.simps) (simp add: dec_val_def)
  next
    case False
    then show ?thesis using 1 by (subst dec_digits.simps) simp
  qed
qed

lemma dec_digits_inj: "dec_digits m = dec_digits n \<Longrightarrow> m = n"
  by (metis dec_val_digits)

lemma dec_digits_digit: "\<forall>c \<in> set (dec_digits n). is_digit c"
proof (induction n rule: dec_digits.induct)
  case (1 n)
  then show ?case
    by (subst dec_digits.simps) (auto simp: is_digit_def intro!: byte_val_less)
qed

lemma dec_digits_nonempty [simp]: "dec_digits n \<noteq> []"
  by (subst dec_digits.simps) simp

lemma dec_val_zeros [simp]: "dec_val (replicate k CHR ''0'' @ s) = dec_val s"
  by (induction k) (simp_all add: dec_val_def)

lemma pad_dec_inj: "pad_dec w m = pad_dec w n \<Longrightarrow> m = n"
  unfolding pad_dec_def by (metis dec_val_digits dec_val_zeros)

section \<open>hex\<close>

definition hex_char :: "nat \<Rightarrow> char" where
  "hex_char n = (if n < 10 then char_of (n + 48) else char_of (n + 87))"

definition hex_val :: "char \<Rightarrow> nat option" where
  "hex_val c =
     (let n = byte_val c in
      if 48 \<le> n \<and> n \<le> 57 then Some (n - 48)
      else if 97 \<le> n \<and> n \<le> 102 then Some (n - 87)
      else if 65 \<le> n \<and> n \<le> 70 then Some (n - 55)
      else None)"

definition hex_encode :: "gostring \<Rightarrow> gostring" where
  "hex_encode s = concat (map (\<lambda>c. [hex_char (byte_val c div 16), hex_char (byte_val c mod 16)]) s)"

fun hex_decode :: "gostring \<Rightarrow> gostring option" where
  "hex_decode [] = Some []"
| "hex_decode [c] = None"
| "hex_decode (c # d # s) =
     (case hex_val c of None \<Rightarrow> None
      | Some h \<Rightarrow> (case hex_val d of None \<Rightarrow> None
          | Some l \<Rightarrow> map_option (\<lambda>r. char_of (h * 16 + l) # r) (hex_decode s)))"

lemma hex_val_char [simp]: "n < 16 \<Longrightarrow> hex_val (hex_char n) = Some n"
  by (auto simp: hex_val_def hex_char_def Let_def)

lemma byte_div_16 [simp]: "byte_val c div 16 < 16"
  using byte_val_less [of c] by arith

theorem hex_roundtrip: "hex_decode (hex_encode s) = Some s"
  by (induction s) (simp_all add: hex_encode_def)

lemma length_hex_encode [simp]: "length (hex_encode s) = 2 * length s"
  by (induction s) (simp_all add: hex_encode_def)

lemma hex_encode_inj: "hex_encode s = hex_encode t \<Longrightarrow> s = t"
  by (metis hex_roundtrip option.inject)

lemma hex_encode_eq_iff: "hex_encode s = hex_encode t \<longleftrightarrow> s = t"
  by (metis hex_encode_inj)

lemma hex_encode_append: "hex_encode (s @ t) = hex_encode s @ hex_encode t"
  by (simp add: hex_encode_def)

end
