(* ===== verification/Task.thy ===== *)
theory Task imports
  Codec
begin

text \<open>
  Package \<open>internal/task\<close>, file \<open>model.go\<close>: statuses, tasks, the snapshot a client polls and
  the identifiers of new tasks; and from \<open>store.go\<close> the idempotency key.
\<close>

section \<open>Statuses and tasks\<close>

text \<open>\<open>Status\<close> is a string type; a value that is none of the constants keeps its text.\<close>
datatype status = Pending | Running | Completed | Failed | Expired | Queued | OtherStatus gostring

record task =
  t_id :: gostring
  t_type :: gostring
  t_status :: status
  t_payload :: gostring
  t_result :: gostring
  t_error :: gostring
  t_attempts :: int
  t_max_attempts :: int
  t_locked_by :: gostring
  t_locked_until :: gotime
  t_next_attempt :: gotime
  t_request_id :: gostring
  t_client_id :: gostring
  t_created :: gotime
  t_updated :: gotime
  t_started :: gotime
  t_finished :: gotime

text \<open>The zero value \<open>Task{}\<close>, which a lookup of a missing map key yields.\<close>
definition zero_task :: task where
  "zero_task = \<lparr>t_id = [], t_type = [], t_status = OtherStatus [], t_payload = [], t_result = [],
     t_error = [], t_attempts = 0, t_max_attempts = 0, t_locked_by = [], t_locked_until = zero_time,
     t_next_attempt = zero_time, t_request_id = [], t_client_id = [], t_created = zero_time,
     t_updated = zero_time, t_started = zero_time, t_finished = zero_time\<rparr>"

record snapshot =
  sn_task_id :: gostring
  sn_type :: gostring
  sn_status :: status
  sn_progress :: int
  sn_result :: gostring
  sn_error :: gostring
  sn_request_id :: gostring
  sn_created :: gotime
  sn_updated :: gotime

definition normalize_status :: "status \<Rightarrow> status" where
  "normalize_status s =
     (case s of
        Queued \<Rightarrow> Pending
      | Pending \<Rightarrow> s | Running \<Rightarrow> s | Completed \<Rightarrow> s | Failed \<Rightarrow> s | Expired \<Rightarrow> s
      | OtherStatus _ \<Rightarrow> Pending)"

definition snapshot_of :: "task \<Rightarrow> snapshot" where
  "snapshot_of t =
     (let st = normalize_status (t_status t);
          progress = (case st of Running \<Rightarrow> 50 | Completed \<Rightarrow> 100 | Failed \<Rightarrow> 100 | Expired \<Rightarrow> 100 | _ \<Rightarrow> 0)
      in \<lparr>sn_task_id = t_id t, sn_type = t_type t, sn_status = st, sn_progress = progress,
          sn_result = t_result t, sn_error = t_error t, sn_request_id = t_request_id t,
          sn_created = t_created t, sn_updated = t_updated t\<rparr>)"

text \<open>\<open>GenerateID\<close>: \<open>entropy\<close> is what \<open>io.ReadFull\<close> puts into the 16-byte buffer, or None when it fails.\<close>
definition generate_id :: "gostring option \<Rightarrow> gostring option" where
  "generate_id entropy =
     (case entropy of
        None \<Rightarrow> None
      | Some raw \<Rightarrow> Some (''parse_'' @ b64_encode raw))"

definition idempotency_key :: "gostring \<Rightarrow> gostring \<Rightarrow> gostring \<Rightarrow> gostring" where
  "idempotency_key task_type request_id client_id =
     (let task_type = trim_space task_type; request_id = trim_space request_id;
          client_id = trim_space client_id
      in if task_type = [] \<or> request_id = [] \<or> client_id = [] then []
         else task_type @ [CHR 0x00] @ request_id @ [CHR 0x00] @ client_id)"

text \<open>The errors of the package, \<open>DBError\<close> standing for any failure of the database below it.\<close>
datatype task_error = IdentityIncomplete | LeaseNotOwned | EntropyUnavailable | DBError gostring

record create_request =
  cr_id :: gostring
  cr_type :: gostring
  cr_payload :: gostring
  cr_request_id :: gostring
  cr_client_id :: gostring
  cr_max_attempts :: int

definition default_max_attempts :: int where "default_max_attempts = 2"

definition default_lease :: duration where "default_lease = 15 * second"

text \<open>The worker name both stores derive from the caller's: trimmed, \<open>worker\<close> when blank.\<close>
definition worker_name :: "gostring \<Rightarrow> gostring" where
  "worker_name w = (if trim_space w = [] then ''worker'' else trim_space w)"

definition lease_or_default :: "duration \<Rightarrow> duration" where
  "lease_or_default d = (if d \<le> 0 then default_lease else d)"

definition max_or_default :: "int \<Rightarrow> int" where
  "max_or_default n = (if n \<le> 0 then default_max_attempts else n)"

definition time_or :: "gotime \<Rightarrow> gotime \<Rightarrow> gotime" where
  "time_or clk now = (if now = zero_time then clk else now)"

section \<open>Facts\<close>

lemma worker_name_nonempty [simp]: "worker_name w \<noteq> []"
  by (simp add: worker_name_def)

lemma worker_name_idem [simp]: "worker_name (worker_name w) = worker_name w"
proof -
  have "trim_space ''worker'' = ''worker''" by code_simp
  then show ?thesis by (simp add: worker_name_def)
qed

lemma lease_or_default_pos [simp]: "0 < lease_or_default d"
  by (simp add: lease_or_default_def default_lease_def second_def)

lemma max_or_default_pos [simp]: "0 < max_or_default n"
  by (simp add: max_or_default_def default_max_attempts_def)

lemma normalize_status_idem [simp]: "normalize_status (normalize_status s) = normalize_status s"
  by (cases s) (simp_all add: normalize_status_def)

lemma normalize_status_never_queued: "normalize_status s \<noteq> Queued"
  by (cases s) (simp_all add: normalize_status_def)

lemma generate_id_inj: "generate_id (Some a) = generate_id (Some b) \<Longrightarrow> a = b"
  by (auto simp: generate_id_def dest: b64_encode_inj)

lemma idempotency_key_inj:
  assumes "idempotency_key t r c = idempotency_key t' r' c'" and "idempotency_key t r c \<noteq> []"
    and "CHR 0x00 \<notin> set t \<union> set r \<union> set c" and "CHR 0x00 \<notin> set t' \<union> set r' \<union> set c'"
  shows "trim_space t = trim_space t' \<and> trim_space r = trim_space r' \<and> trim_space c = trim_space c'"
proof -
  have "join [CHR 0x00] [trim_space t, trim_space r, trim_space c]
      = join [CHR 0x00] [trim_space t', trim_space r', trim_space c']"
    using assms(1,2) by (auto simp: idempotency_key_def Let_def split: if_splits)
  moreover have "\<forall>x \<in> set [trim_space t, trim_space r, trim_space c]. CHR 0x00 \<notin> set x"
    and "\<forall>x \<in> set [trim_space t', trim_space r', trim_space c']. CHR 0x00 \<notin> set x"
    using assms(3,4) set_trim_space by fastforce+
  ultimately have "[trim_space t, trim_space r, trim_space c] = [trim_space t', trim_space r', trim_space c']"
    by (intro join_inj) simp_all
  then show ?thesis by simp
qed

text \<open>
  What a polling client sees of a task: the status is one of the canonical ones (a legacy
  \<open>queued\<close> or unknown status reads as \<open>pending\<close>), the progress is 0, 50 or 100 according to that
  status and is 100 exactly for the three terminal ones.
\<close>
theorem snapshot_progress:
  "sn_status (snapshot_of t) \<in> {Pending, Running, Completed, Failed, Expired} \<and>
   sn_progress (snapshot_of t) \<in> {0, 50, 100} \<and>
   (sn_progress (snapshot_of t) = 100 \<longleftrightarrow> t_status t \<in> {Completed, Failed, Expired}) \<and>
   (sn_progress (snapshot_of t) = 50 \<longleftrightarrow> t_status t = Running)"
  by (cases "t_status t") (simp_all add: snapshot_of_def normalize_status_def Let_def)

end
