(* ===== verification/LeaseSpec.thy ===== *)
theory LeaseSpec imports
  Task
begin

text \<open>
  The contract of \<open>task.LeaseStore\<close>, the interface between the worker and the two task
  stores.  Abstractly a store is a map from task identifiers to leases, and it moves by the
  events below; times are part of the events, so the contract speaks about expiry.  The
  locale at the end states what an implementation owes; both stores of the repository
  interpret it (theories \<open>TaskMemory\<close> and \<open>TaskMySQL\<close>).
\<close>

section \<open>Leases and events\<close>

record lease =
  l_status :: status
  l_attempts :: int
  l_max :: int
  l_holder :: gostring
  l_until :: gotime

type_synonym leases = "gostring \<Rightarrow> lease option"

datatype lease_event =
    ECreate gostring
  | EClaim gostring gostring gotime
  | EExhaust gostring
  | ERenew gostring gostring
  | EComplete gostring gostring
  | ERetry gostring gostring
  | EGiveUp gostring gostring
  | ERecover gostring gotime

definition held_by :: "lease \<Rightarrow> gostring \<Rightarrow> bool" where
  "held_by l w \<longleftrightarrow> l_status l = Running \<and> l_holder l = w"

definition terminal :: "status \<Rightarrow> bool" where
  "terminal s \<longleftrightarrow> s \<in> {Completed, Failed}"

inductive lstep :: "lease_event \<Rightarrow> leases \<Rightarrow> leases \<Rightarrow> bool" where
  create: "m i = None \<Longrightarrow> l_status l = Pending \<Longrightarrow> l_attempts l = 0 \<Longrightarrow> 0 < l_max l \<Longrightarrow>
     lstep (ECreate i) m (m(i \<mapsto> l))"
| claim: "m i = Some l \<Longrightarrow> l_status l = Pending \<Longrightarrow> l_attempts l < l_max l \<Longrightarrow> w \<noteq> [] \<Longrightarrow>
     lstep (EClaim i w u) m
       (m(i \<mapsto> l\<lparr>l_status := Running, l_attempts := l_attempts l + 1, l_holder := w, l_until := u\<rparr>))"
| exhaust: "m i = Some l \<Longrightarrow> l_status l = Pending \<Longrightarrow> l_max l \<le> l_attempts l \<Longrightarrow>
     lstep (EExhaust i) m (m(i \<mapsto> l\<lparr>l_status := Failed\<rparr>))"
| renew: "m i = Some l \<Longrightarrow> held_by l w \<Longrightarrow> lstep (ERenew i w) m (m(i \<mapsto> l\<lparr>l_until := u\<rparr>))"
| complete: "m i = Some l \<Longrightarrow> held_by l w \<Longrightarrow>
     lstep (EComplete i w) m (m(i \<mapsto> l\<lparr>l_status := Completed, l_holder := [], l_until := zero_time\<rparr>))"
| retry: "m i = Some l \<Longrightarrow> held_by l w \<Longrightarrow> l_attempts l < l_max l \<Longrightarrow>
     lstep (ERetry i w) m (m(i \<mapsto> l\<lparr>l_status := Pending, l_holder := [], l_until := zero_time\<rparr>))"
| give_up: "m i = Some l \<Longrightarrow> held_by l w \<Longrightarrow> l_max l \<le> l_attempts l \<Longrightarrow>
     lstep (EGiveUp i w) m (m(i \<mapsto> l\<lparr>l_status := Failed, l_holder := [], l_until := zero_time\<rparr>))"
| recover: "m i = Some l \<Longrightarrow> l_status l = Running \<Longrightarrow> l_until l \<le> now \<Longrightarrow>
     lstep (ERecover i now) m (m(i \<mapsto> l\<lparr>l_status := Pending, l_holder := [], l_until := zero_time\<rparr>))"

inductive_cases lstep_CreateE: "lstep (ECreate i) m m'"
inductive_cases lstep_ClaimE: "lstep (EClaim i w u) m m'"
inductive_cases lstep_RecoverE: "lstep (ERecover i now) m m'"

fun event_id :: "lease_event \<Rightarrow> gostring" where
  "event_id (ECreate i) = i"
| "event_id (EClaim i w u) = i"
| "event_id (EExhaust i) = i"
| "event_id (ERenew i w) = i"
| "event_id (EComplete i w) = i"
| "event_id (ERetry i w) = i"
| "event_id (EGiveUp i w) = i"
| "event_id (ERecover i now) = i"

fun is_claim_of :: "gostring \<Rightarrow> lease_event \<Rightarrow> bool" where
  "is_claim_of i (EClaim j w u) = (i = j)"
| "is_claim_of i e = False"

inductive lrun :: "lease_event list \<Rightarrow> leases \<Rightarrow> leases \<Rightarrow> bool" where
  nil: "lrun [] m m"
| cons: "lstep e m m' \<Longrightarrow> lrun es m' m'' \<Longrightarrow> lrun (e # es) m m''"

inductive_simps lrun_Nil [simp]: "lrun [] m m'"
inductive_simps lrun_Cons [simp]: "lrun (e # es) m m'"

definition claims_of :: "gostring \<Rightarrow> lease_event list \<Rightarrow> nat" where
  "claims_of i es = length (filter (is_claim_of i) es)"

lemma lrun_append: "lrun (es @ fs) m m'' \<longleftrightarrow> (\<exists>m'. lrun es m m' \<and> lrun fs m' m'')"
  by (induction es arbitrary: m) auto

lemma claims_of_append [simp]: "claims_of i (es @ fs) = claims_of i es + claims_of i fs"
  by (simp add: claims_of_def)

lemma claims_of_Nil [simp]: "claims_of i [] = 0"
  by (simp add: claims_of_def)

section \<open>The invariant\<close>

definition lease_ok :: "lease \<Rightarrow> bool" where
  "lease_ok l \<longleftrightarrow> 0 \<le> l_attempts l \<and> l_attempts l \<le> l_max l \<and> 0 < l_max l \<and>
     (l_status l = Running \<longrightarrow> l_holder l \<noteq> [])"

definition leases_ok :: "leases \<Rightarrow> bool" where
  "leases_ok m \<longleftrightarrow> (\<forall>i l. m i = Some l \<longrightarrow> lease_ok l)"

lemma lstep_ok: "lstep e m m' \<Longrightarrow> leases_ok m \<Longrightarrow> leases_ok m'"
  by (induction rule: lstep.induct) (auto simp: leases_ok_def lease_ok_def held_by_def)

lemma lrun_ok: "lrun es m m' \<Longrightarrow> leases_ok m \<Longrightarrow> leases_ok m'"
  by (induction rule: lrun.induct) (auto dest: lstep_ok)

lemma lstep_frame: "lstep e m m' \<Longrightarrow> i \<noteq> event_id e \<Longrightarrow> m' i = m i"
  by (induction rule: lstep.induct) auto

text \<open>A step does not look at the other leases.\<close>

lemma lstep_upd_other: "lstep e m m' \<Longrightarrow> i \<noteq> event_id e \<Longrightarrow> lstep e (m(i := x)) (m'(i := x))"
  by (induction rule: lstep.induct) (auto simp: fun_upd_twist intro: lstep.intros)

lemma lrun_upd_other:
  "lrun es m m' \<Longrightarrow> \<forall>e \<in> set es. i \<noteq> event_id e \<Longrightarrow> lrun es (m(i := x)) (m'(i := x))"
  by (induction rule: lrun.induct) (auto intro: lstep_upd_other)

text \<open>One step accounts for attempts exactly: only a claim raises the count, by one.\<close>

definition attempts_of :: "leases \<Rightarrow> gostring \<Rightarrow> int" where
  "attempts_of m i = (case m i of None \<Rightarrow> 0 | Some l \<Rightarrow> l_attempts l)"

lemma lstep_attempts: "lstep e m m' \<Longrightarrow> attempts_of m' i = attempts_of m i + (if is_claim_of i e then 1 else 0)"
  by (induction rule: lstep.induct) (auto simp: attempts_of_def)

lemma lrun_attempts: "lrun es m m' \<Longrightarrow> attempts_of m' i = attempts_of m i + int (claims_of i es)"
  by (induction rule: lrun.induct) (auto simp: claims_of_def dest!: lstep_attempts [of _ _ _ i])

lemma lstep_max: "lstep e m m' \<Longrightarrow> m i = Some l \<Longrightarrow> \<exists>l'. m' i = Some l' \<and> l_max l' = l_max l"
  by (induction rule: lstep.induct) auto

lemma lrun_max: "lrun es m m' \<Longrightarrow> m i = Some l \<Longrightarrow> \<exists>l'. m' i = Some l' \<and> l_max l' = l_max l"
proof (induction arbitrary: l rule: lrun.induct)
  case (cons e m m' es m'')
  then show ?case by (metis lstep_max)
qed simp

text \<open>The claims of a task are bounded by its own maximum, whatever the interleaving.\<close>

lemma claims_bounded:
  assumes "lrun es m m'" and "leases_ok m" and "m' i = Some l"
  shows "int (claims_of i es) + attempts_of m i \<le> l_max l"
proof -
  have "lease_ok l" using lrun_ok [OF assms(1,2)] assms(3) by (simp add: leases_ok_def)
  then have "attempts_of m' i \<le> l_max l" using assms(3) by (simp add: attempts_of_def lease_ok_def)
  then show ?thesis using lrun_attempts [OF assms(1), of i] by simp
qed

section \<open>Terminal states and exclusive leases\<close>

lemma lstep_terminal: "lstep e m m' \<Longrightarrow> m i = Some l \<Longrightarrow> terminal (l_status l) \<Longrightarrow> m' i = Some l"
  by (induction rule: lstep.induct) (auto simp: terminal_def held_by_def)

lemma lrun_terminal: "lrun es m m' \<Longrightarrow> m i = Some l \<Longrightarrow> terminal (l_status l) \<Longrightarrow> m' i = Some l"
  by (induction rule: lrun.induct) (auto dest: lstep_terminal)

text \<open>
  An event that cannot break a lease on \<open>i\<close> held by \<open>w\<close> until \<open>u\<close>: it does not recover at or
  after the expiry, and it is not the holder giving the task back.
\<close>
fun spares :: "gostring \<Rightarrow> gostring \<Rightarrow> gotime \<Rightarrow> lease_event \<Rightarrow> bool" where
  "spares i w u (ERecover j now) = (i = j \<longrightarrow> now < u)"
| "spares i w u (EComplete j v) = (i = j \<longrightarrow> v \<noteq> w)"
| "spares i w u (ERetry j v) = (i = j \<longrightarrow> v \<noteq> w)"
| "spares i w u (EGiveUp j v) = (i = j \<longrightarrow> v \<noteq> w)"
| "spares i w u (ERenew j v) = (i = j \<longrightarrow> v \<noteq> w)"
| "spares i w u e = True"

lemma lstep_exclusive:
  assumes "lstep e m m'" and "m i = Some l" and "held_by l w" and "spares i w (l_until l) e"
  shows "m' i = Some l \<and> \<not> is_claim_of i e"
  using assms by (induction rule: lstep.induct) (auto simp: held_by_def)

lemma lrun_exclusive:
  assumes "lrun es m m'" and "m i = Some l" and "held_by l w" and "\<forall>e \<in> set es. spares i w (l_until l) e"
  shows "m' i = Some l \<and> claims_of i es = 0"
  using assms
proof (induction rule: lrun.induct)
  case (cons e m m' es m'')
  then have "m' i = Some l \<and> \<not> is_claim_of i e" using lstep_exclusive [of e m m' i l w] by simp
  with cons show ?case by (simp add: claims_of_def)
qed simp

section \<open>The interface\<close>

text \<open>
  The method table of \<open>task.LeaseStore\<close>.  The first argument of a method is the reading of
  the store's own clock during the call.
\<close>
record 's lease_ops =
  lo_claim :: "gotime \<Rightarrow> gostring \<Rightarrow> gotime \<Rightarrow> duration \<Rightarrow> int \<Rightarrow> 's \<Rightarrow> (task_error + task option) \<times> 's"
  lo_renew :: "gotime \<Rightarrow> gostring \<Rightarrow> gostring \<Rightarrow> gotime \<Rightarrow> 's \<Rightarrow> task_error option \<times> 's"
  lo_complete :: "gotime \<Rightarrow> gostring \<Rightarrow> gostring \<Rightarrow> gostring \<Rightarrow> 's \<Rightarrow> task_error option \<times> 's"
  lo_fail :: "gotime \<Rightarrow> gostring \<Rightarrow> gostring \<Rightarrow> gostring \<Rightarrow> gotime \<Rightarrow> 's \<Rightarrow> task_error option \<times> 's"
  lo_recover :: "gotime \<Rightarrow> gotime \<Rightarrow> 's \<Rightarrow> (task_error + int) \<times> 's"

text \<open>The events of one call that returned no error, apart from the claim itself.\<close>
definition only_exhaust :: "lease_event list \<Rightarrow> bool" where
  "only_exhaust es \<longleftrightarrow> (\<forall>e \<in> set es. \<exists>i. e = EExhaust i)"

definition only_recover :: "gotime \<Rightarrow> lease_event list \<Rightarrow> bool" where
  "only_recover now es \<longleftrightarrow> (\<forall>e \<in> set es. \<exists>i. e = ERecover i now)"

lemma only_exhaust_claims: "only_exhaust es \<Longrightarrow> claims_of i es = 0"
  by (auto simp: only_exhaust_def claims_of_def filter_empty_conv)

lemma only_recover_claims: "only_recover now es \<Longrightarrow> claims_of i es = 0"
  by (auto simp: only_recover_def claims_of_def filter_empty_conv)

text \<open>A sweep over the entries of a store that requeues some of them, one recovery event each.\<close>

definition requeue :: "lease \<Rightarrow> lease" where
  "requeue l = l\<lparr>l_status := Pending, l_holder := [], l_until := zero_time\<rparr>"

definition entries_view :: "('a \<Rightarrow> gostring) \<Rightarrow> ('a \<Rightarrow> lease) \<Rightarrow> 'a list \<Rightarrow> leases" where
  "entries_view key ls xs = map_of (map (\<lambda>x. (key x, ls x)) xs)"

lemma entries_view_Cons: "entries_view key ls (x # xs) = (entries_view key ls xs)(key x \<mapsto> ls x)"
  by (simp add: entries_view_def)

lemma recover_sweep:
  assumes "distinct (map key xs)"
    and q: "\<And>x. q x \<Longrightarrow> l_status (ls x) = Running \<and> l_until (ls x) \<le> now"
    and g: "\<And>x. key (g x) = key x" "\<And>x. ls (g x) = requeue (ls x)"
  shows "\<exists>es. only_recover now es \<and> length es = length (filter q xs) \<and>
    (\<forall>e \<in> set es. event_id e \<in> key ` set xs) \<and>
    lrun es (entries_view key ls xs) (entries_view key ls (map (\<lambda>x. if q x then g x else x) xs))"
  using assms(1)
proof (induction xs)
  case Nil
  show ?case by (intro exI [of _ "[]"]) (simp add: only_recover_def)
next
  case (Cons x xs)
  let ?f = "\<lambda>x. if q x then g x else x"
  let ?v = "entries_view key ls"
  obtain es where es: "only_recover now es" "length es = length (filter q xs)"
    "\<forall>e \<in> set es. event_id e \<in> key ` set xs" "lrun es (?v xs) (?v (map ?f xs))"
    using Cons by auto
  have lift: "lrun es ((?v xs)(key x \<mapsto> l)) ((?v (map ?f xs))(key x \<mapsto> l))" for l
    using es(3,4) Cons.prems by (intro lrun_upd_other) auto
  show ?case
  proof (cases "q x")
    case False
    then have "lrun es (?v (x # xs)) (?v (map ?f (x # xs)))"
      using lift [of "ls x"] by (simp only: entries_view_Cons list.map if_False)
    then show ?thesis using es False by (intro exI [of _ es]) auto
  next
    case True
    let ?m = "(?v xs)(key x \<mapsto> ls x)"
    have "lstep (ERecover (key x) now) ?m (?m(key x \<mapsto> requeue (ls x)))"
      unfolding requeue_def using q [OF True] by (intro lstep.recover) simp_all
    then have "lrun (ERecover (key x) now # es) (?v (x # xs)) (?v (map ?f (x # xs)))"
      using lift [of "requeue (ls x)"] True g
      by (auto simp only: entries_view_Cons list.map if_True lrun_Cons fun_upd_upd)
    then show ?thesis using es True
      by (intro exI [of _ "ERecover (key x) now # es"]) (auto simp: only_recover_def)
  qed
qed

text \<open>
  An implementation may trim the identifiers it is given; it compares names by a \<open>key\<close> of them, and it keeps
  a deadline as its \<open>stamp\<close>.
\<close>
definition upto_trim :: "gostring \<Rightarrow> gostring \<Rightarrow> bool" where
  "upto_trim i j \<longleftrightarrow> j = i \<or> j = trim_space i"

lemma upto_trim_refl [simp, intro]: "upto_trim i i" "upto_trim i (trim_space i)"
  by (simp_all add: upto_trim_def)

locale lease_store =
  fixes ops :: "'s lease_ops" and view :: "'s \<Rightarrow> leases" and inv :: "'s \<Rightarrow> bool"
    and key :: "gostring \<Rightarrow> gostring" and stamp :: "gotime \<Rightarrow> gotime"
  assumes view_ok: "inv s \<Longrightarrow> leases_ok (view s)"
    and claim_Some: "inv s \<Longrightarrow> lo_claim ops clk w now d n s = (Inr (Some t), s') \<Longrightarrow>
      inv s' \<and> (\<exists>es. only_exhaust es \<and>
        lrun (es @ [EClaim (key (t_id t)) (key (worker_name w)) (stamp (time_or clk now + lease_or_default d))]) (view s) (view s')) \<and>
      map_option l_attempts (view s' (key (t_id t))) = Some (t_attempts t)"
    and claim_None: "inv s \<Longrightarrow> lo_claim ops clk w now d n s = (Inr None, s') \<Longrightarrow>
      inv s' \<and> (\<exists>es. only_exhaust es \<and> lrun es (view s) (view s'))"
    and claim_error: "lo_claim ops clk w now d n s = (Inl e, s') \<Longrightarrow> s' = s"
    and renew_ok: "inv s \<Longrightarrow> lo_renew ops clk i v until s = (None, s') \<Longrightarrow>
      inv s' \<and> (\<exists>j u. upto_trim i j \<and> upto_trim v u \<and> lrun [ERenew (key j) (key u)] (view s) (view s'))"
    and renew_error: "lo_renew ops clk i v until s = (Some e, s') \<Longrightarrow> s' = s"
    and complete_ok: "inv s \<Longrightarrow> lo_complete ops clk i v r s = (None, s') \<Longrightarrow>
      inv s' \<and> (\<exists>j u. upto_trim i j \<and> upto_trim v u \<and> lrun [EComplete (key j) (key u)] (view s) (view s'))"
    and complete_error: "lo_complete ops clk i v r s = (Some e, s') \<Longrightarrow> s' = s"
    and fail_ok: "inv s \<Longrightarrow> lo_fail ops clk i v msg retry s = (None, s') \<Longrightarrow>
      inv s' \<and> (\<exists>j u. upto_trim i j \<and> upto_trim v u \<and>
        (lrun [ERetry (key j) (key u)] (view s) (view s') \<or> lrun [EGiveUp (key j) (key u)] (view s) (view s')))"
    and fail_error: "lo_fail ops clk i v msg retry s = (Some e, s') \<Longrightarrow> s' = s"
    and recover_ok: "inv s \<Longrightarrow> lo_recover ops clk now s = (Inr k, s') \<Longrightarrow>
      inv s' \<and> (\<exists>es now'. now' \<in> {now, time_or clk now} \<and> only_recover now' es \<and> int (length es) = k \<and> lrun es (view s) (view s'))"
    and recover_error: "lo_recover ops clk now s = (Inl e, s') \<Longrightarrow> s' = s"

end
