(* ===== verification/TaskMemory.thy ===== *)
theory TaskMemory imports
  LeaseSpec
begin

text \<open>
  \<open>MemoryStore\<close> of \<open>internal/task/store.go\<close>: the in-process task store.  Every method of
  the code holds the store's mutex for its whole body, so each is one function on the
  state; \<open>clk\<close> is the reading of \<open>store.clock()\<close> in that call.  The store interprets
  \<open>lease_store\<close>.
\<close>

section \<open>State\<close>

record memory_store =
  ms_sequence :: int
  ms_tasks :: "(gostring, task) gomap"
  ms_order :: "gostring list"
  ms_idem :: "(gostring, gostring) gomap"
  ms_renewals :: "(gostring, int) gomap"

definition ms_empty :: memory_store where
  "ms_empty = \<lparr>ms_sequence = 0, ms_tasks = [], ms_order = [], ms_idem = [], ms_renewals = []\<rparr>"

definition ms_put :: "gostring \<Rightarrow> task \<Rightarrow> memory_store \<Rightarrow> memory_store" where
  "ms_put i t s = s\<lparr>ms_tasks := AList.update i t (ms_tasks s)\<rparr>"

section \<open>Operations\<close>

definition ms_create :: "gotime \<Rightarrow> create_request \<Rightarrow> memory_store \<Rightarrow> (task_error + task) \<times> memory_store" where
  "ms_create clk req s =
     (let i = trim_space (cr_id req); ty = trim_space (cr_type req) in
      if i = [] \<or> ty = [] then (Inl IdentityIncomplete, s)
      else
        let key = idempotency_key ty (cr_request_id req) (cr_client_id req);
            existing = (if key \<noteq> [] then get_or [] (ms_idem s) key else [])
        in if existing \<noteq> [] then (Inr (get_or zero_task (ms_tasks s) existing), s)
        else
          let t = zero_task\<lparr>t_id := i, t_type := ty, t_status := Pending, t_payload := cr_payload req,
                t_max_attempts := max_or_default (cr_max_attempts req), t_next_attempt := clk,
                t_request_id := trim_space (cr_request_id req),
                t_client_id := trim_space (cr_client_id req), t_created := clk, t_updated := clk\<rparr>
          in (Inr t, (ms_put i t s)\<lparr>ms_order := ms_order s @ [i],
                ms_idem := (if key \<noteq> [] then AList.update key i (ms_idem s) else ms_idem s)\<rparr>))"

text \<open>The loop of \<open>ClaimNext\<close> over the insertion order.\<close>
fun claim_scan :: "gotime \<Rightarrow> gostring \<Rightarrow> duration \<Rightarrow> int \<Rightarrow> gostring list \<Rightarrow> memory_store
    \<Rightarrow> task option \<times> memory_store" where
  "claim_scan now w d n [] s = (None, s)"
| "claim_scan now w d n (i # ids) s =
     (let t = get_or zero_task (ms_tasks s) i in
      if t_status t \<noteq> Pending then claim_scan now w d n ids s
      else if t_next_attempt t \<noteq> zero_time \<and> t_next_attempt t > now then claim_scan now w d n ids s
      else
        let t1 = (if t_max_attempts t \<le> 0 then t\<lparr>t_max_attempts := n\<rparr> else t) in
        if t_attempts t1 \<ge> t_max_attempts t1
        then claim_scan now w d n ids (ms_put i (t1\<lparr>t_status := Failed, t_updated := now\<rparr>) s)
        else
          let t2 = t1\<lparr>t_status := Running, t_attempts := t_attempts t1 + 1, t_locked_by := w,
                t_locked_until := now + d,
                t_started := (if t_started t1 = zero_time then now else t_started t1),
                t_updated := now\<rparr>
          in (Some t2, ms_put i t2 s))"

definition ms_claim_next :: "gotime \<Rightarrow> gostring \<Rightarrow> gotime \<Rightarrow> duration \<Rightarrow> int \<Rightarrow> memory_store
    \<Rightarrow> task option \<times> memory_store" where
  "ms_claim_next clk w now d n s =
     claim_scan (time_or clk now) (worker_name w) (lease_or_default d) (max_or_default n) (ms_order s) s"

text \<open>The guard shared by the three owner operations.\<close>
definition ms_owned :: "gostring \<Rightarrow> gostring \<Rightarrow> memory_store \<Rightarrow> task option" where
  "ms_owned i w s =
     (case map_of (ms_tasks s) i of
        None \<Rightarrow> None
      | Some t \<Rightarrow> if t_status t \<noteq> Running \<or> t_locked_by t \<noteq> w then None else Some t)"

definition ms_renew_lease :: "gotime \<Rightarrow> gostring \<Rightarrow> gostring \<Rightarrow> gotime \<Rightarrow> memory_store
    \<Rightarrow> task_error option \<times> memory_store" where
  "ms_renew_lease clk i w until s =
     (case ms_owned i w s of
        None \<Rightarrow> (Some LeaseNotOwned, s)
      | Some t \<Rightarrow> (None, (ms_put i (t\<lparr>t_locked_until := until, t_updated := clk\<rparr>) s)
            \<lparr>ms_renewals := AList.update i (get_or 0 (ms_renewals s) i + 1) (ms_renewals s)\<rparr>))"

definition ms_complete :: "gotime \<Rightarrow> gostring \<Rightarrow> gostring \<Rightarrow> gostring \<Rightarrow> memory_store
    \<Rightarrow> task_error option \<times> memory_store" where
  "ms_complete clk i w r s =
     (case ms_owned i w s of
        None \<Rightarrow> (Some LeaseNotOwned, s)
      | Some t \<Rightarrow> (None, ms_put i (t\<lparr>t_status := Completed, t_result := r, t_locked_by := [],
            t_locked_until := zero_time, t_finished := clk, t_updated := clk\<rparr>) s))"

definition ms_fail :: "gotime \<Rightarrow> gostring \<Rightarrow> gostring \<Rightarrow> gostring \<Rightarrow> gotime \<Rightarrow> memory_store
    \<Rightarrow> task_error option \<times> memory_store" where
  "ms_fail clk i w msg retry_at s =
     (case ms_owned i w s of
        None \<Rightarrow> (Some LeaseNotOwned, s)
      | Some t \<Rightarrow>
          let t1 = t\<lparr>t_error := trim_space msg, t_locked_by := [], t_locked_until := zero_time\<rparr>;
              t2 = (if t_attempts t1 \<ge> t_max_attempts t1
                    then t1\<lparr>t_status := Failed, t_finished := clk\<rparr>
                    else t1\<lparr>t_status := Pending, t_next_attempt := retry_at\<rparr>)
          in (None, ms_put i (t2\<lparr>t_updated := clk\<rparr>) s))"

definition lease_expired :: "gotime \<Rightarrow> task \<Rightarrow> bool" where
  "lease_expired now t \<longleftrightarrow>
     t_status t = Running \<and> t_locked_until t \<noteq> zero_time \<and> \<not> t_locked_until t > now"

definition requeued :: "gotime \<Rightarrow> task \<Rightarrow> task" where
  "requeued now t = t\<lparr>t_status := Pending, t_locked_by := [], t_locked_until := zero_time,
     t_next_attempt := now, t_updated := now\<rparr>"

text \<open>The entries are visited in some order; each is rewritten on its own.\<close>
definition ms_recover_expired :: "gotime \<Rightarrow> memory_store \<Rightarrow> int \<times> memory_store" where
  "ms_recover_expired now s =
     (int (length (filter (\<lambda>(i, t). lease_expired now t) (ms_tasks s))),
      s\<lparr>ms_tasks := map (\<lambda>(i, t). (i, if lease_expired now t then requeued now t else t)) (ms_tasks s)\<rparr>)"

definition ms_get :: "gostring \<Rightarrow> memory_store \<Rightarrow> task option" where
  "ms_get i s = map_of (ms_tasks s) (trim_space i)"

definition ms_status :: "gostring \<Rightarrow> memory_store \<Rightarrow> status" where
  "ms_status i s = normalize_status (t_status (get_or zero_task (ms_tasks s) i))"

definition ms_raw_status :: "gostring \<Rightarrow> memory_store \<Rightarrow> status" where
  "ms_raw_status i s = t_status (get_or zero_task (ms_tasks s) i)"

definition ms_snapshot :: "gostring \<Rightarrow> memory_store \<Rightarrow> snapshot option" where
  "ms_snapshot i s = map_option snapshot_of (ms_get i s)"

definition ms_next_attempt_at :: "gostring \<Rightarrow> memory_store \<Rightarrow> gotime" where
  "ms_next_attempt_at i s = t_next_attempt (get_or zero_task (ms_tasks s) i)"

definition ms_lease_renew_count :: "gostring \<Rightarrow> memory_store \<Rightarrow> int" where
  "ms_lease_renew_count i s = get_or 0 (ms_renewals s) i"

definition ms_count :: "memory_store \<Rightarrow> int" where
  "ms_count s = int (length (ms_tasks s))"

text \<open>The fixtures of the package: \<open>nextID\<close> and the three inserting helpers.\<close>

definition ms_next_id :: "gostring \<Rightarrow> memory_store \<Rightarrow> gostring \<times> memory_store" where
  "ms_next_id prefix s =
     (let n = ms_sequence s + 1 in (prefix @ ''_'' @ pad_dec 6 (nat n), s\<lparr>ms_sequence := n\<rparr>))"

definition ms_insert_pending :: "gotime \<Rightarrow> gostring \<Rightarrow> gostring \<Rightarrow> memory_store \<Rightarrow> gostring \<times> memory_store" where
  "ms_insert_pending clk ty payload s =
     (let (i, s1) = ms_next_id ''task'' s;
          (r, s2) = ms_create clk \<lparr>cr_id = i, cr_type = ty, cr_payload = payload, cr_request_id = [],
                      cr_client_id = [], cr_max_attempts = 0\<rparr> s1
      in case r of Inl _ \<Rightarrow> ([], s2) | Inr t \<Rightarrow> (t_id t, s2))"

definition ms_insert_running :: "gotime \<Rightarrow> gostring \<Rightarrow> gotime \<Rightarrow> memory_store \<Rightarrow> gostring \<times> memory_store" where
  "ms_insert_running clk ty until s =
     (let (i, s1) = ms_insert_pending clk ty ''{}'' s;
          t = (get_or zero_task (ms_tasks s1) i)\<lparr>t_status := Running, t_locked_by := ''previous-worker'',
                t_locked_until := until, t_started := clk, t_updated := clk\<rparr>
      in (i, ms_put i t s1))"

definition ms_insert_legacy_queued :: "gotime \<Rightarrow> gostring \<Rightarrow> memory_store \<Rightarrow> gostring \<times> memory_store" where
  "ms_insert_legacy_queued clk ty s =
     (let (i, s1) = ms_insert_pending clk ty ''{}'' s
      in (i, ms_put i ((get_or zero_task (ms_tasks s1) i)\<lparr>t_status := Queued\<rparr>) s1))"

definition memory_lease_ops :: "memory_store lease_ops" where
  "memory_lease_ops =
    \<lparr>lo_claim = (\<lambda>clk w now d n s. apfst Inr (ms_claim_next clk w now d n s)),
     lo_renew = ms_renew_lease,
     lo_complete = ms_complete,
     lo_fail = ms_fail,
     lo_recover = (\<lambda>clk now s. apfst Inr (ms_recover_expired now s))\<rparr>"

section \<open>Invariant and view\<close>

definition lease_of :: "task \<Rightarrow> lease" where
  "lease_of t = \<lparr>l_status = t_status t, l_attempts = t_attempts t, l_max = t_max_attempts t,
     l_holder = t_locked_by t, l_until = t_locked_until t\<rparr>"

definition tasks_view :: "(gostring, task) gomap \<Rightarrow> leases" where
  "tasks_view m i = map_option lease_of (map_of m i)"

definition ms_view :: "memory_store \<Rightarrow> leases" where
  "ms_view s = tasks_view (ms_tasks s)"

definition tasks_ok :: "(gostring, task) gomap \<Rightarrow> bool" where
  "tasks_ok m \<longleftrightarrow> distinct (keys m) \<and> (\<forall>i t. map_of m i = Some t \<longrightarrow> t_id t = i \<and> lease_ok (lease_of t))"

definition ms_inv :: "memory_store \<Rightarrow> bool" where
  "ms_inv s \<longleftrightarrow> tasks_ok (ms_tasks s) \<and> set (ms_order s) = set (keys (ms_tasks s)) \<and>
     (\<forall>k i. map_of (ms_idem s) k = Some i \<longrightarrow> i \<in> set (keys (ms_tasks s)))"

lemmas lease_of_simps = lease_of_def lease_ok_def held_by_def
lemmas ms_view_simps = ms_view_def tasks_view_def

lemma tasks_view_update [simp]: "tasks_view (AList.update i t m) = (tasks_view m)(i \<mapsto> lease_of t)"
  by (auto simp: tasks_view_def)

lemma tasks_ok_update:
  "tasks_ok m \<Longrightarrow> t_id t = i \<Longrightarrow> lease_ok (lease_of t) \<Longrightarrow> tasks_ok (AList.update i t m)"
  by (simp add: tasks_ok_def)

lemma ms_put_simps [simp]:
  "ms_tasks (ms_put i t s) = AList.update i t (ms_tasks s)"
  "ms_order (ms_put i t s) = ms_order s"
  "ms_idem (ms_put i t s) = ms_idem s"
  "ms_view (ms_put i t s) = (ms_view s)(i \<mapsto> lease_of t)"
  by (simp_all add: ms_put_def ms_view_def)

lemma ms_inv_put:
  assumes "ms_inv s" and "i \<in> set (keys (ms_tasks s))" and "t_id t = i" and "lease_ok (lease_of t)"
  shows "ms_inv (ms_put i t s)"
  using assms by (auto simp: ms_inv_def intro: tasks_ok_update)

lemma ms_inv_lookup:
  assumes "ms_inv s" and "i \<in> set (keys (ms_tasks s))"
  obtains t where "map_of (ms_tasks s) i = Some t" "t_id t = i" "lease_ok (lease_of t)"
    "ms_view s i = Some (lease_of t)"
proof -
  obtain t where t: "map_of (ms_tasks s) i = Some t"
    using assms(2) map_of_eq_None_iff_keys by (metis not_Some_eq)
  with assms(1) that show ?thesis by (auto simp: ms_inv_def tasks_ok_def ms_view_simps)
qed

lemma ms_owned_Some:
  assumes "ms_inv s" and "ms_owned i w s = Some t"
  shows "map_of (ms_tasks s) i = Some t" and "t_id t = i" and "lease_ok (lease_of t)"
    and "held_by (lease_of t) w" and "ms_view s i = Some (lease_of t)" and "i \<in> set (keys (ms_tasks s))"
proof -
  show m: "map_of (ms_tasks s) i = Some t" and "held_by (lease_of t) w"
    using assms(2) by (auto simp: ms_owned_def lease_of_simps split: option.splits if_splits)
  then show "i \<in> set (keys (ms_tasks s))" by (metis map_of_eq_None_iff_keys option.distinct(1))
  then show "t_id t = i" "lease_ok (lease_of t)" "ms_view s i = Some (lease_of t)"
    using assms(1) m by (auto simp: ms_inv_def tasks_ok_def ms_view_simps)
qed

section \<open>Simulation\<close>

lemma claim_scan_sim:
  assumes "claim_scan now w d n ids s = (r, s')" and "ms_inv s" and "set ids \<subseteq> set (keys (ms_tasks s))"
    and "w \<noteq> []"
  shows "ms_inv s' \<and> (\<exists>es. only_exhaust es \<and>
    (case r of
       None \<Rightarrow> lrun es (ms_view s) (ms_view s')
     | Some t \<Rightarrow> lrun (es @ [EClaim (t_id t) w (now + d)]) (ms_view s) (ms_view s') \<and>
         map_of (ms_tasks s') (t_id t) = Some t))"
  using assms
proof (induction ids arbitrary: s)
  case Nil
  then show ?case by (intro conjI exI [of _ "[]"]) (auto simp: only_exhaust_def)
next
  case (Cons i ids)
  then have i: "i \<in> set (keys (ms_tasks s))" by simp
  obtain t where t: "map_of (ms_tasks s) i = Some t" "t_id t = i" "lease_ok (lease_of t)"
    "ms_view s i = Some (lease_of t)"
    using ms_inv_lookup [OF Cons.prems(2) i] .
  have g: "get_or zero_task (ms_tasks s) i = t" using t(1) by (rule get_or_Some)
  have mx: "\<not> t_max_attempts t \<le> 0" using t(3) by (simp add: lease_of_simps)
  consider (skip) "t_status t \<noteq> Pending \<or> (t_next_attempt t \<noteq> zero_time \<and> t_next_attempt t > now)"
    | (out) "t_status t = Pending" "\<not> (t_next_attempt t \<noteq> zero_time \<and> t_next_attempt t > now)"
        "t_attempts t \<ge> t_max_attempts t"
    | (go) "t_status t = Pending" "\<not> (t_next_attempt t \<noteq> zero_time \<and> t_next_attempt t > now)"
        "t_attempts t < t_max_attempts t"
    by linarith
  then show ?case
  proof cases
    case skip
    then have "claim_scan now w d n ids s = (r, s')"
      using Cons.prems(1) g by (auto simp: Let_def split: if_splits)
    then show ?thesis using Cons by simp
  next
    case out
    let ?t = "t\<lparr>t_status := Failed, t_updated := now\<rparr>"
    let ?s = "ms_put i ?t s"
    have run: "claim_scan now w d n ids ?s = (r, s')"
      using Cons.prems(1) g mx out by (simp add: Let_def)
    have inv: "ms_inv ?s"
      using Cons.prems(2) i t(2,3) by (intro ms_inv_put) (auto simp: lease_of_simps)
    have sub: "set ids \<subseteq> set (keys (ms_tasks ?s))" using Cons.prems(3) by auto
    have st: "lstep (EExhaust i) (ms_view s) (ms_view ?s)"
      using lstep.exhaust [of "ms_view s" i "lease_of t", OF t(4)] out by (simp add: lease_of_def)
    obtain es where es: "ms_inv s'" "only_exhaust es" "case r of
       None \<Rightarrow> lrun es (ms_view ?s) (ms_view s')
     | Some t \<Rightarrow> lrun (es @ [EClaim (t_id t) w (now + d)]) (ms_view ?s) (ms_view s') \<and>
         map_of (ms_tasks s') (t_id t) = Some t"
      using Cons.IH [OF run inv sub Cons.prems(4)] by blast
    have "only_exhaust (EExhaust i # es)" using es(2) by (simp add: only_exhaust_def)
    moreover have "case r of
       None \<Rightarrow> lrun (EExhaust i # es) (ms_view s) (ms_view s')
     | Some t \<Rightarrow> lrun ((EExhaust i # es) @ [EClaim (t_id t) w (now + d)]) (ms_view s) (ms_view s') \<and>
         map_of (ms_tasks s') (t_id t) = Some t"
      using es(3) st by (cases r) (auto simp del: ms_put_simps)
    ultimately show ?thesis using es(1) by blast
  next
    case go
    let ?t = "t\<lparr>t_status := Running, t_attempts := t_attempts t + 1, t_locked_by := w,
                t_locked_until := now + d,
                t_started := (if t_started t = zero_time then now else t_started t),
                t_updated := now\<rparr>"
    have r: "r = Some ?t" and s': "s' = ms_put i ?t s"
      using Cons.prems(1) g mx go by (simp_all add: Let_def split: if_splits)
    have "lstep (EClaim i w (now + d)) (ms_view s) (ms_view s')"
      using lstep.claim [of "ms_view s" i "lease_of t" w "now + d", OF t(4)] go Cons.prems(4) by (simp add: s' lease_of_def)
    moreover have "ms_inv s'"
      unfolding s' using Cons.prems(2,4) i t(2,3) go by (intro ms_inv_put) (auto simp: lease_of_simps)
    ultimately show ?thesis using t(2)
      by (intro conjI exI [of _ "[]"]) (auto simp: r s' only_exhaust_def simp del: ms_put_simps(4))
  qed
qed

lemma tasks_view_entries: "tasks_view m = entries_view fst (\<lambda>p. lease_of (snd p)) m"
  by (rule ext, induction m) (auto simp: tasks_view_def entries_view_def)

lemma ms_recover_sim:
  assumes "ms_inv s" and "ms_recover_expired now s = (k, s')"
  shows "ms_inv s' \<and> (\<exists>es. only_recover now es \<and> int (length es) = k \<and> lrun es (ms_view s) (ms_view s'))"
proof -
  let ?q = "\<lambda>p. lease_expired now (snd p)"
  let ?f = "\<lambda>p. if ?q p then apsnd (requeued now) p else p"
  let ?m = "ms_tasks s"
  have f: "map (\<lambda>(i, t). (i, if lease_expired now t then requeued now t else t)) ?m = map ?f ?m"
    by auto
  have s': "s' = s\<lparr>ms_tasks := map ?f ?m\<rparr>" and k: "k = int (length (filter ?q ?m))"
    unfolding f [symmetric] using assms(2) by (auto simp: ms_recover_expired_def case_prod_unfold)
  have "keys (map ?f ?m) = keys ?m" by (simp add: keys_def comp_def if_distrib cong: if_cong)
  moreover have "map_of (map ?f ?m) i = map_option (\<lambda>t. if lease_expired now t then requeued now t else t) (map_of ?m i)" for i
    unfolding f [symmetric] by (rule map_of_map [THEN fun_cong, unfolded comp_def])
  ultimately have "ms_inv s'"
    using assms(1) unfolding s' ms_inv_def tasks_ok_def
    by (auto simp: requeued_def lease_of_simps split: if_splits)
  moreover have "\<exists>es. only_recover now es \<and> length es = length (filter ?q ?m) \<and>
      (\<forall>e \<in> set es. event_id e \<in> fst ` set ?m) \<and> lrun es (tasks_view ?m) (tasks_view (map ?f ?m))"
    unfolding tasks_view_entries using assms(1)
    by (intro recover_sweep)
      (auto simp: ms_inv_def tasks_ok_def keys_def lease_expired_def requeued_def requeue_def lease_of_def)
  ultimately show ?thesis by (auto simp: ms_view_def s' k)
qed

lemma ms_inv_ok: "ms_inv s \<Longrightarrow> leases_ok (ms_view s)"
  by (auto simp: ms_inv_def tasks_ok_def leases_ok_def ms_view_simps)

lemma ms_claim_sim:
  assumes "ms_inv s" and "ms_claim_next clk w now d n s = (r, s')"
  shows "ms_inv s' \<and> (\<exists>es. only_exhaust es \<and>
    (case r of
       None \<Rightarrow> lrun es (ms_view s) (ms_view s')
     | Some t \<Rightarrow> lrun (es @ [EClaim (t_id t) (worker_name w) (time_or clk now + lease_or_default d)])
           (ms_view s) (ms_view s') \<and> map_of (ms_tasks s') (t_id t) = Some t))"
  using assms by (intro claim_scan_sim [where n = "max_or_default n" and ids = "ms_order s"])
    (auto simp: ms_claim_next_def ms_inv_def)

interpretation memory: lease_store memory_lease_ops ms_view ms_inv "\<lambda>i. i" "\<lambda>t. t"
proof (unfold_locales, goal_cases)
  case (1 s) then show ?case by (rule ms_inv_ok)
next
  case (2 s clk w now d n t s')
  then have "ms_claim_next clk w now d n s = (Some t, s')"
    by (cases "ms_claim_next clk w now d n s") (auto simp: memory_lease_ops_def)
  then show ?case using ms_claim_sim [OF 2(1)]
    by (fastforce simp: ms_view_simps lease_of_def)
next
  case (3 s clk w now d n s')
  then have "ms_claim_next clk w now d n s = (None, s')"
    by (cases "ms_claim_next clk w now d n s") (auto simp: memory_lease_ops_def)
  then show ?case using ms_claim_sim [OF 3(1)] by fastforce
next
  case (4 clk w now d n s e s') then show ?case
    by (cases "ms_claim_next clk w now d n s") (auto simp: memory_lease_ops_def)
next
  case (5 s clk i v until s')
  then obtain t where t: "ms_owned i v s = Some t"
    by (auto simp: memory_lease_ops_def ms_renew_lease_def split: option.splits)
  note o = ms_owned_Some [OF 5(1) t]
  have "ms_inv s'" using 5 t o ms_inv_put [OF 5(1) o(6), of "t\<lparr>t_locked_until := until, t_updated := clk\<rparr>"]
    by (auto simp: memory_lease_ops_def ms_renew_lease_def ms_inv_def lease_of_simps)
  moreover have "lrun [ERenew i v] (ms_view s) (ms_view s')"
    using 5 t lstep.renew [of "ms_view s" i "lease_of t" v until, OF o(5,4)]
    by (auto simp: memory_lease_ops_def ms_renew_lease_def ms_view_def lease_of_def)
  ultimately show ?case by blast
next
  case (6 clk i v until s e s') then show ?case
    by (auto simp: memory_lease_ops_def ms_renew_lease_def split: option.splits)
next
  case (7 s clk i v r s')
  then obtain t where t: "ms_owned i v s = Some t"
    by (auto simp: memory_lease_ops_def ms_complete_def split: option.splits)
  note o = ms_owned_Some [OF 7(1) t]
  have "ms_inv s'" using 7 t o
    by (auto simp: memory_lease_ops_def ms_complete_def lease_of_simps intro!: ms_inv_put)
  moreover have "lrun [EComplete i v] (ms_view s) (ms_view s')"
    using 7 t lstep.complete [of "ms_view s" i "lease_of t" v, OF o(5,4)]
    by (auto simp: memory_lease_ops_def ms_complete_def lease_of_def)
  ultimately show ?case by blast
next
  case (8 clk i v r s e s') then show ?case
    by (auto simp: memory_lease_ops_def ms_complete_def split: option.splits)
next
  case (9 s clk i v msg retry s')
  then obtain t where t: "ms_owned i v s = Some t"
    by (auto simp: memory_lease_ops_def ms_fail_def split: option.splits)
  note o = ms_owned_Some [OF 9(1) t]
  have "ms_inv s'" using 9 t o
    by (auto simp: memory_lease_ops_def ms_fail_def Let_def lease_of_simps intro!: ms_inv_put)
  moreover have "lrun [ERetry i v] (ms_view s) (ms_view s') \<or> lrun [EGiveUp i v] (ms_view s) (ms_view s')"
    using 9 t lstep.retry [of "ms_view s" i "lease_of t" v, OF o(5,4)] lstep.give_up [of "ms_view s" i "lease_of t" v, OF o(5,4)]
    by (cases "t_attempts t \<ge> t_max_attempts t")
      (auto simp: memory_lease_ops_def ms_fail_def Let_def lease_of_def)
  ultimately show ?case by blast
next
  case (10 clk i v msg retry s e s') then show ?case
    by (auto simp: memory_lease_ops_def ms_fail_def Let_def split: option.splits)
next
  case (11 s clk now k s')
  then have "ms_recover_expired now s = (k, s')"
    by (cases "ms_recover_expired now s") (auto simp: memory_lease_ops_def)
  then show ?case using ms_recover_sim [OF 11(1)] by blast
next
  case (12 clk now s e s') then show ?case
    by (cases "ms_recover_expired now s") (auto simp: memory_lease_ops_def)
qed

section \<open>Creation\<close>

lemma ms_create_cases:
  obtains (error) "ms_create clk req s = (Inl IdentityIncomplete, s)"
      "trim_space (cr_id req) = [] \<or> trim_space (cr_type req) = []"
  | (known) i where "ms_create clk req s = (Inr (get_or zero_task (ms_tasks s) i), s)" "i \<noteq> []"
      "map_of (ms_idem s) (idempotency_key (cr_type req) (cr_request_id req) (cr_client_id req)) = Some i"
  | (new) t s' where "ms_create clk req s = (Inr t, s')" "t_id t = trim_space (cr_id req)" "t_id t \<noteq> []"
      "t_status t = Pending" "t_attempts t = 0" "0 < t_max_attempts t" "lease_ok (lease_of t)"
      "ms_tasks s' = AList.update (t_id t) t (ms_tasks s)" "ms_order s' = ms_order s @ [t_id t]"
      "ms_idem s' = (let key = idempotency_key (cr_type req) (cr_request_id req) (cr_client_id req)
         in if key \<noteq> [] then AList.update key (t_id t) (ms_idem s) else ms_idem s)"
proof -
  have key: "idempotency_key (trim_space ty) r c = idempotency_key ty r c" for ty r c
    by (simp add: idempotency_key_def Let_def)
  let ?key = "idempotency_key (cr_type req) (cr_request_id req) (cr_client_id req)"
  let ?ex = "if ?key \<noteq> [] then get_or [] (ms_idem s) ?key else []"
  consider "trim_space (cr_id req) = [] \<or> trim_space (cr_type req) = []"
    | "trim_space (cr_id req) \<noteq> []" "trim_space (cr_type req) \<noteq> []" "?ex \<noteq> []"
    | "trim_space (cr_id req) \<noteq> []" "trim_space (cr_type req) \<noteq> []" "?ex = []"
    by blast
  then show ?thesis
  proof cases
    case 1
    then show ?thesis by (intro error) (auto simp: ms_create_def Let_def)
  next
    case 2
    then show ?thesis
      by (intro known [of ?ex]) (auto simp: ms_create_def Let_def key get_or_def split: if_splits option.splits)
  next
    case 3
    then show ?thesis
      by (intro new) (auto simp: ms_create_def Let_def key lease_of_simps zero_task_def less_imp_le)
  qed
qed

lemma ms_create_inv:
  assumes "ms_inv s" and "ms_create clk req s = (r, s')"
  shows "ms_inv s'"
proof (cases rule: ms_create_cases [of clk req s])
  case (new t s'')
  with assms show ?thesis
    by (auto simp: ms_inv_def tasks_ok_def Let_def split: if_splits)
qed (use assms in auto)

lemma ms_create_fresh:
  assumes "ms_create clk req s = (Inr t, s')" and "trim_space (cr_id req) \<notin> set (keys (ms_tasks s))"
    and "s' \<noteq> s"
  shows "lrun [ECreate (t_id t)] (ms_view s) (ms_view s')"
proof (cases rule: ms_create_cases [of clk req s])
  case (new u s'')
  then have "u = t" and "s'' = s'" using assms(1) by auto
  with new assms(2) have "ms_view s (t_id t) = None"
    by (simp add: ms_view_simps map_of_eq_None_iff_keys)
  then have "lstep (ECreate (t_id t)) (ms_view s) ((ms_view s)(t_id t \<mapsto> lease_of t))"
    using new \<open>u = t\<close> by (intro lstep.create) (simp_all add: lease_of_def)
  moreover have "ms_view s' = (ms_view s)(t_id t \<mapsto> lease_of t)"
    using new \<open>u = t\<close> \<open>s'' = s'\<close> by (simp add: ms_view_def)
  ultimately show ?thesis by simp
qed (use assms in auto)

text \<open>
  Creating a task is idempotent per (type, request id, client id): once a creation with a
  complete identity has succeeded, a second creation with the same identity (up to surrounding
  white space), whatever its task id and payload, answers with the first task and changes nothing.
\<close>
theorem ms_create_idempotent:
  assumes "ms_create clk req s = (Inr t, s1)" and "s1 \<noteq> s"
    and "idempotency_key (cr_type req) (cr_request_id req) (cr_client_id req) \<noteq> []"
    and "idempotency_key (cr_type req') (cr_request_id req') (cr_client_id req')
       = idempotency_key (cr_type req) (cr_request_id req) (cr_client_id req)"
    and "trim_space (cr_id req') \<noteq> []"
  shows "ms_create clk' req' s1 = (Inr t, s1)"
proof (cases rule: ms_create_cases [of clk req s])
  case (new u s'')
  then have eq: "u = t" "s'' = s1" using assms(1) by auto
  let ?key = "idempotency_key (cr_type req) (cr_request_id req) (cr_client_id req)"
  have idem: "map_of (ms_idem s1) ?key = Some (t_id t)" and tasks: "map_of (ms_tasks s1) (t_id t) = Some t"
    using new eq assms(3) by (simp_all add: Let_def)
  have ty: "trim_space (cr_type req') \<noteq> []"
    using assms(3,4) by (auto simp: idempotency_key_def Let_def split: if_splits)
  show ?thesis
  proof (cases rule: ms_create_cases [of clk' req' s1])
    case error
    then show ?thesis using assms(5) ty by simp
  next
    case (known i)
    then show ?thesis using idem tasks assms(4) by (simp add: get_or_Some)
  next
    case (new v s3)
    moreover have "ms_create clk' req' s1 = (Inr (get_or zero_task (ms_tasks s1) (t_id t)), s1)"
      using assms(3,4,5) idem ty \<open>t_id u \<noteq> []\<close> eq
      by (simp add: ms_create_def Let_def get_or_Some idempotency_key_def)
    ultimately show ?thesis using tasks by (simp add: get_or_Some)
  qed
qed (use assms in auto)

theorem ms_create_idempotent_witness:
  "let r1 = \<lparr>cr_id = ''parse_1'', cr_type = ''parse'', cr_payload = ''{}'', cr_request_id = ''r1'', cr_client_id = ''c1'', cr_max_attempts = 0\<rparr>;
       r2 = \<lparr>cr_id = ''parse_2'', cr_type = ''parse'', cr_payload = ''[]'', cr_request_id = '' r1 '', cr_client_id = ''c1'', cr_max_attempts = 5\<rparr>;
       s1 = snd (ms_create 100 r1 ms_empty)
   in snd (ms_create 200 r2 s1) = s1 \<and> map_sum id t_id (fst (ms_create 200 r2 s1)) = Inr ''parse_1''"
proof -
  let ?r1 = "\<lparr>cr_id = ''parse_1'', cr_type = ''parse'', cr_payload = ''{}'', cr_request_id = ''r1'', cr_client_id = ''c1'', cr_max_attempts = 0\<rparr>"
  let ?r2 = "\<lparr>cr_id = ''parse_2'', cr_type = ''parse'', cr_payload = ''[]'', cr_request_id = '' r1 '', cr_client_id = ''c1'', cr_max_attempts = 5\<rparr>"
  have "map_sum id t_id (fst (ms_create 100 ?r1 ms_empty)) = Inr ''parse_1''" by code_simp
  then obtain t where t: "ms_create 100 ?r1 ms_empty = (Inr t, snd (ms_create 100 ?r1 ms_empty))" "t_id t = ''parse_1''"
    by (cases "ms_create 100 ?r1 ms_empty"; cases "fst (ms_create 100 ?r1 ms_empty)") auto
  have "length (ms_tasks (snd (ms_create 100 ?r1 ms_empty))) \<noteq> length (ms_tasks ms_empty)" by code_simp
  then have "snd (ms_create 100 ?r1 ms_empty) \<noteq> ms_empty" by metis
  moreover have "idempotency_key (cr_type ?r1) (cr_request_id ?r1) (cr_client_id ?r1) \<noteq> []"
    and "idempotency_key (cr_type ?r2) (cr_request_id ?r2) (cr_client_id ?r2) = idempotency_key (cr_type ?r1) (cr_request_id ?r1) (cr_client_id ?r1)"
    and "trim_space (cr_id ?r2) \<noteq> []" by code_simp+
  ultimately have "ms_create 200 ?r2 (snd (ms_create 100 ?r1 ms_empty)) = (Inr t, snd (ms_create 100 ?r1 ms_empty))"
    by (rule ms_create_idempotent [OF t(1)])
  then show ?thesis using t(2) by (simp add: Let_def)
qed

end
