(* ===== verification/MySQLColumns.thy ===== *)
theory MySQLColumns imports
  Prelude
begin

text \<open>
  What the columns of the MySQL tables do to their values (\<open>migrations/*.sql\<close>): no table names a collation,
  so text compares as the default one of \<open>utf8mb4\<close> does, without regard to case (exact on ASCII); every
  \<open>DATETIME\<close> column has no fraction, so MySQL rounds what is stored to the nearest second, while a parameter
  of a comparison keeps its fraction (to the microsecond in which the wire carries it; the model lets it keep
  the nanosecond).
\<close>

definition collate :: "gostring \<Rightarrow> gostring" where
  "collate s = to_lower s"

definition mysql_datetime :: "gotime \<Rightarrow> gotime" where
  "mysql_datetime t = (t + 500000000) div second * second"

lemma collate_Nil [simp]: "collate s = [] \<longleftrightarrow> s = []"
  by (cases s) (simp_all add: collate_def to_lower_def)

lemma collate_empty [simp]: "collate [] = []"
  by simp

text \<open>A stored time is off by half a second at most, either way.\<close>
lemma mysql_datetime_near: "t - 500000000 < mysql_datetime t \<and> mysql_datetime t \<le> t + 500000000"
proof -
  have "(t + 500000000) div 1000000000 * 1000000000 + (t + 500000000) mod 1000000000 = t + 500000000" by simp
  moreover have "0 \<le> (t + 500000000) mod 1000000000" "(t + 500000000) mod 1000000000 < 1000000000" by simp_all
  ultimately show ?thesis unfolding mysql_datetime_def second_def by linarith
qed

end
