(* ===== verification/TaskMySQL.thy ===== *)
theory TaskMySQL imports
  LeaseSpec
  MySQLColumns
begin

text \<open>
  The task methods of \<open>MySQLRuntimeStore\<close> (\<open>internal/store/runtime_mysql.go\<close>): the table
  \<open>parse_tasks\<close> as a list of rows in primary-key order, each statement as the update or
  selection it performs, each transaction as one function (the claiming transaction locks
  its row, so concurrent claims are serialised on it).  A nullable column is an option.
  \<open>db\<close> is \<open>Some e\<close> when the database fails the call (because it cannot be reached, or because a value does
  not fit its column), which then changes nothing; \<open>RowsAffected\<close> counts the rows a statement changes, as
  the driver's default does.  Names compare by \<open>collate\<close> and times are stored as \<open>mysql_datetime\<close>
  (\<open>MySQLColumns\<close>).  A \<open>JSON\<close> column keeps a normal form of the text it is given: \<open>tb_json\<close> is the server's, None
  for a text it refuses.
\<close>

section \<open>The table\<close>

record task_row =
  rw_id :: int
  rw_task_id :: gostring
  rw_type :: gostring
  rw_status :: status
  rw_payload :: gostring
  rw_result :: gostring
  rw_error :: gostring
  rw_retry_count :: int
  rw_max_attempts :: int
  rw_locked_by :: gostring
  rw_locked_until :: "gotime option"
  rw_available_at :: gotime
  rw_next_attempt :: "gotime option"
  rw_request_id :: gostring
  rw_client_id :: gostring
  rw_created :: gotime
  rw_updated :: gotime
  rw_started :: "gotime option"
  rw_finished :: "gotime option"

record task_table =
  tb_rows :: "task_row list"
  tb_next_id :: int
  tb_json :: "gostring \<Rightarrow> gostring option"

definition sq_update :: "(task_row \<Rightarrow> bool) \<Rightarrow> (task_row \<Rightarrow> task_row) \<Rightarrow> task_table \<Rightarrow> int \<times> task_table" where
  "sq_update P f tb =
     (int (length (filter (\<lambda>r. P r \<and> f r \<noteq> r) (tb_rows tb))),
      tb\<lparr>tb_rows := map (\<lambda>r. if P r then f r else r) (tb_rows tb)\<rparr>)"

definition nullable_time :: "gotime option \<Rightarrow> gotime" where
  "nullable_time t = (case t of None \<Rightarrow> zero_time | Some u \<Rightarrow> u)"

definition scan_task :: "task_row \<Rightarrow> task" where
  "scan_task r = \<lparr>t_id = rw_task_id r, t_type = rw_type r, t_status = normalize_status (rw_status r),
     t_payload = rw_payload r, t_result = rw_result r, t_error = trim_space (rw_error r),
     t_attempts = rw_retry_count r, t_max_attempts = rw_max_attempts r, t_locked_by = rw_locked_by r,
     t_locked_until = nullable_time (rw_locked_until r), t_next_attempt = nullable_time (rw_next_attempt r),
     t_request_id = rw_request_id r, t_client_id = rw_client_id r, t_created = rw_created r,
     t_updated = rw_updated r, t_started = nullable_time (rw_started r),
     t_finished = nullable_time (rw_finished r)\<rparr>"

text \<open>\<open>findTaskByPredicate\<close>: the first matching row, scanned.\<close>
definition sq_find :: "(task_row \<Rightarrow> bool) \<Rightarrow> task_table \<Rightarrow> task option" where
  "sq_find P tb = map_option scan_task (find P (tb_rows tb))"

section \<open>Operations\<close>

text \<open>The inserted row.\<close>
definition new_task_row :: "gotime \<Rightarrow> create_request \<Rightarrow> gostring \<Rightarrow> int \<Rightarrow> task_row" where
  "new_task_row clk req payload i =
     \<lparr>rw_id = i, rw_task_id = trim_space (cr_id req), rw_type = trim_space (cr_type req), rw_status = Pending,
      rw_payload = payload, rw_result = [], rw_error = [], rw_retry_count = 0,
      rw_max_attempts = max_or_default (cr_max_attempts req), rw_locked_by = [], rw_locked_until = None,
      rw_available_at = mysql_datetime clk, rw_next_attempt = Some (mysql_datetime clk),
      rw_request_id = trim_space (cr_request_id req), rw_client_id = trim_space (cr_client_id req),
      rw_created = mysql_datetime clk, rw_updated = mysql_datetime clk, rw_started = None, rw_finished = None\<rparr>"

definition sq_create :: "gostring option \<Rightarrow> gotime \<Rightarrow> create_request \<Rightarrow> task_table
    \<Rightarrow> (task_error + task) \<times> task_table" where
  "sq_create db clk req tb =
     (let i = trim_space (cr_id req); ty = trim_space (cr_type req);
          rq = trim_space (cr_request_id req); cl = trim_space (cr_client_id req);
          maxa = max_or_default (cr_max_attempts req)
      in if i = [] \<or> ty = [] then (Inl IdentityIncomplete, tb)
      else case db of Some e \<Rightarrow> (Inl (DBError e), tb)
      | None \<Rightarrow>
        (case (if rq \<noteq> [] \<and> cl \<noteq> []
               then sq_find (\<lambda>r. collate (rw_type r) = collate ty \<and> collate (rw_request_id r) = collate rq \<and> collate (rw_client_id r) = collate cl) tb
               else None) of
           Some existing \<Rightarrow> (Inr existing, tb)
         | None \<Rightarrow>
             case tb_json tb (cr_payload req) of
               None \<Rightarrow> (Inl (DBError ''invalid JSON text''), tb)
             | Some payload \<Rightarrow>
             if list_ex (\<lambda>r. collate (rw_task_id r) = collate i) (tb_rows tb)
             then (Inl (DBError ''duplicate entry''), tb\<lparr>tb_next_id := tb_next_id tb + 1\<rparr>)
             else
               (Inr (zero_task\<lparr>t_id := i, t_type := ty, t_status := Pending, t_payload := cr_payload req,
                   t_max_attempts := maxa, t_next_attempt := clk, t_request_id := rq,
                   t_client_id := cl, t_created := clk, t_updated := clk\<rparr>),
                tb\<lparr>tb_rows := tb_rows tb @
                     [new_task_row clk req payload (tb_next_id tb)],
                   tb_next_id := tb_next_id tb + 1\<rparr>)))"

text \<open>
  The claiming selection: a claimable row of the least whole second of creation (\<open>ORDER BY created_at ASC
  LIMIT 1\<close>); among equal ones, which MySQL leaves open, the first.
\<close>
definition claimable :: "gotime \<Rightarrow> task_row \<Rightarrow> bool" where
  "claimable now r \<longleftrightarrow> rw_status r = Pending \<and>
     (case rw_next_attempt r of None \<Rightarrow> True | Some u \<Rightarrow> u \<le> now) \<and> rw_retry_count r < rw_max_attempts r"

fun oldest :: "task_row list \<Rightarrow> task_row option" where
  "oldest [] = None"
| "oldest (r # rs) =
     (case oldest rs of None \<Rightarrow> Some r | Some r' \<Rightarrow> Some (if rw_created r' < rw_created r then r' else r))"

definition sq_claim_next :: "gostring option \<Rightarrow> gotime \<Rightarrow> gostring \<Rightarrow> gotime \<Rightarrow> duration \<Rightarrow> int \<Rightarrow> task_table
    \<Rightarrow> (task_error + task option) \<times> task_table" where
  "sq_claim_next db clk w now d n tb =
     (let now = time_or clk now; d = lease_or_default d; n = max_or_default n; w = worker_name w in
      case db of Some e \<Rightarrow> (Inl (DBError e), tb)
      | None \<Rightarrow>
        (case oldest (filter (claimable now) (tb_rows tb)) of
           None \<Rightarrow> (Inr None, tb)
         | Some r \<Rightarrow>
             let item = zero_task\<lparr>t_id := rw_task_id r, t_type := rw_type r, t_payload := rw_payload r,
                   t_attempts := rw_retry_count r + 1,
                   t_max_attempts := (if rw_max_attempts r \<le> 0 then n else rw_max_attempts r),
                   t_request_id := rw_request_id r, t_client_id := rw_client_id r,
                   t_created := rw_created r, t_updated := now, t_status := Running,
                   t_locked_by := w, t_locked_until := now + d, t_started := now\<rparr>;
                 (k, tb1) = sq_update (\<lambda>q. rw_id q = rw_id r \<and> rw_status q = Pending)
                   (\<lambda>q. q\<lparr>rw_status := Running, rw_retry_count := rw_retry_count q + 1,
                        rw_locked_by := w, rw_locked_until := Some (mysql_datetime (now + d)),
                        rw_started := (case rw_started q of None \<Rightarrow> Some (mysql_datetime now) | Some u \<Rightarrow> Some u),
                        rw_updated := mysql_datetime now\<rparr>) tb
             in (Inr (Some item), tb1)))"

text \<open>The \<open>WHERE\<close> clause of the three owner statements.\<close>
definition row_owned :: "gostring \<Rightarrow> gostring \<Rightarrow> task_row \<Rightarrow> bool" where
  "row_owned i w r \<longleftrightarrow>
     collate (rw_task_id r) = collate (trim_space i) \<and> collate (rw_locked_by r) = collate (trim_space w) \<and> rw_status r = Running"

text \<open>\<open>execOwnedTaskUpdate\<close> followed by \<open>requireAffected\<close>.\<close>
definition sq_owned_update :: "gostring option \<Rightarrow> gostring \<Rightarrow> gostring \<Rightarrow> (task_row \<Rightarrow> task_row) \<Rightarrow> task_table
    \<Rightarrow> task_error option \<times> task_table" where
  "sq_owned_update db i w f tb =
     (case db of Some e \<Rightarrow> (Some (DBError e), tb)
      | None \<Rightarrow> let (k, tb1) = sq_update (row_owned i w) f tb
          in (if k \<le> 0 then Some LeaseNotOwned else None, tb1))"

definition sq_renew_lease :: "gostring option \<Rightarrow> gotime \<Rightarrow> gostring \<Rightarrow> gostring \<Rightarrow> gotime \<Rightarrow> task_table
    \<Rightarrow> task_error option \<times> task_table" where
  "sq_renew_lease db clk i w until tb =
     (let until = (if until = zero_time then clk + 15 * second else until)
      in sq_owned_update db i w (\<lambda>r. r\<lparr>rw_locked_until := Some (mysql_datetime until), rw_updated := mysql_datetime clk\<rparr>) tb)"

definition sq_complete :: "gostring option \<Rightarrow> gotime \<Rightarrow> gostring \<Rightarrow> gostring \<Rightarrow> gostring \<Rightarrow> task_table
    \<Rightarrow> task_error option \<times> task_table" where
  "sq_complete db clk i w res tb =
     (case tb_json tb res of
        None \<Rightarrow>
          (Some (case db of Some e \<Rightarrow> DBError e
             | None \<Rightarrow> if list_ex (row_owned i w) (tb_rows tb) then DBError ''invalid JSON text'' else LeaseNotOwned), tb)
      | Some doc \<Rightarrow> sq_owned_update db i w
          (\<lambda>r. r\<lparr>rw_status := Completed, rw_result := doc, rw_locked_by := [], rw_locked_until := None,
               rw_finished := Some (mysql_datetime clk), rw_updated := mysql_datetime clk\<rparr>) tb)"

definition sq_fail :: "gostring option \<Rightarrow> gotime \<Rightarrow> gostring \<Rightarrow> gostring \<Rightarrow> gostring \<Rightarrow> gotime \<Rightarrow> task_table
    \<Rightarrow> task_error option \<times> task_table" where
  "sq_fail db clk i w msg retry_at tb =
     (let retry_at = (if retry_at = zero_time then clk + 2 * second else retry_at)
      in sq_owned_update db i w
       (\<lambda>r. let last = rw_retry_count r \<ge> rw_max_attempts r
            in r\<lparr>rw_error := trim_space msg, rw_status := (if last then Failed else Pending),
                 rw_locked_by := [], rw_locked_until := None,
                 rw_next_attempt := (if last then rw_next_attempt r else Some (mysql_datetime retry_at)),
                 rw_finished := (if last then Some (mysql_datetime clk) else rw_finished r), rw_updated := mysql_datetime clk\<rparr>) tb)"

definition row_expired :: "gotime \<Rightarrow> task_row \<Rightarrow> bool" where
  "row_expired now r \<longleftrightarrow> rw_status r = Running \<and>
     (case rw_locked_until r of None \<Rightarrow> False | Some u \<Rightarrow> u \<le> now)"

definition sq_recover_expired :: "gostring option \<Rightarrow> gotime \<Rightarrow> gotime \<Rightarrow> task_table
    \<Rightarrow> (task_error + int) \<times> task_table" where
  "sq_recover_expired db clk now tb =
     (let now = time_or clk now in
      case db of Some e \<Rightarrow> (Inl (DBError e), tb)
      | None \<Rightarrow> apfst Inr (sq_update (row_expired now)
            (\<lambda>r. r\<lparr>rw_status := Pending, rw_locked_by := [], rw_locked_until := None,
                 rw_next_attempt := Some (mysql_datetime now), rw_updated := mysql_datetime now\<rparr>) tb))"

definition sq_get :: "gostring option \<Rightarrow> gostring \<Rightarrow> task_table \<Rightarrow> task_error + task option" where
  "sq_get db i tb =
     (case db of Some e \<Rightarrow> Inl (DBError e) | None \<Rightarrow> Inr (sq_find (\<lambda>r. collate (rw_task_id r) = collate (trim_space i)) tb))"

definition mysql_lease_ops :: "gostring option \<Rightarrow> task_table lease_ops" where
  "mysql_lease_ops db =
    \<lparr>lo_claim = sq_claim_next db, lo_renew = sq_renew_lease db, lo_complete = sq_complete db,
     lo_fail = sq_fail db, lo_recover = sq_recover_expired db\<rparr>"

section \<open>Invariant and view\<close>

definition row_lease :: "task_row \<Rightarrow> lease" where
  "row_lease r = \<lparr>l_status = rw_status r, l_attempts = rw_retry_count r, l_max = rw_max_attempts r,
     l_holder = collate (rw_locked_by r), l_until = nullable_time (rw_locked_until r)\<rparr>"

text \<open>The unique key on \<open>task_id\<close> is on what the collation makes of it.\<close>
definition row_key :: "task_row \<Rightarrow> gostring" where
  "row_key r = collate (rw_task_id r)"

definition sq_view :: "task_table \<Rightarrow> leases" where
  "sq_view tb = entries_view row_key row_lease (tb_rows tb)"

definition sq_inv :: "task_table \<Rightarrow> bool" where
  "sq_inv tb \<longleftrightarrow> distinct (map row_key (tb_rows tb)) \<and> distinct (map rw_id (tb_rows tb)) \<and>
     (\<forall>r \<in> set (tb_rows tb). lease_ok (row_lease r) \<and> rw_id r < tb_next_id tb)"

lemmas row_lease_simps = row_lease_def lease_ok_def held_by_def nullable_time_def

lemma entries_view_lookup:
  "distinct (map key xs) \<Longrightarrow> x \<in> set xs \<Longrightarrow> entries_view key ls xs (key x) = Some (ls x)"
  unfolding entries_view_def by (rule map_of_is_SomeI) (auto simp: comp_def)

lemma entries_view_update:
  assumes "distinct (map key xs)" and "x \<in> set xs" and "P x"
    and "\<And>y. y \<in> set xs \<Longrightarrow> P y \<Longrightarrow> y = x" and "\<And>y. key (f y) = key y"
  shows "entries_view key ls (map (\<lambda>y. if P y then f y else y) xs) = (entries_view key ls xs)(key x \<mapsto> ls (f x))"
  using assms
proof (induction xs)
  case (Cons z xs)
  show ?case
  proof (cases "z = x")
    case True
    then have "\<forall>y \<in> set xs. \<not> P y" using Cons.prems by force
    then have "map (\<lambda>y. if P y then f y else y) xs = xs" by (intro map_idI) simp
    then show ?thesis using True Cons.prems(3,5) by (auto simp: entries_view_Cons fun_eq_iff)
  next
    case False
    then have "\<not> P z" "key z \<noteq> key x" using Cons.prems by auto
    moreover have "entries_view key ls (map (\<lambda>y. if P y then f y else y) xs)
        = (entries_view key ls xs)(key x \<mapsto> ls (f x))"
      using Cons.prems False by (intro Cons.IH) auto
    ultimately show ?thesis by (auto simp: entries_view_Cons fun_eq_iff)
  qed
qed simp

lemma sq_update_inv:
  assumes "sq_inv tb" and "\<And>r. rw_task_id (f r) = rw_task_id r" and "\<And>r. rw_id (f r) = rw_id r"
    and "\<And>r. r \<in> set (tb_rows tb) \<Longrightarrow> P r \<Longrightarrow> lease_ok (row_lease (f r))"
  shows "sq_inv (snd (sq_update P f tb))"
proof -
  have "row_key \<circ> (\<lambda>r. if P r then f r else r) = row_key"
    and "rw_id \<circ> (\<lambda>r. if P r then f r else r) = rw_id"
    using assms(2,3) by (auto simp: row_key_def)
  then show ?thesis using assms(1,4) by (auto simp: sq_inv_def sq_update_def assms(3))
qed

lemma sq_view_update:
  "sq_view (snd (sq_update P f tb)) = entries_view row_key row_lease (map (\<lambda>r. if P r then f r else r) (tb_rows tb))"
  by (simp add: sq_view_def sq_update_def)

lemma sq_owned_sim:
  assumes "sq_inv tb" and "sq_owned_update db i w f tb = (None, tb')"
    and f: "\<And>r. rw_task_id (f r) = rw_task_id r" "\<And>r. rw_id (f r) = rw_id r"
      "\<And>r. r \<in> set (tb_rows tb) \<Longrightarrow> row_owned i w r \<Longrightarrow> lease_ok (row_lease (f r))"
  obtains r where "r \<in> set (tb_rows tb)" "row_owned i w r" "sq_inv tb'"
    "sq_view tb (collate (trim_space i)) = Some (row_lease r)" "held_by (row_lease r) (collate (trim_space w))"
    "sq_view tb' = (sq_view tb)(collate (trim_space i) \<mapsto> row_lease (f r))"
proof -
  have "db = None" using assms(2) by (cases db) (auto simp: sq_owned_update_def)
  then have tb': "tb' = snd (sq_update (row_owned i w) f tb)"
    and "filter (\<lambda>r. row_owned i w r \<and> f r \<noteq> r) (tb_rows tb) \<noteq> []"
    using assms(2) by (auto simp: sq_owned_update_def sq_update_def split: if_splits)
  then obtain r where r: "r \<in> set (tb_rows tb)" "row_owned i w r"
    by (auto simp: filter_empty_conv)
  have d: "distinct (map row_key (tb_rows tb))" using assms(1) by (simp add: sq_inv_def)
  have uniq: "y = r" if "y \<in> set (tb_rows tb)" "row_owned i w y" for y
  proof -
    have "row_key y = row_key r" using that(2) r(2) by (simp add: row_owned_def row_key_def)
    then show ?thesis using d r(1) that(1) by (auto simp: distinct_map dest: inj_onD)
  qed
  show thesis
  proof (rule that [OF r])
    show "sq_inv tb'" unfolding tb' using assms(1) f by (rule sq_update_inv)
    show "sq_view tb (collate (trim_space i)) = Some (row_lease r)"
      using entries_view_lookup [OF d r(1), of row_lease] r(2) by (simp add: sq_view_def row_owned_def row_key_def)
    show "held_by (row_lease r) (collate (trim_space w))" using r(2) by (simp add: row_owned_def row_lease_simps)
    show "sq_view tb' = (sq_view tb)(collate (trim_space i) \<mapsto> row_lease (f r))"
      using entries_view_update [where P = "row_owned i w" and f = f and ls = row_lease, OF d r uniq] r(2) f(1)
      by (simp add: tb' sq_view_def sq_update_def row_owned_def row_key_def)
  qed
qed

lemma oldest_in: "oldest rs = Some r \<Longrightarrow> r \<in> set rs"
  by (induction rs arbitrary: r) (auto split: option.splits if_splits)

lemma oldest_None: "oldest rs = None \<longleftrightarrow> rs = []"
  by (cases rs) (auto split: option.splits)

lemma oldest_least: "oldest rs = Some r \<Longrightarrow> q \<in> set rs \<Longrightarrow> rw_created r \<le> rw_created q"
proof (induction rs arbitrary: r)
  case (Cons p rs)
  show ?case
  proof (cases "oldest rs")
    case None
    then show ?thesis using Cons.prems by (simp add: oldest_None)
  next
    case (Some a)
    then show ?thesis using Cons.prems Cons.IH [OF Some] by (auto split: if_splits)
  qed
qed simp

lemma sq_claim_sim:
  assumes "sq_inv tb" and "sq_claim_next db clk w now d n tb = (Inr (Some t), tb')"
  shows "sq_inv tb' \<and> lrun [EClaim (collate (t_id t)) (collate (worker_name w)) (mysql_datetime (time_or clk now + lease_or_default d))] (sq_view tb) (sq_view tb')
    \<and> map_option l_attempts (sq_view tb' (collate (t_id t))) = Some (t_attempts t)"
proof -
  let ?now = "time_or clk now" and ?w = "worker_name w" and ?u = "mysql_datetime (time_or clk now + lease_or_default d)"
  obtain r where r: "oldest (filter (claimable ?now) (tb_rows tb)) = Some r"
    using assms(2) by (auto simp: sq_claim_next_def Let_def split: option.splits)
  then have rin: "r \<in> set (tb_rows tb)" and cl: "claimable ?now r" using oldest_in [OF r] by auto
  define f :: "task_row \<Rightarrow> task_row" where "f = (\<lambda>q. q\<lparr>rw_status := Running, rw_retry_count := rw_retry_count q + 1,
      rw_locked_by := ?w, rw_locked_until := Some ?u,
      rw_started := (case rw_started q of None \<Rightarrow> Some (mysql_datetime ?now) | Some u \<Rightarrow> Some u), rw_updated := mysql_datetime ?now\<rparr>)"
  let ?P = "\<lambda>q. rw_id q = rw_id r \<and> rw_status q = Pending"
  have tb': "tb' = snd (sq_update ?P f tb)" and t: "t_id t = rw_task_id r" "t_attempts t = rw_retry_count r + 1"
    using assms(2) r by (auto simp: sq_claim_next_def Let_def f_def case_prod_unfold split: option.splits)
  have d: "distinct (map row_key (tb_rows tb))" using assms(1) by (simp add: sq_inv_def)
  have inj: "inj_on rw_id (set (tb_rows tb))" using assms(1) by (simp add: sq_inv_def distinct_map)
  have uniq: "y = r" if "y \<in> set (tb_rows tb)" "?P y" for y
    by (rule inj_onD [OF inj conjunct1 [OF that(2)] that(1) rin])
  have ok: "lease_ok (row_lease r)" using assms(1) rin by (simp add: sq_inv_def)
  have "sq_inv tb'" unfolding tb'
  proof (rule sq_update_inv [OF assms(1)])
    fix q assume "q \<in> set (tb_rows tb)" "?P q"
    then have "q = r" by (rule uniq)
    then show "lease_ok (row_lease (f q))" using ok cl by (auto simp: f_def row_lease_simps claimable_def)
  qed (simp_all add: f_def)
  moreover have v: "sq_view tb (row_key r) = Some (row_lease r)"
    using entries_view_lookup [OF d rin, of row_lease] by (simp add: sq_view_def)
  have v': "sq_view tb' = (sq_view tb)(row_key r \<mapsto> row_lease (f r))"
    unfolding tb' sq_view_update unfolding sq_view_def
    by (rule entries_view_update [OF d rin _ uniq]) (use cl in \<open>simp_all add: f_def claimable_def row_key_def\<close>)
  have fr: "row_lease (f r) = (row_lease r)\<lparr>l_status := Running,
      l_attempts := l_attempts (row_lease r) + 1, l_holder := collate ?w, l_until := ?u\<rparr>"
    by (simp add: f_def row_lease_simps)
  have "l_status (row_lease r) = Pending" "l_attempts (row_lease r) < l_max (row_lease r)"
    using cl by (simp_all add: row_lease_def claimable_def)
  then have "lstep (EClaim (row_key r) (collate ?w) ?u) (sq_view tb) (sq_view tb')"
    unfolding v' fr using v by (intro lstep.claim) (simp_all add: worker_name_def)
  moreover have "map_option l_attempts (sq_view tb' (row_key r)) = Some (rw_retry_count r + 1)"
    unfolding v' fr by (simp add: row_lease_def)
  ultimately show ?thesis by (simp only: t lrun_Cons lrun_Nil row_key_def) blast
qed

lemma sq_view_ok:
  assumes "sq_inv tb" shows "leases_ok (sq_view tb)"
  unfolding leases_ok_def
proof (intro allI impI)
  fix i l assume "sq_view tb i = Some l"
  then obtain r where "r \<in> set (tb_rows tb)" "l = row_lease r"
    by (auto simp: sq_view_def entries_view_def dest!: map_of_SomeD)
  then show "lease_ok l" using assms by (simp add: sq_inv_def)
qed

lemma sq_recover_sim:
  assumes "sq_inv tb" and "sq_recover_expired db clk now tb = (Inr k, tb')"
  shows "sq_inv tb' \<and> (\<exists>es now'. now' \<in> {now, time_or clk now} \<and> only_recover now' es \<and> int (length es) = k \<and> lrun es (sq_view tb) (sq_view tb'))"
proof -
  let ?now = "time_or clk now"
  define f :: "task_row \<Rightarrow> task_row" where "f = (\<lambda>r. r\<lparr>rw_status := Pending, rw_locked_by := [], rw_locked_until := None,
                 rw_next_attempt := Some (mysql_datetime ?now), rw_updated := mysql_datetime ?now\<rparr>)"
  have "db = None" using assms(2) by (cases db) (auto simp: sq_recover_expired_def)
  then have "apfst Inr (sq_update (row_expired ?now) f tb) = (Inr k :: task_error + int, tb')"
    using assms(2) by (simp add: sq_recover_expired_def f_def Let_def)
  then have tb': "tb' = snd (sq_update (row_expired ?now) f tb)"
    and k: "k = int (length (filter (\<lambda>r. row_expired ?now r \<and> f r \<noteq> r) (tb_rows tb)))"
    by (auto simp: sq_update_def)
  have "row_expired ?now r \<Longrightarrow> f r \<noteq> r" for r
    by (metis f_def row_expired_def status.distinct(1) task_row.select_convs(4) task_row.surjective
        task_row.update_convs(4,10,11,13,17))
  then have "filter (\<lambda>r. row_expired ?now r \<and> f r \<noteq> r) (tb_rows tb) = filter (row_expired ?now) (tb_rows tb)"
    by (intro filter_cong) auto
  then have k': "k = int (length (filter (row_expired ?now) (tb_rows tb)))" using k by simp
  have "sq_inv tb'" unfolding tb'
    using assms(1) by (intro sq_update_inv) (auto simp: f_def sq_inv_def row_lease_simps)
  moreover have "\<exists>es. only_recover ?now es \<and> length es = length (filter (row_expired ?now) (tb_rows tb)) \<and>
    (\<forall>e \<in> set es. event_id e \<in> row_key ` set (tb_rows tb)) \<and>
    lrun es (entries_view row_key row_lease (tb_rows tb))
      (entries_view row_key row_lease (map (\<lambda>r. if row_expired ?now r then f r else r) (tb_rows tb)))"
    using assms(1) by (intro recover_sweep)
      (auto simp: sq_inv_def row_expired_def row_lease_simps f_def requeue_def row_key_def split: option.splits)
  ultimately show ?thesis by (auto simp: k' sq_view_def tb' sq_update_def)
qed

section \<open>The store implements the contract\<close>

lemma sq_owned_error:
  assumes "sq_owned_update db i w f tb = (Some e, tb')" shows "tb' = tb"
proof (cases db)
  case None
  let ?g = "\<lambda>r. if row_owned i w r then f r else r"
  have "filter (\<lambda>r. row_owned i w r \<and> f r \<noteq> r) (tb_rows tb) = []" and tb': "tb' = tb\<lparr>tb_rows := map ?g (tb_rows tb)\<rparr>"
    using assms None by (auto simp: sq_owned_update_def sq_update_def split: if_splits)
  then have "map ?g (tb_rows tb) = tb_rows tb" by (intro map_idI) (auto simp: filter_empty_conv)
  then show ?thesis using tb' by simp
qed (use assms in \<open>auto simp: sq_owned_update_def\<close>)

interpretation mysql: lease_store "mysql_lease_ops db" sq_view sq_inv collate mysql_datetime for db
proof (unfold_locales, goal_cases)
  case (1 tb) then show ?case by (rule sq_view_ok)
next
  case (2 tb clk w now d n t tb')
  then have "sq_claim_next db clk w now d n tb = (Inr (Some t), tb')" by (simp add: mysql_lease_ops_def)
  note c = sq_claim_sim [OF 2(1) this]
  then show ?case by (intro conjI exI [of _ "[]"]) (simp_all add: only_exhaust_def)
next
  case (3 tb clk w now d n tb')
  then have "tb' = tb" by (auto simp: mysql_lease_ops_def sq_claim_next_def Let_def case_prod_unfold split: option.splits)
  with 3 show ?case by (intro conjI exI [of _ "[]"]) (simp_all add: only_exhaust_def)
next
  case (4 clk w now d n tb e tb') then show ?case
    by (auto simp: mysql_lease_ops_def sq_claim_next_def Let_def case_prod_unfold split: option.splits)
next
  case (5 tb clk i v until tb')
  let ?u = "if until = zero_time then clk + 15 * second else until"
  let ?f = "\<lambda>r. r\<lparr>rw_locked_until := Some (mysql_datetime ?u), rw_updated := mysql_datetime clk\<rparr>"
  have o: "sq_owned_update db i v ?f tb = (None, tb')"
    using 5 by (simp add: mysql_lease_ops_def sq_renew_lease_def Let_def)
  obtain r where r: "sq_inv tb'" "sq_view tb (collate (trim_space i)) = Some (row_lease r)"
    "held_by (row_lease r) (collate (trim_space v))" "sq_view tb' = (sq_view tb)(collate (trim_space i) \<mapsto> row_lease (?f r))"
    by (rule sq_owned_sim [OF 5(1) o]) (use 5(1) in \<open>auto simp: sq_inv_def row_lease_simps\<close>)
  then have "lrun [ERenew (collate (trim_space i)) (collate (trim_space v))] (sq_view tb) (sq_view tb')"
    using lstep.renew [of "sq_view tb" "collate (trim_space i)" "row_lease r" "collate (trim_space v)" "mysql_datetime ?u", OF r(2,3)] by (simp add: row_lease_simps)
  then show ?case using r(1) by blast
next
  case (6 clk i v until tb e tb') then show ?case
    by (auto simp: mysql_lease_ops_def sq_renew_lease_def Let_def intro: sq_owned_error)
next
  case (7 tb clk i v res tb')
  then obtain doc where doc: "tb_json tb res = Some doc" by (auto simp: mysql_lease_ops_def sq_complete_def split: option.splits)
  let ?f = "\<lambda>r. r\<lparr>rw_status := Completed, rw_result := doc, rw_locked_by := [], rw_locked_until := None,
            rw_finished := Some (mysql_datetime clk), rw_updated := mysql_datetime clk\<rparr>"
  have o: "sq_owned_update db i v ?f tb = (None, tb')"
    using 7 doc by (simp add: mysql_lease_ops_def sq_complete_def)
  obtain r where r: "sq_inv tb'" "sq_view tb (collate (trim_space i)) = Some (row_lease r)"
    "held_by (row_lease r) (collate (trim_space v))" "sq_view tb' = (sq_view tb)(collate (trim_space i) \<mapsto> row_lease (?f r))"
    by (rule sq_owned_sim [OF 7(1) o]) (use 7(1) in \<open>auto simp: sq_inv_def row_lease_simps\<close>)
  then have "lrun [EComplete (collate (trim_space i)) (collate (trim_space v))] (sq_view tb) (sq_view tb')"
    using lstep.complete [of "sq_view tb" "collate (trim_space i)" "row_lease r" "collate (trim_space v)", OF r(2,3)] by (simp add: row_lease_simps)
  then show ?case using r(1) by blast
next
  case (8 clk i v res tb e tb') then show ?case
    by (auto simp: mysql_lease_ops_def sq_complete_def intro: sq_owned_error split: option.splits)
next
  case (9 tb clk i v msg retry tb')
  let ?ra = "if retry = zero_time then clk + 2 * second else retry"
  let ?f = "\<lambda>r. let last = rw_retry_count r \<ge> rw_max_attempts r
            in r\<lparr>rw_error := trim_space msg, rw_status := (if last then Failed else Pending),
                 rw_locked_by := [], rw_locked_until := None,
                 rw_next_attempt := (if last then rw_next_attempt r else Some (mysql_datetime ?ra)),
                 rw_finished := (if last then Some (mysql_datetime clk) else rw_finished r), rw_updated := mysql_datetime clk\<rparr>"
  have o: "sq_owned_update db i v ?f tb = (None, tb')"
    using 9 by (simp add: mysql_lease_ops_def sq_fail_def Let_def)
  obtain r where r: "sq_inv tb'" "sq_view tb (collate (trim_space i)) = Some (row_lease r)"
    "held_by (row_lease r) (collate (trim_space v))" "sq_view tb' = (sq_view tb)(collate (trim_space i) \<mapsto> row_lease (?f r))"
    by (rule sq_owned_sim [OF 9(1) o]) (use 9(1) in \<open>auto simp: sq_inv_def row_lease_simps Let_def\<close>)
  then have "lrun [ERetry (collate (trim_space i)) (collate (trim_space v))] (sq_view tb) (sq_view tb') \<or>
      lrun [EGiveUp (collate (trim_space i)) (collate (trim_space v))] (sq_view tb) (sq_view tb')"
    using lstep.retry [of "sq_view tb" "collate (trim_space i)" "row_lease r" "collate (trim_space v)", OF r(2,3)] lstep.give_up [of "sq_view tb" "collate (trim_space i)" "row_lease r" "collate (trim_space v)", OF r(2,3)]
    by (cases "rw_max_attempts r \<le> rw_retry_count r") (simp_all add: row_lease_simps Let_def)
  then show ?case using r(1) by blast
next
  case (10 clk i v msg retry tb e tb') then show ?case
    by (auto simp: mysql_lease_ops_def sq_fail_def Let_def intro: sq_owned_error)
next
  case (11 tb clk now k tb') then show ?case
    using sq_recover_sim [OF 11(1)] by (simp add: mysql_lease_ops_def)
next
  case (12 clk now tb e tb') then show ?case
    by (auto simp: mysql_lease_ops_def sq_recover_expired_def sq_update_def Let_def split: option.splits)
qed

end
