(* ===== verification/TaskWorker.thy ===== *)
theory TaskWorker imports
  TaskMemory
  TaskMySQL
  "HOL-Library.Word"
begin

text \<open>
  The worker of \<open>internal/task/worker.go\<close> with its options (\<open>store.go\<close>), over any lease store,
  and the component of \<open>internal/app/runtime_task_worker.go\<close> that runs several worker loops on
  one store.  The executor, the clocks and the scheduler are arguments: a call of the executor
  is the outcome it returns, a reading of a clock is a value.
\<close>

section \<open>Options\<close>

record worker_options =
  wo_worker_id :: gostring
  wo_lease :: duration
  wo_renew_interval :: duration
  wo_max_attempts :: int
  wo_backoff :: duration

definition default_options :: worker_options where
  "default_options = \<lparr>wo_worker_id = ''worker'', wo_lease = 15 * second, wo_renew_interval = 5 * second,
     wo_max_attempts = default_max_attempts, wo_backoff = 2 * second\<rparr>"

datatype worker_option = WithWorkerID gostring | WithRenewInterval duration | WithMaxAttempts int

fun apply_option :: "worker_option \<Rightarrow> worker_options \<Rightarrow> worker_options" where
  "apply_option (WithWorkerID i) c = (if trim_space i \<noteq> [] then c\<lparr>wo_worker_id := trim_space i\<rparr> else c)"
| "apply_option (WithRenewInterval d) c = c\<lparr>wo_renew_interval := d\<rparr>"
| "apply_option (WithMaxAttempts n) c = (if n > 0 then c\<lparr>wo_max_attempts := n\<rparr> else c)"

text \<open>\<open>NewWorker\<close>; a nil option is skipped.\<close>
definition new_worker :: "worker_option option list \<Rightarrow> worker_options" where
  "new_worker os = fold (\<lambda>o' c. case o' of None \<Rightarrow> c | Some p \<Rightarrow> apply_option p c) os default_options"

definition worker_ok :: "worker_options \<Rightarrow> bool" where
  "worker_ok c \<longleftrightarrow> wo_worker_id c \<noteq> [] \<and> trim_space (wo_worker_id c) = wo_worker_id c \<and>
     0 < wo_lease c \<and> 0 < wo_max_attempts c \<and> wo_backoff c = 2 * second"

lemma apply_option_ok: "worker_ok c \<Longrightarrow> worker_ok (apply_option p c)"
  by (cases p) (auto simp: worker_ok_def)

lemma new_worker_ok: "worker_ok (new_worker os)"
proof -
  have "worker_ok default_options" by code_simp
  then have "worker_ok (fold (\<lambda>o' c. case o' of None \<Rightarrow> c | Some p \<Rightarrow> apply_option p c) os c0)"
    if "c0 = default_options" for c0
    unfolding that
    by (induction os rule: rev_induct) (auto intro: apply_option_ok split: option.splits)
  then show ?thesis by (simp add: new_worker_def)
qed

section \<open>The retry delay\<close>

text \<open>\<open>time.Duration\<close> is an \<open>int64\<close>, and \<open>backoff *= 2\<close> wraps.\<close>
fun double_backoff :: "nat \<Rightarrow> 64 word \<Rightarrow> 64 word" where
  "double_backoff 0 b = b"
| "double_backoff (Suc n) b = double_backoff n (b * 2)"

definition retry_backoff :: "duration \<Rightarrow> int \<Rightarrow> duration" where
  "retry_backoff b attempt =
     (if attempt \<le> 1 then b else sint (double_backoff (nat (attempt - 1)) (word_of_int b)))"

lemma double_backoff_power: "double_backoff n b = b * 2 ^ n"
  by (induction n arbitrary: b) (simp_all add: ac_simps)

section \<open>One round of the worker\<close>

text \<open>The readings of one round: the worker's clock and the store's own clock at each call.\<close>
record round_clock =
  rc_claim :: gotime
  rc_claim_store :: gotime
  rc_renew :: gotime
  rc_renew_store :: gotime
  rc_report :: gotime
  rc_report_store :: gotime

definition work_one :: "'s lease_ops \<Rightarrow> (task \<Rightarrow> gostring + gostring) \<Rightarrow> worker_options \<Rightarrow> round_clock \<Rightarrow> 's
    \<Rightarrow> task_error option \<times> 's" where
  "work_one ops exec c k s =
     (case lo_claim ops (rc_claim_store k) (wo_worker_id c) (rc_claim k) (wo_lease c) (wo_max_attempts c) s of
        (Inl e, s1) \<Rightarrow> (Some e, s1)
      | (Inr None, s1) \<Rightarrow> (None, s1)
      | (Inr (Some t), s1) \<Rightarrow>
          let s2 = (if wo_renew_interval c \<le> 0
                    then snd (lo_renew ops (rc_renew_store k) (t_id t) (wo_worker_id c) (rc_renew k + wo_lease c) s1)
                    else s1)
          in (case exec t of
                Inl msg \<Rightarrow> lo_fail ops (rc_report_store k) (t_id t) (wo_worker_id c) msg
                    (rc_report k + retry_backoff (wo_backoff c) (t_attempts t)) s2
              | Inr res \<Rightarrow> lo_complete ops (rc_report_store k) (t_id t) (wo_worker_id c) res s2))"

definition worker_recover_expired :: "'s lease_ops \<Rightarrow> gotime \<Rightarrow> gotime \<Rightarrow> 's \<Rightarrow> task_error option \<times> 's" where
  "worker_recover_expired ops sclk now s =
     (case lo_recover ops sclk now s of
        (Inl e, s') \<Rightarrow> (Some e, s')
      | (Inr k, s') \<Rightarrow> (None, s'))"

section \<open>The runtime component\<close>

text \<open>Where one loop of the component is, between two calls it makes.\<close>
datatype loop_pc =
    PcTop
  | PcClaim
  | PcRenew task
  | PcExec task
  | PcReport task "gostring + gostring"
  | PcWait
  | PcStopped

record 's component =
  cp_store :: 's
  cp_loops :: "loop_pc list"
  cp_err :: "task_error option"
  cp_cancelled :: bool
  cp_log :: "task list"

text \<open>\<open>newRuntimeTaskWorkerComponent\<close> and \<open>Start\<close>: that many loops at the top, none has run.\<close>
definition start_component :: "int \<Rightarrow> 's \<Rightarrow> 's component" where
  "start_component concurrency s =
     \<lparr>cp_store = s, cp_loops = replicate (nat (if concurrency \<le> 0 then 1 else concurrency)) PcTop,
      cp_err = None, cp_cancelled = False, cp_log = []\<rparr>"

text \<open>The readings one step of a loop may take, and whether the ticker fired.\<close>
record reading =
  rd_clock :: gotime
  rd_store :: gotime
  rd_outcome :: "gostring + gostring"
  rd_tick :: bool

text \<open>
  One step of \<open>loop\<close> with \<open>WorkOne\<close> unfolded: the next place, the store, the error given to
  \<open>fail\<close>, and the task whose execution starts.
\<close>
fun loop_step :: "'s lease_ops \<Rightarrow> worker_options \<Rightarrow> reading \<Rightarrow> bool \<Rightarrow> loop_pc \<Rightarrow> 's
    \<Rightarrow> loop_pc \<times> 's \<times> task_error option \<times> task option" where
  "loop_step ops c r cancelled PcTop s =
     (if cancelled then (PcStopped, s, None, None)
      else case worker_recover_expired ops (rd_store r) (rd_clock r) s of
             (Some e, s') \<Rightarrow> (PcStopped, s', Some e, None)
           | (None, s') \<Rightarrow> (PcClaim, s', None, None))"
| "loop_step ops c r cancelled PcClaim s =
     (case lo_claim ops (rd_store r) (wo_worker_id c) (rd_clock r) (wo_lease c) (wo_max_attempts c) s of
        (Inl e, s') \<Rightarrow> (PcStopped, s', Some e, None)
      | (Inr None, s') \<Rightarrow> (PcWait, s', None, None)
      | (Inr (Some t), s') \<Rightarrow>
          if wo_renew_interval c \<le> 0 then (PcRenew t, s', None, None) else (PcExec t, s', None, Some t))"
| "loop_step ops c r cancelled (PcRenew t) s =
     (PcExec t, snd (lo_renew ops (rd_store r) (t_id t) (wo_worker_id c) (rd_clock r + wo_lease c) s), None, Some t)"
| "loop_step ops c r cancelled (PcExec t) s = (PcReport t (rd_outcome r), s, None, None)"
| "loop_step ops c r cancelled (PcReport t (Inl msg)) s =
     (case lo_fail ops (rd_store r) (t_id t) (wo_worker_id c) msg
             (rd_clock r + retry_backoff (wo_backoff c) (t_attempts t)) s of
        (Some e, s') \<Rightarrow> (PcStopped, s', Some e, None)
      | (None, s') \<Rightarrow> (PcWait, s', None, None))"
| "loop_step ops c r cancelled (PcReport t (Inr res)) s =
     (case lo_complete ops (rd_store r) (t_id t) (wo_worker_id c) res s of
        (Some e, s') \<Rightarrow> (PcStopped, s', Some e, None)
      | (None, s') \<Rightarrow> (PcWait, s', None, None))"
| "loop_step ops c r cancelled PcWait s =
     (if rd_tick r then (PcTop, s, None, None)
      else if cancelled then (PcStopped, s, None, None)
      else (PcWait, s, None, None))"
| "loop_step ops c r cancelled PcStopped s = (PcStopped, s, None, None)"

text \<open>\<open>fail\<close>: the first error is kept and cancels the other loops.\<close>
definition component_fail :: "task_error option \<Rightarrow> 's component \<Rightarrow> 's component" where
  "component_fail e S =
     (case e of None \<Rightarrow> S
      | Some e' \<Rightarrow> if cp_err S = None then S\<lparr>cp_err := Some e', cp_cancelled := True\<rparr> else S)"

definition run_loop :: "'s lease_ops \<Rightarrow> worker_options \<Rightarrow> reading \<Rightarrow> nat \<Rightarrow> 's component \<Rightarrow> 's component" where
  "run_loop ops c r n S =
     (case loop_step ops c r (cp_cancelled S) (cp_loops S ! n) (cp_store S) of
        (pc, s, e, started) \<Rightarrow>
          component_fail e (S\<lparr>cp_store := s, cp_loops := (cp_loops S)[n := pc],
            cp_log := (case started of None \<Rightarrow> cp_log S | Some t \<Rightarrow> cp_log S @ [t])\<rparr>))"

definition stop_component :: "'s component \<Rightarrow> 's component" where
  "stop_component S = S\<lparr>cp_cancelled := True\<rparr>"

text \<open>\<open>finishWhenWorkersExit\<close>: what is sent on \<open>done\<close>, once every loop has returned.\<close>
definition component_done :: "'s component \<Rightarrow> task_error option option" where
  "component_done S = (if list_all (\<lambda>pc. pc = PcStopped) (cp_loops S) then Some (cp_err S) else None)"

text \<open>
  The interleavings: a loop moves, the component is stopped, or another user of the store (the
  API creating tasks) changes it.  \<open>OPS\<close> are the method tables a call may meet, one for each
  failure the database may answer with.
\<close>
inductive component_step :: "'s lease_ops set \<Rightarrow> ('s \<Rightarrow> 's \<Rightarrow> bool) \<Rightarrow> worker_options
    \<Rightarrow> 's component \<Rightarrow> 's component \<Rightarrow> bool" for OPS env c where
  loop: "n < length (cp_loops S) \<Longrightarrow> ops \<in> OPS \<Longrightarrow> component_step OPS env c S (run_loop ops c r n S)"
| stop: "component_step OPS env c S (stop_component S)"
| env: "env (cp_store S) s \<Longrightarrow> component_step OPS env c S (S\<lparr>cp_store := s\<rparr>)"

definition component_run where
  "component_run OPS env c = (component_step OPS env c)\<^sup>*\<^sup>*"

end
