(* ===== verification/TaskSystem.thy ===== *)
theory TaskSystem imports
  TaskWorker
  "HOL-Library.Multiset"
begin

text \<open>
  What the worker component guarantees over any lease store: whatever the interleaving of its
  loops with each other, with \<open>Stop\<close> and with the creation of tasks, and whatever the clocks
  read, an attempt of a task is executed at most once, a task at most as often as its maximum
  allows, and a finished task stays as it is.  The lemmas are proved once over the contract and
  hold for both stores by interpretation.
\<close>

section \<open>Calls of a store as runs\<close>

lemma attempts_of_mono: "lrun es m m' \<Longrightarrow> attempts_of m i \<le> attempts_of m' i"
  using lrun_attempts [of es m m' i] by simp

definition moves :: "('s \<Rightarrow> leases) \<Rightarrow> ('s \<Rightarrow> bool) \<Rightarrow> 's \<Rightarrow> 's \<Rightarrow> bool" where
  "moves view ok s s' \<longleftrightarrow> ok s' \<and> (\<exists>es. lrun es (view s) (view s'))"

lemma moves_refl: "ok s \<Longrightarrow> moves view ok s s"
  unfolding moves_def by (metis lrun_Nil)

lemma moves_trans: "moves view ok s s' \<Longrightarrow> moves view ok s' s'' \<Longrightarrow> moves view ok s s''"
  unfolding moves_def by (metis lrun_append)

definition fresh_claim :: "(gostring \<Rightarrow> gostring) \<Rightarrow> leases \<Rightarrow> leases \<Rightarrow> task \<Rightarrow> bool" where
  "fresh_claim key m m' t \<longleftrightarrow> 0 < t_attempts t \<and> attempts_of m (key (t_id t)) < t_attempts t \<and>
     t_attempts t = attempts_of m' (key (t_id t))"

text \<open>The claim a loop has made but not started to execute.\<close>
definition pending_exec :: "loop_pc \<Rightarrow> task multiset" where
  "pending_exec pc = (case pc of PcRenew t \<Rightarrow> {#t#} | _ \<Rightarrow> {#})"

definition started_task :: "task option \<Rightarrow> task multiset" where
  "started_task st = (case st of None \<Rightarrow> {#} | Some t \<Rightarrow> {#t#})"

lemmas pending_simps = pending_exec_def started_task_def

context lease_store
begin

lemma claim_moves:
  assumes "inv s" and "lo_claim ops clk w now d n s = (Inr (Some t), s')"
  shows "moves view inv s s' \<and> fresh_claim key (view s) (view s') t"
proof -
  let ?c = "EClaim (key (t_id t)) (key (worker_name w)) (stamp (time_or clk now + lease_or_default d))"
  obtain es where es: "only_exhaust es" "lrun (es @ [?c]) (view s) (view s')"
    and inv': "inv s'" and a: "map_option l_attempts (view s' (key (t_id t))) = Some (t_attempts t)"
    using claim_Some [OF assms] by blast
  have "claims_of (key (t_id t)) [?c] = 1" by (simp add: claims_of_def)
  then have "attempts_of (view s') (key (t_id t)) = attempts_of (view s) (key (t_id t)) + 1"
    using lrun_attempts [OF es(2), of "key (t_id t)"] only_exhaust_claims [OF es(1)] by simp
  moreover have "attempts_of (view s') (key (t_id t)) = t_attempts t"
    using a by (auto simp: attempts_of_def)
  moreover have "0 \<le> attempts_of (view s) (key (t_id t))"
    using view_ok [OF assms(1)] by (auto simp: attempts_of_def leases_ok_def lease_ok_def split: option.splits)
  ultimately show ?thesis using es(2) inv' by (auto simp: moves_def fresh_claim_def)
qed

lemma claim_other_moves:
  assumes "inv s" and "lo_claim ops clk w now d n s = (r, s')" and "\<nexists>t. r = Inr (Some t)"
  shows "moves view inv s s'"
proof (cases r)
  case (Inl e)
  then show ?thesis using assms claim_error [of clk w now d n s e s'] by (auto simp: moves_refl)
next
  case (Inr a)
  then show ?thesis using assms claim_None [OF assms(1), of clk w now d n s']
    by (cases a) (auto simp: moves_def)
qed

lemma renew_moves:
  assumes "inv s" shows "moves view inv s (snd (lo_renew ops clk i v until s))"
proof (cases "lo_renew ops clk i v until s")
  case (Pair r s')
  show ?thesis
  proof (cases r)
    case None
    then have "lo_renew ops clk i v until s = (None, s')" using Pair by simp
    from renew_ok [OF assms this] have "moves view inv s s'" unfolding moves_def by blast
    then show ?thesis using Pair by simp
  next
    case (Some e)
    then have "s' = s" using renew_error [of clk i v until s e s'] Pair by simp
    then show ?thesis using Pair assms by (simp add: moves_refl)
  qed
qed

lemma complete_moves:
  assumes "inv s" and "lo_complete ops clk i v r s = (e, s')" shows "moves view inv s s'"
proof (cases e)
  case None
  then have "lo_complete ops clk i v r s = (None, s')" using assms(2) by simp
  from complete_ok [OF assms(1) this] show ?thesis unfolding moves_def by blast
next
  case (Some x)
  then have "s' = s" using complete_error [of clk i v r s x s'] assms(2) by simp
  then show ?thesis using assms(1) by (simp add: moves_refl)
qed

lemma fail_moves:
  assumes "inv s" and "lo_fail ops clk i v msg retry s = (e, s')" shows "moves view inv s s'"
proof (cases e)
  case None
  then have "lo_fail ops clk i v msg retry s = (None, s')" using assms(2) by simp
  from fail_ok [OF assms(1) this] show ?thesis unfolding moves_def by blast
next
  case (Some x)
  then have "s' = s" using fail_error [of clk i v msg retry s x s'] assms(2) by simp
  then show ?thesis using assms(1) by (simp add: moves_refl)
qed

lemma recover_moves:
  assumes "inv s" and "lo_recover ops clk now s = (r, s')" shows "moves view inv s s'"
proof (cases r)
  case (Inl e)
  then have "s' = s" using recover_error [of clk now s e s'] assms(2) by simp
  then show ?thesis using assms(1) by (simp add: moves_refl)
next
  case (Inr k)
  then have "lo_recover ops clk now s = (Inr k, s')" using assms(2) by simp
  from recover_ok [OF assms(1) this] show ?thesis unfolding moves_def by blast
qed

text \<open>One step of a loop: either no claim moves, or one is made afresh.\<close>

lemma loop_step_effect:
  assumes "inv s" and "loop_step ops c r b pc s = (pc', s', e, st)"
  shows "moves view inv s s' \<and>
    (pending_exec pc' + started_task st = pending_exec pc \<or>
     (\<exists>t. pending_exec pc = {#} \<and> pending_exec pc' + started_task st = {#t#} \<and> fresh_claim key (view s) (view s') t))"
proof (cases pc)
  case PcTop
  then show ?thesis using assms recover_moves [OF assms(1), of "rd_store r" "rd_clock r"]
    by (auto simp: worker_recover_expired_def pending_simps moves_refl split: if_splits prod.splits sum.splits)
next
  case PcClaim
  obtain x s1 where c: "lo_claim ops (rd_store r) (wo_worker_id c) (rd_clock r) (wo_lease c) (wo_max_attempts c) s = (x, s1)"
    by fastforce
  show ?thesis
  proof (cases "\<exists>t. x = Inr (Some t)")
    case True
    then obtain t where "x = Inr (Some t)" by blast
    with c claim_moves [OF assms(1), of _ _ _ _ _ t s1] PcClaim assms(2) show ?thesis
      by (auto simp: pending_simps split: if_splits)
  next
    case False
    with claim_other_moves [OF assms(1) c] c PcClaim assms(2) show ?thesis
      by (auto simp: pending_simps split: sum.splits option.splits)
  qed
next
  case (PcRenew t)
  then show ?thesis using assms renew_moves [OF assms(1)] by (auto simp: pending_simps)
next
  case (PcReport t out)
  then show ?thesis
    using assms fail_moves [OF assms(1)] complete_moves [OF assms(1)]
    by (cases out) (auto simp: pending_simps split: prod.splits option.splits)
qed (use assms in \<open>auto simp: pending_simps moves_refl split: if_splits\<close>)

end

section \<open>The component over a family of stores\<close>

definition exec_key :: "task \<Rightarrow> gostring \<times> int" where
  "exec_key t = (t_id t, t_attempts t)"

text \<open>Every attempt claimed so far: executed ones and those still to start.\<close>
definition attempts_made :: "'s component \<Rightarrow> (gostring \<times> int) multiset" where
  "attempts_made S = image_mset exec_key (mset (cp_log S) + (\<Sum>pc \<in># mset (cp_loops S). pending_exec pc))"

definition attempts_unique :: "(gostring \<Rightarrow> gostring) \<Rightarrow> leases \<Rightarrow> (gostring \<times> int) multiset \<Rightarrow> bool" where
  "attempts_unique key m A \<longleftrightarrow> (\<forall>i a. count A (i, a) \<le> 1 \<and> ((i, a) \<in># A \<longrightarrow> 0 < a \<and> a \<le> attempts_of m (key i)))"

lemma attempts_unique_mono:
  "attempts_unique key m A \<Longrightarrow> lrun es m m' \<Longrightarrow> attempts_unique key m' A"
  unfolding attempts_unique_def by (meson attempts_of_mono order_trans)

lemma attempts_unique_add:
  assumes "attempts_unique key m A" and "lrun es m m'" and "fresh_claim key m m' t"
  shows "attempts_unique key m' (add_mset (exec_key t) A)"
proof -
  have "exec_key t \<notin># A"
    using assms(1,3) by (force simp: attempts_unique_def fresh_claim_def exec_key_def)
  then show ?thesis
    using attempts_unique_mono [OF assms(1,2)] assms(3)
    by (auto simp: attempts_unique_def fresh_claim_def exec_key_def count_eq_zero_iff)
qed

lemma sum_pending_start: "(\<Sum>pc \<in># replicate_mset n PcTop. pending_exec pc) = {#}"
  by (induction n) (simp_all add: pending_exec_def)

lemma sum_mset_update:
  assumes "n < length xs"
  shows "(\<Sum>x \<in># mset (xs[n := y]). f x) + f (xs ! n) = (\<Sum>x \<in># mset xs. f x) + (f y :: 'a :: comm_monoid_add)"
proof -
  have "mset xs = add_mset (xs ! n) (mset xs - {#xs ! n#})" using assms by simp
  then have "(\<Sum>x \<in># mset xs. f x) = f (xs ! n) + (\<Sum>x \<in># mset xs - {#xs ! n#}. f x)"
    by (metis image_mset_add_mset sum_mset.insert)
  then show ?thesis using assms by (simp add: mset_update ac_simps)
qed

locale worker_system =
  fixes OPS :: "'s lease_ops set" and view :: "'s \<Rightarrow> leases" and inv :: "'s \<Rightarrow> bool"
    and env :: "'s \<Rightarrow> 's \<Rightarrow> bool" and key :: "gostring \<Rightarrow> gostring" and stamp :: "gotime \<Rightarrow> gotime"
  assumes nonempty: "OPS \<noteq> {}"
    and stores: "ops \<in> OPS \<Longrightarrow> lease_store ops view inv key stamp"
    and env_moves: "inv s \<Longrightarrow> env s s' \<Longrightarrow> moves view inv s s'"
begin

lemma run_loop_made:
  assumes "ops \<in> OPS" and "n < length (cp_loops S)" and "inv (cp_store S)"
  shows "moves view inv (cp_store S) (cp_store (run_loop ops c r n S)) \<and>
    (attempts_made (run_loop ops c r n S) = attempts_made S \<or>
     (\<exists>t. fresh_claim key (view (cp_store S)) (view (cp_store (run_loop ops c r n S))) t \<and>
          attempts_made (run_loop ops c r n S) = add_mset (exec_key t) (attempts_made S)))"
proof -
  obtain pc s e st where step: "loop_step ops c r (cp_cancelled S) (cp_loops S ! n) (cp_store S) = (pc, s, e, st)"
    by (metis prod_cases4)
  note eff = lease_store.loop_step_effect [OF stores [OF assms(1)] assms(3) step]
  have store: "cp_store (run_loop ops c r n S) = s"
    and made: "attempts_made (run_loop ops c r n S) =
      image_mset exec_key (mset (cp_log S) + started_task st + (\<Sum>q \<in># mset ((cp_loops S)[n := pc]). pending_exec q))"
    by (auto simp: run_loop_def step component_fail_def attempts_made_def started_task_def split: option.splits)
  note sum = sum_mset_update [OF assms(2), where y = pc and f = pending_exec]
  from eff show ?thesis
  proof (elim conjE disjE exE)
    assume m: "moves view inv (cp_store S) s" and p: "pending_exec pc + started_task st = pending_exec (cp_loops S ! n)"
    have "started_task st + (\<Sum>q \<in># mset ((cp_loops S)[n := pc]). pending_exec q) = (\<Sum>q \<in># mset (cp_loops S). pending_exec q)"
      using sum unfolding p [symmetric] by (simp add: ac_simps)
    then have "attempts_made (run_loop ops c r n S) = attempts_made S"
      unfolding made unfolding attempts_made_def by (simp only: add.assoc)
    then show ?thesis using m store by simp
  next
    fix t
    assume m: "moves view inv (cp_store S) s" and p: "pending_exec (cp_loops S ! n) = {#}"
      and q: "pending_exec pc + started_task st = {#t#}" and f: "fresh_claim key (view (cp_store S)) (view s) t"
    have "started_task st + (\<Sum>q \<in># mset ((cp_loops S)[n := pc]). pending_exec q)
        = {#t#} + (\<Sum>q \<in># mset (cp_loops S). pending_exec q)"
      using sum unfolding p q [symmetric] by (simp add: ac_simps)
    then have "attempts_made (run_loop ops c r n S) = add_mset (exec_key t) (attempts_made S)"
      unfolding made unfolding attempts_made_def by (simp only: add.assoc) simp
    then show ?thesis using m f store by blast
  qed
qed

lemma step_inv:
  assumes "component_step OPS env c S S'" and "inv (cp_store S)"
  shows "moves view inv (cp_store S) (cp_store S') \<and>
    (attempts_unique key (view (cp_store S)) (attempts_made S) \<longrightarrow>
     attempts_unique key (view (cp_store S')) (attempts_made S'))"
  using assms
proof (induction rule: component_step.induct)
  case (loop n S ops r)
  note m = run_loop_made [OF loop(2,1,3), of c r]
  then obtain es where "lrun es (view (cp_store S)) (view (cp_store (run_loop ops c r n S)))"
    by (auto simp: moves_def)
  with m show ?case by (auto intro: attempts_unique_mono attempts_unique_add)
next
  case (stop S)
  then show ?case by (simp add: stop_component_def attempts_made_def moves_refl)
next
  case (env S s)
  then have "moves view inv (cp_store S) s" by (blast intro: env_moves)
  then show ?case by (auto simp: attempts_made_def moves_def intro: attempts_unique_mono)
qed

lemma run_moves:
  assumes "component_run OPS env c S S'" and "inv (cp_store S)"
  shows "moves view inv (cp_store S) (cp_store S')"
  using assms(1) unfolding component_run_def
proof (induction rule: rtranclp_induct)
  case (step S' S'')
  then have "inv (cp_store S')" by (simp add: moves_def)
  then show ?case
    using moves_trans [OF step(3), of "cp_store S''"] step_inv [OF step(2)] by simp
qed (simp add: moves_refl assms(2))

lemma run_unique:
  assumes "component_run OPS env c (start_component k s) S'" and "inv s"
  shows "attempts_unique key (view (cp_store S')) (attempts_made S')"
  using assms(1) unfolding component_run_def
proof (induction rule: rtranclp_induct)
  case base
  show ?case by (simp add: attempts_made_def start_component_def attempts_unique_def sum_pending_start del: image_replicate_mset)
next
  case (step S' S'')
  have "inv (cp_store S')"
    using run_moves [of c "start_component k s" S'] step(1) assms(2)
    by (simp add: component_run_def moves_def start_component_def)
  then show ?case using step_inv [OF step(2)] step(3) by blast
qed

lemma executed_once:
  assumes "component_run OPS env c (start_component k s) S'" and "inv s"
  shows "distinct (map exec_key (cp_log S'))"
proof -
  have "count (mset (map exec_key (cp_log S'))) x \<le> 1" for x
  proof -
    have "count (attempts_made S') x \<le> 1"
      using run_unique [OF assms] by (cases x) (simp add: attempts_unique_def)
    then show ?thesis by (simp add: attempts_made_def)
  qed
  then show ?thesis
    by (metis (no_types, lifting) One_nat_def count_mset_0_iff distinct_count_atmost_1 le_antisym
        less_one linorder_not_le not_less_eq_eq zero_less_Suc)
qed

lemma executions_bounded:
  assumes "component_run OPS env c (start_component k s) S'" and "inv s"
  shows "int (length (filter (\<lambda>t. t_id t = i) (cp_log S'))) \<le> attempts_of (view (cp_store S')) (key i)"
proof -
  let ?xs = "map exec_key (filter (\<lambda>t. t_id t = i) (cp_log S'))" and ?n = "attempts_of (view (cp_store S')) (key i)"
  have "mset (map exec_key (cp_log S')) \<subseteq># attempts_made S'" by (simp add: attempts_made_def)
  then have sub: "x \<in># attempts_made S'" if "x \<in> set (map exec_key (cp_log S'))" for x
    using that by (meson mset_subset_eqD set_mset_mset in_multiset_in_set)
  have "set ?xs \<subseteq> {i} \<times> {0<..?n}"
    using run_unique [OF assms] sub by (fastforce simp: attempts_unique_def exec_key_def)
  then have "card (set ?xs) \<le> card ({i} \<times> {0<..?n})" by (rule card_mono [rotated]) simp
  moreover have "distinct ?xs"
    using executed_once [OF assms] by (simp add: distinct_map inj_on_def)
  then have "card (set ?xs) = length (filter (\<lambda>t. t_id t = i) (cp_log S'))"
    using distinct_card by fastforce
  moreover have "0 \<le> ?n"
  proof -
    obtain ops where "ops \<in> OPS" using nonempty by blast
    have "inv (cp_store S')"
      using run_moves [OF assms(1)] assms(2) by (simp add: moves_def start_component_def)
    then have "leases_ok (view (cp_store S'))"
      by (rule lease_store.view_ok [OF stores [OF \<open>ops \<in> OPS\<close>]])
    then show ?thesis
      by (auto simp: attempts_of_def leases_ok_def lease_ok_def split: option.splits)
  qed
  ultimately show ?thesis by simp
qed

end

section \<open>A lease is exclusive until it expires\<close>

datatype store_op =
    OpClaim gotime gostring gotime duration int
  | OpRenew gotime gostring gostring gotime
  | OpComplete gotime gostring gostring gostring
  | OpFail gotime gostring gostring gostring gotime
  | OpRecover gotime gotime

text \<open>The calls of any number of clients, one after another, and the tasks they are given.\<close>
fun run_ops :: "'s lease_ops \<Rightarrow> store_op list \<Rightarrow> 's \<Rightarrow> task list \<times> 's" where
  "run_ops ops [] s = ([], s)"
| "run_ops ops (OpClaim clk w now d n # os) s =
     (case lo_claim ops clk w now d n s of
        (Inr (Some t), s') \<Rightarrow> apfst (Cons t) (run_ops ops os s')
      | (_, s') \<Rightarrow> run_ops ops os s')"
| "run_ops ops (OpRenew clk i w u # os) s = run_ops ops os (snd (lo_renew ops clk i w u s))"
| "run_ops ops (OpComplete clk i w r # os) s = run_ops ops os (snd (lo_complete ops clk i w r s))"
| "run_ops ops (OpFail clk i w msg retry # os) s = run_ops ops os (snd (lo_fail ops clk i w msg retry s))"
| "run_ops ops (OpRecover clk now # os) s = run_ops ops os (snd (lo_recover ops clk now s))"

definition by_owner :: "gostring \<Rightarrow> gostring \<Rightarrow> gostring \<Rightarrow> gostring \<Rightarrow> bool" where
  "by_owner i w j v \<longleftrightarrow> i \<in> {j, trim_space j} \<and> w \<in> {v, trim_space v}"

text \<open>A call that is neither the owner's nor a recovery at a time the lease has run out.\<close>
fun leaves_lease :: "gostring \<Rightarrow> gostring \<Rightarrow> gotime \<Rightarrow> store_op \<Rightarrow> bool" where
  "leaves_lease i w u (OpClaim clk v now d n) = True"
| "leaves_lease i w u (OpRenew clk j v t) = (\<not> by_owner i w j v)"
| "leaves_lease i w u (OpComplete clk j v r) = (\<not> by_owner i w j v)"
| "leaves_lease i w u (OpFail clk j v msg t) = (\<not> by_owner i w j v)"
| "leaves_lease i w u (OpRecover clk now) = (now < u \<and> time_or clk now < u)"

text \<open>The same for a store that compares names by a key; \<open>i\<close> and \<open>w\<close> are keys.\<close>
definition by_owner_key :: "(gostring \<Rightarrow> gostring) \<Rightarrow> gostring \<Rightarrow> gostring \<Rightarrow> gostring \<Rightarrow> gostring \<Rightarrow> bool" where
  "by_owner_key key i w j v \<longleftrightarrow> i \<in> key ` {j, trim_space j} \<and> w \<in> key ` {v, trim_space v}"

fun leaves_key_lease :: "(gostring \<Rightarrow> gostring) \<Rightarrow> gostring \<Rightarrow> gostring \<Rightarrow> gotime \<Rightarrow> store_op \<Rightarrow> bool" where
  "leaves_key_lease key i w u (OpClaim clk v now d n) = True"
| "leaves_key_lease key i w u (OpRenew clk j v t) = (\<not> by_owner_key key i w j v)"
| "leaves_key_lease key i w u (OpComplete clk j v r) = (\<not> by_owner_key key i w j v)"
| "leaves_key_lease key i w u (OpFail clk j v msg t) = (\<not> by_owner_key key i w j v)"
| "leaves_key_lease key i w u (OpRecover clk now) = (now < u \<and> time_or clk now < u)"

lemma leaves_lease_key: "leaves_key_lease (\<lambda>x. x) i w u p = leaves_lease i w u p"
  by (cases p) (auto simp: by_owner_def by_owner_key_def)

context lease_store
begin

lemma exclusive_claim:
  assumes "inv s" and "view s i = Some l" and "held_by l w" and "lo_claim ops clk v now d n s = (r, s')"
  shows "inv s' \<and> view s' i = Some l \<and> (\<forall>t. r = Inr (Some t) \<longrightarrow> key (t_id t) \<noteq> i)"
proof (cases "\<exists>t. r = Inr (Some t)")
  case True
  then obtain t where t: "r = Inr (Some t)" by blast
  let ?c = "EClaim (key (t_id t)) (key (worker_name v)) (stamp (time_or clk now + lease_or_default d))"
  obtain es where es: "only_exhaust es" "lrun (es @ [?c]) (view s) (view s')" "inv s'"
    using claim_Some [OF assms(1) assms(4) [unfolded t]] by blast
  have "\<forall>e \<in> set (es @ [?c]). spares i w (l_until l) e" using es(1) by (auto simp: only_exhaust_def)
  from lrun_exclusive [OF es(2) assms(2,3) this] show ?thesis
    using es(3) t by (auto simp: claims_of_def split: if_splits)
next
  case False
  show ?thesis
  proof (cases r)
    case (Inl e)
    then show ?thesis using claim_error [of clk v now d n s e s'] assms by simp
  next
    case (Inr a)
    then have "r = Inr None" using False by (cases a) simp_all
    then obtain es where es: "only_exhaust es" "lrun es (view s) (view s')" "inv s'"
      using claim_None [OF assms(1) assms(4) [unfolded \<open>r = Inr None\<close>]] by blast
    have "\<forall>e \<in> set es. spares i w (l_until l) e" using es(1) by (auto simp: only_exhaust_def)
    from lrun_exclusive [OF es(2) assms(2,3) this] show ?thesis using es(3) Inr False by simp
  qed
qed

lemma exclusive_owner_event:
  assumes "lrun [e] m m'" and "m i = Some l" and "held_by l w"
    and "\<not> by_owner_key key i w j v" and "upto_trim j j'" and "upto_trim v v'"
    and "e \<in> {ERenew (key j') (key v'), EComplete (key j') (key v'), ERetry (key j') (key v'), EGiveUp (key j') (key v')}"
  shows "m' i = Some l"
proof -
  have "\<forall>e \<in> set [e]. spares i w (l_until l) e"
    using assms(4-7) by (auto simp: by_owner_key_def upto_trim_def)
  from lrun_exclusive [OF assms(1-3) this] show ?thesis by simp
qed

lemma exclusive_renew:
  assumes "inv s" and "view s i = Some l" and "held_by l w" and "\<not> by_owner_key key i w j v"
  shows "inv (snd (lo_renew ops clk j v t s)) \<and> view (snd (lo_renew ops clk j v t s)) i = Some l"
proof (cases "lo_renew ops clk j v t s")
  case (Pair r s')
  show ?thesis
  proof (cases r)
    case None
    then show ?thesis
      using renew_ok [OF assms(1), of clk j v t s'] exclusive_owner_event [where m = "view s" and m' = "view s'" and i = i and l = l and w = w and j = j and v = v, OF _ assms(2-4)] Pair by fastforce
  next
    case (Some e)
    then show ?thesis using renew_error [of clk j v t s e s'] Pair assms by simp
  qed
qed

lemma exclusive_complete:
  assumes "inv s" and "view s i = Some l" and "held_by l w" and "\<not> by_owner_key key i w j v"
  shows "inv (snd (lo_complete ops clk j v t s)) \<and> view (snd (lo_complete ops clk j v t s)) i = Some l"
proof (cases "lo_complete ops clk j v t s")
  case (Pair r s')
  show ?thesis
  proof (cases r)
    case None
    then show ?thesis
      using complete_ok [OF assms(1), of clk j v t s'] exclusive_owner_event [where m = "view s" and m' = "view s'" and i = i and l = l and w = w and j = j and v = v, OF _ assms(2-4)] Pair by fastforce
  next
    case (Some e)
    then show ?thesis using complete_error [of clk j v t s e s'] Pair assms by simp
  qed
qed

lemma exclusive_fail:
  assumes "inv s" and "view s i = Some l" and "held_by l w" and "\<not> by_owner_key key i w j v"
  shows "inv (snd (lo_fail ops clk j v msg t s)) \<and> view (snd (lo_fail ops clk j v msg t s)) i = Some l"
proof (cases "lo_fail ops clk j v msg t s")
  case (Pair r s')
  show ?thesis
  proof (cases r)
    case None
    then obtain j' u where e: "inv s'" "upto_trim j j'" "upto_trim v u"
      "lrun [ERetry (key j') (key u)] (view s) (view s') \<or> lrun [EGiveUp (key j') (key u)] (view s) (view s')"
      using fail_ok [OF assms(1), of clk j v msg t s'] Pair by blast
    then have "view s' i = Some l"
      by (elim disjE) (erule exclusive_owner_event [where m = "view s" and m' = "view s'" and i = i and l = l and w = w and j = j and v = v, OF _ assms(2-4) e(2,3)]; simp)+
    then show ?thesis using e(1) Pair by simp
  next
    case (Some e)
    then show ?thesis using fail_error [of clk j v msg t s e s'] Pair assms by simp
  qed
qed

lemma exclusive_recover:
  assumes "inv s" and "view s i = Some l" and "held_by l w"
    and "now < l_until l" and "time_or clk now < l_until l"
  shows "inv (snd (lo_recover ops clk now s)) \<and> view (snd (lo_recover ops clk now s)) i = Some l"
proof (cases "lo_recover ops clk now s")
  case (Pair r s')
  show ?thesis
  proof (cases r)
    case (Inr k)
    then obtain es now' where es: "now' \<in> {now, time_or clk now}" "only_recover now' es"
      "lrun es (view s) (view s')" "inv s'"
      using recover_ok [OF assms(1), of clk now k s'] Pair by blast
    have "\<forall>e \<in> set es. spares i w (l_until l) e"
      using es(1,2) assms(4,5) by (auto simp: only_recover_def)
    from lrun_exclusive [OF es(3) assms(2,3) this] show ?thesis using es(4) Pair by simp
  next
    case (Inl e)
    then show ?thesis using recover_error [of clk now s e s'] Pair assms by simp
  qed
qed

lemma lease_exclusive:
  assumes "inv s" and "view s i = Some l" and "held_by l w" and "list_all (leaves_key_lease key i w (l_until l)) os"
    and "run_ops ops os s = (ts, s')"
  shows "inv s' \<and> view s' i = Some l \<and> i \<notin> (\<lambda>t. key (t_id t)) ` set ts"
  using assms
proof (induction os arbitrary: s ts)
  case (Cons p os)
  show ?case
  proof (cases p)
    case (OpClaim clk v now d n)
    obtain r s1 where c: "lo_claim ops clk v now d n s = (r, s1)" by fastforce
    note e = exclusive_claim [OF Cons.prems(1-3) c]
    obtain ts1 where run: "run_ops ops os s1 = (ts1, s')"
      and ts: "ts = (case r of Inr (Some t) \<Rightarrow> t # ts1 | _ \<Rightarrow> ts1)"
      using Cons.prems(5) c OpClaim
      by (cases "run_ops ops os s1") (auto split: sum.splits option.splits)
    have "inv s' \<and> view s' i = Some l \<and> i \<notin> (\<lambda>t. key (t_id t)) ` set ts1"
      using Cons.prems(4) e by (intro Cons.IH [OF _ _ Cons.prems(3) _ run]) auto
    then show ?thesis using e ts by (auto split: sum.splits option.splits)
  next
    case (OpRenew clk j v t)
    then show ?thesis using Cons.prems exclusive_renew [OF Cons.prems(1-3), of j v clk t] by (intro Cons.IH) auto
  next
    case (OpComplete clk j v t)
    then show ?thesis using Cons.prems exclusive_complete [OF Cons.prems(1-3), of j v clk t] by (intro Cons.IH) auto
  next
    case (OpFail clk j v msg t)
    then show ?thesis using Cons.prems exclusive_fail [OF Cons.prems(1-3), of j v clk msg t] by (intro Cons.IH) auto
  next
    case (OpRecover clk now)
    then show ?thesis using Cons.prems exclusive_recover [OF Cons.prems(1-3), of now clk] by (intro Cons.IH) auto
  qed
qed simp

end

end
