(* ===== verification/TaskClaims.thy ===== *)
theory TaskClaims imports
  TaskSystem
begin

text \<open>
  The task subsystem's properties: the two stores interpret the worker system, the claim picks
  the task it should, the retry delay doubles, and what one round of the worker does.
\<close>

section \<open>The stores under the worker component\<close>

text \<open>What the API does to a store while the workers run: it creates tasks.\<close>

definition memory_creates :: "memory_store \<Rightarrow> memory_store \<Rightarrow> bool" where
  "memory_creates s s' \<longleftrightarrow>
     (\<exists>clk req. trim_space (cr_id req) \<notin> set (keys (ms_tasks s)) \<and> s' = snd (ms_create clk req s))"

definition mysql_creates :: "task_table \<Rightarrow> task_table \<Rightarrow> bool" where
  "mysql_creates tb tb' \<longleftrightarrow> (\<exists>db clk req. tb' = snd (sq_create db clk req tb))"

lemma sq_create_snd:
  "snd (sq_create db clk req tb) = tb
   \<or> snd (sq_create db clk req tb) = (if list_ex (\<lambda>r. collate (rw_task_id r) = collate (trim_space (cr_id req))) (tb_rows tb)
       then tb\<lparr>tb_next_id := tb_next_id tb + 1\<rparr>
       else tb\<lparr>tb_rows := tb_rows tb @ [new_task_row clk req (the (tb_json tb (cr_payload req))) (tb_next_id tb)],
              tb_next_id := tb_next_id tb + 1\<rparr>)"
  unfolding sq_create_def Let_def
  by (simp del: list_ex_iff split: option.split sum.split)

lemma sq_create_cases:
  obtains n where "snd (sq_create db clk req tb) = tb\<lparr>tb_next_id := n\<rparr>" "tb_next_id tb \<le> n"
  | row where "collate (trim_space (cr_id req)) \<notin> row_key ` set (tb_rows tb)" "rw_id row = tb_next_id tb"
    "rw_task_id row = trim_space (cr_id req)" "lease_ok (row_lease row)" "rw_status row = Pending" "rw_retry_count row = 0"
    "snd (sq_create db clk req tb) = tb\<lparr>tb_rows := tb_rows tb @ [row], tb_next_id := tb_next_id tb + 1\<rparr>"
proof -
  consider "snd (sq_create db clk req tb) = tb" | "snd (sq_create db clk req tb) = tb\<lparr>tb_next_id := tb_next_id tb + 1\<rparr>"
    | payload where "\<not> list_ex (\<lambda>r. collate (rw_task_id r) = collate (trim_space (cr_id req))) (tb_rows tb)"
      "snd (sq_create db clk req tb) =
        tb\<lparr>tb_rows := tb_rows tb @ [new_task_row clk req payload (tb_next_id tb)], tb_next_id := tb_next_id tb + 1\<rparr>"
    using sq_create_snd [of db clk req tb] by (auto split: if_splits option.splits)
  then show thesis
  proof cases
    case 1 then show thesis using that(1) [of "tb_next_id tb"] by simp
  next
    case 2 then show thesis using that(1) by simp
  next
    case (3 payload)
    have "0 < max_or_default n" for n by (simp add: max_or_default_def default_max_attempts_def)
    with 3 show thesis
      by (intro that(2) [of "new_task_row clk req payload (tb_next_id tb)"])
        (auto simp: new_task_row_def row_lease_simps row_key_def list_ex_iff less_imp_le)
  qed
qed

lemma entries_view_snoc:
  assumes "key x \<notin> key ` set xs"
  shows "entries_view key ls (xs @ [x]) = (entries_view key ls xs)(key x \<mapsto> ls x)"
  using assms by (induction xs) (auto simp: entries_view_def fun_eq_iff)

lemma sq_create_moves:
  assumes "sq_inv tb" shows "moves sq_view sq_inv tb (snd (sq_create db clk req tb))"
proof (cases rule: sq_create_cases [where db = db and clk = clk and req = req and tb = tb])
  case (1 n)
  have "sq_inv (tb\<lparr>tb_next_id := n\<rparr>)" using assms 1(2) by (auto simp: sq_inv_def)
  moreover have "sq_view (tb\<lparr>tb_next_id := n\<rparr>) = sq_view tb" by (simp add: sq_view_def)
  ultimately show ?thesis unfolding moves_def 1(1) by (metis lrun_Nil)
next
  case (2 row)
  have key: "row_key row = collate (trim_space (cr_id req))" by (simp add: row_key_def 2(3))
  have "sq_inv (snd (sq_create db clk req tb))"
    using assms 2 key by (auto simp: sq_inv_def intro: less_trans)
  moreover have "sq_view tb (row_key row) = None"
    using 2(1) by (auto simp: key sq_view_def entries_view_def map_of_eq_None_iff)
  then have "lstep (ECreate (row_key row)) (sq_view tb) ((sq_view tb)(row_key row \<mapsto> row_lease row))"
    using 2 by (intro lstep.create) (auto simp: row_lease_simps)
  moreover have "sq_view (snd (sq_create db clk req tb)) = (sq_view tb)(row_key row \<mapsto> row_lease row)"
    using 2 key by (simp add: sq_view_def entries_view_snoc)
  ultimately have "sq_inv (snd (sq_create db clk req tb)) \<and>
    lrun [ECreate (row_key row)] (sq_view tb) (sq_view (snd (sq_create db clk req tb)))" by simp
  then show ?thesis unfolding moves_def by blast
qed

lemma ms_create_moves:
  assumes "ms_inv s" and "trim_space (cr_id req) \<notin> set (keys (ms_tasks s))"
  shows "moves ms_view ms_inv s (snd (ms_create clk req s))"
proof (cases "ms_create clk req s")
  case (Pair r s')
  have inv: "ms_inv s'" by (rule ms_create_inv [OF assms(1) Pair])
  show ?thesis
  proof (cases "s' = s")
    case False
    then obtain t where "r = Inr t" using Pair by (cases r) (auto simp: ms_create_def Let_def split: if_splits)
    then have "lrun [ECreate (t_id t)] (ms_view s) (ms_view s')"
      using ms_create_fresh [of clk req s t s'] Pair assms(2) False by blast
    with inv have "moves ms_view ms_inv s s'" unfolding moves_def by blast
    then show ?thesis using Pair by simp
  qed (use Pair assms(1) in \<open>simp add: moves_refl\<close>)
qed

interpretation memory_system: worker_system "{memory_lease_ops}" ms_view ms_inv memory_creates "\<lambda>i. i" "\<lambda>t. t"
proof (rule worker_system.intro, goal_cases)
  case (2 ops) then show ?case using memory.lease_store_axioms by simp
next
  case (3 s s') then show ?case using ms_create_moves by (auto simp: memory_creates_def)
qed simp

interpretation mysql_system: worker_system "range mysql_lease_ops" sq_view sq_inv mysql_creates collate mysql_datetime
proof (rule worker_system.intro, goal_cases)
  case (2 ops) then show ?case using mysql.lease_store_axioms by auto
next
  case (3 s s') then show ?case using sq_create_moves by (auto simp: mysql_creates_def)
qed simp

text \<open>
  C1.  However the loops of the worker component interleave over the memory store, with tasks
  being created and the component being stopped at any moment and with arbitrary clocks and
  executor outcomes: every attempt of every task is executed at most once, and a task is executed
  at most as often as its own maximum of attempts.
\<close>
theorem memory_worker_attempts:
  assumes "component_run {memory_lease_ops} memory_creates c (start_component k s) S" and "ms_inv s"
  shows "distinct (map (\<lambda>t. (t_id t, t_attempts t)) (cp_log S)) \<and>
    (\<forall>i. int (length (filter (\<lambda>t. t_id t = i) (cp_log S))) \<le>
      (case map_of (ms_tasks (cp_store S)) i of None \<Rightarrow> 0 | Some t \<Rightarrow> t_max_attempts t))"
proof (intro conjI allI)
  show "distinct (map (\<lambda>t. (t_id t, t_attempts t)) (cp_log S))"
    using memory_system.executed_once [OF assms] by (simp add: exec_key_def [abs_def])
next
  fix i
  have "ms_inv (cp_store S)"
    using memory_system.run_moves [OF assms(1)] assms(2) by (simp add: moves_def start_component_def)
  then have "attempts_of (ms_view (cp_store S)) i \<le>
      (case map_of (ms_tasks (cp_store S)) i of None \<Rightarrow> 0 | Some t \<Rightarrow> t_max_attempts t)"
    by (auto simp: attempts_of_def ms_view_simps ms_inv_def tasks_ok_def lease_of_simps split: option.splits)
  then show "int (length (filter (\<lambda>t. t_id t = i) (cp_log S))) \<le>
      (case map_of (ms_tasks (cp_store S)) i of None \<Rightarrow> 0 | Some t \<Rightarrow> t_max_attempts t)"
    using memory_system.executions_bounded [OF assms, of i] by linarith
qed

text \<open>
  C2.  The same for the MySQL store, where moreover any call may fail in the database: every
  attempt of every task is executed at most once, and a task never more often than the maximum
  its row holds.
\<close>
theorem mysql_worker_attempts:
  assumes "component_run (range mysql_lease_ops) mysql_creates c (start_component k tb) S" and "sq_inv tb"
  shows "distinct (map (\<lambda>t. (t_id t, t_attempts t)) (cp_log S)) \<and>
    (\<forall>r \<in> set (tb_rows (cp_store S)).
      int (length (filter (\<lambda>t. t_id t = rw_task_id r) (cp_log S))) \<le> rw_max_attempts r)"
proof (intro conjI ballI)
  show "distinct (map (\<lambda>t. (t_id t, t_attempts t)) (cp_log S))"
    using mysql_system.executed_once [OF assms] by (simp add: exec_key_def [abs_def])
next
  fix r assume r: "r \<in> set (tb_rows (cp_store S))"
  have inv: "sq_inv (cp_store S)"
    using mysql_system.run_moves [OF assms(1)] assms(2) by (simp add: moves_def start_component_def)
  then have "sq_view (cp_store S) (row_key r) = Some (row_lease r)"
    unfolding sq_view_def using r by (intro entries_view_lookup) (simp_all add: sq_inv_def)
  then have "attempts_of (sq_view (cp_store S)) (collate (rw_task_id r)) \<le> rw_max_attempts r"
    using inv r by (auto simp: attempts_of_def sq_inv_def row_lease_simps row_key_def)
  then show "int (length (filter (\<lambda>t. t_id t = rw_task_id r) (cp_log S))) \<le> rw_max_attempts r"
    using mysql_system.executions_bounded [OF assms, of "rw_task_id r"] by linarith
qed

text \<open>
  C3.  A lease on the memory store is exclusive until it runs out: after a claim has given a
  worker a task until time \<open>u\<close>, no sequence of claims by anybody, of renewals, completions and
  failures by others and of recoveries before \<open>u\<close> gives the task to somebody else, and the task
  is still running under its holder.
\<close>
theorem memory_lease_exclusive:
  assumes "ms_inv s" and "ms_claim_next clk w now d n s = (Some t, s1)"
    and "list_all (leaves_lease (t_id t) (worker_name w) (time_or clk now + lease_or_default d)) os"
    and "run_ops memory_lease_ops os s1 = (ts, s2)"
  shows "t_id t \<notin> t_id ` set ts \<and>
    (\<exists>t'. map_of (ms_tasks s2) (t_id t) = Some t' \<and> t_status t' = Running \<and> t_locked_by t' = worker_name w)"
proof -
  let ?w = "worker_name w" and ?u = "time_or clk now + lease_or_default d"
  obtain es where "ms_inv s1" "lrun (es @ [EClaim (t_id t) ?w ?u]) (ms_view s) (ms_view s1)"
    using ms_claim_sim [OF assms(1,2)] by auto
  then obtain m where "lstep (EClaim (t_id t) ?w ?u) m (ms_view s1)" by (auto simp: lrun_append)
  then obtain l where l: "ms_view s1 (t_id t) = Some l" "held_by l ?w" "l_until l = ?u"
    by (elim lstep_ClaimE) (auto simp: held_by_def)
  from memory.lease_exclusive [OF \<open>ms_inv s1\<close> l(1,2) _ assms(4)] assms(3) l
  have "ms_view s2 (t_id t) = Some l \<and> t_id t \<notin> t_id ` set ts" by (simp add: leaves_lease_key [abs_def])
  with l show ?thesis by (auto simp: ms_view_simps lease_of_def held_by_def)
qed

text \<open>The calls of the worker change no identifier.\<close>
lemma sq_update_ids: "(\<And>r. rw_task_id (f r) = rw_task_id r) \<Longrightarrow> map rw_task_id (tb_rows (snd (sq_update P f tb))) = map rw_task_id (tb_rows tb)"
  by (simp add: sq_update_def)

lemma sq_ops_ids:
  "map rw_task_id (tb_rows (snd (sq_claim_next db clk w now d n tb))) = map rw_task_id (tb_rows tb)"
  "map rw_task_id (tb_rows (snd (sq_renew_lease db clk i w u tb))) = map rw_task_id (tb_rows tb)"
  "map rw_task_id (tb_rows (snd (sq_complete db clk i w res tb))) = map rw_task_id (tb_rows tb)"
  "map rw_task_id (tb_rows (snd (sq_fail db clk i w msg u tb))) = map rw_task_id (tb_rows tb)"
  "map rw_task_id (tb_rows (snd (sq_recover_expired db clk now tb))) = map rw_task_id (tb_rows tb)"
  by (auto simp: sq_claim_next_def sq_renew_lease_def sq_complete_def sq_fail_def sq_recover_expired_def sq_owned_update_def Let_def
      case_prod_beta sq_update_ids split: option.split)

lemma run_ops_ids:
  "map rw_task_id (tb_rows (snd (run_ops (mysql_lease_ops db) os tb))) = map rw_task_id (tb_rows tb)"
proof (induction os arbitrary: tb)
  case (Cons p os)
  note ops = mysql_lease_ops_def lease_ops.select_convs
  show ?case
  proof (cases p)
    case (OpClaim clk v now d n)
    obtain r t1 where c: "sq_claim_next db clk v now d n tb = (r, t1)" by fastforce
    then have "map rw_task_id (tb_rows t1) = map rw_task_id (tb_rows tb)" using sq_ops_ids(1) by (metis snd_conv)
    then show ?thesis using Cons.IH [of t1] c OpClaim by (auto simp: ops split: sum.split option.split)
  qed (use Cons.IH in \<open>simp_all add: ops sq_ops_ids\<close>)
qed simp

lemma sq_view_row:
  assumes "sq_inv tb" and "sq_view tb (collate i) = Some l" and "i \<in> set (map rw_task_id (tb_rows tb))"
  obtains r where "r \<in> set (tb_rows tb)" "rw_task_id r = i" "row_lease r = l"
proof -
  obtain r where r: "r \<in> set (tb_rows tb)" "rw_task_id r = i" using assms(3) by auto
  have "distinct (map row_key (tb_rows tb))" using assms(1) by (simp add: sq_inv_def)
  from entries_view_lookup [OF this r(1), of row_lease] have "row_lease r = l"
    using assms(2) by (simp add: sq_view_def row_key_def r(2))
  with r that show thesis by blast
qed

lemma sq_claimed_id: "sq_claim_next db clk w now d n tb = (Inr (Some t), tb1) \<Longrightarrow> t_id t \<in> set (map rw_task_id (tb_rows tb))"
  by (auto simp: sq_claim_next_def Let_def case_prod_unfold dest!: oldest_in split: option.splits)

text \<open>
  C4.  A lease on the MySQL store is exclusive until the deadline its column holds, which is the one asked
  for rounded to a whole second and so at most half a second earlier or later: whatever calls come in
  between that are not the holder's (as the collation compares names) and not recoveries from that moment
  on, and whichever of them fail, nobody else is given the task and it stays with its holder.
\<close>
theorem mysql_lease_exclusive:
  assumes "sq_inv tb" and "sq_claim_next db clk w now d n tb = (Inr (Some t), tb1)"
    and "list_all (leaves_key_lease collate (collate (t_id t)) (collate (worker_name w))
      (mysql_datetime (time_or clk now + lease_or_default d))) os"
    and "run_ops (mysql_lease_ops db') os tb1 = (ts, tb2)"
  shows "collate (t_id t) \<notin> (\<lambda>t. collate (t_id t)) ` set ts \<and>
    (\<exists>r \<in> set (tb_rows tb2). rw_task_id r = t_id t \<and> rw_status r = Running \<and> collate (rw_locked_by r) = collate (worker_name w) \<and>
       nullable_time (rw_locked_until r) = mysql_datetime (time_or clk now + lease_or_default d)) \<and>
    \<bar>mysql_datetime (time_or clk now + lease_or_default d) - (time_or clk now + lease_or_default d)\<bar> \<le> 500000000"
proof -
  let ?w = "collate (worker_name w)" and ?u = "mysql_datetime (time_or clk now + lease_or_default d)"
  have inv: "sq_inv tb1" and "lstep (EClaim (collate (t_id t)) ?w ?u) (sq_view tb) (sq_view tb1)"
    using sq_claim_sim [OF assms(1,2)] by auto
  then obtain l where l: "sq_view tb1 (collate (t_id t)) = Some l" "held_by l ?w" "l_until l = ?u"
    by (elim lstep_ClaimE) (auto simp: held_by_def)
  from mysql.lease_exclusive [OF inv l(1,2) _ assms(4)] assms(3) l
  have v: "sq_inv tb2" "sq_view tb2 (collate (t_id t)) = Some l" "collate (t_id t) \<notin> (\<lambda>t. collate (t_id t)) ` set ts" by simp_all
  have i: "t_id t \<in> set (map rw_task_id (tb_rows tb2))"
    using sq_claimed_id [OF assms(2)] run_ops_ids [of db' os tb1] sq_ops_ids(1) [of db clk w now d n tb] assms(2,4) by simp
  from sq_view_row [OF v(1,2) i] obtain r where r: "r \<in> set (tb_rows tb2)" "rw_task_id r = t_id t" "row_lease r = l" .
  then have "rw_status r = Running" "collate (rw_locked_by r) = ?w" "nullable_time (rw_locked_until r) = ?u"
    using l by (auto simp: row_lease_def held_by_def)
  moreover have "\<bar>?u - (time_or clk now + lease_or_default d)\<bar> \<le> 500000000"
    using mysql_datetime_near [of "time_or clk now + lease_or_default d"] by linarith
  ultimately show ?thesis using v(3) r(1,2) by blast
qed

text \<open>
  A finished task stays finished: whatever the worker component and the API do after it on
  the memory store, a task that is completed or failed keeps its status and its attempts.
\<close>
theorem memory_terminal_final:
  assumes "component_run {memory_lease_ops} memory_creates c S S'" and "ms_inv (cp_store S)"
    and "map_of (ms_tasks (cp_store S)) i = Some t" and "t_status t \<in> {Completed, Failed}"
  shows "\<exists>t'. map_of (ms_tasks (cp_store S')) i = Some t' \<and> t_status t' = t_status t \<and>
    t_attempts t' = t_attempts t"
proof -
  obtain es where "lrun es (ms_view (cp_store S)) (ms_view (cp_store S'))"
    using memory_system.run_moves [OF assms(1,2)] by (auto simp: moves_def)
  then have "ms_view (cp_store S') i = Some (lease_of t)"
    by (rule lrun_terminal) (use assms(3,4) in \<open>auto simp: ms_view_simps terminal_def lease_of_def\<close>)
  then show ?thesis by (auto simp: ms_view_simps lease_of_def)
qed

section \<open>Which task a claim picks\<close>

definition eligible :: "gotime \<Rightarrow> int \<Rightarrow> task \<Rightarrow> bool" where
  "eligible now n t \<longleftrightarrow> t_status t = Pending \<and> (t_next_attempt t = zero_time \<or> t_next_attempt t \<le> now) \<and>
     t_attempts t < (if t_max_attempts t \<le> 0 then n else t_max_attempts t)"

lemma claim_scan_find:
  "map_option t_id (fst (claim_scan now w d n ids s)) =
   map_option (\<lambda>i. t_id (get_or zero_task (ms_tasks s) i)) (find (\<lambda>i. eligible now n (get_or zero_task (ms_tasks s) i)) ids)"
proof (induction ids arbitrary: s)
  case (Cons i ids)
  let ?t = "get_or zero_task (ms_tasks s) i"
  consider (skip) "t_status ?t \<noteq> Pending \<or> (t_next_attempt ?t \<noteq> zero_time \<and> t_next_attempt ?t > now)"
    | (exhausted) "t_status ?t = Pending" "\<not> (t_next_attempt ?t \<noteq> zero_time \<and> t_next_attempt ?t > now)" "\<not> eligible now n ?t"
    | (claim) "eligible now n ?t" by blast
  then show ?case
  proof cases
    case skip
    then have "claim_scan now w d n (i # ids) s = claim_scan now w d n ids s" "\<not> eligible now n ?t"
      by (auto simp: eligible_def Let_def)
    then show ?thesis using Cons.IH [of s] by simp
  next
    case exhausted
    let ?t1 = "(if t_max_attempts ?t \<le> 0 then ?t\<lparr>t_max_attempts := n\<rparr> else ?t)\<lparr>t_status := Failed, t_updated := now\<rparr>"
    have scan: "claim_scan now w d n (i # ids) s = claim_scan now w d n ids (ms_put i ?t1 s)"
      using exhausted by (auto simp: eligible_def Let_def)
    have "\<not> eligible now n ?t1" by (simp add: eligible_def)
    then have same: "eligible now n (get_or zero_task (ms_tasks (ms_put i ?t1 s)) j) = eligible now n (get_or zero_task (ms_tasks s) j)" for j
      using exhausted(3) by (cases "j = i") (simp_all add: ms_put_def get_or_update)
    have ids: "t_id (get_or zero_task (ms_tasks (ms_put i ?t1 s)) j) = t_id (get_or zero_task (ms_tasks s) j)" for j
      by (cases "j = i") (simp_all add: ms_put_def get_or_update)
    show ?thesis unfolding scan Cons.IH same ids using exhausted(3) by simp
  next
    case claim
    then show ?thesis by (auto simp: eligible_def Let_def)
  qed
qed simp

text \<open>
  \<open>ClaimNext\<close> of the memory store serves tasks in the order of their creation: it answers
  with the first task in that order that is pending, due and has attempts left, and with nothing
  exactly when there is none.
\<close>
theorem ms_claim_fifo:
  "map_option t_id (fst (ms_claim_next clk w now d n s)) =
   map_option (\<lambda>i. t_id (get_or zero_task (ms_tasks s) i))
     (find (\<lambda>i. eligible (time_or clk now) (max_or_default n) (get_or zero_task (ms_tasks s) i)) (ms_order s))"
  by (simp add: ms_claim_next_def claim_scan_find)

text \<open>
  The claiming transaction of the MySQL store answers with a claimable row of the least
  creation time, marked as running under the worker with one attempt more, and with nothing exactly
  when no row is claimable.
\<close>
theorem sq_claim_oldest:
  assumes "sq_claim_next None clk w now d n tb = (Inr r, tb')"
  shows "case r of
      None \<Rightarrow> (\<forall>q \<in> set (tb_rows tb). \<not> claimable (time_or clk now) q)
    | Some t \<Rightarrow> (\<exists>q \<in> set (tb_rows tb). claimable (time_or clk now) q \<and> t_id t = rw_task_id q \<and>
        t_payload t = rw_payload q \<and> t_attempts t = rw_retry_count q + 1 \<and> t_locked_by t = worker_name w \<and>
        (\<forall>p \<in> set (tb_rows tb). claimable (time_or clk now) p \<longrightarrow> rw_created q \<le> rw_created p))"
proof (cases "oldest (filter (claimable (time_or clk now)) (tb_rows tb))")
  case None
  then have "r = None" using assms by (simp add: sq_claim_next_def Let_def)
  then show ?thesis using None by (simp add: oldest_None filter_empty_conv)
next
  case (Some q)
  then obtain t where t: "r = Some t" "t_id t = rw_task_id q" "t_payload t = rw_payload q"
    "t_attempts t = rw_retry_count q + 1" "t_locked_by t = worker_name w"
    using assms by (auto simp: sq_claim_next_def Let_def case_prod_unfold)
  have "q \<in> set (tb_rows tb)" "claimable (time_or clk now) q"
    using oldest_in [OF Some] by simp_all
  moreover have "rw_created q \<le> rw_created p" if "p \<in> set (tb_rows tb)" "claimable (time_or clk now) p" for p
    using that by (intro oldest_least [OF Some]) simp
  ultimately show ?thesis using t by auto
qed

section \<open>The retry delay\<close>

lemma sint_mult_power:
  assumes "0 \<le> b" and "b * 2 ^ n < 2 ^ 63"
  shows "sint (word_of_int b * 2 ^ n :: 64 word) = b * 2 ^ n"
proof -
  have "word_of_int b * 2 ^ n = (word_of_int (b * 2 ^ n) :: 64 word)" by simp
  moreover have "sint (word_of_int (b * 2 ^ n) :: 64 word) = signed_take_bit 63 (b * 2 ^ n)"
    by (simp only: sint_sbintrunc') simp
  moreover have "signed_take_bit 63 (b * 2 ^ n) = b * 2 ^ n"
    using assms by (intro signed_take_bit_int_eq_self) (auto intro: order_trans [of _ 0])
  ultimately show ?thesis by simp
qed

text \<open>
  The delay before a retry doubles with every attempt as long as it fits into an \<open>int64\<close>; so
  with the default of two seconds it is right up to attempt 33, and from there the multiplication
  wraps: at attempt 34 the delay is negative.
\<close>
theorem retry_backoff_doubles:
  "(\<forall>b a. 0 \<le> b \<and> 1 \<le> a \<and> b * 2 ^ nat (a - 1) < 2 ^ 63 \<longrightarrow> retry_backoff b a = b * 2 ^ nat (a - 1)) \<and>
   retry_backoff (wo_backoff default_options) 33 = 2 * second * 2 ^ 32 \<and>
   retry_backoff (wo_backoff default_options) 34 < 0"
proof (intro conjI allI impI)
  fix b a :: int assume "0 \<le> b \<and> 1 \<le> a \<and> b * 2 ^ nat (a - 1) < 2 ^ 63"
  then show "retry_backoff b a = b * 2 ^ nat (a - 1)"
    by (cases "a = 1") (auto simp: retry_backoff_def double_backoff_power sint_mult_power)
qed code_simp+

section \<open>One undisturbed round\<close>

lemma ms_claim_owned:
  assumes "ms_inv s" and "ms_claim_next clk w now d n s = (Some t, s1)"
  shows "ms_owned (t_id t) (worker_name w) s1 = Some t"
proof -
  obtain es where *: "lrun (es @ [EClaim (t_id t) (worker_name w) (time_or clk now + lease_or_default d)]) (ms_view s) (ms_view s1)"
    "map_of (ms_tasks s1) (t_id t) = Some t"
    using ms_claim_sim [OF assms] by auto
  then obtain m where "lstep (EClaim (t_id t) (worker_name w) (time_or clk now + lease_or_default d)) m (ms_view s1)"
    by (auto simp: lrun_append)
  then obtain l where "ms_view s1 (t_id t) = Some l" "held_by l (worker_name w)"
    by (elim lstep_ClaimE) (auto simp: held_by_def)
  then show ?thesis using *(2) by (auto simp: ms_owned_def ms_view_simps lease_of_def held_by_def)
qed

lemma ms_owned_put: "ms_owned i w (ms_put i t s) = (if t_status t \<noteq> Running \<or> t_locked_by t \<noteq> w then None else Some t)"
  by (simp add: ms_owned_def ms_put_def)

lemma ms_owned_renewals: "ms_owned i w (s\<lparr>ms_renewals := x\<rparr>) = ms_owned i w s"
  by (simp add: ms_owned_def)

lemma ms_owned_running: "ms_owned i w s = Some t \<Longrightarrow> t_status t = Running \<and> t_locked_by t = w"
  by (auto simp: ms_owned_def split: option.splits if_splits)

text \<open>
  A round of the worker that claims a task and is not disturbed reports its outcome: it
  returns no error, gives the lease back, and leaves the task completed with the executor's result
  or, after a failure, failed when its attempts are used up and otherwise pending until the
  worker's clock plus the delay for that attempt.
\<close>
theorem work_one_outcome:
  assumes "ms_inv s" and "worker_ok c"
    and "ms_claim_next (rc_claim_store k) (wo_worker_id c) (rc_claim k) (wo_lease c) (wo_max_attempts c) s = (Some t, s1)"
  shows "\<exists>s2 t'. work_one memory_lease_ops exec c k s = (None, s2) \<and> map_of (ms_tasks s2) (t_id t) = Some t' \<and>
    t_locked_by t' = [] \<and> t_attempts t' = t_attempts t \<and>
    (case exec t of
       Inr res \<Rightarrow> t_status t' = Completed \<and> t_result t' = res
     | Inl msg \<Rightarrow> t_error t' = trim_space msg \<and>
         (if t_attempts t \<ge> t_max_attempts t then t_status t' = Failed
          else t_status t' = Pending \<and>
            t_next_attempt t' = rc_report k + retry_backoff (wo_backoff c) (t_attempts t)))"
proof -
  let ?w = "wo_worker_id c" and ?i = "t_id t"
  have "worker_name ?w = ?w" using assms(2) by (simp add: worker_ok_def worker_name_def)
  then have own: "ms_owned ?i ?w s1 = Some t" using ms_claim_owned [OF assms(1,3)] by simp
  then have run: "t_status t = Running" "t_locked_by t = ?w" using ms_owned_running by blast+
  define s2 where "s2 = (if wo_renew_interval c \<le> 0
      then snd (ms_renew_lease (rc_renew_store k) ?i ?w (rc_renew k + wo_lease c) s1) else s1)"
  obtain u where u: "ms_owned ?i ?w s2 = Some u" "t_attempts u = t_attempts t" "t_max_attempts u = t_max_attempts t"
    using own run by (cases "wo_renew_interval c \<le> 0")
      (auto simp: s2_def ms_renew_lease_def ms_owned_renewals ms_owned_put)
  have "work_one memory_lease_ops exec c k s = (case exec t of
      Inl msg \<Rightarrow> ms_fail (rc_report_store k) ?i ?w msg (rc_report k + retry_backoff (wo_backoff c) (t_attempts t)) s2
    | Inr res \<Rightarrow> ms_complete (rc_report_store k) ?i ?w res s2)"
    using assms(3) by (cases "exec t") (simp_all add: work_one_def memory_lease_ops_def s2_def Let_def)
  then show ?thesis using u
    by (cases "exec t") (auto simp: ms_fail_def ms_complete_def Let_def ms_put_def)
qed

section \<open>Exhausted tasks recovered by the MySQL store\<close>

lemma lstep_stuck:
  "lstep e m m' \<Longrightarrow> m i = Some l \<Longrightarrow> l_status l = Pending \<Longrightarrow> l_max l \<le> l_attempts l \<Longrightarrow> e \<noteq> EExhaust i \<Longrightarrow>
    m' i = Some l \<and> \<not> is_claim_of i e"
  by (induction rule: lstep.induct) (auto simp: held_by_def)

lemma lrun_stuck:
  "lrun es m m' \<Longrightarrow> m i = Some l \<Longrightarrow> l_status l = Pending \<Longrightarrow> l_max l \<le> l_attempts l \<Longrightarrow> EExhaust i \<notin> set es \<Longrightarrow>
    m' i = Some l"
  by (induction rule: lrun.induct) (auto dest: lstep_stuck)

definition stuck_at :: "gostring \<Rightarrow> lease \<Rightarrow> task_table \<Rightarrow> bool" where
  "stuck_at i l tb \<longleftrightarrow> sq_inv tb \<and> sq_view tb i = Some l \<and> l_status l = Pending \<and> l_max l \<le> l_attempts l"

lemma stuck_lrun:
  assumes "stuck_at i l tb" and "sq_inv tb' \<and> (\<exists>es. EExhaust i \<notin> set es \<and> lrun es (sq_view tb) (sq_view tb'))"
  shows "stuck_at i l tb'"
  using assms lrun_stuck [of _ "sq_view tb" "sq_view tb'" i l] by (auto simp: stuck_at_def)

lemma stuck_claim:
  assumes "stuck_at i l tb" and "sq_claim_next db clk w now d n tb = (r, tb')"
  shows "stuck_at i l tb' \<and> (\<forall>t. r = Inr (Some t) \<longrightarrow> collate (t_id t) \<noteq> i)"
proof (cases "\<exists>t. r = Inr (Some t)")
  case True
  then obtain t where t: "r = Inr (Some t)" by blast
  let ?e = "EClaim (collate (t_id t)) (collate (worker_name w)) (mysql_datetime (time_or clk now + lease_or_default d))"
  have sim: "sq_inv tb'" "lstep ?e (sq_view tb) (sq_view tb')"
    using sq_claim_sim [of tb db clk w now d n t tb'] assms t by (auto simp: stuck_at_def)
  with assms(1) lstep_stuck [OF sim(2), of i l] t show ?thesis by (auto simp: stuck_at_def)
next
  case False
  then have "tb' = tb" using assms(2)
    by (auto simp: sq_claim_next_def Let_def case_prod_unfold split: option.splits)
  then show ?thesis using assms(1) False by simp
qed

lemma stuck_owned:
  assumes "stuck_at i l tb"
  shows "stuck_at i l (snd (sq_renew_lease db clk j w u tb))" "stuck_at i l (snd (sq_complete db clk j w res tb))"
    "stuck_at i l (snd (sq_fail db clk j w msg u tb))"
proof -
  note defs = mysql_lease_ops_def lease_ops.select_convs
  have inv: "sq_inv tb" using assms by (simp add: stuck_at_def)
  show "stuck_at i l (snd (sq_renew_lease db clk j w u tb))"
  proof (cases "sq_renew_lease db clk j w u tb")
    case (Pair e tb')
    have "stuck_at i l tb'"
    proof (cases e)
      case None
      then have "lo_renew (mysql_lease_ops db) clk j w u tb = (None, tb')" using Pair by (simp add: defs)
      from mysql.renew_ok [OF inv this] obtain a b where
        r: "sq_inv tb'" "lrun [ERenew a b] (sq_view tb) (sq_view tb')" by blast
      show ?thesis by (rule stuck_lrun [OF assms]) (use r in \<open>auto intro!: exI [of _ "[ERenew a b]"]\<close>)
    qed (use Pair assms in \<open>auto simp: sq_renew_lease_def Let_def dest: sq_owned_error\<close>)
    then show ?thesis using Pair by simp
  qed
  show "stuck_at i l (snd (sq_complete db clk j w res tb))"
  proof (cases "sq_complete db clk j w res tb")
    case (Pair e tb')
    have "stuck_at i l tb'"
    proof (cases e)
      case None
      then have "lo_complete (mysql_lease_ops db) clk j w res tb = (None, tb')" using Pair by (simp add: defs)
      from mysql.complete_ok [OF inv this] obtain a b where
        r: "sq_inv tb'" "lrun [EComplete a b] (sq_view tb) (sq_view tb')" by blast
      show ?thesis by (rule stuck_lrun [OF assms]) (use r in \<open>auto intro!: exI [of _ "[EComplete a b]"]\<close>)
    qed (use Pair assms in \<open>auto simp: sq_complete_def dest: sq_owned_error split: option.splits\<close>)
    then show ?thesis using Pair by simp
  qed
  show "stuck_at i l (snd (sq_fail db clk j w msg u tb))"
  proof (cases "sq_fail db clk j w msg u tb")
    case (Pair e tb')
    have "stuck_at i l tb'"
    proof (cases e)
      case None
      then have "lo_fail (mysql_lease_ops db) clk j w msg u tb = (None, tb')" using Pair by (simp add: defs)
      from mysql.fail_ok [OF inv this] obtain a b f where
        r: "sq_inv tb'" "lrun [f] (sq_view tb) (sq_view tb')" "f \<noteq> EExhaust i" by blast
      show ?thesis by (rule stuck_lrun [OF assms]) (use r in \<open>auto intro!: exI [of _ "[f]"]\<close>)
    qed (use Pair assms in \<open>auto simp: sq_fail_def Let_def dest: sq_owned_error\<close>)
    then show ?thesis using Pair by simp
  qed
qed

lemma stuck_recover:
  assumes "stuck_at i l tb" shows "stuck_at i l (snd (sq_recover_expired db clk now tb))"
proof (cases "sq_recover_expired db clk now tb")
  case (Pair r tb')
  have inv: "sq_inv tb" using assms by (simp add: stuck_at_def)
  have "stuck_at i l tb'"
  proof (cases r)
    case (Inl e)
    then have "tb' = tb" using Pair by (auto simp: sq_recover_expired_def sq_update_def Let_def split: option.splits)
    then show ?thesis using assms by simp
  next
    case (Inr k)
    from sq_recover_sim [OF inv, of db clk now k tb'] Pair Inr obtain es now' where
      r: "sq_inv tb'" "only_recover now' es" "lrun es (sq_view tb) (sq_view tb')" by blast
    then have "EExhaust i \<notin> set es" by (auto simp: only_recover_def)
    with r show ?thesis by (intro stuck_lrun [OF assms]) blast
  qed
  then show ?thesis using Pair by simp
qed

lemma stuck_ops:
  assumes "stuck_at i l tb" and "run_ops (mysql_lease_ops db) os tb = (ts, tb')"
  shows "stuck_at i l tb' \<and> i \<notin> (\<lambda>t. collate (t_id t)) ` set ts"
  using assms
proof (induction os arbitrary: tb ts)
  case (Cons p os)
  note ops = mysql_lease_ops_def lease_ops.select_convs
  show ?case
  proof (cases p)
    case (OpClaim clk v now d n)
    obtain r t1 where c: "sq_claim_next db clk v now d n tb = (r, t1)" by fastforce
    note e = stuck_claim [OF Cons.prems(1) c]
    obtain ts1 where run: "run_ops (mysql_lease_ops db) os t1 = (ts1, tb')"
      and ts: "ts = (case r of Inr (Some t) \<Rightarrow> t # ts1 | _ \<Rightarrow> ts1)"
      using Cons.prems(2) c OpClaim
      by (cases "run_ops (mysql_lease_ops db) os t1") (auto simp: ops split: sum.splits option.splits)
    from Cons.IH [OF conjunct1 [OF e] run] show ?thesis
      using e ts by (auto split: sum.splits option.splits)
  next
    case (OpRenew clk j v t)
    then show ?thesis using Cons.prems(2) by (intro Cons.IH [OF stuck_owned(1) [OF Cons.prems(1), of db clk j v t]]) (simp add: ops)
  next
    case (OpComplete clk j v res)
    then show ?thesis using Cons.prems(2) by (intro Cons.IH [OF stuck_owned(2) [OF Cons.prems(1), of db clk j v res]]) (simp add: ops)
  next
    case (OpFail clk j v msg t)
    then show ?thesis using Cons.prems(2) by (intro Cons.IH [OF stuck_owned(3) [OF Cons.prems(1), of db clk j v msg t]]) (simp add: ops)
  next
    case (OpRecover clk now)
    then show ?thesis using Cons.prems(2) by (intro Cons.IH [OF stuck_recover [OF Cons.prems(1), of db clk now]]) (simp add: ops)
  qed
qed simp

text \<open>
  C5.  A task of the MySQL store whose last attempt ran out of its lease is lost: the recovery puts
  the row back to pending although no attempt is left, and from there no call ever moves it, so no
  worker is given it and a client polls \<open>pending\<close> for ever.  (The memory store marks such a task
  as failed at the next claim.)
\<close>
theorem mysql_recovered_exhausted_stuck:
  assumes "sq_inv tb" and "r \<in> set (tb_rows tb)" and "row_expired (time_or clk now) r"
    and "rw_max_attempts r \<le> rw_retry_count r"
    and "run_ops (mysql_lease_ops db) os (snd (sq_recover_expired None clk now tb)) = (ts, tb')"
  shows "rw_task_id r \<notin> t_id ` set ts \<and>
    (\<exists>r' \<in> set (tb_rows tb'). rw_task_id r' = rw_task_id r \<and> rw_status r' = Pending)"
proof -
  let ?tb = "snd (sq_recover_expired None clk now tb)" and ?now = "time_or clk now"
  let ?r = "r\<lparr>rw_status := Pending, rw_locked_by := [], rw_locked_until := None,
                 rw_next_attempt := Some (mysql_datetime ?now), rw_updated := mysql_datetime ?now\<rparr>"
  obtain k where "sq_recover_expired None clk now tb = (Inr k, ?tb)" by (simp add: sq_recover_expired_def Let_def sq_update_def)
  then have inv: "sq_inv ?tb" using sq_recover_sim [OF assms(1)] by blast
  have "?r \<in> set (tb_rows ?tb)"
    using assms(2,3) by (force simp: sq_recover_expired_def Let_def sq_update_def image_iff)
  moreover have "distinct (map row_key (tb_rows ?tb))" using inv by (simp add: sq_inv_def)
  ultimately have "sq_view ?tb (row_key ?r) = Some (row_lease ?r)"
    unfolding sq_view_def by (intro entries_view_lookup)
  then have "stuck_at (collate (rw_task_id r)) (row_lease ?r) ?tb"
    using inv assms(4) by (simp add: stuck_at_def row_lease_def row_key_def)
  note stuck = stuck_ops [OF this assms(5)]
  have "rw_task_id r \<in> set (map rw_task_id (tb_rows tb'))"
    using run_ops_ids [of db os ?tb] sq_ops_ids(5) [of None clk now tb] assms(2,5) by simp
  then obtain r' where "r' \<in> set (tb_rows tb')" "rw_task_id r' = rw_task_id r" "row_lease r' = row_lease ?r"
    using stuck by (auto simp: stuck_at_def elim: sq_view_row)
  then have "r' \<in> set (tb_rows tb') \<and> rw_task_id r' = rw_task_id r \<and> rw_status r' = Pending"
    by (simp add: row_lease_def)
  moreover have "rw_task_id r \<notin> t_id ` set ts" using stuck by auto
  ultimately show ?thesis by blast
qed

section \<open>Concrete runs\<close>

definition demo_request :: create_request where
  "demo_request = \<lparr>cr_id = ''parse_1'', cr_type = ''parse'', cr_payload = ''{}'', cr_request_id = ''r1'',
     cr_client_id = ''c1'', cr_max_attempts = 1\<rparr>"

definition demo_memory :: memory_store where
  "demo_memory = snd (ms_create 100 demo_request ms_empty)"

definition demo_table :: task_table where
  "demo_table = snd (sq_create None 100 demo_request \<lparr>tb_rows = [], tb_next_id = 1, tb_json = Some\<rparr>)"

definition demo_reading :: reading where
  "demo_reading = \<lparr>rd_clock = 200, rd_store = 200, rd_outcome = Inr ''done'', rd_tick = True\<rparr>"

text \<open>Recovery, claim, execution and report of one loop.\<close>
definition demo_run :: "'s lease_ops \<Rightarrow> 's \<Rightarrow> 's component" where
  "demo_run ops s = (run_loop ops default_options demo_reading 0 ^^ 4) (start_component 1 s)"

lemma length_run_loop: "length (cp_loops (run_loop ops c r n S)) = length (cp_loops S)"
  by (auto simp: run_loop_def component_fail_def split: prod.splits option.splits)

lemma demo_component_run:
  assumes "ops \<in> OPS"
  shows "component_run OPS env default_options (start_component 1 s) (demo_run ops s)"
proof -
  let ?f = "run_loop ops default_options demo_reading 0" and ?S = "start_component 1 s"
  have len: "length (cp_loops ((?f ^^ n) ?S)) = 1" for n
    by (induction n) (simp_all add: length_run_loop start_component_def)
  have "component_run OPS env default_options ?S ((?f ^^ n) ?S)" for n
  proof (induction n)
    case (Suc n)
    have "component_step OPS env default_options ((?f ^^ n) ?S) (?f ((?f ^^ n) ?S))"
      by (rule component_step.loop) (simp_all add: len assms)
    then show ?case using Suc by (simp add: component_run_def)
  qed (simp add: component_run_def)
  then show ?thesis by (simp add: demo_run_def)
qed

lemma demo_memory_inv: "ms_inv demo_memory"
proof -
  have "ms_inv ms_empty" by (simp add: ms_inv_def ms_empty_def tasks_ok_def keys_def)
  then show ?thesis unfolding demo_memory_def by (metis ms_create_inv prod.collapse)
qed

lemma demo_table_inv: "sq_inv demo_table"
proof -
  have "sq_inv \<lparr>tb_rows = [], tb_next_id = 1, tb_json = Some\<rparr>" by (simp add: sq_inv_def)
  then show ?thesis unfolding demo_table_def using sq_create_moves by (simp add: moves_def)
qed

text \<open>One run of the demonstration, evaluated once.\<close>
lemma demo_memory_run:
  "map t_id (cp_log (demo_run memory_lease_ops demo_memory)) = [''parse_1'']"
  "map_option t_status (map_of (ms_tasks (cp_store (demo_run memory_lease_ops demo_memory))) ''parse_1'') = Some Completed"
proof -
  have "(case (demo_run memory_lease_ops demo_memory, ()) of (S, _) \<Rightarrow>
      map t_id (cp_log S) = [''parse_1''] \<and> map_option t_status (map_of (ms_tasks (cp_store S)) ''parse_1'') = Some Completed)" by code_simp
  then show "map t_id (cp_log (demo_run memory_lease_ops demo_memory)) = [''parse_1'']"
    "map_option t_status (map_of (ms_tasks (cp_store (demo_run memory_lease_ops demo_memory))) ''parse_1'') = Some Completed" by simp_all
qed

theorem memory_worker_attempts_witness:
  "distinct (map (\<lambda>t. (t_id t, t_attempts t)) (cp_log (demo_run memory_lease_ops demo_memory))) \<and>
   map t_id (cp_log (demo_run memory_lease_ops demo_memory)) = [''parse_1'']"
proof
  show "map t_id (cp_log (demo_run memory_lease_ops demo_memory)) = [''parse_1'']" by (rule demo_memory_run(1))
qed (use memory_worker_attempts [OF demo_component_run [OF singletonI] demo_memory_inv] in blast)

theorem mysql_worker_attempts_witness:
  "distinct (map (\<lambda>t. (t_id t, t_attempts t)) (cp_log (demo_run (mysql_lease_ops None) demo_table))) \<and>
   map t_id (cp_log (demo_run (mysql_lease_ops None) demo_table)) = [''parse_1'']"
proof
  show "map t_id (cp_log (demo_run (mysql_lease_ops None) demo_table)) = [''parse_1'']" by code_simp
qed (use mysql_worker_attempts [OF demo_component_run [OF rangeI] demo_table_inv] in blast)

definition demo_claim :: "memory_store \<Rightarrow> task option \<times> memory_store" where
  "demo_claim s = ms_claim_next 200 ''w1'' 200 50 2 s"

theorem memory_lease_exclusive_witness:
  "''parse_1'' \<notin> t_id ` set (fst (run_ops memory_lease_ops
      [OpClaim 210 ''w2'' 210 50 2, OpComplete 220 ''parse_1'' ''w2'' ''x'', OpRecover 230 230]
      (snd (demo_claim demo_memory))))"
proof -
  have "fst (demo_claim demo_memory) = Some (the (fst (demo_claim demo_memory)))"
    and i: "t_id (the (fst (demo_claim demo_memory))) = ''parse_1''" by code_simp+
  then have c: "ms_claim_next 200 ''w1'' 200 50 2 demo_memory =
      (Some (the (fst (demo_claim demo_memory))), snd (demo_claim demo_memory))"
    by (metis demo_claim_def prod.collapse)
  have "list_all (leaves_lease ''parse_1'' (worker_name ''w1'') (time_or 200 200 + lease_or_default 50))
      [OpClaim 210 ''w2'' 210 50 2, OpComplete 220 ''parse_1'' ''w2'' ''x'', OpRecover 230 230]"
    by code_simp
  from memory_lease_exclusive [OF demo_memory_inv c, unfolded i, OF this surjective_pairing] show ?thesis by blast
qed

lemma collate_image: "collate i \<notin> (\<lambda>t. collate (t_id t)) ` A \<Longrightarrow> i \<notin> t_id ` A"
  by auto

lemma demo_sql_claim:
  obtains t tb where "sq_claim_next None (200 * second) ''w1'' (200 * second) (50 * second) 2 demo_table = (Inr (Some t), tb)" "t_id t = ''parse_1''"
proof -
  have "(case sq_claim_next None (200 * second) ''w1'' (200 * second) (50 * second) 2 demo_table of
      (Inr (Some t), tb) \<Rightarrow> t_id t = ''parse_1'' | _ \<Rightarrow> False)" by code_simp
  then show thesis using that by (auto split: prod.splits sum.splits option.splits)
qed

theorem mysql_lease_exclusive_witness:
  "''parse_1'' \<notin> t_id ` set (fst (run_ops (mysql_lease_ops None)
      [OpClaim (210 * second) ''w2'' (210 * second) 50 2, OpComplete (220 * second) ''parse_1'' ''w2'' ''x'', OpRecover (230 * second) (230 * second)]
      (snd (sq_claim_next None (200 * second) ''w1'' (200 * second) (50 * second) 2 demo_table))))"
proof -
  obtain t tb where c: "sq_claim_next None (200 * second) ''w1'' (200 * second) (50 * second) 2 demo_table = (Inr (Some t), tb)"
    and i: "t_id t = ''parse_1''" by (rule demo_sql_claim)
  have "list_all (leaves_key_lease collate (collate ''parse_1'') (collate (worker_name ''w1''))
        (mysql_datetime (time_or (200 * second) (200 * second) + lease_or_default (50 * second))))
      [OpClaim (210 * second) ''w2'' (210 * second) 50 2, OpComplete (220 * second) ''parse_1'' ''w2'' ''x'', OpRecover (230 * second) (230 * second)]"
    by code_simp
  note e = mysql_lease_exclusive [where db' = None, OF demo_table_inv c, unfolded i, OF this surjective_pairing]
  show ?thesis unfolding c snd_conv by (rule collate_image [OF conjunct1 [OF e]])
qed

text \<open>
  A lease of 300 milliseconds from 10.1 seconds on ends at 10 seconds: a recovery at 10.2 seconds frees the
  task, and another worker is given it while the first may still work on it.
\<close>
lemma mysql_lease_cut_short:
  "(case sq_claim_next None 10100000000 ''w1'' 10100000000 300000000 2 (demo_table\<lparr>tb_rows := map (rw_max_attempts_update (\<lambda>_. 2)) (tb_rows demo_table)\<rparr>) of
     (_, tb) \<Rightarrow> map (\<lambda>t. (t_id t, t_locked_by t)) (fst (run_ops (mysql_lease_ops None)
       [OpRecover 10200000000 10200000000, OpClaim 10210000000 ''w2'' 10210000000 300000000 2] tb))) = [(''parse_1'', ''w2'')]"
  by code_simp

theorem memory_terminal_final_witness:
  "\<exists>t'. map_of (ms_tasks (cp_store (stop_component (demo_run memory_lease_ops demo_memory)))) ''parse_1'' = Some t' \<and>
    t_status t' = Completed"
proof -
  let ?S = "demo_run memory_lease_ops demo_memory"
  have inv: "ms_inv (cp_store ?S)"
    using memory_system.run_moves [OF demo_component_run [OF singletonI], of demo_memory] demo_memory_inv
    by (simp add: moves_def start_component_def)
  obtain t where t: "map_of (ms_tasks (cp_store ?S)) ''parse_1'' = Some t" "t_status t = Completed"
    using demo_memory_run(2) by auto
  have "component_run {memory_lease_ops} memory_creates default_options ?S (stop_component ?S)"
    unfolding component_run_def by (intro r_into_rtranclp component_step.stop)
  from memory_terminal_final [OF this inv t(1)] t(2) show ?thesis by auto
qed

theorem sq_claim_oldest_witness:
  "\<exists>q \<in> set (tb_rows demo_table). claimable 200 q \<and> rw_task_id q = ''parse_1''"
proof -
  have c: "(case sq_claim_next None 200 ''w1'' 200 50 2 demo_table of
        (Inr (Some t), tb) \<Rightarrow> t_id t = ''parse_1'' | _ \<Rightarrow> False)" by code_simp
  then obtain t tb where t: "sq_claim_next None 200 ''w1'' 200 50 2 demo_table = (Inr (Some t), tb)" "t_id t = ''parse_1''"
    by (auto split: prod.splits sum.splits option.splits)
  have "time_or 200 200 = 200" by code_simp
  with sq_claim_oldest [OF t(1)] t(2) show ?thesis by auto
qed

theorem retry_backoff_doubles_witness: "retry_backoff 3 4 = 24"
proof -
  have "retry_backoff 3 4 = 3 * 2 ^ nat (4 - 1)"
    by (rule retry_backoff_doubles [THEN conjunct1, rule_format]) simp
  then show ?thesis by simp
qed

definition demo_clock :: round_clock where
  "demo_clock = \<lparr>rc_claim = 200, rc_claim_store = 200, rc_renew = 210, rc_renew_store = 210,
     rc_report = 220, rc_report_store = 220\<rparr>"

theorem work_one_outcome_witness:
  "\<exists>s2 t'. work_one memory_lease_ops (\<lambda>t. Inl ''boom'') (new_worker [Some (WithWorkerID '' w1 '')]) demo_clock demo_memory
      = (None, s2) \<and> map_of (ms_tasks s2) ''parse_1'' = Some t' \<and> t_error t' = ''boom'' \<and> t_status t' = Failed"
proof -
  let ?c = "new_worker [Some (WithWorkerID '' w1 '')]"
  let ?r = "ms_claim_next (rc_claim_store demo_clock) (wo_worker_id ?c) (rc_claim demo_clock) (wo_lease ?c) (wo_max_attempts ?c) demo_memory"
  have "(case fst ?r of Some t \<Rightarrow> t_id t = ''parse_1'' \<and> t_attempts t = 1 \<and> t_max_attempts t = 1 | None \<Rightarrow> False)"
    by code_simp
  then obtain t s1 where t: "?r = (Some t, s1)" "t_id t = ''parse_1''" "t_attempts t = 1" "t_max_attempts t = 1"
    by (cases ?r) (auto split: option.splits)
  have "trim_space ''boom'' = ''boom''" by code_simp
  with work_one_outcome [OF demo_memory_inv new_worker_ok t(1), of "\<lambda>t. Inl ''boom''"] t(2-4)
  show ?thesis by auto
qed

theorem mysql_recovered_exhausted_stuck_witness:
  "let tb1 = snd (sq_claim_next None (200 * second) ''w1'' (200 * second) (50 * second) 2 demo_table) in
   ''parse_1'' \<notin> t_id ` set (fst (run_ops (mysql_lease_ops None) [OpClaim (400 * second) ''w2'' (400 * second) 50 2]
     (snd (sq_recover_expired None (300 * second) (300 * second) tb1))))"
proof -
  let ?tb = "snd (sq_claim_next None (200 * second) ''w1'' (200 * second) (50 * second) 2 demo_table)"
  have "list_ex (\<lambda>r. rw_task_id r = ''parse_1'' \<and> row_expired (time_or (300 * second) (300 * second)) r \<and> rw_max_attempts r \<le> rw_retry_count r) (tb_rows ?tb)"
    by code_simp
  then obtain r where r: "r \<in> set (tb_rows ?tb)" "rw_task_id r = ''parse_1''" "row_expired (time_or (300 * second) (300 * second)) r"
    "rw_max_attempts r \<le> rw_retry_count r" by (auto simp: list_ex_iff)
  obtain t tb where c: "sq_claim_next None (200 * second) ''w1'' (200 * second) (50 * second) 2 demo_table = (Inr (Some t), tb)"
    by (rule demo_sql_claim)
  then have "sq_inv ?tb" using sq_claim_sim [OF demo_table_inv c] by simp
  from mysql_recovered_exhausted_stuck [OF this r(1,3,4) surjective_pairing, unfolded r(2)]
  show ?thesis unfolding Let_def by blast
qed

end
