(* ===== verification/Sha256.thy ===== *)
theory Sha256 imports
  Codec
begin

text \<open>
  \<open>crypto/sha256\<close> and \<open>crypto/hmac\<close>, as the standard (FIPS 180-4, RFC 2104) defines them
  and the Go library implements them.  Cache keys, token hashes, public identifiers and
  URL fingerprints are SHA-256 digests; tickets and cookies carry an HMAC.  The component
  proofs only use that the functions exist and how long a digest is; where a property needs
  more (no collision), it is an explicit hypothesis there.
\<close>

unbundle bit_operations_syntax

type_synonym u32 = "32 word"

definition sha_k :: "u32 list" where
  "sha_k =
    [1116352408, 1899447441, 3049323471, 3921009573, 961987163, 1508970993, 2453635748, 2870763221,
     3624381080, 310598401, 607225278, 1426881987, 1925078388, 2162078206, 2614888103, 3248222580,
     3835390401, 4022224774, 264347078, 604807628, 770255983, 1249150122, 1555081692, 1996064986,
     2554220882, 2821834349, 2952996808, 3210313671, 3336571891, 3584528711, 113926993, 338241895,
     666307205, 773529912, 1294757372, 1396182291, 1695183700, 1986661051, 2177026350, 2456956037,
     2730485921, 2820302411, 3259730800, 3345764771, 3516065817, 3600352804, 4094571909, 275423344,
     430227734, 506948616, 659060556, 883997877, 958139571, 1322822218, 1537002063, 1747873779,
     1955562222, 2024104815, 2227730452, 2361852424, 2428436474, 2756734187, 3204031479, 3329325298]"

definition sha_init :: "u32 list" where
  "sha_init = [1779033703, 3144134277, 1013904242, 2773480762, 1359893119, 2600822924, 528734635, 1541459225]"

definition rotr :: "nat \<Rightarrow> u32 \<Rightarrow> u32" where
  "rotr n w = drop_bit n w OR push_bit (32 - n) w"

definition sha_s0 :: "u32 \<Rightarrow> u32" where "sha_s0 w = rotr 7 w XOR rotr 18 w XOR drop_bit 3 w"
definition sha_s1 :: "u32 \<Rightarrow> u32" where "sha_s1 w = rotr 17 w XOR rotr 19 w XOR drop_bit 10 w"
definition sha_S0 :: "u32 \<Rightarrow> u32" where "sha_S0 w = rotr 2 w XOR rotr 13 w XOR rotr 22 w"
definition sha_S1 :: "u32 \<Rightarrow> u32" where "sha_S1 w = rotr 6 w XOR rotr 11 w XOR rotr 25 w"

text \<open>The message schedule, newest word first.\<close>
fun sha_schedule :: "nat \<Rightarrow> u32 list \<Rightarrow> u32 list" where
  "sha_schedule 0 ws = ws"
| "sha_schedule (Suc n) ws =
     sha_schedule n ((sha_s1 (ws ! 1) + ws ! 6 + sha_s0 (ws ! 14) + ws ! 15) # ws)"

fun sha_round :: "u32 \<times> u32 \<Rightarrow> u32 list \<Rightarrow> u32 list" where
  "sha_round (k, w) [a, b, c, d, e, f, g, h] =
     (let t1 = h + sha_S1 e + ((e AND f) XOR (NOT e AND g)) + k + w;
          t2 = sha_S0 a + ((a AND b) XOR (a AND c) XOR (b AND c))
      in [t1 + t2, a, b, c, d + t1, e, f, g])"
| "sha_round kw st = st"

fun be_words :: "gostring \<Rightarrow> u32 list" where
  "be_words (a # b # c # d # s) =
     (push_bit 24 (of_nat (byte_val a)) OR push_bit 16 (of_nat (byte_val b)) OR
     push_bit 8 (of_nat (byte_val c)) OR of_nat (byte_val d)) # be_words s"
| "be_words s = []"

definition sha_block :: "u32 list \<Rightarrow> gostring \<Rightarrow> u32 list" where
  "sha_block st blk =
     map2 (+) st (fold sha_round (zip sha_k (rev (sha_schedule 48 (rev (be_words blk))))) st)"

definition be_bytes64 :: "nat \<Rightarrow> gostring" where
  "be_bytes64 n =
     map (\<lambda>i. char_of (unat (drop_bit i (of_nat n :: 64 word) AND 255))) [56, 48, 40, 32, 24, 16, 8, 0]"

definition sha_pad :: "gostring \<Rightarrow> gostring" where
  "sha_pad s = s @ CHR 0x80 # replicate ((119 - length s mod 64) mod 64) CHR 0x00
                 @ be_bytes64 (8 * length s)"

text \<open>The number of blocks of the padded message bounds the loop.\<close>
fun sha_blocks :: "nat \<Rightarrow> gostring \<Rightarrow> u32 list \<Rightarrow> u32 list" where
  "sha_blocks 0 s st = st"
| "sha_blocks (Suc n) s st = sha_blocks n (drop 64 s) (sha_block st (take 64 s))"

definition word_bytes :: "u32 \<Rightarrow> gostring" where
  "word_bytes w = map (\<lambda>i. char_of (unat (drop_bit i w AND 255))) [24, 16, 8, 0]"

definition sha256 :: "gostring \<Rightarrow> gostring" where
  "sha256 s = concat (map word_bytes (sha_blocks (length (sha_pad s) div 64) (sha_pad s) sha_init))"

definition xor_byte :: "nat \<Rightarrow> char \<Rightarrow> char" where
  "xor_byte n c = char_of (unat ((of_nat n :: 8 word) XOR of_nat (byte_val c)))"

definition hmac_sha256 :: "gostring \<Rightarrow> gostring \<Rightarrow> gostring" where
  "hmac_sha256 key msg =
     (let k0 = (if length key > 64 then sha256 key else key);
          k = k0 @ replicate (64 - length k0) CHR 0x00
      in sha256 (map (xor_byte 0x5c) k @ sha256 (map (xor_byte 0x36) k @ msg)))"

section \<open>Digest length\<close>

lemma length_sha_round [simp]: "length (sha_round kw st) = length st"
  by (cases "(kw, st)" rule: sha_round.cases) (simp_all add: Let_def)

lemma length_fold_sha_round [simp]: "length (fold sha_round kws st) = length st"
  by (induction kws arbitrary: st) simp_all

lemma length_sha_block [simp]: "length (sha_block st blk) = length st"
  by (simp add: sha_block_def)

lemma length_sha_blocks [simp]: "length (sha_blocks n s st) = length st"
  by (induction n s st rule: sha_blocks.induct) simp_all

lemma length_concat_word_bytes: "length (concat (map word_bytes ws)) = 4 * length ws"
  by (induction ws) (simp_all add: word_bytes_def)

lemma length_sha256 [simp]: "length (sha256 s) = 32"
  by (simp add: sha256_def length_concat_word_bytes sha_init_def)

lemma length_hmac [simp]: "length (hmac_sha256 k m) = 32"
  by (simp add: hmac_sha256_def Let_def)

end
