(* ===== verification/Cache.thy ===== *)
theory Cache imports
  Sha256
begin

text \<open>
  Package \<open>internal/cache\<close>: keys (\<open>NewKey\<close>), the bounded in-process store (\<open>memory.go\<close>), the Redis
  store over a client given as an argument (\<open>redis.go\<close>), the two-tier cache (\<open>Tiered\<close>) and the
  classes of failures that may be cached.  The contract of \<open>cache.Store\<close> is the locale
  \<open>cache_store\<close>: a store may forget, but it answers only what was last stored under the key and
  has not run out.
\<close>

section \<open>Keys\<close>

record key_parts =
  kp_platform :: gostring
  kp_resource :: gostring
  kp_parser_version :: gostring
  kp_schema_version :: gostring

definition key_fields :: "key_parts \<Rightarrow> gostring list" where
  "key_fields p = [kp_platform p, kp_resource p, kp_parser_version p, kp_schema_version p]"

definition key_material :: "key_parts \<Rightarrow> gostring" where
  "key_material p = join [CHR 0x00] [to_lower (trim_space (kp_platform p)), kp_resource p,
     kp_parser_version p, kp_schema_version p]"

definition bad_key_field :: "gostring \<Rightarrow> bool" where
  "bad_key_field v \<longleftrightarrow> trim_space v = [] \<or> contains_any v [CHR 0x00, CHR 0x0D, CHR 0x0A]"

definition new_key :: "key_parts \<Rightarrow> gostring option" where
  "new_key p = (if list_ex bad_key_field (key_fields p) then None
     else Some (''parse:v1:'' @ hex_encode (sha256 (key_material p))))"

text \<open>What a key identifies.\<close>
definition key_identity :: "key_parts \<Rightarrow> gostring list" where
  "key_identity p = [to_lower (trim_space (kp_platform p)), kp_resource p, kp_parser_version p, kp_schema_version p]"

section \<open>The interface\<close>

text \<open>A context: nil, or one whose \<open>Err()\<close> is the given one.\<close>
datatype go_context = NilCtx | Ctx "gostring option"

datatype cache_error = CacheMsg gostring | CtxErr gostring | StoreDown gostring

record 's cache_ops =
  co_get :: "go_context \<Rightarrow> gotime \<Rightarrow> gostring \<Rightarrow> 's \<Rightarrow> (cache_error + gostring option) \<times> 's"
  co_set :: "go_context \<Rightarrow> gotime \<Rightarrow> gostring \<Rightarrow> gostring \<Rightarrow> duration \<Rightarrow> 's \<Rightarrow> cache_error option \<times> 's"
  co_delete :: "go_context \<Rightarrow> gotime \<Rightarrow> gostring \<Rightarrow> 's \<Rightarrow> cache_error option \<times> 's"

text \<open>What a store holds: under a key the value that is visible at a time.\<close>
type_synonym cache_view = "gostring \<Rightarrow> gotime \<Rightarrow> gostring option"

definition forgets :: "cache_view \<Rightarrow> cache_view \<Rightarrow> bool" where
  "forgets m m' \<longleftrightarrow> (\<forall>k t v. m' k t = Some v \<longrightarrow> m k t = Some v)"

definition stored :: "gotime \<Rightarrow> gostring \<Rightarrow> duration \<Rightarrow> gotime \<Rightarrow> gostring option" where
  "stored now v ttl t = (if ttl > 0 \<and> \<not> t < now + ttl then None else Some v)"

lemma forgets_refl [simp]: "forgets m m"
  by (simp add: forgets_def)

lemma forgets_trans: "forgets m m' \<Longrightarrow> forgets m' m'' \<Longrightarrow> forgets m m''"
  by (auto simp: forgets_def)

lemma forgets_upd: "forgets m m' \<Longrightarrow> forgets (m(k := f)) (m'(k := f))"
  by (auto simp: forgets_def)

lemma forgets_None: "forgets m (m(k := \<lambda>_. None))"
  by (auto simp: forgets_def)

locale cache_store =
  fixes ops :: "'s cache_ops" and view :: "'s \<Rightarrow> cache_view" and inv :: "'s \<Rightarrow> bool"
  assumes get_inv: "inv s \<Longrightarrow> co_get ops c now k s = (r, s') \<Longrightarrow> inv s' \<and> forgets (view s) (view s')"
    and get_sound: "inv s \<Longrightarrow> co_get ops c now k s = (Inr (Some v), s') \<Longrightarrow> view s k now = Some v"
    and set_ok: "inv s \<Longrightarrow> 0 \<le> now \<Longrightarrow> co_set ops c now k v ttl s = (None, s') \<Longrightarrow>
      inv s' \<and> forgets ((view s)(k := stored now v ttl)) (view s')"
    and set_error: "inv s \<Longrightarrow> co_set ops c now k v ttl s = (Some e, s') \<Longrightarrow> inv s' \<and> forgets (view s) (view s')"
    and delete_ok: "inv s \<Longrightarrow> co_delete ops c now k s = (None, s') \<Longrightarrow>
      inv s' \<and> forgets ((view s)(k := \<lambda>_. None)) (view s')"
    and delete_error: "inv s \<Longrightarrow> co_delete ops c now k s = (Some e, s') \<Longrightarrow> inv s' \<and> forgets (view s) (view s')"

section \<open>The memory store\<close>

record memory_entry =
  me_value :: gostring
  me_expires :: gotime

record cache_memory =
  cm_items :: "(gostring, memory_entry) gomap"
  cm_order :: "gostring list"
  cm_capacity :: int

definition new_memory :: "int \<Rightarrow> cache_memory" where
  "new_memory capacity = \<lparr>cm_items = [], cm_order = [], cm_capacity = (if capacity \<le> 0 then 128 else capacity)\<rparr>"

text \<open>The guard every method starts with.\<close>
definition ctx_error :: "go_context \<Rightarrow> cache_error option" where
  "ctx_error c = (case c of NilCtx \<Rightarrow> Some (CacheMsg ''cache context is required'')
     | Ctx None \<Rightarrow> None | Ctx (Some e) \<Rightarrow> Some (CtxErr e))"

definition cm_get :: "go_context \<Rightarrow> gotime \<Rightarrow> gostring \<Rightarrow> cache_memory \<Rightarrow> (cache_error + gostring option) \<times> cache_memory" where
  "cm_get c now k m =
     (case ctx_error c of Some e \<Rightarrow> (Inl e, m)
      | None \<Rightarrow>
        (case map_of (cm_items m) k of
           None \<Rightarrow> (Inr None, m)
         | Some en \<Rightarrow>
             if me_expires en \<noteq> zero_time \<and> \<not> now < me_expires en
             then (Inr None, m\<lparr>cm_items := AList.delete k (cm_items m)\<rparr>)
             else (Inr (Some (me_value en)), m)))"

text \<open>\<open>evictLocked\<close>: drop from the front of the order until the capacity is met.\<close>
fun cm_evict :: "int \<Rightarrow> (gostring, memory_entry) gomap \<Rightarrow> gostring list
    \<Rightarrow> (gostring, memory_entry) gomap \<times> gostring list" where
  "cm_evict cap items [] = (items, [])"
| "cm_evict cap items (victim # order) =
     (if int (length items) > cap then cm_evict cap (AList.delete victim items) order
      else (items, victim # order))"

definition cm_set :: "go_context \<Rightarrow> gotime \<Rightarrow> gostring \<Rightarrow> gostring \<Rightarrow> duration \<Rightarrow> cache_memory
    \<Rightarrow> cache_error option \<times> cache_memory" where
  "cm_set c now k v ttl m =
     (case ctx_error c of Some e \<Rightarrow> (Some e, m)
      | None \<Rightarrow>
        let order = (if map_of (cm_items m) k = None then cm_order m @ [k] else cm_order m);
            expires = (if ttl > 0 then now + ttl else zero_time);
            (items', order') = cm_evict (cm_capacity m)
              (AList.update k \<lparr>me_value = v, me_expires = expires\<rparr> (cm_items m)) order
        in (None, m\<lparr>cm_items := items', cm_order := order'\<rparr>))"

definition cm_delete :: "go_context \<Rightarrow> gotime \<Rightarrow> gostring \<Rightarrow> cache_memory \<Rightarrow> cache_error option \<times> cache_memory" where
  "cm_delete c now k m =
     (case ctx_error c of Some e \<Rightarrow> (Some e, m)
      | None \<Rightarrow> (None, m\<lparr>cm_items := AList.delete k (cm_items m)\<rparr>))"

definition cm_ops :: "cache_memory cache_ops" where
  "cm_ops = \<lparr>co_get = cm_get, co_set = cm_set, co_delete = cm_delete\<rparr>"

definition entry_view :: "(gostring \<Rightarrow> memory_entry option) \<Rightarrow> cache_view" where
  "entry_view f k t =
     (case f k of None \<Rightarrow> None
      | Some en \<Rightarrow> if me_expires en \<noteq> zero_time \<and> \<not> t < me_expires en then None else Some (me_value en))"

definition cm_view :: "cache_memory \<Rightarrow> cache_view" where
  "cm_view m = entry_view (map_of (cm_items m))"

definition cm_inv :: "cache_memory \<Rightarrow> bool" where
  "cm_inv m \<longleftrightarrow> 0 < cm_capacity m \<and> distinct (keys (cm_items m)) \<and>
     set (keys (cm_items m)) \<subseteq> set (cm_order m) \<and> int (length (cm_items m)) \<le> cm_capacity m"

lemma new_memory_inv: "cm_inv (new_memory n)"
  by (simp add: cm_inv_def new_memory_def keys_def)

lemma cm_evict_spec:
  assumes "distinct (keys items)" and "set (keys items) \<subseteq> set order" and "0 \<le> cap"
    and "cm_evict cap items order = (items', order')"
  shows "distinct (keys items') \<and> set (keys items') \<subseteq> set order' \<and> int (length items') \<le> cap \<and>
    map_of items' \<subseteq>\<^sub>m map_of items"
  using assms
proof (induction cap items order rule: cm_evict.induct)
  case (1 cap items)
  then show ?case by (auto simp: keys_def)
next
  case (2 cap items victim order)
  show ?case
  proof (cases "int (length items) > cap")
    case True
    have d: "set (keys (AList.delete victim items)) \<subseteq> set order" "distinct (keys (AList.delete victim items))"
      using 2(2,3) by auto
    have "map_of (AList.delete victim items) \<subseteq>\<^sub>m map_of items" by (simp add: map_le_def)
    moreover have "cm_evict cap (AList.delete victim items) order = (items', order')" using 2(5) True by simp
    ultimately show ?thesis using 2(1) [OF True d(2,1) 2(4)] by (auto simp del: map_of_delete intro: map_le_trans)
  next
    case False
    then show ?thesis using 2 by auto
  qed
qed

lemma cm_delete_spec:
  "cm_inv m \<Longrightarrow> cm_inv (m\<lparr>cm_items := AList.delete k (cm_items m)\<rparr>)"
  using length_delete_le [of k "cm_items m"] by (auto simp: cm_inv_def)

lemma entry_view_delete [simp]: "entry_view (f(k := None)) = (entry_view f)(k := \<lambda>_. None)"
  by (auto simp: entry_view_def fun_eq_iff)

lemma entry_view_update:
  "0 \<le> now \<Longrightarrow> entry_view (f(k \<mapsto> \<lparr>me_value = v, me_expires = (if ttl > 0 then now + ttl else zero_time)\<rparr>)) =
    (entry_view f)(k := stored now v ttl)"
  by (auto simp: entry_view_def stored_def fun_eq_iff)

lemma entry_view_le: "g \<subseteq>\<^sub>m f \<Longrightarrow> forgets (entry_view f) (entry_view g)"
  unfolding forgets_def
proof (intro allI impI)
  fix k t v assume *: "g \<subseteq>\<^sub>m f" "entry_view g k t = Some v"
  then obtain en where "g k = Some en" by (auto simp: entry_view_def split: option.splits)
  then have "f k = g k" using * by (metis domI map_le_def)
  then show "entry_view f k t = Some v" using * by (simp add: entry_view_def)
qed

lemma cm_view_delete [simp]:
  "cm_view (m\<lparr>cm_items := AList.delete k (cm_items m)\<rparr>) = (cm_view m)(k := \<lambda>_. None)"
  by (simp add: cm_view_def)

lemma cm_set_spec:
  assumes "cm_inv m" and "0 \<le> now" and "cm_set c now k v ttl m = (None, m')"
  shows "cm_inv m' \<and> forgets ((cm_view m)(k := stored now v ttl)) (cm_view m')"
proof -
  let ?en = "\<lparr>me_value = v, me_expires = (if ttl > 0 then now + ttl else zero_time)\<rparr>"
  let ?items = "AList.update k ?en (cm_items m)"
  let ?order = "if map_of (cm_items m) k = None then cm_order m @ [k] else cm_order m"
  obtain items order where e: "cm_evict (cm_capacity m) ?items ?order = (items, order)" by fastforce
  have m': "m' = m\<lparr>cm_items := items, cm_order := order\<rparr>"
    using assms(3) e by (simp add: cm_set_def Let_def split: option.splits)
  have "set (keys ?items) \<subseteq> set ?order"
    using assms(1) by (auto simp: cm_inv_def map_of_eq_None_iff_keys)
  then have s: "distinct (keys items)" "set (keys items) \<subseteq> set order" "int (length items) \<le> cm_capacity m"
    "map_of items \<subseteq>\<^sub>m map_of ?items"
    using cm_evict_spec [OF _ _ _ e] assms(1) by (simp_all add: cm_inv_def)
  have "forgets ((cm_view m)(k := stored now v ttl)) (cm_view m')"
    using entry_view_le [OF s(4)] unfolding m' cm_view_def map_of_update entry_view_update [OF assms(2)] by simp
  then show ?thesis using s assms(1) by (simp add: m' cm_inv_def)
qed

interpretation memory_cache: cache_store cm_ops cm_view cm_inv
proof (unfold_locales, goal_cases)
  case (1 s c now k r s')
  then show ?case
    by (auto simp: cm_ops_def cm_get_def cm_delete_spec forgets_None split: option.splits if_splits)
next
  case (2 s c now k v s')
  then show ?case
    by (auto simp: cm_ops_def cm_get_def cm_view_def entry_view_def split: option.splits if_splits)
next
  case (3 s now c k v ttl s')
  then show ?case using cm_set_spec by (simp add: cm_ops_def)
next
  case (4 s c now k v ttl e s')
  then show ?case
    by (auto simp: cm_ops_def cm_set_def Let_def case_prod_unfold split: option.splits)
next
  case (5 s c now k s')
  then show ?case by (auto simp: cm_ops_def cm_delete_def cm_delete_spec split: option.splits)
next
  case (6 s c now k e s')
  then show ?case by (auto simp: cm_ops_def cm_delete_def split: option.splits)
qed

section \<open>Eviction\<close>

lemma cm_evict_keeps:
  assumes "set (keys items) \<subseteq> set order" and "distinct (keys items)" and "0 < cap"
    and "int (length items) \<le> cap + 1" and "k \<notin> set order"
    and "map_of items k = None" and "cm_evict cap (AList.update k en items) (order @ [k]) = (items', order')"
    and "int (length items) \<le> cap"
  shows "map_of items' k = Some en"
  using assms
proof (induction order arbitrary: items)
  case Nil
  then show ?case by (auto simp: keys_def)
next
  case (Cons victim order)
  show ?case
  proof (cases "int (length (AList.update k en items)) > cap")
    case False
    then show ?thesis using Cons.prems by auto
  next
    case True
    have ne: "victim \<noteq> k" using Cons.prems(5) by auto
    have len: "length (AList.delete victim items) \<le> length items" by (rule length_delete_le)
    have eq: "AList.delete victim (AList.update k en items) = AList.update k en (AList.delete victim items)"
      using ne by (induction items) auto
    show ?thesis
      using Cons.prems True ne len eq by (intro Cons.IH [of "AList.delete victim items"]) auto
  qed
qed

text \<open>The entry just set survives its own eviction unless an old entry of the order names its key.\<close>

lemma cm_set_keeps:
  assumes "cm_inv m" and "k \<in> set (keys (cm_items m)) \<or> k \<notin> set (cm_order m)"
    and "cm_set c now k v ttl m = (None, m')"
  shows "map_of (cm_items m') k = Some \<lparr>me_value = v, me_expires = (if ttl > 0 then now + ttl else zero_time)\<rparr>"
proof (cases "k \<in> set (keys (cm_items m))")
  case True
  then have "map_of (cm_items m) k \<noteq> None" by (simp add: map_of_eq_None_iff_keys)
  then obtain en where "map_of (cm_items m) k = Some en" by blast
  then show ?thesis using assms(1,3) True
    by (cases "cm_order m") (auto simp: cm_set_def cm_inv_def Let_def length_update split: option.splits)
next
  case False
  then have new: "map_of (cm_items m) k = None" "k \<notin> set (cm_order m)"
    using assms(2) by (simp_all add: map_of_eq_None_iff_keys)
  let ?en = "\<lparr>me_value = v, me_expires = (if ttl > 0 then now + ttl else zero_time)\<rparr>"
  obtain items order where e: "cm_evict (cm_capacity m) (AList.update k ?en (cm_items m)) (cm_order m @ [k]) = (items, order)"
    by fastforce
  then have "cm_items m' = items"
    using assms(3) new by (auto simp: cm_set_def Let_def split: option.splits)
  moreover have "map_of items k = Some ?en"
    using assms(1) new by (intro cm_evict_keeps [OF _ _ _ _ _ _ e]) (simp_all add: cm_inv_def)
  ultimately show ?thesis by simp
qed

section \<open>The Redis store\<close>

definition redis_key :: "gostring \<Rightarrow> gostring \<Rightarrow> gostring" where
  "redis_key namespace k = ''wm:'' @ trim_space namespace @ '':'' @ k"

definition new_redis :: "gostring \<Rightarrow> gostring option" where
  "new_redis namespace =
     (let namespace = trim_space namespace in
      if namespace = [] \<or> contains_any namespace [CHR 0x00, CHR 0x0D, CHR 0x0A] then None else Some namespace)"

text \<open>
  The client (a third-party package) is an argument: its commands \<open>GET\<close>, \<open>SET\<close> and \<open>DEL\<close> on raw keys,
  where a missing key (\<open>redis.Nil\<close>) is the answer None.
\<close>
definition redis_ops :: "gostring \<Rightarrow> 's cache_ops \<Rightarrow> 's cache_ops" where
  "redis_ops namespace client =
     \<lparr>co_get = (\<lambda>c now k. co_get client c now (redis_key namespace k)),
      co_set = (\<lambda>c now k. co_set client c now (redis_key namespace k)),
      co_delete = (\<lambda>c now k. co_delete client c now (redis_key namespace k))\<rparr>"

lemma redis_key_inj: "redis_key ns k = redis_key ns k' \<longleftrightarrow> k = k'"
  by (simp add: redis_key_def)

text \<open>A namespace of a server that keeps the contract keeps it too.\<close>

lemma redis_store:
  assumes "cache_store client view ok"
  shows "cache_store (redis_ops ns client) (\<lambda>s k. view s (redis_key ns k)) ok"
proof -
  note laws = cache_store.get_inv [OF assms] cache_store.get_sound [OF assms] cache_store.set_ok [OF assms]
    cache_store.set_error [OF assms] cache_store.delete_ok [OF assms] cache_store.delete_error [OF assms]
  have upd: "(\<lambda>q. (m(redis_key ns k := f)) (redis_key ns q)) = (\<lambda>q. m (redis_key ns q))(k := f)" for m :: cache_view and k f
    by (auto simp: fun_eq_iff redis_key_inj)
  have sub: "forgets m m' \<Longrightarrow> forgets (\<lambda>q. m (redis_key ns q)) (\<lambda>q. m' (redis_key ns q))" for m m' :: cache_view
    by (auto simp: forgets_def)
  show ?thesis
  proof (unfold_locales, goal_cases)
    case (1 s c now k r s') then show ?case using laws(1) by (fastforce simp: redis_ops_def intro: sub)
  next
    case (2 s c now k v s') then show ?case using laws(2) by (fastforce simp: redis_ops_def)
  next
    case (3 s now c k v ttl s')
    then show ?case using laws(3) [of s now c "redis_key ns k" v ttl s'] sub [of "(view s)(redis_key ns k := stored now v ttl)" "view s'", unfolded upd]
      by (simp add: redis_ops_def)
  next
    case (4 s c now k v ttl e s') then show ?case using laws(4) by (fastforce simp: redis_ops_def intro: sub)
  next
    case (5 s c now k s')
    then show ?case using laws(5) [of s c now "redis_key ns k" s'] sub [of "(view s)(redis_key ns k := \<lambda>_. None)" "view s'", unfolded upd]
      by (simp add: redis_ops_def)
  next
    case (6 s c now k e s') then show ?case using laws(6) by (fastforce simp: redis_ops_def intro: sub)
  qed
qed

end
