(* ===== verification/CacheTiered.thy ===== *)
theory CacheTiered imports
  Cache
begin

text \<open>
  \<open>cache.Tiered\<close> over any two stores, either of which may be absent, the classes of failures that
  may be cached, and the properties of the cache package: what a store answers over a sequence of
  calls, the capacity, the keys and the two tiers.
\<close>

section \<open>Sequences of calls on one store\<close>

datatype cache_call =
    CGet go_context gotime gostring
  | CSet go_context gotime gostring gostring duration
  | CDelete go_context gotime gostring

definition call_time :: "cache_call \<Rightarrow> gotime" where
  "call_time p = (case p of CGet c now k \<Rightarrow> now | CSet c now k v ttl \<Rightarrow> now | CDelete c now k \<Rightarrow> now)"

text \<open>
  The calls one after another on a store and on the ideal map; the first component says that
  every answer with a value was the ideal one.
\<close>
fun cache_run :: "'s cache_ops \<Rightarrow> cache_call list \<Rightarrow> cache_view \<Rightarrow> 's \<Rightarrow> bool \<times> cache_view \<times> 's" where
  "cache_run ops [] ideal s = (True, ideal, s)"
| "cache_run ops (CGet c now k # ps) ideal s =
     (case co_get ops c now k s of
        (Inr (Some v), s') \<Rightarrow> apfst (\<lambda>b. ideal k now = Some v \<and> b) (cache_run ops ps ideal s')
      | (_, s') \<Rightarrow> cache_run ops ps ideal s')"
| "cache_run ops (CSet c now k v ttl # ps) ideal s =
     (case co_set ops c now k v ttl s of
        (None, s') \<Rightarrow> cache_run ops ps (ideal(k := stored now v ttl)) s'
      | (Some e, s') \<Rightarrow> cache_run ops ps ideal s')"
| "cache_run ops (CDelete c now k # ps) ideal s =
     (case co_delete ops c now k s of
        (None, s') \<Rightarrow> cache_run ops ps (ideal(k := \<lambda>_. None)) s'
      | (Some e, s') \<Rightarrow> cache_run ops ps ideal s')"

context cache_store
begin

lemma run_sound:
  assumes "inv s" and "forgets ideal (view s)" and "list_all (\<lambda>p. 0 \<le> call_time p) ps"
    and "cache_run ops ps ideal s = (b, ideal', s')"
  shows "b \<and> inv s' \<and> forgets ideal' (view s')"
  using assms
proof (induction ps arbitrary: s ideal b)
  case (Cons p ps)
  show ?case
  proof (cases p)
    case (CGet c now k)
    obtain r s1 where r: "co_get ops c now k s = (r, s1)" by fastforce
    have s1: "inv s1" "forgets ideal (view s1)"
      using get_inv [OF Cons.prems(1) r] forgets_trans [OF Cons.prems(2)] by auto
    obtain b1 where rest: "cache_run ops ps ideal s1 = (b1, ideal', s')"
      and b: "b = (case r of Inr (Some v) \<Rightarrow> ideal k now = Some v \<and> b1 | _ \<Rightarrow> b1)"
      using Cons.prems(4) CGet r
      by (cases "cache_run ops ps ideal s1") (auto split: sum.splits option.splits)
    have "ideal k now = Some v" if "r = Inr (Some v)" for v
      using get_sound [OF Cons.prems(1)] r that Cons.prems(2) by (auto simp: forgets_def)
    then show ?thesis using Cons.IH [OF s1 _ rest] Cons.prems(3) b by (auto split: sum.splits option.splits)
  next
    case (CSet c now k v ttl)
    obtain r s1 where r: "co_set ops c now k v ttl s = (r, s1)" by fastforce
    have now: "0 \<le> now" using Cons.prems(3) CSet by (simp add: call_time_def)
    show ?thesis
    proof (cases r)
      case None
      note ok = set_ok [OF Cons.prems(1) now r [unfolded None]]
      have "forgets (ideal(k := stored now v ttl)) (view s1)"
        using forgets_trans [OF forgets_upd [OF Cons.prems(2)]] ok by blast
      moreover have "cache_run ops ps (ideal(k := stored now v ttl)) s1 = (b, ideal', s')"
        using Cons.prems(4) r None CSet by simp
      ultimately show ?thesis using Cons.IH [OF conjunct1 [OF ok]] Cons.prems(3) by auto
    next
      case (Some e)
      note er = set_error [OF Cons.prems(1) r [unfolded Some]]
      then have "forgets ideal (view s1)" using forgets_trans [OF Cons.prems(2)] by blast
      moreover have "cache_run ops ps ideal s1 = (b, ideal', s')"
        using Cons.prems(4) r Some CSet by simp
      ultimately show ?thesis using Cons.IH [OF conjunct1 [OF er]] Cons.prems(3) by auto
    qed
  next
    case (CDelete c now k)
    obtain r s1 where r: "co_delete ops c now k s = (r, s1)" by fastforce
    show ?thesis
    proof (cases r)
      case None
      note ok = delete_ok [OF Cons.prems(1) r [unfolded None]]
      have "forgets (ideal(k := \<lambda>_. None)) (view s1)"
        using forgets_trans [OF forgets_upd [OF Cons.prems(2)]] ok by blast
      moreover have "cache_run ops ps (ideal(k := \<lambda>_. None)) s1 = (b, ideal', s')"
        using Cons.prems(4) r None CDelete by simp
      ultimately show ?thesis using Cons.IH [OF conjunct1 [OF ok]] Cons.prems(3) by auto
    next
      case (Some e)
      note er = delete_error [OF Cons.prems(1) r [unfolded Some]]
      then have "forgets ideal (view s1)" using forgets_trans [OF Cons.prems(2)] by blast
      moreover have "cache_run ops ps ideal s1 = (b, ideal', s')"
        using Cons.prems(4) r Some CDelete by simp
      ultimately show ?thesis using Cons.IH [OF conjunct1 [OF er]] Cons.prems(3) by auto
    qed
  qed
qed simp

end

section \<open>Two tiers\<close>

text \<open>The store of the pair; \<open>P\<close> and \<open>F\<close> are None for a nil tier.\<close>

definition tier_lookup :: "'s cache_ops option \<Rightarrow> go_context \<Rightarrow> gotime \<Rightarrow> gostring \<Rightarrow> 's \<Rightarrow> gostring option \<times> 's" where
  "tier_lookup T c now k s =
     (case T of None \<Rightarrow> (None, s)
      | Some ops \<Rightarrow> (case co_get ops c now k s of (Inr (Some v), s') \<Rightarrow> (Some v, s') | (_, s') \<Rightarrow> (None, s')))"

definition tiered_get :: "'p cache_ops option \<Rightarrow> 'f cache_ops option \<Rightarrow> go_context \<Rightarrow> gotime \<Rightarrow> gostring \<Rightarrow> 'p \<times> 'f
    \<Rightarrow> (cache_error + gostring option) \<times> ('p \<times> 'f)" where
  "tiered_get P F c now k s =
     (case tier_lookup P c now k (fst s) of
        (Some v, p) \<Rightarrow> (Inr (Some v), (p, snd s))
      | (None, p) \<Rightarrow>
          (case F of None \<Rightarrow> (Inr None, (p, snd s))
           | Some ops \<Rightarrow> (case co_get ops c now k (snd s) of (r, f) \<Rightarrow> (r, (p, f)))))"

definition tier_set :: "'s cache_ops option \<Rightarrow> go_context \<Rightarrow> gotime \<Rightarrow> gostring \<Rightarrow> gostring \<Rightarrow> duration \<Rightarrow> 's
    \<Rightarrow> cache_error option \<times> 's" where
  "tier_set T c now k v ttl s = (case T of None \<Rightarrow> (None, s) | Some ops \<Rightarrow> co_set ops c now k v ttl s)"

definition tier_delete :: "'s cache_ops option \<Rightarrow> go_context \<Rightarrow> gotime \<Rightarrow> gostring \<Rightarrow> 's
    \<Rightarrow> cache_error option \<times> 's" where
  "tier_delete T c now k s = (case T of None \<Rightarrow> (None, s) | Some ops \<Rightarrow> co_delete ops c now k s)"

definition tiered_set :: "'p cache_ops option \<Rightarrow> 'f cache_ops option \<Rightarrow> go_context \<Rightarrow> gotime \<Rightarrow> gostring \<Rightarrow> gostring
    \<Rightarrow> duration \<Rightarrow> 'p \<times> 'f \<Rightarrow> cache_error option \<times> ('p \<times> 'f)" where
  "tiered_set P F c now k v ttl s =
     (let (e1, p) = tier_set P c now k v ttl (fst s);
          (e2, f) = tier_set F c now k v ttl (snd s);
          result = (if e1 = None then e2 else e1)
      in (if F \<noteq> None then None else result, (p, f)))"

definition tiered_delete :: "'p cache_ops option \<Rightarrow> 'f cache_ops option \<Rightarrow> go_context \<Rightarrow> gotime \<Rightarrow> gostring
    \<Rightarrow> 'p \<times> 'f \<Rightarrow> cache_error option \<times> ('p \<times> 'f)" where
  "tiered_delete P F c now k s =
     (let (e1, p) = tier_delete P c now k (fst s);
          (e2, f) = tier_delete F c now k (snd s)
      in (if e1 = None then e2 else e1, (p, f)))"

text \<open>
  \<open>Do\<close>.  \<open>shared\<close> is the outcome of a call for the same key that is in flight and that the group
  (\<open>singleflight\<close>, a third-party package) lets this call join; \<open>load\<close> is the loader's outcome.
\<close>
definition do_lookup :: "'p cache_ops option \<Rightarrow> 'f cache_ops option \<Rightarrow> go_context \<Rightarrow> gotime \<Rightarrow> gostring \<Rightarrow> bool
    \<Rightarrow> 'p \<times> 'f \<Rightarrow> gostring option \<times> ('p \<times> 'f)" where
  "do_lookup P F c now k force s =
     (if force then (None, s)
      else (case tiered_get P F c now k s of (Inr (Some v), s') \<Rightarrow> (Some v, s') | (_, s') \<Rightarrow> (None, s')))"

definition do_load :: "'p cache_ops option \<Rightarrow> 'f cache_ops option \<Rightarrow> go_context \<Rightarrow> gotime \<Rightarrow> gostring \<Rightarrow> duration
    \<Rightarrow> bool \<Rightarrow> cache_error + gostring \<Rightarrow> 'p \<times> 'f \<Rightarrow> (cache_error + gostring) \<times> ('p \<times> 'f)" where
  "do_load P F c now k ttl force load s =
     (case do_lookup P F c now k force s of
        (Some v, s1) \<Rightarrow> (Inr v, s1)
      | (None, s1) \<Rightarrow>
          (case load of Inl e \<Rightarrow> (Inl e, s1)
           | Inr v \<Rightarrow> (case tiered_set P F c now k v ttl s1 of
                (Some e, s2) \<Rightarrow> (Inl e, s2) | (None, s2) \<Rightarrow> (Inr v, s2))))"

definition tiered_do :: "'p cache_ops option \<Rightarrow> 'f cache_ops option \<Rightarrow> go_context \<Rightarrow> gotime \<Rightarrow> gostring \<Rightarrow> duration
    \<Rightarrow> bool \<Rightarrow> (cache_error + gostring) option \<Rightarrow> cache_error + gostring \<Rightarrow> 'p \<times> 'f
    \<Rightarrow> (cache_error + gostring) \<times> ('p \<times> 'f)" where
  "tiered_do P F c now k ttl force shared load s =
     (case do_lookup P F c now k force s of
        (Some v, s1) \<Rightarrow> (Inr v, s1)
      | (None, s1) \<Rightarrow>
          (case shared of Some r \<Rightarrow> (r, s1) | None \<Rightarrow> do_load P F c now k ttl force load s1))"

section \<open>Failures\<close>

datatype cache_error_class = StableFailure | ContextCanceled | InternalFailure | CredentialRequired
  | SchemaChanged | SecurityRejected | SessionExpired | OtherClass gostring

definition cache_negative_cacheable :: "cache_error_class \<Rightarrow> bool" where
  "cache_negative_cacheable c \<longleftrightarrow> c = StableFailure"

definition negative_ttl :: "cache_error_class \<Rightarrow> duration" where
  "negative_ttl c = (if cache_negative_cacheable c then 180 * second else 0)"

lemma cm_step_capacity:
  "cm_capacity (snd (cm_get c now k m)) = cm_capacity m"
  "cm_capacity (snd (cm_set c now k v ttl m)) = cm_capacity m"
  "cm_capacity (snd (cm_delete c now k m)) = cm_capacity m"
  by (simp_all add: cm_get_def cm_set_def cm_delete_def Let_def case_prod_unfold split: option.split)

lemma cm_run_capacity: "cm_capacity (snd (snd (cache_run cm_ops ps i m))) = cm_capacity m"
proof (induction ps arbitrary: i m)
  case (Cons p ps)
  show ?case
  proof (cases p)
    case (CGet c now k)
    then show ?thesis using cm_step_capacity(1) [of c now k m]
      by (auto simp: cm_ops_def Cons.IH [unfolded cm_ops_def] split: prod.split sum.split option.split)
  next
    case (CSet c now k v ttl)
    then show ?thesis using cm_step_capacity(2) [of c now k v ttl m]
      by (auto simp: cm_ops_def Cons.IH [unfolded cm_ops_def] split: prod.split option.split)
  next
    case (CDelete c now k)
    then show ?thesis using cm_step_capacity(3) [of c now k m]
      by (auto simp: cm_ops_def Cons.IH [unfolded cm_ops_def] split: prod.split option.split)
  qed
qed simp

lemma set_to_lower_nul: "CHR 0x00 \<in> set (to_lower s) \<Longrightarrow> CHR 0x00 \<in> set s"
proof -
  assume "CHR 0x00 \<in> set (to_lower s)"
  then obtain c where c: "c \<in> set s" "lower_char c = CHR 0x00" by (auto simp: to_lower_def)
  have "c = CHR 0x00"
  proof (rule ccontr)
    assume "c \<noteq> CHR 0x00"
    then have n: "of_char c \<le> (90::nat)" "char_of (of_char c + 32 :: nat) = CHR 0x00"
      using c(2) by (auto simp: lower_char_def Let_def split: if_splits)
    then have "of_char (char_of (of_char c + 32 :: nat)) = (0::nat)" by simp
    then show False using n(1) by simp
  qed
  then show ?thesis using c(1) by simp
qed

section \<open>Properties\<close>

text \<open>
  C9.  The memory store never answers with a wrong value: over any sequence of reads, writes and
  deletions under any contexts and at any times, every value it answers is the one last written
  under that key, not deleted since and not run out; and it never holds more entries than its
  capacity.
\<close>
theorem memory_cache_sound:
  assumes "list_all (\<lambda>p. 0 \<le> call_time p) ps"
    and "cache_run cm_ops ps (\<lambda>_ _. None) (new_memory n) = (answers_ok, ideal, m)"
  shows "answers_ok \<and> int (length (cm_items m)) \<le> (if n \<le> 0 then 128 else n)"
proof -
  have cap: "cm_capacity m = cm_capacity (new_memory n)"
    using cm_run_capacity [of ps "\<lambda>_ _. None" "new_memory n"] assms(2) by simp
  have "forgets (\<lambda>_ _. None) (cm_view (new_memory n))"
    by (simp add: forgets_def cm_view_def entry_view_def new_memory_def)
  from memory_cache.run_sound [OF new_memory_inv this assms] cap
  show ?thesis by (simp add: cm_inv_def new_memory_def split: if_splits)
qed

text \<open>
  A value written to the memory store is there: a read at once, before it runs out, answers
  it, provided no entry of the eviction order names the key without an item (as a deleted or
  expired entry does).
\<close>
theorem memory_set_then_get:
  assumes "cm_inv m" and "k \<in> set (keys (cm_items m)) \<or> k \<notin> set (cm_order m)"
    and "cm_set (Ctx None) now k v ttl m = (None, m')"
    and "0 \<le> now" and "ttl > 0 \<longrightarrow> t < now + ttl"
  shows "fst (cm_get (Ctx None) t k m') = Inr (Some v)"
  using cm_set_keeps [OF assms(1-3)] assms(4,5) by (auto simp: cm_get_def ctx_error_def)

text \<open>
  The condition is needed: when a deleted key is written again its old entry of the order
  may be the victim, and the write that answered success is lost at once.
\<close>
theorem memory_set_lost:
  "let ops = [CSet (Ctx None) 1 ''k'' ''1'' 0, CDelete (Ctx None) 2 ''k'', CSet (Ctx None) 3 ''a'' ''2'' 0];
       m = snd (snd (cache_run cm_ops ops (\<lambda>_ _. None) (new_memory 1)))
   in fst (cm_set (Ctx None) 4 ''k'' ''3'' 0 m) = None \<and>
      fst (cm_get (Ctx None) 5 ''k'' (snd (cm_set (Ctx None) 4 ''k'' ''3'' 0 m))) = Inr None"
  by code_simp

section \<open>The two tiers\<close>

definition tier_ok :: "'s cache_ops option \<Rightarrow> ('s \<Rightarrow> cache_view) \<Rightarrow> ('s \<Rightarrow> bool) \<Rightarrow> cache_view \<Rightarrow> 's \<Rightarrow> bool" where
  "tier_ok T view ok ideal s \<longleftrightarrow>
     (\<forall>ops. T = Some ops \<longrightarrow> cache_store ops view ok \<and> ok s \<and> forgets ideal (view s))"

lemma tier_get_ok:
  assumes "tier_ok (Some ops) view ok ideal s" and "co_get ops c now k s = (r, s')"
  shows "tier_ok (Some ops) view ok ideal s' \<and> (\<forall>v. r = Inr (Some v) \<longrightarrow> ideal k now = Some v)"
proof -
  have st: "cache_store ops view ok" "ok s" "forgets ideal (view s)" using assms(1) by (auto simp: tier_ok_def)
  have "ok s' \<and> forgets (view s) (view s')" by (rule cache_store.get_inv [OF st(1,2) assms(2)])
  moreover have "ideal k now = Some v" if "r = Inr (Some v)" for v
    using cache_store.get_sound [OF st(1,2)] assms(2) that st(3) by (auto simp: forgets_def)
  ultimately show ?thesis using st by (auto simp: tier_ok_def intro: forgets_trans)
qed

lemma tier_set_ok:
  assumes "tier_ok T view ok ideal s" and "0 \<le> now" and "tier_set T c now k v ttl s = (None, s')"
  shows "tier_ok T view ok (ideal(k := stored now v ttl)) s'"
proof (cases T)
  case (Some ops)
  then have st: "cache_store ops view ok" "ok s" "forgets ideal (view s)" using assms(1) by (auto simp: tier_ok_def)
  have "co_set ops c now k v ttl s = (None, s')" using assms(3) Some by (simp add: tier_set_def)
  note r = cache_store.set_ok [OF st(1,2) assms(2) this]
  then have "forgets (ideal(k := stored now v ttl)) (view s')"
    using forgets_trans [OF forgets_upd [OF st(3)]] by blast
  then show ?thesis using st r Some unfolding tier_ok_def by blast
qed (simp add: tier_ok_def)

lemma tier_set_error:
  assumes "tier_ok T view ok ideal s" and "tier_set T c now k v ttl s = (Some e, s')"
  shows "tier_ok T view ok ideal s'"
proof (cases T)
  case (Some ops)
  then have st: "cache_store ops view ok" "ok s" "forgets ideal (view s)" using assms(1) by (auto simp: tier_ok_def)
  have "co_set ops c now k v ttl s = (Some e, s')" using assms(2) Some by (simp add: tier_set_def)
  note r = cache_store.set_error [OF st(1,2) this]
  then show ?thesis using st Some forgets_trans [OF st(3)] unfolding tier_ok_def by blast
qed (simp add: tier_ok_def)

lemma tier_delete_ok:
  assumes "tier_ok T view ok ideal s" and "tier_delete T c now k s = (None, s')"
  shows "tier_ok T view ok (ideal(k := \<lambda>_. None)) s'"
proof (cases T)
  case (Some ops)
  then have st: "cache_store ops view ok" "ok s" "forgets ideal (view s)" using assms(1) by (auto simp: tier_ok_def)
  have "co_delete ops c now k s = (None, s')" using assms(2) Some by (simp add: tier_delete_def)
  note r = cache_store.delete_ok [OF st(1,2) this]
  then have "forgets (ideal(k := \<lambda>_. None)) (view s')"
    using forgets_trans [OF forgets_upd [OF st(3)]] by blast
  then show ?thesis using st r Some unfolding tier_ok_def by blast
qed (simp add: tier_ok_def)

lemma tier_lookup_ok:
  assumes "tier_ok T view ok ideal s" and "tier_lookup T c now k s = (r, s')"
  shows "tier_ok T view ok ideal s' \<and> (\<forall>v. r = Some v \<longrightarrow> ideal k now = Some v)"
proof (cases T)
  case (Some ops)
  obtain x q where q: "co_get ops c now k s = (x, q)" by fastforce
  from tier_get_ok [OF assms(1) [unfolded Some] q] assms(2) q Some show ?thesis
    by (auto simp: tier_lookup_def split: sum.splits option.splits)
qed (use assms in \<open>simp add: tier_lookup_def\<close>)

lemma tiered_get_ok:
  assumes "tier_ok P pv pok ideal p" and "tier_ok F fv fok ideal f"
    and "tiered_get P F c now k (p, f) = (r, (p', f'))"
  shows "tier_ok P pv pok ideal p' \<and> tier_ok F fv fok ideal f' \<and> (\<forall>v. r = Inr (Some v) \<longrightarrow> ideal k now = Some v)"
proof -
  obtain hit p1 where h: "tier_lookup P c now k p = (hit, p1)" by fastforce
  note p1 = tier_lookup_ok [OF assms(1) h]
  show ?thesis
  proof (cases "hit = None \<and> F \<noteq> None")
    case True
    then obtain ops where ops: "F = Some ops" by auto
    obtain x q where q: "co_get ops c now k f = (x, q)" by fastforce
    have "r = x" "p' = p1" "f' = q" using assms(3) h q True ops by (auto simp: tiered_get_def)
    with tier_get_ok [OF assms(2) [unfolded ops] q] p1 ops show ?thesis by auto
  next
    case False
    then show ?thesis using assms(2,3) h p1 by (cases hit) (auto simp: tiered_get_def split: option.splits)
  qed
qed

text \<open>
  Reading the two tiers answers only the ideal value: as long as both tiers keep the store
  contract and hold nothing but what was last written, so does the pair after the read, and a value
  it answers is the one last written under that key.
\<close>
theorem tiered_get_sound:
  assumes "tier_ok P pv pok ideal p" and "tier_ok F fv fok ideal f"
    and "tiered_get P F c now k (p, f) = (Inr (Some v), (p', f'))"
  shows "ideal k now = Some v \<and> tier_ok P pv pok ideal p' \<and> tier_ok F fv fok ideal f'"
  using tiered_get_ok [OF assms] by simp

text \<open>
  C10.  Writing the two tiers keeps them coherent when both tiers accept the write, and a deletion
  that reports success leaves the key in neither.
\<close>
theorem tiered_write_coherent:
  assumes "tier_ok P pv pok ideal p" and "tier_ok F fv fok ideal f" and "0 \<le> now"
  shows "(\<forall>p' f'. tier_set P c now k v ttl p = (None, p') \<longrightarrow> tier_set F c now k v ttl f = (None, f') \<longrightarrow>
      tiered_set P F c now k v ttl (p, f) = (None, (p', f')) \<and>
      tier_ok P pv pok (ideal(k := stored now v ttl)) p' \<and> tier_ok F fv fok (ideal(k := stored now v ttl)) f') \<and>
    (\<forall>p' f'. tiered_delete P F c now k (p, f) = (None, (p', f')) \<longrightarrow>
      tier_ok P pv pok (ideal(k := \<lambda>_. None)) p' \<and> tier_ok F fv fok (ideal(k := \<lambda>_. None)) f')"
proof (intro conjI allI impI)
  fix p' f' assume s: "tier_set P c now k v ttl p = (None, p')" "tier_set F c now k v ttl f = (None, f')"
  then show "tiered_set P F c now k v ttl (p, f) = (None, (p', f'))" by (simp add: tiered_set_def)
  show "tier_ok P pv pok (ideal(k := stored now v ttl)) p'" by (rule tier_set_ok [OF assms(1,3) s(1)])
  show "tier_ok F fv fok (ideal(k := stored now v ttl)) f'" by (rule tier_set_ok [OF assms(2,3) s(2)])
next
  fix p' f' assume "tiered_delete P F c now k (p, f) = (None, (p', f'))"
  then have d: "tier_delete P c now k p = (None, p')" "tier_delete F c now k f = (None, f')"
    by (auto simp: tiered_delete_def Let_def case_prod_unfold prod_eq_iff split: if_splits)
  show "tier_ok P pv pok (ideal(k := \<lambda>_. None)) p'" by (rule tier_delete_ok [OF assms(1) d(1)])
  show "tier_ok F fv fok (ideal(k := \<lambda>_. None)) f'" by (rule tier_delete_ok [OF assms(2) d(2)])
qed

text \<open>
  With a fallback tier \<open>Set\<close> never reports an error, not even when neither tier has stored
  the value: under a cancelled context two memory tiers refuse the write, the answer is success,
  and the next read serves the old value.
\<close>
theorem tiered_set_swallows:
  "fst (tiered_set P (Some fops) c now k v ttl s) = None \<and>
   (let T = Some cm_ops;
        s1 = snd (tiered_set T T (Ctx None) 1 ''k'' ''old'' 0 (new_memory 2, new_memory 2));
        (e, s2) = tiered_set T T (Ctx (Some ''context canceled'')) 2 ''k'' ''new'' 0 s1
    in e = None \<and> fst (tiered_get T T (Ctx None) 3 ''k'' s2) = Inr (Some ''old''))"
proof
  show "fst (tiered_set P (Some fops) c now k v ttl s) = None" by (simp add: tiered_set_def case_prod_unfold)
qed code_simp

text \<open>
  \<open>Do\<close> with a fallback tier and no call in flight answers the cached value or what the loader
  returned: a success is the ideal value of the key, or the loader's (always the loader's under
  \<open>force\<close>), and a failure is the loader's own.
\<close>
theorem tiered_do_outcome:
  assumes "tier_ok P pv pok ideal p" and "tier_ok (Some fops) fv fok ideal f"
  shows "case fst (tiered_do P (Some fops) c now k ttl force None load (p, f)) of
      Inr v \<Rightarrow> load = Inr v \<or> (\<not> force \<and> ideal k now = Some v)
    | Inl e \<Rightarrow> load = Inl e"
proof -
  have look: "tier_ok P pv pok ideal (fst s') \<and> tier_ok (Some fops) fv fok ideal (snd s') \<and>
      (\<forall>v. r = Some v \<longrightarrow> \<not> force \<and> ideal k now = Some v)"
    if "tier_ok P pv pok ideal (fst s)" "tier_ok (Some fops) fv fok ideal (snd s)"
      "do_lookup P (Some fops) c now k force s = (r, s')" for r s s'
  proof (cases force)
    case False
    obtain x p1 f1 where g: "tiered_get P (Some fops) c now k (fst s, snd s) = (x, (p1, f1))" by (metis prod_cases3)
    from tiered_get_ok [OF that(1,2) g] that(3) g False show ?thesis
      by (auto simp: do_lookup_def split: sum.splits option.splits)
  qed (use that in \<open>simp add: do_lookup_def\<close>)
  obtain r1 s1 where l1: "do_lookup P (Some fops) c now k force (p, f) = (r1, s1)" by (rule prod.exhaust)
  obtain r2 s2 where l2: "do_lookup P (Some fops) c now k force s1 = (r2, s2)" by (rule prod.exhaust)
  have ok1: "tier_ok P pv pok ideal (fst s1)" "tier_ok (Some fops) fv fok ideal (snd s1)"
    and v1: "\<forall>v. r1 = Some v \<longrightarrow> \<not> force \<and> ideal k now = Some v"
    using look [OF _ _ l1] assms by simp_all
  have v2: "\<forall>v. r2 = Some v \<longrightarrow> \<not> force \<and> ideal k now = Some v" using look [OF ok1 l2] by simp
  have none: "fst (tiered_set P (Some fops) c now k v ttl s) = None" for v s
    by (simp add: tiered_set_def case_prod_unfold)
  have set: "(case tiered_set P (Some fops) c now k v ttl s of
      (Some e, s') \<Rightarrow> (Inl e, s') | (None, s') \<Rightarrow> (Inr v, s')) = (Inr v, snd (tiered_set P (Some fops) c now k v ttl s))" for v s
    using none [of v s] by (simp add: case_prod_unfold)
  have load: "do_load P (Some fops) c now k ttl force load s1 =
      (case r2 of Some v \<Rightarrow> (Inr v, s2)
          | None \<Rightarrow> (case load of Inl e \<Rightarrow> (Inl e, s2)
             | Inr v \<Rightarrow> (Inr v, snd (tiered_set P (Some fops) c now k v ttl s2))))"
    by (cases r2; cases load) (simp_all add: do_load_def l2 set)
  have "tiered_do P (Some fops) c now k ttl force None load (p, f) =
      (case r1 of Some v \<Rightarrow> (Inr v, s1) | None \<Rightarrow> do_load P (Some fops) c now k ttl force load s1)"
    by (cases r1) (simp_all add: tiered_do_def l1)
  then show ?thesis unfolding load using v1 v2 by (cases r1; cases r2; cases load) simp_all
qed

text \<open>
  Cache keys identify what they are made from: two valid key descriptions whose digests do not
  collide have the same key exactly when platform (up to case and surrounding white space), resource,
  parser version and schema version agree; the separator byte cannot be smuggled in.
\<close>
theorem new_key_identity:
  assumes "new_key p = Some k" and "new_key q = Some k'" and "inj_on sha256 {key_material p, key_material q}"
  shows "k = k' \<longleftrightarrow> key_identity p = key_identity q"
proof -
  have nul: "\<forall>x \<in> set (key_identity r). CHR 0x00 \<notin> set x" if "new_key r = Some j" for r j
  proof -
    have "CHR 0x00 \<notin> set v" if "v \<in> set (key_fields r)" for v
      using \<open>new_key r = Some j\<close> that
      by (auto simp: new_key_def list_ex_iff bad_key_field_def contains_any_def split: if_splits)
    then show ?thesis
      using set_trim_space [of "kp_platform r"] set_to_lower_nul [of "trim_space (kp_platform r)"]
      by (auto simp: key_identity_def key_fields_def)
  qed
  have "k = k' \<longleftrightarrow> sha256 (key_material p) = sha256 (key_material q)"
  proof -
    have k: "k = ''parse:v1:'' @ hex_encode (sha256 (key_material p))" "k' = ''parse:v1:'' @ hex_encode (sha256 (key_material q))"
      using assms(1,2) by (simp_all add: new_key_def split: if_splits)
    show ?thesis unfolding k same_append_eq by (rule hex_encode_eq_iff)
  qed
  also have "\<dots> \<longleftrightarrow> key_material p = key_material q" by (rule inj_on_eq_iff [OF assms(3)]) simp_all
  also have "\<dots> \<longleftrightarrow> key_identity p = key_identity q"
  proof
    assume "key_material p = key_material q"
    then have "join [CHR 0x00] (key_identity p) = join [CHR 0x00] (key_identity q)"
      by (simp only: key_material_def key_identity_def)
    moreover have "length (key_identity p) = length (key_identity q)" by (simp add: key_identity_def)
    ultimately show "key_identity p = key_identity q" by (intro join_inj [OF _ nul [OF assms(1)] nul [OF assms(2)]])
  qed (simp add: key_material_def key_identity_def)
  finally show ?thesis .
qed

text \<open>
  Keys of different cache entries never meet in Redis: two namespaces (without surrounding white
  space) and two keys of the package give the same Redis key only when they are the same.
\<close>
theorem redis_keys_separate:
  assumes "new_key p = Some k" and "new_key q = Some k'" and "new_redis a = Some ns" and "new_redis b = Some ns'"
  shows "redis_key ns k = redis_key ns' k' \<longleftrightarrow> ns = ns' \<and> k = k'"
proof -
  have len: "length k = length k'"
    using assms(1,2) by (auto simp: new_key_def length_hex_encode split: if_splits)
  have trim: "trim_space ns = ns" "trim_space ns' = ns'"
    using assms(3,4) by (auto simp: new_redis_def Let_def split: if_splits)
  have "(ns @ '':'') @ k = (ns' @ '':'') @ k' \<longleftrightarrow> ns @ '':'' = ns' @ '':'' \<and> k = k'"
    by (rule append_eq_append_conv) (use len in simp)
  then show ?thesis by (simp add: redis_key_def trim)
qed

section \<open>Concrete runs\<close>

theorem memory_cache_sound_witness:
  "let ps = [CSet (Ctx None) 10 ''a'' ''1'' 5, CSet (Ctx None) 11 ''b'' ''2'' 0, CGet (Ctx None) 12 ''a'',
      CSet (Ctx None) 13 ''c'' ''3'' 0, CGet (Ctx None) 14 ''b'', CGet NilCtx 15 ''c'']
   in fst (cache_run cm_ops ps (\<lambda>_ _. None) (new_memory 2)) \<and>
      length (cm_items (snd (snd (cache_run cm_ops ps (\<lambda>_ _. None) (new_memory 2))))) \<le> 2"
proof -
  let ?ps = "[CSet (Ctx None) 10 ''a'' ''1'' 5, CSet (Ctx None) 11 ''b'' ''2'' 0, CGet (Ctx None) 12 ''a'',
      CSet (Ctx None) 13 ''c'' ''3'' 0, CGet (Ctx None) 14 ''b'', CGet NilCtx 15 ''c'']"
  let ?r = "cache_run cm_ops ?ps (\<lambda>_ _. None) (new_memory 2)"
  have ps: "list_all (\<lambda>p. 0 \<le> call_time p) ?ps" by code_simp
  have "?r = (fst ?r, fst (snd ?r), snd (snd ?r))" by simp
  from memory_cache_sound [OF ps this] show ?thesis unfolding Let_def by simp
qed

theorem memory_set_then_get_witness:
  "fst (cm_get (Ctx None) 15 ''k'' (snd (cm_set (Ctx None) 10 ''k'' ''v'' 6 (new_memory 1)))) = Inr (Some ''v'')"
proof -
  have "cm_set (Ctx None) 10 ''k'' ''v'' 6 (new_memory 1) = (None, snd (cm_set (Ctx None) 10 ''k'' ''v'' 6 (new_memory 1)))"
    by (simp add: cm_set_def ctx_error_def Let_def case_prod_unfold)
  from memory_set_then_get [OF new_memory_inv _ this] show ?thesis by (simp add: new_memory_def)
qed

lemma new_memory_tier: "tier_ok (Some cm_ops) cm_view cm_inv (\<lambda>_ _. None) (new_memory n)"
proof -
  have "forgets (\<lambda>_ _. None) (cm_view (new_memory n))"
    by (simp add: forgets_def cm_view_def entry_view_def new_memory_def)
  then show ?thesis by (simp add: tier_ok_def memory_cache.cache_store_axioms new_memory_inv)
qed

text \<open>After a write of both tiers.\<close>
lemma demo_tier:
  "tier_ok (Some cm_ops) cm_view cm_inv ((\<lambda>_ _. None)(''k'' := stored 10 ''v'' 6))
    (snd (cm_set (Ctx None) 10 ''k'' ''v'' 6 (new_memory 1)))"
  by (rule tier_set_ok [OF new_memory_tier [of 1], where c = "Ctx None"])
    (simp_all add: tier_set_def cm_ops_def cm_set_def ctx_error_def Let_def case_prod_unfold)

theorem tiered_get_sound_witness:
  "let m = snd (cm_set (Ctx None) 10 ''k'' ''v'' 6 (new_memory 1))
   in fst (tiered_get (None :: unit cache_ops option) (Some cm_ops) (Ctx None) 12 ''k'' ((), m)) = Inr (Some ''v'') \<and>
      ((\<lambda>_ _. None)(''k'' := stored 10 ''v'' 6)) ''k'' 12 = Some ''v''"
proof -
  let ?m = "snd (cm_set (Ctx None) 10 ''k'' ''v'' 6 (new_memory 1))"
  let ?r = "tiered_get (None :: unit cache_ops option) (Some cm_ops) (Ctx None) 12 ''k'' ((), ?m)"
  have hit: "fst ?r = Inr (Some ''v'')" by code_simp
  then have "?r = (Inr (Some ''v''), (fst (snd ?r), snd (snd ?r)))" by (metis prod.collapse)
  from tiered_get_sound [OF _ demo_tier this, where pv = "\<lambda>_ _ _. None" and pok = "\<lambda>_. True"] hit
  show ?thesis by (simp add: tier_ok_def)
qed

theorem tiered_write_coherent_witness:
  "fst (tiered_set (Some cm_ops) (Some cm_ops) (Ctx None) 10 ''k'' ''v'' 6 (new_memory 1, new_memory 2)) = None"
proof -
  have "tier_set (Some cm_ops) (Ctx None) 10 ''k'' ''v'' 6 (new_memory n)
      = (None, snd (tier_set (Some cm_ops) (Ctx None) 10 ''k'' ''v'' 6 (new_memory n)))" for n
    by (simp add: tier_set_def cm_ops_def cm_set_def ctx_error_def Let_def case_prod_unfold)
  from tiered_write_coherent [OF new_memory_tier [of 1] new_memory_tier [of 2], THEN conjunct1, rule_format, OF _ this this]
  show ?thesis by simp
qed

theorem tiered_do_outcome_witness:
  "fst (tiered_do (Some cm_ops) (Some cm_ops) (Ctx None) 10 ''k'' 6 False None (Inr ''v'') (new_memory 1, new_memory 2)) = Inr ''v''"
proof -
  have *: "\<exists>v. fst (tiered_do (Some cm_ops) (Some cm_ops) (Ctx None) 10 ''k'' 6 False None (Inr ''v'') (new_memory 1, new_memory 2)) = Inr v"
    using tiered_do_outcome [OF new_memory_tier [of 1] new_memory_tier [of 2], where c = "Ctx None" and now = 10 and k = "''k''" and ttl = 6 and force = False and load = "Inr ''v''"]
    by (auto split: sum.splits)
  with tiered_do_outcome [OF new_memory_tier [of 1] new_memory_tier [of 2], where c = "Ctx None" and now = 10 and k = "''k''" and ttl = 6 and force = False and load = "Inr ''v''"]
  show ?thesis by auto
qed

theorem new_key_identity_witness:
  "new_key \<lparr>kp_platform = '' Douyin'', kp_resource = ''r'', kp_parser_version = ''1'', kp_schema_version = ''2''\<rparr> =
   new_key \<lparr>kp_platform = ''douyin'', kp_resource = ''r'', kp_parser_version = ''1'', kp_schema_version = ''2''\<rparr>"
proof -
  let ?p = "\<lparr>kp_platform = '' Douyin'', kp_resource = ''r'', kp_parser_version = ''1'', kp_schema_version = ''2''\<rparr>"
  let ?q = "\<lparr>kp_platform = ''douyin'', kp_resource = ''r'', kp_parser_version = ''1'', kp_schema_version = ''2''\<rparr>"
  have "\<not> list_ex bad_key_field (key_fields ?p)" "\<not> list_ex bad_key_field (key_fields ?q)" by code_simp+
  then have k: "new_key ?p = Some (''parse:v1:'' @ hex_encode (sha256 (key_material ?p)))"
    "new_key ?q = Some (''parse:v1:'' @ hex_encode (sha256 (key_material ?q)))"
    by (simp_all add: new_key_def)
  have m: "key_material ?p = key_material ?q" and i: "key_identity ?p = key_identity ?q" by code_simp+
  have "inj_on sha256 {key_material ?p, key_material ?q}" by (simp add: m)
  from new_key_identity [OF k this] i show ?thesis by (simp add: k)
qed

theorem redis_keys_separate_witness:
  "redis_key ''a'' (the (new_key \<lparr>kp_platform = ''p'', kp_resource = ''r'', kp_parser_version = ''1'', kp_schema_version = ''2''\<rparr>))
   \<noteq> redis_key ''a:b'' (the (new_key \<lparr>kp_platform = ''p'', kp_resource = ''r'', kp_parser_version = ''1'', kp_schema_version = ''2''\<rparr>))"
proof -
  let ?p = "\<lparr>kp_platform = ''p'', kp_resource = ''r'', kp_parser_version = ''1'', kp_schema_version = ''2''\<rparr>"
  have "\<not> list_ex bad_key_field (key_fields ?p)" by code_simp
  then have k: "new_key ?p = Some (the (new_key ?p))" by (simp add: new_key_def)
  have ns: "new_redis ''a'' = Some ''a''" "new_redis ''a:b'' = Some ''a:b''" by code_simp+
  from redis_keys_separate [OF k k ns] show ?thesis by simp
qed

end
