(* ===== verification/Netip.thy ===== *)
theory Netip imports
  Codec
  "HOL-Library.Word"
begin

text \<open>
  IP addresses as the package \<open>net/netip\<close> of Go's standard library has them, as far as
  \<open>internal/netguard\<close> uses them: parsing, printing, unmapping, the classification predicates and
  the membership in a prefix.  A zone makes an IPv6 address a different value: it is
  never inside a prefix.
\<close>

unbundle bit_operations_syntax

section \<open>Digits in a base\<close>

fun digits :: "nat \<Rightarrow> nat \<Rightarrow> nat \<Rightarrow> nat list" where
  "digits b 0 n = []"
| "digits b (Suc k) n = digits b k (n div b) @ [n mod b]"

definition undigits :: "nat \<Rightarrow> nat list \<Rightarrow> nat" where
  "undigits b ds = foldl (\<lambda>a d. a * b + d) 0 ds"

lemma undigits_Nil [simp]: "undigits b [] = 0"
  by (simp add: undigits_def)

lemma undigits_snoc [simp]: "undigits b (ds @ [d]) = undigits b ds * b + d"
  by (simp add: undigits_def)

lemma length_digits [simp]: "length (digits b k n) = k"
  by (induction k arbitrary: n) simp_all

lemma digits_less: "0 < b \<Longrightarrow> d \<in> set (digits b k n) \<Longrightarrow> d < b"
  by (induction k arbitrary: n) auto

lemma undigits_digits: "0 < b \<Longrightarrow> undigits b (digits b k n) = n mod b ^ k"
proof (induction k arbitrary: n)
  case (Suc k)
  then show ?case by (simp add: mod_mult2_eq)
qed simp

lemma digits_undigits: "\<forall>d \<in> set ds. d < b \<Longrightarrow> digits b (length ds) (undigits b ds) = ds"
  by (induction ds rule: rev_induct) auto

lemma undigits_less: "\<forall>d \<in> set ds. d < b \<Longrightarrow> undigits b ds < b ^ length ds"
proof (induction ds rule: rev_induct)
  case (snoc d ds)
  then have "undigits b ds + 1 \<le> b ^ length ds" "d < b" by auto
  then have "(undigits b ds + 1) * b \<le> b ^ length ds * b" by (intro mult_le_mono1)
  then show ?case using \<open>d < b\<close> by (simp add: algebra_simps)
qed simp

section \<open>Addresses\<close>

type_synonym ip4 = "32 word"
type_synonym ip6 = "128 word"

datatype addr = V4 ip4 | V6 ip6 gostring

definition octets :: "ip4 \<Rightarrow> nat list" where
  "octets a = map (\<lambda>i. unat (take_bit 8 (drop_bit i a))) [24, 16, 8, 0]"

definition of_octets :: "nat list \<Rightarrow> ip4" where
  "of_octets ds = foldl (\<lambda>a d. a * 256 + of_nat d) 0 ds"

definition groups :: "ip6 \<Rightarrow> nat list" where
  "groups a = map (\<lambda>i. unat (take_bit 16 (drop_bit i a))) [112, 96, 80, 64, 48, 32, 16, 0]"

definition of_groups :: "nat list \<Rightarrow> ip6" where
  "of_groups gs = foldl (\<lambda>a g. a * 65536 + of_nat g) 0 gs"

lemma unat_digit: "unat (take_bit m (drop_bit n a)) = unat (a :: 'a :: len word) div 2 ^ n mod 2 ^ m"
  unfolding unsigned_take_bit_eq unsigned_drop_bit_eq
  by (simp only: take_bit_eq_mod drop_bit_eq_div) (metis unsigned_less mod_less take_bit_eq_mod unsigned_take_bit_eq take_bit_length_eq)

lemma octets_digits: "octets a = digits 256 4 (unat a)"
proof -
  have "digits 256 (Suc (Suc (Suc (Suc 0)))) n = [n div 2 ^ 24 mod 2 ^ 8, n div 2 ^ 16 mod 2 ^ 8, n div 2 ^ 8 mod 2 ^ 8, n div 2 ^ 0 mod 2 ^ 8]" for n
    by (simp add: div_mult2_eq [symmetric])
  moreover have "(4::nat) = Suc (Suc (Suc (Suc 0)))" by simp
  ultimately show ?thesis unfolding octets_def list.map unat_digit by metis
qed

lemma groups_digits: "groups a = digits 65536 8 (unat a)"
proof -
  have "digits 65536 (Suc (Suc (Suc (Suc (Suc (Suc (Suc (Suc 0)))))))) n =
      [n div 2 ^ 112 mod 2 ^ 16, n div 2 ^ 96 mod 2 ^ 16, n div 2 ^ 80 mod 2 ^ 16, n div 2 ^ 64 mod 2 ^ 16,
       n div 2 ^ 48 mod 2 ^ 16, n div 2 ^ 32 mod 2 ^ 16, n div 2 ^ 16 mod 2 ^ 16, n div 2 ^ 0 mod 2 ^ 16]" for n
    by (simp add: div_mult2_eq [symmetric])
  moreover have "(8::nat) = Suc (Suc (Suc (Suc (Suc (Suc (Suc (Suc 0)))))))" by simp
  ultimately show ?thesis unfolding groups_def list.map unat_digit by metis
qed

lemma of_octets_undigits: "of_octets ds = word_of_nat (undigits 256 ds)"
  by (induction ds rule: rev_induct) (simp_all add: of_octets_def)

lemma of_groups_undigits: "of_groups gs = word_of_nat (undigits 65536 gs)"
  by (induction gs rule: rev_induct) (simp_all add: of_groups_def)

lemma of_octets_octets [simp]: "of_octets (octets a) = a"
  using unsigned_less [of a, where ?'a = nat] by (simp add: octets_digits of_octets_undigits undigits_digits)

lemma of_groups_groups [simp]: "of_groups (groups a) = a"
  using unsigned_less [of a, where ?'a = nat] by (simp add: groups_digits of_groups_undigits undigits_digits)

lemma length_octets [simp]: "length (octets a) = 4"
  by (simp add: octets_def)

lemma length_groups [simp]: "length (groups a) = 8"
  by (simp add: groups_def)

lemma octets_less: "d \<in> set (octets a) \<Longrightarrow> d < 256"
  unfolding octets_digits by (rule digits_less) simp_all

lemma groups_less: "d \<in> set (groups a) \<Longrightarrow> d < 65536"
  unfolding groups_digits by (rule digits_less) simp_all

section \<open>Parsing\<close>

definition octet :: "gostring \<Rightarrow> nat option" where
  "octet s = (if s = [] \<or> \<not> list_all is_digit s \<or> (length s > 1 \<and> hd s = CHR ''0'') \<or> dec_val s > 255
     then None else Some (dec_val s))"

text \<open>\<open>parseIPv4Fields\<close>.\<close>
definition ip4_fields :: "gostring \<Rightarrow> nat list option" where
  "ip4_fields s =
     (let fs = map octet (split_on CHR ''.'' s)
      in if length fs = 4 then those fs else None)"

definition is_hex :: "char \<Rightarrow> bool" where
  "is_hex c \<longleftrightarrow> hex_val c \<noteq> None"

definition hex_num :: "gostring \<Rightarrow> nat" where
  "hex_num s = undigits 16 (map (\<lambda>c. the (hex_val c)) s)"

text \<open>
  The loop of \<open>parseIPv6\<close> with \<open>n\<close> groups to go: the groups so far, where the ellipsis was, and
  what is left of the text.
\<close>
fun ip6_loop :: "nat \<Rightarrow> nat list \<Rightarrow> nat option \<Rightarrow> gostring \<Rightarrow> (nat list \<times> nat option \<times> gostring) option" where
  "ip6_loop 0 acc e s = Some (acc, e, s)"
| "ip6_loop (Suc n) acc e s =
     (let h = takeWhile is_hex s; rest = dropWhile is_hex s; acc' = acc @ [hex_num h] in
      if h = [] \<or> length h > 4 then None
      else (case rest of
        [] \<Rightarrow> Some (acc', e, [])
      | c # r \<Rightarrow>
          if c = CHR ''.'' then
            (if e = None \<and> length acc \<noteq> 6 \<or> n = 0 then None
             else (case ip4_fields s of
                 Some [a, b, c, d] \<Rightarrow> Some (acc @ [a * 256 + b, c * 256 + d], e, [])
               | _ \<Rightarrow> None))
          else if c \<noteq> CHR '':'' then None
          else (case r of
              [] \<Rightarrow> None
            | c2 # r2 \<Rightarrow>
                if c2 = CHR '':'' then
                  (if e \<noteq> None then None
                   else if r2 = [] then Some (acc', Some (length acc'), [])
                   else ip6_loop n acc' (Some (length acc')) r2)
                else ip6_loop n acc' e r)))"

definition ip6_finish :: "nat list \<times> nat option \<times> gostring \<Rightarrow> ip6 option" where
  "ip6_finish r =
     (case r of (gs, e, s) \<Rightarrow>
        if s \<noteq> [] then None
        else if length gs < 8 then
          (case e of None \<Rightarrow> None
           | Some k \<Rightarrow> Some (of_groups (take k gs @ replicate (8 - length gs) 0 @ drop k gs)))
        else if e \<noteq> None then None
        else Some (of_groups gs))"

definition cut_at :: "char \<Rightarrow> gostring \<Rightarrow> gostring \<times> gostring option" where
  "cut_at d s = (takeWhile (\<lambda>c. c \<noteq> d) s,
     case dropWhile (\<lambda>c. c \<noteq> d) s of [] \<Rightarrow> None | _ # r \<Rightarrow> Some r)"

definition parse_ip6 :: "gostring \<Rightarrow> addr option" where
  "parse_ip6 s0 =
     (case cut_at CHR ''%'' s0 of (s, zone) \<Rightarrow>
        if zone = Some [] then None
        else
          let z = (case zone of None \<Rightarrow> [] | Some z \<Rightarrow> z) in
          map_option (\<lambda>a. V6 a z)
            (if has_prefix s ''::'' then
               (if length s = 2 then Some 0
                else Option.bind (ip6_loop 8 [] (Some 0) (drop 2 s)) ip6_finish)
             else Option.bind (ip6_loop 8 [] None s) ip6_finish))"

definition parse_addr :: "gostring \<Rightarrow> addr option" where
  "parse_addr s =
     (case find (\<lambda>c. c \<in> {CHR ''.'', CHR '':'', CHR ''%''}) s of
        None \<Rightarrow> None
      | Some c \<Rightarrow>
          if c = CHR ''.'' then map_option (\<lambda>fs. V4 (of_octets fs)) (ip4_fields s)
          else if c = CHR '':'' then parse_ip6 s
          else None)"

section \<open>Printing\<close>

fun hex_digits :: "nat \<Rightarrow> gostring" where
  "hex_digits n = (if n < 16 then [hex_char n] else hex_digits (n div 16) @ [hex_char (n mod 16)])"

declare hex_digits.simps [simp del]

definition ip4_string :: "ip4 \<Rightarrow> gostring" where
  "ip4_string a = join ''.'' (map dec_digits (octets a))"

text \<open>The longest run of zero groups, of two at least, the first such: start and length.\<close>
fun best_run :: "nat \<Rightarrow> nat list \<Rightarrow> nat \<times> nat \<Rightarrow> nat \<times> nat" where
  "best_run i [] b = b"
| "best_run i (g # gs) b =
     (let r = length (takeWhile ((=) 0) (g # gs))
      in best_run (Suc i) gs (if r \<ge> 2 \<and> r > snd b then (i, r) else b))"

definition ip6_string :: "ip6 \<Rightarrow> gostring" where
  "ip6_string a =
     (let gs = groups a; (s, l) = best_run 0 gs (0, 0) in
      if l = 0 then join '':'' (map hex_digits gs)
      else join '':'' (map hex_digits (take s gs)) @ ''::'' @ join '':'' (map hex_digits (drop (s + l) gs)))"

definition with_zone :: "gostring \<Rightarrow> gostring" where
  "with_zone z = (if z = [] then [] else CHR ''%'' # z)"

definition is_4in6 :: "ip6 \<Rightarrow> bool" where
  "is_4in6 a \<longleftrightarrow> drop_bit 32 a = 0xffff"

definition low_ip4 :: "ip6 \<Rightarrow> ip4" where
  "low_ip4 a = ucast a"

definition unmap :: "addr \<Rightarrow> addr" where
  "unmap a = (case a of V4 x \<Rightarrow> V4 x | V6 x z \<Rightarrow> if is_4in6 x then V4 (low_ip4 x) else V6 x z)"

definition addr_string :: "addr \<Rightarrow> gostring" where
  "addr_string a =
     (case a of
        V4 x \<Rightarrow> ip4_string x
      | V6 x z \<Rightarrow> (if is_4in6 x then ''::ffff:'' @ ip4_string (low_ip4 x) else ip6_string x) @ with_zone z)"

definition is6 :: "addr \<Rightarrow> bool" where
  "is6 a = (case a of V4 x \<Rightarrow> False | V6 x z \<Rightarrow> True)"

section \<open>Classification\<close>

definition is_loopback :: "addr \<Rightarrow> bool" where
  "is_loopback a = (case a of V4 x \<Rightarrow> drop_bit 24 x = 127 | V6 x z \<Rightarrow> x = 1)"

definition is_private :: "addr \<Rightarrow> bool" where
  "is_private a = (case a of
     V4 x \<Rightarrow> drop_bit 24 x = 10 \<or> drop_bit 20 x = 0xac1 \<or> drop_bit 16 x = 0xc0a8
   | V6 x z \<Rightarrow> drop_bit 121 x = 0x7e)"

definition is_link_local_unicast :: "addr \<Rightarrow> bool" where
  "is_link_local_unicast a = (case a of
     V4 x \<Rightarrow> drop_bit 16 x = 0xa9fe | V6 x z \<Rightarrow> drop_bit 118 x = 0x3fa)"

definition is_multicast :: "addr \<Rightarrow> bool" where
  "is_multicast a = (case a of V4 x \<Rightarrow> drop_bit 28 x = 0xe | V6 x z \<Rightarrow> drop_bit 120 x = 0xff)"

definition is_link_local_multicast :: "addr \<Rightarrow> bool" where
  "is_link_local_multicast a = (case a of
     V4 x \<Rightarrow> drop_bit 8 x = 0xe00000 | V6 x z \<Rightarrow> drop_bit 112 x AND 0xff0f = 0xff02)"

text \<open>\<open>ip == IPv4Unspecified() || ip == IPv6Unspecified()\<close>: a zone makes the difference.\<close>
definition is_unspecified :: "addr \<Rightarrow> bool" where
  "is_unspecified a \<longleftrightarrow> a = V4 0 \<or> a = V6 0 []"

datatype prefix = P4 ip4 nat | P6 ip6 nat

fun prefix_contains :: "prefix \<Rightarrow> addr \<Rightarrow> bool" where
  "prefix_contains (P4 p n) (V4 x) = (drop_bit (32 - n) x = drop_bit (32 - n) p)"
| "prefix_contains (P6 p n) (V6 x z) = (z = [] \<and> drop_bit (128 - n) x = drop_bit (128 - n) p)"
| "prefix_contains p a = False"

section \<open>Printing and parsing are inverse\<close>

lemma split_on_join:
  assumes "ws \<noteq> []" and "\<forall>w \<in> set ws. d \<notin> set w"
  shows "split_on d (join [d] ws) = ws"
proof -
  have app: "d \<notin> set w \<Longrightarrow> split_on d (w @ d # s) = w # split_on d s" for w s
    by (induction w) auto
  have one: "d \<notin> set w \<Longrightarrow> split_on d w = [w]" for w
    by (induction w) auto
  show ?thesis using assms
    by (induction "[d]" ws rule: join.induct) (auto simp: app one)
qed

lemma dec_digits_head: "0 < n \<Longrightarrow> 49 \<le> byte_val (hd (dec_digits n))"
proof (induction n rule: dec_digits.induct)
  case (1 n)
  show ?case
  proof (cases "n < 10")
    case True
    then show ?thesis using 1(2) by (subst dec_digits.simps) simp
  next
    case False
    then have "dec_digits n = dec_digits (n div 10) @ [char_of (n mod 10 + 48)]" by (subst dec_digits.simps) simp
    then show ?thesis using 1(1) [OF False] False by simp
  qed
qed

lemma dec_digits_no_zero: "1 < length (dec_digits n) \<Longrightarrow> hd (dec_digits n) \<noteq> CHR ''0''"
proof (cases "n = 0")
  case True
  have "length (dec_digits 0) = 1" by (subst dec_digits.simps) simp
  moreover assume "1 < length (dec_digits n)"
  ultimately show ?thesis using True by simp
next
  case False
  then show ?thesis using dec_digits_head [of n] by auto
qed

lemma octet_dec_digits: "n < 256 \<Longrightarrow> octet (dec_digits n) = Some n"
  using dec_digits_no_zero [of n] dec_digits_digit [of n] by (auto simp: octet_def list_all_iff)

lemma digit_not_dot: "is_digit c \<Longrightarrow> c \<noteq> CHR ''.''"
  by (auto simp: is_digit_def)

lemma ip4_fields_string: "ip4_fields (ip4_string a) = Some (octets a)"
proof -
  have dot: "CHR ''.'' \<notin> set (dec_digits d)" for d
    using dec_digits_digit [of d] digit_not_dot by blast
  have "split_on CHR ''.'' (ip4_string a) = map dec_digits (octets a)"
    unfolding ip4_string_def by (rule split_on_join) (use dot length_octets [of a] in \<open>auto simp del: length_octets\<close>)
  moreover have "map (octet \<circ> dec_digits) (octets a) = map Some (octets a)"
    by (simp add: octet_dec_digits octets_less)
  moreover have "those (map Some xs) = Some xs" for xs :: "nat list" by (induction xs) simp_all
  ultimately show ?thesis by (simp add: ip4_fields_def Let_def del: map_eq_conv)
qed

lemma hex_digits_hex: "\<forall>c \<in> set (hex_digits n). is_hex c"
proof (induction n rule: hex_digits.induct)
  case (1 n)
  then show ?case by (subst hex_digits.simps) (auto simp: is_hex_def)
qed

lemma hex_digits_nonempty [simp]: "hex_digits n \<noteq> []"
  by (subst hex_digits.simps) simp

lemma hex_num_digits [simp]: "hex_num (hex_digits n) = n"
proof (induction n rule: hex_digits.induct)
  case (1 n)
  show ?case
  proof (cases "n < 16")
    case True
    then show ?thesis by (subst hex_digits.simps) (simp add: hex_num_def undigits_def)
  next
    case False
    then have "hex_digits n = hex_digits (n div 16) @ [hex_char (n mod 16)]" by (subst hex_digits.simps) simp
    then show ?thesis using 1 [OF False] by (simp add: hex_num_def)
  qed
qed

lemma length_hex_digits: "n < 16 ^ Suc k \<Longrightarrow> length (hex_digits n) \<le> Suc k"
proof (induction k arbitrary: n)
  case (Suc k)
  then have "n div 16 < 16 ^ Suc k" by simp
  then show ?case using Suc.IH [of "n div 16"] by (subst hex_digits.simps) simp
qed (subst hex_digits.simps, simp)

lemma hex_group:
  assumes "g < 65536" and "s = [] \<or> \<not> is_hex (hd s)"
  shows "takeWhile is_hex (hex_digits g @ s) = hex_digits g" and "dropWhile is_hex (hex_digits g @ s) = s"
    and "length (hex_digits g) \<le> 4"
proof -
  show "takeWhile is_hex (hex_digits g @ s) = hex_digits g" and "dropWhile is_hex (hex_digits g @ s) = s"
    using assms(2) hex_digits_hex [of g] by (cases s; simp add: takeWhile_append dropWhile_append)+
  show "length (hex_digits g) \<le> 4" using length_hex_digits [of g 3] assms(1) by simp
qed

lemma not_hex_sep [simp]: "\<not> is_hex CHR '':''" "\<not> is_hex CHR ''.''" "\<not> is_hex CHR ''%''"
  by (simp_all add: is_hex_def hex_val_def)

text \<open>The text of a list of groups.\<close>
abbreviation hexs :: "nat list \<Rightarrow> gostring" where
  "hexs gs \<equiv> join '':'' (map hex_digits gs)"

lemma hexs_Cons: "join '':'' (hex_digits g # map hex_digits gs) = hex_digits g @ (if gs = [] then [] else CHR '':'' # hexs gs)"
  by (cases gs) simp_all

lemma hexs_head: "gs \<noteq> [] \<Longrightarrow> \<exists>c r. hexs gs = c # r \<and> is_hex c"
proof -
  assume "gs \<noteq> []"
  then obtain g gs' where g: "gs = g # gs'" by (cases gs) auto
  obtain c r where c: "hex_digits g = c # r" by (cases "hex_digits g") auto
  then have "is_hex c" using hex_digits_hex [of g] by auto
  moreover have "hexs gs = hex_digits g @ (if gs' = [] then [] else CHR '':'' # hexs gs')"
    unfolding g list.map by (rule hexs_Cons)
  ultimately show ?thesis using c by (metis append_Cons)
qed

lemma loop_group:
  assumes "g < 65536" and "rest = [] \<or> hd rest = CHR '':''"
  shows "ip6_loop (Suc m) acc e (hex_digits g @ rest) =
    (case rest of [] \<Rightarrow> Some (acc @ [g], e, [])
     | _ # [] \<Rightarrow> None
     | _ # c2 # r2 \<Rightarrow>
         if c2 = CHR '':'' then
           (if e \<noteq> None then None
            else if r2 = [] then Some (acc @ [g], Some (length (acc @ [g])), [])
            else ip6_loop m (acc @ [g]) (Some (length (acc @ [g]))) r2)
         else ip6_loop m (acc @ [g]) e (c2 # r2))"
proof -
  have "rest = [] \<or> \<not> is_hex (hd rest)" using assms(2) by auto
  note h = hex_group [OF assms(1) this]
  show ?thesis using assms(2) h(3) unfolding ip6_loop.simps Let_def h(1,2)
    by (auto split: list.split)
qed

lemma loop_groups:
  assumes "gs \<noteq> []" and "length gs \<le> n" and "\<forall>g \<in> set gs. g < 65536"
  shows "ip6_loop n acc e (hexs gs) = Some (acc @ gs, e, [])"
  using assms
proof (induction gs arbitrary: n acc)
  case (Cons g gs)
  then obtain m where n: "n = Suc m" by (cases n) auto
  show ?case
  proof (cases "gs = []")
    case True
    then show ?thesis using loop_group [of g "[]" m acc e] Cons.prems(3) n by simp
  next
    case False
    obtain c r where h: "hexs gs = c # r" "is_hex c" using hexs_head [OF False] by blast
    then have "c \<noteq> CHR '':''" by auto
    then show ?thesis
      using loop_group [of g "CHR '':'' # hexs gs" m acc e] Cons.prems Cons.IH [OF False, of m "acc @ [g]"] h n False
      by (simp add: hexs_Cons del: ip6_loop.simps)
  qed
qed simp

lemma loop_ellipsis:
  assumes "hs \<noteq> []" and "length hs + length ts < n" and "\<forall>g \<in> set hs \<union> set ts. g < 65536"
  shows "ip6_loop n acc None (hexs hs @ CHR '':'' # CHR '':'' # hexs ts)
    = Some (acc @ hs @ ts, Some (length acc + length hs), [])"
  using assms
proof (induction hs arbitrary: n acc)
  case (Cons g hs)
  then obtain m where n: "n = Suc m" by (cases n) auto
  show ?case
  proof (cases "hs = []")
    case True
    show ?thesis
    proof (cases "ts = []")
      case True
      then show ?thesis using loop_group [of g "CHR '':'' # [CHR '':'']" m acc None] Cons.prems(3) n \<open>hs = []\<close> by simp
    next
      case False
      then obtain c r where h: "hexs ts = c # r" using hexs_head by blast
      then show ?thesis
        using loop_group [of g "CHR '':'' # CHR '':'' # hexs ts" m acc None] Cons.prems n \<open>hs = []\<close>
          loop_groups [OF False, of m "acc @ [g]" "Some (Suc (length acc))"] by (simp del: ip6_loop.simps)
    qed
  next
    case False
    then obtain c r where h: "hexs hs = c # r" "is_hex c" using hexs_head by blast
    then have "c \<noteq> CHR '':''" by auto
    then show ?thesis
      using loop_group [of g "CHR '':'' # hexs hs @ CHR '':'' # CHR '':'' # hexs ts" m acc None] Cons.prems
        Cons.IH [OF False, of m "acc @ [g]"] h n False
      by (simp add: hexs_Cons del: ip6_loop.simps)
  qed
qed simp

lemma best_run_spec:
  assumes "best_run i gs b = (s, l)"
  shows "(s, l) = b \<or> (2 \<le> l \<and> i \<le> s \<and> s - i + l \<le> length gs \<and> take l (drop (s - i) gs) = replicate l 0)"
  using assms
proof (induction i gs b rule: best_run.induct)
  case (2 i g gs b)
  let ?r = "length (takeWhile ((=) 0) (g # gs))"
  let ?b = "if ?r \<ge> 2 \<and> ?r > snd b then (i, ?r) else b"
  have "(s, l) = ?b \<or> (2 \<le> l \<and> Suc i \<le> s \<and> s - Suc i + l \<le> length gs \<and> take l (drop (s - Suc i) gs) = replicate l 0)"
    using 2 by (simp only: best_run.simps Let_def)
  moreover have "take ?r (g # gs) = replicate ?r 0"
  proof -
    have "take ?r (g # gs) = takeWhile ((=) 0) (g # gs)" by (metis takeWhile_eq_take)
    also have "\<dots> = replicate ?r 0" by (rule replicate_length_same [symmetric]) (metis set_takeWhileD)
    finally show ?thesis .
  qed
  moreover have "?r \<le> length (g # gs)" by (rule length_takeWhile_le)
  moreover have "drop (s - i) (g # gs) = drop (s - Suc i) gs" if "Suc i \<le> s"
  proof -
    have "s - i = Suc (s - Suc i)" using that by simp
    then show ?thesis by simp
  qed
  ultimately show ?case
    by (cases "?r \<ge> 2 \<and> ?r > snd b") (auto simp del: takeWhile.simps)
qed simp

lemma find_only:
  assumes "x \<in> set s" and "P x" and "\<forall>y \<in> set s. P y \<longrightarrow> y = x"
  shows "find P s = Some x"
proof (cases "find P s")
  case None
  then show ?thesis using assms(1,2) by (simp add: find_None_iff)
next
  case (Some y)
  then have "y \<in> set s \<and> P y" by (auto simp: find_Some_iff)
  then show ?thesis using assms(3) Some by blast
qed

lemma find_append: "find P s = Some x \<Longrightarrow> find P (s @ t) = Some x"
  by (induction s) (auto split: if_splits)

lemma set_join: "c \<in> set (join sep ws) \<Longrightarrow> c \<in> set sep \<or> (\<exists>w \<in> set ws. c \<in> set w)"
  by (induction sep ws rule: join.induct) auto

lemma join_sep_mem: "2 \<le> length ws \<Longrightarrow> d \<in> set (join [d] ws)"
  by (induction "[d]" ws rule: join.induct) auto

lemma dec_digits_chars: "c \<in> set (dec_digits n) \<Longrightarrow> c \<noteq> CHR '':'' \<and> c \<noteq> CHR ''%'' \<and> c \<noteq> CHR ''.''"
  using dec_digits_digit [of n] by (auto simp: is_digit_def)

lemma hex_digits_chars: "c \<in> set (hex_digits n) \<Longrightarrow> c \<noteq> CHR '':'' \<and> c \<noteq> CHR ''%'' \<and> c \<noteq> CHR ''.''"
  using hex_digits_hex [of n] by (auto simp: is_hex_def hex_val_def)

lemma parse_ip4_string [simp]: "parse_addr (ip4_string a) = Some (V4 a)"
proof -
  have "find (\<lambda>c. c \<in> {CHR ''.'', CHR '':'', CHR ''%''}) (ip4_string a) = Some CHR ''.''"
  proof (rule find_only)
    show "CHR ''.'' \<in> set (ip4_string a)" unfolding ip4_string_def by (rule join_sep_mem) simp
    show "\<forall>y \<in> set (ip4_string a). y \<in> {CHR ''.'', CHR '':'', CHR ''%''} \<longrightarrow> y = CHR ''.''"
      unfolding ip4_string_def by (auto dest!: set_join dest: dec_digits_chars)
  qed simp
  then show ?thesis by (simp add: parse_addr_def ip4_fields_string)
qed

lemma ip6_chars: "c \<in> set (ip6_string a) \<Longrightarrow> c \<noteq> CHR ''%'' \<and> c \<noteq> CHR ''.''"
  unfolding ip6_string_def
  by (auto simp: Let_def split: prod.splits if_splits dest!: set_join dest: hex_digits_chars)

lemma ip6_split:
  obtains hs ts l where "groups a = hs @ replicate l 0 @ ts" and "2 \<le> l"
    and "ip6_string a = hexs hs @ CHR '':'' # CHR '':'' # hexs ts"
  | "ip6_string a = hexs (groups a)"
proof -
  obtain s l where b: "best_run 0 (groups a) (0, 0) = (s, l)" by fastforce
  note spec = best_run_spec [OF b]
  show thesis
  proof (cases "l = 0")
    case True
    then show thesis using b that(2) by (simp add: ip6_string_def Let_def)
  next
    case False
    then have l: "2 \<le> l" "s + l \<le> 8" "take l (drop s (groups a)) = replicate l 0" using spec by auto
    have "groups a = take s (groups a) @ take l (drop s (groups a)) @ drop (s + l) (groups a)"
      by (metis append_take_drop_id drop_drop add.commute)
    then show thesis using that(1) [of "take s (groups a)" l "drop (s + l) (groups a)"] l b False
      by (simp add: ip6_string_def Let_def)
  qed
qed

lemma parse_ip6_string:
  assumes "\<forall>g \<in> set (groups a). g < 65536"
  shows "Option.bind (if has_prefix (ip6_string a) ''::'' then
               (if length (ip6_string a) = 2 then Some 0
                else Option.bind (ip6_loop 8 [] (Some 0) (drop 2 (ip6_string a))) ip6_finish)
             else Option.bind (ip6_loop 8 [] None (ip6_string a)) ip6_finish) Some = Some a"
proof (cases a rule: ip6_split)
  case (1 hs ts l)
  have len: "length hs + l + length ts = 8" using length_groups [of a] 1(1) by simp
  have all: "\<forall>g \<in> set hs \<union> set ts. g < 65536" using assms unfolding 1(1) by auto
  have fin: "of_groups (hs @ replicate l 0 @ ts) = a" using 1(1) of_groups_groups [of a] by simp
  show ?thesis
  proof (cases "hs = []")
    case False
    then obtain c r where h: "hexs hs = c # r" "is_hex c" using hexs_head by blast
    then have "\<not> has_prefix (ip6_string a) ''::''" by (auto simp: 1(3) has_prefix_def)
    moreover have "ip6_loop 8 [] None (ip6_string a) = Some (hs @ ts, Some (length hs), [])"
      unfolding 1(3) using loop_ellipsis [OF False, of ts 8 "[]"] len all 1(2) by simp
    moreover have "8 - (length hs + length ts) = l" using len by simp
    ultimately show ?thesis using len 1(2) fin by (simp add: ip6_finish_def)
  next
    case True
    have pre: "has_prefix (ip6_string a) ''::''" "drop 2 (ip6_string a) = hexs ts"
      by (simp_all add: 1(3) True has_prefix_def)
    show ?thesis
    proof (cases "ts = []")
      case ts: True
      have "of_groups (replicate l 0) = (0 :: ip6)"
      proof -
        have "undigits 65536 (replicate l 0) = 0"
          by (induction l) (simp_all add: undigits_def)
        then show ?thesis by (simp add: of_groups_undigits)
      qed
      then have "a = 0" using fin True ts by simp
      moreover have "length (ip6_string a) = 2" by (simp add: 1(3) True ts)
      ultimately show ?thesis using pre by simp
    next
      case False
      then have "length (ip6_string a) \<noteq> 2" using hexs_head [OF False] by (auto simp: 1(3) True)
      moreover have "ip6_loop 8 [] (Some 0) (hexs ts) = Some (ts, Some 0, [])"
        using loop_groups [OF False, of 8 "[]" "Some 0"] len all by simp
      moreover have "8 - length ts = l" using len True by simp
      ultimately show ?thesis using len 1(2) fin True pre by (simp add: ip6_finish_def)
    qed
  qed
next
  case 2
  have ne: "groups a \<noteq> []" using length_groups [of a] by force
  then obtain c r where h: "hexs (groups a) = c # r" "is_hex c" using hexs_head by blast
  then have "\<not> has_prefix (ip6_string a) ''::''" by (auto simp: 2 has_prefix_def)
  moreover have "ip6_loop 8 [] None (ip6_string a) = Some (groups a, None, [])"
    unfolding 2 using loop_groups [OF ne, of 8 "[]" None] assms by simp
  ultimately show ?thesis by (simp add: ip6_finish_def)
qed

lemma ip6_colon: "find (\<lambda>c. c \<in> {CHR ''.'', CHR '':'', CHR ''%''}) (ip6_string a) = Some CHR '':''"
proof (rule find_only)
  show "CHR '':'' \<in> set (ip6_string a)"
  proof (cases a rule: ip6_split)
    case 2
    show ?thesis unfolding 2 by (rule join_sep_mem) simp
  qed simp
  show "\<forall>y \<in> set (ip6_string a). y \<in> {CHR ''.'', CHR '':'', CHR ''%''} \<longrightarrow> y = CHR '':''"
    using ip6_chars by blast
qed simp

lemma cut_at_append:
  "d \<notin> set s \<Longrightarrow> cut_at d s = (s, None)"
  "d \<notin> set s \<Longrightarrow> cut_at d (s @ d # r) = (s, Some r)"
proof -
  assume d: "d \<notin> set s"
  then have "takeWhile (\<lambda>c. c \<noteq> d) s = s" "dropWhile (\<lambda>c. c \<noteq> d) s = []"
    by (auto simp: takeWhile_eq_all_conv dropWhile_eq_Nil_conv)
  then show "cut_at d s = (s, None)" unfolding cut_at_def by (simp only: list.case)
  show "cut_at d (s @ d # r) = (s, Some r)"
    using d by (simp add: cut_at_def takeWhile_append dropWhile_append)
qed

lemma parse_ip6_zone: "parse_addr (ip6_string a @ with_zone z) = Some (V6 a z)"
proof -
  have no: "CHR ''%'' \<notin> set (ip6_string a)" using ip6_chars by blast
  then have cut: "cut_at CHR ''%'' (ip6_string a @ with_zone z) = (ip6_string a, if z = [] then None else Some z)"
    by (simp add: with_zone_def cut_at_append)
  have "parse_ip6 (ip6_string a @ with_zone z) = Some (V6 a z)"
    using parse_ip6_string [of a] groups_less [of _ a]
    unfolding parse_ip6_def cut by (auto simp: Let_def split: option.splits if_splits)
  then show ?thesis using find_append [OF ip6_colon] by (simp add: parse_addr_def)
qed

text \<open>Printing an unmapped address and parsing the text gives the address back.\<close>
theorem parse_addr_string: "parse_addr (addr_string (unmap a)) = Some (unmap a)"
  by (cases a) (simp_all add: unmap_def addr_string_def parse_ip6_zone)

lemma unmap_idem [simp]: "unmap (unmap a) = unmap a"
  by (cases a) (simp_all add: unmap_def)

end
