(* ===== verification/Url.thy ===== *)
theory Url imports
  Netip
begin

text \<open>
  URLs as the package \<open>net/url\<close> of Go's standard library parses and prints them, as far as the
  repository uses them: scheme, opaque part, user, host, path with its escaped form, query and
  fragment; \<open>Hostname\<close>, \<open>Port\<close>, \<open>SplitHostPort\<close> and \<open>JoinHostPort\<close>.
\<close>

section \<open>Escaping\<close>

datatype encoding = EncPath | EncPathSegment | EncHost | EncZone | EncUser | EncQuery | EncFragment

definition is_alnum :: "char \<Rightarrow> bool" where
  "is_alnum c \<longleftrightarrow> (let n = byte_val c in (97 \<le> n \<and> n \<le> 122) \<or> (65 \<le> n \<and> n \<le> 90) \<or> (48 \<le> n \<and> n \<le> 57))"

definition should_escape :: "encoding \<Rightarrow> char \<Rightarrow> bool" where
  "should_escape m c =
     (if is_alnum c then False
      else if (m = EncHost \<or> m = EncZone) \<and> c \<in> set ''!$&()*+,;=:[]<>'' \<union> {CHR 0x27, CHR 0x22} then False
      else if c \<in> set ''-_.~'' then False
      else if c \<in> set ''$&+,/:;=?@'' \<and> m = EncPath then c = CHR ''?''
      else if c \<in> set ''$&+,/:;=?@'' \<and> m = EncPathSegment then c \<in> set ''/;,?''
      else if c \<in> set ''$&+,/:;=?@'' \<and> m = EncUser then c \<in> set ''@/?:''
      else if c \<in> set ''$&+,/:;=?@'' \<and> m = EncQuery then True
      else if c \<in> set ''$&+,/:;=?@'' \<and> m = EncFragment then False
      else if m = EncFragment \<and> c \<in> set ''!()*'' then False
      else True)"

definition hex_upper :: "nat \<Rightarrow> char" where
  "hex_upper n = (if n < 10 then char_of (n + 48) else char_of (n + 55))"

definition escape_char :: "encoding \<Rightarrow> char \<Rightarrow> gostring" where
  "escape_char m c =
     (if c = CHR '' '' \<and> m = EncQuery then ''+''
      else if should_escape m c then [CHR ''%'', hex_upper (byte_val c div 16), hex_upper (byte_val c mod 16)]
      else [c])"

definition url_escape :: "encoding \<Rightarrow> gostring \<Rightarrow> gostring" where
  "url_escape m s = concat (map (escape_char m) s)"

fun url_unescape :: "encoding \<Rightarrow> gostring \<Rightarrow> gostring option" where
  "url_unescape m [] = Some []"
| "url_unescape m (c # s) =
     (if c = CHR ''%'' then
        (case s of
           h # l # r \<Rightarrow>
             (case (hex_val h, hex_val l) of
                (Some a, Some b) \<Rightarrow>
                  let v = char_of (a * 16 + b) :: char in
                  if m = EncHost \<and> a < 8 \<and> \<not> (h = CHR ''2'' \<and> l = CHR ''5'') then None
                  else if m = EncZone \<and> \<not> (h = CHR ''2'' \<and> l = CHR ''5'') \<and> v \<noteq> CHR '' '' \<and> should_escape EncHost v then None
                  else map_option (Cons v) (url_unescape m r)
              | _ \<Rightarrow> None)
         | _ \<Rightarrow> None)
      else if (m = EncHost \<or> m = EncZone) \<and> byte_val c < 128 \<and> should_escape m c then None
      else map_option (Cons (if c = CHR ''+'' \<and> m = EncQuery then CHR '' '' else c)) (url_unescape m s))"

definition valid_encoded :: "encoding \<Rightarrow> gostring \<Rightarrow> bool" where
  "valid_encoded m s = list_all (\<lambda>c. c \<in> set ''!$&()*+,;=:@[]%'' \<union> {CHR 0x27} \<or> \<not> should_escape m c) s"

section \<open>Parsing\<close>

record url =
  u_scheme :: gostring
  u_opaque :: gostring
  u_user :: "(gostring \<times> gostring option) option"
  u_host :: gostring
  u_path :: gostring
  u_raw_path :: gostring
  u_omit_host :: bool
  u_force_query :: bool
  u_raw_query :: gostring
  u_fragment :: gostring

definition empty_url :: url where
  "empty_url = \<lparr>u_scheme = [], u_opaque = [], u_user = None, u_host = [], u_path = [], u_raw_path = [],
     u_omit_host = False, u_force_query = False, u_raw_query = [], u_fragment = []\<rparr>"

text \<open>The part after the last \<open>d\<close> and the part before it.\<close>
definition cut_last :: "char \<Rightarrow> gostring \<Rightarrow> (gostring \<times> gostring) option" where
  "cut_last d s = (if d \<in> set s
     then Some (rev (tl (dropWhile (\<lambda>c. c \<noteq> d) (rev s))), rev (takeWhile (\<lambda>c. c \<noteq> d) (rev s)))
     else None)"

text \<open>\<open>getScheme\<close>: None is the error, otherwise the scheme and the rest.\<close>
fun scheme_scan :: "gostring \<Rightarrow> gostring \<Rightarrow> gostring \<Rightarrow> (gostring \<times> gostring) option" where
  "scheme_scan raw acc [] = Some ([], raw)"
| "scheme_scan raw acc (c # s) =
     (let n = byte_val c in
      if (97 \<le> n \<and> n \<le> 122) \<or> (65 \<le> n \<and> n \<le> 90) then scheme_scan raw (acc @ [c]) s
      else if (48 \<le> n \<and> n \<le> 57) \<or> c \<in> set ''+-.'' then
        (if acc = [] then Some ([], raw) else scheme_scan raw (acc @ [c]) s)
      else if c = CHR '':'' then (if acc = [] then None else Some (acc, s))
      else Some ([], raw))"

definition get_scheme :: "gostring \<Rightarrow> (gostring \<times> gostring) option" where
  "get_scheme raw = scheme_scan raw [] raw"

definition valid_optional_port :: "gostring \<Rightarrow> bool" where
  "valid_optional_port s = (case s of [] \<Rightarrow> True | c # ds \<Rightarrow> c = CHR '':'' \<and> list_all is_digit ds)"

text \<open>The first place of \<open>%25\<close>.\<close>
fun zone_index :: "gostring \<Rightarrow> nat option" where
  "zone_index [] = None"
| "zone_index (c # s) = (if has_prefix (c # s) ''%25'' then Some 0 else map_option Suc (zone_index s))"

definition parse_host :: "gostring \<Rightarrow> gostring option" where
  "parse_host host =
     (if has_prefix host ''['' then
        (case cut_last CHR '']'' host of
           None \<Rightarrow> None
         | Some (pre, post) \<Rightarrow>
             if \<not> valid_optional_port post then None
             else (case zone_index pre of
                 None \<Rightarrow> url_unescape EncHost host
               | Some i \<Rightarrow>
                   (case (url_unescape EncHost (take i pre), url_unescape EncZone (drop i pre),
                          url_unescape EncHost (CHR '']'' # post)) of
                      (Some h1, Some h2, Some h3) \<Rightarrow> Some (h1 @ h2 @ h3)
                    | _ \<Rightarrow> None)))
      else (case cut_last CHR '':'' host of
          Some (pre, post) \<Rightarrow>
            if \<not> valid_optional_port (CHR '':'' # post) then None else url_unescape EncHost host
        | None \<Rightarrow> url_unescape EncHost host))"

definition valid_userinfo :: "gostring \<Rightarrow> bool" where
  "valid_userinfo s = list_all (\<lambda>c. is_alnum c \<or> c \<in> set ''-._:~!$&()*+,;=%@'' \<union> {CHR 0x27}) s"

definition parse_authority :: "gostring \<Rightarrow> ((gostring \<times> gostring option) option \<times> gostring) option" where
  "parse_authority a =
     (case cut_last CHR ''@'' a of
        None \<Rightarrow> map_option (Pair None) (parse_host a)
      | Some (info, host) \<Rightarrow>
          (case parse_host host of
             None \<Rightarrow> None
           | Some h \<Rightarrow>
               if \<not> valid_userinfo info then None
               else (case cut_at CHR '':'' info of
                   (name, None) \<Rightarrow> map_option (\<lambda>n. (Some (n, None), h)) (url_unescape EncUser name)
                 | (name, Some pass) \<Rightarrow>
                     (case (url_unescape EncUser name, url_unescape EncUser pass) of
                        (Some n, Some p) \<Rightarrow> Some (Some (n, Some p), h)
                      | _ \<Rightarrow> None))))"

definition set_path :: "gostring \<Rightarrow> url \<Rightarrow> url option" where
  "set_path p u =
     (case url_unescape EncPath p of
        None \<Rightarrow> None
      | Some path \<Rightarrow> Some (u\<lparr>u_path := path, u_raw_path := (if p = url_escape EncPath path then [] else p)\<rparr>))"

definition has_ctl :: "gostring \<Rightarrow> bool" where
  "has_ctl s = list_ex (\<lambda>c. byte_val c < 32 \<or> byte_val c = 127) s"

definition count_char :: "char \<Rightarrow> gostring \<Rightarrow> nat" where
  "count_char d s = length (filter (\<lambda>c. c = d) s)"

text \<open>\<open>parse\<close> without a fragment.\<close>
definition parse_no_fragment :: "gostring \<Rightarrow> url option" where
  "parse_no_fragment raw =
     (if has_ctl raw then None
      else if raw = ''*'' then Some (empty_url\<lparr>u_path := ''*''\<rparr>)
      else (case get_scheme raw of
          None \<Rightarrow> None
        | Some (scheme0, rest0) \<Rightarrow>
            let scheme = to_lower scheme0;
                force = has_suffix rest0 ''?'' \<and> count_char CHR ''?'' rest0 = 1;
                (rest, query) = (if force then (butlast rest0, [])
                  else (case cut_at CHR ''?'' rest0 of (a, q) \<Rightarrow> (a, case q of None \<Rightarrow> [] | Some b \<Rightarrow> b)));
                u = empty_url\<lparr>u_scheme := scheme, u_force_query := force, u_raw_query := query\<rparr>
            in if \<not> has_prefix rest ''/'' \<and> scheme \<noteq> [] then Some (u\<lparr>u_opaque := rest\<rparr>)
               else if \<not> has_prefix rest ''/'' \<and> CHR '':'' \<in> set (fst (cut_at CHR ''/'' rest)) then None
               else if (scheme \<noteq> [] \<or> \<not> has_prefix rest ''///'') \<and> has_prefix rest ''//'' then
                 (let auth = takeWhile (\<lambda>c. c \<noteq> CHR ''/'') (drop 2 rest);
                      path = dropWhile (\<lambda>c. c \<noteq> CHR ''/'') (drop 2 rest)
                  in (case parse_authority auth of
                       None \<Rightarrow> None
                     | Some (user, host) \<Rightarrow> set_path path (u\<lparr>u_user := user, u_host := host\<rparr>)))
               else set_path rest (u\<lparr>u_omit_host := (scheme \<noteq> [] \<and> has_prefix rest ''/'')\<rparr>)))"

definition url_parse :: "gostring \<Rightarrow> url option" where
  "url_parse raw =
     (case cut_at CHR ''#'' raw of (s, frag) \<Rightarrow>
        (case parse_no_fragment s of
           None \<Rightarrow> None
         | Some u \<Rightarrow>
             (case frag of
                None \<Rightarrow> Some u
              | Some [] \<Rightarrow> Some u
              | Some f \<Rightarrow> map_option (\<lambda>g. u\<lparr>u_fragment := g\<rparr>) (url_unescape EncFragment f))))"

section \<open>Host and port\<close>

definition split_host_port :: "gostring \<Rightarrow> gostring \<times> gostring" where
  "split_host_port hp =
     (let (host, port) = (case cut_last CHR '':'' hp of
            Some (h, p) \<Rightarrow> if valid_optional_port (CHR '':'' # p) then (h, p) else (hp, [])
          | None \<Rightarrow> (hp, []))
      in (if has_prefix host ''['' \<and> has_suffix host '']'' then butlast (tl host) else host, port))"

definition url_hostname :: "url \<Rightarrow> gostring" where
  "url_hostname u = fst (split_host_port (u_host u))"

definition url_port :: "url \<Rightarrow> gostring" where
  "url_port u = snd (split_host_port (u_host u))"

text \<open>\<open>net.JoinHostPort\<close>.\<close>
definition join_host_port :: "gostring \<Rightarrow> gostring \<Rightarrow> gostring" where
  "join_host_port host port =
     (if CHR '':'' \<in> set host then ''['' @ host @ '']:'' @ port else host @ '':'' @ port)"

text \<open>\<open>net.SplitHostPort\<close>: None is any of its errors.\<close>
definition net_split_host_port :: "gostring \<Rightarrow> (gostring \<times> gostring) option" where
  "net_split_host_port hp =
     (case cut_last CHR '':'' hp of
        None \<Rightarrow> None
      | Some (pre, port) \<Rightarrow>
          if has_prefix hp ''['' then
            (case cut_at CHR '']'' hp of
               (_, None) \<Rightarrow> None
             | (h, Some r) \<Rightarrow>
                 if r \<noteq> CHR '':'' # port then None
                 else if CHR ''['' \<in> set (tl h) \<or> CHR '']'' \<in> set r then None
                 else Some (tl h, port))
          else if CHR '':'' \<in> set pre then None
          else if CHR ''['' \<in> set hp \<or> CHR '']'' \<in> set hp then None
          else Some (pre, port))"

section \<open>Printing\<close>

definition escaped_path :: "url \<Rightarrow> gostring" where
  "escaped_path u =
     (if u_raw_path u \<noteq> [] \<and> valid_encoded EncPath (u_raw_path u) \<and>
         url_unescape EncPath (u_raw_path u) = Some (u_path u) then u_raw_path u
      else if u_path u = ''*'' then ''*''
      else url_escape EncPath (u_path u))"

definition user_string :: "gostring \<times> gostring option \<Rightarrow> gostring" where
  "user_string i = (case i of (n, p) \<Rightarrow> url_escape EncUser n @
     (case p of None \<Rightarrow> [] | Some q \<Rightarrow> '':'' @ url_escape EncUser q))"

definition query_part :: "url \<Rightarrow> gostring" where
  "query_part u = (if u_force_query u \<or> u_raw_query u \<noteq> [] then CHR ''?'' # u_raw_query u else [])"

definition authority_part :: "url \<Rightarrow> gostring" where
  "authority_part u =
     (if (u_scheme u \<noteq> [] \<or> u_host u \<noteq> [] \<or> u_user u \<noteq> None) \<and>
         \<not> (u_omit_host u \<and> u_host u = [] \<and> u_user u = None) then
        (if u_host u \<noteq> [] \<or> u_path u \<noteq> [] \<or> u_user u \<noteq> None then ''//'' else []) @
        (case u_user u of None \<Rightarrow> [] | Some i \<Rightarrow> user_string i @ ''@'') @
        url_escape EncHost (u_host u)
      else [])"

definition url_string :: "url \<Rightarrow> gostring" where
  "url_string u =
     (if u_scheme u = [] then [] else u_scheme u @ '':'') @
     (if u_opaque u \<noteq> [] then u_opaque u
      else authority_part u @
        (let path = escaped_path u in
         (if path \<noteq> [] \<and> hd path \<noteq> CHR ''/'' \<and> u_host u \<noteq> [] then ''/'' else []) @
         (if u_scheme u = [] \<and> u_host u = [] \<and> CHR '':'' \<in> set (fst (cut_at CHR ''/'' path)) then ''./'' else []) @
         path)) @
     query_part u @
     (if u_fragment u = [] then [] else CHR ''#'' # url_escape EncFragment (u_fragment u))"

section \<open>Tokens\<close>

text \<open>The characters of a header key; white space is none of them.\<close>
definition token_char :: "char \<Rightarrow> bool" where
  "token_char c \<longleftrightarrow> is_alnum c \<or> c \<in> set ''!#$%&*+-.^_`|~'' \<union> {CHR 0x27}"

lemma leading_of_token:
  assumes "list_all token_char k" and "list_all (\<lambda>w. w = [] \<or> \<not> token_char (hd w)) ws"
  shows "leading_of ws k = None"
  using assms by (cases k) (auto simp: leading_of_def find_None_iff has_prefix_append list_all_iff neq_Nil_conv)

lemma spaces_not_token:
  "list_all (\<lambda>w. w = [] \<or> \<not> token_char (hd w)) go_spaces \<and> list_all (\<lambda>w. w = [] \<or> \<not> token_char (hd w)) (map rev go_spaces)"
  by code_simp

lemma trim_space_token: "list_all token_char k \<Longrightarrow> trim_space k = k"
  using spaces_not_token by (simp add: trim_space_def trim_left_id leading_of_token)

end
