(* ===== verification/NetGuard.thy ===== *)
theory NetGuard imports
  Url
  Sha256
begin

text \<open>
  \<open>internal/netguard/url.go\<close> and \<open>validator.go\<close>: which URLs may be fetched and which addresses
  may be dialled.  The conversion of internationalised names (\<open>idna.Lookup.ToASCII\<close>, a
  third-party package) is the argument \<open>idna\<close>, the resolver and the dialer are arguments too.
\<close>

datatype guard_error = InvalidFetchURL | UnsafeDestination | RedirectLimit | ResponseTooLarge
  | AuthorityDenied | AuthorityAmbiguous | ProxyRejected | GuardMsg gostring | GuardWrap gostring gostring

type_synonym idna = "gostring \<Rightarrow> gostring option"

text \<open>\<open>http.Header\<close>: the values of each key as it was spelled.\<close>
type_synonym header = "(gostring, gostring list) gomap"

section \<open>Public addresses\<close>

definition ip4_of :: "nat \<Rightarrow> nat \<Rightarrow> nat \<Rightarrow> nat \<Rightarrow> ip4" where
  "ip4_of a b c d = of_octets [a, b, c, d]"

definition denied_prefixes :: "prefix list" where
  "denied_prefixes =
    [P4 (ip4_of 0 0 0 0) 8, P4 (ip4_of 10 0 0 0) 8, P4 (ip4_of 100 64 0 0) 10, P4 (ip4_of 127 0 0 0) 8,
     P4 (ip4_of 169 254 0 0) 16, P4 (ip4_of 172 16 0 0) 12, P4 (ip4_of 192 0 0 0) 24,
     P4 (ip4_of 192 0 2 0) 24, P4 (ip4_of 192 168 0 0) 16, P4 (ip4_of 198 18 0 0) 15,
     P4 (ip4_of 198 51 100 0) 24, P4 (ip4_of 203 0 113 0) 24, P4 (ip4_of 224 0 0 0) 4,
     P4 (ip4_of 240 0 0 0) 4,
     P6 0 128, P6 1 128, P6 0x0064ff9b000000000000000000000000 96, P6 0x0064ff9b000100000000000000000000 48,
     P6 0xfc000000000000000000000000000000 7, P6 0xfe800000000000000000000000000000 10,
     P6 0xff000000000000000000000000000000 8, P6 0x20010db8000000000000000000000000 32,
     P6 0x20010000000000000000000000000000 32, P6 0x20020000000000000000000000000000 16]"

text \<open>\<open>isPublicAddress\<close>; None is the invalid zero \<open>netip.Addr\<close>.\<close>
definition is_public_address :: "addr option \<Rightarrow> bool" where
  "is_public_address a =
     (case a of
        None \<Rightarrow> False
      | Some b \<Rightarrow>
          let c = unmap b in
          if is_loopback c \<or> is_private c \<or> is_link_local_unicast c \<or> is_link_local_multicast c \<or>
             is_multicast c \<or> is_unspecified c then False
          else \<not> list_ex (\<lambda>p. prefix_contains p c) denied_prefixes)"

section \<open>Fetch URLs\<close>

definition canonical_host :: "idna \<Rightarrow> gostring \<Rightarrow> gostring option" where
  "canonical_host idna raw =
     (let host = trim_suffix (to_lower (trim_space raw)) ''.'' in
      if host = [] \<or> contains_any host [CHR 0x00, CHR ''/'', CHR 0x5C] then None
      else (case parse_addr host of
          Some a \<Rightarrow> Some (addr_string (unmap a))
        | None \<Rightarrow>
            (case idna host of
               None \<Rightarrow> None
             | Some ascii \<Rightarrow> if ascii = [] \<or> length ascii > 253 then None else Some (to_lower ascii))))"

definition host_is6 :: "gostring \<Rightarrow> bool" where
  "host_is6 host = (case parse_addr host of Some a \<Rightarrow> is6 a | None \<Rightarrow> False)"

definition private_literal :: "gostring \<Rightarrow> bool" where
  "private_literal host = (case parse_addr host of Some a \<Rightarrow> \<not> is_public_address (Some a) | None \<Rightarrow> False)"

text \<open>\<open>NewFetchURL\<close>: the parsed URL inside the opaque target.\<close>
definition new_fetch_url :: "idna \<Rightarrow> gostring \<Rightarrow> url option" where
  "new_fetch_url idna raw =
     (if trim_space raw \<noteq> raw \<or> raw = [] \<or> contains_any raw [CHR 0x0D, CHR 0x0A, CHR 0x00] then None
      else (case url_parse raw of
          None \<Rightarrow> None
        | Some u0 \<Rightarrow>
            if u_opaque u0 \<noteq> [] \<or> u_host u0 = [] then None
            else
              let u = u0\<lparr>u_scheme := to_lower (u_scheme u0)\<rparr> in
              if u_scheme u \<noteq> ''http'' \<and> u_scheme u \<noteq> ''https'' then None
              else if u_user u \<noteq> None then None
              else (case canonical_host idna (url_hostname u) of
                  None \<Rightarrow> None
                | Some host \<Rightarrow>
                    let port = url_port u in
                    if (u_scheme u = ''http'' \<and> port \<noteq> [] \<and> port \<noteq> ''80'') \<or>
                       (u_scheme u = ''https'' \<and> port \<noteq> [] \<and> port \<noteq> ''443'') then None
                    else if private_literal host then None
                    else Some (u\<lparr>u_host := (if port \<noteq> [] then join_host_port host port
                             else if host_is6 host then ''['' @ host @ '']'' else host),
                           u_fragment := []\<rparr>))))"

definition safe_url :: "url option \<Rightarrow> gostring" where
  "safe_url t = (case t of None \<Rightarrow> []
     | Some u \<Rightarrow> url_string (u\<lparr>u_raw_query := [], u_force_query := False, u_fragment := []\<rparr>))"

definition fetch_fingerprint :: "url option \<Rightarrow> gostring" where
  "fetch_fingerprint t = (case t of None \<Rightarrow> replicate 32 CHR 0x00 | Some u \<Rightarrow> sha256 (url_string u))"

text \<open>What formatting a target with any verb writes.\<close>
definition fetch_format :: "url option \<Rightarrow> gostring" where
  "fetch_format t = (if t = None then ''<invalid-fetch-url>'' else ''<opaque-fetch-url>'')"

section \<open>The validator\<close>

text \<open>The outcome of \<open>LookupNetIP\<close>.\<close>
type_synonym resolver = "gostring \<Rightarrow> gostring + addr option list"

definition validate_host :: "idna \<Rightarrow> resolver \<Rightarrow> gostring \<Rightarrow> guard_error option" where
  "validate_host idna resolve raw =
     (case canonical_host idna raw of
        None \<Rightarrow> Some UnsafeDestination
      | Some host \<Rightarrow>
          (case parse_addr host of
             Some a \<Rightarrow> if \<not> is_public_address (Some a) then Some UnsafeDestination else None
           | None \<Rightarrow>
               (case resolve host of
                  Inl e \<Rightarrow> Some (GuardWrap ''resolve destination'' e)
                | Inr as \<Rightarrow>
                    if as = [] then Some (GuardMsg ''resolve destination: empty address set'')
                    else if list_ex (\<lambda>a. \<not> is_public_address a) as then Some UnsafeDestination
                    else None)))"

definition validate_target :: "idna \<Rightarrow> resolver \<Rightarrow> bool \<Rightarrow> url option \<Rightarrow> guard_error option" where
  "validate_target idna resolve nil_ctx t =
     (case t of None \<Rightarrow> Some InvalidFetchURL
      | Some u \<Rightarrow> if nil_ctx then Some (GuardMsg ''nil validation context'')
                  else validate_host idna resolve (url_hostname u))"

text \<open>\<open>strconv.Atoi\<close>.\<close>
definition go_atoi :: "gostring \<Rightarrow> int option" where
  "go_atoi s =
     (let (neg, ds) = (case s of c # r \<Rightarrow> if c = CHR ''-'' then (True, r) else if c = CHR ''+'' then (False, r) else (False, s)
            | [] \<Rightarrow> (False, []));
          n = int (dec_val ds)
      in if ds = [] \<or> \<not> list_all is_digit ds then None
         else if neg then (if n > 2 ^ 63 then None else Some (- n))
         else if n \<ge> 2 ^ 63 then None else Some n)"

text \<open>\<open>DialContext\<close> of the dialer: an error or the connection, by network and pinned address.\<close>
type_synonym 'c dialer = "gostring \<Rightarrow> gostring \<Rightarrow> gostring + 'c"

text \<open>The loop over the validated addresses; the third component is what was dialled.\<close>
fun dial_each :: "'c dialer \<Rightarrow> gostring \<Rightarrow> gostring \<Rightarrow> gostring list \<Rightarrow> addr list
    \<Rightarrow> (guard_error + 'c) \<times> gostring list" where
  "dial_each dial network port errs [] = (Inl (GuardWrap ''dial validated destination'' (join [CHR 0x0A] errs)), [])"
| "dial_each dial network port errs (a # as) =
     (let pinned = join_host_port (addr_string a) port in
      (case dial network pinned of
         Inr c \<Rightarrow> (Inr c, [pinned])
       | Inl e \<Rightarrow> apsnd (Cons pinned) (dial_each dial network port (errs @ [e]) as)))"

definition dial_context :: "idna \<Rightarrow> resolver \<Rightarrow> 'c dialer \<Rightarrow> gostring \<Rightarrow> gostring
    \<Rightarrow> (guard_error + 'c) \<times> gostring list" where
  "dial_context idna resolve dial network address =
     (if network \<noteq> ''tcp'' \<and> network \<noteq> ''tcp4'' \<and> network \<noteq> ''tcp6'' then (Inl UnsafeDestination, [])
      else (case net_split_host_port address of
          None \<Rightarrow> (Inl UnsafeDestination, [])
        | Some (host0, port) \<Rightarrow>
            (case go_atoi port of
               None \<Rightarrow> (Inl UnsafeDestination, [])
             | Some n \<Rightarrow>
                 if n < 1 \<or> n > 65535 then (Inl UnsafeDestination, [])
                 else (case canonical_host idna host0 of
                     None \<Rightarrow> (Inl UnsafeDestination, [])
                   | Some host \<Rightarrow>
                       (case (case parse_addr host of Some a \<Rightarrow> Inr [Some a] | None \<Rightarrow> resolve host) of
                          Inl e \<Rightarrow> (Inl (GuardWrap ''resolve dial destination'' e), [])
                        | Inr as \<Rightarrow>
                            if as = [] then (Inl (GuardMsg ''resolve dial destination: empty address set''), [])
                            else if list_ex (\<lambda>a. \<not> is_public_address (map_option unmap a)) as
                            then (Inl UnsafeDestination, [])
                            else dial_each dial network port [] (map (\<lambda>a. unmap (the a)) as))))))"

section \<open>Redirects\<close>

definition is_sensitive_header :: "gostring \<Rightarrow> bool" where
  "is_sensitive_header key =
     (let n = to_lower (trim_space key) in
      n \<in> set [''authorization'', ''proxy-authorization'', ''cookie'', ''cookie2'', ''referer'', ''origin'',
        ''x-api-key'', ''api-key''] \<or>
      list_ex (contains n) [''token'', ''session'', ''credential'', ''csrf'', ''xsrf'', ''secret'', ''apikey'',
        ''api-key'', ''auth'', ''signature''])"

definition strip_sensitive :: "header \<Rightarrow> header" where
  "strip_sensitive h = filter (\<lambda>(k, v). \<not> is_sensitive_header k) h"

definition same_origin :: "url \<Rightarrow> url \<Rightarrow> bool" where
  "same_origin l r \<longleftrightarrow> equal_fold (u_scheme l) (u_scheme r) \<and> equal_fold (u_host l) (u_host r)"

text \<open>
  The function \<open>CheckRedirect(maxRedirects)\<close> returns: \<open>via\<close> are the URLs of the requests made so
  far, the oldest first (None for a nil URL), \<open>req\<close> the URL and the header of the next one.
\<close>
definition check_redirect :: "idna \<Rightarrow> resolver \<Rightarrow> int \<Rightarrow> (url option \<times> header) option \<Rightarrow> url option list
    \<Rightarrow> guard_error option \<times> header" where
  "check_redirect idna resolve maxr req via =
     (let hdr = (case req of None \<Rightarrow> [] | Some (_, h) \<Rightarrow> h) in
      if maxr < 0 \<or> int (length via) > maxr then (Some RedirectLimit, hdr)
      else (case req of
          Some (Some u, _) \<Rightarrow>
            (case new_fetch_url idna (url_string u) of
               None \<Rightarrow> (Some UnsafeDestination, hdr)
             | Some target \<Rightarrow>
                 (case validate_target idna resolve False (Some target) of
                    Some e \<Rightarrow> (Some e, hdr)
                  | None \<Rightarrow>
                      if via \<noteq> [] \<and> \<not> (case last via of None \<Rightarrow> False | Some p \<Rightarrow> same_origin p u)
                      then (None, strip_sensitive hdr) else (None, hdr)))
        | _ \<Rightarrow> (Some InvalidFetchURL, hdr)))"

section \<open>Properties\<close>

lemma is_public_None [simp]: "\<not> is_public_address None"
  by (simp add: is_public_address_def)

lemma is_public_unmap [simp]: "is_public_address (Some (unmap a)) = is_public_address (Some a)"
  by (simp add: is_public_address_def)

lemma canonical_literal:
  assumes "parse_addr (trim_suffix (to_lower (trim_space raw)) ''.'') = Some a"
    and "canonical_host idna raw = Some host"
  shows "parse_addr host = Some (unmap a)"
  using assms by (auto simp: canonical_host_def Let_def parse_addr_string split: if_splits)

lemma url_host_scheme [simp]:
  "url_hostname (u\<lparr>u_scheme := s\<rparr>) = url_hostname u" "url_port (u\<lparr>u_scheme := s\<rparr>) = url_port u"
  by (simp_all add: url_hostname_def url_port_def)

definition default_port :: "gostring \<Rightarrow> gostring" where
  "default_port scheme = (if scheme = ''http'' then ''80'' else ''443'')"

lemma new_fetch_url_cases:
  assumes "new_fetch_url idna raw = Some t"
  obtains u host where "url_parse raw = Some u" "u_opaque u = []" "u_user u = None"
    "to_lower (u_scheme u) \<in> {''http'', ''https''}" "canonical_host idna (url_hostname u) = Some host"
    "\<not> private_literal host" "url_port u = [] \<or> url_port u = default_port (to_lower (u_scheme u))"
    "t = u\<lparr>u_scheme := to_lower (u_scheme u),
           u_host := (if url_port u \<noteq> [] then join_host_port host (url_port u)
                      else if host_is6 host then ''['' @ host @ '']'' else host), u_fragment := []\<rparr>"
proof -
  have "\<not> (trim_space raw \<noteq> raw \<or> raw = [] \<or> contains_any raw [CHR 0x0D, CHR 0x0A, CHR 0x00])"
    using assms unfolding new_fetch_url_def by (rule contrapos_pn) simp
  note a1 = assms [unfolded new_fetch_url_def if_not_P [OF this]]
  obtain u where u: "url_parse raw = Some u" using a1 by (cases "url_parse raw") simp_all
  have g2: "\<not> (u_opaque u \<noteq> [] \<or> u_host u = [])"
    using a1 unfolding u option.case by (rule contrapos_pn) simp
  define sc where "sc = to_lower (u_scheme u)"
  note a2 = a1 [unfolded u option.case if_not_P [OF g2] Let_def, folded sc_def]
  have g3: "sc \<in> {''http'', ''https''}" using a2 by (auto split: if_splits)
  have g4: "u_user u = None" using a2 by (cases "u_user u") (auto split: if_splits)
  obtain host where h: "canonical_host idna (url_hostname u) = Some host"
    using a2 by (cases "canonical_host idna (url_hostname u)") (auto split: if_splits)
  have g5: "url_port u = [] \<or> url_port u = default_port sc" and g6: "\<not> private_literal host"
    using a2 g3 g4 h by (auto simp: default_port_def split: if_splits)
  have t: "t = u\<lparr>u_scheme := sc,
           u_host := (if url_port u \<noteq> [] then join_host_port host (url_port u)
                      else if host_is6 host then ''['' @ host @ '']'' else host), u_fragment := []\<rparr>"
    using a2 g3 g4 g6 h by (auto split: if_splits)
  show thesis by (rule that [OF u _ g4 _ h g6]) (use g2 g3 g5 t in \<open>simp_all add: sc_def\<close>)
qed

text \<open>
  C7.  A fetch target never names a private address: a URL whose host is an IP literal, in whatever
  notation (upper case, leading or trailing space, a trailing dot, an IPv4 address inside IPv6, any
  IPv6 abbreviation), is accepted only if the address it denotes is public.
\<close>
theorem fetch_url_literal_public:
  assumes "new_fetch_url idna raw = Some target" and "url_parse raw = Some u"
    and "parse_addr (trim_suffix (to_lower (trim_space (url_hostname u))) ''.'') = Some a"
  shows "is_public_address (Some a)"
  using assms(1)
proof (cases rule: new_fetch_url_cases)
  case (1 u' host)
  then have "canonical_host idna (url_hostname u) = Some host" "\<not> private_literal host" using assms(2) by simp_all
  with canonical_literal [OF assms(3)] show ?thesis by (simp add: private_literal_def)
qed

lemma addr_string_nonempty: "addr_string (unmap a) \<noteq> []"
proof
  assume "addr_string (unmap a) = []"
  then have "parse_addr [] = Some (unmap a)" using parse_addr_string [of a] by simp
  then show False by (simp add: parse_addr_def)
qed

lemma canonical_host_nonempty: "canonical_host idna raw = Some host \<Longrightarrow> host \<noteq> []"
  by (auto simp: canonical_host_def Let_def addr_string_nonempty split: if_splits option.splits)

text \<open>
  The shape of a fetch target: http or https, no user, no opaque part, no fragment, a host, and
  no port but the default one of the scheme.
\<close>
theorem fetch_url_shape:
  assumes "new_fetch_url idna raw = Some t"
  shows "u_scheme t \<in> {''http'', ''https''} \<and> u_user t = None \<and> u_opaque t = [] \<and> u_fragment t = [] \<and>
    (\<exists>host. host \<noteq> [] \<and> u_host t \<in> {host, ''['' @ host @ '']'', join_host_port host (default_port (u_scheme t))})"
  using assms
proof (cases rule: new_fetch_url_cases)
  case (1 u host)
  have "host \<noteq> []" using canonical_host_nonempty [OF 1(5)] .
  then show ?thesis using 1 by (intro conjI exI [of _ host]) auto
qed

lemma dial_each_addresses:
  "p \<in> set (snd (dial_each dial network port errs as)) \<Longrightarrow> \<exists>a \<in> set as. p = join_host_port (addr_string a) port"
  by (induction dial network port errs as rule: dial_each.induct) (auto simp: Let_def split: sum.splits)

text \<open>Every branch of \<open>dial_context\<close> but the last dials nothing.\<close>

lemma dial_context_cases:
  obtains e where "dial_context idna resolve dial network address = (Inl e, [])"
  | host0 port n host as where "net_split_host_port address = Some (host0, port)" "go_atoi port = Some n"
    "1 \<le> n" "n \<le> 65535" "canonical_host idna host0 = Some host"
    "(case parse_addr host of Some a \<Rightarrow> Inr [Some a] | None \<Rightarrow> resolve host) = Inr as"
    "\<forall>a \<in> set as. is_public_address (map_option unmap a)"
    "dial_context idna resolve dial network address = dial_each dial network port [] (map (\<lambda>a. unmap (the a)) as)"
proof (cases "\<exists>e. dial_context idna resolve dial network address = (Inl e, [])")
  case True
  then show thesis using that(1) by blast
next
  case False
  have net: "\<not> (network \<noteq> ''tcp'' \<and> network \<noteq> ''tcp4'' \<and> network \<noteq> ''tcp6'')"
    using False unfolding dial_context_def by (rule contrapos_nn) simp
  note f1 = False [unfolded dial_context_def if_not_P [OF net]]
  obtain host0 port where hp: "net_split_host_port address = Some (host0, port)"
    using f1 by (cases "net_split_host_port address") auto
  note f2 = f1 [unfolded hp option.case prod.case]
  obtain n where n: "go_atoi port = Some n" using f2 by (cases "go_atoi port") auto
  note f3 = f2 [unfolded n option.case]
  have range: "1 \<le> n" "n \<le> 65535" using f3 by (auto split: if_splits)
  then have f4: "\<not> (n < 1 \<or> n > 65535)" by simp
  note f5 = f3 [unfolded if_not_P [OF f4]]
  obtain host where host: "canonical_host idna host0 = Some host"
    using f5 by (cases "canonical_host idna host0") auto
  let ?as = "case parse_addr host of Some a \<Rightarrow> Inr [Some a] | None \<Rightarrow> resolve host"
  note f6 = f5 [unfolded host option.case]
  obtain as where as: "?as = Inr as" using f6 by (cases ?as) auto
  note f7 = f6 [unfolded as sum.case]
  have all: "\<forall>a \<in> set as. is_public_address (map_option unmap a)" and ne: "as \<noteq> []"
    using f7 by (auto simp: list_ex_iff split: if_splits)
  have "\<not> list_ex (\<lambda>a. \<not> is_public_address (map_option unmap a)) as" using all by (simp add: list_ex_iff)
  then have "dial_context idna resolve dial network address = dial_each dial network port [] (map (\<lambda>a. unmap (the a)) as)"
    unfolding dial_context_def if_not_P [OF net] hp option.case prod.case n if_not_P [OF f4] host as sum.case
    using ne by simp
  then show thesis by (rule that(2) [OF hp n range host as all])
qed

text \<open>
  C6.  The validator dials only public addresses: whatever the resolver and the dialer answer, every
  address handed to the dialer is a public address with a port between 1 and 65535.
\<close>
theorem dial_only_public:
  "\<forall>p \<in> set (snd (dial_context idna resolve dial network address)).
    \<exists>a port n. is_public_address (Some a) \<and> p = join_host_port (addr_string a) port \<and>
      go_atoi port = Some n \<and> 1 \<le> n \<and> n \<le> 65535"
proof (cases rule: dial_context_cases [of idna resolve dial network address])
  case (1 e)
  then show ?thesis by simp
next
  case (2 host0 port n host as)
  show ?thesis
  proof
    fix p assume "p \<in> set (snd (dial_context idna resolve dial network address))"
    then obtain x where x: "x \<in> set as" "p = join_host_port (addr_string (unmap (the x))) port"
      using dial_each_addresses unfolding 2(8) by fastforce
    have pub: "is_public_address (map_option unmap x)" using 2(7) x(1) by blast
    then obtain b where "x = Some b" by (cases x) simp_all
    then have "is_public_address (Some (unmap b))" using pub by simp
    then show "\<exists>a port n. is_public_address (Some a) \<and> p = join_host_port (addr_string a) port \<and>
      go_atoi port = Some n \<and> 1 \<le> n \<and> n \<le> 65535"
      using x(2) \<open>x = Some b\<close> 2(2-4)
      by (intro exI [of _ "unmap b"] exI [of _ port] exI [of _ n]) simp
  qed
qed

text \<open>
  One bad answer of the resolver stops the dial: when the host is a name and any of the
  addresses it resolves to is not public, nothing is dialled and the call fails, however many public
  addresses the resolver returned besides (so a rebinding name cannot slip one through).
\<close>
theorem dial_all_or_nothing:
  assumes "net_split_host_port address = Some (host0, port)" and "canonical_host idna host0 = Some host"
    and "parse_addr host = None" and "resolve host = Inr as" and "a \<in> set as" and "\<not> is_public_address a"
  shows "snd (dial_context idna resolve dial network address) = [] \<and>
    (\<exists>e. fst (dial_context idna resolve dial network address) = Inl e)"
proof (cases rule: dial_context_cases [of idna resolve dial network address])
  case (1 e)
  then show ?thesis by simp
next
  case (2 host0' port' n host' as')
  then have "as' = as" using assms(1-4) by auto
  then have "is_public_address (map_option unmap a)" using 2(7) assms(5) by simp
  then show ?thesis using assms(6) by (cases a) simp_all
qed

lemma strip_sensitive_keys: "k \<in> set (keys (strip_sensitive h)) \<Longrightarrow> \<not> is_sensitive_header k"
  by (auto simp: strip_sensitive_def keys_def)

lemma check_redirect_None:
  assumes "check_redirect idna resolve maxr (Some (Some u, h)) via = (None, h')"
  obtains t where "int (length via) \<le> maxr" "new_fetch_url idna (url_string u) = Some t"
    "validate_host idna resolve (url_hostname t) = None"
    "h' = (if via \<noteq> [] \<and> \<not> (\<exists>p. last via = Some p \<and> same_origin p u) then strip_sensitive h else h)"
proof -
  have "\<not> (maxr < 0 \<or> int (length via) > maxr)"
    using assms by (auto simp: check_redirect_def split: if_splits)
  moreover obtain t where t: "new_fetch_url idna (url_string u) = Some t"
    using assms by (cases "new_fetch_url idna (url_string u)") (auto simp: check_redirect_def split: if_splits)
  moreover have "validate_host idna resolve (url_hostname t) = None"
    using assms t by (auto simp: check_redirect_def validate_target_def split: if_splits option.splits)
  moreover have "h' = (if via \<noteq> [] \<and> \<not> (\<exists>p. last via = Some p \<and> same_origin p u) then strip_sensitive h else h)"
    using assms t by (auto simp: check_redirect_def split: if_splits option.splits)
  ultimately show thesis using that by simp
qed

text \<open>
  C8.  A redirect that is followed stays inside the policy: it is within the limit, its target is a
  fetch URL whose host resolves to public addresses only, and when it leaves the origin of the last
  request no sensitive header (in any spelling of its key) goes along, while a redirect within the
  origin keeps the header as it is.
\<close>
theorem redirect_policy:
  assumes "check_redirect idna resolve maxr (Some (Some u, h)) via = (None, h')"
  shows "int (length via) \<le> maxr \<and>
    (\<exists>t. new_fetch_url idna (url_string u) = Some t \<and> validate_host idna resolve (url_hostname t) = None) \<and>
    (if via \<noteq> [] \<and> \<not> (\<exists>p. last via = Some p \<and> same_origin p u)
     then \<forall>k \<in> set (keys h'). \<not> is_sensitive_header k else h' = h)"
  using assms by (rule check_redirect_None) (auto dest: strip_sensitive_keys)

text \<open>
  What a passed validation means: the canonical host is a public literal, or a name of which
  every resolved address is public and at least one exists.
\<close>
theorem validate_host_public:
  assumes "validate_host idna resolve raw = None"
  shows "\<exists>host. canonical_host idna raw = Some host \<and>
    (case parse_addr host of
       Some a \<Rightarrow> is_public_address (Some a)
     | None \<Rightarrow> \<exists>as. resolve host = Inr as \<and> as \<noteq> [] \<and> (\<forall>a \<in> set as. is_public_address a))"
proof -
  obtain host where "canonical_host idna raw = Some host"
    using assms by (cases "canonical_host idna raw") (auto simp: validate_host_def)
  with assms show ?thesis
    by (cases "parse_addr host"; cases "resolve host") (auto simp: validate_host_def list_ex_iff split: if_splits)
qed

text \<open>
  A zone defeats the denied prefixes: \<open>netip.Prefix.Contains\<close> is false for an address with a
  zone and \<open>IsUnspecified\<close> compares the zone too, so the unspecified address and the NAT64 form of
  127.0.0.1 count as public as soon as a zone is attached, and \<open>http://[::%25lo]/\<close> is a fetch URL.
\<close>
theorem zone_defeats_prefixes:
  "\<not> is_public_address (Some (V6 0 [])) \<and> \<not> is_public_address (Some (V6 0x0064ff9b00000000000000007f000001 [])) \<and>
   is_public_address (Some (V6 0 ''lo'')) \<and> is_public_address (Some (V6 0x0064ff9b00000000000000007f000001 ''lo'')) \<and>
   (\<exists>t. new_fetch_url idna ''http://[::%25lo]/'' = Some t)"
proof -
  have lo: "is_public_address (Some (V6 0 ''lo''))"
    by (simp add: is_public_address_def unmap_def is_4in6_def is_loopback_def is_private_def
      is_link_local_unicast_def is_link_local_multicast_def is_multicast_def is_unspecified_def denied_prefixes_def)
  have "\<not> is_public_address (Some (V6 0 []))"
    by (simp add: is_public_address_def unmap_def is_4in6_def is_unspecified_def)
  moreover have "is_public_address (Some (V6 0x0064ff9b00000000000000007f000001 ''lo''))"
    by (simp add: is_public_address_def unmap_def is_4in6_def is_loopback_def is_private_def
      is_link_local_unicast_def is_link_local_multicast_def is_multicast_def is_unspecified_def denied_prefixes_def)
  moreover have "\<not> is_public_address (Some (V6 0x0064ff9b00000000000000007f000001 []))"
    by (simp add: is_public_address_def unmap_def is_4in6_def denied_prefixes_def Let_def)
  moreover have "\<exists>t. new_fetch_url idna ''http://[::%25lo]/'' = Some t"
  proof -
    let ?raw = "''http://[::%25lo]/''"
    have g: "\<not> (trim_space ?raw \<noteq> ?raw \<or> ?raw = [] \<or> contains_any ?raw [CHR 0x0D, CHR 0x0A, CHR 0x00])" by code_simp
    have p: "url_parse ?raw = Some (empty_url\<lparr>u_scheme := ''http'', u_host := ''[::%lo]'', u_path := ''/''\<rparr>)" by code_simp
    have h: "url_hostname (empty_url\<lparr>u_scheme := ''http'', u_host := ''[::%lo]'', u_path := ''/''\<rparr>) = ''::%lo''"
      "url_port (empty_url\<lparr>u_scheme := ''http'', u_host := ''[::%lo]'', u_path := ''/''\<rparr>) = []"
      "to_lower ''http'' = ''http''" by code_simp+
    have c: "trim_suffix (to_lower (trim_space ''::%lo'')) ''.'' = ''::%lo''"
      "contains_any ''::%lo'' [CHR 0x00, CHR ''/'', CHR 0x5C] = False" by code_simp+
    have a: "parse_addr ''::%lo'' = Some (V6 0 ''lo'')"
      by (simp add: parse_addr_def parse_ip6_def cut_at_def has_prefix_def)
    have u: "unmap (V6 0 ''lo'') = V6 0 ''lo''" by (simp add: unmap_def is_4in6_def)
    have "canonical_host idna ''::%lo'' = Some (addr_string (V6 0 ''lo''))"
      by (simp add: canonical_host_def c a u)
    moreover have "\<not> private_literal (addr_string (V6 0 ''lo''))"
      using parse_addr_string [of "V6 0 ''lo''"] lo by (simp add: private_literal_def u)
    ultimately show ?thesis
      unfolding new_fetch_url_def if_not_P [OF g] p option.case Let_def
      using h by (simp add: empty_url_def)
  qed
  ultimately show ?thesis using lo by blast
qed

section \<open>Concrete targets\<close>

text \<open>A host name with this conversion is its own ASCII form.\<close>
definition demo_idna :: idna where
  "demo_idna h = (if list_all (\<lambda>c. is_alnum c \<or> c \<in> set ''-.'') h then Some h else None)"

definition demo_resolver :: resolver where
  "demo_resolver h = (if h = ''rebind.example'' then Inr [Some (V4 (ip4_of 93 184 216 34)), Some (V4 (ip4_of 127 0 0 1))]
     else if h = ''ok.example'' then Inr [Some (V4 (ip4_of 93 184 216 34))] else Inl ''no such host'')"

definition demo_dialer :: "gostring dialer" where
  "demo_dialer network pinned = Inr pinned"

theorem fetch_url_literal_public_witness:
  "\<exists>t. new_fetch_url demo_idna ''HTTP://93.184.216.34.:80/x#f'' = Some t \<and>
    is_public_address (Some (V4 (ip4_of 93 184 216 34)))"
proof -
  have "new_fetch_url demo_idna ''HTTP://93.184.216.34.:80/x#f'' \<noteq> None" by code_simp
  then obtain t where t: "new_fetch_url demo_idna ''HTTP://93.184.216.34.:80/x#f'' = Some t" by blast
  have "map_option url_hostname (url_parse ''HTTP://93.184.216.34.:80/x#f'') = Some ''93.184.216.34.''" by code_simp
  then obtain u where u: "url_parse ''HTTP://93.184.216.34.:80/x#f'' = Some u" "url_hostname u = ''93.184.216.34.''" by auto
  have "parse_addr (trim_suffix (to_lower (trim_space ''93.184.216.34.'')) ''.'') = Some (V4 (ip4_of 93 184 216 34))"
    by code_simp
  with fetch_url_literal_public [OF t u(1)] t show ?thesis unfolding u(2) by blast
qed

theorem fetch_url_shape_witness:
  "\<exists>t. new_fetch_url demo_idna ''https://Ok.Example:443/a?b=1#f'' = Some t \<and> u_fragment t = []"
proof -
  have "new_fetch_url demo_idna ''https://Ok.Example:443/a?b=1#f'' \<noteq> None" by code_simp
  then obtain t where t: "new_fetch_url demo_idna ''https://Ok.Example:443/a?b=1#f'' = Some t" by blast
  from fetch_url_shape [OF t] t show ?thesis by blast
qed

theorem dial_all_or_nothing_witness:
  "snd (dial_context demo_idna demo_resolver demo_dialer ''tcp'' ''rebind.example:443'') = []"
proof -
  have a: "net_split_host_port ''rebind.example:443'' = Some (''rebind.example'', ''443'')"
    "canonical_host demo_idna ''rebind.example'' = Some ''rebind.example''" "parse_addr ''rebind.example'' = None"
    by code_simp+
  have r: "demo_resolver ''rebind.example'' = Inr [Some (V4 (ip4_of 93 184 216 34)), Some (V4 (ip4_of 127 0 0 1))]"
    by (simp add: demo_resolver_def)
  have "\<not> is_public_address (Some (V4 (ip4_of 127 0 0 1)))" by code_simp
  from dial_all_or_nothing [where resolve = demo_resolver and dial = demo_dialer and network = "''tcp''", OF a r _ this] show ?thesis by simp
qed

theorem redirect_policy_witness:
  "let u = the (url_parse ''https://ok.example/next''); p = the (url_parse ''https://first.example/'')
   in keys (snd (check_redirect demo_idna demo_resolver 3 (Some (Some u, [(''Accept'', [''*/*'']), (''cOOkie'', [''s=1''])])) [Some p]))
     = [''Accept'']"
proof -
  let ?u = "the (url_parse ''https://ok.example/next'')" and ?p = "the (url_parse ''https://first.example/'')"
  let ?h = "[(''Accept'', [''*/*'']), (''cOOkie'', [''s=1''])]"
  let ?r = "check_redirect demo_idna demo_resolver 3 (Some (Some ?u, ?h)) [Some ?p]"
  have "case ?r of (e, h) \<Rightarrow> e = None \<and> keys h = [''Accept'']" by code_simp
  then have k: "fst ?r = None \<and> keys (snd ?r) = [''Accept'']" by (simp add: case_prod_beta)
  then have "?r = (None, snd ?r)" by (metis prod.collapse)
  from redirect_policy [OF this] k show ?thesis by (simp add: Let_def)
qed

theorem validate_host_public_witness:
  "\<exists>as. demo_resolver ''ok.example'' = Inr as \<and> (\<forall>a \<in> set as. is_public_address a)"
proof -
  have v: "validate_host demo_idna demo_resolver '' OK.example.'' = None" by code_simp
  have c: "canonical_host demo_idna '' OK.example.'' = Some ''ok.example''" "parse_addr ''ok.example'' = None" by code_simp+
  from validate_host_public [OF v] c show ?thesis by auto
qed

theorem dial_only_public_witness:
  "let r = dial_context demo_idna demo_resolver demo_dialer ''tcp'' ''Ok.example:443''
   in snd r = [''93.184.216.34:443''] \<and> (\<exists>a. is_public_address (Some a) \<and> (\<exists>port. ''93.184.216.34:443'' = join_host_port (addr_string a) port))"
proof -
  have d: "snd (dial_context demo_idna demo_resolver demo_dialer ''tcp'' ''Ok.example:443'') = [''93.184.216.34:443'']"
    by code_simp
  from dial_only_public [of demo_idna demo_resolver demo_dialer "''tcp''" "''Ok.example:443''"] d
  show ?thesis by (auto simp: Let_def)
qed

end
