(* ===== verification/NetAuthority.thy ===== *)
theory NetAuthority imports
  NetGuard
begin

text \<open>
  \<open>internal/netguard/authority.go\<close>: which owner (a platform parser) may talk to which host for which
  purpose, and with which headers.
\<close>

section \<open>Rules\<close>

type_synonym authority_purpose = gostring

definition purpose_media_candidate :: authority_purpose where
  "purpose_media_candidate = ''media_candidate''"

record authority_rule =
  ar_purpose :: authority_purpose
  ar_host :: gostring
  ar_subdomains :: bool
  ar_dynamic :: bool
  ar_sensitive :: bool

type_synonym authority_owner = "gostring \<times> authority_rule list"
type_synonym authority_registry = "(gostring, authority_rule list) gomap"

definition rule_matches_host :: "authority_rule \<Rightarrow> gostring \<Rightarrow> bool" where
  "rule_matches_host r host \<longleftrightarrow>
     ar_dynamic r \<or> host = ar_host r \<or> (ar_subdomains r \<and> has_suffix host (''.'' @ ar_host r))"

definition rules_overlap :: "authority_rule \<Rightarrow> authority_rule \<Rightarrow> bool" where
  "rules_overlap l r \<longleftrightarrow> \<not> (ar_dynamic l \<or> ar_dynamic r \<or> ar_purpose l \<noteq> ar_purpose r) \<and>
     (rule_matches_host l (ar_host r) \<or> rule_matches_host r (ar_host l))"

definition normalize_rule :: "idna \<Rightarrow> authority_rule \<Rightarrow> guard_error + authority_rule" where
  "normalize_rule idna r =
     (if ar_purpose r = [] then Inl AuthorityDenied
      else if ar_dynamic r then
        (if ar_purpose r \<noteq> purpose_media_candidate \<or> trim_space (ar_host r) \<noteq> [] \<or> ar_subdomains r \<or> ar_sensitive r
         then Inl AuthorityDenied else Inr r)
      else (case canonical_host idna (ar_host r) of
          None \<Rightarrow> Inl AuthorityDenied
        | Some host \<Rightarrow> Inr (r\<lparr>ar_host := host\<rparr>)))"

section \<open>The registry\<close>

text \<open>The rules of one owner, against the rules seen so far with their owners.\<close>
fun add_rules :: "idna \<Rightarrow> gostring \<Rightarrow> authority_rule list \<Rightarrow> (gostring \<times> authority_rule) list
    \<Rightarrow> guard_error + (authority_rule list \<times> (gostring \<times> authority_rule) list)" where
  "add_rules idna name [] seen = Inr ([], seen)"
| "add_rules idna name (r # rs) seen =
     rbind (normalize_rule idna r) (\<lambda>n.
       if list_ex (\<lambda>(o', p). o' \<noteq> name \<and> rules_overlap p n) seen then Inl AuthorityAmbiguous
       else rbind (add_rules idna name rs (seen @ [(name, n)])) (\<lambda>(ns, seen'). Inr (n # ns, seen')))"

fun add_owners :: "idna \<Rightarrow> authority_owner list \<Rightarrow> authority_registry \<Rightarrow> (gostring \<times> authority_rule) list
    \<Rightarrow> guard_error + authority_registry" where
  "add_owners idna [] reg seen = Inr reg"
| "add_owners idna ((owner, rules) # os) reg seen =
     (let name = to_lower (trim_space owner) in
      if name = [] then Inl AuthorityDenied
      else if map_of reg name \<noteq> None then Inl AuthorityAmbiguous
      else rbind (add_rules idna name rules seen)
        (\<lambda>(ns, seen'). add_owners idna os (AList.update name ns reg) seen'))"

definition new_authority_registry :: "idna \<Rightarrow> authority_owner list \<Rightarrow> guard_error + authority_registry" where
  "new_authority_registry idna owners = add_owners idna owners [] []"

section \<open>Authorization\<close>

record authority_request =
  aq_owner :: gostring
  aq_purpose :: authority_purpose
  aq_url :: "url option"
  aq_header :: header

record authority_decision =
  ad_owner :: gostring
  ad_purpose :: authority_purpose
  ad_host :: gostring
  ad_header :: header

definition claimed_by_other_purpose :: "authority_rule list \<Rightarrow> authority_rule \<Rightarrow> gostring \<Rightarrow> bool" where
  "claimed_by_other_purpose rules m host =
     (if \<not> ar_dynamic m \<and> ar_host m = host then False
      else list_ex (\<lambda>r. \<not> (ar_dynamic r \<or> ar_purpose r = ar_purpose m) \<and> ar_host r = host) rules)"

definition authorize :: "idna \<Rightarrow> authority_registry \<Rightarrow> authority_request \<Rightarrow> guard_error + authority_decision" where
  "authorize idna reg q =
     rbind (or_error AuthorityDenied (aq_url q)) (\<lambda>u.
       let owner = to_lower (trim_space (aq_owner q)) in
       if owner = [] \<or> aq_purpose q = [] then Inl AuthorityDenied
       else rbind (or_error AuthorityDenied (canonical_host idna (url_hostname u))) (\<lambda>host.
         let rules = get_or [] reg owner in
         (case find (\<lambda>r. ar_purpose r = aq_purpose q \<and> rule_matches_host r host) rules of
            None \<Rightarrow> Inl AuthorityDenied
          | Some r \<Rightarrow>
              if claimed_by_other_purpose rules r host then Inl AuthorityDenied
              else Inr \<lparr>ad_owner = owner, ad_purpose = aq_purpose q, ad_host = host,
                ad_header = (if \<not> ar_sensitive r then strip_sensitive (aq_header q) else aq_header q)\<rparr>)))"

definition authorize_redirect :: "idna \<Rightarrow> authority_registry \<Rightarrow> authority_decision \<Rightarrow> authority_request
    \<Rightarrow> guard_error + authority_decision" where
  "authorize_redirect idna reg prev next =
     (if trim_space (ad_owner prev) = [] \<or> ad_purpose prev = [] then Inl AuthorityDenied
      else if to_lower (trim_space (aq_owner next)) \<noteq> ad_owner prev \<or> aq_purpose next \<noteq> ad_purpose prev
      then Inl AuthorityDenied
      else authorize idna reg next)"

section \<open>No host has two owners\<close>

lemma has_suffix_append: "has_suffix s p \<longleftrightarrow> (\<exists>t. s = t @ p)"
proof -
  have "rev s = rev p @ t \<longleftrightarrow> s = rev t @ p" for t by (metis rev_append rev_rev_ident)
  then show ?thesis unfolding has_suffix_def has_prefix_append by (metis rev_rev_ident)
qed

lemma dot_suffix_cases:
  assumes "x @ ''.'' @ a = y @ ''.'' @ b"
  shows "a = b \<or> has_suffix a (''.'' @ b) \<or> has_suffix b (''.'' @ a)"
proof -
  have one: "c = d \<or> has_suffix c (''.'' @ d)" if e: "''.'' @ c = u @ ''.'' @ d" for u c d
  proof (cases u)
    case Nil
    with e show ?thesis by simp
  next
    case (Cons z v)
    with e have "c = v @ ''.'' @ d" by simp
    then show ?thesis unfolding has_suffix_append by blast
  qed
  from assms obtain u where "x @ u = y \<and> ''.'' @ a = u @ ''.'' @ b \<or> x = y @ u \<and> u @ ''.'' @ a = ''.'' @ b"
    unfolding append_eq_append_conv2 by metis
  then show ?thesis using one [of a u b] one [of b u a] by metis
qed

text \<open>Two rules that match a common host overlap.\<close>

lemma common_host_overlap:
  assumes "rule_matches_host l h" and "rule_matches_host r h"
    and "\<not> ar_dynamic l" and "\<not> ar_dynamic r" and "ar_purpose l = ar_purpose r"
  shows "rules_overlap l r"
proof -
  consider "h = ar_host l" | "h = ar_host r"
    | x y where "h = x @ ''.'' @ ar_host l" "h = y @ ''.'' @ ar_host r" "ar_subdomains l" "ar_subdomains r"
    using assms(1-4) unfolding rule_matches_host_def has_suffix_append by blast
  then show ?thesis
  proof cases
    case 3
    have "ar_host l = ar_host r \<or> has_suffix (ar_host l) (''.'' @ ar_host r) \<or> has_suffix (ar_host r) (''.'' @ ar_host l)"
      by (rule dot_suffix_cases [of x _ y]) (use 3(1,2) in \<open>rule trans [OF sym]\<close>)
    then show ?thesis using 3(3,4) assms(3-5) unfolding rules_overlap_def rule_matches_host_def by metis
  qed (use assms in \<open>auto simp: rules_overlap_def\<close>)
qed

lemma rules_overlap_sym: "rules_overlap l r = rules_overlap r l"
  by (auto simp: rules_overlap_def)

text \<open>Seen rules of different owners do not overlap.\<close>
definition seen_ok :: "(gostring \<times> authority_rule) list \<Rightarrow> bool" where
  "seen_ok seen \<longleftrightarrow> (\<forall>(a, l) \<in> set seen. \<forall>(b, r) \<in> set seen. a \<noteq> b \<longrightarrow> \<not> rules_overlap l r)"

definition rule_ok :: "authority_rule \<Rightarrow> bool" where
  "rule_ok r \<longleftrightarrow> ar_purpose r \<noteq> [] \<and> (ar_dynamic r \<longrightarrow> ar_purpose r = purpose_media_candidate \<and> \<not> ar_sensitive r)"

lemma normalize_rule_ok: "normalize_rule idna r = Inr n \<Longrightarrow> rule_ok n"
  by (auto simp: normalize_rule_def rule_ok_def split: if_splits option.splits)

lemma seen_ok_snoc:
  assumes "seen_ok seen" and "\<not> list_ex (\<lambda>(o', p). o' \<noteq> name \<and> rules_overlap p n) seen"
  shows "seen_ok (seen @ [(name, n)])"
  using assms by (auto simp: seen_ok_def list_ex_iff rules_overlap_sym [of n])

lemma add_rules_spec:
  assumes "add_rules idna name rs seen = Inr (ns, seen')" and "seen_ok seen"
  shows "seen_ok seen' \<and> seen' = seen @ map (Pair name) ns \<and> (\<forall>n \<in> set ns. rule_ok n)"
  using assms
proof (induction rs arbitrary: seen ns)
  case (Cons r rs)
  then obtain n ms where n: "normalize_rule idna r = Inr n"
    and no: "\<not> list_ex (\<lambda>(o', p). o' \<noteq> name \<and> rules_overlap p n) seen"
    and rest: "add_rules idna name rs (seen @ [(name, n)]) = Inr (ms, seen')" and ns: "ns = n # ms"
    by (auto simp: go_errors split: if_splits)
  have IH: "seen_ok seen'" "seen' = (seen @ [(name, n)]) @ map (Pair name) ms" "\<forall>m \<in> set ms. rule_ok m"
    using Cons.IH [OF rest seen_ok_snoc [OF Cons.prems(2) no]] by blast+
  show ?case
    by (intro conjI IH(1)) (use IH(2,3) normalize_rule_ok [OF n] in \<open>simp_all add: ns\<close>)
qed simp

definition registry_ok :: "authority_registry \<Rightarrow> (gostring \<times> authority_rule) list \<Rightarrow> bool" where
  "registry_ok reg seen \<longleftrightarrow> seen_ok seen \<and>
     (\<forall>name rs r. map_of reg name = Some rs \<longrightarrow> r \<in> set rs \<longrightarrow> (name, r) \<in> set seen \<and> rule_ok r)"

lemma add_owners_spec:
  "add_owners idna os reg seen = Inr reg' \<Longrightarrow> registry_ok reg seen \<Longrightarrow> \<exists>seen'. registry_ok reg' seen'"
proof (induction idna os reg seen rule: add_owners.induct)
  case (1 idna reg seen)
  then show ?case by auto
next
  case (2 idna owner rules os reg seen)
  let ?name = "to_lower (trim_space owner)"
  obtain ns seen' where r: "add_rules idna ?name rules seen = Inr (ns, seen')"
    and rest: "add_owners idna os (AList.update ?name ns reg) seen' = Inr reg'"
    and c: "?name \<noteq> []" "map_of reg ?name = None"
    using 2(2) by (auto simp: Let_def go_errors split: if_splits)
  have "registry_ok (AList.update ?name ns reg) seen'"
    using add_rules_spec [OF r] 2(3) by (fastforce simp: registry_ok_def)
  with rest show ?case using 2(1) [OF refl c(1), of ns seen'] c(2) by simp
qed

lemma new_registry_ok: "new_authority_registry idna owners = Inr reg \<Longrightarrow> \<exists>seen. registry_ok reg seen"
  unfolding new_authority_registry_def
  by (erule add_owners_spec) (simp add: registry_ok_def seen_ok_def)

text \<open>What stands behind a decision.\<close>

lemma authorize_Inr:
  assumes "authorize idna reg q = Inr d"
  obtains u r rs where "aq_url q = Some u" "canonical_host idna (url_hostname u) = Some (ad_host d)"
    "map_of reg (ad_owner d) = Some rs" "r \<in> set rs" "ar_purpose r = aq_purpose q" "rule_matches_host r (ad_host d)"
    "ad_purpose d = aq_purpose q" "ad_owner d = to_lower (trim_space (aq_owner q))" "aq_purpose q \<noteq> []"
    "ad_header d = (if ar_sensitive r then aq_header q else strip_sensitive (aq_header q))"
    "\<not> claimed_by_other_purpose rs r (ad_host d)"
proof -
  let ?o = "to_lower (trim_space (aq_owner q))"
  obtain u host r where u: "aq_url q = Some u" "canonical_host idna (url_hostname u) = Some host"
    and f: "find (\<lambda>r. ar_purpose r = aq_purpose q \<and> rule_matches_host r host) (get_or [] reg ?o) = Some r"
    and d: "d = \<lparr>ad_owner = ?o, ad_purpose = aq_purpose q, ad_host = host,
                ad_header = (if \<not> ar_sensitive r then strip_sensitive (aq_header q) else aq_header q)\<rparr>"
    and p: "aq_purpose q \<noteq> []" "\<not> claimed_by_other_purpose (get_or [] reg ?o) r host"
    using assms unfolding authorize_def Let_def go_errors
    by (elim exE conjE) (split option.splits; simp add: go_errors; blast)
  have r: "r \<in> set (get_or [] reg ?o)" "ar_purpose r = aq_purpose q" "rule_matches_host r host"
    using f by (auto simp: find_Some_iff)
  then have "map_of reg ?o \<noteq> None" by (cases "map_of reg ?o") (simp_all add: get_or_def)
  then obtain rs where "map_of reg ?o = Some rs" by blast
  then show thesis using that [of u rs r] u r d p by (simp add: get_or_Some)
qed

text \<open>
  C11.  A host belongs to one owner: with a registry that was accepted, two requests for the same
  host and the same purpose (other than that of public media candidates) are authorized only for the
  same owner.
\<close>
theorem authority_unique_owner:
  assumes "new_authority_registry idna owners = Inr reg"
    and "authorize idna reg q1 = Inr d1" and "authorize idna reg q2 = Inr d2"
    and "ad_host d1 = ad_host d2" and "ad_purpose d1 = ad_purpose d2" and "ad_purpose d1 \<noteq> purpose_media_candidate"
  shows "ad_owner d1 = ad_owner d2"
proof (rule ccontr)
  assume ne: "ad_owner d1 \<noteq> ad_owner d2"
  obtain seen where ok: "registry_ok reg seen" using new_registry_ok [OF assms(1)] ..
  obtain r1 rs1 where 1: "map_of reg (ad_owner d1) = Some rs1" "r1 \<in> set rs1" "ar_purpose r1 = ad_purpose d1"
      "rule_matches_host r1 (ad_host d1)"
    using authorize_Inr [OF assms(2)] by metis
  obtain r2 rs2 where 2: "map_of reg (ad_owner d2) = Some rs2" "r2 \<in> set rs2" "ar_purpose r2 = ad_purpose d2"
      "rule_matches_host r2 (ad_host d2)"
    using authorize_Inr [OF assms(3)] by metis
  have s: "(ad_owner d1, r1) \<in> set seen" "(ad_owner d2, r2) \<in> set seen" "rule_ok r1" "rule_ok r2"
    using ok 1(1,2) 2(1,2) by (auto simp: registry_ok_def)
  then have "\<not> ar_dynamic r1" "\<not> ar_dynamic r2" using 1(3) 2(3) assms(5,6) by (auto simp: rule_ok_def)
  then have "rules_overlap r1 r2" using common_host_overlap 1 2 assms(4,5) by auto
  then show False using ok s ne by (auto simp: registry_ok_def seen_ok_def)
qed

text \<open>
  An authorized request goes to a host one of the owner's rules for that purpose names, and
  takes sensitive headers along only when that rule allows them; a rule for dynamic public hosts never
  does.
\<close>
theorem authority_headers:
  assumes "new_authority_registry idna owners = Inr reg" and "authorize idna reg q = Inr d"
  shows "(\<exists>rs. \<exists>r \<in> set rs. map_of reg (ad_owner d) = Some rs \<and> ar_purpose r = ad_purpose d \<and>
      rule_matches_host r (ad_host d) \<and>
      (ad_header d = aq_header q \<and> ar_sensitive r \<and> \<not> ar_dynamic r \<or> (\<forall>k \<in> set (keys (ad_header d)). \<not> is_sensitive_header k)))"
proof -
  obtain seen where ok: "registry_ok reg seen" using new_registry_ok [OF assms(1)] ..
  obtain u r rs where r: "map_of reg (ad_owner d) = Some rs" "r \<in> set rs" "ar_purpose r = aq_purpose q"
    "rule_matches_host r (ad_host d)" "ad_purpose d = aq_purpose q"
    "ad_header d = (if ar_sensitive r then aq_header q else strip_sensitive (aq_header q))"
    using authorize_Inr [OF assms(2)] by metis
  have "rule_ok r" using ok r(1,2) by (auto simp: registry_ok_def)
  then show ?thesis using r strip_sensitive_keys
    by (intro exI [of _ rs] bexI [of _ r]) (auto simp: rule_ok_def)
qed

section \<open>A concrete registry\<close>

definition demo_rule :: "gostring \<Rightarrow> gostring \<Rightarrow> bool \<Rightarrow> authority_rule" where
  "demo_rule p h sub = \<lparr>ar_purpose = p, ar_host = h, ar_subdomains = sub, ar_dynamic = False, ar_sensitive = False\<rparr>"

definition demo_owners :: "authority_owner list" where
  "demo_owners = [('' Douyin '', [demo_rule ''metadata_api'' ''Douyin.com'' True]),
     (''weibo'', [demo_rule ''metadata_api'' ''weibo.com'' False])]"

definition demo_request_for :: "gostring \<Rightarrow> authority_request" where
  "demo_request_for owner = \<lparr>aq_owner = owner, aq_purpose = ''metadata_api'',
     aq_url = new_fetch_url demo_idna ''https://www.douyin.com/x'',
     aq_header = [(''Accept'', [''*/*'']), (''X-Auth'', [''t''])]\<rparr>"

lemma demo_registry:
  obtains reg d where "new_authority_registry demo_idna demo_owners = Inr reg"
    "authorize demo_idna reg (demo_request_for ''douyin'') = Inr d" "ad_host d = ''www.douyin.com''"
    "ad_owner d = ''douyin''" "ad_purpose d = ''metadata_api''" "keys (ad_header d) = [''Accept'']"
proof -
  have "(case new_authority_registry demo_idna demo_owners of
      Inr reg \<Rightarrow> (case authorize demo_idna reg (demo_request_for ''douyin'') of
         Inr d \<Rightarrow> ad_host d = ''www.douyin.com'' \<and> ad_owner d = ''douyin'' \<and> ad_purpose d = ''metadata_api'' \<and>
           keys (ad_header d) = [''Accept'']
       | _ \<Rightarrow> False) | _ \<Rightarrow> False)" by code_simp
  then show thesis using that by (auto split: sum.splits)
qed

theorem authority_unique_owner_witness:
  "\<exists>reg d. new_authority_registry demo_idna demo_owners = Inr reg \<and>
     authorize demo_idna reg (demo_request_for ''douyin'') = Inr d \<and>
     (\<forall>d'. authorize demo_idna reg (demo_request_for ''weibo'') \<noteq> Inr d' \<or> ad_host d' \<noteq> ad_host d \<or> ad_owner d' = ''douyin'')"
proof -
  obtain reg d where d: "new_authority_registry demo_idna demo_owners = Inr reg"
    "authorize demo_idna reg (demo_request_for ''douyin'') = Inr d" "ad_owner d = ''douyin''" "ad_purpose d = ''metadata_api''"
    by (rule demo_registry)
  have "ad_owner d' = ''douyin''" if "authorize demo_idna reg (demo_request_for ''weibo'') = Inr d'" "ad_host d' = ad_host d" for d'
  proof -
    have "ad_purpose d' = ''metadata_api''" using authorize_Inr [OF that(1)] by (metis authority_request.select_convs(2) demo_request_for_def)
    with authority_unique_owner [OF d(1,2) that(1)] that(2) d(3,4)
    show ?thesis by (simp add: purpose_media_candidate_def)
  qed
  then show ?thesis using d(1,2) by blast
qed

theorem authority_headers_witness:
  "\<exists>reg d. authorize demo_idna reg (demo_request_for ''douyin'') = Inr d \<and>
     (\<forall>k \<in> set (keys (ad_header d)). \<not> is_sensitive_header k)"
proof -
  obtain reg d where d: "new_authority_registry demo_idna demo_owners = Inr reg"
    "authorize demo_idna reg (demo_request_for ''douyin'') = Inr d" "keys (ad_header d) = [''Accept'']"
    by (rule demo_registry)
  have "ad_header d \<noteq> aq_header (demo_request_for ''douyin'')"
    using d(3) by (auto simp: demo_request_for_def keys_def)
  with authority_headers [OF d(1,2)] d(2) show ?thesis by blast
qed

end

