(* ===== verification/NetTransport.thy ===== *)
theory NetTransport imports
  NetGuard
begin

text \<open>
  \<open>internal/netguard/transport.go\<close>: the guarded HTTP client.  What \<open>net/http\<close> does with a request
  (\<open>Client.Do\<close>, the base transport) and \<open>compress/gzip\<close> are arguments; the checks around them, the
  limits and the readers that enforce the limits are the definitions here.

  Sizes are integers; the bounds \<open>remaining + 1\<close> of the readers do not wrap, since limits are far
  below \<open>2 ^ 63 - 1\<close>.
\<close>

section \<open>Limits\<close>

record limits =
  l_header :: int
  l_wire :: int
  l_decoded :: int
  l_duration :: duration

definition default_limits :: limits where
  "default_limits = \<lparr>l_header = 64 * 1024, l_wire = 16 * 1048576, l_decoded = 32 * 1048576, l_duration = 20 * second\<rparr>"

record 'v fetcher =
  f_validator :: 'v
  f_limits :: limits

definition new_fetcher :: "'v option \<Rightarrow> limits \<Rightarrow> guard_error + 'v fetcher" where
  "new_fetcher validator ls =
     (case validator of
        None \<Rightarrow> Inl (GuardMsg ''netguard validator is required'')
      | Some v \<Rightarrow>
          if l_header ls \<le> 0 \<or> l_wire ls \<le> 0 \<or> l_decoded ls \<le> 0 \<or> l_duration ls \<le> 0
          then Inl (GuardMsg ''all netguard limits must be positive'')
          else Inr \<lparr>f_validator = v, f_limits = ls\<rparr>)"

section \<open>Headers\<close>

text \<open>\<open>Get\<close> and \<open>Del\<close> for a key in canonical spelling.\<close>
definition header_get :: "header \<Rightarrow> gostring \<Rightarrow> gostring" where
  "header_get h k = (case get_or [] h k of [] \<Rightarrow> [] | v # _ \<Rightarrow> v)"

text \<open>\<open>CanonicalMIMEHeaderKey\<close> and \<open>Add\<close>.\<close>
fun canonical_rest :: "bool \<Rightarrow> gostring \<Rightarrow> gostring" where
  "canonical_rest up [] = []"
| "canonical_rest up (c # s) = (if up then upper_char c else lower_char c) # canonical_rest (c = CHR ''-'') s"

definition canonical_key :: "gostring \<Rightarrow> gostring" where
  "canonical_key k = (if list_all token_char k then canonical_rest True k else k)"

definition header_add :: "gostring \<Rightarrow> gostring \<Rightarrow> header \<Rightarrow> header" where
  "header_add k v h = (let c = canonical_key k in AList.update c (get_or [] h c @ [v]) h)"

definition header_bytes :: "header \<Rightarrow> int" where
  "header_bytes h = 2 + sum_list (map (\<lambda>(k, vs). sum_list (map (\<lambda>v. int (length k) + 2 + int (length v) + 2) vs)) h)"

definition contains_key_fold :: "header \<Rightarrow> gostring \<Rightarrow> bool" where
  "contains_key_fold h k \<longleftrightarrow> list_ex (\<lambda>x. equal_fold x k) (keys h)"

section \<open>Readers\<close>

text \<open>
  An \<open>io.Reader\<close>: asked for at most \<open>n\<close> bytes it answers bytes, perhaps an error, and its next
  state.
\<close>
type_synonym 'r reader = "nat \<Rightarrow> 'r \<Rightarrow> (gostring \<times> guard_error option) \<times> 'r"

fun reads :: "'r reader \<Rightarrow> nat list \<Rightarrow> 'r \<Rightarrow> gostring \<times> 'r" where
  "reads rd [] r = ([], r)"
| "reads rd (n # ns) r =
     (let ((d, _), r1) = rd n r; (ds, r2) = reads rd ns r1 in (d @ ds, r2))"

text \<open>The contract of \<open>io.Reader\<close>, over the bytes a state still has to give.\<close>

locale io_reader =
  fixes rd :: "'r reader" and content :: "'r \<Rightarrow> gostring"
  assumes read_law: "rd n r = ((d, e), r') \<Longrightarrow> length d \<le> n \<and> content r = d @ content r'"
begin

lemma reads_content: "content r = fst (reads rd ns r) @ content (snd (reads rd ns r))"
proof (induction ns arbitrary: r)
  case (Cons n ns)
  obtain d e r' where r: "rd n r = ((d, e), r')" by (metis surj_pair)
  then have "content r = d @ content r'" using read_law by blast
  then show ?case using Cons [of r'] r by (simp add: split_beta Let_def)
qed simp

lemma reads_prefix: "\<exists>t. content r = fst (reads rd ns r) @ t"
  using reads_content by blast

end

subsection \<open>The limited reader\<close>

record 'r limited =
  lr_reader :: 'r
  lr_remaining :: int
  lr_exceeded :: bool

definition lr_read :: "'r reader \<Rightarrow> 'r limited reader" where
  "lr_read rd n lr =
     (if lr_exceeded lr then (([], Some ResponseTooLarge), lr)
      else if lr_remaining lr < 0 then (([], Some ResponseTooLarge), lr\<lparr>lr_exceeded := True\<rparr>)
      else
        let limit = (if int n > lr_remaining lr + 1 then lr_remaining lr + 1 else int n);
            ((d, e), r') = rd (nat limit) (lr_reader lr)
        in if int (length d) > lr_remaining lr
           then (let allowed = nat (lr_remaining lr) in
                 ((if allowed > 0 then take allowed d else [], Some ResponseTooLarge),
                  lr\<lparr>lr_reader := r', lr_remaining := -1, lr_exceeded := True\<rparr>))
           else ((d, e), lr\<lparr>lr_reader := r', lr_remaining := lr_remaining lr - int (length d)\<rparr>))"

definition limit_reader :: "'r \<Rightarrow> int \<Rightarrow> 'r limited" where
  "limit_reader r n = \<lparr>lr_reader = r, lr_remaining = n, lr_exceeded = False\<rparr>"

definition lr_budget :: "'r limited \<Rightarrow> nat" where
  "lr_budget lr = (if lr_exceeded lr then 0 else nat (lr_remaining lr))"

lemma lr_read_budget:
  assumes "lr_read rd n lr = ((d, e), lr')"
  shows "length d + lr_budget lr' \<le> lr_budget lr"
proof (cases "lr_exceeded lr \<or> lr_remaining lr < 0")
  case True
  then show ?thesis using assms by (auto simp: lr_read_def lr_budget_def split: if_splits)
next
  case False
  define limit where "limit = (if int n > lr_remaining lr + 1 then lr_remaining lr + 1 else int n)"
  obtain x f r' where r: "rd (nat limit) (lr_reader lr) = ((x, f), r')" by (metis surj_pair)
  show ?thesis using False assms r
    by (auto simp: lr_read_def lr_budget_def limit_def [symmetric] Let_def split: if_splits)
qed

lemma lr_reads_budget: "length (fst (reads (lr_read rd) ns lr)) \<le> lr_budget lr"
proof (induction ns arbitrary: lr)
  case (Cons n ns)
  obtain d e r' where r: "lr_read rd n lr = ((d, e), r')" by (metis surj_pair)
  show ?case using Cons [of r'] lr_read_budget [OF r] r by (simp add: split_beta Let_def)
qed simp

text \<open>A limited reader keeps the contract, on what the limit leaves of the content.\<close>

context io_reader begin

definition lr_content :: "'r limited \<Rightarrow> gostring" where
  "lr_content lr = take (lr_budget lr) (content (lr_reader lr))"

lemma lr_read_law:
  assumes "lr_read rd n lr = ((d, e), lr')"
  shows "length d \<le> n \<and> lr_content lr = d @ lr_content lr'"
proof (cases "lr_exceeded lr \<or> lr_remaining lr < 0")
  case True
  then show ?thesis using assms by (auto simp: lr_read_def lr_content_def lr_budget_def split: if_splits)
next
  case False
  define limit where "limit = (if int n > lr_remaining lr + 1 then lr_remaining lr + 1 else int n)"
  obtain x f r' where r: "rd (nat limit) (lr_reader lr) = ((x, f), r')" by (metis surj_pair)
  have x: "length x \<le> nat limit" "content (lr_reader lr) = x @ content r'" using read_law [OF r] by blast+
  have "limit \<le> int n" by (simp add: limit_def)
  then have n: "length x \<le> n" using x(1) by linarith
  show ?thesis
  proof (cases "int (length x) > lr_remaining lr")
    case True
    then have "d = take (nat (lr_remaining lr)) x" "lr_budget lr' = 0"
      using False assms r by (auto simp: lr_read_def lr_budget_def limit_def [symmetric] Let_def split: if_splits)
    moreover have "lr_budget lr = nat (lr_remaining lr)" using False by (simp add: lr_budget_def)
    ultimately show ?thesis using x n True False by (simp add: lr_content_def)
  next
    case small: False
    then have "d = x" "lr_reader lr' = r'" "lr_budget lr' = nat (lr_remaining lr) - length x"
      using False assms r by (auto simp: lr_read_def lr_budget_def limit_def [symmetric] Let_def)
    moreover have "lr_budget lr = nat (lr_remaining lr)" using False by (simp add: lr_budget_def)
    ultimately show ?thesis using x(2) n small False by (simp add: lr_content_def)
  qed
qed

lemma limited_reader: "io_reader (lr_read rd) lr_content"
  by unfold_locales (rule lr_read_law)

text \<open>It complains of the size only when the content is longer than the limit.\<close>

lemma lr_too_large:
  assumes "lr_read rd n lr = ((d, Some ResponseTooLarge), lr')" and "\<not> lr_exceeded lr" and "lr_remaining lr \<ge> 0"
    and "\<And>m r x r'. rd m r \<noteq> ((x, Some ResponseTooLarge), r')"
  shows "int (length (content (lr_reader lr))) > lr_remaining lr"
proof -
  define limit where "limit = (if int n > lr_remaining lr + 1 then lr_remaining lr + 1 else int n)"
  obtain x f r' where r: "rd (nat limit) (lr_reader lr) = ((x, f), r')" by (metis surj_pair)
  then have "int (length x) > lr_remaining lr"
    using assms by (auto simp: lr_read_def limit_def [symmetric] Let_def split: if_splits)
  then show ?thesis using read_law [OF r] by simp
qed

end

text \<open>A reader over bytes in memory.\<close>

definition bytes_read :: "gostring reader" where
  "bytes_read n s = (if s = [] then (([], Some (GuardMsg ''EOF'')), []) else ((take n s, None), drop n s))"

interpretation bytes: io_reader bytes_read "\<lambda>s. s"
  by unfold_locales (auto simp: bytes_read_def split: if_splits)

interpretation limited_bytes: io_reader "lr_read bytes_read" bytes.lr_content
  by (rule bytes.limited_reader)

interpretation body_bytes: io_reader "lr_read (lr_read bytes_read)" limited_bytes.lr_content
  by (rule limited_bytes.limited_reader)

subsection \<open>The body that ends its context\<close>

text \<open>\<open>cancelingBody\<close>: the flag tells whether its context has been cancelled.\<close>

definition canceling_read :: "'r reader \<Rightarrow> ('r \<times> bool) reader" where
  "canceling_read rd n b = (case rd n (fst b) of ((d, e), r') \<Rightarrow> ((d, e), (r', snd b \<or> e \<noteq> None)))"

definition canceling_close :: "('r \<Rightarrow> 'x) \<Rightarrow> 'r \<times> bool \<Rightarrow> 'x \<times> bool" where
  "canceling_close close b = (close (fst b), True)"

context io_reader begin

lemma canceling_reader: "io_reader (canceling_read rd) (\<lambda>b. content (fst b))"
  by unfold_locales (auto simp: canceling_read_def split: prod.splits dest: read_law)

end

section \<open>Responses\<close>

record 'b response =
  rs_status :: int
  rs_header :: header
  rs_length :: int
  rs_body :: 'b

text \<open>The body under the limits: the wire under its limit or its decoding, under the limit for decoded bytes.\<close>
type_synonym ('r, 'g) limited_body = "('r limited + 'g) limited"

text \<open>\<open>gzip.NewReader\<close> on the wire and \<open>Read\<close> of what it answers.\<close>
record ('r, 'g) gzip =
  gz_new :: "'r limited \<Rightarrow> gostring + 'g"
  gz_read :: "'g reader"

definition decoded_read :: "'r reader \<Rightarrow> 'g reader \<Rightarrow> ('r limited + 'g) reader" where
  "decoded_read rd gz n b =
     (case b of Inl w \<Rightarrow> apsnd Inl (lr_read rd n w) | Inr g \<Rightarrow> apsnd Inr (gz n g))"

definition limited_body_read :: "'r reader \<Rightarrow> ('r, 'g) gzip \<Rightarrow> ('r, 'g) limited_body reader" where
  "limited_body_read rd gz = lr_read (decoded_read rd (gz_read gz))"

text \<open>The answer and whether the body was closed; None is a nil response or a nil body.\<close>
definition limit_response :: "('r, 'g) gzip \<Rightarrow> limits \<Rightarrow> 'r response option
    \<Rightarrow> bool \<times> (guard_error + ('r, 'g) limited_body response)" where
  "limit_response gz ls resp =
     (case resp of
        None \<Rightarrow> (False, Inl (GuardMsg ''upstream returned an empty HTTP response''))
      | Some r \<Rightarrow>
          if header_bytes (rs_header r) > l_header ls then (True, Inl ResponseTooLarge)
          else if rs_length r > l_wire ls then (True, Inl ResponseTooLarge)
          else
            let wire = limit_reader (rs_body r) (l_wire ls);
                enc = to_lower (trim_space (header_get (rs_header r) ''Content-Encoding''));
                limited = (\<lambda>b. limit_reader b (l_decoded ls))
            in if enc \<noteq> [] \<and> enc \<noteq> ''identity'' \<and> enc \<noteq> ''gzip''
               then (True, Inl (GuardMsg ''unsupported upstream content encoding''))
               else if enc = ''gzip'' then
                 (case gz_new gz wire of
                    Inl e \<Rightarrow> (True, Inl (GuardWrap ''decode upstream gzip response'' e))
                  | Inr g \<Rightarrow> (False, Inr \<lparr>rs_status = rs_status r,
                      rs_header = AList.delete ''Content-Encoding'' (rs_header r),
                      rs_length = -1, rs_body = limited (Inr g)\<rparr>))
               else (False, Inr \<lparr>rs_status = rs_status r, rs_header = rs_header r, rs_length = rs_length r,
                      rs_body = limited (Inl wire)\<rparr>))"

section \<open>The transport\<close>

record request =
  rq_method :: gostring
  rq_url :: "url option"
  rq_host :: gostring
  rq_header :: header

definition effective_port :: "url \<Rightarrow> gostring" where
  "effective_port u =
     (if url_port u \<noteq> [] then url_port u else if equal_fold (u_scheme u) ''https'' then ''443'' else ''80'')"

definition request_authority_matches :: "idna \<Rightarrow> request option \<Rightarrow> url option \<Rightarrow> bool" where
  "request_authority_matches idna req target =
     (case req of
        None \<Rightarrow> False
      | Some q \<Rightarrow>
          (case rq_url q of
             None \<Rightarrow> False
           | Some u \<Rightarrow>
               if contains_key_fold (rq_header q) ''Host'' then False
               else if rq_host q = [] then True
               else (case new_fetch_url idna (u_scheme u @ ''://'' @ rq_host q @ ''/'') of
                   None \<Rightarrow> False
                 | Some right \<Rightarrow>
                     (case target of
                        None \<Rightarrow> False
                      | Some left \<Rightarrow>
                          if \<not> equal_fold (u_scheme left) (u_scheme right) \<or>
                             \<not> equal_fold (url_hostname left) (url_hostname right) then False
                          else effective_port left = effective_port right))))"

type_synonym 'r base_transport = "request \<Rightarrow> guard_error + 'r response option"

definition limited_round_trip :: "idna \<Rightarrow> resolver \<Rightarrow> ('r, 'g) gzip \<Rightarrow> 'r base_transport \<Rightarrow> limits \<Rightarrow> request option
    \<Rightarrow> guard_error + ('r, 'g) limited_body response" where
  "limited_round_trip idna resolve gz base ls req =
     rbind (or_error InvalidFetchURL req) (\<lambda>q.
     rbind (or_error InvalidFetchURL (rq_url q)) (\<lambda>u.
     rbind (or_error UnsafeDestination (new_fetch_url idna (url_string u))) (\<lambda>target.
     rbind (require (request_authority_matches idna (Some q) (Some target)) UnsafeDestination) (\<lambda>_.
     (case validate_target idna resolve False (Some target) of
        Some e \<Rightarrow> Inl e
      | None \<Rightarrow> rbind (base q) (\<lambda>resp. snd (limit_response gz ls resp)))))))"

text \<open>The absolute deadline of a client starts with the first hop and stays.\<close>
definition deadline_bind :: "duration \<Rightarrow> gotime \<Rightarrow> gotime option \<Rightarrow> gotime option \<Rightarrow> gotime \<times> gotime option" where
  "deadline_bind d now parent st =
     (let dl = (case st of None \<Rightarrow> now + d | Some t \<Rightarrow> t) in
      ((case parent of None \<Rightarrow> dl | Some p \<Rightarrow> min p dl), Some dl))"

text \<open>\<open>deadlineTransport\<close>: the response of the next transport with a body that cancels.\<close>
definition deadline_round_trip :: "duration \<Rightarrow> gotime \<Rightarrow> gotime option \<Rightarrow> gotime option
    \<Rightarrow> (gotime \<Rightarrow> request \<Rightarrow> guard_error + 'b response option) \<Rightarrow> request option
    \<Rightarrow> (guard_error + ('b \<times> bool) response) \<times> gotime option" where
  "deadline_round_trip d now parent st next req =
     (case req of
        None \<Rightarrow> (Inl (GuardMsg ''invalid deadline transport''), st)
      | Some q \<Rightarrow>
          let (ctx, st') = deadline_bind d now parent st in
          (rbind (next ctx q) (\<lambda>resp.
             (case resp of
                None \<Rightarrow> Inl (GuardMsg ''upstream returned an empty HTTP response'')
              | Some r \<Rightarrow> Inr \<lparr>rs_status = rs_status r, rs_header = rs_header r, rs_length = rs_length r,
                    rs_body = (rs_body r, False)\<rparr>)), st'))"

section \<open>The client\<close>

text \<open>
  The redirect policy of \<open>HTTPClientWithRedirect\<close>.  The observation hook may change the request
  (URL and header) and may stop the redirect; the two validations ask the resolver anew.
\<close>
type_synonym redirect_hook = "url \<times> header \<Rightarrow> guard_error option \<times> url \<times> header"

definition guard_redirect :: "idna \<Rightarrow> resolver \<Rightarrow> resolver \<Rightarrow> int \<Rightarrow> redirect_hook option
    \<Rightarrow> (url option \<times> header) option \<Rightarrow> url option list \<Rightarrow> guard_error + url \<times> header" where
  "guard_redirect idna res1 res2 maxr hook req via =
     (let m = (if maxr < 0 then 3 else maxr) in
      (case req of
         Some (Some u, h) \<Rightarrow>
           (case check_redirect idna res1 m (Some (Some u, h)) via of
              (Some e, _) \<Rightarrow> Inl e
            | (None, h1) \<Rightarrow>
                rbind (or_error UnsafeDestination (new_fetch_url idna (url_string u))) (\<lambda>target.
                (case (case hook of None \<Rightarrow> (None, u, h1) | Some f \<Rightarrow> f (u, h1)) of
                   (Some e, _) \<Rightarrow> Inl e
                 | (None, u2, h2) \<Rightarrow>
                     rbind (or_error UnsafeDestination (new_fetch_url idna (url_string u2))) (\<lambda>final.
                     rbind (require (fetch_fingerprint (Some final) = fetch_fingerprint (Some target)) UnsafeDestination) (\<lambda>_.
                     (case check_redirect idna res2 m (Some (Some u2, h2)) via of
                        (Some e, _) \<Rightarrow> Inl e
                      | (None, h3) \<Rightarrow> Inr (u2, h3)))))))
       | _ \<Rightarrow> Inl InvalidFetchURL))"

record fetch_request =
  fr_method :: gostring
  fr_url :: "url option"
  fr_header :: header
  fr_redirects :: int

text \<open>An error of \<open>Client.Do\<close>: the errors in its chain.\<close>
definition deadline_exceeded :: guard_error where
  "deadline_exceeded = GuardMsg ''context deadline exceeded''"

definition fetch_error :: "guard_error option \<Rightarrow> guard_error list \<Rightarrow> guard_error" where
  "fetch_error ctx_err chain =
     (case ctx_err of
        Some e \<Rightarrow> e
      | None \<Rightarrow>
          if deadline_exceeded \<in> set chain then deadline_exceeded
          else (case find (\<lambda>s. s \<in> set chain) [UnsafeDestination, RedirectLimit, ResponseTooLarge, InvalidFetchURL] of
              Some s \<Rightarrow> s
            | None \<Rightarrow> GuardMsg ''guarded upstream fetch failed''))"

text \<open>\<open>Fetch\<close>; \<open>do\<close> is \<open>HTTPClient(ctx, maxRedirects).Do\<close>, with \<open>ctx.Err()\<close> after it.\<close>
definition fetch :: "bool \<Rightarrow> (request \<Rightarrow> int \<Rightarrow> (guard_error list + 'b response) \<times> guard_error option)
    \<Rightarrow> fetch_request \<Rightarrow> guard_error + 'b response" where
  "fetch nil_ctx doit q =
     rbind (or_error (GuardMsg ''invalid guarded fetch request'') (fr_url q)) (\<lambda>u.
     rbind (require (\<not> nil_ctx) (GuardMsg ''guarded fetch context is required'')) (\<lambda>_.
       let meth = (if fr_method q = [] then ''GET'' else fr_method q) in
       rbind (require (meth \<in> set [''GET'', ''HEAD'', ''POST'']) (GuardMsg ''guarded fetch method is not allowed'')) (\<lambda>_.
       rbind (or_error (GuardWrap ''create guarded request'' []) (url_parse (url_string u))) (\<lambda>v.
         (case doit \<lparr>rq_method = meth, rq_url = Some v, rq_host = u_host v, rq_header = fr_header q\<rparr> (fr_redirects q) of
            (Inr r, _) \<Rightarrow> Inr r
          | (Inl chain, ctx_err) \<Rightarrow> Inl (fetch_error ctx_err chain))))))"

section \<open>Properties\<close>

lemma limit_response_Inr:
  assumes "limit_response gz ls (Some r) = (c, Inr r')"
  obtains "rs_body r' = limit_reader (Inl (limit_reader (rs_body r) (l_wire ls))) (l_decoded ls)"
      "to_lower (trim_space (header_get (rs_header r) ''Content-Encoding'')) \<noteq> ''gzip''"
  | g where "gz_new gz (limit_reader (rs_body r) (l_wire ls)) = Inr g" "rs_body r' = limit_reader (Inr g) (l_decoded ls)"
      "to_lower (trim_space (header_get (rs_header r) ''Content-Encoding'')) = ''gzip''"
  using assms by (auto simp: limit_response_def Let_def split: if_splits sum.splits)

lemma lr_budget_limit [simp]: "lr_budget (limit_reader r n) = nat n"
  by (simp add: lr_budget_def limit_reader_def)

lemma limit_reader_reader [simp]: "lr_reader (limit_reader r n) = r"
  by (simp add: limit_reader_def)

definition decoded_content :: "('r limited \<Rightarrow> gostring) \<Rightarrow> ('g \<Rightarrow> gostring) \<Rightarrow> 'r limited + 'g \<Rightarrow> gostring" where
  "decoded_content cw cg b = (case b of Inl w \<Rightarrow> cw w | Inr g \<Rightarrow> cg g)"

lemma decoded_reader:
  assumes "io_reader rd content" and "io_reader gz plain"
  shows "io_reader (decoded_read rd gz) (decoded_content (io_reader.lr_content content) plain)"
proof
  fix n b d e b'
  assume a: "decoded_read rd gz n b = ((d, e), b')"
  show "length d \<le> n \<and> decoded_content (io_reader.lr_content content) plain b =
      d @ decoded_content (io_reader.lr_content content) plain b'"
  proof (cases b)
    case (Inl w)
    with a obtain w' where "lr_read rd n w = ((d, e), w')" "b' = Inl w'" by (auto simp: decoded_read_def apsnd_def map_prod_def split: prod.splits)
    then show ?thesis using io_reader.lr_read_law [OF assms(1)] Inl by (simp add: decoded_content_def)
  next
    case (Inr g)
    with a obtain g' where "gz n g = ((d, e), g')" "b' = Inr g'" by (auto simp: decoded_read_def apsnd_def map_prod_def split: prod.splits)
    then show ?thesis using io_reader.read_law [OF assms(2)] Inr by (simp add: decoded_content_def)
  qed
qed

text \<open>
  C12.  The limits hold for every way of reading an accepted response.  Whatever sequence of reads is
  made of its body, with any conforming connection and decoder, at most the decoded limit comes out;
  it is a prefix of the decompressed bytes when the response was compressed, and otherwise a prefix of
  what was on the wire, within the wire limit as well.
\<close>
theorem response_limits:
  assumes "io_reader rd content" and "io_reader (gz_read gz) plain" and "limit_response gz ls (Some r) = (c, Inr r')"
  shows "length (fst (reads (limited_body_read rd gz) ns (rs_body r'))) \<le> nat (l_decoded ls) \<and>
    (if to_lower (trim_space (header_get (rs_header r) ''Content-Encoding'')) = ''gzip''
     then \<exists>g t. gz_new gz (limit_reader (rs_body r) (l_wire ls)) = Inr g \<and>
            plain g = fst (reads (limited_body_read rd gz) ns (rs_body r')) @ t
     else \<exists>t. take (nat (l_wire ls)) (content (rs_body r)) = fst (reads (limited_body_read rd gz) ns (rs_body r')) @ t)"
proof -
  let ?out = "fst (reads (limited_body_read rd gz) ns (rs_body r'))"
  let ?dc = "decoded_content (io_reader.lr_content content) plain"
  have size: "length ?out \<le> lr_budget (rs_body r')" unfolding limited_body_read_def by (rule lr_reads_budget)
  have dec: "io_reader (decoded_read rd (gz_read gz)) ?dc" by (rule decoded_reader [OF assms(1,2)])
  have "\<exists>t. io_reader.lr_content ?dc (rs_body r') = ?out @ t"
    unfolding limited_body_read_def by (rule io_reader.reads_prefix [OF io_reader.limited_reader [OF dec]])
  then obtain t where t: "take (lr_budget (rs_body r')) (?dc (lr_reader (rs_body r'))) = ?out @ t"
    unfolding io_reader.lr_content_def [OF dec] by blast
  have "?dc (lr_reader (rs_body r')) = ?out @ t @ drop (lr_budget (rs_body r')) (?dc (lr_reader (rs_body r')))"
    using t by (metis append.assoc append_take_drop_id)
  then have pre: "\<exists>u. ?dc (lr_reader (rs_body r')) = ?out @ u" by blast
  show ?thesis using assms(3)
    by (rule limit_response_Inr) (use size pre in \<open>auto simp: decoded_content_def io_reader.lr_content_def [OF assms(1)]\<close>)
qed

text \<open>
  The observation hook of a redirect cannot weaken the policy.  Whatever a parser's hook does to
  the request, a hop that is followed goes to the target that was validated before the hook (the same
  fingerprint), resolves to public addresses at the second look too, and carries no sensitive header
  to another origin.
\<close>
theorem redirect_hook_confined:
  assumes "guard_redirect idna res1 res2 maxr hook (Some (Some u, h)) via = Inr (u', h')"
  shows "\<exists>t t'. new_fetch_url idna (url_string u) = Some t \<and> new_fetch_url idna (url_string u') = Some t' \<and>
    fetch_fingerprint (Some t') = fetch_fingerprint (Some t) \<and>
    validate_host idna res1 (url_hostname t) = None \<and> validate_host idna res2 (url_hostname t') = None \<and>
    int (length via) \<le> (if maxr < 0 then 3 else maxr) \<and>
    (via = [] \<or> (\<exists>p. last via = Some p \<and> same_origin p u') \<or> (\<forall>k \<in> set (keys h'). \<not> is_sensitive_header k))"
proof -
  let ?m = "if maxr < 0 then 3 else maxr"
  obtain h1 where c1: "check_redirect idna res1 ?m (Some (Some u, h)) via = (None, h1)"
    using assms by (cases "check_redirect idna res1 ?m (Some (Some u, h)) via")
      (auto simp: guard_redirect_def Let_def split: option.splits)
  obtain t where t: "new_fetch_url idna (url_string u) = Some t" "validate_host idna res1 (url_hostname t) = None"
    using c1 by (rule check_redirect_None)
  note a1 = assms [unfolded guard_redirect_def Let_def option.case prod.case c1, simplified or_error_def t(1) option.case rbind_simps]
  define k where "k = (case hook of None \<Rightarrow> (None, u, h1) | Some f \<Rightarrow> f (u, h1))"
  obtain e u2 h2 where k: "k = (e, u2, h2)" by (cases k)
  have e: "e = None" using a1 [folded k_def] by (cases e) (simp_all add: k)
  note a2 = a1 [folded k_def, unfolded k e prod.case option.case, folded or_error_def]
  obtain t' where t': "new_fetch_url idna (url_string u2) = Some t'"
    and f: "fetch_fingerprint (Some t') = fetch_fingerprint (Some t)"
    and c: "(case check_redirect idna res2 ?m (Some (Some u2, h2)) via of (Some e, _) \<Rightarrow> Inl e | (None, h3) \<Rightarrow> Inr (u2, h3)) = Inr (u', h')"
    using a2 unfolding go_errors by blast
  obtain h3 where c2: "check_redirect idna res2 ?m (Some (Some u2, h2)) via = (None, h3)" and u: "u' = u2" "h' = h3"
    using c by (cases "check_redirect idna res2 ?m (Some (Some u2, h2)) via") (auto split: option.splits)
  obtain t2 where "int (length via) \<le> ?m" "new_fetch_url idna (url_string u2) = Some t2"
    "validate_host idna res2 (url_hostname t2) = None"
    "h3 = (if via \<noteq> [] \<and> \<not> (\<exists>p. last via = Some p \<and> same_origin p u2) then strip_sensitive h2 else h2)"
    using c2 by (rule check_redirect_None)
  then show ?thesis using t t' f u by (intro exI [of _ t] exI [of _ t']) (auto dest: strip_sensitive_keys)
qed

section \<open>Concrete responses\<close>

definition demo_gzip :: "(gostring, gostring) gzip" where
  "demo_gzip = \<lparr>gz_new = (\<lambda>w. if lr_reader w = [] then Inl ''EOF'' else Inr (concat (map (\<lambda>c. [c, c, c]) (lr_reader w)))), gz_read = bytes_read\<rparr>"

definition demo_response :: "gostring \<Rightarrow> gostring \<Rightarrow> gostring response" where
  "demo_response enc body = \<lparr>rs_status = 200, rs_header = [(''Content-Encoding'', [enc])], rs_length = -1, rs_body = body\<rparr>"

definition small_limits :: limits where
  "small_limits = \<lparr>l_header = 40, l_wire = 8, l_decoded = 5, l_duration = 1\<rparr>"

theorem response_limits_witness:
  "\<exists>r'. limit_response demo_gzip small_limits (Some (demo_response ''GZIP'' ''abc'')) = (False, Inr r') \<and>
     length (fst (reads (limited_body_read bytes_read demo_gzip) [2, 4, 4] (rs_body r'))) \<le> 5"
proof -
  let ?l = "limit_response demo_gzip small_limits (Some (demo_response ''GZIP'' ''abc''))"
  have "(case ?l of (c, Inr r') \<Rightarrow> \<not> c | _ \<Rightarrow> False)" by code_simp
  then obtain r' where r: "?l = (False, Inr r')" by (auto split: prod.splits sum.splits)
  have g: "io_reader (gz_read demo_gzip) (\<lambda>s. s)" by (simp add: demo_gzip_def bytes.io_reader_axioms)
  from response_limits [OF bytes.io_reader_axioms g r, of "[2, 4, 4]"] r
  show ?thesis by (simp add: small_limits_def)
qed

end
