(* ===== verification/NetProxy.thy ===== *)
theory NetProxy imports
  NetTransport
begin

text \<open>
  \<open>internal/netguard/proxy.go\<close>: the loopback proxy through which helper processes reach the network.
  What the handlers write is their answer; the guarded fetch, the dialer and the hijacked connection
  are arguments.
\<close>

section \<open>The endpoint\<close>

definition verify_loopback_endpoint :: "gostring \<Rightarrow> guard_error + gostring" where
  "verify_loopback_endpoint endpoint =
     (case url_parse (trim_space endpoint) of
        None \<Rightarrow> Inl (GuardMsg ''invalid netguard proxy endpoint'')
      | Some u \<Rightarrow>
          if u_scheme u \<noteq> ''http'' \<or> u_user u \<noteq> None \<or> u_raw_query u \<noteq> [] \<or> u_fragment u \<noteq> []
          then Inl (GuardMsg ''invalid netguard proxy endpoint'')
          else if url_hostname u \<noteq> ''127.0.0.1'' \<and> url_hostname u \<noteq> ''::1''
          then Inl (GuardMsg ''netguard proxy must use a loopback endpoint'')
          else if u_path u \<noteq> [] \<and> u_path u \<noteq> ''/'' then Inl (GuardMsg ''netguard proxy endpoint cannot contain a path'')
          else if url_port u = [] then Inl (GuardMsg ''netguard proxy port is required'')
          else if net_split_host_port (u_host u) = None then Inl (GuardMsg ''invalid netguard proxy address'')
          else Inr (url_string (u\<lparr>u_path := []\<rparr>)))"

text \<open>\<open>StaticProxyEndpoint\<close>: the configured endpoint and whether it was verified.\<close>
definition verified_endpoint :: "gostring \<times> bool \<Rightarrow> gostring \<times> bool" where
  "verified_endpoint e =
     (if \<not> snd e then ([], False)
      else (case verify_loopback_endpoint (fst e) of Inl _ \<Rightarrow> ([], False) | Inr v \<Rightarrow> (v, True)))"

section \<open>The proxy\<close>

definition contains_sensitive_marker :: "gostring \<Rightarrow> bool" where
  "contains_sensitive_marker v =
     list_ex (contains (to_lower v))
       [''password'', ''passwd'', ''secret'', ''token'', ''cookie'', ''credential'', ''mysql'', ''redis'', ''dsn'']"

record 'v proxy_options =
  po_validator :: "'v option"
  po_limits :: limits
  po_fingerprint :: gostring
  po_tunnel_bytes :: int
  po_tunnel_duration :: duration

record 'v proxy =
  px_validator :: 'v
  px_fetcher :: "'v fetcher"
  px_fingerprint :: gostring
  px_tunnel_bytes :: int
  px_tunnel_duration :: duration

text \<open>\<open>fresh\<close> is what \<open>NewValidator\<close> with no options answers.\<close>
definition new_proxy :: "(guard_error + 'v) \<Rightarrow> 'v proxy_options \<Rightarrow> guard_error + 'v proxy" where
  "new_proxy fresh options =
     rbind (require (trim_space (po_fingerprint options) \<noteq> [] \<and> \<not> contains_sensitive_marker (po_fingerprint options))
        (GuardMsg ''netguard proxy policy fingerprint is required'')) (\<lambda>_.
     rbind (case po_validator options of None \<Rightarrow> fresh | Some v \<Rightarrow> Inr v) (\<lambda>v.
       let given = po_limits options;
           ls = (if l_header given = 0 \<and> l_wire given = 0 \<and> l_decoded given = 0 \<and> l_duration given = 0
                 then default_limits else given)
       in rbind (new_fetcher (Some v) ls) (\<lambda>f.
         Inr \<lparr>px_validator = v, px_fetcher = f, px_fingerprint = trim_space (po_fingerprint options),
           px_tunnel_bytes = (if po_tunnel_bytes options \<le> 0 then 64 * 1048576 else po_tunnel_bytes options),
           px_tunnel_duration = (if po_tunnel_duration options \<le> 0 then l_duration ls else po_tunnel_duration options)\<rparr>)))"

definition policy_fingerprint :: "'v proxy option \<Rightarrow> gostring" where
  "policy_fingerprint p = (case p of None \<Rightarrow> [] | Some x \<Rightarrow> px_fingerprint x)"

text \<open>The context is nil, or its error when it is done.\<close>
definition healthcheck :: "guard_error option option \<Rightarrow> 'v proxy option \<Rightarrow> guard_error option" where
  "healthcheck ctx p =
     (case ctx of
        None \<Rightarrow> Some (GuardMsg ''netguard proxy healthcheck context is required'')
      | Some done \<Rightarrow>
          (case p of
             None \<Rightarrow> Some (GuardMsg ''netguard proxy is not initialized'')
           | Some x \<Rightarrow> if trim_space (px_fingerprint x) = [] then Some (GuardMsg ''netguard proxy is not initialized'')
                       else done))"

section \<open>Headers\<close>

definition is_hop_by_hop :: "gostring \<Rightarrow> bool" where
  "is_hop_by_hop key \<longleftrightarrow> to_lower (trim_space key) \<in>
     set [''connection'', ''keep-alive'', ''proxy-authenticate'', ''proxy-authorization'',
       ''te'', ''trailer'', ''transfer-encoding'', ''upgrade'']"

text \<open>Adding the values of a header under a filter on its keys.\<close>
definition add_all :: "gostring \<Rightarrow> gostring list \<Rightarrow> header \<Rightarrow> header" where
  "add_all k vs h = fold (header_add k) vs h"

definition proxy_request_header :: "header \<Rightarrow> header" where
  "proxy_request_header input =
     fold (\<lambda>(k, vs) out. if is_hop_by_hop k \<or> is_sensitive_header k then out else add_all k vs out) input []"

definition copy_response_headers :: "header \<Rightarrow> header \<Rightarrow> header" where
  "copy_response_headers dst src = fold (\<lambda>(k, vs) out. if is_hop_by_hop k then out else add_all k vs out) src dst"

section \<open>Requests\<close>

datatype ('c, 'b) proxy_answer =
    ProxyError int gostring
  | ProxyResponse int header "'b option"
  | ProxyTunnel 'c gotime
  | ProxyDropped

definition serve_plain :: "idna \<Rightarrow> (fetch_request \<Rightarrow> guard_error + 'b response) \<Rightarrow> header \<Rightarrow> request
    \<Rightarrow> ('c, 'b) proxy_answer" where
  "serve_plain idna fetcher hdr req =
     (case rq_url req of
        None \<Rightarrow> ProxyError 400 ''netguard proxy requires absolute-form request''
      | Some u \<Rightarrow>
          if u_scheme u = [] then ProxyError 400 ''netguard proxy requires absolute-form request''
          else if rq_method req \<noteq> ''GET'' \<and> rq_method req \<noteq> ''HEAD'' then ProxyError 405 ''netguard proxy method rejected''
          else (case new_fetch_url idna (url_string u) of
              None \<Rightarrow> ProxyError 403 ''netguard proxy target rejected''
            | Some target \<Rightarrow>
                (case fetcher \<lparr>fr_method = rq_method req, fr_url = Some target,
                     fr_header = proxy_request_header (rq_header req), fr_redirects = 3\<rparr> of
                   Inl _ \<Rightarrow> ProxyError 403 ''netguard proxy fetch rejected''
                 | Inr resp \<Rightarrow>
                     ProxyResponse (rs_status resp) (copy_response_headers hdr (rs_header resp))
                       (if rq_method req \<noteq> ''HEAD'' then Some (rs_body resp) else None))))"

text \<open>
  \<open>serveConnect\<close> and what was dialled.  \<open>hijack\<close> is None when the writer is no \<open>Hijacker\<close>,
  otherwise whether the client connection was taken over and told so; the connections then live until
  \<open>now + tunnelDuration\<close>.
\<close>
definition serve_connect :: "idna \<Rightarrow> resolver \<Rightarrow> resolver \<Rightarrow> 'c dialer \<Rightarrow> gotime \<Rightarrow> duration \<Rightarrow> bool option \<Rightarrow> request
    \<Rightarrow> ('c, 'b) proxy_answer \<times> gostring list" where
  "serve_connect idna res1 res2 dial now lifetime hijack req =
     (let host_port = trim_space (rq_host req);
          rejected = ProxyError 403 ''netguard proxy CONNECT target rejected''
      in case net_split_host_port host_port of
        None \<Rightarrow> (rejected, [])
      | Some (host, port) \<Rightarrow>
          if host = [] \<or> port = [] then (rejected, [])
          else (case new_fetch_url idna (''https://'' @ host_port @ ''/'') of
              None \<Rightarrow> (rejected, [])
            | Some target \<Rightarrow>
                if validate_target idna res1 False (Some target) \<noteq> None then (rejected, [])
                else (case dial_context idna res2 dial ''tcp'' (join_host_port host port) of
                    (Inl _, dialled) \<Rightarrow> (rejected, dialled)
                  | (Inr conn, dialled) \<Rightarrow>
                      (case hijack of
                         None \<Rightarrow> (ProxyError 503 ''netguard proxy hijack unavailable'', dialled)
                       | Some ok \<Rightarrow> (if ok then ProxyTunnel conn (now + lifetime) else ProxyDropped, dialled)))))"

definition serve_http :: "idna \<Rightarrow> resolver \<Rightarrow> resolver \<Rightarrow> 'c dialer \<Rightarrow> (fetch_request \<Rightarrow> guard_error + 'b response)
    \<Rightarrow> header \<Rightarrow> gotime \<Rightarrow> bool option \<Rightarrow> 'v proxy option \<Rightarrow> request option \<Rightarrow> ('c, 'b) proxy_answer \<times> gostring list" where
  "serve_http idna res1 res2 dial fetcher hdr now hijack proxy req =
     (case (proxy, req) of
        (Some p, Some q) \<Rightarrow>
          if rq_method q = ''CONNECT'' then serve_connect idna res1 res2 dial now (px_tunnel_duration p) hijack q
          else (serve_plain idna fetcher hdr q, [])
      | _ \<Rightarrow> (ProxyError 503 ''netguard proxy unavailable'', []))"

text \<open>
  \<open>copyProxyTunnel\<close> from a source that gives \<open>data\<close> and then \<open>err\<close> to a writer that never fails:
  what was written and the error.  The \<open>LimitReader\<close> ends after \<open>limit + 1\<close> bytes without an
  error of its own.
\<close>
definition copy_tunnel :: "int \<Rightarrow> gostring \<times> guard_error option \<Rightarrow> gostring \<times> guard_error option" where
  "copy_tunnel limit src =
     (if limit \<le> 0 then ([], Some ProxyRejected)
      else
        let written = take (nat (limit + 1)) (fst src);
            err = (if int (length (fst src)) \<ge> limit + 1 then None else snd src)
        in if int (length written) > limit
           then (written, Some (GuardWrap ''netguard proxy rejected request'' ''tunnel byte limit exceeded''))
           else (written, err))"

section \<open>Properties\<close>

lemma keys_header_add: "set (keys (header_add k v h)) = insert (canonical_key k) (set (keys h))"
  by (simp add: header_add_def Let_def)

lemma keys_add_all: "set (keys (add_all k vs h)) \<subseteq> insert (canonical_key k) (set (keys h))"
proof (induction vs arbitrary: h)
  case (Cons v vs)
  have "add_all k (v # vs) h = add_all k vs (header_add k v h)" by (simp add: add_all_def)
  then show ?case using Cons [of "header_add k v h"] keys_header_add [of k v h] by auto
qed (auto simp: add_all_def)

lemma keys_filtered_fold:
  "set (keys (fold (\<lambda>(k, vs) out. if P k then out else add_all k vs out) inp out))
     \<subseteq> set (keys out) \<union> {canonical_key k | k. k \<in> set (keys inp) \<and> \<not> P k}"
proof (induction inp arbitrary: out)
  case (Cons kv inp)
  obtain k vs where kv: "kv = (k, vs)" by (cases kv)
  let ?out = "if P k then out else add_all k vs out"
  have "set (keys ?out) \<subseteq> set (keys out) \<union> {canonical_key k' | k'. k' = k \<and> \<not> P k'}"
    using keys_add_all [of k vs out] by auto
  moreover have "keys (kv # inp) = k # keys inp" by (simp add: kv keys_def)
  ultimately show ?case using Cons.IH [of ?out] by (simp only: fold.simps comp_def kv prod.case list.set) blast
qed (simp add: keys_def)

lemma lower_upper_char: "lower_char (upper_char c) = lower_char c"
proof -
  have "of_char (char_of (of_char c - 32 :: nat) :: char) = (of_char c - 32 :: nat)" if "of_char c \<le> (122 :: nat)"
    using that by (simp add: of_char_of)
  then show ?thesis by (auto simp: lower_char_def upper_char_def Let_def)
qed

lemma to_lower_canonical_rest: "to_lower (canonical_rest up k) = to_lower k"
  by (induction k arbitrary: up) (simp_all add: to_lower_def lower_upper_char)

lemma to_lower_canonical_key [simp]: "to_lower (canonical_key k) = to_lower k"
  by (simp add: canonical_key_def to_lower_canonical_rest)

text \<open>Canonical spelling changes neither class of keys.\<close>

lemma alnum_lower: "is_alnum c \<Longrightarrow> is_alnum (lower_char c)" and alnum_upper: "is_alnum c \<Longrightarrow> is_alnum (upper_char c)"
proof -
  have "of_char (char_of (of_char c + 32 :: nat) :: char) = (of_char c + 32 :: nat)" if "of_char c \<le> (90 :: nat)"
    using that by (simp add: of_char_of)
  then show "is_alnum c \<Longrightarrow> is_alnum (lower_char c)" by (auto simp: is_alnum_def lower_char_def Let_def)
  have "of_char (char_of (of_char c - 32 :: nat) :: char) = (of_char c - 32 :: nat)" if "of_char c \<le> (122 :: nat)"
    using that by (simp add: of_char_of)
  then show "is_alnum c \<Longrightarrow> is_alnum (upper_char c)" by (auto simp: is_alnum_def upper_char_def Let_def)
qed

lemma not_alnum_case: "\<not> is_alnum c \<Longrightarrow> lower_char c = c \<and> upper_char c = c"
  by (auto simp: is_alnum_def lower_char_def upper_char_def Let_def)

lemma token_char_case: "token_char c \<Longrightarrow> token_char (lower_char c) \<and> token_char (upper_char c)"
  using alnum_lower [of c] alnum_upper [of c] not_alnum_case [of c] by (cases "is_alnum c") (auto simp: token_char_def)

lemma token_canonical_rest: "list_all token_char k \<Longrightarrow> list_all token_char (canonical_rest up k)"
  by (induction k arbitrary: up) (simp_all add: token_char_case)

lemma canonical_key_folds: "to_lower (trim_space (canonical_key k)) = to_lower (trim_space k)"
  by (cases "list_all token_char k")
    (simp_all add: canonical_key_def trim_space_token token_canonical_rest to_lower_canonical_rest)

lemma canonical_hop [simp]: "is_hop_by_hop (canonical_key k) = is_hop_by_hop k"
  by (simp add: is_hop_by_hop_def canonical_key_folds)

lemma canonical_sensitive [simp]: "is_sensitive_header (canonical_key k) = is_sensitive_header k"
  by (simp add: is_sensitive_header_def canonical_key_folds)

lemma proxy_request_header_clean:
  "k \<in> set (keys (proxy_request_header h)) \<Longrightarrow> \<not> is_hop_by_hop k \<and> \<not> is_sensitive_header k"
  using keys_filtered_fold [of "\<lambda>k. is_hop_by_hop k \<or> is_sensitive_header k" h "[]"]
  by (auto simp: proxy_request_header_def keys_def)

lemma copy_response_headers_clean:
  "k \<in> set (keys (copy_response_headers dst src)) \<Longrightarrow> k \<in> set (keys dst) \<or> \<not> is_hop_by_hop k"
  using keys_filtered_fold [of is_hop_by_hop src dst] by (auto simp: copy_response_headers_def)

text \<open>
  C13.  What the proxy lets through: a plain request that is answered with a response was fetched from
  a validated target with at most three redirects, no hop-by-hop and no sensitive header went
  upstream in any spelling, no hop-by-hop header comes back, and a HEAD request gets no body.
\<close>
theorem proxy_plain_clean:
  fixes dial :: "'c dialer" and body :: "'b option"
  assumes "serve_http idna res1 res2 dial fetcher hdr now hijack proxy req = (ProxyResponse status h body, dialled)"
  shows "\<exists>q target fq resp. req = Some q \<and> rq_method q \<in> {''GET'', ''HEAD''} \<and> dialled = [] \<and>
    fetcher fq = Inr resp \<and> fr_url fq = Some target \<and> u_scheme target \<in> {''http'', ''https''} \<and> fr_redirects fq = 3 \<and>
    (\<forall>k \<in> set (keys (fr_header fq)). \<not> is_hop_by_hop k \<and> \<not> is_sensitive_header k) \<and>
    (\<forall>k \<in> set (keys h) - set (keys hdr). \<not> is_hop_by_hop k) \<and>
    (body = None \<longleftrightarrow> rq_method q = ''HEAD'')"
proof -
  obtain p q where pq: "proxy = Some p" "req = Some q" using assms by (auto simp: serve_http_def split: option.splits)
  have "fst (serve_connect idna res1 res2 dial now l hijack q) \<noteq> ProxyResponse status h body" for l
    by (auto simp: serve_connect_def Let_def split: option.splits prod.splits sum.splits)
  then have nc: "serve_connect idna res1 res2 dial now l hijack q \<noteq> (ProxyResponse status h body, dialled)" for l
    by (metis fst_conv)
  have a: "(serve_plain idna fetcher hdr q :: ('c, 'b) proxy_answer) = ProxyResponse status h body" "dialled = []"
    using assms nc by (simp_all add: serve_http_def pq split: if_splits)
  obtain u where u: "rq_url q = Some u" using a(1) by (cases "rq_url q") (simp_all add: serve_plain_def)
  have m: "rq_method q \<in> {''GET'', ''HEAD''}" using a(1) u by (auto simp: serve_plain_def split: if_splits)
  obtain t where t: "new_fetch_url idna (url_string u) = Some t"
    using a(1) u by (cases "new_fetch_url idna (url_string u)") (auto simp: serve_plain_def split: if_splits)
  let ?fq = "\<lparr>fr_method = rq_method q, fr_url = Some t, fr_header = proxy_request_header (rq_header q), fr_redirects = 3\<rparr>"
  obtain resp where r: "fetcher ?fq = Inr resp" using a(1) u t by (cases "fetcher ?fq") (auto simp: serve_plain_def split: if_splits)
  have h: "h = copy_response_headers hdr (rs_header resp)" "body = None \<longleftrightarrow> rq_method q = ''HEAD''"
    using a(1) u t r by (auto simp: serve_plain_def split: if_splits)
  obtain v host where "t = v\<lparr>u_scheme := to_lower (u_scheme v), u_host := host, u_fragment := []\<rparr>" "to_lower (u_scheme v) \<in> {''http'', ''https''}"
    using t by (rule new_fetch_url_cases)
  then have s: "u_scheme t \<in> {''http'', ''https''}" by simp
  have "\<forall>k \<in> set (keys (fr_header ?fq)). \<not> is_hop_by_hop k \<and> \<not> is_sensitive_header k"
    using proxy_request_header_clean by simp
  moreover have "\<forall>k \<in> set (keys h) - set (keys hdr). \<not> is_hop_by_hop k"
    unfolding h(1) using copy_response_headers_clean by blast
  ultimately show ?thesis
    by (intro exI [of _ q] exI [of _ t] exI [of _ ?fq] exI [of _ resp] conjI) (use pq m r s h(2) a(2) in simp_all)
qed

text \<open>A tunnel carries one byte more than its limit before it complains.\<close>

lemma copy_tunnel_overshoot:
  "0 < limit \<Longrightarrow> length (fst (copy_tunnel limit src)) \<le> Suc (nat limit)"
  "0 < limit \<Longrightarrow> limit < int (length (fst src)) \<Longrightarrow>
     length (fst (copy_tunnel limit src)) = Suc (nat limit) \<and> snd (copy_tunnel limit src) \<noteq> None"
  by (auto simp: copy_tunnel_def Let_def nat_add_distrib)

text \<open>A verified endpoint is on the loopback interface.\<close>

lemma verified_is_loopback:
  assumes "verify_loopback_endpoint e = Inr s"
  obtains u where "url_parse (trim_space e) = Some u" "url_hostname u \<in> {''127.0.0.1'', ''::1''}" "url_port u \<noteq> []"
    "u_user u = None" "s = url_string (u\<lparr>u_path := []\<rparr>)"
proof -
  obtain u where u: "url_parse (trim_space e) = Some u"
    using assms by (cases "url_parse (trim_space e)") (simp_all add: verify_loopback_endpoint_def)
  have "u_user u = None" using assms u by (cases "u_user u") (simp_all add: verify_loopback_endpoint_def)
  with u show thesis using assms that [of u] by (simp add: verify_loopback_endpoint_def split: if_splits)
qed

section \<open>A concrete proxy\<close>

definition demo_proxy_request :: request where
  "demo_proxy_request = \<lparr>rq_method = ''GET'', rq_url = url_parse ''http://ok.example/a'', rq_host = ''ok.example'',
     rq_header = [(''accept'', [''*/*'']), (''cookie'', [''s=1'']), (''Keep-Alive'', [''5''])]\<rparr>"

definition demo_fetcher :: "fetch_request \<Rightarrow> guard_error + gostring response" where
  "demo_fetcher q = Inr \<lparr>rs_status = 200, rs_header = map (\<lambda>k. (''X-'' @ k, [k])) (keys (fr_header q)),
     rs_length = 2, rs_body = ''ok''\<rparr>"

definition demo_proxy :: "unit proxy" where
  "demo_proxy = \<lparr>px_validator = (), px_fetcher = \<lparr>f_validator = (), f_limits = default_limits\<rparr>,
     px_fingerprint = ''fp'', px_tunnel_bytes = 1, px_tunnel_duration = 1\<rparr>"

theorem proxy_plain_clean_witness:
  "\<exists>h. serve_http demo_idna demo_resolver demo_resolver demo_dialer demo_fetcher [] 0 None (Some demo_proxy)
       (Some demo_proxy_request) = (ProxyResponse 200 h (Some ''ok''), []) \<and>
     keys h = [''X-Accept''] \<and> (\<forall>k \<in> set (keys h). \<not> is_hop_by_hop k)"
proof -
  let ?r = "serve_http demo_idna demo_resolver demo_resolver demo_dialer demo_fetcher [] 0 None (Some demo_proxy) (Some demo_proxy_request)"
  have "(case ?r of (ProxyResponse s h b, d) \<Rightarrow> s = 200 \<and> keys h = [''X-Accept''] \<and> b = Some ''ok'' \<and> d = [] | _ \<Rightarrow> False)"
    by code_simp
  then obtain h where h: "?r = (ProxyResponse 200 h (Some ''ok''), [])" "keys h = [''X-Accept'']"
    by (auto split: prod.splits proxy_answer.splits)
  have "\<forall>k \<in> set (keys h). \<not> is_hop_by_hop k" using proxy_plain_clean [OF h(1)] by (auto simp: keys_def)
  with h show ?thesis by blast
qed

end
