(* ===== verification/Json.thy ===== *)
theory Json imports
  Codec
begin

text \<open>
  The part of \<open>encoding/json\<close> the source uses: how strings and integers are written (with the
  escaping of HTML characters, U+2028 and U+2029), how a document is read, and how the fields of a
  struct are filled from an object.  Keys are compared case-insensitively on ASCII, and the nesting
  limit of the decoder (10000) is left out.
\<close>

section \<open>UTF-8\<close>

definition byte_in :: "gostring \<Rightarrow> nat \<Rightarrow> nat \<Rightarrow> nat \<Rightarrow> bool" where
  "byte_in s i lo hi \<longleftrightarrow> i < length s \<and> lo \<le> byte_val (s ! i) \<and> byte_val (s ! i) \<le> hi"

text \<open>The length of the valid encoding \<open>s\<close> starts with; 0 when there is none.\<close>
definition utf8_len :: "gostring \<Rightarrow> nat" where
  "utf8_len s =
     (if byte_in s 0 0 127 then 1
      else if byte_in s 0 0xC2 0xDF \<and> byte_in s 1 0x80 0xBF then 2
      else if ((byte_in s 0 0xE0 0xE0 \<and> byte_in s 1 0xA0 0xBF) \<or>
               (byte_in s 0 0xE1 0xEC \<and> byte_in s 1 0x80 0xBF) \<or>
               (byte_in s 0 0xED 0xED \<and> byte_in s 1 0x80 0x9F) \<or>
               (byte_in s 0 0xEE 0xEF \<and> byte_in s 1 0x80 0xBF)) \<and> byte_in s 2 0x80 0xBF then 3
      else if ((byte_in s 0 0xF0 0xF0 \<and> byte_in s 1 0x90 0xBF) \<or>
               (byte_in s 0 0xF1 0xF3 \<and> byte_in s 1 0x80 0xBF) \<or>
               (byte_in s 0 0xF4 0xF4 \<and> byte_in s 1 0x80 0x8F)) \<and> byte_in s 2 0x80 0xBF \<and> byte_in s 3 0x80 0xBF then 4
      else 0)"

definition utf8_encode :: "nat \<Rightarrow> gostring" where
  "utf8_encode r =
     (if r < 0x80 then [char_of r]
      else if r < 0x800 then [char_of (0xC0 + r div 64), char_of (0x80 + r mod 64)]
      else if (0xD800 \<le> r \<and> r < 0xE000) \<or> r > 0x10FFFF then [CHR 0xEF, CHR 0xBF, CHR 0xBD]
      else if r < 0x10000 then [char_of (0xE0 + r div 4096), char_of (0x80 + r div 64 mod 64), char_of (0x80 + r mod 64)]
      else [char_of (0xF0 + r div 262144), char_of (0x80 + r div 4096 mod 64), char_of (0x80 + r div 64 mod 64),
            char_of (0x80 + r mod 64)])"

section \<open>Writing\<close>

definition escape_ascii :: "char \<Rightarrow> gostring" where
  "escape_ascii c =
     (let n = byte_val c in
      if c = CHR 0x22 \<or> c = CHR 0x5C then [CHR 0x5C, c]
      else if n = 8 then [CHR 0x5C, CHR ''b''] else if n = 12 then [CHR 0x5C, CHR ''f'']
      else if n = 10 then [CHR 0x5C, CHR ''n''] else if n = 13 then [CHR 0x5C, CHR ''r'']
      else if n = 9 then [CHR 0x5C, CHR ''t'']
      else if n < 32 \<or> c \<in> set ''<>&'' then CHR 0x5C # ''u00'' @ [hex_char (n div 16), hex_char (n mod 16)]
      else [c])"

definition is_ascii :: "gostring \<Rightarrow> bool" where
  "is_ascii s \<longleftrightarrow> list_all (\<lambda>c. byte_val c < 128) s"

function json_escape :: "gostring \<Rightarrow> gostring" where
  "json_escape s =
     (case s of
        [] \<Rightarrow> []
      | c # r \<Rightarrow>
          if byte_val c < 128 then escape_ascii c @ json_escape r
          else if utf8_len s = 0 then CHR 0x5C # ''ufffd'' @ json_escape r
          else if take 3 s = [CHR 0xE2, CHR 0x80, CHR 0xA8] then CHR 0x5C # ''u2028'' @ json_escape (drop 2 r)
          else if take 3 s = [CHR 0xE2, CHR 0x80, CHR 0xA9] then CHR 0x5C # ''u2029'' @ json_escape (drop 2 r)
          else take (utf8_len s) s @ json_escape (drop (utf8_len s - 1) r))"
  by pat_completeness auto
termination by (relation "measure length") auto

declare json_escape.simps [simp del]

definition json_quote :: "gostring \<Rightarrow> gostring" where
  "json_quote s = CHR 0x22 # json_escape s @ [CHR 0x22]"

function int_digits :: "int \<Rightarrow> gostring" where
  "int_digits n = (if n < 10 then [char_of (nat n + 48)] else int_digits (n div 10) @ [char_of (nat (n mod 10) + 48)])"
  by pat_completeness auto
termination by (relation "measure nat") auto

declare int_digits.simps [simp del]

definition show_int :: "int \<Rightarrow> gostring" where
  "show_int n = (if n < 0 then CHR ''-'' # int_digits (- n) else int_digits n)"

datatype json = JNull | JBool bool | JNum gostring | JStr gostring | JArr "json list"
  | JObj "(gostring \<times> json) list"

text \<open>A struct or a map whose values are strings and integers.\<close>
datatype flat = FStr gostring | FInt int

definition flat_string :: "flat \<Rightarrow> gostring" where
  "flat_string v = (case v of FStr s \<Rightarrow> json_quote s | FInt n \<Rightarrow> show_int n)"

definition encode_object :: "(gostring \<times> flat) list \<Rightarrow> gostring" where
  "encode_object kvs = ''{'' @ join '','' (map (\<lambda>(k, v). json_quote k @ '':'' @ flat_string v) kvs) @ ''}''"

section \<open>Reading\<close>

definition json_space :: "char \<Rightarrow> bool" where
  "json_space c \<longleftrightarrow> c = CHR '' '' \<or> c = CHR 0x09 \<or> c = CHR 0x0A \<or> c = CHR 0x0D"

abbreviation skip_ws :: "gostring \<Rightarrow> gostring" where
  "skip_ws s \<equiv> dropWhile json_space s"

definition hex4 :: "gostring \<Rightarrow> nat option" where
  "hex4 s =
     (if length s < 4 then None
      else (case those (map hex_val (take 4 s)) of
          None \<Rightarrow> None
        | Some vs \<Rightarrow> Some (foldl (\<lambda>n v. n * 16 + v) 0 vs)))"

text \<open>The escape after a backslash: what it stands for and what follows.\<close>
definition unescape :: "gostring \<Rightarrow> (gostring \<times> gostring) option" where
  "unescape s =
     (case s of
        [] \<Rightarrow> None
      | e # r \<Rightarrow>
          if e = CHR 0x22 \<or> e = CHR 0x5C \<or> e = CHR ''/'' then Some ([e], r)
          else if e = CHR ''b'' then Some ([CHR 0x08], r) else if e = CHR ''f'' then Some ([CHR 0x0C], r)
          else if e = CHR ''n'' then Some ([CHR 0x0A], r) else if e = CHR ''r'' then Some ([CHR 0x0D], r)
          else if e = CHR ''t'' then Some ([CHR 0x09], r)
          else if e = CHR ''u'' then
            (case hex4 r of
               None \<Rightarrow> None
             | Some h \<Rightarrow>
                 let r4 = drop 4 r in
                 if 0xD800 \<le> h \<and> h < 0xDC00 \<and> has_prefix r4 (CHR 0x5C # ''u'') then
                   (case hex4 (drop 2 r4) of
                      None \<Rightarrow> Some (utf8_encode h, r4)
                    | Some l \<Rightarrow> if 0xDC00 \<le> l \<and> l < 0xE000
                        then Some (utf8_encode (0x10000 + (h - 0xD800) * 1024 + (l - 0xDC00)), drop 6 r4)
                        else Some (utf8_encode h, r4))
                 else Some (utf8_encode h, r4))
          else None)"

text \<open>One unit of a string.\<close>
definition string_unit :: "gostring \<Rightarrow> (gostring \<times> gostring) option" where
  "string_unit s =
     (case s of
        [] \<Rightarrow> None
      | c # r \<Rightarrow>
          if c = CHR 0x5C then unescape r
          else if byte_val c < 32 then None
          else if utf8_len s = 0 then Some ([CHR 0xEF, CHR 0xBF, CHR 0xBD], r)
          else Some (take (utf8_len s) s, drop (utf8_len s) s))"

text \<open>The rest of a string after its opening quote.\<close>
function scan_string :: "gostring \<Rightarrow> (gostring \<times> gostring) option" where
  "scan_string s =
     (if s \<noteq> [] \<and> hd s = CHR 0x22 then Some ([], tl s)
      else (case string_unit s of
          None \<Rightarrow> None
        | Some (u, r) \<Rightarrow> if length r < length s then map_option (apfst (append u)) (scan_string r) else None))"
  by pat_completeness auto
termination by (relation "measure length") auto

declare scan_string.simps [simp del]

text \<open>The digits at the front and the rest.\<close>
definition digits_of :: "gostring \<Rightarrow> gostring \<times> gostring" where
  "digits_of s = (takeWhile is_digit s, dropWhile is_digit s)"

definition scan_int_part :: "gostring \<Rightarrow> (gostring \<times> gostring) option" where
  "scan_int_part s =
     (case s of
        [] \<Rightarrow> None
      | c # r \<Rightarrow> if c = CHR ''0'' then Some (''0'', r) else if is_digit c then Some (digits_of s) else None)"

definition scan_frac :: "gostring \<Rightarrow> (gostring \<times> gostring) option" where
  "scan_frac s =
     (if has_prefix s ''.'' then
        (case digits_of (tl s) of (d, r) \<Rightarrow> if d = [] then None else Some (CHR ''.'' # d, r))
      else Some ([], s))"

definition scan_exp :: "gostring \<Rightarrow> (gostring \<times> gostring) option" where
  "scan_exp s =
     (case s of
        c # r \<Rightarrow>
          if c = CHR ''e'' \<or> c = CHR ''E'' then
            (let (sg, r') = (case r of x # r1 \<Rightarrow> if x = CHR ''+'' \<or> x = CHR ''-'' then ([x], r1) else ([], r) | [] \<Rightarrow> ([], r))
             in case digits_of r' of (d, r2) \<Rightarrow> if d = [] then None else Some (c # sg @ d, r2))
          else Some ([], s)
      | [] \<Rightarrow> Some ([], s))"

definition scan_number :: "gostring \<Rightarrow> (gostring \<times> gostring) option" where
  "scan_number s =
     (let (sg, s0) = (if has_prefix s ''-'' then (''-'', tl s) else ([], s)) in
      case scan_int_part s0 of None \<Rightarrow> None
      | Some (i, s1) \<Rightarrow> (case scan_frac s1 of None \<Rightarrow> None
        | Some (f, s2) \<Rightarrow> (case scan_exp s2 of None \<Rightarrow> None
          | Some (e, s3) \<Rightarrow> Some (sg @ i @ f @ e, s3))))"

text \<open>
  A value, the rest of an array after its first bracket or comma, the rest of an object likewise.
  Every call consumes a byte, so the length of the text is fuel enough.
\<close>
fun scan_value :: "nat \<Rightarrow> gostring \<Rightarrow> (json \<times> gostring) option"
and scan_elements :: "nat \<Rightarrow> gostring \<Rightarrow> (json list \<times> gostring) option"
and scan_members :: "nat \<Rightarrow> gostring \<Rightarrow> ((gostring \<times> json) list \<times> gostring) option" where
  "scan_value 0 s = None"
| "scan_value (Suc n) s0 =
     (case skip_ws s0 of
        [] \<Rightarrow> None
      | c # r \<Rightarrow>
          if c = CHR 0x22 then map_option (apfst JStr) (scan_string r)
          else if c = CHR ''['' then
            (if has_prefix (skip_ws r) '']'' then Some (JArr [], tl (skip_ws r)) else map_option (apfst JArr) (scan_elements n r))
          else if c = CHR ''{'' then
            (if has_prefix (skip_ws r) ''}'' then Some (JObj [], tl (skip_ws r)) else map_option (apfst JObj) (scan_members n r))
          else if has_prefix (c # r) ''null'' then Some (JNull, drop 4 (c # r))
          else if has_prefix (c # r) ''true'' then Some (JBool True, drop 4 (c # r))
          else if has_prefix (c # r) ''false'' then Some (JBool False, drop 5 (c # r))
          else map_option (apfst JNum) (scan_number (c # r)))"
| "scan_elements 0 s = None"
| "scan_elements (Suc n) s =
     (case scan_value n s of
        None \<Rightarrow> None
      | Some (v, r0) \<Rightarrow>
          (case skip_ws r0 of
             [] \<Rightarrow> None
           | c # r \<Rightarrow> if c = CHR '','' then map_option (apfst (Cons v)) (scan_elements n r)
               else if c = CHR '']'' then Some ([v], r) else None))"
| "scan_members 0 s = None"
| "scan_members (Suc n) s0 =
     (case skip_ws s0 of
        [] \<Rightarrow> None
      | q # s \<Rightarrow>
          if q \<noteq> CHR 0x22 then None
          else (case scan_string s of
              None \<Rightarrow> None
            | Some (k, r0) \<Rightarrow>
                (case skip_ws r0 of
                   [] \<Rightarrow> None
                 | c # r \<Rightarrow>
                     if c \<noteq> CHR '':'' then None
                     else (case scan_value n r of
                         None \<Rightarrow> None
                       | Some (v, r1) \<Rightarrow>
                           (case skip_ws r1 of
                              [] \<Rightarrow> None
                            | d # r2 \<Rightarrow> if d = CHR '','' then map_option (apfst (Cons (k, v))) (scan_members n r2)
                                else if d = CHR ''}'' then Some ([(k, v)], r2) else None)))))"

definition json_decode :: "gostring \<Rightarrow> json option" where
  "json_decode s =
     (case scan_value (2 * length s + 2) s of
        None \<Rightarrow> None
      | Some (v, r) \<Rightarrow> if skip_ws r = [] then Some v else None)"

section \<open>Structs\<close>

definition int_val :: "gostring \<Rightarrow> int" where
  "int_val s = foldl (\<lambda>n c. n * 10 + int (byte_val c - 48)) 0 s"

text \<open>A number as a signed integer of 64 bits: no fraction, no exponent, in range.\<close>
definition json_int64 :: "gostring \<Rightarrow> int option" where
  "json_int64 s =
     (let (neg, ds) = (if has_prefix s ''-'' then (True, tl s) else (False, s));
          n = (if neg then - int_val ds else int_val ds)
      in if list_all is_digit ds \<and> - (2 ^ 63) \<le> n \<and> n < 2 ^ 63 then Some n else None)"

text \<open>
  What the occurrences of a key leave in a field that starts with its zero value; None is a type
  mismatch, which fails the whole decoding.
\<close>
definition field_values :: "gostring \<Rightarrow> (gostring \<times> json) list \<Rightarrow> json list" where
  "field_values name kvs = filter (\<lambda>v. v \<noteq> JNull) (map snd (filter (\<lambda>kv. equal_fold (fst kv) name) kvs))"

definition string_field :: "gostring \<Rightarrow> (gostring \<times> json) list \<Rightarrow> gostring option" where
  "string_field name kvs =
     (let vs = field_values name kvs in
      if list_ex (\<lambda>v. case v of JStr _ \<Rightarrow> False | _ \<Rightarrow> True) vs then None
      else Some (if vs = [] then [] else (case last vs of JStr s \<Rightarrow> s | _ \<Rightarrow> [])))"

definition int_field :: "gostring \<Rightarrow> (gostring \<times> json) list \<Rightarrow> int option" where
  "int_field name kvs =
     (let vs = field_values name kvs in
      if list_ex (\<lambda>v. case v of JNum s \<Rightarrow> json_int64 s = None | _ \<Rightarrow> True) vs then None
      else Some (if vs = [] then 0 else (case last vs of JNum s \<Rightarrow> (case json_int64 s of Some n \<Rightarrow> n | None \<Rightarrow> 0) | _ \<Rightarrow> 0)))"

text \<open>The members of an object document; null leaves a struct as it is.\<close>
definition decode_members :: "gostring \<Rightarrow> (gostring \<times> json) list option" where
  "decode_members s = (case json_decode s of Some (JObj kvs) \<Rightarrow> Some kvs | Some JNull \<Rightarrow> Some [] | _ \<Rightarrow> None)"

section \<open>Round trip\<close>

lemma char_of_byte [simp]: "char_of (byte_val c) = c"
  by simp

lemma unescape_hex:
  assumes "n < 128"
  shows "unescape (''u00'' @ [hex_char (n div 16), hex_char (n mod 16)] @ r) = Some ([char_of n], r)"
proof -
  have "n div 16 < 16" using assms by simp
  then have "hex4 (''00'' @ [hex_char (n div 16), hex_char (n mod 16)] @ r) = Some n"
    by (simp add: hex4_def) (simp add: hex_val_def)
  then show ?thesis using assms by (simp add: unescape_def utf8_encode_def)
qed

lemma utf8_len_ascii: "byte_val c < 128 \<Longrightarrow> utf8_len (c # r) = 1"
  by (simp add: utf8_len_def byte_in_def)

lemma string_unit_escape:
  assumes "byte_val c < 128"
  shows "string_unit (escape_ascii c @ r) = Some ([c], r)"
proof -
  let ?n = "byte_val c"
  have c: "c = char_of ?n" by simp
  have low: "c = char_of k" if "?n = k" for k using that by (metis c)
  consider "c = CHR 0x22 \<or> c = CHR 0x5C" | "c \<noteq> CHR 0x22" "c \<noteq> CHR 0x5C" "?n \<in> {8, 9, 10, 12, 13}"
    | "c \<noteq> CHR 0x22" "c \<noteq> CHR 0x5C" "?n \<notin> {8, 9, 10, 12, 13}" "?n < 32 \<or> c \<in> set ''<>&''"
    | "c \<noteq> CHR 0x22" "c \<noteq> CHR 0x5C" "?n \<notin> {8, 9, 10, 12, 13}" "\<not> (?n < 32 \<or> c \<in> set ''<>&'')" by blast
  then show ?thesis
  proof cases
    case 1
    then show ?thesis by (auto simp: escape_ascii_def string_unit_def unescape_def)
  next
    case 2
    have chars: "char_of (8::nat) = CHR 0x08" "char_of (9::nat) = CHR 0x09" "char_of (10::nat) = CHR 0x0A"
      "char_of (12::nat) = CHR 0x0C" "char_of (13::nat) = CHR 0x0D" by code_simp+
    have "c = CHR 0x08 \<or> c = CHR 0x09 \<or> c = CHR 0x0A \<or> c = CHR 0x0C \<or> c = CHR 0x0D"
      using 2(3) low [of 8] low [of 9] low [of 10] low [of 12] low [of 13] unfolding chars by blast
    then show ?thesis by (elim disjE) (simp_all add: escape_ascii_def string_unit_def unescape_def)
  next
    case 3
    then have "escape_ascii c = CHR 0x5C # ''u00'' @ [hex_char (?n div 16), hex_char (?n mod 16)]"
      by (simp add: escape_ascii_def Let_def)
    then show ?thesis using unescape_hex [OF assms, of r] by (simp add: string_unit_def)
  next
    case 4
    then have "escape_ascii c = [c]" by (auto simp: escape_ascii_def Let_def)
    then show ?thesis using 4 assms by (simp add: string_unit_def utf8_len_ascii)
  qed
qed

lemma escape_no_quote: "escape_ascii c \<noteq> [] \<and> hd (escape_ascii c) \<noteq> CHR 0x22"
  by (auto simp: escape_ascii_def Let_def)

lemma scan_string_escape: "is_ascii s \<Longrightarrow> scan_string (json_escape s @ CHR 0x22 # r) = Some (s, r)"
proof (induction s)
  case Nil
  then show ?case by (simp add: scan_string.simps [of "CHR 0x22 # r"] json_escape.simps)
next
  case (Cons c s)
  have c: "byte_val c < 128" and s: "is_ascii s" using Cons.prems by (simp_all add: is_ascii_def)
  let ?r = "json_escape s @ CHR 0x22 # r"
  have e: "json_escape (c # s) @ CHR 0x22 # r = escape_ascii c @ ?r" by (subst json_escape.simps) (simp add: c)
  have "scan_string (escape_ascii c @ ?r) = map_option (apfst (append [c])) (scan_string ?r)"
    by (subst scan_string.simps) (use escape_no_quote [of c] string_unit_escape [OF c, of ?r] in \<open>simp add: hd_append\<close>)
  then show ?case using Cons.IH [OF s] unfolding e by simp
qed

lemma int_digits_dec: "0 \<le> n \<Longrightarrow> int_digits n = dec_digits (nat n)"
proof (induction n rule: int_digits.induct)
  case (1 n)
  show ?case
  proof (cases "n < 10")
    case True
    then show ?thesis by (subst int_digits.simps, subst dec_digits.simps) simp
  next
    case False
    have "nat (n div 10) = nat n div 10" "nat (n mod 10) = nat n mod 10" using "1.prems" by (simp_all add: nat_div_distrib nat_mod_distrib)
    moreover have "int_digits (n div 10) = dec_digits (nat (n div 10))" using 1 False by simp
    ultimately show ?thesis using False by (simp add: int_digits.simps [of n] dec_digits.simps [of "nat n"])
  qed
qed

lemma dec_digits_hd: "hd (dec_digits n) = CHR ''0'' \<Longrightarrow> n = 0"
proof (induction n rule: dec_digits.induct)
  case (1 n)
  show ?case
  proof (cases "n < 10")
    case True
    with 1 have "char_of (n + 48) = CHR ''0''" by (subst (asm) dec_digits.simps) simp
    then have "byte_val (char_of (n + 48)) = byte_val CHR ''0''" by (rule arg_cong)
    then show ?thesis using True by simp
  next
    case False
    with 1(2) have "hd (dec_digits (n div 10)) = CHR ''0''" by (subst (asm) dec_digits.simps) (simp add: hd_append)
    with 1(1) False show ?thesis by simp
  qed
qed

lemma int_val_dec: "list_all is_digit s \<Longrightarrow> int_val s = int (dec_val s)"
proof (induction s rule: rev_induct)
  case (snoc c s)
  then have "int_val s = int (dec_val s)" by simp
  then show ?case by (simp add: int_val_def)
qed (simp add: int_val_def dec_val_def)

lemma digits_all: "0 \<le> n \<Longrightarrow> list_all is_digit (int_digits n) \<and> int_digits n \<noteq> []"
  using dec_digits_digit [of "nat n"] by (simp add: int_digits_dec list_all_iff)

lemma int_val_digits: "0 \<le> n \<Longrightarrow> int_val (int_digits n) = n"
  using digits_all [of n] by (simp add: int_val_dec) (simp add: int_digits_dec)

lemma json_int64_show: "- (2 ^ 63) \<le> n \<Longrightarrow> n < 2 ^ 63 \<Longrightarrow> json_int64 (show_int n) = Some n"
  using digits_all [of n] digits_all [of "- n"] int_val_digits [of n] int_val_digits [of "- n"]
  by (cases "int_digits n") (auto simp: json_int64_def show_int_def has_prefix_def is_digit_def Let_def)

definition value_end :: "gostring \<Rightarrow> bool" where
  "value_end r \<longleftrightarrow> r \<noteq> [] \<and> hd r \<in> set '',}''"

lemma scan_int_part_digits:
  assumes "0 \<le> n" and "value_end r"
  shows "scan_int_part (int_digits n @ r) = Some (int_digits n, r)"
proof -
  obtain d ds where ds: "int_digits n = d # ds" "is_digit d" "list_all is_digit ds"
    using digits_all [OF assms(1)] by (cases "int_digits n") auto
  have r: "takeWhile is_digit r = []" "dropWhile is_digit r = r"
    using assms(2) by (cases r; auto simp: value_end_def is_digit_def)+
  show ?thesis
  proof (cases "d = CHR ''0''")
    case True
    then have "n = 0" using dec_digits_hd [of "nat n"] ds(1) assms(1) by (simp add: int_digits_dec)
    moreover have "int_digits 0 = ''0''" by code_simp
    ultimately have "int_digits n = ''0''" by simp
    then show ?thesis by (simp add: scan_int_part_def)
  next
    case False
    have "takeWhile is_digit (ds @ r) = ds" "dropWhile is_digit (ds @ r) = r"
      using ds(3) r by (simp_all add: takeWhile_append2 dropWhile_append2 list_all_iff)
    then show ?thesis using False ds by (simp add: scan_int_part_def digits_of_def)
  qed
qed

lemma scan_number_show:
  assumes "value_end r"
  shows "scan_number (show_int n @ r) = Some (show_int n, r)"
proof -
  have f: "scan_frac r = Some ([], r)" "scan_exp r = Some ([], r)"
    using assms by (cases r; auto simp: value_end_def scan_frac_def scan_exp_def has_prefix_def)+
  have nd: "\<not> has_prefix (int_digits m @ r) ''-''" if "0 \<le> m" for m
    using digits_all [OF that] by (cases "int_digits m") (auto simp: has_prefix_def is_digit_def)
  show ?thesis
  proof (cases "n < 0")
    case True
    then show ?thesis using scan_int_part_digits [of "- n", OF _ assms] f
      by (simp add: scan_number_def show_int_def has_prefix_def)
  next
    case False
    then show ?thesis using scan_int_part_digits [of n, OF _ assms] f nd [of n]
      by (simp add: scan_number_def show_int_def)
  qed
qed

definition flat_json :: "flat \<Rightarrow> json" where
  "flat_json v = (case v of FStr s \<Rightarrow> JStr s | FInt n \<Rightarrow> JNum (show_int n))"

definition flat_ascii :: "flat \<Rightarrow> bool" where
  "flat_ascii v = (case v of FStr s \<Rightarrow> is_ascii s | FInt n \<Rightarrow> True)"

lemma scan_value_flat:
  assumes "flat_ascii v" and "value_end r"
  shows "scan_value (Suc n) (flat_string v @ r) = Some (flat_json v, r)"
proof (cases v)
  case (FStr s)
  have "skip_ws (CHR 0x22 # x) = CHR 0x22 # x" for x by (simp add: json_space_def)
  then show ?thesis using assms FStr scan_string_escape [of s r]
    by (simp add: flat_string_def flat_json_def flat_ascii_def json_quote_def)
next
  case (FInt i)
  obtain c x where s: "show_int i @ r = c # x" "c = CHR ''-'' \<or> is_digit c"
  proof (cases "i < 0")
    case True
    then show thesis using that [of "CHR ''-''" "int_digits (- i) @ r"] by (simp add: show_int_def)
  next
    case False
    then obtain d ds where "int_digits i = d # ds" "is_digit d" using digits_all [of i] by (cases "int_digits i") auto
    then show thesis using that [of d "ds @ r"] False by (simp add: show_int_def)
  qed
  have "skip_ws (c # x) = c # x" "c \<noteq> CHR 0x22" "c \<noteq> CHR ''[''" "c \<noteq> CHR ''{''"
    "\<not> has_prefix (c # x) ''null''" "\<not> has_prefix (c # x) ''true''" "\<not> has_prefix (c # x) ''false''"
    using s(2) by (auto simp: json_space_def is_digit_def has_prefix_def)
  then have "scan_value (Suc n) (c # x) = map_option (apfst JNum) (scan_number (c # x))" by (simp del: dropWhile.simps)
  then show ?thesis using s(1) scan_number_show [OF assms(2), of i] FInt by (simp add: flat_string_def flat_json_def)
qed

lemma scan_members_flat:
  assumes "kvs \<noteq> []" and "\<forall>(k, v) \<in> set kvs. is_ascii k \<and> flat_ascii v" and "Suc (length kvs) \<le> n"
  shows "scan_members n (join '','' (map (\<lambda>(k, v). json_quote k @ '':'' @ flat_string v) kvs) @ CHR ''}'' # r)
    = Some (map (\<lambda>(k, v). (k, flat_json v)) kvs, r)"
  using assms
proof (induction kvs arbitrary: n)
  case (Cons kv kvs)
  obtain k v where kv: "kv = (k, v)" by (cases kv)
  obtain m where n: "n = Suc (Suc m)" using Cons.prems(3) by (cases n; cases "n - 1") auto
  have a: "is_ascii k" "flat_ascii v" using Cons.prems(2) kv by auto
  let ?tail = "if kvs = [] then CHR ''}'' # r
    else CHR '','' # join '','' (map (\<lambda>(k, v). json_quote k @ '':'' @ flat_string v) kvs) @ CHR ''}'' # r"
  have j: "join '','' (map (\<lambda>(k, v). json_quote k @ '':'' @ flat_string v) (kv # kvs)) @ CHR ''}'' # r
      = CHR 0x22 # json_escape k @ CHR 0x22 # CHR '':'' # flat_string v @ ?tail"
    by (cases kvs) (simp_all add: kv json_quote_def)
  have ve: "value_end ?tail" by (simp add: value_end_def)
  have ws: "skip_ws (c # x) = c # x" if "c \<in> {CHR 0x22, CHR '':'', CHR '','', CHR ''}''}" for c x
    using that by (auto simp: json_space_def)
  show ?case
  proof (cases "kvs = []")
    case True
    then show ?thesis unfolding j using a scan_string_escape [OF a(1)] scan_value_flat [OF a(2), of _ m] ve
      by (simp add: n ws kv value_end_def del: dropWhile.simps)
  next
    case False
    have "scan_members (Suc m) (join '','' (map (\<lambda>(k, v). json_quote k @ '':'' @ flat_string v) kvs) @ CHR ''}'' # r)
        = Some (map (\<lambda>(k, v). (k, flat_json v)) kvs, r)"
      by (rule Cons.IH [OF False]) (use Cons.prems n in auto)
    then show ?thesis unfolding j using False a scan_string_escape [OF a(1)] scan_value_flat [OF a(2), of _ m] ve
      by (simp add: n ws kv value_end_def del: dropWhile.simps)
  qed
qed simp

theorem json_object_roundtrip:
  assumes "kvs \<noteq> []" and "\<forall>(k, v) \<in> set kvs. is_ascii k \<and> flat_ascii v"
  shows "json_decode (encode_object kvs) = Some (JObj (map (\<lambda>(k, v). (k, flat_json v)) kvs))"
proof -
  let ?j = "join '','' (map (\<lambda>(k, v). json_quote k @ '':'' @ flat_string v) kvs)"
  have ws: "skip_ws (CHR ''{'' # x) = CHR ''{'' # x" for x by (simp add: json_space_def)
  obtain y where y: "?j = CHR 0x22 # y" using assms(1)
    by (cases kvs; cases "tl kvs") (auto simp: json_quote_def)
  have len: "length kvs \<le> length ?j"
  proof (induction kvs)
    case (Cons a kvs)
    then show ?case by (cases kvs; cases a) (simp_all add: json_quote_def)
  qed simp
  have m: "scan_members (Suc (2 * length (encode_object kvs))) (?j @ CHR ''}'' # []) = Some (map (\<lambda>(k, v). (k, flat_json v)) kvs, [])"
    by (rule scan_members_flat [OF assms]) (use len in \<open>simp add: encode_object_def\<close>)
  have "\<not> has_prefix (skip_ws (?j @ ''}'')) ''}''" unfolding y by (simp add: json_space_def has_prefix_def)
  with m have "scan_value (2 * length (encode_object kvs) + 2) (encode_object kvs) = Some (JObj (map (\<lambda>(k, v). (k, flat_json v)) kvs), [])"
    by (simp add: encode_object_def ws del: dropWhile.simps)
  then show ?thesis by (simp add: json_decode_def)
qed

end
