(* ===== verification/Ticket.thy ===== *)
theory Ticket imports
  Json
  Sha256
  Url
begin

text \<open>
  \<open>internal/download/ticket.go\<close>: the signed tickets in poll and download URLs, with real HMAC-SHA-256,
  base64 and JSON.
\<close>

datatype download_error = SigningKeyRequired | TicketTaskRequired | TicketPurposeRequired | InvalidTicket
  | ExpiredTicket | AttemptTooEarly | UnsafeTarget | ConcurrencyLimit | UnsafePath | URLBuild download_error
  | TaskNotFound gostring | DownloadEntropy gostring | StreamIdleTimeout | MediaSizeExceeded | DownloadMsg gostring

type_synonym ticket_purpose = gostring

definition purpose_poll :: ticket_purpose where "purpose_poll = ''poll''"
definition purpose_download :: ticket_purpose where "purpose_download = ''download''"
definition purpose_m3u8 :: ticket_purpose where "purpose_m3u8 = ''m3u8_file''"

record ticket_claims =
  tc_task :: gostring
  tc_purpose :: ticket_purpose
  tc_expires :: gotime

definition int64_of :: "int \<Rightarrow> int" where
  "int64_of n = (n + 2 ^ 63) mod 2 ^ 64 - 2 ^ 63"

text \<open>\<open>UnixNano\<close> and \<open>time.Unix(0, n)\<close>.\<close>
definition unix_nano :: "gotime \<Rightarrow> int" where
  "unix_nano t = int64_of (t - unix_epoch)"

definition ticket_payload :: "ticket_claims \<Rightarrow> gostring" where
  "ticket_payload c = encode_object
     [(''tid'', FStr (tc_task c)), (''pur'', FStr (tc_purpose c)), (''exp'', FInt (unix_nano (tc_expires c)))]"

definition sign_ticket :: "gostring \<Rightarrow> ticket_claims \<Rightarrow> gotime \<Rightarrow> download_error + gostring" where
  "sign_ticket key claims0 now =
     (if key = [] then Inl SigningKeyRequired
      else
        let claims = claims0\<lparr>tc_task := trim_space (tc_task claims0)\<rparr> in
        if tc_task claims = [] then Inl TicketTaskRequired
        else if trim_space (tc_purpose claims) = [] then Inl TicketPurposeRequired
        else if tc_expires claims = zero_time \<or> \<not> tc_expires claims > now then Inl ExpiredTicket
        else
          let segment = b64_encode (ticket_payload claims);
              signature = b64_encode (hmac_sha256 key segment)
          in Inr (segment @ ''.'' @ signature))"

definition decode_payload :: "gostring \<Rightarrow> ticket_claims option" where
  "decode_payload bytes =
     (case decode_members bytes of
        None \<Rightarrow> None
      | Some kvs \<Rightarrow>
          (case (string_field ''tid'' kvs, string_field ''pur'' kvs, int_field ''exp'' kvs) of
             (Some tid, Some pur, Some ex) \<Rightarrow>
               Some \<lparr>tc_task = trim_space tid, tc_purpose = pur, tc_expires = unix_epoch + ex\<rparr>
           | _ \<Rightarrow> None))"

definition verify_ticket :: "gostring \<Rightarrow> gostring \<Rightarrow> ticket_purpose \<Rightarrow> gotime \<Rightarrow> download_error + ticket_claims" where
  "verify_ticket key raw0 purpose now =
     rbind (require (key \<noteq> []) SigningKeyRequired) (\<lambda>_.
       let raw = trim_space raw0 in
       rbind (require (raw \<noteq> []) InvalidTicket) (\<lambda>_.
         (case split_on CHR ''.'' raw of
            [p0, p1] \<Rightarrow>
              rbind (require (p0 \<noteq> [] \<and> p1 \<noteq> []) InvalidTicket) (\<lambda>_.
              rbind (require (b64_decode p1 = Some (hmac_sha256 key p0)) InvalidTicket) (\<lambda>_.
              rbind (or_error InvalidTicket (b64_decode p0)) (\<lambda>bytes.
              rbind (or_error InvalidTicket (decode_payload bytes)) (\<lambda>claims.
              rbind (require (tc_task claims \<noteq> []) TicketTaskRequired) (\<lambda>_.
              rbind (require (trim_space (tc_purpose claims) \<noteq> []) TicketPurposeRequired) (\<lambda>_.
              rbind (require (tc_purpose claims = purpose) InvalidTicket) (\<lambda>_.
              rbind (require (tc_expires claims \<noteq> zero_time \<and> tc_expires claims > now) ExpiredTicket) (\<lambda>_.
                Inr claims))))))))
          | _ \<Rightarrow> Inl InvalidTicket)))"

section \<open>Facts\<close>

lemma int64_of_id: "- (2 ^ 63) \<le> n \<Longrightarrow> n < 2 ^ 63 \<Longrightarrow> int64_of n = n"
  by (simp add: int64_of_def)

lemma int64_of_range: "- (2 ^ 63) \<le> int64_of n \<and> int64_of n < 2 ^ 63"
proof -
  have "0 \<le> (n + 2 ^ 63) mod 2 ^ 64" "(n + 2 ^ 63) mod 2 ^ 64 < 2 ^ 64" by simp_all
  then show ?thesis by (simp add: int64_of_def)
qed

lemma split_on_two:
  assumes "d \<notin> set a" and "d \<notin> set b"
  shows "split_on d (a @ d # b) = [a, b]"
proof -
  have one: "split_on d x = [x]" if "d \<notin> set x" for x using that by (induction x) auto
  from assms(1) show ?thesis by (induction a) (auto simp: one [OF assms(2)])
qed

lemma join_split_on: "join [d] (split_on d s) = s"
proof (induction s)
  case (Cons c s)
  have ne: "split_on d s \<noteq> []" by (cases s) (auto split: list.splits)
  then obtain w ws where w: "split_on d s = w # ws" by (cases "split_on d s") auto
  show ?case using Cons ne by (cases ws) (auto simp: w)
qed simp

lemma b64_char_token: "n < 64 \<Longrightarrow> token_char (b64_char n)"
  by (auto simp: token_char_def b64_char_def is_alnum_def Let_def)

lemma b64_encode_token: "list_all token_char (b64_encode s)"
  using b64_digits_less [of s] by (auto simp: b64_encode_def list_all_iff b64_char_token)

lemma ticket_fields:
  "field_values ''tid'' [(''tid'', a), (''pur'', b), (''exp'', c)] = filter (\<lambda>v. v \<noteq> JNull) [a]"
  "field_values ''pur'' [(''tid'', a), (''pur'', b), (''exp'', c)] = filter (\<lambda>v. v \<noteq> JNull) [b]"
  "field_values ''exp'' [(''tid'', a), (''pur'', b), (''exp'', c)] = filter (\<lambda>v. v \<noteq> JNull) [c]"
proof -
  have "equal_fold ''tid'' ''tid''" "\<not> equal_fold ''pur'' ''tid''" "\<not> equal_fold ''exp'' ''tid''"
    "equal_fold ''pur'' ''pur''" "\<not> equal_fold ''tid'' ''pur''" "\<not> equal_fold ''exp'' ''pur''"
    "equal_fold ''exp'' ''exp''" "\<not> equal_fold ''tid'' ''exp''" "\<not> equal_fold ''pur'' ''exp''" by code_simp+
  then show
    "field_values ''tid'' [(''tid'', a), (''pur'', b), (''exp'', c)] = filter (\<lambda>v. v \<noteq> JNull) [a]"
    "field_values ''pur'' [(''tid'', a), (''pur'', b), (''exp'', c)] = filter (\<lambda>v. v \<noteq> JNull) [b]"
    "field_values ''exp'' [(''tid'', a), (''pur'', b), (''exp'', c)] = filter (\<lambda>v. v \<noteq> JNull) [c]"
    unfolding field_values_def by simp_all
qed

lemma decode_ticket_payload:
  assumes "is_ascii (tc_task c)" and "is_ascii (tc_purpose c)"
  shows "decode_payload (ticket_payload c) =
    Some \<lparr>tc_task = trim_space (tc_task c), tc_purpose = tc_purpose c, tc_expires = unix_epoch + unix_nano (tc_expires c)\<rparr>"
proof -
  let ?kvs = "[(''tid'', FStr (tc_task c)), (''pur'', FStr (tc_purpose c)), (''exp'', FInt (unix_nano (tc_expires c)))]"
  have k: "is_ascii ''tid''" "is_ascii ''pur''" "is_ascii ''exp''" by (simp_all add: is_ascii_def)
  have "json_decode (encode_object ?kvs) = Some (JObj (map (\<lambda>(k, v). (k, flat_json v)) ?kvs))"
    by (rule json_object_roundtrip) (use assms k in \<open>simp_all add: flat_ascii_def\<close>)
  then have "decode_members (ticket_payload c) = Some [(''tid'', JStr (tc_task c)), (''pur'', JStr (tc_purpose c)),
      (''exp'', JNum (show_int (unix_nano (tc_expires c))))]"
    by (simp add: decode_members_def ticket_payload_def flat_json_def)
  then show ?thesis using json_int64_show [of "unix_nano (tc_expires c)"] int64_of_range [of "tc_expires c - unix_epoch"]
    by (simp add: decode_payload_def string_field_def int_field_def ticket_fields unix_nano_def)
qed

text \<open>A signed ticket verifies.\<close>
lemma signed_verifies:
  assumes "sign_ticket key c now = Inr raw" and "is_ascii (trim_space (tc_task c))" and "is_ascii (tc_purpose c)"
    and "- (2 ^ 63) \<le> tc_expires c - unix_epoch" and "tc_expires c - unix_epoch < 2 ^ 63" and "now' < tc_expires c"
  shows "verify_ticket key raw (tc_purpose c) now' = Inr (c\<lparr>tc_task := trim_space (tc_task c)\<rparr>)"
proof -
  let ?c = "c\<lparr>tc_task := trim_space (tc_task c)\<rparr>"
  let ?seg = "b64_encode (ticket_payload ?c)" and ?sig = "b64_encode (hmac_sha256 key (b64_encode (ticket_payload ?c)))"
  have g: "key \<noteq> []" "trim_space (tc_task c) \<noteq> []" "trim_space (tc_purpose c) \<noteq> []" "tc_expires c \<noteq> zero_time"
    and raw: "raw = ?seg @ ''.'' @ ?sig"
    using assms(1) by (simp_all add: sign_ticket_def Let_def split: if_splits)
  have "list_all token_char raw" using b64_encode_token unfolding raw by (simp add: token_char_def)
  then have trim: "trim_space raw = raw" by (rule trim_space_token)
  have split: "split_on CHR ''.'' raw = [?seg, ?sig]"
    unfolding raw using split_on_two [of "CHR ''.''" ?seg ?sig] b64_encode_no_dot by simp
  have ne: "raw \<noteq> []" "?seg \<noteq> []" "?sig \<noteq> []"
    using length_hmac [of key ?seg] by (auto simp: raw ticket_payload_def encode_object_def simp del: length_hmac)
  have dec: "decode_payload (ticket_payload ?c) = Some ?c"
    using decode_ticket_payload [of ?c] assms(2,3) int64_of_id [OF assms(4,5)] by (simp add: unix_nano_def)
  show ?thesis
    unfolding verify_ticket_def Let_def trim split list.case
    using g ne assms(6) by (simp add: require_def or_error_def b64_roundtrip dec)
qed

lemma signed_plain:
  assumes "sign_ticket key c now = Inr raw"
  shows "trim_space raw = raw" and "raw \<noteq> []"
proof -
  let ?c = "c\<lparr>tc_task := trim_space (tc_task c)\<rparr>"
  have raw: "raw = b64_encode (ticket_payload ?c) @ ''.'' @ b64_encode (hmac_sha256 key (b64_encode (ticket_payload ?c)))"
    using assms by (simp add: sign_ticket_def Let_def split: if_splits)
  then have "list_all token_char raw" using b64_encode_token by (simp add: token_char_def)
  then show "trim_space raw = raw" by (rule trim_space_token)
  show "raw \<noteq> []" by (simp add: raw)
qed

text \<open>
  C14.  A ticket that was signed verifies: under the same key, for its purpose and before its expiry the
  verification answers the claims that were signed, the task identifier trimmed.  (Identifiers and
  purposes are ASCII, and the expiry lies within the range of 64-bit nanoseconds.)
\<close>
theorem ticket_roundtrip:
  assumes "sign_ticket key c now = Inr raw" and "is_ascii (trim_space (tc_task c))" and "is_ascii (tc_purpose c)"
    and "- (2 ^ 63) \<le> tc_expires c - unix_epoch" and "tc_expires c - unix_epoch < 2 ^ 63" and "now' < tc_expires c"
  shows "verify_ticket key raw (tc_purpose c) now' = Inr (c\<lparr>tc_task := trim_space (tc_task c)\<rparr>)"
  by (rule signed_verifies [OF assms])

text \<open>What a ticket that verifies is.\<close>
lemma verified_signed:
  assumes "verify_ticket key raw purpose now = Inr c"
  shows "\<exists>seg sig bytes. trim_space raw = seg @ ''.'' @ sig \<and> b64_decode sig = Some (hmac_sha256 key seg) \<and>
    b64_decode seg = Some bytes \<and> decode_payload bytes = Some c \<and>
    key \<noteq> [] \<and> tc_purpose c = purpose \<and> tc_task c \<noteq> [] \<and> now < tc_expires c"
proof -
  obtain p0 p1 where s: "split_on CHR ''.'' (trim_space raw) = [p0, p1]"
    using assms by (auto simp: verify_ticket_def go_errors Let_def split: list.splits)
  have "trim_space raw = p0 @ ''.'' @ p1" using join_split_on [of "CHR ''.''" "trim_space raw"] by (simp add: s)
  moreover obtain bytes where "b64_decode p1 = Some (hmac_sha256 key p0)" "b64_decode p0 = Some bytes"
      "decode_payload bytes = Some c" "key \<noteq> []" "tc_purpose c = purpose" "tc_task c \<noteq> []" "now < tc_expires c"
    using assms unfolding verify_ticket_def Let_def s list.case go_errors by blast
  ultimately show ?thesis by blast
qed

text \<open>
  C15.  Only signed tickets verify: an accepted ticket consists of two segments, the second of which
  decodes to the HMAC-SHA-256 of the first under the service's key; its claims are the ones the first
  segment encodes, they name the purpose asked for and a task, and they have not expired.
\<close>
theorem ticket_authentic:
  assumes "verify_ticket key raw purpose now = Inr c"
  shows "\<exists>seg sig bytes. trim_space raw = seg @ ''.'' @ sig \<and> b64_decode sig = Some (hmac_sha256 key seg) \<and>
    b64_decode seg = Some bytes \<and> decode_payload bytes = Some c \<and>
    key \<noteq> [] \<and> tc_purpose c = purpose \<and> tc_task c \<noteq> [] \<and> now < tc_expires c"
  by (rule verified_signed [OF assms])

section \<open>A concrete ticket\<close>

definition demo_claims :: ticket_claims where
  "demo_claims = \<lparr>tc_task = '' download_abc '', tc_purpose = purpose_poll, tc_expires = unix_epoch + 100\<rparr>"

lemma demo_claims_facts:
  "is_ascii (trim_space (tc_task demo_claims))" "is_ascii (tc_purpose demo_claims)"
  "trim_space (tc_task demo_claims) = ''download_abc''" "trim_space (tc_purpose demo_claims) \<noteq> []"
  "tc_expires demo_claims = unix_epoch + 100" "tc_purpose demo_claims = purpose_poll" "0 < unix_epoch"
  by code_simp+

lemma demo_ticket: obtains raw where "sign_ticket ''key'' demo_claims unix_epoch = Inr raw"
  using demo_claims_facts by (simp add: sign_ticket_def Let_def)

theorem ticket_roundtrip_witness:
  "\<exists>raw. sign_ticket ''key'' demo_claims unix_epoch = Inr raw \<and>
     verify_ticket ''key'' raw purpose_poll (unix_epoch + 99) = Inr (demo_claims\<lparr>tc_task := ''download_abc''\<rparr>)"
proof -
  obtain raw where raw: "sign_ticket ''key'' demo_claims unix_epoch = Inr raw" by (rule demo_ticket)
  from ticket_roundtrip [OF raw demo_claims_facts(1,2), of "unix_epoch + 99"] raw
  show ?thesis by (simp add: demo_claims_facts)
qed

theorem ticket_authentic_witness:
  "\<exists>raw c. verify_ticket ''key'' raw purpose_poll unix_epoch = Inr c \<and> unix_epoch < tc_expires c \<and>
     (\<exists>seg sig. trim_space raw = seg @ ''.'' @ sig \<and> b64_decode sig = Some (hmac_sha256 ''key'' seg))"
proof -
  let ?c = "\<lparr>tc_task = ''download_abc'', tc_purpose = purpose_poll, tc_expires = unix_epoch + 100\<rparr>"
  let ?seg = "b64_encode (ticket_payload ?c)"
  let ?raw = "?seg @ ''.'' @ b64_encode (hmac_sha256 ''key'' ?seg)"
  have a: "is_ascii ''download_abc''" "is_ascii purpose_poll" "trim_space ''download_abc'' = ''download_abc''"
    "trim_space purpose_poll \<noteq> []" by code_simp+
  have "list_all token_char ?raw" using b64_encode_token by (simp add: token_char_def)
  then have trim: "trim_space ?raw = ?raw" by (rule trim_space_token)
  have split: "split_on CHR ''.'' ?raw = [?seg, b64_encode (hmac_sha256 ''key'' ?seg)]"
    using split_on_two [of "CHR ''.''" ?seg] b64_encode_no_dot by simp
  have ne: "?seg \<noteq> []" "b64_encode (hmac_sha256 ''key'' ?seg) \<noteq> []"
    using length_hmac [of "''key''" ?seg] by (auto simp: ticket_payload_def encode_object_def simp del: length_hmac)
  have "decode_payload (ticket_payload ?c) = Some ?c"
    using decode_ticket_payload [of ?c] a by (simp add: unix_nano_def int64_of_def)
  then have v: "verify_ticket ''key'' ?raw purpose_poll unix_epoch = Inr ?c"
    unfolding verify_ticket_def Let_def trim split list.case
    using ne a demo_claims_facts(7) by (simp add: require_def or_error_def b64_roundtrip)
  from ticket_authentic [OF v] v show ?thesis by blast
qed

end
