(* ===== verification/Download.thy ===== *)
theory Download imports
  Ticket
  NetGuard
  "HOL-Library.Multiset"
begin

text \<open>
  \<open>internal/download/service.go\<close>: fallback downloads and their files.  The service mutex makes every
  access to the maps one step; the file system is a map from paths to nodes, and each system call may
  fail as the argument \<open>fault\<close> says.  A clock reading is an argument.
\<close>

section \<open>Requests and views\<close>

datatype media_type = MediaVideo | MediaAudio | MediaImage | MediaOther gostring

definition max_bytes :: "media_type \<Rightarrow> download_error + int" where
  "max_bytes m =
     (case m of
        MediaVideo \<Rightarrow> Inr (300 * 1048576)
      | MediaAudio \<Rightarrow> Inr (50 * 1048576)
      | MediaImage \<Rightarrow> Inr (20 * 1048576)
      | MediaOther _ \<Rightarrow> Inl (DownloadMsg ''unsupported download media type''))"

datatype dl_status = DlPending | DlRunning | DlCompleted | DlFailed

record task_view =
  tv_id :: gostring
  tv_status :: dl_status
  tv_progress :: int
  tv_poll :: gostring
  tv_download :: gostring
  tv_file :: gostring
  tv_expires :: gotime

definition new_view :: "gostring \<Rightarrow> gostring \<Rightarrow> gotime \<Rightarrow> task_view" where
  "new_view tid poll ex = \<lparr>tv_id = tid, tv_status = DlPending, tv_progress = 0, tv_poll = poll, tv_download = [],
     tv_file = [], tv_expires = ex\<rparr>"

record download_config =
  dc_key :: gostring
  dc_root :: gostring
  dc_base :: gostring
  dc_ttl :: duration
  dc_global :: int
  dc_per_client :: int

record download_state =
  ds_active :: int
  ds_by_client :: "(gostring, int) gomap"
  ds_tasks :: "(gostring, task_view) gomap"
  ds_files :: "(gostring, gostring \<times> gostring) gomap"

definition trim_slashes :: "gostring \<Rightarrow> gostring" where
  "trim_slashes s = rev (dropWhile (\<lambda>c. c = CHR ''/'') (rev s))"

text \<open>\<open>NewService\<close>; \<open>tmp\<close> is the system's directory for temporary files.\<close>
definition new_download_service :: "gostring \<Rightarrow> download_config \<Rightarrow> download_error + download_config \<times> download_state" where
  "new_download_service tmp opts =
     (if dc_key opts = [] then Inl SigningKeyRequired
      else Inr (\<lparr>dc_key = dc_key opts,
          dc_root = (if trim_space (dc_root opts) = [] then tmp @ ''/watermark-download'' else trim_space (dc_root opts)),
          dc_base = trim_slashes (trim_space (dc_base opts)),
          dc_ttl = (if dc_ttl opts \<le> 0 then 30 * minute else dc_ttl opts),
          dc_global = (if dc_global opts \<le> 0 then 2 else dc_global opts),
          dc_per_client = (if dc_per_client opts \<le> 0 then 1 else dc_per_client opts)\<rparr>,
        \<lparr>ds_active = 0, ds_by_client = [], ds_tasks = [], ds_files = []\<rparr>))"

section \<open>URLs and identifiers\<close>

definition with_base_url :: "download_config \<Rightarrow> gostring \<Rightarrow> gostring" where
  "with_base_url cfg path =
     (if dc_base cfg = [] then path
      else if has_prefix path ''/'' then dc_base cfg @ path
      else dc_base cfg @ ''/'' @ path)"

definition build_ticket_url :: "download_config \<Rightarrow> gostring \<Rightarrow> gostring \<Rightarrow> ticket_purpose \<Rightarrow> gotime \<Rightarrow> gotime
    \<Rightarrow> download_error + gostring" where
  "build_ticket_url cfg path tid purpose ex now =
     (case sign_ticket (dc_key cfg) \<lparr>tc_task = tid, tc_purpose = purpose, tc_expires = ex\<rparr> now of
        Inl e \<Rightarrow> Inl (URLBuild e)
      | Inr ticket \<Rightarrow> Inr (with_base_url cfg (path @ ''?ticket='' @ ticket)))"

text \<open>\<open>entropy\<close>: the 16 bytes read, or the error of reading them.\<close>
definition dl_generate_id :: "gostring + gostring \<Rightarrow> gostring \<Rightarrow> download_error + gostring" where
  "dl_generate_id entropy prefix =
     (case entropy of Inl e \<Rightarrow> Inl (DownloadEntropy e) | Inr raw \<Rightarrow> Inr (prefix @ ''_'' @ b64_encode raw))"

definition validated_media_target :: "idna \<Rightarrow> gostring \<Rightarrow> url option" where
  "validated_media_target idna raw = new_fetch_url idna (trim_space raw)"

section \<open>Fallback and playlist tasks\<close>

record fallback_request =
  fb_url :: gostring
  fb_type :: media_type
  fb_attempt :: int

text \<open>\<open>now\<close> is read twice: for the expiry and for the ticket.\<close>
definition create_fallback :: "idna \<Rightarrow> download_config \<Rightarrow> download_error option \<Rightarrow> gostring + gostring \<Rightarrow> gotime \<Rightarrow> gotime
    \<Rightarrow> fallback_request \<Rightarrow> download_state \<Rightarrow> download_state \<times> (download_error + task_view)" where
  "create_fallback idna cfg ctx entropy now now' q st =
     (let r = rbind (case ctx of Some e \<Rightarrow> Inl e | None \<Rightarrow> Inr ()) (\<lambda>_.
              rbind (require (fb_attempt q \<ge> 4) AttemptTooEarly) (\<lambda>_.
              rbind (require (validated_media_target idna (fb_url q) \<noteq> None) UnsafeTarget) (\<lambda>_.
              rbind (max_bytes (fb_type q)) (\<lambda>_.
              rbind (dl_generate_id entropy ''download'') (\<lambda>tid.
                let ex = now + dc_ttl cfg in
                rbind (build_ticket_url cfg (''/api/download/fallback/'' @ tid) tid purpose_poll ex now') (\<lambda>poll.
                  Inr (new_view tid poll ex)))))))
      in (case r of
            Inl e \<Rightarrow> (st, Inl e)
          | Inr v \<Rightarrow> (st\<lparr>ds_tasks := AList.update (tv_id v) v (ds_tasks st)\<rparr>, Inr v)))"

definition create_m3u8 :: "idna \<Rightarrow> download_config \<Rightarrow> download_error option \<Rightarrow> gostring + gostring \<Rightarrow> gotime
    \<Rightarrow> gostring \<Rightarrow> download_state \<Rightarrow> download_state \<times> (download_error + task_view)" where
  "create_m3u8 idna cfg ctx entropy now url st =
     (let r = rbind (case ctx of Some e \<Rightarrow> Inl e | None \<Rightarrow> Inr ()) (\<lambda>_.
              rbind (require (validated_media_target idna url \<noteq> None) UnsafeTarget) (\<lambda>_.
              rbind (dl_generate_id entropy ''media'') (\<lambda>tid.
                Inr (new_view tid (with_base_url cfg (''/api/task/'' @ tid)) (now + dc_ttl cfg)))))
      in (case r of
            Inl e \<Rightarrow> (st, Inl e)
          | Inr v \<Rightarrow> (st\<lparr>ds_tasks := AList.update (tv_id v) v (ds_tasks st)\<rparr>, Inr v)))"

text \<open>Reading a task: None is \<open>ok = false\<close>.\<close>
definition get_fallback :: "download_config \<Rightarrow> gostring \<Rightarrow> gostring \<Rightarrow> gotime \<Rightarrow> download_state
    \<Rightarrow> download_error + task_view option" where
  "get_fallback cfg tid0 ticket now st =
     (let tid = trim_space tid0 in
      rbind (verify_ticket (dc_key cfg) ticket purpose_poll now) (\<lambda>claims.
      rbind (require (tc_task claims = tid) InvalidTicket) (\<lambda>_.
        (case map_of (ds_tasks st) tid of
           None \<Rightarrow> Inr None
         | Some v \<Rightarrow>
             if tv_status v = DlCompleted \<and> tv_download v = [] then
               rbind (build_ticket_url cfg (''/api/download/file/'' @ tid) tid purpose_download (now + dc_ttl cfg) now)
                 (\<lambda>u. Inr (Some (v\<lparr>tv_download := u\<rparr>)))
             else Inr (Some v)))))"

definition get_m3u8 :: "download_config \<Rightarrow> gostring \<Rightarrow> gotime \<Rightarrow> download_state \<Rightarrow> download_error + task_view option" where
  "get_m3u8 cfg tid0 now st =
     (let tid = trim_space tid0 in
      (case map_of (ds_tasks st) tid of
         None \<Rightarrow> Inr None
       | Some v \<Rightarrow>
           if tv_status v = DlCompleted \<and> tv_file v = [] then
             rbind (build_ticket_url cfg (''/api/task/file/'' @ tid) tid purpose_m3u8 (now + dc_ttl cfg) now)
               (\<lambda>u. Inr (Some (v\<lparr>tv_file := u\<rparr>)))
           else Inr (Some v)))"

text \<open>\<open>ValidateFileTicket\<close> and \<open>ValidateDownloadTicket\<close> differ in the purpose.\<close>
definition validate_ticket :: "ticket_purpose \<Rightarrow> download_config \<Rightarrow> gostring \<Rightarrow> gostring \<Rightarrow> gotime \<Rightarrow> download_error option" where
  "validate_ticket purpose cfg tid ticket now =
     (case verify_ticket (dc_key cfg) ticket purpose now of
        Inl e \<Rightarrow> Some e
      | Inr claims \<Rightarrow> if tc_task claims \<noteq> trim_space tid then Some InvalidTicket else None)"

definition validate_file_ticket :: "download_config \<Rightarrow> gostring \<Rightarrow> gostring \<Rightarrow> gotime \<Rightarrow> download_error option" where
  "validate_file_ticket = validate_ticket purpose_m3u8"

definition validate_download_ticket :: "download_config \<Rightarrow> gostring \<Rightarrow> gostring \<Rightarrow> gotime \<Rightarrow> download_error option" where
  "validate_download_ticket = validate_ticket purpose_download"

section \<open>Transfers\<close>

definition client_or_anonymous :: "gostring \<Rightarrow> gostring" where
  "client_or_anonymous c = (if trim_space c = [] then ''anonymous'' else trim_space c)"

definition acquire_transfer :: "download_config \<Rightarrow> download_error option \<Rightarrow> gostring \<Rightarrow> download_state
    \<Rightarrow> download_error + download_state" where
  "acquire_transfer cfg ctx client0 st =
     (case ctx of
        Some e \<Rightarrow> Inl e
      | None \<Rightarrow>
          let client = client_or_anonymous client0 in
          if ds_active st \<ge> dc_global cfg \<or> get_or 0 (ds_by_client st) client \<ge> dc_per_client cfg
          then Inl ConcurrencyLimit
          else Inr (st\<lparr>ds_active := ds_active st + 1,
                 ds_by_client := AList.update client (get_or 0 (ds_by_client st) client + 1) (ds_by_client st)\<rparr>))"

text \<open>What the first call of the function \<open>AcquireTransfer\<close> returns does; later calls do nothing.\<close>
definition release_transfer :: "gostring \<Rightarrow> download_state \<Rightarrow> download_state" where
  "release_transfer client st =
     st\<lparr>ds_active := (if ds_active st > 0 then ds_active st - 1 else ds_active st),
        ds_by_client := (if get_or 0 (ds_by_client st) client > 1
          then AList.update client (get_or 0 (ds_by_client st) client - 1) (ds_by_client st)
          else AList.delete client (ds_by_client st))\<rparr>"

text \<open>Callers and their unreleased transfers.\<close>
inductive transfer_step :: "download_config \<Rightarrow> download_state \<times> gostring list \<Rightarrow> download_state \<times> gostring list \<Rightarrow> bool"
  for cfg where
  acquired: "acquire_transfer cfg ctx client st = Inr st' \<Longrightarrow>
      transfer_step cfg (st, held) (st', client_or_anonymous client # held)"
| refused: "acquire_transfer cfg ctx client st = Inl e \<Longrightarrow> transfer_step cfg (st, held) (st, held)"
| released: "client \<in> set held \<Longrightarrow> transfer_step cfg (st, held) (release_transfer client st, remove1 client held)"
| released_again: "transfer_step cfg (st, held) (st, held)"

inductive_cases transfer_stepE: "transfer_step cfg s s'"

section \<open>Files\<close>

definition safe_id_char :: "char \<Rightarrow> bool" where
  "safe_id_char c \<longleftrightarrow> is_alnum c \<or> c = CHR ''_'' \<or> c = CHR ''-''"

definition safe_task_id :: "gostring \<Rightarrow> bool" where
  "safe_task_id s \<longleftrightarrow> 8 \<le> length s \<and> length s \<le> 128 \<and> list_all safe_id_char s"

text \<open>\<open>filepath.Join\<close> of a cleaned absolute directory and a name without separators.\<close>
definition join_path :: "gostring \<Rightarrow> gostring \<Rightarrow> gostring" where
  "join_path root name = (if root = ''/'' then ''/'' @ name else root @ ''/'' @ name)"

text \<open>\<open>absolute\<close> is \<open>filepath.Abs\<close>, which answers a cleaned path.\<close>
definition task_file_path :: "(gostring \<Rightarrow> gostring option) \<Rightarrow> download_config \<Rightarrow> gostring \<Rightarrow> download_error + gostring" where
  "task_file_path absolute cfg tid =
     (if \<not> safe_task_id (trim_space tid) then Inl UnsafePath
      else (case absolute (dc_root cfg) of
          None \<Rightarrow> Inl UnsafePath
        | Some root \<Rightarrow>
            let path = join_path root (trim_space tid @ ''.bin'') in
            if has_prefix path (root @ ''/'') then Inr path else Inl UnsafePath))"

datatype node = FileNode gostring | LinkNode gostring

type_synonym filesystem = "(gostring, node) gomap"

datatype syscall = SysMkdir | SysChmodRoot | SysLstat gostring | SysOpen gostring | SysWrite | SysSync | SysClose
  | SysChmod gostring | SysRename | SysRemove gostring

type_synonym faults = "syscall \<Rightarrow> download_error option"

definition ensure_root :: "faults \<Rightarrow> download_config \<Rightarrow> download_error option" where
  "ensure_root fault cfg =
     (if trim_space (dc_root cfg) = [] then Some UnsafePath
      else (case fault SysMkdir of Some e \<Rightarrow> Some e | None \<Rightarrow> fault SysChmodRoot))"

definition reject_symlink :: "faults \<Rightarrow> filesystem \<Rightarrow> gostring \<Rightarrow> download_error option" where
  "reject_symlink fault fs path =
     (case fault (SysLstat path) of
        Some e \<Rightarrow> Some e
      | None \<Rightarrow> (case map_of fs path of Some (LinkNode _) \<Rightarrow> Some UnsafePath | _ \<Rightarrow> None))"

definition fails :: "download_error option \<Rightarrow> download_error + unit" where
  "fails e = (case e of Some x \<Rightarrow> Inl x | None \<Rightarrow> Inr ())"

text \<open>
  The system calls of \<open>WriteCompletedFile\<close> between the creation of the part file and its end: the file
  system then and the error.  \<open>O_EXCL\<close> refuses an existing part; \<open>wrote\<close> is what of the body reached
  the disk when a write fails.
\<close>
definition write_part :: "faults \<Rightarrow> gostring \<Rightarrow> gostring \<Rightarrow> gostring \<Rightarrow> gostring \<Rightarrow> filesystem
    \<Rightarrow> filesystem \<times> (download_error + unit)" where
  "write_part fault path part body wrote fs =
     (case fault (SysOpen part) of
        Some e \<Rightarrow> (fs, Inl e)
      | None \<Rightarrow>
          if map_of fs part \<noteq> None then (fs, Inl (DownloadMsg ''file exists''))
          else
            let full = (fault SysWrite = None);
                fs1 = AList.update part (FileNode (if full then body else wrote)) fs;
                r = rbind (fails (fault SysWrite)) (\<lambda>_.
                    rbind (fails (fault SysSync)) (\<lambda>_.
                    rbind (fails (fault SysClose)) (\<lambda>_.
                    rbind (fails (fault (SysChmod part))) (\<lambda>_.
                    rbind (fails (reject_symlink fault fs1 path)) (\<lambda>_.
                      fails (fault SysRename))))))
            in (case r of
                  Inl e \<Rightarrow> (fs1, Inl e)
                | Inr _ \<Rightarrow>
                    (AList.update path (FileNode body) (AList.delete part fs1), fails (fault (SysChmod path)))))"

definition remove_quietly :: "faults \<Rightarrow> gostring \<Rightarrow> filesystem \<Rightarrow> filesystem" where
  "remove_quietly fault p fs = (if fault (SysRemove p) = None then AList.delete p fs else fs)"

text \<open>
  \<open>WriteCompletedFile\<close>, as one step.  No mutex holds its file accesses in the code: what another writer
  does to the same paths between them is not modelled.
\<close>
definition write_completed_file :: "(gostring \<Rightarrow> gostring option) \<Rightarrow> faults \<Rightarrow> download_config \<Rightarrow> download_error option
    \<Rightarrow> gotime \<Rightarrow> gostring \<Rightarrow> gostring \<Rightarrow> gostring \<Rightarrow> gostring \<Rightarrow> filesystem \<times> download_state
    \<Rightarrow> (filesystem \<times> download_state) \<times> download_error option" where
  "write_completed_file absolute fault cfg ctx now tid body wrote content_type s =
     (case s of (fs, st) \<Rightarrow>
        (case rbind (fails ctx) (\<lambda>_. rbind (fails (ensure_root fault cfg)) (\<lambda>_.
              rbind (task_file_path absolute cfg tid) (\<lambda>path.
              rbind (fails (reject_symlink fault fs path)) (\<lambda>_. Inr path)))) of
           Inl e \<Rightarrow> (s, Some e)
         | Inr path \<Rightarrow>
             let part = path @ ''.part'' in
             (case (case reject_symlink fault fs part of
                      Some e \<Rightarrow> (fs, Inl e)
                    | None \<Rightarrow> write_part fault path part body wrote fs) of
                (fs1, Inl e) \<Rightarrow> ((remove_quietly fault part fs1, st), Some e)
              | (fs1, Inr _) \<Rightarrow>
                  let ct = (if trim_space content_type = [] then ''application/octet-stream'' else content_type);
                      v0 = (new_view tid [] (now + dc_ttl cfg))\<lparr>tv_status := DlCompleted, tv_progress := 100\<rparr>;
                      v = (case map_of (ds_tasks st) tid of
                             Some old \<Rightarrow> v0\<lparr>tv_poll := tv_poll old, tv_expires := tv_expires old\<rparr> | None \<Rightarrow> v0)
                  in ((remove_quietly fault part fs1,
                       st\<lparr>ds_tasks := AList.update tid v (ds_tasks st),
                          ds_files := AList.update tid (path, ct) (ds_files st)\<rparr>), None))))"

definition mark_failed :: "download_config \<Rightarrow> download_error option \<Rightarrow> gotime \<Rightarrow> gostring \<Rightarrow> download_state
    \<Rightarrow> download_state \<times> download_error option" where
  "mark_failed cfg ctx now tid0 st =
     (case ctx of
        Some e \<Rightarrow> (st, Some e)
      | None \<Rightarrow>
          let tid = trim_space tid0 in
          if \<not> safe_task_id tid then (st, Some UnsafePath)
          else (case map_of (ds_tasks st) tid of
              None \<Rightarrow> (st, Some (TaskNotFound (trim_space tid)))
            | Some v \<Rightarrow>
                (st\<lparr>ds_tasks := AList.update tid (v\<lparr>tv_status := DlFailed, tv_progress := 0,
                    tv_expires := (if tv_expires v = zero_time then now + dc_ttl cfg else tv_expires v)\<rparr>) (ds_tasks st)\<rparr>, None)))"

text \<open>\<open>filepath.Ext\<close>.\<close>
definition path_ext :: "gostring \<Rightarrow> gostring" where
  "path_ext p = (let b = rev (takeWhile (\<lambda>c. c \<noteq> CHR ''/'') (rev p)) in
     if CHR ''.'' \<in> set b then CHR ''.'' # rev (takeWhile (\<lambda>c. c \<noteq> CHR ''.'') (rev b)) else [])"

text \<open>
  \<open>ServeTaskFile\<close>: the content type and the file that \<open>http.ServeContent\<close> gets; \<open>mime\<close> is
  \<open>mime.TypeByExtension\<close>, \<open>open_file\<close> follows links to the content.
\<close>
definition serve_task_file :: "(gostring \<Rightarrow> gostring option) \<Rightarrow> (gostring \<Rightarrow> gostring) \<Rightarrow> (gostring \<Rightarrow> download_error + gostring)
    \<Rightarrow> download_config \<Rightarrow> download_state \<Rightarrow> gostring \<Rightarrow> download_error + (gostring \<times> gostring \<times> gostring)" where
  "serve_task_file absolute mime open_file cfg st tid =
     rbind (task_file_path absolute cfg tid) (\<lambda>path0.
       let (rpath, rtype) = get_or ([], []) (ds_files st) tid;
           path = (if rpath \<noteq> [] then rpath else path0)
       in rbind (open_file path) (\<lambda>content.
            let ct1 = (if trim_space rtype = [] then mime (path_ext path) else rtype);
                ct = (if trim_space ct1 = [] then ''application/octet-stream'' else ct1)
            in Inr (ct, path, content)))"

section \<open>Cleaning up\<close>

definition expired_task :: "gotime \<Rightarrow> task_view \<Rightarrow> bool" where
  "expired_task now v \<longleftrightarrow> tv_status v \<noteq> DlRunning \<and> tv_expires v \<noteq> zero_time \<and> \<not> tv_expires v > now"

text \<open>The files of the deleted tasks, up to the first that cannot be removed.\<close>
fun remove_files :: "(gostring \<Rightarrow> gostring option) \<Rightarrow> faults \<Rightarrow> download_config \<Rightarrow> (gostring \<times> gostring) list
    \<Rightarrow> filesystem \<Rightarrow> filesystem \<times> download_error option" where
  "remove_files absolute fault cfg [] fs = (fs, None)"
| "remove_files absolute fault cfg ((tid, recorded) # ds) fs =
     (case (if trim_space recorded = [] then task_file_path absolute cfg tid else Inr recorded) of
        Inl _ \<Rightarrow> remove_files absolute fault cfg ds fs
      | Inr path \<Rightarrow>
          (case fault (SysRemove path) of
             Some e \<Rightarrow> (fs, Some e)
           | None \<Rightarrow>
               let fs1 = AList.delete path fs in
               (case fault (SysRemove (path @ ''.part'')) of
                  Some e \<Rightarrow> (fs1, Some e)
                | None \<Rightarrow> remove_files absolute fault cfg ds (AList.delete (path @ ''.part'') fs1))))"

definition cleanup_expired :: "(gostring \<Rightarrow> gostring option) \<Rightarrow> faults \<Rightarrow> download_config \<Rightarrow> download_error option
    \<Rightarrow> gotime \<Rightarrow> gotime \<Rightarrow> filesystem \<times> download_state \<Rightarrow> (filesystem \<times> download_state) \<times> int \<times> download_error option" where
  "cleanup_expired absolute fault cfg ctx clk now0 s =
     (case ctx of
        Some e \<Rightarrow> (s, 0, Some e)
      | None \<Rightarrow>
          let now = (if now0 = zero_time then clk else now0);
              (fs, st) = s;
              gone = map fst (filter (\<lambda>(tid, v). expired_task now v) (ds_tasks st));
              dels = map (\<lambda>tid. (tid, fst (get_or ([], []) (ds_files st) tid))) gone;
              st' = st\<lparr>ds_tasks := filter (\<lambda>(tid, v). \<not> expired_task now v) (ds_tasks st),
                       ds_files := filter (\<lambda>(tid, f). tid \<notin> set gone) (ds_files st)\<rparr>;
              (fs', e) = remove_files absolute fault cfg dels fs
          in ((fs', st'), int (length dels), e))"

section \<open>Streams\<close>

text \<open>
  What one round of \<open>CopyWithIdleDeadline\<close> meets first: the end of the context, the idle timer, or a
  read, with what the destination then accepts of it.
\<close>
datatype stream_event = StreamDone download_error | StreamIdle
  | StreamRead gostring "download_error option option" nat "download_error option"

text \<open>
  The copying loop over the events to come: what was written and how it ended; None while it still
  waits.  The second component of a read is None without an error, \<open>Some None\<close> at the end of the
  stream.
\<close>
fun copy_stream :: "int \<Rightarrow> gostring \<Rightarrow> stream_event list \<Rightarrow> (gostring \<times> download_error option) option" where
  "copy_stream max_b out [] = None"
| "copy_stream max_b out (StreamDone e # es) = Some (out, Some e)"
| "copy_stream max_b out (StreamIdle # es) = Some (out, Some StreamIdleTimeout)"
| "copy_stream max_b out (StreamRead d rerr n werr # es) =
     (let finish = (\<lambda>out'. (case rerr of
            Some None \<Rightarrow> Some (out', None)
          | Some (Some e) \<Rightarrow> Some (out', Some e)
          | None \<Rightarrow> copy_stream max_b out' es))
      in if d \<noteq> [] then
           if max_b > 0 \<and> int (length out) + int (length d) > max_b then Some (out, Some MediaSizeExceeded)
           else
             let out' = out @ take n d in
             (case werr of
                Some e \<Rightarrow> Some (out', Some e)
              | None \<Rightarrow> if n \<noteq> length d then Some (out', Some (DownloadMsg ''short write'')) else finish out')
         else finish out)"

section \<open>Properties\<close>

text \<open>The counters count the unreleased transfers and stay within the limits.\<close>

definition transfers_ok :: "download_config \<Rightarrow> download_state \<times> gostring list \<Rightarrow> bool" where
  "transfers_ok cfg s \<longleftrightarrow> (case s of (st, held) \<Rightarrow>
     ds_active st = int (length held) \<and> int (length held) \<le> dc_global cfg \<and>
     (\<forall>c. get_or 0 (ds_by_client st) c = int (count_list held c) \<and> int (count_list held c) \<le> dc_per_client cfg))"

lemma get_or_delete [simp]: "get_or z (AList.delete k m) k' = (if k' = k then z else get_or z m k')"
  by (simp add: get_or_def)

lemma count_list_remove1: "count_list (remove1 x xs) y = (if x = y then count_list xs y - 1 else count_list xs y)"
  by (induction xs) auto

lemma count_list_pos: "x \<in> set xs \<Longrightarrow> 0 < count_list xs x"
  by (induction xs) auto

lemma transfer_step_ok:
  assumes "transfer_step cfg s s'" and "transfers_ok cfg s"
  shows "transfers_ok cfg s'"
  using assms
proof (cases rule: transfer_step.cases)
  case (acquired ctx client st st' held)
  then show ?thesis using assms(2)
    by (auto simp: acquire_transfer_def transfers_ok_def Let_def split: option.splits if_splits)
next
  case (released client held st)
  then have m: "client \<in> set held" "s = (st, held)" "s' = (release_transfer client st, remove1 client held)" by simp_all
  have pos: "0 < count_list held client" "0 < length held" using m(1) by (auto simp: count_list_pos intro: length_pos_if_in_set)
  have "Suc (length (remove1 client held)) = length held" using m(1) pos(2) by (simp add: length_remove1)
  then have len: "int (length (remove1 client held)) = int (length held) - 1" by linarith
  have cnt: "int (count_list (remove1 client held) c) = int (count_list held c) - (if c = client then 1 else 0)" for c
    using pos(1) by (simp add: count_list_remove1 of_nat_diff)
  have ok: "ds_active st = int (length held)" "int (length held) \<le> dc_global cfg"
    "get_or 0 (ds_by_client st) c = int (count_list held c)" "int (count_list held c) \<le> dc_per_client cfg" for c
    using assms(2) m(2) by (simp_all add: transfers_ok_def)
  have "get_or 0 (ds_by_client (release_transfer client st)) c = int (count_list (remove1 client held) c)" for c
    unfolding cnt using ok(3) [of c] ok(3) [of client] pos(1) by (simp add: release_transfer_def)
  moreover have "int (count_list (remove1 client held) c) \<le> dc_per_client cfg" for c
    unfolding cnt using ok(4) [of c] by (cases "c = client") simp_all
  moreover have "ds_active (release_transfer client st) = int (length (remove1 client held))" "int (length (remove1 client held)) \<le> dc_global cfg"
    unfolding len using ok(1,2) pos(2) by (simp_all add: release_transfer_def)
  ultimately show ?thesis unfolding m(3) transfers_ok_def by simp
qed (use assms(2) in auto)

lemma new_service_transfers:
  "new_download_service tmp opts = Inr (cfg, st) \<Longrightarrow> transfers_ok cfg (st, [])"
  by (auto simp: new_download_service_def transfers_ok_def get_or_def split: if_splits)

text \<open>
  C16.  The transfer counters are exact: after any sequence of acquisitions, refusals, releases and
  repeated releases the global counter is the number of unreleased transfers and a client's counter the
  number of its own, both within the configured limits; and a further acquisition succeeds exactly when
  both limits leave room.
\<close>
theorem transfers_exact:
  assumes "new_download_service tmp opts = Inr (cfg, st0)" and "(transfer_step cfg)\<^sup>*\<^sup>* (st0, []) (st, held)"
  shows "ds_active st = int (length held) \<and> int (length held) \<le> dc_global cfg \<and>
    get_or 0 (ds_by_client st) c = int (count_list held c) \<and> int (count_list held c) \<le> dc_per_client cfg \<and>
    ((\<exists>st'. acquire_transfer cfg None client st = Inr st') \<longleftrightarrow>
       int (length held) < dc_global cfg \<and> int (count_list held (client_or_anonymous client)) < dc_per_client cfg)"
proof -
  have "transfers_ok cfg (st, held)"
    using assms(2) by (induction rule: rtranclp_induct) (use new_service_transfers [OF assms(1)] transfer_step_ok in auto)
  then show ?thesis by (auto simp: transfers_ok_def acquire_transfer_def Let_def)
qed

lemma safe_id_no_separator: "safe_task_id s \<Longrightarrow> CHR ''/'' \<notin> set s \<and> CHR ''.'' \<notin> set s"
  by (auto simp: safe_task_id_def list_all_iff safe_id_char_def is_alnum_def)

lemma task_file_path_Inr:
  assumes "task_file_path absolute cfg tid = Inr path"
  obtains root where "absolute (dc_root cfg) = Some root" "safe_task_id (trim_space tid)" "path = root @ ''/'' @ trim_space tid @ ''.bin''"
proof -
  obtain root where r: "absolute (dc_root cfg) = Some root" "safe_task_id (trim_space tid)"
    "path = join_path root (trim_space tid @ ''.bin'')" "has_prefix path (root @ ''/'')"
    using assms by (auto simp: task_file_path_def Let_def split: if_splits option.splits)
  have "root \<noteq> ''/''"
  proof
    assume root: "root = ''/''"
    then obtain c s where "trim_space tid = c # s" "c \<noteq> CHR ''/''"
      using r(2) safe_id_no_separator [OF r(2)] by (cases "trim_space tid") (auto simp: safe_task_id_def)
    then show False using r(3,4) root by (simp add: join_path_def has_prefix_def)
  qed
  with r that show thesis by (simp add: join_path_def)
qed

text \<open>How writing a completed file ends.\<close>
lemma write_completed_cases:
  assumes "write_completed_file absolute fault cfg ctx now tid body wrote ct (fs, st) = ((fs', st'), err)"
  shows "case err of
      None \<Rightarrow> \<exists>root path v. absolute (dc_root cfg) = Some root \<and> task_file_path absolute cfg tid = Inr path \<and>
        path = root @ ''/'' @ trim_space tid @ ''.bin'' \<and> CHR ''/'' \<notin> set (trim_space tid) \<and>
        (\<forall>target. map_of fs path \<noteq> Some (LinkNode target)) \<and> map_of fs' path = Some (FileNode body) \<and>
        map_of fs' (path @ ''.part'') = None \<and> (\<forall>p. p \<notin> {path, path @ ''.part''} \<longrightarrow> map_of fs' p = map_of fs p) \<and>
        map_of (ds_tasks st') tid = Some v \<and> tv_status v = DlCompleted \<and> tv_progress v = 100
    | Some e \<Rightarrow> st' = st \<and>
        (\<forall>p. map_of fs' p = map_of fs p \<or>
          (\<exists>path. task_file_path absolute cfg tid = Inr path \<and> (p = path @ ''.part'' \<or> (p = path \<and> fault (SysChmod path) = Some e))))"
proof -
  let ?pre = "rbind (fails ctx) (\<lambda>_. rbind (fails (ensure_root fault cfg)) (\<lambda>_.
              rbind (task_file_path absolute cfg tid) (\<lambda>path.
              rbind (fails (reject_symlink fault fs path)) (\<lambda>_. Inr path))))"
  have fails: "fails x = Inr u \<longleftrightarrow> x = None" "fails x = Inl e \<longleftrightarrow> x = Some e" for x and u :: unit and e
    by (simp_all add: fails_def split: option.splits)
  show ?thesis
  proof (cases ?pre)
    case (Inl e)
    then show ?thesis using assms by (auto simp: write_completed_file_def)
  next
    case (Inr path)
    then have path: "task_file_path absolute cfg tid = Inr path" and link: "reject_symlink fault fs path = None"
      by (auto simp: go_errors fails)
    obtain root where root: "absolute (dc_root cfg) = Some root" "safe_task_id (trim_space tid)"
      "path = root @ ''/'' @ trim_space tid @ ''.bin''" using path by (rule task_file_path_Inr)
    let ?part = "path @ ''.part''"
    obtain fs1 r where w: "(case reject_symlink fault fs ?part of
                      Some e \<Rightarrow> (fs, Inl e)
                    | None \<Rightarrow> write_part fault path ?part body wrote fs) = (fs1, r)" by (metis surj_pair)
    note a = assms [unfolded write_completed_file_def prod.case Inr sum.case Let_def w]
    have nolink: "map_of fs path \<noteq> Some (LinkNode target)" for target
      using link by (auto simp: reject_symlink_def split: option.splits)
    show ?thesis
    proof (cases r)
      case (Inl e)
      have m: "map_of fs1 p = map_of fs p \<or> p = ?part \<or> (p = path \<and> fault (SysChmod path) = Some e)" for p
        using w by (auto simp: Inl write_part_def Let_def fails split: option.splits if_splits sum.splits)
      have e: "err = Some e" "st' = st" "fs' = remove_quietly fault ?part fs1" using a by (simp_all add: Inl)
      have "map_of fs' p = map_of fs1 p \<or> p = ?part" for p unfolding e by (simp add: remove_quietly_def)
      then have "\<forall>p. map_of fs' p = map_of fs p \<or> p = ?part \<or> (p = path \<and> fault (SysChmod path) = Some e)"
        using m by metis
      then show ?thesis unfolding e(1) option.case using e(2) path by blast
    next
      case ok: (Inr u)
      have f: "map_of fs1 = (map_of fs)(?part := None, path \<mapsto> FileNode body)"
        using w by (auto simp: ok write_part_def Let_def fails split: option.splits if_splits sum.splits)
      have fs': "fs' = remove_quietly fault ?part fs1" and err: "err = None"
        and v: "\<exists>v. map_of (ds_tasks st') tid = Some v \<and> tv_status v = DlCompleted \<and> tv_progress v = 100"
        using a by (auto simp: ok new_view_def split: option.splits)
      show ?thesis using root path nolink v safe_id_no_separator [OF root(2)]
        by (auto simp: err fs' remove_quietly_def f)
    qed
  qed
qed

text \<open>
  C17.  A completed file appears whole or not at all.  When writing it succeeds, its path is inside the
  service's directory and directly in it, the path was no symbolic link, it holds exactly the body, the
  part file is gone and the task is completed; when writing fails, no task changes and the file under
  the path is the old one, unless only its final mode could not be set.  Every other file is left alone.
\<close>
theorem completed_file_atomic:
  assumes "write_completed_file absolute fault cfg ctx now tid body wrote ct (fs, st) = ((fs', st'), err)"
  shows "case err of
      None \<Rightarrow> \<exists>root path v. absolute (dc_root cfg) = Some root \<and> task_file_path absolute cfg tid = Inr path \<and>
        path = root @ ''/'' @ trim_space tid @ ''.bin'' \<and> CHR ''/'' \<notin> set (trim_space tid) \<and>
        (\<forall>target. map_of fs path \<noteq> Some (LinkNode target)) \<and> map_of fs' path = Some (FileNode body) \<and>
        map_of fs' (path @ ''.part'') = None \<and> (\<forall>p. p \<notin> {path, path @ ''.part''} \<longrightarrow> map_of fs' p = map_of fs p) \<and>
        map_of (ds_tasks st') tid = Some v \<and> tv_status v = DlCompleted \<and> tv_progress v = 100
    | Some e \<Rightarrow> st' = st \<and>
        (\<forall>p. map_of fs' p = map_of fs p \<or>
          (\<exists>path. task_file_path absolute cfg tid = Inr path \<and> (p = path @ ''.part'' \<or> (p = path \<and> fault (SysChmod path) = Some e))))"
  by (rule write_completed_cases [OF assms])

lemma copy_stream_bound:
  assumes "copy_stream max_b out es = Some (out', e)" and "0 < max_b" and "int (length out) \<le> max_b"
  shows "int (length out') \<le> max_b"
  using assms
proof (induction max_b out es rule: copy_stream.induct)
  case (4 max_b out d rerr n werr es)
  let ?out = "out @ take n d"
  show ?case
  proof (cases "d = [] \<or> int (length out) + int (length d) > max_b")
    case True
    then show ?thesis using 4 by (auto simp: Let_def split: option.splits if_splits)
  next
    case False
    then have "int (length ?out) \<le> max_b" by (auto simp: min_def)
    then show ?thesis using 4 False by (auto simp: Let_def split: option.splits if_splits)
  qed
qed auto

text \<open>The bytes the events bring.\<close>
fun stream_bytes :: "stream_event list \<Rightarrow> gostring" where
  "stream_bytes [] = []"
| "stream_bytes (StreamRead d rerr n werr # es) = d @ stream_bytes es"
| "stream_bytes (ev # es) = stream_bytes es"

lemma copy_stream_prefix:
  "copy_stream max_b out es = Some (out', e) \<Longrightarrow> \<exists>t. out @ stream_bytes es = out' @ t"
proof (induction max_b out es rule: copy_stream.induct)
  case (4 max_b out d rerr n werr es)
  have d: "d = take n d @ drop n d" by simp
  have "\<exists>t. out @ d @ stream_bytes es = (out @ take n d) @ t" by (metis append.assoc d)
  then show ?case using 4 by (auto simp: Let_def split: option.splits if_splits) (metis append.assoc)+
qed auto

text \<open>
  A stream is copied in order and within its size: whatever ends the copy, what was written is a
  prefix of what the source gave, and with a size limit never more than the limit.
\<close>
theorem stream_bounded:
  assumes "copy_stream max_b [] es = Some (out, e)"
  shows "(\<exists>t. stream_bytes es = out @ t) \<and> (max_b \<le> 0 \<or> int (length out) \<le> max_b)"
  using copy_stream_prefix [OF assms] copy_stream_bound [OF assms] by (cases "0 < max_b") auto

text \<open>Cleaning up removes the expired tasks that do not run, and only those.\<close>

lemma map_of_filter_distinct:
  "distinct (map fst m) \<Longrightarrow> map_of (filter P m) k = (case map_of m k of Some v \<Rightarrow> if P (k, v) then Some v else None | None \<Rightarrow> None)"
  by (induction m) (auto split: option.splits dest: map_of_SomeD simp: image_iff)

lemma cleanup_expired_tasks:
  assumes "distinct (keys (ds_tasks st))" and "now \<noteq> zero_time"
    and "cleanup_expired absolute fault cfg None clk now (fs, st) = ((fs', st'), n, e)"
  shows "map_of (ds_tasks st') tid =
    (case map_of (ds_tasks st) tid of Some v \<Rightarrow> if expired_task now v then None else Some v | None \<Rightarrow> None)"
  using assms by (auto simp: cleanup_expired_def Let_def keys_def map_of_filter_distinct split: prod.splits option.splits)

section \<open>Concrete instances\<close>

definition demo_options :: download_config where
  "demo_options = \<lparr>dc_key = ''key'', dc_root = ''/tmp/d'', dc_base = '' https://x.example/ '', dc_ttl = 0, dc_global = 2,
     dc_per_client = 0\<rparr>"

definition demo_config :: download_config where
  "demo_config = \<lparr>dc_key = ''key'', dc_root = ''/tmp/d'', dc_base = ''https://x.example'', dc_ttl = 30 * minute,
     dc_global = 2, dc_per_client = 1\<rparr>"

definition demo_state :: download_state where
  "demo_state = \<lparr>ds_active = 0, ds_by_client = [], ds_tasks = [], ds_files = []\<rparr>"

lemma demo_service: "new_download_service ''/tmp'' demo_options = Inr (demo_config, demo_state)"
  by code_simp

theorem transfers_exact_witness:
  "\<exists>st. (transfer_step demo_config)\<^sup>*\<^sup>* (demo_state, []) (st, [''a'']) \<and> ds_active st = 1 \<and>
     \<not> (\<exists>st'. acquire_transfer demo_config None '' a '' st = Inr st')"
proof -
  let ?st = "demo_state\<lparr>ds_active := 1, ds_by_client := [(''a'', 1)]\<rparr>"
  have "acquire_transfer demo_config None ''a'' demo_state = Inr ?st" "client_or_anonymous ''a'' = ''a''" by code_simp+
  then have "transfer_step demo_config (demo_state, []) (?st, [''a''])" using acquired by metis
  then have r: "(transfer_step demo_config)\<^sup>*\<^sup>* (demo_state, []) (?st, [''a''])" by blast
  have "client_or_anonymous '' a '' = ''a''" "dc_per_client demo_config = 1" by code_simp+
  with transfers_exact [OF demo_service r, of "''a''" "'' a ''"] r show ?thesis by auto
qed

theorem completed_file_atomic_witness:
  "\<exists>fs' st'. write_completed_file Some (\<lambda>_. None) demo_config None 5 ''task_001'' ''body'' [] [] ([], demo_state) = ((fs', st'), None) \<and>
     map_of fs' ''/tmp/d/task_001.bin'' = Some (FileNode ''body'')"
proof -
  let ?w = "write_completed_file Some (\<lambda>_. None) demo_config None 5 ''task_001'' ''body'' [] [] ([], demo_state)"
  have "(case ?w of (_, None) \<Rightarrow> True | _ \<Rightarrow> False)" by code_simp
  then obtain fs' st' where w: "?w = ((fs', st'), None)" by (auto split: prod.splits option.splits)
  have t: "dc_root demo_config = ''/tmp/d''" "trim_space ''task_001'' = ''task_001''" by code_simp+
  from completed_file_atomic [OF w] w t show ?thesis by auto
qed

theorem stream_bounded_witness:
  "copy_stream 3 [] [StreamRead ''ab'' None 2 None, StreamRead ''cd'' (Some None) 2 None] = Some (''ab'', Some MediaSizeExceeded) \<and>
     length ''ab'' \<le> 3 \<and> (\<exists>t. ''abcd'' = ''ab'' @ t)"
proof -
  have c: "copy_stream 3 [] [StreamRead ''ab'' None 2 None, StreamRead ''cd'' (Some None) 2 None] = Some (''ab'', Some MediaSizeExceeded)"
    by code_simp
  from stream_bounded [OF c] c show ?thesis by simp
qed

end
