(* ===== verification/Auth.thy ===== *)
theory Auth imports
  NetAuthority
  NetTransport
  Json
begin

text \<open>
  \<open>internal/auth/token.go\<close> and \<open>client.go\<close>: client tokens, logging in and authenticating, the
  in-memory store and the WeChat exchange.  A store is a record of its three operations; \<open>'e\<close> is what
  a call meets (a clock reading, a failing database).  Entropy, the guarded fetch and the exchanger are
  arguments.
\<close>

section \<open>Tokens\<close>

type_synonym token_hash = gostring

definition hash_token :: "gostring \<Rightarrow> token_hash" where
  "hash_token token = hex_encode (sha256 (trim_space token))"

text \<open>\<open>entropy\<close>: what the reader has to give; \<open>ReadFull\<close> takes 32 bytes of it or fails.\<close>
definition generate_token :: "gostring \<Rightarrow> (gostring \<times> token_hash) option" where
  "generate_token entropy =
     (if length entropy < 32 then None
      else let token = b64_encode (take 32 entropy) in Some (token, hash_token token))"

definition extract_token :: "header \<Rightarrow> gostring" where
  "extract_token h =
     (let token = trim_space (header_get h ''Token'') in
      if token \<noteq> [] then token
      else
        let authorization = trim_space (header_get h ''Authorization'') in
        if length authorization > 7 \<and> equal_fold (take 7 authorization) ''Bearer '' then trim_space (drop 7 authorization)
        else [])"

definition valid_token_hash :: "token_hash \<Rightarrow> bool" where
  "valid_token_hash h \<longleftrightarrow> length h = 64 \<and> hex_decode h \<noteq> None"

section \<open>Errors\<close>

datatype error_kind = KindEntropy | KindIdentity | KindSession | KindWechat | KindAuth

definition kind_text :: "error_kind \<Rightarrow> gostring" where
  "kind_text k = (case k of KindEntropy \<Rightarrow> ''entropy'' | KindIdentity \<Rightarrow> ''identity'' | KindSession \<Rightarrow> ''session''
     | KindWechat \<Rightarrow> ''wechat'' | KindAuth \<Rightarrow> ''client_auth'')"

text \<open>None is the nil error.\<close>
definition client_error_text :: "error_kind option \<Rightarrow> gostring" where
  "client_error_text e = (case e of None \<Rightarrow> ''client session unavailable''
     | Some k \<Rightarrow> ''client session unavailable: '' @ kind_text k)"

datatype auth_sentinel = ErrClientSession | ErrInvalidToken | ErrEntropy

definition client_error_is :: "error_kind option \<Rightarrow> auth_sentinel \<Rightarrow> bool" where
  "client_error_is e target \<longleftrightarrow>
     target = ErrClientSession \<or> (target = ErrEntropy \<and> e = Some KindEntropy) \<or> (target = ErrInvalidToken \<and> e = Some KindAuth)"

datatype wechat_class = WechatTransport | WechatStatus | WechatBody | WechatJSON | WechatBusiness

definition class_text :: "wechat_class \<Rightarrow> gostring" where
  "class_text c = (case c of WechatTransport \<Rightarrow> ''transport'' | WechatStatus \<Rightarrow> ''status'' | WechatBody \<Rightarrow> ''body''
     | WechatJSON \<Rightarrow> ''json'' | WechatBusiness \<Rightarrow> ''business'')"

definition wechat_error_text :: "wechat_class option \<Rightarrow> gostring" where
  "wechat_error_text e = (case e of None \<Rightarrow> ''wechat login unavailable'' | Some c \<Rightarrow> ''wechat login unavailable: '' @ class_text c)"

text \<open>Why an identity could not be found: a WeChat error with its class, or another error.\<close>
type_synonym identity_error = "wechat_class option"

definition identity_failure_category :: "identity_error \<Rightarrow> gostring" where
  "identity_failure_category e =
     (case e of Some c \<Rightarrow> ''wechat_'' @ class_text c | None \<Rightarrow> ''client_identity_unavailable'')"

section \<open>Stores\<close>

record identity =
  id_type :: gostring
  id_key :: gostring
  id_metadata :: "(gostring, flat) gomap"

record identity_result =
  ir_user :: int
  ir_public :: gostring
  ir_first :: bool

record session =
  se_hash :: token_hash
  se_user :: int
  se_public :: gostring
  se_program :: int
  se_expires :: gotime

record ('e, 's) auth_store =
  as_ensure :: "'e \<Rightarrow> identity \<Rightarrow> 's \<Rightarrow> 's \<times> (gostring + identity_result)"
  as_session :: "'e \<Rightarrow> session \<Rightarrow> 's \<Rightarrow> 's \<times> gostring option"
  as_lookup :: "'e \<Rightarrow> token_hash \<Rightarrow> gotime \<Rightarrow> 's \<Rightarrow> gostring + session"

definition stable_public_id :: "gostring \<Rightarrow> gostring \<Rightarrow> gostring" where
  "stable_public_id t k = take 26 (hex_encode (sha256 (t @ CHR 0x00 # k)))"

definition stable_identity_key :: "gostring \<Rightarrow> gostring" where
  "stable_identity_key v = hex_encode (sha256 (trim_space v))"

definition visible_uid :: "int \<Rightarrow> gostring" where
  "visible_uid user = show_int (30000000 + user)"

subsection \<open>The in-memory store\<close>

record memory_auth =
  ma_next :: int
  ma_identities :: "(gostring, identity_result \<times> (gostring, flat) gomap) gomap"
  ma_sessions :: "(token_hash, session) gomap"
  ma_identity_writes :: int
  ma_session_writes :: int

definition new_memory_auth :: memory_auth where
  "new_memory_auth = \<lparr>ma_next = 0, ma_identities = [], ma_sessions = [], ma_identity_writes = 0, ma_session_writes = 0\<rparr>"

definition identity_map_key :: "gostring \<Rightarrow> gostring \<Rightarrow> gostring" where
  "identity_map_key t k = trim_space t @ CHR 0x00 # trim_space k"

definition ma_ensure :: "gotime \<Rightarrow> identity \<Rightarrow> memory_auth \<Rightarrow> memory_auth \<times> (gostring + identity_result)" where
  "ma_ensure clk i st =
     (let t = trim_space (id_type i); k = trim_space (id_key i) in
      if t = [] \<or> k = [] then (st, Inl ''identity binding is incomplete'')
      else
        let key = identity_map_key t k;
            st1 = st\<lparr>ma_identity_writes := ma_identity_writes st + 1\<rparr>
        in (case map_of (ma_identities st) key of
              Some (r, _) \<Rightarrow>
                let r' = r\<lparr>ir_first := False\<rparr> in
                (st1\<lparr>ma_identities := AList.update key (r', id_metadata i) (ma_identities st)\<rparr>, Inr r')
            | None \<Rightarrow>
                let r = \<lparr>ir_user = ma_next st + 1, ir_public = stable_public_id t k, ir_first = True\<rparr> in
                (st1\<lparr>ma_next := ma_next st + 1,
                   ma_identities := AList.update key (r, id_metadata i) (ma_identities st)\<rparr>, Inr r)))"

definition ma_store_session :: "gotime \<Rightarrow> session \<Rightarrow> memory_auth \<Rightarrow> memory_auth \<times> gostring option" where
  "ma_store_session clk x st =
     (if \<not> valid_token_hash (se_hash x) \<or> se_user x \<le> 0 \<or> se_expires x = zero_time
      then (st, Some ''session record is incomplete'')
      else
        let y = (if se_public x = [] then x\<lparr>se_public := stable_public_id ''user'' (show_int (se_user x))\<rparr> else x)
        in (st\<lparr>ma_session_writes := ma_session_writes st + 1,
               ma_sessions := AList.update (se_hash x) y (ma_sessions st)\<rparr>, None))"

text \<open>Every failure is \<open>ErrInvalidToken\<close>.\<close>
definition ma_lookup :: "gotime \<Rightarrow> token_hash \<Rightarrow> gotime \<Rightarrow> memory_auth \<Rightarrow> gostring + session" where
  "ma_lookup clk h now0 st =
     (let now = (if now0 = zero_time then clk else now0) in
      case map_of (ma_sessions st) h of
        None \<Rightarrow> Inl ''client token invalid''
      | Some x \<Rightarrow> if \<not> now < se_expires x then Inl ''client token invalid'' else Inr x)"

definition ma_identity_metadata :: "gostring \<Rightarrow> gostring \<Rightarrow> memory_auth \<Rightarrow> (gostring, flat) gomap option" where
  "ma_identity_metadata t k st = map_option snd (map_of (ma_identities st) (identity_map_key t k))"

definition memory_auth_store :: "(gotime, memory_auth) auth_store" where
  "memory_auth_store = \<lparr>as_ensure = ma_ensure, as_session = ma_store_session, as_lookup = ma_lookup\<rparr>"

section \<open>The service\<close>

record wechat_config =
  wc_app :: gostring
  wc_secret :: gostring

definition wechat_configured :: "wechat_config \<Rightarrow> bool" where
  "wechat_configured c \<longleftrightarrow> trim_space (wc_app c) \<noteq> [] \<and> trim_space (wc_secret c) \<noteq> []"

record exchange_request =
  xr_code :: gostring
  xr_program :: int
  xr_app :: gostring
  xr_secret :: gostring

record wechat_session =
  ws_openid :: gostring
  ws_unionid :: gostring
  ws_key :: gostring

type_synonym exchanger = "exchange_request \<Rightarrow> identity_error + wechat_session"

record auth_config =
  ac_environment :: gostring
  ac_ttl :: duration
  ac_program :: int
  ac_wechat :: wechat_config
  ac_exchanger :: "exchanger option"

text \<open>\<open>guarded\<close> is the exchanger over the network that a configured service gets by default.\<close>
definition new_auth_service :: "exchanger \<Rightarrow> auth_config \<Rightarrow> auth_config" where
  "new_auth_service guarded opts =
     \<lparr>ac_environment = to_lower (trim_space (ac_environment opts)),
      ac_ttl = (if ac_ttl opts \<le> 0 then 30 * (24 * hour) else ac_ttl opts),
      ac_program = (if ac_program opts \<le> 0 then 12 else ac_program opts),
      ac_wechat = ac_wechat opts,
      ac_exchanger = (if ac_exchanger opts = None \<and> wechat_configured (ac_wechat opts) then Some guarded
        else ac_exchanger opts)\<rparr>"

definition production :: "auth_config \<Rightarrow> bool" where
  "production cfg \<longleftrightarrow> ac_environment cfg = ''production'' \<or> ac_environment cfg = ''prod''"

record login_request =
  lq_code :: gostring
  lq_program :: int
  lq_client :: gostring

record login_result =
  lg_user :: int
  lg_uid :: gostring
  lg_public :: gostring
  lg_token :: gostring
  lg_first :: bool
  lg_expires :: gotime

definition resolve_identity :: "auth_config \<Rightarrow> login_request \<Rightarrow> identity_error + identity" where
  "resolve_identity cfg q =
     (if wechat_configured (ac_wechat cfg) then
        (if trim_space (lq_code q) = [] then Inl (Some WechatBusiness)
         else (case ac_exchanger cfg of
             None \<Rightarrow> Inl (Some WechatTransport)
           | Some exchange \<Rightarrow>
               rbind (exchange \<lparr>xr_code = lq_code q, xr_program = lq_program q, xr_app = wc_app (ac_wechat cfg),
                   xr_secret = wc_secret (ac_wechat cfg)\<rparr>) (\<lambda>s.
                 if trim_space (ws_openid s) = [] then Inl (Some WechatBusiness)
                 else Inr \<lparr>id_type = ''wechat_mini:'' @ show_int (lq_program q), id_key = trim_space (ws_openid s),
                   id_metadata = [(''programType'', FInt (lq_program q)), (''openid'', FStr (trim_space (ws_openid s)))] @
                     (if trim_space (ws_unionid s) \<noteq> [] then [(''unionid'', FStr (trim_space (ws_unionid s)))] else [])\<rparr>)))
      else if production cfg then Inl None
      else
        let stable = (if lq_client q = [] then lq_code q else lq_client q) in
        if stable = [] then Inl None
        else Inr \<lparr>id_type = ''client_fallback:'' @ show_int (lq_program q), id_key = stable_identity_key stable,
          id_metadata = [(''programType'', FInt (lq_program q)), (''mode'', FStr ''client_fallback'')]\<rparr>)"

definition normalize_login :: "auth_config \<Rightarrow> login_request \<Rightarrow> login_request" where
  "normalize_login cfg q =
     \<lparr>lq_code = trim_space (lq_code q),
      lq_program = (if lq_program q \<le> 0 then ac_program cfg else lq_program q),
      lq_client = trim_space (lq_client q)\<rparr>"

text \<open>
  \<open>Login\<close>: the store after it, the category it logs when it fails, and its result.  The two store
  calls may meet different circumstances; \<open>now\<close> is the clock between them.
\<close>
definition login :: "('e, 's) auth_store \<Rightarrow> auth_config \<Rightarrow> gostring \<Rightarrow> 'e \<Rightarrow> 'e \<Rightarrow> gotime \<Rightarrow> login_request \<Rightarrow> 's
    \<Rightarrow> 's \<times> gostring option \<times> (error_kind + login_result)" where
  "login ops cfg entropy e1 e2 now q0 s =
     (let q = normalize_login cfg q0 in
      case generate_token entropy of
        None \<Rightarrow> (s, Some ''client_entropy_unavailable'', Inl KindEntropy)
      | Some (token, hash) \<Rightarrow>
          (case resolve_identity cfg q of
             Inl e \<Rightarrow> (s, Some (identity_failure_category e), Inl KindWechat)
           | Inr i \<Rightarrow>
               (case as_ensure ops e1 i s of
                  (s1, Inl _) \<Rightarrow> (s1, Some ''client_identity_store_unavailable'', Inl KindIdentity)
                | (s1, Inr r) \<Rightarrow>
                    let ex = now + ac_ttl cfg in
                    (case as_session ops e2 \<lparr>se_hash = hash, se_user = ir_user r, se_public = ir_public r,
                         se_program = lq_program q, se_expires = ex\<rparr> s1 of
                       (s2, Some _) \<Rightarrow> (s2, Some ''client_session_store_unavailable'', Inl KindSession)
                     | (s2, None) \<Rightarrow>
                         (s2, None, Inr \<lparr>lg_user = ir_user r, lg_uid = visible_uid (ir_user r), lg_public = ir_public r,
                            lg_token = token, lg_first = ir_first r, lg_expires = ex\<rparr>)))))"

record authenticated =
  au_user :: int
  au_uid :: gostring
  au_public :: gostring
  au_program :: int
  au_expires :: gotime

text \<open>Every failure is the error of kind \<open>client_auth\<close>.\<close>
definition authenticate :: "('e, 's) auth_store \<Rightarrow> 'e \<Rightarrow> gotime \<Rightarrow> header \<Rightarrow> 's \<Rightarrow> authenticated option" where
  "authenticate ops e now h s =
     (let token = extract_token h in
      if token = [] then None
      else
        let hash = hash_token token in
        if \<not> valid_token_hash hash then None
        else (case as_lookup ops e hash now s of
            Inl _ \<Rightarrow> None
          | Inr x \<Rightarrow> Some \<lparr>au_user = se_user x, au_uid = visible_uid (se_user x), au_public = se_public x,
              au_program = se_program x, au_expires = se_expires x\<rparr>))"

section \<open>The WeChat exchange\<close>

text \<open>\<open>url.Values.Encode\<close> of the four parameters, in the order of their keys.\<close>
definition exchange_query :: "exchange_request \<Rightarrow> gostring" where
  "exchange_query q =
     ''appid='' @ url_escape EncQuery (trim_space (xr_app q)) @ ''&grant_type=authorization_code&js_code='' @
     url_escape EncQuery (trim_space (xr_code q)) @ ''&secret='' @ url_escape EncQuery (trim_space (xr_secret q))"

definition wechat_owners :: "authority_owner list" where
  "wechat_owners = [(''wechat-mini'', [\<lparr>ar_purpose = ''session_bootstrap'', ar_host = ''api.weixin.qq.com'',
     ar_subdomains = False, ar_dynamic = False, ar_sensitive = False\<rparr>])]"

definition decode_wechat :: "gostring \<Rightarrow> (wechat_session \<times> int) option" where
  "decode_wechat body =
     (case decode_members body of
        None \<Rightarrow> None
      | Some kvs \<Rightarrow>
          (case (string_field ''openid'' kvs, string_field ''session_key'' kvs, string_field ''unionid'' kvs,
                 int_field ''errcode'' kvs, string_field ''errmsg'' kvs) of
             (Some o1, Some k, Some u, Some code, Some _) \<Rightarrow> Some (\<lparr>ws_openid = o1, ws_unionid = u, ws_key = k\<rparr>, code)
           | _ \<Rightarrow> None))"

text \<open>
  \<open>Exchange\<close>; \<open>get\<close> is the guarded fetch under a timeout, a body is its bytes and the error that
  ends them.
\<close>
definition wechat_exchange :: "idna \<Rightarrow> (duration \<Rightarrow> fetch_request \<Rightarrow> guard_error + (gostring \<times> guard_error option) response)
    \<Rightarrow> duration \<Rightarrow> int \<Rightarrow> exchanger" where
  "wechat_exchange idna get timeout0 max_body q =
     rbind (or_error (Some WechatTransport) (new_fetch_url idna (''https://api.weixin.qq.com/sns/jscode2session?'' @ exchange_query q))) (\<lambda>target.
     rbind (or_error (Some WechatTransport) (case new_authority_registry idna wechat_owners of Inl _ \<Rightarrow> None | Inr r \<Rightarrow> Some r)) (\<lambda>reg.
     rbind (or_error (Some WechatTransport)
         (case authorize idna reg \<lparr>aq_owner = ''wechat-mini'', aq_purpose = ''session_bootstrap'', aq_url = Some target, aq_header = []\<rparr> of
            Inl _ \<Rightarrow> None | Inr d \<Rightarrow> Some d)) (\<lambda>decision.
       let timeout = (if timeout0 \<le> 0 then 5 * second else timeout0);
           limit = (if max_body \<le> 0 then 64 * 1024 else max_body)
       in rbind (or_error (Some WechatTransport)
            (case get timeout \<lparr>fr_method = ''GET'', fr_url = Some target, fr_header = ad_header decision, fr_redirects = 0\<rparr> of
               Inl _ \<Rightarrow> None | Inr r \<Rightarrow> Some r)) (\<lambda>resp.
          rbind (require (200 \<le> rs_status resp \<and> rs_status resp < 300) (Some WechatStatus)) (\<lambda>_.
            let (bytes, err) = rs_body resp;
                body = take (nat (limit + 1)) bytes
            in rbind (require (int (length bytes) \<ge> limit + 1 \<or> err = None) (Some WechatBody)) (\<lambda>_.
               rbind (require (int (length body) \<le> limit) (Some WechatBody)) (\<lambda>_.
               rbind (or_error (Some WechatJSON) (decode_wechat body)) (\<lambda>(s, code).
               rbind (require (code = 0) (Some WechatBusiness)) (\<lambda>_.
               rbind (require (trim_space (ws_openid s) \<noteq> []) (Some WechatBusiness)) (\<lambda>_.
                 Inr \<lparr>ws_openid = trim_space (ws_openid s), ws_unionid = trim_space (ws_unionid s),
                      ws_key = trim_space (ws_key s)\<rparr>))))))))))"

section \<open>What a store promises\<close>

text \<open>
  The contract of \<open>Store\<close>.  \<open>users\<close> is the user and public identifier an identity is bound to (types
  and keys identified by \<open>ident\<close>), \<open>expiry\<close> what the store keeps of an expiry time, \<open>live\<close> the
  circumstances under which a lookup does not fail.
\<close>

locale identity_store =
  fixes ops :: "('e, 's) auth_store"
    and ok :: "'s \<Rightarrow> bool"
    and ident :: "gostring \<Rightarrow> gostring \<Rightarrow> 'k"
    and users :: "'s \<Rightarrow> 'k \<Rightarrow> (int \<times> gostring) option"
    and expiry :: "gotime \<Rightarrow> gotime"
    and live :: "'e \<Rightarrow> bool"
  assumes ensure_error: "ok s \<Longrightarrow> as_ensure ops e i s = (s', Inl err) \<Longrightarrow> ok s' \<and> users s' = users s"
    and ensure_user: "ok s \<Longrightarrow> as_ensure ops e i s = (s', Inr r) \<Longrightarrow> k = ident (trim_space (id_type i)) (trim_space (id_key i)) \<Longrightarrow>
      ok s' \<and> users s' = (users s)(k \<mapsto> (ir_user r, ir_public r)) \<and> ir_first r = (users s k = None) \<and>
      (users s k = None \<or> users s k = Some (ir_user r, ir_public r))"
    and ensure_lookup: "ok s \<Longrightarrow> as_ensure ops e i s = (s', ir) \<Longrightarrow> live e' \<Longrightarrow> as_lookup ops e' h now s' = as_lookup ops e' h now s"
    and users_distinct: "ok s \<Longrightarrow> users s k = Some (u, p) \<Longrightarrow> users s k' = Some (u, p') \<Longrightarrow> k = k'"
    and users_public: "ok s \<Longrightarrow> users s k = Some (u, p) \<Longrightarrow> p \<noteq> []"
    and session_keeps: "ok s \<Longrightarrow> users s k = Some (se_user x, se_public x) \<Longrightarrow> as_session ops e x s = (s', res) \<Longrightarrow>
      ok s' \<and> users s' = users s"
    and session_other: "ok s \<Longrightarrow> as_session ops e x s = (s', res) \<Longrightarrow> se_hash x = hash_token t \<Longrightarrow>
      hash_token t' \<noteq> se_hash x \<Longrightarrow> live e' \<Longrightarrow>
      as_lookup ops e' (hash_token t') now s' = as_lookup ops e' (hash_token t') now s"
    and lookup_law: "ok s \<Longrightarrow> users s k = Some (se_user x, se_public x) \<Longrightarrow> as_session ops e x s = (s', None) \<Longrightarrow> live e' \<Longrightarrow>
      now \<noteq> zero_time \<Longrightarrow>
      (if now < expiry (se_expires x) then as_lookup ops e' (se_hash x) now s' = Inr (x\<lparr>se_expires := expiry (se_expires x)\<rparr>)
       else \<exists>err. as_lookup ops e' (se_hash x) now s' = Inl err)"

text \<open>A sequence of logins.\<close>

record 'e login_attempt =
  la_entropy :: gostring
  la_ensure :: 'e
  la_session :: 'e
  la_now :: gotime
  la_request :: login_request

fun run_logins :: "('e, 's) auth_store \<Rightarrow> auth_config \<Rightarrow> 'e login_attempt list \<Rightarrow> 's \<Rightarrow> 's" where
  "run_logins ops cfg [] s = s"
| "run_logins ops cfg (a # as) s =
     run_logins ops cfg as (fst (login ops cfg (la_entropy a) (la_ensure a) (la_session a) (la_now a) (la_request a) s))"

definition attempt_hash :: "'e login_attempt \<Rightarrow> token_hash" where
  "attempt_hash a = hash_token (b64_encode (take 32 (la_entropy a)))"

definition login_ident :: "(gostring \<Rightarrow> gostring \<Rightarrow> 'k) \<Rightarrow> auth_config \<Rightarrow> login_request \<Rightarrow> 'k option" where
  "login_ident ident cfg q = (case resolve_identity cfg (normalize_login cfg q) of Inl _ \<Rightarrow> None
     | Inr i \<Rightarrow> Some (ident (trim_space (id_type i)) (trim_space (id_key i))))"

lemma valid_hash_token: "valid_token_hash (hash_token t)"
  by (simp add: valid_token_hash_def hash_token_def hex_roundtrip)

context identity_store begin

text \<open>A login that succeeds: what it asked of the store.\<close>

lemma login_Inr:
  assumes "login ops cfg entropy e1 e2 now q s = (s2, l, Inr res)"
  obtains i r s1 x where "lg_token res = b64_encode (take 32 entropy)" "32 \<le> length entropy"
    "resolve_identity cfg (normalize_login cfg q) = Inr i"
    "as_ensure ops e1 i s = (s1, Inr r)" "as_session ops e2 x s1 = (s2, None)"
    "x = \<lparr>se_hash = hash_token (lg_token res), se_user = ir_user r, se_public = ir_public r,
        se_program = lq_program (normalize_login cfg q), se_expires = now + ac_ttl cfg\<rparr>"
    "lg_user res = ir_user r" "lg_public res = ir_public r" "lg_first res = ir_first r" "lg_expires res = now + ac_ttl cfg"
    "lg_uid res = visible_uid (ir_user r)"
  using assms by (auto simp: login_def generate_token_def Let_def split: if_splits option.splits sum.splits prod.splits)

text \<open>Every login keeps the store in order, the users it knows and the sessions of other tokens.\<close>

lemma login_keeps:
  assumes "login ops cfg entropy e1 e2 now q s = (s', l, r)" and "ok s"
  shows "ok s' \<and> (users s k = Some v \<longrightarrow> users s' k = Some v) \<and>
    (hash_token (b64_encode (take 32 entropy)) \<noteq> hash_token tok \<longrightarrow> live e \<longrightarrow>
      as_lookup ops e (hash_token tok) t s' = as_lookup ops e (hash_token tok) t s)"
proof (cases "length entropy < 32")
  case True
  then show ?thesis using assms by (auto simp: login_def generate_token_def Let_def)
next
  case long: False
  show ?thesis
  proof (cases "resolve_identity cfg (normalize_login cfg q)")
    case (Inl err)
    then show ?thesis using assms long by (auto simp: login_def generate_token_def Let_def)
  next
    case (Inr i)
    obtain s1 r1 where en: "as_ensure ops e1 i s = (s1, r1)" by (cases "as_ensure ops e1 i s")
    note look1 = ensure_lookup [OF assms(2) en]
    show ?thesis
    proof (cases r1)
      case err: (Inl err)
      then have "s' = s1" using assms(1) long Inr en by (auto simp: login_def generate_token_def Let_def)
      then show ?thesis using ensure_error [OF assms(2) en [unfolded err]] look1 by simp
    next
      case ir: (Inr x)
      let ?k = "ident (trim_space (id_type i)) (trim_space (id_key i))"
      let ?x = "\<lparr>se_hash = hash_token (b64_encode (take 32 entropy)), se_user = ir_user x, se_public = ir_public x,
        se_program = lq_program (normalize_login cfg q), se_expires = now + ac_ttl cfg\<rparr>"
      obtain s2 r2 where st: "as_session ops e2 ?x s1 = (s2, r2)" by (cases "as_session ops e2 ?x s1")
      have s': "s' = s2" using assms(1) long Inr en ir st
        by (auto simp: login_def generate_token_def Let_def split: option.splits)
      note L1 = ensure_user [OF assms(2) en [unfolded ir] refl]
      then have ok1: "ok s1" and u1: "users s1 ?k = Some (se_user ?x, se_public ?x)" by simp_all
      note L2 = session_keeps [OF ok1 u1 st]
      have "as_lookup ops e (hash_token tok) t s' = as_lookup ops e (hash_token tok) t s" if "se_hash ?x \<noteq> hash_token tok" "live e"
        using session_other [OF ok1 st _ that(1) [symmetric] that(2)] look1 [OF that(2)] s' by simp
      moreover have "users s k = Some v \<longrightarrow> users s1 k = Some v" using L1 by auto
      ultimately show ?thesis using L2 s' by simp
    qed
  qed
qed

lemma run_logins_keeps:
  assumes "ok s"
  shows "ok (run_logins ops cfg as s) \<and> (users s k = Some v \<longrightarrow> users (run_logins ops cfg as s) k = Some v) \<and>
    (hash_token tok \<notin> set (map attempt_hash as) \<longrightarrow> live e \<longrightarrow>
      as_lookup ops e (hash_token tok) t (run_logins ops cfg as s) = as_lookup ops e (hash_token tok) t s)"
  using assms
proof (induction as arbitrary: s)
  case (Cons a as)
  obtain s1 l r where L: "login ops cfg (la_entropy a) (la_ensure a) (la_session a) (la_now a) (la_request a) s = (s1, l, r)"
    by (metis surj_pair)
  note K = login_keeps [OF L Cons.prems, of k v tok e t]
  then have "ok s1" by blast
  from Cons.IH [OF this] K L show ?case by (auto simp: attempt_hash_def)
qed simp

lemma login_authenticates:
  assumes "login ops cfg entropy e1 e2 now q s = (s', l, Inr res)" and "ok s"
    and "hash_token (lg_token res) \<notin> set (map attempt_hash others)"
    and "extract_token h = lg_token res" and "live e" and "now' \<noteq> zero_time"
  shows "authenticate ops e now' h (run_logins ops cfg others s') =
    (if now' < expiry (lg_expires res)
     then Some \<lparr>au_user = lg_user res, au_uid = lg_uid res, au_public = lg_public res,
       au_program = lq_program (normalize_login cfg q), au_expires = expiry (lg_expires res)\<rparr>
     else None)"
  using assms(1)
proof (rule login_Inr)
  fix i r s1 x
  assume tok: "lg_token res = b64_encode (take 32 entropy)" "32 \<le> length entropy"
    and en: "as_ensure ops e1 i s = (s1, Inr r)" and se: "as_session ops e2 x s1 = (s', None)"
    and x: "x = \<lparr>se_hash = hash_token (lg_token res), se_user = ir_user r, se_public = ir_public r,
        se_program = lq_program (normalize_login cfg q), se_expires = now + ac_ttl cfg\<rparr>"
    and res: "lg_user res = ir_user r" "lg_public res = ir_public r" "lg_expires res = now + ac_ttl cfg"
      "lg_uid res = visible_uid (ir_user r)"
  let ?k = "ident (trim_space (id_type i)) (trim_space (id_key i))"
  have ok1: "ok s1" and u1: "users s1 ?k = Some (se_user x, se_public x)"
    using ensure_user [OF assms(2) en refl] x by simp_all
  have ok2: "ok s'" using session_keeps [OF ok1 u1 se] by blast
  have "take 32 entropy \<noteq> []" using tok(2) by auto
  then have ne: "lg_token res \<noteq> []" by (simp add: tok(1))
  have look: "as_lookup ops e (hash_token (lg_token res)) now' (run_logins ops cfg others s') =
      as_lookup ops e (hash_token (lg_token res)) now' s'"
    using run_logins_keeps [OF ok2] assms(3,5) by blast
  have found: "if now' < expiry (se_expires x) then as_lookup ops e (se_hash x) now' s' = Inr (x\<lparr>se_expires := expiry (se_expires x)\<rparr>)
      else \<exists>err. as_lookup ops e (se_hash x) now' s' = Inl err"
    by (rule lookup_law [OF ok1 u1 se assms(5,6)])
  show ?thesis
    using found look ne res by (auto simp: authenticate_def assms(4) valid_hash_token x split: if_splits)
qed

lemma login_identity:
  assumes "login ops cfg entropy e1 e2 now q s = (s', l, Inr res)" and "ok s"
    and "login ops cfg entropy' e1' e2' now' q' (run_logins ops cfg others s') = (s'', l', Inr res')"
  shows "\<exists>k k'. login_ident ident cfg q = Some k \<and> login_ident ident cfg q' = Some k' \<and>
    (lg_user res' = lg_user res \<longleftrightarrow> k' = k) \<and> (k' = k \<longrightarrow> lg_public res' = lg_public res \<and> \<not> lg_first res')"
  using assms(1)
proof (rule login_Inr)
  fix i r s1 x
  assume id: "resolve_identity cfg (normalize_login cfg q) = Inr i"
    and en: "as_ensure ops e1 i s = (s1, Inr r)" and se: "as_session ops e2 x s1 = (s', None)"
    and x: "x = \<lparr>se_hash = hash_token (lg_token res), se_user = ir_user r, se_public = ir_public r,
        se_program = lq_program (normalize_login cfg q), se_expires = now + ac_ttl cfg\<rparr>"
    and res: "lg_user res = ir_user r" "lg_public res = ir_public r"
  let ?k = "ident (trim_space (id_type i)) (trim_space (id_key i))"
  have ok1: "ok s1" and u1: "users s1 ?k = Some (se_user x, se_public x)"
    using ensure_user [OF assms(2) en refl] x by simp_all
  have ok2: "ok s'" and u2: "users s' ?k = Some (ir_user r, ir_public r)"
    using session_keeps [OF ok1 u1 se] u1 x by simp_all
  let ?s = "run_logins ops cfg others s'"
  have ok3: "ok ?s" and u3: "users ?s ?k = Some (ir_user r, ir_public r)"
    using run_logins_keeps [OF ok2, of cfg others ?k] u2 by blast+
  show ?thesis using assms(3)
  proof (rule login_Inr)
    fix i' r' s2 y
    assume id': "resolve_identity cfg (normalize_login cfg q') = Inr i'" and en': "as_ensure ops e1' i' ?s = (s2, Inr r')"
      and res': "lg_user res' = ir_user r'" "lg_public res' = ir_public r'" "lg_first res' = ir_first r'"
    let ?k' = "ident (trim_space (id_type i')) (trim_space (id_key i'))"
    note L = ensure_user [OF ok3 en' refl]
    have a: "ir_user r' = ir_user r \<and> ir_public r' = ir_public r \<and> \<not> ir_first r'" if "?k' = ?k" using L u3 that by simp
    have b: "?k' = ?k" if "ir_user r' = ir_user r"
    proof (rule ccontr)
      assume ne: "?k' \<noteq> ?k"
      have "users s2 ?k = Some (ir_user r, ir_public r)" "users s2 ?k' = Some (ir_user r, ir_public r')"
        using L u3 ne that by simp_all
      with users_distinct ne L show False by metis
    qed
    show ?thesis using id id' a b res res' by (auto simp: login_ident_def)
  qed
qed

end

section \<open>The in-memory store keeps the contract\<close>

definition ma_users :: "memory_auth \<Rightarrow> gostring \<Rightarrow> (int \<times> gostring) option" where
  "ma_users st k = map_option (\<lambda>(r, _). (ir_user r, ir_public r)) (map_of (ma_identities st) k)"

definition ma_ok :: "memory_auth \<Rightarrow> bool" where
  "ma_ok st \<longleftrightarrow> (\<forall>k r m. map_of (ma_identities st) k = Some (r, m) \<longrightarrow> ir_user r \<le> ma_next st \<and> ir_public r \<noteq> [] \<and>
      (\<forall>k' r' m'. map_of (ma_identities st) k' = Some (r', m') \<longrightarrow> ir_user r' = ir_user r \<longrightarrow> k' = k))"

lemma ma_ok_empty: "ma_ok new_memory_auth"
  by (simp add: ma_ok_def new_memory_auth_def)

lemma stable_public_id_nonempty: "stable_public_id t k \<noteq> []"
proof -
  have "length (stable_public_id t k) = 26" by (simp add: stable_public_id_def)
  then show ?thesis by auto
qed

interpretation memory_store: identity_store memory_auth_store ma_ok identity_map_key ma_users "\<lambda>t. t" "\<lambda>_. True"
proof
  fix s s' :: memory_auth and e i err assume "ma_ok s" "as_ensure memory_auth_store e i s = (s', Inl err)"
  then show "ma_ok s' \<and> ma_users s' = ma_users s"
    by (auto simp: memory_auth_store_def ma_ensure_def Let_def split: if_splits option.splits)
next
  fix s s' :: memory_auth and e i r k
  assume ok: "ma_ok s" and en: "as_ensure memory_auth_store e i s = (s', Inr r)"
    and k: "k = identity_map_key (trim_space (id_type i)) (trim_space (id_key i))"
  show "ma_ok s' \<and> ma_users s' = (ma_users s)(k \<mapsto> (ir_user r, ir_public r)) \<and> ir_first r = (ma_users s k = None) \<and>
      (ma_users s k = None \<or> ma_users s k = Some (ir_user r, ir_public r))"
  proof (cases "map_of (ma_identities s) k")
    case None
    then have r: "r = \<lparr>ir_user = ma_next s + 1, ir_public = stable_public_id (trim_space (id_type i)) (trim_space (id_key i)), ir_first = True\<rparr>"
      and s': "ma_identities s' = AList.update k (r, id_metadata i) (ma_identities s)" "ma_next s' = ma_next s + 1"
      using en by (auto simp: memory_auth_store_def ma_ensure_def Let_def k split: if_splits)
    have "ma_ok s'" using ok unfolding ma_ok_def s' r by (auto simp: stable_public_id_nonempty) fastforce+
    then show ?thesis using None by (auto simp: ma_users_def s' r fun_eq_iff)
  next
    case (Some v)
    obtain r0 m where v: "v = (r0, m)" by (cases v)
    have r: "r = r0\<lparr>ir_first := False\<rparr>"
      and s': "ma_identities s' = AList.update k (r, id_metadata i) (ma_identities s)" "ma_next s' = ma_next s"
      using en Some by (auto simp: memory_auth_store_def ma_ensure_def Let_def k v split: if_splits)
    have "ma_ok s'" using ok Some unfolding ma_ok_def s' r by (auto simp: v)
    then show ?thesis using Some by (auto simp: ma_users_def s' r v fun_eq_iff)
  qed
next
  fix s s' :: memory_auth and e e' :: gotime and i h now ir
  assume "as_ensure memory_auth_store e i s = (s', ir)"
  then have "ma_sessions s' = ma_sessions s"
    by (auto simp: memory_auth_store_def ma_ensure_def Let_def split: if_splits option.splits)
  then show "as_lookup memory_auth_store e' h now s' = as_lookup memory_auth_store e' h now s"
    by (simp add: memory_auth_store_def ma_lookup_def)
next
  fix s k u p k' p' assume "ma_ok s" "ma_users s k = Some (u, p)" "ma_users s k' = Some (u, p')"
  then show "k = k'" by (auto simp: ma_ok_def ma_users_def)
next
  fix s k u p assume "ma_ok s" "ma_users s k = Some (u, p)"
  then show "p \<noteq> []" by (auto simp: ma_ok_def ma_users_def)
next
  fix s s' :: memory_auth and k e x res
  assume "ma_ok s" "as_session memory_auth_store e x s = (s', res)"
  then have "ma_identities s' = ma_identities s" "ma_next s' = ma_next s"
    by (auto simp: memory_auth_store_def ma_store_session_def Let_def split: if_splits)
  then show "ma_ok s' \<and> ma_users s' = ma_users s" using \<open>ma_ok s\<close> by (simp add: ma_ok_def ma_users_def fun_eq_iff)
next
  fix s s' :: memory_auth and e e' :: gotime and x res h now
  assume "as_session memory_auth_store e x s = (s', res)" "h \<noteq> se_hash x"
  then show "as_lookup memory_auth_store e' h now s' = as_lookup memory_auth_store e' h now s"
    by (auto simp: memory_auth_store_def ma_store_session_def ma_lookup_def Let_def split: if_splits)
next
  fix s s' :: memory_auth and k e x e' now
  assume a: "ma_ok s" "ma_users s k = Some (se_user x, se_public x)" "as_session memory_auth_store e x s = (s', None)" "now \<noteq> zero_time"
  obtain r m where "map_of (ma_identities s) k = Some (r, m)" "ir_public r = se_public x"
    using a(2) by (auto simp: ma_users_def)
  then have "se_public x \<noteq> []" using a(1) unfolding ma_ok_def by metis
  then have "map_of (ma_sessions s') (se_hash x) = Some x"
    using a(3) by (auto simp: memory_auth_store_def ma_store_session_def Let_def split: if_splits)
  then show "if now < se_expires x then as_lookup memory_auth_store e' (se_hash x) now s' = Inr (x\<lparr>se_expires := se_expires x\<rparr>)
       else \<exists>err. as_lookup memory_auth_store e' (se_hash x) now s' = Inl err"
    using a(4) by (simp add: memory_auth_store_def ma_lookup_def)
qed

end
