(* ===== verification/AuthMySQL.thy ===== *)
theory AuthMySQL imports
  Auth MySQLColumns
begin

text \<open>
  The client-authentication methods of \<open>MySQLRuntimeStore\<close> (\<open>internal/store/runtime_mysql.go\<close>) over
  the tables of migrations 002 and 009, with the text and time columns of \<open>MySQLColumns\<close>.
  A call that the database fails (\<open>ae_db\<close>) changes nothing; a rolled-back insertion still consumes
  its key.
\<close>

section \<open>Tables\<close>

record user_row =
  ur_id :: int
  ur_public :: gostring
  ur_status :: int
  ur_seen :: gotime
  ur_created :: gotime
  ur_updated :: gotime

record identity_row =
  ai_user :: int
  ai_type :: gostring
  ai_key :: gostring
  ai_union :: gostring
  ai_metadata :: gostring
  ai_created :: gotime
  ai_updated :: gotime

record session_row =
  sr_hash :: gostring
  sr_user :: int
  sr_program :: int
  sr_status :: int
  sr_expires :: "gotime option"
  sr_created :: gotime
  sr_seen :: gotime

record auth_tables =
  at_users :: "user_row list"
  at_next :: int
  at_identities :: "identity_row list"
  at_sessions :: "session_row list"

record auth_env =
  ae_clock :: gotime
  ae_db :: "gostring option"

section \<open>Operations\<close>

definition metadata_string :: "(gostring, flat) gomap \<Rightarrow> gostring \<Rightarrow> gostring" where
  "metadata_string m k = (case map_of m k of Some (FStr s) \<Rightarrow> trim_space s | _ \<Rightarrow> [])"

text \<open>\<open>json.Marshal\<close> of a map writes its keys in order.\<close>
definition marshal_metadata :: "(gostring, flat) gomap \<Rightarrow> gostring" where
  "marshal_metadata m = encode_object (sort_key fst m)"

definition stable_runtime_public_id :: "gostring \<Rightarrow> gostring \<Rightarrow> gostring" where
  "stable_runtime_public_id t k = take 26 (hex_encode (sha256 (trim_space t @ CHR 0x00 # trim_space k)))"

definition same_identity :: "gostring \<Rightarrow> gostring \<Rightarrow> identity_row \<Rightarrow> bool" where
  "same_identity t k r \<longleftrightarrow> collate (ai_type r) = collate t \<and> collate (ai_key r) = collate k"

definition active_user :: "int \<Rightarrow> auth_tables \<Rightarrow> user_row option" where
  "active_user n tb = find (\<lambda>u. ur_id u = n \<and> ur_status u = 1) (at_users tb)"

text \<open>The joined selection by identity.\<close>
definition select_identity :: "gostring \<Rightarrow> gostring \<Rightarrow> auth_tables \<Rightarrow> user_row option" where
  "select_identity t k tb =
     (case find (same_identity t k) (at_identities tb) of None \<Rightarrow> None | Some r \<Rightarrow> active_user (ai_user r) tb)"

definition sq_ensure_identity :: "auth_env \<Rightarrow> identity \<Rightarrow> auth_tables \<Rightarrow> auth_tables \<times> (gostring + identity_result)" where
  "sq_ensure_identity env i tb =
     (let t = trim_space (id_type i); k = trim_space (id_key i) in
      if t = [] \<or> k = [] then (tb, Inl ''identity binding is incomplete'')
      else (case ae_db env of
          Some e \<Rightarrow> (tb, Inl e)
        | None \<Rightarrow>
            let meta = marshal_metadata (id_metadata i); union = metadata_string (id_metadata i) ''unionid'';
                now = mysql_datetime (ae_clock env)
            in (case select_identity t k tb of
                  Some u \<Rightarrow>
                    (tb\<lparr>at_identities := map (\<lambda>r. if same_identity t k r
                            then r\<lparr>ai_union := union, ai_metadata := meta, ai_updated := now\<rparr> else r) (at_identities tb),
                        at_users := map (\<lambda>v. if ur_id v = ur_id u then v\<lparr>ur_seen := now, ur_updated := now\<rparr> else v) (at_users tb)\<rparr>,
                     Inr \<lparr>ir_user = ur_id u, ir_public = ur_public u, ir_first = False\<rparr>)
                | None \<Rightarrow>
                    let public = stable_runtime_public_id t k; user = at_next tb; tb' = tb\<lparr>at_next := at_next tb + 1\<rparr> in
                    if list_ex (\<lambda>v. collate (ur_public v) = collate public) (at_users tb)
                    then (tb', Inl ''duplicate entry for key uk_public_id'')
                    else if user \<le> 0 then (tb', Inl ''created app user id is unavailable'')
                    else if list_ex (same_identity t k) (at_identities tb)
                    then (tb', Inl ''duplicate entry for key uk_identity'')
                    else (tb'\<lparr>at_users := at_users tb @ [\<lparr>ur_id = user, ur_public = public, ur_status = 1, ur_seen = now,
                                 ur_created = now, ur_updated = now\<rparr>],
                              at_identities := at_identities tb @ [\<lparr>ai_user = user, ai_type = t, ai_key = k, ai_union = union,
                                 ai_metadata = meta, ai_created = now, ai_updated = now\<rparr>]\<rparr>,
                          Inr \<lparr>ir_user = user, ir_public = public, ir_first = True\<rparr>))))"

definition sq_store_session :: "auth_env \<Rightarrow> session \<Rightarrow> auth_tables \<Rightarrow> auth_tables \<times> gostring option" where
  "sq_store_session env x tb =
     (if \<not> valid_token_hash (se_hash x) \<or> se_user x \<le> 0 \<or> se_expires x = zero_time
      then (tb, Some ''session record is incomplete'')
      else (case ae_db env of
          Some e \<Rightarrow> (tb, Some e)
        | None \<Rightarrow>
            let now = mysql_datetime (ae_clock env); ex = Some (mysql_datetime (se_expires x));
                same = (\<lambda>r. collate (sr_hash r) = collate (se_hash x))
            in (tb\<lparr>at_sessions :=
                  (if list_ex same (at_sessions tb)
                   then map (\<lambda>r. if same r then r\<lparr>sr_user := se_user x, sr_program := se_program x, sr_status := 1,
                       sr_expires := ex, sr_seen := now\<rparr> else r) (at_sessions tb)
                   else at_sessions tb @ [\<lparr>sr_hash = se_hash x, sr_user = se_user x, sr_program = se_program x, sr_status = 1,
                       sr_expires = ex, sr_created = now, sr_seen = now\<rparr>])\<rparr>, None)))"

text \<open>A session without expiry matches the condition but cannot be scanned into a time.\<close>
definition sq_lookup_session :: "auth_env \<Rightarrow> token_hash \<Rightarrow> gotime \<Rightarrow> auth_tables \<Rightarrow> gostring + session" where
  "sq_lookup_session env h now0 tb =
     (if \<not> valid_token_hash h then Inl ''client token invalid''
      else (case ae_db env of
          Some e \<Rightarrow> Inl e
        | None \<Rightarrow>
            let now = (if now0 = zero_time then ae_clock env else now0) in
            (case find (\<lambda>r. collate (sr_hash r) = collate h) (at_sessions tb) of
               None \<Rightarrow> Inl ''client token invalid''
             | Some r \<Rightarrow>
                 (case active_user (sr_user r) tb of
                    None \<Rightarrow> Inl ''client token invalid''
                  | Some u \<Rightarrow>
                      if sr_status r \<noteq> 1 \<or> \<not> (case sr_expires r of None \<Rightarrow> True | Some t \<Rightarrow> now < t)
                      then Inl ''client token invalid''
                      else (case sr_expires r of
                          None \<Rightarrow> Inl ''unsupported Scan''
                        | Some t \<Rightarrow> Inr \<lparr>se_hash = h, se_user = sr_user r, se_public = ur_public u,
                            se_program = sr_program r, se_expires = t\<rparr>)))))"

definition mysql_auth_store :: "(auth_env, auth_tables) auth_store" where
  "mysql_auth_store = \<lparr>as_ensure = sq_ensure_identity, as_session = sq_store_session, as_lookup = sq_lookup_session\<rparr>"

section \<open>The tables keep the contract\<close>

text \<open>Rows of identities refer to active users of their own; so do the sessions.\<close>

definition own_users :: "identity_row list \<Rightarrow> bool" where
  "own_users rs \<longleftrightarrow> (\<forall>r \<in> set rs. \<forall>r' \<in> set rs. ai_user r = ai_user r' \<longrightarrow>
     collate (ai_type r) = collate (ai_type r') \<and> collate (ai_key r) = collate (ai_key r'))"

definition at_ok :: "auth_tables \<Rightarrow> bool" where
  "at_ok tb \<longleftrightarrow>
     0 < at_next tb \<and> (\<forall>u \<in> set (at_users tb). ur_id u < at_next tb \<and> ur_public u \<noteq> []) \<and>
     (\<forall>r \<in> set (at_identities tb). active_user (ai_user r) tb \<noteq> None) \<and>
     own_users (at_identities tb) \<and>
     (\<forall>r \<in> set (at_sessions tb). active_user (sr_user r) tb \<noteq> None)"

definition at_ident :: "gostring \<Rightarrow> gostring \<Rightarrow> gostring \<times> gostring" where
  "at_ident t k = (collate t, collate k)"

definition at_bound :: "auth_tables \<Rightarrow> gostring \<times> gostring \<Rightarrow> (int \<times> gostring) option" where
  "at_bound tb k =
     (case find (\<lambda>r. (collate (ai_type r), collate (ai_key r)) = k) (at_identities tb) of
        None \<Rightarrow> None
      | Some r \<Rightarrow> map_option (\<lambda>u. (ur_id u, ur_public u)) (active_user (ai_user r) tb))"

lemma find_map_keep: "(\<And>x. P (f x) = P x) \<Longrightarrow> find P (map f xs) = map_option f (find P xs)"
  by (induction xs) auto

lemma find_snoc: "find P (xs @ [x]) = (case find P xs of None \<Rightarrow> if P x then Some x else None | Some y \<Rightarrow> Some y)"
  by (induction xs) auto

lemma find_in: "find P xs = Some x \<Longrightarrow> x \<in> set xs \<and> P x"
  by (auto simp: find_Some_iff)

lemma active_user_id: "active_user n tb = Some u \<Longrightarrow> ur_id u = n \<and> ur_status u = 1 \<and> u \<in> set (at_users tb)"
  unfolding active_user_def by (auto dest: find_in)

lemma select_identity_bound: "map_option (\<lambda>u. (ur_id u, ur_public u)) (select_identity t k tb) = at_bound tb (at_ident t k)"
  by (simp add: select_identity_def at_bound_def at_ident_def same_identity_def [abs_def] split: option.splits)

text \<open>What a table operation leaves of the users decides the joins.\<close>

lemma active_user_touch:
  assumes "at_users tb' = map (\<lambda>v. if ur_id v = n then v\<lparr>ur_seen := a, ur_updated := b\<rparr> else v) (at_users tb)"
  shows "map_option (\<lambda>u. (ur_id u, ur_public u)) (active_user m tb') = map_option (\<lambda>u. (ur_id u, ur_public u)) (active_user m tb)"
    and "active_user m tb' = None \<longleftrightarrow> active_user m tb = None"
proof -
  have "active_user m tb' = map_option (\<lambda>v. if ur_id v = n then v\<lparr>ur_seen := a, ur_updated := b\<rparr> else v) (active_user m tb)"
    unfolding active_user_def assms by (rule find_map_keep) simp
  then show "map_option (\<lambda>u. (ur_id u, ur_public u)) (active_user m tb') = map_option (\<lambda>u. (ur_id u, ur_public u)) (active_user m tb)"
    and "active_user m tb' = None \<longleftrightarrow> active_user m tb = None"
    by (auto simp: option.map_comp comp_def intro!: option.map_cong0)
qed

lemma active_user_new:
  assumes "at_users tb' = at_users tb @ [v]" and "ur_status v = 1"
  shows "active_user m tb' = (case active_user m tb of None \<Rightarrow> if ur_id v = m then Some v else None | Some u \<Rightarrow> Some u)"
  using assms by (simp add: active_user_def find_snoc)

text \<open>The three ways of \<open>sq_ensure_identity\<close>.\<close>

lemma sq_ensure_cases:
  assumes "sq_ensure_identity env i tb = (tb', res)"
  obtains err n where "res = Inl err" "tb' = tb\<lparr>at_next := n\<rparr>" "n = at_next tb \<or> n = at_next tb + 1"
  | u meta union now where "select_identity (trim_space (id_type i)) (trim_space (id_key i)) tb = Some u"
      "res = Inr \<lparr>ir_user = ur_id u, ir_public = ur_public u, ir_first = False\<rparr>"
      "tb' = tb\<lparr>at_identities := map (\<lambda>r. if same_identity (trim_space (id_type i)) (trim_space (id_key i)) r
                            then r\<lparr>ai_union := union, ai_metadata := meta, ai_updated := now\<rparr> else r) (at_identities tb),
                at_users := map (\<lambda>v. if ur_id v = ur_id u then v\<lparr>ur_seen := now, ur_updated := now\<rparr> else v) (at_users tb)\<rparr>"
  | v r where "select_identity (trim_space (id_type i)) (trim_space (id_key i)) tb = None"
      "\<not> list_ex (same_identity (trim_space (id_type i)) (trim_space (id_key i))) (at_identities tb)"
      "res = Inr \<lparr>ir_user = at_next tb, ir_public = ur_public v, ir_first = True\<rparr>"
      "ur_id v = at_next tb" "ur_status v = 1" "ur_public v \<noteq> []"
      "ai_user r = at_next tb" "ai_type r = trim_space (id_type i)" "ai_key r = trim_space (id_key i)"
      "tb' = tb\<lparr>at_next := at_next tb + 1, at_users := at_users tb @ [v], at_identities := at_identities tb @ [r]\<rparr>"
proof -
  let ?t = "trim_space (id_type i)" and ?k = "trim_space (id_key i)"
  have ne: "stable_runtime_public_id ?t ?k \<noteq> []"
  proof -
    have "length (stable_runtime_public_id ?t ?k) = 26" by (simp add: stable_runtime_public_id_def)
    then show ?thesis by auto
  qed
  show thesis
  proof (cases "?t = [] \<or> ?k = [] \<or> ae_db env \<noteq> None")
    case True
    have "tb' = tb \<and> (\<exists>err. res = Inl err)"
    proof (cases "?t = [] \<or> ?k = []")
      case True
      then show ?thesis using assms unfolding sq_ensure_identity_def Let_def by auto
    next
      case g: False
      with True obtain e where "ae_db env = Some e" by auto
      then show ?thesis using assms unfolding sq_ensure_identity_def Let_def if_not_P [OF g] by auto
    qed
    then show thesis using that(1) [of _ "at_next tb"] by auto
  next
    case False
    then have g: "\<not> (?t = [] \<or> ?k = [])" and db: "ae_db env = None" by auto
    note a = assms [unfolded sq_ensure_identity_def Let_def if_not_P [OF g] db option.case]
    show thesis
    proof (cases "select_identity ?t ?k tb")
      case (Some u)
      then show thesis using a that(2) [of u] by auto
    next
      case None
      show thesis
      proof (cases "list_ex (\<lambda>v. collate (ur_public v) = collate (stable_runtime_public_id ?t ?k)) (at_users tb) \<or>
          at_next tb \<le> 0 \<or> list_ex (same_identity ?t ?k) (at_identities tb)")
        case True
        then have "(\<exists>err. res = Inl err) \<and> tb' = tb\<lparr>at_next := at_next tb + 1\<rparr>"
          using a [unfolded None option.case] by (auto split: if_splits)
        then show thesis using that(1) by blast
      next
        case False
        let ?now = "mysql_datetime (ae_clock env)"
        let ?v = "\<lparr>ur_id = at_next tb, ur_public = stable_runtime_public_id ?t ?k, ur_status = 1, ur_seen = ?now,
            ur_created = ?now, ur_updated = ?now\<rparr>"
        let ?r = "\<lparr>ai_user = at_next tb, ai_type = ?t, ai_key = ?k, ai_union = metadata_string (id_metadata i) ''unionid'',
            ai_metadata = marshal_metadata (id_metadata i), ai_created = ?now, ai_updated = ?now\<rparr>"
        have F: "\<not> list_ex (\<lambda>v. collate (ur_public v) = collate (stable_runtime_public_id ?t ?k)) (at_users tb)"
          "\<not> at_next tb \<le> 0" "\<not> list_ex (same_identity ?t ?k) (at_identities tb)" using False by blast+
        have b: "tb' = tb\<lparr>at_next := at_next tb + 1, at_users := at_users tb @ [?v], at_identities := at_identities tb @ [?r]\<rparr>"
          "res = Inr \<lparr>ir_user = at_next tb, ir_public = ur_public ?v, ir_first = True\<rparr>"
          using a [unfolded None option.case if_not_P [OF F(1)] if_not_P [OF F(2)] if_not_P [OF F(3)]] by auto
        show thesis by (rule that(3) [of ?v ?r, OF None F(3) b(2) _ _ _ _ _ _ b(1)]) (use ne in simp_all)
      qed
    qed
  qed
qed

lemma at_ok_next: "at_ok tb \<Longrightarrow> n = at_next tb \<or> n = at_next tb + 1 \<Longrightarrow> at_ok (tb\<lparr>at_next := n\<rparr>)"
proof -
  assume ok: "at_ok tb" and n: "n = at_next tb \<or> n = at_next tb + 1"
  have a: "active_user m (tb\<lparr>at_next := n\<rparr>) = active_user m tb" for m by (simp add: active_user_def)
  have b: "0 < at_next tb" "\<forall>u \<in> set (at_users tb). ur_id u < at_next tb \<and> ur_public u \<noteq> []"
    using ok unfolding at_ok_def by blast+
  then have "0 < n" "\<forall>u \<in> set (at_users tb). ur_id u < n \<and> ur_public u \<noteq> []" using n by fastforce+
  with ok show ?thesis unfolding at_ok_def a by simp
qed

lemma sq_ensure_ok:
  assumes "at_ok tb" and "sq_ensure_identity env i tb = (tb', res)"
  shows "at_ok tb'"
  using assms(2)
proof (cases rule: sq_ensure_cases)
  case (1 err n)
  then show ?thesis using at_ok_next [OF assms(1)] by simp
next
  case (2 u meta union now)
  let ?f = "\<lambda>r. if same_identity (trim_space (id_type i)) (trim_space (id_key i)) r
      then r\<lparr>ai_union := union, ai_metadata := meta, ai_updated := now\<rparr> else r"
  have f: "ai_user (?f r) = ai_user r" "ai_type (?f r) = ai_type r" "ai_key (?f r) = ai_key r" for r by simp_all
  have a: "active_user m tb' = None \<longleftrightarrow> active_user m tb = None" for m
    by (rule active_user_touch [where n = "ur_id u" and a = now and b = now]) (simp add: 2(3))
  have ids: "set (at_identities tb') = ?f ` set (at_identities tb)" and rest: "at_sessions tb' = at_sessions tb" "at_next tb' = at_next tb"
    by (simp_all add: 2(3))
  show ?thesis unfolding at_ok_def a rest
  proof (intro conjI)
    show "\<forall>u \<in> set (at_users tb'). ur_id u < at_next tb \<and> ur_public u \<noteq> []"
      using assms(1) by (auto simp: at_ok_def 2(3))
    show "\<forall>r \<in> set (at_identities tb'). active_user (ai_user r) tb \<noteq> None"
      using assms(1) unfolding ids ball_simps f at_ok_def by blast
    show "own_users (at_identities tb')"
      using assms(1) unfolding own_users_def ids ball_simps f at_ok_def by blast
  qed (use assms(1) in \<open>simp_all add: at_ok_def\<close>)
next
  case (3 v r)
  have a: "active_user m tb' = (case active_user m tb of None \<Rightarrow> if ur_id v = m then Some v else None | Some u \<Rightarrow> Some u)" for m
    by (rule active_user_new [OF _ 3(5)]) (simp add: 3(10))
  have old: "ai_user r' < at_next tb" if "r' \<in> set (at_identities tb)" for r'
  proof -
    have "active_user (ai_user r') tb \<noteq> None" using assms(1) that unfolding at_ok_def by blast
    then obtain w where "active_user (ai_user r') tb = Some w" by blast
    from active_user_id [OF this] show ?thesis using assms(1) by (auto simp: at_ok_def)
  qed
  have new: "active_user (at_next tb) tb' \<noteq> None" using 3(4) by (auto simp: a split: option.splits)
  have keep: "active_user m tb' \<noteq> None" if "active_user m tb \<noteq> None" for m using that by (auto simp: a)
  show ?thesis unfolding at_ok_def
  proof (intro conjI)
    show "0 < at_next tb'" using assms(1) by (simp add: at_ok_def 3(10))
    show "\<forall>u \<in> set (at_users tb'). ur_id u < at_next tb' \<and> ur_public u \<noteq> []"
      using assms(1) 3(4,6) by (auto simp: at_ok_def 3(10))
    show "\<forall>r \<in> set (at_identities tb'). active_user (ai_user r) tb' \<noteq> None"
      using assms(1) keep new 3(7) by (auto simp: at_ok_def 3(10))
    have ids: "set (at_identities tb') = insert r (set (at_identities tb))" by (simp add: 3(10))
    have "ai_user r \<noteq> ai_user r'" if "r' \<in> set (at_identities tb)" for r' using old [OF that] 3(7) by simp
    then show "own_users (at_identities tb')"
      using assms(1) unfolding own_users_def ids at_ok_def by (metis insertE)
    show "\<forall>r \<in> set (at_sessions tb'). active_user (sr_user r) tb' \<noteq> None"
      using assms(1) keep by (auto simp: at_ok_def 3(10))
  qed
qed

lemma sq_ensure_bound:
  assumes "at_ok tb" and "sq_ensure_identity env i tb = (tb', res)"
    and "k = at_ident (trim_space (id_type i)) (trim_space (id_key i))"
  shows "case res of
      Inl _ \<Rightarrow> at_bound tb' = at_bound tb
    | Inr r \<Rightarrow> at_bound tb' = (at_bound tb)(k \<mapsto> (ir_user r, ir_public r)) \<and> ir_first r = (at_bound tb k = None) \<and>
        (at_bound tb k = None \<or> at_bound tb k = Some (ir_user r, ir_public r))"
  using assms(2)
proof (cases rule: sq_ensure_cases)
  case (1 err n)
  have "active_user m tb' = active_user m tb" for m by (simp add: active_user_def 1(2))
  then have "at_bound tb' = at_bound tb" by (intro ext) (simp add: at_bound_def 1(2) cong: option.case_cong)
  then show ?thesis by (simp add: 1(1))
next
  case (2 u meta union now)
  let ?f = "\<lambda>r. if same_identity (trim_space (id_type i)) (trim_space (id_key i)) r
      then r\<lparr>ai_union := union, ai_metadata := meta, ai_updated := now\<rparr> else r"
  have a: "map_option (\<lambda>u. (ur_id u, ur_public u)) (active_user m tb') = map_option (\<lambda>u. (ur_id u, ur_public u)) (active_user m tb)" for m
    by (rule active_user_touch [where n = "ur_id u" and a = now and b = now]) (simp add: 2(3))
  have f: "find (\<lambda>r. (collate (ai_type r), collate (ai_key r)) = k') (at_identities tb') =
      map_option ?f (find (\<lambda>r. (collate (ai_type r), collate (ai_key r)) = k') (at_identities tb))" for k'
    unfolding 2(3) by (simp, rule find_map_keep) simp
  have b: "at_bound tb' = at_bound tb"
    by (rule ext) (auto simp: at_bound_def f a split: option.splits)
  have "at_bound tb k = Some (ur_id u, ur_public u)"
    using select_identity_bound [of "trim_space (id_type i)" "trim_space (id_key i)" tb] 2(1) assms(3) by simp
  then show ?thesis using b by (simp add: 2(2) fun_eq_iff)
next
  case (3 v r)
  have a: "active_user m tb' = (case active_user m tb of None \<Rightarrow> if ur_id v = m then Some v else None | Some u \<Rightarrow> Some u)" for m
    by (rule active_user_new [OF _ 3(5)]) (simp add: 3(10))
  have none: "find (\<lambda>r. (collate (ai_type r), collate (ai_key r)) = k) (at_identities tb) = None"
    using 3(2) assms(3) by (auto simp: find_None_iff list_ex_iff same_identity_def at_ident_def)
  have rk: "(collate (ai_type r), collate (ai_key r)) = k" by (simp add: assms(3) at_ident_def 3(8,9))
  have fresh: "active_user (at_next tb) tb = None"
    using assms(1) by (auto simp: active_user_def find_None_iff at_ok_def)
  have "at_bound tb' k' = (if k' = k then Some (at_next tb, ur_public v) else at_bound tb k')" for k'
  proof (cases "k' = k")
    case True
    then show ?thesis using none rk fresh 3(4,7) using a [of "at_next tb"] by (simp add: at_bound_def 3(10) find_snoc)
  next
    case False
    show ?thesis
    proof (cases "find (\<lambda>r. (collate (ai_type r), collate (ai_key r)) = k') (at_identities tb)")
      case None
      then show ?thesis using False rk by (auto simp: at_bound_def 3(10) find_snoc)
    next
      case (Some r')
      then have "active_user (ai_user r') tb \<noteq> None" using assms(1) find_in [OF Some] by (auto simp: at_ok_def)
      then show ?thesis using Some False a [of "ai_user r'"] by (auto simp: at_bound_def 3(10) find_snoc)
    qed
  qed
  moreover have "at_bound tb k = None" by (simp add: at_bound_def none)
  ultimately show ?thesis by (simp add: 3(3) fun_eq_iff)
qed

lemma sq_ensure_users:
  assumes "at_ok tb" and "sq_ensure_identity env i tb = (tb', res)" and "active_user n tb \<noteq> None"
  shows "map_option (\<lambda>u. (ur_id u, ur_public u)) (active_user n tb') = map_option (\<lambda>u. (ur_id u, ur_public u)) (active_user n tb)"
  using assms(2)
proof (cases rule: sq_ensure_cases)
  case (1 err n)
  then show ?thesis by (simp add: active_user_def)
next
  case (2 u meta union now)
  show ?thesis by (rule active_user_touch(1) [where n = "ur_id u" and a = now and b = now]) (simp add: 2(3))
next
  case (3 v r)
  have "active_user n tb' = (case active_user n tb of None \<Rightarrow> if ur_id v = n then Some v else None | Some u \<Rightarrow> Some u)"
    by (rule active_user_new [OF _ 3(5)]) (simp add: 3(10))
  then show ?thesis using assms(3) by auto
qed

text \<open>A lookup depends on the session row and its user.\<close>

lemma sq_lookup_cong:
  assumes "find (\<lambda>r. collate (sr_hash r) = collate h) (at_sessions tb') = find (\<lambda>r. collate (sr_hash r) = collate h) (at_sessions tb)"
    and "\<And>r. find (\<lambda>r. collate (sr_hash r) = collate h) (at_sessions tb) = Some r \<Longrightarrow>
      map_option ur_public (active_user (sr_user r) tb') = map_option ur_public (active_user (sr_user r) tb)"
  shows "sq_lookup_session env h now tb' = sq_lookup_session env h now tb"
proof (cases "find (\<lambda>r. collate (sr_hash r) = collate h) (at_sessions tb)")
  case None
  then show ?thesis using assms(1) by (simp add: sq_lookup_session_def cong: option.case_cong)
next
  case (Some r)
  show ?thesis using assms(2) [OF Some] assms(1) Some
    by (cases "active_user (sr_user r) tb"; cases "active_user (sr_user r) tb'")
      (auto simp: sq_lookup_session_def cong: option.case_cong)
qed

lemma sq_ensure_lookup:
  assumes "at_ok tb" and "sq_ensure_identity env i tb = (tb', res)"
  shows "sq_lookup_session env' h now tb' = sq_lookup_session env' h now tb"
proof (rule sq_lookup_cong)
  have "at_sessions tb' = at_sessions tb" using assms(2) by (cases rule: sq_ensure_cases) simp_all
  then show "find (\<lambda>r. collate (sr_hash r) = collate h) (at_sessions tb') = find (\<lambda>r. collate (sr_hash r) = collate h) (at_sessions tb)"
    by simp
  fix r assume "find (\<lambda>r. collate (sr_hash r) = collate h) (at_sessions tb) = Some r"
  then have "active_user (sr_user r) tb \<noteq> None" using assms(1) find_in unfolding at_ok_def by fast
  from sq_ensure_users [OF assms this]
  show "map_option ur_public (active_user (sr_user r) tb') = map_option ur_public (active_user (sr_user r) tb)"
    by (cases "active_user (sr_user r) tb"; cases "active_user (sr_user r) tb'") auto
qed

text \<open>Hashes are lower-case hexadecimal, which the collation tells apart.\<close>

lemma lower_hex_char: "n < 16 \<Longrightarrow> lower_char (hex_char n) = hex_char n"
  by (simp add: lower_char_def hex_char_def Let_def)

lemma collate_hash [simp]: "collate (hash_token t) = hash_token t"
proof -
  have "to_lower (hex_encode s) = hex_encode s" for s
    by (induction s) (simp_all add: hex_encode_def to_lower_def lower_hex_char)
  then show ?thesis by (simp add: collate_def hash_token_def)
qed

lemma sq_store_None:
  assumes "sq_store_session env x tb = (tb', res)"
  shows "at_users tb' = at_users tb \<and> at_next tb' = at_next tb \<and> at_identities tb' = at_identities tb \<and>
    (\<forall>r \<in> set (at_sessions tb'). r \<in> set (at_sessions tb) \<or> sr_user r = se_user x) \<and>
    (\<forall>h. collate h \<noteq> collate (se_hash x) \<longrightarrow>
      find (\<lambda>r. collate (sr_hash r) = collate h) (at_sessions tb') = find (\<lambda>r. collate (sr_hash r) = collate h) (at_sessions tb)) \<and>
    (res = None \<longrightarrow> valid_token_hash (se_hash x) \<and> (\<exists>r. find (\<lambda>r. collate (sr_hash r) = collate (se_hash x)) (at_sessions tb') = Some r \<and>
      sr_user r = se_user x \<and> sr_program r = se_program x \<and> sr_status r = 1 \<and> sr_expires r = Some (mysql_datetime (se_expires x))))"
proof (cases "\<not> valid_token_hash (se_hash x) \<or> se_user x \<le> 0 \<or> se_expires x = zero_time \<or> ae_db env \<noteq> None")
  case True
  have "tb' = tb \<and> res \<noteq> None"
  proof (cases "\<not> valid_token_hash (se_hash x) \<or> se_user x \<le> 0 \<or> se_expires x = zero_time")
    case guard: True
    show ?thesis using assms [unfolded sq_store_session_def if_P [OF guard]] by auto
  next
    case guard: False
    with True obtain e where e: "ae_db env = Some e" by auto
    show ?thesis using assms [unfolded sq_store_session_def if_not_P [OF guard] e option.case] by auto
  qed
  then show ?thesis by auto
next
  case False
  let ?now = "mysql_datetime (ae_clock env)" and ?ex = "Some (mysql_datetime (se_expires x))"
  let ?same = "\<lambda>r. collate (sr_hash r) = collate (se_hash x)"
  let ?f = "\<lambda>r. if ?same r then r\<lparr>sr_user := se_user x, sr_program := se_program x, sr_status := 1, sr_expires := ?ex, sr_seen := ?now\<rparr> else r"
  let ?new = "\<lparr>sr_hash = se_hash x, sr_user = se_user x, sr_program = se_program x, sr_status = 1,
     sr_expires = ?ex, sr_created = ?now, sr_seen = ?now\<rparr>"
  have tb': "tb' = tb\<lparr>at_sessions := (if list_ex ?same (at_sessions tb) then map ?f (at_sessions tb) else at_sessions tb @ [?new])\<rparr>"
    and ok: "valid_token_hash (se_hash x)"
    using assms False by (auto simp: sq_store_session_def Let_def)
  show ?thesis
  proof (cases "list_ex ?same (at_sessions tb)")
    case True
    have f: "find P (map ?f rs) = map_option ?f (find P rs)" if "\<And>r. P (?f r) = P r" for P rs
      using that by (rule find_map_keep)
    obtain r where r: "find ?same (at_sessions tb) = Some r"
      using True by (cases "find ?same (at_sessions tb)") (auto simp: find_None_iff list_ex_iff)
    have other: "map_option ?f (find (\<lambda>r. collate (sr_hash r) = collate h) rs) = find (\<lambda>r. collate (sr_hash r) = collate h) rs"
      if "collate h \<noteq> collate (se_hash x)" for h rs
      using that by (cases "find (\<lambda>r. collate (sr_hash r) = collate h) rs") (auto dest: find_in)
    have s: "at_sessions tb' = map ?f (at_sessions tb)" and u: "at_users tb' = at_users tb" "at_next tb' = at_next tb" "at_identities tb' = at_identities tb"
      using True by (simp_all add: tb')
    have mine: "find ?same (at_sessions tb') = Some (?f r)" unfolding s using f [of ?same "at_sessions tb"] r by simp
    have row: "sr_user (?f r) = se_user x" "sr_program (?f r) = se_program x" "sr_status (?f r) = 1"
      "sr_expires (?f r) = Some (mysql_datetime (se_expires x))" using find_in [OF r] by simp_all
    have "\<forall>r \<in> set (at_sessions tb'). r \<in> set (at_sessions tb) \<or> sr_user r = se_user x" unfolding s by auto
    moreover have "\<forall>h. collate h \<noteq> collate (se_hash x) \<longrightarrow>
      find (\<lambda>r. collate (sr_hash r) = collate h) (at_sessions tb') = find (\<lambda>r. collate (sr_hash r) = collate h) (at_sessions tb)"
      unfolding s by (intro allI impI, subst f) (simp, erule other)
    ultimately show ?thesis using ok u mine row by blast
  next
    case new: False
    then have "find ?same (at_sessions tb) = None" by (auto simp: find_None_iff list_ex_iff)
    then show ?thesis using ok new by (auto simp: tb' find_snoc split: option.splits)
  qed
qed

lemma bound_active:
  assumes "at_bound tb k = Some (u, p)"
  obtains w where "active_user u tb = Some w" "ur_public w = p"
proof -
  obtain r where f: "find (\<lambda>r. (collate (ai_type r), collate (ai_key r)) = k) (at_identities tb) = Some r"
    using assms by (cases "find (\<lambda>r. (collate (ai_type r), collate (ai_key r)) = k) (at_identities tb)") (simp_all add: at_bound_def)
  have "map_option (\<lambda>u. (ur_id u, ur_public u)) (active_user (ai_user r) tb) = Some (u, p)"
    using assms unfolding at_bound_def f by simp
  then obtain w where w: "active_user (ai_user r) tb = Some w" "ur_id w = u" "ur_public w = p"
    by (cases "active_user (ai_user r) tb") auto
  with active_user_id [OF w(1)] that show thesis by simp
qed

interpretation mysql_store: identity_store mysql_auth_store at_ok at_ident at_bound mysql_datetime "\<lambda>e. ae_db e = None"
proof
  fix s s' e i err assume "at_ok s" "as_ensure mysql_auth_store e i s = (s', Inl err)"
  then show "at_ok s' \<and> at_bound s' = at_bound s"
    using sq_ensure_ok sq_ensure_bound [OF _ _ refl] by (fastforce simp: mysql_auth_store_def)
next
  fix s s' e i r k
  assume "at_ok s" "as_ensure mysql_auth_store e i s = (s', Inr r)"
    and "k = at_ident (trim_space (id_type i)) (trim_space (id_key i))"
  then show "at_ok s' \<and> at_bound s' = (at_bound s)(k \<mapsto> (ir_user r, ir_public r)) \<and> ir_first r = (at_bound s k = None) \<and>
      (at_bound s k = None \<or> at_bound s k = Some (ir_user r, ir_public r))"
    using sq_ensure_ok sq_ensure_bound [of s e i s' "Inr r" k] by (auto simp: mysql_auth_store_def)
next
  fix s s' :: auth_tables and e e' :: auth_env and i h now ir
  assume "at_ok s" "as_ensure mysql_auth_store e i s = (s', ir)"
  then show "as_lookup mysql_auth_store e' h now s' = as_lookup mysql_auth_store e' h now s"
    using sq_ensure_lookup by (simp add: mysql_auth_store_def)
next
  fix s k u p k' p' assume ok: "at_ok s" and b: "at_bound s k = Some (u, p)" "at_bound s k' = Some (u, p')"
  have ex: "\<exists>r \<in> set (at_identities s). (collate (ai_type r), collate (ai_key r)) = k \<and> ai_user r = u" if "at_bound s k = Some (u, p)" for k p
    using that by (auto simp: at_bound_def split: option.splits dest!: find_in active_user_id)
  from ex [OF b(1)] ex [OF b(2)] ok show "k = k'" unfolding at_ok_def own_users_def by fastforce
next
  fix s k u p assume "at_ok s" "at_bound s k = Some (u, p)"
  then show "p \<noteq> []" unfolding at_ok_def at_bound_def by (auto split: option.splits dest!: active_user_id)
next
  fix s s' :: auth_tables and k e x res
  assume ok: "at_ok s" and b: "at_bound s k = Some (se_user x, se_public x)" and st: "as_session mysql_auth_store e x s = (s', res)"
  have m: "sq_store_session e x s = (s', res)" using st by (simp add: mysql_auth_store_def)
  note S = sq_store_None [OF m]
  have u: "active_user n s' = active_user n s" for n using S by (simp add: active_user_def)
  have "active_user (se_user x) s \<noteq> None" using bound_active [OF b] by blast
  then have "\<forall>r \<in> set (at_sessions s'). active_user (sr_user r) s \<noteq> None"
    using S ok unfolding at_ok_def by metis
  then show "at_ok s' \<and> at_bound s' = at_bound s"
    using S ok unfolding at_ok_def u at_bound_def [abs_def] by simp
next
  fix s s' :: auth_tables and e e' :: auth_env and x res t t' now
  assume "at_ok s" "as_session mysql_auth_store e x s = (s', res)" "se_hash x = hash_token t" "hash_token t' \<noteq> se_hash x"
  then have S: "sq_store_session e x s = (s', res)" "collate (hash_token t') \<noteq> collate (se_hash x)"
    by (simp_all add: mysql_auth_store_def)
  have u: "active_user n s' = active_user n s" for n using sq_store_None [OF S(1)] by (simp add: active_user_def)
  have f: "find (\<lambda>r. collate (sr_hash r) = collate (hash_token t')) (at_sessions s') =
      find (\<lambda>r. collate (sr_hash r) = collate (hash_token t')) (at_sessions s)"
    using sq_store_None [OF S(1)] S(2) by blast
  have "sq_lookup_session e' (hash_token t') now s' = sq_lookup_session e' (hash_token t') now s"
    by (rule sq_lookup_cong [OF f]) (simp add: u)
  then show "as_lookup mysql_auth_store e' (hash_token t') now s' = as_lookup mysql_auth_store e' (hash_token t') now s"
    by (simp add: mysql_auth_store_def)
next
  fix s s' :: auth_tables and k e x now and e' :: auth_env
  assume ok: "at_ok s" and b: "at_bound s k = Some (se_user x, se_public x)"
    and st: "as_session mysql_auth_store e x s = (s', None)" and e': "ae_db e' = None" and now: "now \<noteq> zero_time"
  have m: "sq_store_session e x s = (s', None)" using st by (simp add: mysql_auth_store_def)
  obtain r where r: "valid_token_hash (se_hash x)" "find (\<lambda>r. collate (sr_hash r) = collate (se_hash x)) (at_sessions s') = Some r"
      "sr_user r = se_user x" "sr_program r = se_program x" "sr_status r = 1" "sr_expires r = Some (mysql_datetime (se_expires x))"
    using sq_store_None [OF m] by blast
  obtain u where u: "active_user (se_user x) s = Some u" "ur_public u = se_public x"
    using bound_active [OF b] by blast
  have "active_user (se_user x) s' = Some u" using u(1) sq_store_None [OF m] by (simp add: active_user_def)
  then show "if now < mysql_datetime (se_expires x)
      then as_lookup mysql_auth_store e' (se_hash x) now s' = Inr (x\<lparr>se_expires := mysql_datetime (se_expires x)\<rparr>)
      else \<exists>err. as_lookup mysql_auth_store e' (se_hash x) now s' = Inl err"
    using r u(2) e' now by (simp add: mysql_auth_store_def sq_lookup_session_def)
qed

section \<open>Properties\<close>

text \<open>
  C18.  A login on the MySQL store authenticates until it expires: whatever logins follow (with other
  tokens), a request that carries the token is the client that logged in, with its user, its public
  identifier and its program, before the expiry the table keeps (the promised one to the nearest
  second), and nobody from then on.
\<close>
theorem mysql_login_authenticates:
  assumes "login mysql_auth_store cfg entropy e1 e2 now q tb = (tb', l, Inr res)" and "at_ok tb"
    and "hash_token (lg_token res) \<notin> set (map attempt_hash others)"
    and "extract_token h = lg_token res" and "ae_db e = None" and "now' \<noteq> zero_time"
  shows "authenticate mysql_auth_store e now' h (run_logins mysql_auth_store cfg others tb') =
    (if now' < mysql_datetime (lg_expires res)
     then Some \<lparr>au_user = lg_user res, au_uid = lg_uid res, au_public = lg_public res,
       au_program = lq_program (normalize_login cfg q), au_expires = mysql_datetime (lg_expires res)\<rparr>
     else None)"
  by (rule mysql_store.login_authenticates [OF assms])

text \<open>
  Who is who: of two logins on the MySQL store, whatever logins lie between them, the second is
  the same user exactly when the identities agree up to the collation of the table; then it has the
  same public identifier and is no first login.
\<close>
theorem mysql_login_identity:
  assumes "login mysql_auth_store cfg entropy e1 e2 now q tb = (tb', l, Inr res)" and "at_ok tb"
    and "login mysql_auth_store cfg entropy' e1' e2' now' q' (run_logins mysql_auth_store cfg others tb') = (tb'', l', Inr res')"
  shows "\<exists>k k'. login_ident at_ident cfg q = Some k \<and> login_ident at_ident cfg q' = Some k' \<and>
    (lg_user res' = lg_user res \<longleftrightarrow> k' = k) \<and> (k' = k \<longrightarrow> lg_public res' = lg_public res \<and> \<not> lg_first res')"
  by (rule mysql_store.login_identity [OF assms])

section \<open>Concrete logins\<close>

text \<open>Two WeChat users whose identifiers differ in case only.\<close>

definition demo_auth :: auth_config where
  "demo_auth = \<lparr>ac_environment = ''production'', ac_ttl = hour, ac_program = 12, ac_wechat = \<lparr>wc_app = ''a'', wc_secret = ''s''\<rparr>,
     ac_exchanger = Some (\<lambda>q. Inr \<lparr>ws_openid = xr_code q, ws_unionid = [], ws_key = []\<rparr>)\<rparr>"

definition demo_login :: "gostring \<Rightarrow> login_request" where
  "demo_login code = \<lparr>lq_code = code, lq_program = 0, lq_client = []\<rparr>"

definition demo_env :: auth_env where "demo_env = \<lparr>ae_clock = 7, ae_db = None\<rparr>"

definition demo_tables :: auth_tables where
  "demo_tables = \<lparr>at_users = [], at_next = 1, at_identities = [], at_sessions = []\<rparr>"

definition demo_identity :: "gostring \<Rightarrow> identity" where
  "demo_identity code = \<lparr>id_type = ''wechat_mini:12'', id_key = code,
     id_metadata = [(''programType'', FInt 12), (''openid'', FStr code)]\<rparr>"

lemma demo_resolves:
  "resolve_identity demo_auth (normalize_login demo_auth (demo_login ''oAbC'')) = Inr (demo_identity ''oAbC'')"
  "resolve_identity demo_auth (normalize_login demo_auth (demo_login ''oabc'')) = Inr (demo_identity ''oabc'')"
  by code_simp+

lemma demo_trims:
  "trim_space ''wechat_mini:12'' = ''wechat_mini:12''" "trim_space ''oAbC'' = ''oAbC''" "trim_space ''oabc'' = ''oabc''"
  "collate ''oAbC'' = ''oabc''" "collate ''oabc'' = ''oabc''"
  by code_simp+

lemma login_ok:
  assumes "32 \<le> length entropy" and "resolve_identity cfg (normalize_login cfg q) = Inr i"
    and "as_ensure ops e1 i s = (s1, Inr r)"
    and "as_session ops e2 \<lparr>se_hash = hash_token (b64_encode (take 32 entropy)), se_user = ir_user r, se_public = ir_public r,
        se_program = lq_program (normalize_login cfg q), se_expires = now + ac_ttl cfg\<rparr> s1 = (s2, None)"
  shows "\<exists>res. login ops cfg entropy e1 e2 now q s = (s2, None, Inr res) \<and> lg_token res = b64_encode (take 32 entropy) \<and>
    lg_user res = ir_user r \<and> lg_expires res = now + ac_ttl cfg"
  using assms by (simp add: login_def generate_token_def Let_def)

lemma store_session_ok:
  "valid_token_hash (se_hash x) \<Longrightarrow> 0 < se_user x \<Longrightarrow> se_expires x \<noteq> zero_time \<Longrightarrow> ae_db env = None \<Longrightarrow>
     \<exists>tb'. sq_store_session env x tb = (tb', None) \<and> at_identities tb' = at_identities tb \<and> at_users tb' = at_users tb"
  by (simp add: sq_store_session_def Let_def)

lemma demo_first:
  obtains tb' res where "login mysql_auth_store demo_auth (replicate 32 CHR ''x'') demo_env demo_env 7 (demo_login ''oAbC'') demo_tables
      = (tb', None, Inr res)" "lg_token res = b64_encode (replicate 32 CHR ''x'')" "lg_user res = 1" "lg_expires res = 7 + hour"
    "\<exists>v r. at_users tb' = [v] \<and> ur_id v = 1 \<and> ur_status v = 1 \<and> at_identities tb' = [r] \<and> ai_user r = 1 \<and>
       ai_type r = ''wechat_mini:12'' \<and> ai_key r = ''oAbC''"
proof -
  obtain tb1 pub where e: "as_ensure mysql_auth_store demo_env (demo_identity ''oAbC'') demo_tables =
      (tb1, Inr \<lparr>ir_user = 1, ir_public = pub, ir_first = True\<rparr>)"
    and rows: "\<exists>v r. at_users tb1 = [v] \<and> ur_id v = 1 \<and> ur_status v = 1 \<and> at_identities tb1 = [r] \<and> ai_user r = 1 \<and>
       ai_type r = ''wechat_mini:12'' \<and> ai_key r = ''oAbC''"
    by (simp add: mysql_auth_store_def sq_ensure_identity_def Let_def demo_identity_def demo_trims demo_env_def
        demo_tables_def select_identity_def)
  let ?x = "\<lparr>se_hash = hash_token (b64_encode (take 32 (replicate 32 CHR ''x''))), se_user = 1, se_public = pub,
        se_program = lq_program (normalize_login demo_auth (demo_login ''oAbC'')), se_expires = 7 + ac_ttl demo_auth\<rparr>"
  have "7 + ac_ttl demo_auth \<noteq> zero_time" "ac_ttl demo_auth = hour" by code_simp+
  then obtain tb' where st: "sq_store_session demo_env ?x tb1 = (tb', None)" "at_identities tb' = at_identities tb1" "at_users tb' = at_users tb1"
    using store_session_ok [of ?x demo_env tb1] by (auto simp: valid_hash_token demo_env_def)
  have "\<exists>res. login mysql_auth_store demo_auth (replicate 32 CHR ''x'') demo_env demo_env 7 (demo_login ''oAbC'') demo_tables
      = (tb', None, Inr res) \<and> lg_token res = b64_encode (take 32 (replicate 32 CHR ''x'')) \<and>
      lg_user res = ir_user \<lparr>ir_user = 1, ir_public = pub, ir_first = True\<rparr> \<and> lg_expires res = 7 + ac_ttl demo_auth"
    by (rule login_ok [OF _ demo_resolves(1) e]) (use st(1) in \<open>simp_all add: mysql_auth_store_def\<close>)
  then show thesis using that st(2,3) rows \<open>ac_ttl demo_auth = hour\<close> by auto
qed

lemma demo_tables_ok: "at_ok demo_tables"
  by (simp add: at_ok_def demo_tables_def own_users_def)

theorem mysql_login_authenticates_witness:
  "\<exists>tb' res. login mysql_auth_store demo_auth (replicate 32 CHR ''x'') demo_env demo_env 7 (demo_login ''oAbC'') demo_tables
      = (tb', None, Inr res) \<and>
     (\<exists>c. authenticate mysql_auth_store demo_env 8 [(''Token'', [b64_encode (replicate 32 CHR ''x'')])] tb' = Some c \<and> au_user c = 1)"
proof -
  obtain tb' res where L: "login mysql_auth_store demo_auth (replicate 32 CHR ''x'') demo_env demo_env 7 (demo_login ''oAbC'') demo_tables
      = (tb', None, Inr res)" and t: "lg_token res = b64_encode (replicate 32 CHR ''x'')" "lg_user res = 1" "lg_expires res = 7 + hour"
    by (rule demo_first)
  have x: "extract_token [(''Token'', [b64_encode (replicate 32 CHR ''x'')])] = lg_token res" unfolding t(1) by code_simp
  have lt: "8 < mysql_datetime (7 + hour)" "ae_db demo_env = None" by code_simp+
  have "hash_token (lg_token res) \<notin> set (map attempt_hash ([] :: auth_env login_attempt list))" by simp
  from mysql_login_authenticates [OF L demo_tables_ok this x lt(2), of 8] L lt t
  show ?thesis by auto
qed

theorem mysql_login_identity_witness:
  "\<exists>tb' res tb'' res'. login mysql_auth_store demo_auth (replicate 32 CHR ''x'') demo_env demo_env 7 (demo_login ''oAbC'') demo_tables
      = (tb', None, Inr res) \<and>
     login mysql_auth_store demo_auth (replicate 32 CHR ''y'') demo_env demo_env 9 (demo_login ''oabc'') tb' = (tb'', None, Inr res') \<and>
     lg_user res' = lg_user res"
proof -
  obtain tb' res where L: "login mysql_auth_store demo_auth (replicate 32 CHR ''x'') demo_env demo_env 7 (demo_login ''oAbC'') demo_tables
      = (tb', None, Inr res)"
    and rows: "\<exists>v r. at_users tb' = [v] \<and> ur_id v = 1 \<and> ur_status v = 1 \<and> at_identities tb' = [r] \<and> ai_user r = 1 \<and>
       ai_type r = ''wechat_mini:12'' \<and> ai_key r = ''oAbC''" by (rule demo_first)
  obtain v r where tb': "at_users tb' = [v]" "ur_id v = 1" "ur_status v = 1" "at_identities tb' = [r]" "ai_user r = 1"
       "ai_type r = ''wechat_mini:12''" "ai_key r = ''oAbC''" using rows by blast
  obtain tb1 where e: "as_ensure mysql_auth_store demo_env (demo_identity ''oabc'') tb' =
      (tb1, Inr \<lparr>ir_user = 1, ir_public = ur_public v, ir_first = False\<rparr>)"
    by (simp add: mysql_auth_store_def sq_ensure_identity_def Let_def demo_identity_def demo_trims demo_env_def
        select_identity_def active_user_def same_identity_def tb')
  let ?x = "\<lparr>se_hash = hash_token (b64_encode (take 32 (replicate 32 CHR ''y''))), se_user = 1, se_public = ur_public v,
        se_program = lq_program (normalize_login demo_auth (demo_login ''oabc'')), se_expires = 9 + ac_ttl demo_auth\<rparr>"
  have "9 + ac_ttl demo_auth \<noteq> zero_time" by code_simp
  then obtain tb'' where st: "sq_store_session demo_env ?x tb1 = (tb'', None)"
    using store_session_ok [of ?x demo_env tb1] by (auto simp: valid_hash_token demo_env_def)
  have "\<exists>res'. login mysql_auth_store demo_auth (replicate 32 CHR ''y'') demo_env demo_env 9 (demo_login ''oabc'') tb'
      = (tb'', None, Inr res') \<and> lg_token res' = b64_encode (take 32 (replicate 32 CHR ''y'')) \<and>
      lg_user res' = ir_user \<lparr>ir_user = 1, ir_public = ur_public v, ir_first = False\<rparr> \<and> lg_expires res' = 9 + ac_ttl demo_auth"
    by (rule login_ok [OF _ demo_resolves(2) e]) (use st in \<open>simp_all add: mysql_auth_store_def\<close>)
  then obtain res' where L': "login mysql_auth_store demo_auth (replicate 32 CHR ''y'') demo_env demo_env 9 (demo_login ''oabc'')
      (run_logins mysql_auth_store demo_auth [] tb') = (tb'', None, Inr res')" by auto
  have k: "login_ident at_ident demo_auth (demo_login ''oAbC'') = login_ident at_ident demo_auth (demo_login ''oabc'')"
    by (simp add: login_ident_def demo_resolves at_ident_def demo_identity_def demo_trims)
  from mysql_login_identity [OF L demo_tables_ok L'] k have "lg_user res' = lg_user res" by auto
  with L L' show ?thesis by auto
qed

end
