(* ===== verification/ParseUrl.thy ===== *)
theory ParseUrl imports
  NetGuard
begin

text \<open>
  \<open>internal/parse/url.go\<close>: finding the URL in a shared text and its canonical form, under which results
  are cached, and \<open>internal/parse/normalize.go\<close>.  The conversion of internationalised names
  (\<open>idna.Lookup.ToASCII\<close>) is the argument \<open>idna\<close>; the bound that recent Go releases put on the number
  of query parameters is left out.
\<close>

section \<open>Errors\<close>

datatype error_class = ErrorInvalidInput | ErrorUnsupported | ErrorCredentialRequired | ErrorUpstreamTimeout
  | ErrorUpstreamBlocked | ErrorEmptyMedia | ErrorSchemaChanged | ErrorInternal | ErrorCanceled
  | ErrorSecurityRejected | ErrorOtherClass gostring

datatype stage = StageInput | StageCache | StageParser | StageUpstream | StageStore | StageNormalize | StageOther gostring

record parse_error =
  pe_class :: error_class
  pe_stage :: stage
  pe_platform :: gostring
  pe_retryable :: bool

text \<open>An empty class or stage is \<open>ErrorOtherClass []\<close> or \<open>StageOther []\<close>.\<close>
definition new_error :: "error_class \<Rightarrow> stage \<Rightarrow> gostring \<Rightarrow> bool \<Rightarrow> parse_error" where
  "new_error c s platform retryable =
     \<lparr>pe_class = (if c = ErrorOtherClass [] then ErrorInternal else c),
      pe_stage = (if s = StageOther [] then StageParser else s),
      pe_platform = trim_space platform, pe_retryable = retryable\<rparr>"

section \<open>Descriptors\<close>

record host_rule =
  hr_host :: gostring
  hr_subdomains :: bool

record descriptor =
  de_platform :: gostring
  de_query_keys :: "gostring list"
  de_host_rules :: "host_rule list"

record resource =
  re_url :: gostring
  re_platform :: gostring
  re_host :: gostring
  re_fingerprint :: gostring
  re_log :: "(gostring, gostring) gomap"

section \<open>Extraction\<close>

text \<open>The class \<open>[^\s<>"']\<close> and the leftmost match of \<open>https?://[^\s<>"']+\<close>; empty without one.\<close>
definition url_char :: "char \<Rightarrow> bool" where
  "url_char c \<longleftrightarrow> c \<notin> {CHR 0x09, CHR 0x0A, CHR 0x0C, CHR 0x0D, CHR 0x20, CHR ''<'', CHR ''>'', CHR 0x22, CHR 0x27}"

definition url_match :: "gostring \<Rightarrow> gostring \<Rightarrow> gostring" where
  "url_match scheme s =
     (if has_prefix s scheme then
        (let body = takeWhile url_char (drop (length scheme) s) in if body = [] then [] else scheme @ body)
      else [])"

fun find_url :: "gostring \<Rightarrow> gostring" where
  "find_url [] = []"
| "find_url (c # s) =
     (if url_match ''https://'' (c # s) \<noteq> [] then url_match ''https://'' (c # s)
      else if url_match ''http://'' (c # s) \<noteq> [] then url_match ''http://'' (c # s)
      else find_url s)"

text \<open>The punctuation that may follow a URL in a text, ASCII and full-width, as UTF-8.\<close>
definition trailing_marks :: "gostring list" where
  "trailing_marks =
    [[CHR 0x22], [CHR 0x27], [CHR 0xEF, CHR 0xBC, CHR 0x8C], [CHR 0xE3, CHR 0x80, CHR 0x82],
     [CHR 0xEF, CHR 0xBC, CHR 0x81], [CHR 0xEF, CHR 0xBC, CHR 0x9F], [CHR ''!''], [CHR ''?''],
     [CHR 0xEF, CHR 0xBC, CHR 0x89], [CHR '')''], [CHR '']''], [CHR ''}''], [CHR ''>''],
     [CHR 0xE3, CHR 0x80, CHR 0x8B], [CHR 0xE3, CHR 0x80, CHR 0x8D]]"

definition trim_marks :: "gostring \<Rightarrow> gostring" where
  "trim_marks s = rev (trim_left_of (map rev trailing_marks) (rev s))"

definition extract_url :: "gostring \<Rightarrow> parse_error + gostring" where
  "extract_url input =
     (let value = trim_space (find_url (trim_space input)) in
      if value = [] then Inl (new_error ErrorInvalidInput StageInput [] False)
      else Inr (trim_marks value))"

section \<open>The canonical form\<close>

definition normalize_host :: "idna \<Rightarrow> gostring \<Rightarrow> gostring option" where
  "normalize_host idna raw =
     (let host = trim_suffix (to_lower (trim_space raw)) ''.'' in
      if host = [] \<or> contains_any host ''/:@[]'' then None
      else (case idna host of
          None \<Rightarrow> None
        | Some ascii \<Rightarrow> if ascii = [] then None else Some (to_lower ascii)))"

definition host_with_port :: "url \<Rightarrow> gostring \<Rightarrow> gostring" where
  "host_with_port u host =
     (let port = trim_space (url_port u) in
      if port = [] \<or> (u_scheme u = ''http'' \<and> port = ''80'') \<or> (u_scheme u = ''https'' \<and> port = ''443'') then host
      else join_host_port host port)"

text \<open>\<open>path.Clean\<close> of a rooted path, segment by segment; the stack holds the segments kept, the last first.\<close>
definition clean_segment :: "gostring \<Rightarrow> gostring list \<Rightarrow> gostring list" where
  "clean_segment w stack = (if w = [] \<or> w = ''.'' then stack else if w = ''..'' then tl stack else w # stack)"

definition clean_path :: "gostring \<Rightarrow> gostring" where
  "clean_path raw =
     (if raw = [] then []
      else CHR ''/'' # join ''/'' (rev (fold clean_segment (split_on CHR ''/'' (dropWhile (\<lambda>c. c = CHR ''/'') raw)) [])))"

definition normalize_query_key :: "gostring \<Rightarrow> gostring" where
  "normalize_query_key k = to_lower (trim_space k)"

definition normalized_query_keys :: "gostring list \<Rightarrow> gostring list" where
  "normalized_query_keys ks = sort (remdups (filter (\<lambda>k. k \<noteq> []) (map normalize_query_key ks)))"

text \<open>\<open>url.ParseQuery\<close>: the pairs in order, None when any of them is malformed.\<close>
definition parse_pair :: "gostring \<Rightarrow> (gostring \<times> gostring) option" where
  "parse_pair w =
     (if CHR '';'' \<in> set w then None
      else (case cut_at CHR ''='' w of
          (k, v) \<Rightarrow> (case (url_unescape EncQuery k, url_unescape EncQuery (case v of None \<Rightarrow> [] | Some x \<Rightarrow> x)) of
              (Some a, Some b) \<Rightarrow> Some (a, b) | _ \<Rightarrow> None)))"

definition parse_query :: "gostring \<Rightarrow> (gostring \<times> gostring) list option" where
  "parse_query q = those (map parse_pair (filter (\<lambda>w. w \<noteq> []) (split_on CHR ''&'' q)))"

text \<open>The values kept under a key: distinct, not empty, sorted.\<close>
definition kept_values :: "(gostring \<times> gostring) list \<Rightarrow> gostring \<Rightarrow> gostring list" where
  "kept_values kvs k = sort (remdups (map snd (filter (\<lambda>(k', v). normalize_query_key k' = k \<and> v \<noteq> []) kvs)))"

text \<open>\<open>Values.Encode\<close> over sorted keys.\<close>
definition encode_query :: "(gostring \<times> gostring list) list \<Rightarrow> gostring" where
  "encode_query kvs = join ''&'' (concat (map (\<lambda>(k, vs). map (\<lambda>v. url_escape EncQuery k @ ''='' @ url_escape EncQuery v) vs) kvs))"

definition canonical_query :: "gostring \<Rightarrow> gostring list \<Rightarrow> gostring" where
  "canonical_query raw allowed =
     (let ks = normalized_query_keys allowed in
      if ks = [] then []
      else (case parse_query raw of
          None \<Rightarrow> []
        | Some kvs \<Rightarrow> encode_query (map (\<lambda>k. (k, kept_values kvs k)) ks)))"

definition descriptor_matches_host :: "idna \<Rightarrow> descriptor \<Rightarrow> gostring \<Rightarrow> bool" where
  "descriptor_matches_host idna d host \<longleftrightarrow>
     list_ex (\<lambda>r. case normalize_host idna (hr_host r) of
         None \<Rightarrow> False
       | Some h \<Rightarrow> host = h \<or> (hr_subdomains r \<and> has_suffix host (''.'' @ h))) (de_host_rules d)"

definition canonicalize_url :: "idna \<Rightarrow> gostring \<Rightarrow> descriptor \<Rightarrow> parse_error + resource" where
  "canonicalize_url idna raw d =
     (let invalid = new_error ErrorInvalidInput StageInput (de_platform d) False in
      rbind (or_error invalid (url_parse (trim_space raw))) (\<lambda>u0.
      rbind (require (url_hostname u0 \<noteq> []) invalid) (\<lambda>_.
        let u = u0\<lparr>u_scheme := to_lower (trim_space (u_scheme u0))\<rparr> in
        rbind (require (u_scheme u = ''http'' \<or> u_scheme u = ''https'') invalid) (\<lambda>_.
        rbind (or_error invalid (normalize_host idna (url_hostname u))) (\<lambda>host.
        rbind (require (de_host_rules d = [] \<or> descriptor_matches_host idna d host)
            (new_error ErrorUnsupported StageInput (de_platform d) False)) (\<lambda>_.
          let c = u\<lparr>u_host := host_with_port u host, u_path := clean_path (u_path u), u_raw_path := [],
                u_raw_query := canonical_query (u_raw_query u) (de_query_keys d), u_force_query := False, u_fragment := []\<rparr>;
              canonical = url_string c
          in Inr \<lparr>re_url = canonical, re_platform = trim_space (de_platform d), re_host = host,
               re_fingerprint = hex_encode (sha256 canonical),
               re_log = [(''platform'', trim_space (de_platform d)), (''scheme'', u_scheme c), (''host'', host),
                 (''queryKeys'', join '','' (normalized_query_keys (de_query_keys d)))]\<rparr>))))))"

section \<open>Results\<close>

record image_asset =
  im_url :: gostring
  im_live :: gostring

record parse_result =
  pr_platform :: gostring
  pr_type :: gostring
  pr_title :: gostring
  pr_description :: gostring
  pr_video :: gostring
  pr_audio :: gostring
  pr_cover :: gostring
  pr_preview :: gostring
  pr_m3u8 :: gostring
  pr_author_uid :: gostring
  pr_author_name :: gostring
  pr_author_avatar :: gostring
  pr_images :: "image_asset list"
  pr_duration :: int

record compat_data =
  cd_platform :: gostring
  cd_type :: gostring
  cd_title :: gostring
  cd_desc :: gostring
  cd_cover :: gostring
  cd_author :: gostring
  cd_avatar :: gostring
  cd_audio :: gostring
  cd_duration :: int
  cd_downloads :: "(gostring \<times> gostring) list"
  cd_images :: "gostring list"
  cd_m3u8 :: gostring
  cd_preview :: gostring
  cd_play :: gostring
  cd_share :: gostring
  cd_source :: gostring
  cd_assets :: "image_asset list"

fun first_non_empty :: "gostring list \<Rightarrow> gostring" where
  "first_non_empty [] = []"
| "first_non_empty (v # vs) = (if trim_space v \<noteq> [] then trim_space v else first_non_empty vs)"

definition infer_type :: "parse_result \<Rightarrow> gostring" where
  "infer_type r =
     (if trim_space (pr_type r) \<noteq> [] then trim_space (pr_type r)
      else if trim_space (pr_m3u8 r) \<noteq> [] then ''m3u8''
      else if pr_images r \<noteq> [] then ''gallery''
      else if trim_space (pr_video r) \<noteq> [] then ''video''
      else if trim_space (pr_audio r) \<noteq> [] then ''audio''
      else ''unknown'')"

text \<open>The music, mp3, audio and audioUrl fields hold the same value, images and pics the same list.\<close>
definition normalize :: "parse_result \<Rightarrow> compat_data" where
  "normalize r =
     (let m3u8 = trim_space (pr_m3u8 r);
          preview0 = trim_space (first_non_empty [pr_preview r, pr_video r, pr_m3u8 r]);
          play0 = trim_space (first_non_empty [pr_video r, pr_m3u8 r]);
          video = trim_space (pr_video r);
          audio = trim_space (pr_audio r);
          assets = filter (\<lambda>i. im_url i \<noteq> []) (map (\<lambda>i. \<lparr>im_url = trim_space (im_url i), im_live = trim_space (im_live i)\<rparr>) (pr_images r))
      in \<lparr>cd_platform = trim_space (pr_platform r), cd_type = infer_type r, cd_title = trim_space (pr_title r),
          cd_desc = trim_space (first_non_empty [pr_description r, pr_title r]),
          cd_cover = trim_space (pr_cover r), cd_author = trim_space (pr_author_name r),
          cd_avatar = trim_space (pr_author_avatar r), cd_audio = audio, cd_duration = pr_duration r,
          cd_downloads = (if video \<noteq> [] then [(video, ''video'')] else []) @
            (if m3u8 \<noteq> [] then [(m3u8, ''m3u8'')] else []) @
            (if audio \<noteq> [] \<and> pr_video r = [] then [(audio, ''audio'')] else []),
          cd_images = map im_url assets, cd_m3u8 = m3u8,
          cd_preview = (if m3u8 \<noteq> [] \<and> preview0 = [] then m3u8 else preview0),
          cd_play = (if m3u8 \<noteq> [] \<and> play0 = [] then m3u8 else play0),
          cd_share = [], cd_source = [],
          cd_assets = (if list_ex (\<lambda>i. im_live i \<noteq> []) assets then assets else [])\<rparr>)"

section \<open>Properties\<close>

definition clean_parts :: "gostring list \<Rightarrow> bool" where
  "clean_parts ws \<longleftrightarrow> list_all (\<lambda>w. w \<noteq> [] \<and> w \<noteq> ''.'' \<and> w \<noteq> ''..'' \<and> CHR ''/'' \<notin> set w) ws"

lemma clean_parts_simps [simp]:
  "clean_parts []"
  "clean_parts (w # ws) \<longleftrightarrow> w \<noteq> [] \<and> w \<noteq> ''.'' \<and> w \<noteq> ''..'' \<and> CHR ''/'' \<notin> set w \<and> clean_parts ws"
  "clean_parts (rev ws) = clean_parts ws"
  by (simp_all add: clean_parts_def list_all_rev)

lemma clean_parts_tl: "clean_parts ws \<Longrightarrow> clean_parts (tl ws)"
  by (cases ws) simp_all

lemma clean_segment_parts: "clean_parts st \<Longrightarrow> CHR ''/'' \<notin> set w \<Longrightarrow> clean_parts (clean_segment w st)"
  by (simp add: clean_segment_def clean_parts_tl)

lemma fold_clean_parts: "clean_parts st \<Longrightarrow> \<forall>w \<in> set ws. CHR ''/'' \<notin> set w \<Longrightarrow> clean_parts (fold clean_segment ws st)"
  by (induction ws arbitrary: st) (simp_all add: clean_segment_parts)

lemma split_on_parts: "\<forall>w \<in> set (split_on d s). d \<notin> set w"
proof (induction s)
  case (Cons c s)
  then show ?case by (cases "split_on d s") auto
qed simp

lemma fold_clean_id: "clean_parts ws \<Longrightarrow> fold clean_segment ws st = rev ws @ st"
  by (induction ws arbitrary: st) (simp_all add: clean_segment_def)

text \<open>A cleaned path is rooted, has no empty and no dot segment, and cleaning it again changes nothing.\<close>

lemma clean_path_form:
  assumes "raw \<noteq> []"
  obtains ws where "clean_path raw = CHR ''/'' # join ''/'' ws" "clean_parts ws"
proof -
  have "clean_parts (rev (fold clean_segment (split_on CHR ''/'' (dropWhile (\<lambda>c. c = CHR ''/'') raw)) []))"
    using fold_clean_parts [OF clean_parts_simps(1) split_on_parts] by simp
  with that assms show thesis by (simp add: clean_path_def)
qed

lemma join_clean_parts:
  assumes "clean_parts (w # ws)"
  shows "dropWhile (\<lambda>c. c = CHR ''/'') (join ''/'' (w # ws)) = join ''/'' (w # ws)"
proof -
  obtain d x where w: "w = d # x" using assms by (cases w) simp_all
  with assms have "d \<noteq> CHR ''/''" by auto
  with w show ?thesis by (cases ws) simp_all
qed

lemma clean_parts_slash: "clean_parts ws \<Longrightarrow> \<forall>w \<in> set ws. CHR ''/'' \<notin> set w"
  by (simp add: clean_parts_def list_all_iff)

lemma clean_path_idem: "clean_path (clean_path raw) = clean_path raw"
proof (cases "raw = []")
  case False
  then obtain ws where c: "clean_path raw = CHR ''/'' # join ''/'' ws" and ws: "clean_parts ws" by (rule clean_path_form)
  show ?thesis
  proof (cases ws)
    case Nil
    have "clean_path ''/'' = ''/''" by code_simp
    then show ?thesis using c Nil by simp
  next
    case (Cons w vs)
    have "split_on CHR ''/'' (join ''/'' (w # vs)) = w # vs"
      by (rule split_on_join) (use clean_parts_slash [OF ws] Cons in simp_all)
    moreover have "dropWhile (\<lambda>c. c = CHR ''/'') (CHR ''/'' # join ''/'' (w # vs)) = join ''/'' (w # vs)"
      using join_clean_parts [of w vs] ws Cons by simp
    moreover have "fold clean_segment (w # vs) [] = rev (w # vs)"
      using fold_clean_id [of "w # vs" "[]"] ws Cons by simp
    ultimately have "clean_path (CHR ''/'' # join ''/'' (w # vs)) = CHR ''/'' # join ''/'' (w # vs)"
      by (simp only: clean_path_def list.distinct if_False rev_rev_ident)
    then show ?thesis using c Cons by simp
  qed
qed (simp add: clean_path_def)

text \<open>The pairs of a query that matter.\<close>

definition relevant_pairs :: "gostring list \<Rightarrow> gostring \<Rightarrow> (gostring \<times> gostring) set" where
  "relevant_pairs allowed raw =
     (case parse_query raw of None \<Rightarrow> {}
      | Some kvs \<Rightarrow> {(normalize_query_key k, v) | k v. (k, v) \<in> set kvs \<and> v \<noteq> [] \<and>
          normalize_query_key k \<in> set (normalized_query_keys allowed)})"

lemma kept_values_cong:
  assumes "\<And>v. v \<noteq> [] \<Longrightarrow> (\<exists>k'. (k', v) \<in> set xs \<and> normalize_query_key k' = k) \<longleftrightarrow> (\<exists>k'. (k', v) \<in> set ys \<and> normalize_query_key k' = k)"
  shows "kept_values xs k = kept_values ys k"
proof -
  have s: "set (map snd (filter (\<lambda>(k', v). normalize_query_key k' = k \<and> v \<noteq> []) kvs)) =
      {v. v \<noteq> [] \<and> (\<exists>k'. (k', v) \<in> set kvs \<and> normalize_query_key k' = k)}" for kvs
    by (auto simp: image_iff)
  have "sort (remdups as) = sort (remdups bs)" if "set as = set bs" for as bs :: "gostring list"
    by (rule sorted_distinct_set_unique) (simp_all add: that)
  then show ?thesis unfolding kept_values_def by (rule) (unfold s, use assms in blast)
qed

lemma canonical_query_cong:
  assumes "parse_query q1 \<noteq> None" and "parse_query q2 \<noteq> None"
    and "relevant_pairs allowed q1 = relevant_pairs allowed q2"
  shows "canonical_query q1 allowed = canonical_query q2 allowed"
proof -
  obtain xs ys where p: "parse_query q1 = Some xs" "parse_query q2 = Some ys" using assms(1,2) by blast
  have "kept_values xs k = kept_values ys k" if k: "k \<in> set (normalized_query_keys allowed)" for k
  proof (rule kept_values_cong)
    fix v :: gostring assume v: "v \<noteq> []"
    have "(\<exists>k'. (k', v) \<in> set kvs \<and> normalize_query_key k' = k) \<longleftrightarrow> (k, v) \<in> relevant_pairs allowed q"
      if "parse_query q = Some kvs" for q kvs
      using that k v by (auto simp: relevant_pairs_def)
    then show "(\<exists>k'. (k', v) \<in> set xs \<and> normalize_query_key k' = k) \<longleftrightarrow> (\<exists>k'. (k', v) \<in> set ys \<and> normalize_query_key k' = k)"
      using p assms(3) by metis
  qed
  then show ?thesis by (simp add: canonical_query_def p Let_def cong: map_cong)
qed

text \<open>
  C19.  What does not matter for the canonical form: two URLs of the same scheme (in any case), user and
  port whose hosts normalise alike, whose paths clean alike and whose well-formed queries agree on the
  values of the allowed keys have the same canonical URL and the same fingerprint.  So tracking
  parameters, the order and repetition of parameters, dot segments, repeated slashes, fragments and the
  spelling of the host make no second cache entry.
\<close>
theorem canonical_insensitive:
  assumes "url_parse (trim_space raw1) = Some u1" and "url_parse (trim_space raw2) = Some u2"
    and "canonicalize_url idna raw1 d = Inr r1"
    and "to_lower (trim_space (u_scheme u1)) = to_lower (trim_space (u_scheme u2))"
    and "u_user u1 = u_user u2" and "url_port u1 = url_port u2" and "u_opaque u1 = u_opaque u2" and "u_omit_host u1 = u_omit_host u2"
    and "normalize_host idna (url_hostname u1) = normalize_host idna (url_hostname u2)" and "url_hostname u2 \<noteq> []"
    and "clean_path (u_path u1) = clean_path (u_path u2)"
    and "parse_query (u_raw_query u1) \<noteq> None" and "parse_query (u_raw_query u2) \<noteq> None"
    and "relevant_pairs (de_query_keys d) (u_raw_query u1) = relevant_pairs (de_query_keys d) (u_raw_query u2)"
  shows "canonicalize_url idna raw2 d = Inr r1"
proof -
  have q: "canonical_query (u_raw_query u1) (de_query_keys d) = canonical_query (u_raw_query u2) (de_query_keys d)"
    by (rule canonical_query_cong [OF assms(12-14)])
  define c where "c = (\<lambda>u host. u\<lparr>u_scheme := to_lower (trim_space (u_scheme u)),
      u_host := host_with_port (u\<lparr>u_scheme := to_lower (trim_space (u_scheme u))\<rparr>) host, u_path := clean_path (u_path u), u_raw_path := [],
      u_raw_query := canonical_query (u_raw_query u) (de_query_keys d), u_force_query := False, u_fragment := []\<rparr>)"
  have "c u1 host = c u2 host" for host
    using assms(4-8,11) q by (cases u1; cases u2) (simp add: c_def host_with_port_def Let_def url_port_def)
  then show ?thesis
    using assms(3,4,9,10) assms(1,2) unfolding canonicalize_url_def Let_def
    by (simp add: or_error_def go_errors c_def split: option.splits)
qed

definition example_descriptor :: descriptor where
  "example_descriptor = \<lparr>de_platform = ''demo'', de_query_keys = [''X''], de_host_rules = [\<lparr>hr_host = ''a.b'', hr_subdomains = True\<rparr>]\<rparr>"

lemma canonicalize_url_ok:
  assumes "url_parse (trim_space raw) = Some u" and "url_hostname u \<noteq> []"
    and "to_lower (trim_space (u_scheme u)) \<in> {''http'', ''https''}"
    and "normalize_host idna (url_hostname u) = Some host" and "descriptor_matches_host idna d host"
  obtains r where "canonicalize_url idna raw d = Inr r"
proof -
  have h: "url_hostname (u\<lparr>u_scheme := s\<rparr>) = url_hostname u" for s by (simp add: url_hostname_def)
  show thesis
    by (rule that, unfold canonicalize_url_def Let_def assms(1) or_error_def h) (use assms h in \<open>simp add: go_errors or_error_def\<close>)
qed

theorem canonical_insensitive_witness:
  "\<exists>r. canonicalize_url Some ''http://a.b/c?x=1&u=2'' example_descriptor = Inr r \<and>
     canonicalize_url Some ''HTTP://A.b./d/../c?u=3&x=1&X=1#f'' example_descriptor = Inr r"
proof -
  let ?a = "''http://a.b/c?x=1&u=2''"
  let ?b = "''HTTP://A.b./d/../c?u=3&x=1&X=1#f''"
  let ?ua = "the (url_parse (trim_space ?a))" and ?ub = "the (url_parse (trim_space ?b))"
  have ps: "url_parse (trim_space ?a) \<noteq> None" "url_parse (trim_space ?b) \<noteq> None" by code_simp+
  then have p: "url_parse (trim_space ?a) = Some ?ua" "url_parse (trim_space ?b) = Some ?ub" by (metis option.collapse)+
  have sch: "to_lower (trim_space (u_scheme ?ua)) \<in> {''http'', ''https''}" by code_simp
  have hn: "url_hostname ?ua \<noteq> []" by code_simp
  have no: "normalize_host Some (url_hostname ?ua) = Some ''a.b''" by code_simp
  have m: "descriptor_matches_host Some example_descriptor ''a.b''" by code_simp
  obtain r where r: "canonicalize_url Some ?a example_descriptor = Inr r"
    by (rule canonicalize_url_ok [OF p(1) hn sch no m])
  have e: "to_lower (trim_space (u_scheme ?ua)) = to_lower (trim_space (u_scheme ?ub))"
    "u_user ?ua = u_user ?ub" "url_port ?ua = url_port ?ub" "u_opaque ?ua = u_opaque ?ub" "u_omit_host ?ua = u_omit_host ?ub"
    "normalize_host Some (url_hostname ?ua) = normalize_host Some (url_hostname ?ub)" "url_hostname ?ub \<noteq> []"
    "clean_path (u_path ?ua) = clean_path (u_path ?ub)" by code_simp+
  have qs: "parse_query (u_raw_query ?ua) = Some [(''x'', ''1''), (''u'', ''2'')]"
    "parse_query (u_raw_query ?ub) = Some [(''u'', ''3''), (''x'', ''1''), (''X'', ''1'')]" by code_simp+
  have k: "normalized_query_keys (de_query_keys example_descriptor) = [''x'']"
    "normalize_query_key ''x'' = ''x''" "normalize_query_key ''X'' = ''x''"
    "normalize_query_key ''u'' = ''u''" by code_simp+
  have "relevant_pairs (de_query_keys example_descriptor) (u_raw_query ?ua) = {(''x'', ''1'')}"
    unfolding relevant_pairs_def qs option.case k(1) by (auto simp: k)
  moreover have "relevant_pairs (de_query_keys example_descriptor) (u_raw_query ?ub) = {(''x'', ''1'')}"
    unfolding relevant_pairs_def qs option.case k(1) by (auto simp: k) (metis k(2))
  ultimately have rel: "relevant_pairs (de_query_keys example_descriptor) (u_raw_query ?ua) =
      relevant_pairs (de_query_keys example_descriptor) (u_raw_query ?ub)" by simp
  have "canonicalize_url Some ?b example_descriptor = Inr r"
    by (rule canonical_insensitive [OF p r e _ _ rel]) (simp_all only: qs option.distinct not_False_eq_True simp_thms)
  with r show ?thesis by blast
qed

end
