(* ===== verification/ParserRegistry.thy ===== *)
theory ParserRegistry imports
  ParseUrl
  NetAuthority
  "HOL-Library.Multiset"
begin

text \<open>
  \<open>internal/parser\<close>: platform descriptors (\<open>descriptor.go\<close>), the registry that finds the parser of a
  URL, the query filter, the catalog and the request budget (\<open>registry.go\<close>).  A parser constructor is a
  value of any type.  The struct \<open>HostRule\<close> of this package is that of \<open>internal/parse\<close>.
\<close>

section \<open>Descriptors\<close>

type_synonym capability = "32 word"

definition capability_video :: capability where "capability_video = 1"
definition capability_gallery :: capability where "capability_gallery = 2"
definition capability_audio :: capability where "capability_audio = 4"
definition capability_live_photo :: capability where "capability_live_photo = 8"
definition capability_m3u8 :: capability where "capability_m3u8 = 16"

record 'p core_descriptor =
  rd_key :: gostring
  rd_display :: gostring
  rd_aliases :: "gostring list"
  rd_hosts :: "host_rule list"
  rd_capabilities :: capability
  rd_priority :: int
  rd_query_keys :: "gostring list"
  rd_supports_id :: bool
  rd_max_requests :: int
  rd_max_redirects :: int
  rd_session_host :: gostring
  rd_authority :: "authority_rule list"
  rd_new :: "'p option"

definition has_capability :: "'p core_descriptor \<Rightarrow> capability \<Rightarrow> bool" where
  "has_capability d c \<longleftrightarrow> and (rd_capabilities d) c \<noteq> 0"

definition valid_platform_char :: "char \<Rightarrow> bool" where
  "valid_platform_char c \<longleftrightarrow> (97 \<le> byte_val c \<and> byte_val c \<le> 122) \<or> is_digit c"

definition valid_platform_key :: "gostring \<Rightarrow> bool" where
  "valid_platform_key v \<longleftrightarrow> v \<noteq> [] \<and> valid_platform_char (hd v) \<and>
     list_all (\<lambda>c. valid_platform_char c \<or> c = CHR ''-'') (tl v) \<and> trim_space v = v"

section \<open>The order of the registry\<close>

text \<open>Descriptors are tried by priority, then by key: a linear order on ranks.\<close>
datatype rank = Rank (rank_priority: int) (rank_key: gostring)

instantiation rank :: linorder
begin
definition less_eq_rank :: "rank \<Rightarrow> rank \<Rightarrow> bool" where
  "less_eq_rank a b \<longleftrightarrow> (if rank_priority a \<noteq> rank_priority b then rank_priority a < rank_priority b else rank_key a \<le> rank_key b)"
definition less_rank :: "rank \<Rightarrow> rank \<Rightarrow> bool" where
  "less_rank a b \<longleftrightarrow> (if rank_priority a \<noteq> rank_priority b then rank_priority a < rank_priority b else rank_key a < rank_key b)"
instance
proof
  fix x y z :: rank
  show "x < y \<longleftrightarrow> x \<le> y \<and> \<not> y \<le> x" by (auto simp: less_eq_rank_def less_rank_def)
  show "x \<le> x" by (simp add: less_eq_rank_def)
  show "x \<le> y \<Longrightarrow> y \<le> z \<Longrightarrow> x \<le> z" by (auto simp: less_eq_rank_def split: if_splits)
  show "x \<le> y \<Longrightarrow> y \<le> x \<Longrightarrow> x = y" by (cases x; cases y) (auto simp: less_eq_rank_def split: if_splits)
  show "x \<le> y \<or> y \<le> x" by (auto simp: less_eq_rank_def)
qed
end

definition descriptor_rank :: "'p core_descriptor \<Rightarrow> rank" where
  "descriptor_rank d = Rank (rd_priority d) (rd_key d)"

section \<open>Building the registry\<close>

datatype registry_error = InvalidDescriptor gostring | InvalidPlatformKey gostring
  | SharedPlatformKey gostring nat nat | InvalidQueryKey | DuplicateQueryKey gostring
  | InvalidHostRule gostring | DuplicateHostRule gostring | AmbiguousHostRule gostring gostring gostring
  | InvalidAuthorityHost gostring

record 'p registry =
  rg_descriptors :: "'p core_descriptor list"
  rg_keys :: "(gostring, nat) gomap"
  rg_reserved :: "gostring list"

definition normalize_registry_host :: "idna \<Rightarrow> gostring \<Rightarrow> gostring option" where
  "normalize_registry_host idna raw =
     (let host = trim_suffix (to_lower (trim_space raw)) ''.'' in
      if host = [] \<or> contains_any host ''/:@[]'' then None
      else (case idna host of
          None \<Rightarrow> None
        | Some ascii \<Rightarrow> if ascii = [] then None else Some (to_lower ascii)))"

definition host_rule_matches :: "host_rule \<Rightarrow> gostring \<Rightarrow> bool" where
  "host_rule_matches r host \<longleftrightarrow> host = hr_host r \<or> (hr_subdomains r \<and> has_suffix host (''.'' @ hr_host r))"

definition host_rules_overlap :: "host_rule \<Rightarrow> host_rule \<Rightarrow> bool" where
  "host_rules_overlap l r \<longleftrightarrow> host_rule_matches l (hr_host r) \<or> host_rule_matches r (hr_host l)"

definition has_exact_input_host :: "host_rule list \<Rightarrow> gostring \<Rightarrow> bool" where
  "has_exact_input_host rules host \<longleftrightarrow> list_ex (\<lambda>r. hr_host r = host) rules"

definition bad_descriptor :: "'p core_descriptor \<Rightarrow> bool" where
  "bad_descriptor d \<longleftrightarrow>
     \<not> valid_platform_key (rd_key d) \<or> rd_new d = None \<or> rd_hosts d = [] \<or>
     trim_space (rd_display d) = [] \<or> trim_space (rd_display d) \<noteq> rd_display d \<or>
     contains_any (rd_display d) [CHR 0x00, CHR 0x0D, CHR 0x0A] \<or> rd_capabilities d = 0 \<or>
     and (rd_capabilities d) (not (or capability_video (or capability_gallery (or capability_audio
       (or capability_live_photo capability_m3u8))))) \<noteq> 0 \<or>
     rd_priority d < 0 \<or> rd_max_requests d \<le> 0 \<or> rd_max_redirects d < 0"

text \<open>The key and the aliases of the descriptor at index \<open>i\<close>.\<close>
fun claim_keys :: "nat \<Rightarrow> gostring list \<Rightarrow> (gostring, nat) gomap \<Rightarrow> registry_error + (gostring, nat) gomap" where
  "claim_keys i [] ks = Inr ks"
| "claim_keys i (k # rest) ks =
     (if \<not> valid_platform_key k then Inl (InvalidPlatformKey k)
      else (case map_of ks k of
          Some owner \<Rightarrow> Inl (SharedPlatformKey k owner i)
        | None \<Rightarrow> claim_keys i rest (AList.update k i ks)))"

fun check_query_keys :: "gostring list \<Rightarrow> gostring list \<Rightarrow> registry_error + gostring list" where
  "check_query_keys [] seen = Inr []"
| "check_query_keys (raw # rest) seen =
     (let k = to_lower (trim_space raw) in
      if k = [] \<or> contains_any k ''&=%'' then Inl InvalidQueryKey
      else if k \<in> set seen then Inl (DuplicateQueryKey k)
      else rbind (check_query_keys rest (k # seen)) (\<lambda>ks. Inr (k # ks)))"

text \<open>The host rules of the descriptor \<open>key\<close>, against those of the descriptors before.\<close>
fun claim_hosts :: "idna \<Rightarrow> gostring \<Rightarrow> host_rule list \<Rightarrow> gostring list \<Rightarrow> (host_rule \<times> gostring) list
    \<Rightarrow> registry_error + (host_rule list \<times> (host_rule \<times> gostring) list)" where
  "claim_hosts idna key [] seen owners = Inr ([], owners)"
| "claim_hosts idna key (r # rest) seen owners =
     rbind (or_error (InvalidHostRule key) (normalize_registry_host idna (hr_host r))) (\<lambda>host.
       if host \<in> set seen then Inl (DuplicateHostRule host)
       else let rule = r\<lparr>hr_host := host\<rparr> in
         (case find (\<lambda>(r', k). k \<noteq> key \<and> host_rules_overlap r' rule) owners of
            Some (_, k) \<Rightarrow> Inl (AmbiguousHostRule host k key)
          | None \<Rightarrow> rbind (claim_hosts idna key rest (host # seen) (owners @ [(rule, key)]))
              (\<lambda>(rules, owners'). Inr (rule # rules, owners'))))"

definition purpose_input_share :: authority_purpose where
  "purpose_input_share = ''input_share''"

text \<open>The authority rules; hosts that are not for sharing are reserved.\<close>
fun claim_authority :: "idna \<Rightarrow> gostring \<Rightarrow> host_rule list \<Rightarrow> authority_rule list \<Rightarrow> gostring list
    \<Rightarrow> registry_error + (authority_rule list \<times> gostring list)" where
  "claim_authority idna key hosts [] reserved = Inr ([], reserved)"
| "claim_authority idna key hosts (r # rest) reserved =
     (if ar_dynamic r then rbind (claim_authority idna key hosts rest reserved) (\<lambda>(rs, res). Inr (r # rs, res))
      else rbind (or_error (InvalidAuthorityHost key) (normalize_registry_host idna (ar_host r))) (\<lambda>host.
        rbind (claim_authority idna key hosts rest
            (if ar_purpose r \<noteq> purpose_input_share \<and> \<not> has_exact_input_host hosts host then List.insert host reserved else reserved))
          (\<lambda>(rs, res). Inr (r\<lparr>ar_host := host\<rparr> # rs, res))))"

fun add_descriptors :: "idna \<Rightarrow> nat \<Rightarrow> 'p core_descriptor list \<Rightarrow> (host_rule \<times> gostring) list \<Rightarrow> 'p registry
    \<Rightarrow> registry_error + 'p registry" where
  "add_descriptors idna i [] owners reg = Inr reg"
| "add_descriptors idna i (d # ds) owners reg =
     rbind (require (\<not> bad_descriptor d) (InvalidDescriptor (rd_key d))) (\<lambda>_.
     rbind (claim_keys i (rd_key d # rd_aliases d) (rg_keys reg)) (\<lambda>ks.
     rbind (check_query_keys (rd_query_keys d) []) (\<lambda>qs.
     rbind (claim_hosts idna (rd_key d) (rd_hosts d) [] owners) (\<lambda>(rules, owners').
     rbind (claim_authority idna (rd_key d) rules (rd_authority d) (rg_reserved reg)) (\<lambda>(auth, res).
       add_descriptors idna (Suc i) ds owners'
         \<lparr>rg_descriptors = rg_descriptors reg @ [d\<lparr>rd_query_keys := sort qs, rd_hosts := rules, rd_authority := auth\<rparr>],
          rg_keys = ks, rg_reserved = res\<rparr>)))))"

definition new_registry :: "idna \<Rightarrow> 'p core_descriptor list \<Rightarrow> registry_error + 'p registry" where
  "new_registry idna input =
     add_descriptors idna 0 (sort_key descriptor_rank input) [] \<lparr>rg_descriptors = [], rg_keys = [], rg_reserved = []\<rparr>"

section \<open>Looking up\<close>

definition registry_descriptor :: "'p registry \<Rightarrow> gostring \<Rightarrow> 'p core_descriptor option" where
  "registry_descriptor reg key = map_option (nth (rg_descriptors reg)) (map_of (rg_keys reg) key)"

datatype resolve_error = UnknownHost gostring | InvalidRequestURL

definition resolve_url :: "idna \<Rightarrow> 'p registry \<Rightarrow> gostring \<Rightarrow> resolve_error + 'p core_descriptor" where
  "resolve_url idna reg raw =
     (case new_fetch_url idna (trim_space raw) of
        None \<Rightarrow> Inl InvalidRequestURL
      | Some target \<Rightarrow>
          (case url_parse (safe_url (Some target)) of
             None \<Rightarrow> Inl InvalidRequestURL
           | Some u \<Rightarrow>
               if url_hostname u = [] then Inl InvalidRequestURL
               else (case normalize_registry_host idna (url_hostname u) of
                   None \<Rightarrow> Inl (UnknownHost [])
                 | Some host \<Rightarrow>
                     if host \<in> set (rg_reserved reg) then Inl (UnknownHost host)
                     else (case find (\<lambda>d. list_ex (\<lambda>r. host_rule_matches r host) (rd_hosts d)) (rg_descriptors reg) of
                         Some d \<Rightarrow> Inr d
                       | None \<Rightarrow> Inl (UnknownHost host)))))"

definition descriptor_from_parser :: "'p core_descriptor \<Rightarrow> descriptor" where
  "descriptor_from_parser d = \<lparr>de_platform = rd_key d, de_query_keys = rd_query_keys d, de_host_rules = rd_hosts d\<rparr>"

definition resolver_resolve_url :: "idna \<Rightarrow> 'p registry option \<Rightarrow> gostring \<Rightarrow> (parse_error + resolve_error) + descriptor" where
  "resolver_resolve_url idna reg raw =
     (case reg of
        None \<Rightarrow> Inl (Inl (new_error ErrorInternal StageInput [] True))
      | Some r \<Rightarrow> (case resolve_url idna r raw of Inl e \<Rightarrow> Inl (Inr e) | Inr d \<Rightarrow> Inr (descriptor_from_parser d)))"

section \<open>The query filter\<close>

text \<open>None stands for every error of \<open>normalizeAllowedQuery\<close>.\<close>
definition normalize_allowed_query :: "idna \<Rightarrow> 'p core_descriptor \<Rightarrow> gostring \<Rightarrow> gostring option" where
  "normalize_allowed_query idna d raw =
     (case url_parse (trim_space raw) of
        None \<Rightarrow> None
      | Some u \<Rightarrow>
          if url_hostname u = [] then None
          else (case normalize_registry_host idna (url_hostname u) of
              None \<Rightarrow> None
            | Some host \<Rightarrow>
                if rd_hosts d \<noteq> [] \<and> \<not> list_ex (\<lambda>r. host_rule_matches r host) (rd_hosts d) then None
                else (case parse_query (u_raw_query u) of
                    None \<Rightarrow> None
                  | Some kvs \<Rightarrow> Some (url_string (u\<lparr>
                      u_raw_query := encode_query (map (\<lambda>k. (k, kept_values kvs k)) (sort (remdups (map to_lower (rd_query_keys d))))),
                      u_force_query := False, u_fragment := []\<rparr>)))))"

definition normalize_fetch_url :: "idna \<Rightarrow> 'p core_descriptor \<Rightarrow> gostring \<Rightarrow> url option" where
  "normalize_fetch_url idna d raw = Option.bind (normalize_allowed_query idna d raw) (new_fetch_url idna)"

section \<open>The catalog\<close>

record catalog_platform =
  cp_key :: gostring
  cp_display :: gostring
  cp_aliases :: "gostring list"
  cp_hosts :: "host_rule list"
  cp_capabilities :: capability
  cp_priority :: int
  cp_query_keys :: "gostring list"
  cp_supports_id :: bool
  cp_max_requests :: int
  cp_max_redirects :: int

definition catalog_snapshot :: "'p registry option \<Rightarrow> catalog_platform list" where
  "catalog_snapshot reg =
     (case reg of None \<Rightarrow> []
      | Some r \<Rightarrow> map (\<lambda>d. \<lparr>cp_key = rd_key d, cp_display = rd_display d, cp_aliases = rd_aliases d, cp_hosts = rd_hosts d,
          cp_capabilities = rd_capabilities d, cp_priority = rd_priority d, cp_query_keys = rd_query_keys d,
          cp_supports_id = rd_supports_id d, cp_max_requests = rd_max_requests d, cp_max_redirects = rd_max_redirects d\<rparr>)
          (rg_descriptors r))"

definition host_rule_count :: "catalog_platform list \<Rightarrow> nat" where
  "host_rule_count cat = sum_list (map (\<lambda>p. length (cp_hosts p)) cat)"

definition supports_id_count :: "catalog_platform list \<Rightarrow> nat" where
  "supports_id_count cat = length (filter cp_supports_id cat)"

section \<open>The request budget\<close>

datatype budget_error = BudgetExceeded | DuplicateFetch

record budget =
  bu_max_requests :: int
  bu_max_redirects :: int
  bu_requests :: int
  bu_redirects :: int
  bu_seen :: "gostring list"
  bu_deadline :: gotime
  bu_ctx_deadline :: gotime

text \<open>\<open>wall\<close> is the machine's clock, \<open>now\<close> the budget's.\<close>
definition new_budget :: "int \<Rightarrow> int \<Rightarrow> duration \<Rightarrow> gotime \<Rightarrow> gotime \<Rightarrow> budget option" where
  "new_budget max_requests max_redirects d wall now =
     (if max_requests \<le> 0 \<or> max_redirects < 0 \<or> d \<le> 0 then None
      else Some \<lparr>bu_max_requests = max_requests, bu_max_redirects = max_redirects, bu_requests = 0, bu_redirects = 0,
        bu_seen = [], bu_deadline = now + d, bu_ctx_deadline = wall + d\<rparr>)"

text \<open>The deadline of the derived context; that of the parent, where it has one, still holds.\<close>
definition bind_context :: "budget \<Rightarrow> gotime option \<Rightarrow> gotime \<Rightarrow> gotime \<Rightarrow> budget_error + gotime" where
  "bind_context b parent wall now =
     (let remaining = bu_deadline b - now in
      if remaining \<le> 0 then Inl BudgetExceeded
      else let d = (if wall + remaining < bu_ctx_deadline b then wall + remaining else bu_ctx_deadline b)
        in Inr (case parent of None \<Rightarrow> d | Some p \<Rightarrow> min p d))"

definition allow_fetch :: "gotime \<Rightarrow> url option \<Rightarrow> budget \<Rightarrow> budget_error option \<times> budget" where
  "allow_fetch now target b =
     (if \<not> now < bu_deadline b \<or> bu_requests b \<ge> bu_max_requests b then (Some BudgetExceeded, b)
      else if fetch_fingerprint target \<in> set (bu_seen b) then (Some DuplicateFetch, b)
      else (None, b\<lparr>bu_seen := fetch_fingerprint target # bu_seen b, bu_requests := bu_requests b + 1\<rparr>))"

definition allow_redirect :: "gotime \<Rightarrow> budget \<Rightarrow> budget_error option \<times> budget" where
  "allow_redirect now b =
     (if \<not> now < bu_deadline b \<or> bu_redirects b \<ge> bu_max_redirects b then (Some BudgetExceeded, b)
      else (None, b\<lparr>bu_redirects := bu_redirects b + 1\<rparr>))"

section \<open>What a registry is\<close>

lemma overlap_sym: "host_rules_overlap l r = host_rules_overlap r l"
  by (auto simp: host_rules_overlap_def)

lemma common_match_overlap:
  assumes "host_rule_matches l h" and "host_rule_matches r h"
  shows "host_rules_overlap l r"
proof -
  consider "h = hr_host l" | "h = hr_host r"
    | x y where "h = x @ ''.'' @ hr_host l" "h = y @ ''.'' @ hr_host r" "hr_subdomains l" "hr_subdomains r"
    using assms unfolding host_rule_matches_def has_suffix_append by blast
  then show ?thesis
  proof cases
    case 3
    have "hr_host l = hr_host r \<or> has_suffix (hr_host l) (''.'' @ hr_host r) \<or> has_suffix (hr_host r) (''.'' @ hr_host l)"
      by (rule dot_suffix_cases [of x _ y]) (use 3(1,2) in \<open>rule trans [OF sym]\<close>)
    then show ?thesis using 3(3,4) unfolding host_rules_overlap_def host_rule_matches_def by metis
  qed (use assms in \<open>auto simp: host_rules_overlap_def\<close>)
qed

definition owners_ok :: "(host_rule \<times> gostring) list \<Rightarrow> bool" where
  "owners_ok owners \<longleftrightarrow> (\<forall>(l, a) \<in> set owners. \<forall>(r, b) \<in> set owners. a \<noteq> b \<longrightarrow> \<not> host_rules_overlap l r)"

definition descriptor_names :: "'p core_descriptor \<Rightarrow> gostring list" where
  "descriptor_names d = rd_key d # rd_aliases d"

definition keys_ok :: "(gostring, nat) gomap \<Rightarrow> 'p core_descriptor list \<Rightarrow> bool" where
  "keys_ok ks ds \<longleftrightarrow> (\<forall>k i. map_of ks k = Some i \<longleftrightarrow> i < length ds \<and> k \<in> set (descriptor_names (ds ! i)))"

definition registry_inv :: "(host_rule \<times> gostring) list \<Rightarrow> 'p registry \<Rightarrow> bool" where
  "registry_inv owners reg \<longleftrightarrow> owners_ok owners \<and> keys_ok (rg_keys reg) (rg_descriptors reg) \<and>
     (\<forall>d \<in> set (rg_descriptors reg). \<forall>r \<in> set (rd_hosts d). (r, rd_key d) \<in> set owners)"

lemma claim_keys_spec:
  "claim_keys i names ks = Inr ks' \<Longrightarrow>
     (\<forall>k. map_of ks' k = (if k \<in> set names then Some i else map_of ks k)) \<and> (\<forall>k \<in> set names. map_of ks k = None)"
proof (induction names arbitrary: ks)
  case (Cons n names)
  then have n: "map_of ks n = None" and rest: "claim_keys i names (AList.update n i ks) = Inr ks'"
    by (auto split: if_splits option.splits)
  from Cons.IH [OF rest] n show ?case by (auto split: if_splits)
qed simp

lemma owners_ok_snoc:
  assumes "owners_ok owners" and "find (\<lambda>(r', k). k \<noteq> key \<and> host_rules_overlap r' rule) owners = None"
  shows "owners_ok (owners @ [(rule, key)])"
proof -
  have n: "\<not> host_rules_overlap l rule" "\<not> host_rules_overlap rule l" if "(l, a) \<in> set owners" "a \<noteq> key" for l a
    using assms(2) that by (auto simp: find_None_iff overlap_sym [of rule l])
  show ?thesis using assms(1) n unfolding owners_ok_def by auto
qed

lemma claim_hosts_spec:
  "claim_hosts idna key rules seen owners = Inr (rules', owners') \<Longrightarrow> owners_ok owners \<Longrightarrow>
     owners_ok owners' \<and> set owners \<subseteq> set owners' \<and> (\<forall>r \<in> set rules'. (r, key) \<in> set owners')"
proof (induction rules arbitrary: seen owners rules')
  case (Cons r rules)
  then obtain host where h: "normalize_registry_host idna (hr_host r) = Some host"
    by (cases "normalize_registry_host idna (hr_host r)") (simp_all add: or_error_def)
  let ?rule = "r\<lparr>hr_host := host\<rparr>"
  have f: "find (\<lambda>(r', k). k \<noteq> key \<and> host_rules_overlap r' ?rule) owners = None"
    using Cons.prems(1) h
    by (cases "find (\<lambda>(r', k). k \<noteq> key \<and> host_rules_overlap r' ?rule) owners") (auto simp: or_error_def Let_def split: if_splits)
  then obtain rs where rest: "claim_hosts idna key rules (host # seen) (owners @ [(?rule, key)]) = Inr (rs, owners')"
    and rs: "rules' = ?rule # rs"
    using Cons.prems(1) h by (auto simp: or_error_def Let_def go_errors split: if_splits)
  from Cons.IH [OF rest owners_ok_snoc [OF Cons.prems(2) f]] show ?case by (auto simp: rs)
qed simp

lemma keys_ok_snoc:
  assumes "keys_ok ks ds" and "claim_keys (length ds) (descriptor_names d) ks = Inr ks'"
    and "descriptor_names d' = descriptor_names d"
  shows "keys_ok ks' (ds @ [d'])"
  unfolding keys_ok_def
proof (intro allI)
  fix k i
  have c: "map_of ks' k = (if k \<in> set (descriptor_names d) then Some (length ds) else map_of ks k)"
    and n: "k \<in> set (descriptor_names d) \<Longrightarrow> map_of ks k = None"
    using claim_keys_spec [OF assms(2)] by blast+
  have o: "map_of ks k = Some j \<longleftrightarrow> j < length ds \<and> k \<in> set (descriptor_names (ds ! j))" for j using assms(1) by (simp add: keys_ok_def)
  show "map_of ks' k = Some i \<longleftrightarrow> i < length (ds @ [d']) \<and> k \<in> set (descriptor_names ((ds @ [d']) ! i))"
  proof (cases "k \<in> set (descriptor_names d)")
    case True
    then have "\<not> (i < length ds \<and> k \<in> set (descriptor_names (ds ! i)))" using n o [of i] by simp
    then show ?thesis using True c assms(3) by (auto simp: nth_append less_Suc_eq)
  next
    case False
    then show ?thesis using c o [of i] assms(3) by (auto simp: nth_append less_Suc_eq)
  qed
qed

lemma add_descriptors_spec:
  assumes "add_descriptors idna i ds owners reg = Inr reg'" and "registry_inv owners reg" and "i = length (rg_descriptors reg)"
  shows "(\<exists>owners'. registry_inv owners' reg') \<and>
     map rd_key (rg_descriptors reg') = map rd_key (rg_descriptors reg) @ map rd_key ds"
  using assms
proof (induction ds arbitrary: i owners reg)
  case (Cons d ds)
  then obtain ks qs rules owners' auth res where
    ks: "claim_keys i (descriptor_names d) (rg_keys reg) = Inr ks"
    and h: "claim_hosts idna (rd_key d) (rd_hosts d) [] owners = Inr (rules, owners')"
    and rest: "add_descriptors idna (Suc i) ds owners'
         \<lparr>rg_descriptors = rg_descriptors reg @ [d\<lparr>rd_query_keys := sort qs, rd_hosts := rules, rd_authority := auth\<rparr>],
          rg_keys = ks, rg_reserved = res\<rparr> = Inr reg'"
    unfolding descriptor_names_def by (auto simp: go_errors simp del: claim_keys.simps)
  let ?d = "d\<lparr>rd_query_keys := sort qs, rd_hosts := rules, rd_authority := auth\<rparr>"
  have "owners_ok owners" using Cons.prems(2) by (simp add: registry_inv_def)
  note h' = claim_hosts_spec [OF h this]
  have "keys_ok ks (rg_descriptors reg @ [?d])"
    by (rule keys_ok_snoc [of "rg_keys reg" _ d]) (use Cons.prems(2,3) ks in \<open>simp_all add: registry_inv_def descriptor_names_def\<close>)
  then have "registry_inv owners' \<lparr>rg_descriptors = rg_descriptors reg @ [?d], rg_keys = ks, rg_reserved = res\<rparr>"
    using h' Cons.prems(2) by (auto simp: registry_inv_def)
  from Cons.IH [OF rest this] Cons.prems(3) show ?case by simp
qed (auto simp: registry_inv_def)

lemma new_registry_inv:
  assumes "new_registry idna ds = Inr reg"
  obtains owners where "registry_inv owners reg"
    "map rd_key (rg_descriptors reg) = map rd_key (sort_key descriptor_rank ds)"
proof -
  have "registry_inv [] \<lparr>rg_descriptors = [], rg_keys = [], rg_reserved = []\<rparr>"
    by (simp add: registry_inv_def owners_ok_def keys_ok_def)
  from add_descriptors_spec [OF assms [unfolded new_registry_def] this] that show thesis by auto
qed

lemma registry_keys_distinct:
  assumes "registry_inv owners reg"
  shows "distinct (map rd_key (rg_descriptors reg))"
proof -
  have "map_of (rg_keys reg) (rd_key (rg_descriptors reg ! i)) = Some i" if "i < length (rg_descriptors reg)" for i
    using assms that by (simp add: registry_inv_def keys_ok_def descriptor_names_def)
  then show ?thesis by (auto simp: distinct_conv_nth) (metis option.inject)
qed

lemma registry_one_match:
  assumes "registry_inv owners reg" and "c \<in> set (rg_descriptors reg)" and "d \<in> set (rg_descriptors reg)"
    and "r \<in> set (rd_hosts c)" and "s \<in> set (rd_hosts d)" and "host_rule_matches r host" and "host_rule_matches s host"
  shows "c = d"
proof -
  have "(r, rd_key c) \<in> set owners" "(s, rd_key d) \<in> set owners" using assms(1-5) by (auto simp: registry_inv_def)
  moreover have "host_rules_overlap r s" by (rule common_match_overlap [OF assms(6,7)])
  ultimately have "rd_key c = rd_key d" using assms(1) by (fastforce simp: registry_inv_def owners_ok_def)
  then show ?thesis using registry_keys_distinct [OF assms(1)] assms(2,3) by (auto simp: distinct_map inj_on_def)
qed

section \<open>Properties\<close>

text \<open>The host a URL is looked up under.\<close>
definition request_host :: "idna \<Rightarrow> gostring \<Rightarrow> gostring option" where
  "request_host idna raw =
     Option.bind (new_fetch_url idna (trim_space raw)) (\<lambda>t. Option.bind (url_parse (safe_url (Some t))) (\<lambda>u.
       if url_hostname u = [] then None else normalize_registry_host idna (url_hostname u)))"

lemma resolve_url_iff:
  assumes "new_registry idna ds = Inr reg" and "request_host idna raw = Some host"
  shows "resolve_url idna reg raw = Inr d \<longleftrightarrow>
     host \<notin> set (rg_reserved reg) \<and> d \<in> set (rg_descriptors reg) \<and> (\<exists>r \<in> set (rd_hosts d). host_rule_matches r host)"
proof -
  obtain owners where inv: "registry_inv owners reg" using assms(1) by (rule new_registry_inv)
  let ?p = "\<lambda>d. list_ex (\<lambda>r. host_rule_matches r host) (rd_hosts d)"
  obtain t u where t: "new_fetch_url idna (trim_space raw) = Some t" and u: "url_parse (safe_url (Some t)) = Some u"
    and h: "url_hostname u \<noteq> []" "normalize_registry_host idna (url_hostname u) = Some host"
    using assms(2) by (auto simp: request_host_def bind_eq_Some_conv split: if_splits)
  have r: "resolve_url idna reg raw = (if host \<in> set (rg_reserved reg) then Inl (UnknownHost host)
      else case find ?p (rg_descriptors reg) of Some d \<Rightarrow> Inr d | None \<Rightarrow> Inl (UnknownHost host))"
    by (simp add: resolve_url_def t u h)
  have "find ?p (rg_descriptors reg) = Some d \<longleftrightarrow> d \<in> set (rg_descriptors reg) \<and> ?p d"
  proof
    assume "find ?p (rg_descriptors reg) = Some d"
    then show "d \<in> set (rg_descriptors reg) \<and> ?p d" by (auto simp: find_Some_iff)
  next
    assume d: "d \<in> set (rg_descriptors reg) \<and> ?p d"
    then obtain c where c: "find ?p (rg_descriptors reg) = Some c"
      by (cases "find ?p (rg_descriptors reg)") (auto simp: find_None_iff)
    then have "c \<in> set (rg_descriptors reg)" "?p c" by (auto simp: find_Some_iff)
    with d have "c = d" by (auto simp: list_ex_iff intro: registry_one_match [OF inv])
    with c show "find ?p (rg_descriptors reg) = Some d" by simp
  qed
  then show ?thesis unfolding r by (auto simp: list_ex_iff split: option.splits)
qed

text \<open>
  Which parser a URL gets: in a registry that could be built, a URL resolves to a descriptor exactly
  when its host is not reserved for the descriptors' own traffic and a host rule of the descriptor matches
  it.  At most one descriptor does, so neither the order of the registrations nor their priorities decide.
\<close>
theorem registry_resolves:
  assumes "new_registry idna ds = Inr reg" and "request_host idna raw = Some host"
  shows "resolve_url idna reg raw = Inr d \<longleftrightarrow>
     host \<notin> set (rg_reserved reg) \<and> d \<in> set (rg_descriptors reg) \<and> (\<exists>r \<in> set (rd_hosts d). host_rule_matches r host)"
  by (rule resolve_url_iff [OF assms])

definition demo_platform :: "gostring \<Rightarrow> int \<Rightarrow> gostring \<Rightarrow> bool \<Rightarrow> unit core_descriptor" where
  "demo_platform key priority host subdomains =
     \<lparr>rd_key = key, rd_display = key, rd_aliases = [], rd_hosts = [\<lparr>hr_host = host, hr_subdomains = subdomains\<rparr>],
      rd_capabilities = 1, rd_priority = priority, rd_query_keys = [], rd_supports_id = False, rd_max_requests = 2,
      rd_max_redirects = 1, rd_session_host = [], rd_authority = [], rd_new = Some ()\<rparr>"

definition demo_parsers :: "unit registry" where
  "demo_parsers = (case new_registry Some [demo_platform ''b'' 2 ''b.io'' True, demo_platform ''a'' 1 ''a.io'' False] of
     Inr reg \<Rightarrow> reg | Inl _ \<Rightarrow> \<lparr>rg_descriptors = [], rg_keys = [], rg_reserved = []\<rparr>)"

lemma demo_parsers_built:
  "new_registry Some [demo_platform ''b'' 2 ''b.io'' True, demo_platform ''a'' 1 ''a.io'' False] = Inr demo_parsers"
  by code_simp

theorem registry_resolves_witness:
  "resolve_url Some demo_parsers ''http://w.b.io/x'' = Inr (demo_platform ''b'' 2 ''b.io'' True)"
proof -
  have h: "request_host Some ''http://w.b.io/x'' = Some ''w.b.io''" by code_simp
  have "''w.b.io'' \<notin> set (rg_reserved demo_parsers)" by code_simp
  moreover have "demo_platform ''b'' 2 ''b.io'' True \<in> set (rg_descriptors demo_parsers)" by code_simp
  moreover have "\<exists>r \<in> set (rd_hosts (demo_platform ''b'' 2 ''b.io'' True)). host_rule_matches r ''w.b.io''" by code_simp
  ultimately show ?thesis unfolding registry_resolves [OF demo_parsers_built h] by blast
qed

lemma new_registry_inj:
  assumes "new_registry idna xs = Inr reg"
  shows "inj_on descriptor_rank (set xs)"
proof -
  obtain owners where "registry_inv owners reg" "map rd_key (rg_descriptors reg) = map rd_key (sort_key descriptor_rank xs)"
    using assms by (rule new_registry_inv)
  then have "distinct (map rd_key (sort_key descriptor_rank xs))" using registry_keys_distinct by metis
  then have "inj_on rd_key (set xs)" by (simp add: distinct_map)
  then show ?thesis by (auto simp: inj_on_def descriptor_rank_def)
qed

text \<open>
  The order in which the parsers are registered does not matter: two lists with the same descriptors
  build the same registry, or both fail.
\<close>
theorem registry_order_irrelevant:
  assumes "mset xs = mset ys"
  shows "new_registry idna xs = Inr reg \<longleftrightarrow> new_registry idna ys = Inr reg"
proof -
  have one: "new_registry idna bs = Inr reg" if "new_registry idna as = Inr reg" and m: "mset as = mset bs" for as bs
  proof -
    have "sort_key descriptor_rank as = sort_key descriptor_rank bs"
      by (rule sort_key_eq_sort_key [OF m new_registry_inj [OF that(1)]])
    with that(1) show ?thesis by (simp add: new_registry_def)
  qed
  show ?thesis using one [of xs ys] one [of ys xs] assms by metis
qed

theorem registry_order_irrelevant_witness:
  "new_registry Some [demo_platform ''a'' 1 ''a.io'' False, demo_platform ''b'' 2 ''b.io'' True] = Inr demo_parsers"
proof -
  have "mset [demo_platform ''a'' 1 ''a.io'' False, demo_platform ''b'' 2 ''b.io'' True] =
      mset [demo_platform ''b'' 2 ''b.io'' True, demo_platform ''a'' 1 ''a.io'' False]" by (simp add: add_mset_commute)
  from registry_order_irrelevant [OF this] demo_parsers_built show ?thesis by blast
qed

lemma registry_descriptor_iff:
  assumes "new_registry idna ds = Inr reg"
  shows "registry_descriptor reg key = Some d \<longleftrightarrow> d \<in> set (rg_descriptors reg) \<and> (key = rd_key d \<or> key \<in> set (rd_aliases d))"
proof -
  obtain owners where "registry_inv owners reg" using assms by (rule new_registry_inv)
  then have k: "map_of (rg_keys reg) key = Some i \<longleftrightarrow> i < length (rg_descriptors reg) \<and> key \<in> set (descriptor_names (rg_descriptors reg ! i))" for i
    by (simp add: registry_inv_def keys_ok_def)
  then show ?thesis
    by (auto simp: registry_descriptor_def descriptor_names_def in_set_conv_nth)
qed

text \<open>What a budget has granted: the calls with the time they were made at.\<close>
datatype budget_call = FetchCall gotime "url option" | RedirectCall gotime

fun budget_step :: "budget_call \<Rightarrow> budget \<Rightarrow> budget_error option \<times> budget" where
  "budget_step (FetchCall now target) b = allow_fetch now target b"
| "budget_step (RedirectCall now) b = allow_redirect now b"

fun call_time :: "budget_call \<Rightarrow> gotime" where
  "call_time (FetchCall now target) = now"
| "call_time (RedirectCall now) = now"

fun granted :: "budget_call list \<Rightarrow> budget \<Rightarrow> budget_call list" where
  "granted [] b = []"
| "granted (c # cs) b = (case budget_step c b of (None, b') \<Rightarrow> c # granted cs b' | (Some _, b') \<Rightarrow> granted cs b')"

definition fetches :: "budget_call list \<Rightarrow> gostring list" where
  "fetches cs = concat (map (\<lambda>c. case c of FetchCall _ t \<Rightarrow> [fetch_fingerprint t] | RedirectCall _ \<Rightarrow> []) cs)"

definition redirects :: "budget_call list \<Rightarrow> nat" where
  "redirects cs = length (filter (\<lambda>c. case c of FetchCall _ _ \<Rightarrow> False | RedirectCall _ \<Rightarrow> True) cs)"

lemma fetches_simps [simp]:
  "fetches [] = []" "fetches (FetchCall now t # cs) = fetch_fingerprint t # fetches cs" "fetches (RedirectCall now # cs) = fetches cs"
  "redirects [] = 0" "redirects (FetchCall now t # cs) = redirects cs" "redirects (RedirectCall now # cs) = Suc (redirects cs)"
  by (simp_all add: fetches_def redirects_def)

definition within_budget :: "budget \<Rightarrow> budget_call list \<Rightarrow> bool" where
  "within_budget b gs \<longleftrightarrow> distinct (fetches gs) \<and> set (fetches gs) \<inter> set (bu_seen b) = {} \<and>
     int (length (fetches gs)) \<le> bu_max_requests b - bu_requests b \<and>
     int (redirects gs) \<le> bu_max_redirects b - bu_redirects b \<and> (\<forall>c \<in> set gs. call_time c < bu_deadline b)"

lemma within_fetch:
  assumes "allow_fetch now t b = (None, b')" and "within_budget b' gs"
  shows "within_budget b (FetchCall now t # gs)"
  using assms by (auto simp: within_budget_def allow_fetch_def split: if_splits)

lemma within_redirect:
  assumes "allow_redirect now b = (None, b')" and "within_budget b' gs"
  shows "within_budget b (RedirectCall now # gs)"
  using assms by (auto simp: within_budget_def allow_redirect_def split: if_splits)

lemma budget_denied: "budget_step c b = (Some e, b') \<Longrightarrow> b' = b"
  by (cases c) (auto simp: allow_fetch_def allow_redirect_def split: if_splits)

definition budget_ok :: "budget \<Rightarrow> bool" where
  "budget_ok b \<longleftrightarrow> bu_requests b \<le> bu_max_requests b \<and> bu_redirects b \<le> bu_max_redirects b"

lemma budget_ok_step: "budget_ok b \<Longrightarrow> budget_step c b = (r, b') \<Longrightarrow> budget_ok b'"
  by (cases c) (auto simp: budget_ok_def allow_fetch_def allow_redirect_def split: if_splits)

lemma granted_within: "budget_ok b \<Longrightarrow> within_budget b (granted cs b)"
proof (induction cs arbitrary: b)
  case Nil
  then show ?case by (simp add: within_budget_def budget_ok_def)
next
  case (Cons c cs)
  obtain r b' where s: "budget_step c b = (r, b')" by force
  have IH: "within_budget b' (granted cs b')" using Cons budget_ok_step [OF _ s] by blast
  show ?case
  proof (cases r)
    case None
    then show ?thesis using s IH within_fetch within_redirect by (cases c) simp_all
  next
    case (Some e)
    then show ?thesis using s IH budget_denied [of c b e b'] by simp
  qed
qed

text \<open>
  One budget for everything a parser does: whatever sequence of fetches and redirects is asked for, in
  any order and at any times, at most the configured numbers of each are granted, no request target is
  fetched twice, and nothing is granted at or after the deadline.
\<close>
theorem budget_exact:
  assumes "new_budget max_requests max_redirects d wall now = Some b"
  shows "int (length (fetches (granted cs b))) \<le> max_requests \<and> int (redirects (granted cs b)) \<le> max_redirects \<and>
     distinct (fetches (granted cs b)) \<and> (\<forall>c \<in> set (granted cs b). call_time c < now + d)"
proof -
  have b: "0 < max_requests" "0 \<le> max_redirects" "b = \<lparr>bu_max_requests = max_requests, bu_max_redirects = max_redirects,
      bu_requests = 0, bu_redirects = 0, bu_seen = [], bu_deadline = now + d, bu_ctx_deadline = wall + d\<rparr>"
    using assms by (simp_all add: new_budget_def split: if_splits)
  then have "budget_ok b" by (simp add: budget_ok_def)
  from granted_within [OF this, of cs] b show ?thesis by (simp add: within_budget_def)
qed

theorem budget_exact_witness:
  "\<exists>b. new_budget 1 0 5 100 100 = Some b \<and> granted [RedirectCall 101, FetchCall 102 None, FetchCall 103 None, FetchCall 105 None] b = [FetchCall 102 None] \<and>
     int (length (fetches (granted [RedirectCall 101, FetchCall 102 None, FetchCall 103 None, FetchCall 105 None] b))) \<le> 1"
proof -
  obtain b where b: "new_budget 1 0 5 100 100 = Some b" by (simp add: new_budget_def)
  then have "granted [RedirectCall 101, FetchCall 102 None, FetchCall 103 None, FetchCall 105 None] b = [FetchCall 102 None]"
    by (auto simp: new_budget_def allow_redirect_def allow_fetch_def)
  with b budget_exact [OF b] show ?thesis by blast
qed

end
