(* ===== verification/SessionMaterial.thy ===== *)
theory SessionMaterial imports
  ParserRegistry
begin

text \<open>
  \<open>internal/parser/session_material.go\<close>: short-lived upstream material (guest cookies, tokens), loaded
  once for all callers that want it at the same time.  \<open>SessionMaterialProvider.Get\<close> holds the mutex twice,
  around the lookup and after the load, so it is two steps (\<open>get_locked\<close>, \<open>get_finish\<close>) with the load in
  between; a caller that finds a load under way waits for its entry.  Entries are pointers: the map leads to
  positions of a heap.  The relation \<open>session_step\<close> interleaves any number of callers.
\<close>

section \<open>Parser errors\<close>

datatype error_code = SessionExpired | SchemaChanged | CredentialRequired | SecurityRejected | UpstreamFailed | OtherCode gostring

text \<open>An error and what it wraps.\<close>
datatype core_error = ParseError error_code "core_error option" | OtherError gostring "core_error option"

definition code_text :: "error_code \<Rightarrow> gostring" where
  "code_text c = (case c of SessionExpired \<Rightarrow> ''session_expired'' | SchemaChanged \<Rightarrow> ''schema_changed''
     | CredentialRequired \<Rightarrow> ''credential_required'' | SecurityRejected \<Rightarrow> ''security_rejected''
     | UpstreamFailed \<Rightarrow> ''upstream_failed'' | OtherCode s \<Rightarrow> s)"

text \<open>\<open>ParseError.Error\<close> and \<open>Format\<close>: neither shows the cause.\<close>
definition parse_error_text :: "error_code \<Rightarrow> gostring" where
  "parse_error_text c = ''parser error: '' @ code_text c"

definition parse_error_format :: "error_code \<Rightarrow> gostring" where
  "parse_error_format c = (if code_text c \<noteq> [] then ''parser error: '' @ code_text c else ''parser error'')"

text \<open>\<open>errors.As\<close> with a \<open>*ParseError\<close>: the code of the first one in the chain.\<close>
fun parse_code :: "core_error \<Rightarrow> error_code option" where
  "parse_code (ParseError c _) = Some c"
| "parse_code (OtherError _ None) = None"
| "parse_code (OtherError _ (Some e)) = parse_code e"

section \<open>The provider\<close>

record material =
  sm_value :: gostring
  sm_generation :: "64 word"

definition sm_configured :: "material \<Rightarrow> bool" where
  "sm_configured m \<longleftrightarrow> sm_value m \<noteq> []"

text \<open>What printing a material with any verb writes.\<close>
definition material_string :: "material \<Rightarrow> gostring" where
  "material_string m = (if sm_configured m then ''[configured]'' else ''[not-configured]'')"

record session_key =
  sk_platform :: gostring
  sk_host :: gostring

record session_entry =
  se_material :: material
  se_generation :: "64 word"
  se_expires :: gotime
  se_used :: "64 word"
  se_loading :: bool
  se_ready :: bool
  se_err :: "core_error option"

record provider =
  sp_ttl :: duration
  sp_capacity :: int
  sp_sequence :: "64 word"
  sp_generation :: "64 word"
  sp_entries :: "(session_key, nat) gomap"
  sp_heap :: "session_entry list"

definition new_provider :: "duration \<Rightarrow> int \<Rightarrow> provider option" where
  "new_provider ttl capacity =
     (if ttl \<le> 0 \<or> capacity \<le> 0 then None
      else Some \<lparr>sp_ttl = ttl, sp_capacity = capacity, sp_sequence = 0, sp_generation = 0, sp_entries = [], sp_heap = []\<rparr>)"

text \<open>The scope of a request: the normalised key, if it is valid.\<close>
definition session_scope :: "idna \<Rightarrow> session_key \<Rightarrow> session_key option" where
  "session_scope idna key =
     (case normalize_registry_host idna (sk_host key) of
        None \<Rightarrow> None
      | Some host \<Rightarrow> if valid_platform_key (sk_platform key) then Some (key\<lparr>sk_host := host\<rparr>) else None)"

text \<open>The entry used least recently among those that are not loading.\<close>
fun oldest_entry :: "session_entry list \<Rightarrow> (session_key, nat) gomap \<Rightarrow> (session_key \<times> nat) option" where
  "oldest_entry heap [] = None"
| "oldest_entry heap ((k, e) # rest) =
     (if se_loading (heap ! e) then oldest_entry heap rest
      else (case oldest_entry heap rest of
          None \<Rightarrow> Some (k, e)
        | Some (k', e') \<Rightarrow> if se_used (heap ! e') < se_used (heap ! e) then Some (k', e') else Some (k, e)))"

definition evict_oldest :: "provider \<Rightarrow> bool \<times> provider" where
  "evict_oldest p =
     (case oldest_entry (sp_heap p) (sp_entries p) of
        None \<Rightarrow> (False, p)
      | Some (k, _) \<Rightarrow> (True, p\<lparr>sp_entries := AList.delete k (sp_entries p)\<rparr>))"

datatype get_outcome = GetWait nat | GetHit material | GetFull | GetLoad nat

definition empty_entry :: "64 word \<Rightarrow> session_entry" where
  "empty_entry used = \<lparr>se_material = \<lparr>sm_value = [], sm_generation = 0\<rparr>, se_generation = 0, se_expires = 0,
     se_used = used, se_loading = True, se_ready = False, se_err = None\<rparr>"

text \<open>Room for a new entry, and the entry.\<close>
definition start_load :: "session_key \<Rightarrow> provider \<Rightarrow> get_outcome \<times> provider" where
  "start_load key p =
     (let (ok, q) = (if int (length (sp_entries p)) \<ge> sp_capacity p then evict_oldest p else (True, p)) in
      if \<not> ok then (GetFull, q)
      else (GetLoad (length (sp_heap q)),
        q\<lparr>sp_sequence := sp_sequence q + 1, sp_entries := AList.update key (length (sp_heap q)) (sp_entries q),
          sp_heap := sp_heap q @ [empty_entry (sp_sequence q + 1)]\<rparr>))"

text \<open>The first critical section of \<open>Get\<close>.\<close>
definition get_locked :: "session_key \<Rightarrow> gotime \<Rightarrow> provider \<Rightarrow> get_outcome \<times> provider" where
  "get_locked key now p =
     (case map_of (sp_entries p) key of
        None \<Rightarrow> start_load key p
      | Some e \<Rightarrow>
          if se_loading (sp_heap p ! e) then (GetWait e, p)
          else if now < se_expires (sp_heap p ! e) then
            (GetHit (se_material (sp_heap p ! e)),
             p\<lparr>sp_sequence := sp_sequence p + 1,
               sp_heap := (sp_heap p)[e := (sp_heap p ! e)\<lparr>se_used := sp_sequence p + 1\<rparr>]\<rparr>)
          else start_load key (p\<lparr>sp_entries := AList.delete key (sp_entries p)\<rparr>))"

text \<open>Generation 0 is that of material that was not loaded.\<close>
definition next_generation :: "64 word \<Rightarrow> 64 word" where
  "next_generation g = (if g + 1 = 0 then g + 1 + 1 else g + 1)"

text \<open>The second one, with the outcome of the load; \<open>now\<close> is the time it ends.\<close>
definition get_finish :: "session_key \<Rightarrow> nat \<Rightarrow> core_error option \<Rightarrow> material \<Rightarrow> gotime \<Rightarrow> provider \<Rightarrow> material \<times> provider" where
  "get_finish key e err loaded now p =
     (let g = next_generation (sp_generation p);
          m = (if err = None then loaded\<lparr>sm_generation := g\<rparr> else loaded);
          entry = (sp_heap p ! e)\<lparr>se_loading := False, se_err := err, se_material := m, se_ready := True,
            se_generation := (if err = None then g else se_generation (sp_heap p ! e)),
            se_expires := (if err = None then now + sp_ttl p else se_expires (sp_heap p ! e))\<rparr>
      in (m, p\<lparr>sp_generation := (if err = None then g else sp_generation p),
            sp_entries := (if err = None then sp_entries p else AList.delete key (sp_entries p)),
            sp_heap := (sp_heap p)[e := entry]\<rparr>))"

definition invalidate_for :: "idna \<Rightarrow> session_key \<Rightarrow> material \<Rightarrow> core_error option \<Rightarrow> provider \<Rightarrow> bool \<times> provider" where
  "invalidate_for idna key m err p =
     (if Option.bind err parse_code \<noteq> Some SessionExpired \<or> sm_generation m = 0 then (False, p)
      else (case session_scope idna key of
          None \<Rightarrow> (False, p)
        | Some k \<Rightarrow>
            (case map_of (sp_entries p) k of
               None \<Rightarrow> (False, p)
             | Some e \<Rightarrow>
                 if se_loading (sp_heap p ! e) \<or> se_generation (sp_heap p ! e) \<noteq> sm_generation m then (False, p)
                 else (True, p\<lparr>sp_entries := AList.delete k (sp_entries p)\<rparr>))))"

text \<open>\<open>RefreshOnce\<close> up to its \<open>Get\<close>: whether it goes on, the guard and the provider.\<close>
definition refresh_begin :: "idna \<Rightarrow> session_key \<Rightarrow> material \<Rightarrow> core_error option \<Rightarrow> bool \<Rightarrow> provider \<Rightarrow> bool \<times> bool \<times> provider" where
  "refresh_begin idna key m err guard p =
     (if Option.bind err parse_code \<noteq> Some SessionExpired then (False, guard, p)
      else if guard then (False, guard, p)
      else (True, True, snd (invalidate_for idna key m err p)))"

section \<open>Callers\<close>

record session_sys =
  ss_provider :: provider
  ss_loaders :: "(session_key \<times> nat) list"
  ss_waiters :: "nat list"

datatype session_event = Entered session_key gotime get_outcome
  | Finished session_key nat "core_error option" material gotime
  | Woken nat material "core_error option" | Gone nat
  | Invalidated session_key bool

inductive session_step :: "idna \<Rightarrow> session_sys \<Rightarrow> session_event \<Rightarrow> session_sys \<Rightarrow> bool" for idna where
  enter: "session_scope idna raw = Some k \<Longrightarrow> get_locked k now (ss_provider s) = (out, p) \<Longrightarrow>
    session_step idna s (Entered k now out) (s\<lparr>ss_provider := p,
      ss_loaders := (case out of GetLoad e \<Rightarrow> (k, e) # ss_loaders s | _ \<Rightarrow> ss_loaders s),
      ss_waiters := (case out of GetWait e \<Rightarrow> e # ss_waiters s | _ \<Rightarrow> ss_waiters s)\<rparr>)"
| finish: "(k, e) \<in> set (ss_loaders s) \<Longrightarrow> get_finish k e err loaded now (ss_provider s) = (m, p) \<Longrightarrow>
    session_step idna s (Finished k e err m now) (s\<lparr>ss_provider := p, ss_loaders := remove1 (k, e) (ss_loaders s)\<rparr>)"
| wake: "e \<in> set (ss_waiters s) \<Longrightarrow> se_ready (sp_heap (ss_provider s) ! e) \<Longrightarrow>
    session_step idna s (Woken e (se_material (sp_heap (ss_provider s) ! e)) (se_err (sp_heap (ss_provider s) ! e)))
      (s\<lparr>ss_waiters := remove1 e (ss_waiters s)\<rparr>)"
| cancel: "e \<in> set (ss_waiters s) \<Longrightarrow> session_step idna s (Gone e) (s\<lparr>ss_waiters := remove1 e (ss_waiters s)\<rparr>)"
| invalidate: "invalidate_for idna raw m err (ss_provider s) = (b, p) \<Longrightarrow> session_scope idna raw = Some k \<Longrightarrow>
    session_step idna s (Invalidated k b) (s\<lparr>ss_provider := p\<rparr>)"

inductive_cases session_stepE: "session_step idna s ev s'"

text \<open>What happened, the latest first.\<close>
inductive session_run :: "idna \<Rightarrow> duration \<Rightarrow> int \<Rightarrow> session_event list \<Rightarrow> session_sys \<Rightarrow> bool" for idna ttl capacity where
  start: "new_provider ttl capacity = Some p \<Longrightarrow> session_run idna ttl capacity [] \<lparr>ss_provider = p, ss_loaders = [], ss_waiters = []\<rparr>"
| step: "session_run idna ttl capacity tr s \<Longrightarrow> session_step idna s ev s' \<Longrightarrow> session_run idna ttl capacity (ev # tr) s'"

section \<open>Invariant\<close>

text \<open>Entries of the map lead into the heap, one key each; an entry is loading exactly while its loader runs.\<close>
definition session_inv :: "int \<Rightarrow> session_sys \<Rightarrow> bool" where
  "session_inv capacity s \<longleftrightarrow> (let p = ss_provider s in
     sp_capacity p = capacity \<and> 0 < capacity \<and> int (length (sp_entries p)) \<le> capacity \<and> distinct (keys (sp_entries p)) \<and>
     (\<forall>k e. map_of (sp_entries p) k = Some e \<longrightarrow> e < length (sp_heap p)) \<and>
     (\<forall>k k' e. map_of (sp_entries p) k = Some e \<longrightarrow> map_of (sp_entries p) k' = Some e \<longrightarrow> k = k') \<and>
     distinct (ss_loaders s) \<and>
     (\<forall>k e. (k, e) \<in> set (ss_loaders s) \<longrightarrow> map_of (sp_entries p) k = Some e \<and> se_loading (sp_heap p ! e)) \<and>
     (\<forall>e < length (sp_heap p). se_ready (sp_heap p ! e) = (\<not> se_loading (sp_heap p ! e)) \<and>
        (se_loading (sp_heap p ! e) \<longrightarrow> (\<exists>k. (k, e) \<in> set (ss_loaders s)))) \<and>
     (\<forall>e \<in> set (ss_waiters s). e < length (sp_heap p)))"


lemma inv_drop:
  assumes "session_inv cap s" and "ss_provider s = p" and "map_of (sp_entries p) k = Some e" and "\<not> se_loading (sp_heap p ! e)"
  shows "session_inv cap (s\<lparr>ss_provider := p\<lparr>sp_entries := AList.delete k (sp_entries p)\<rparr>\<rparr>)"
    and "int (length (AList.delete k (sp_entries p))) < cap"
proof -
  have k: "k \<in> set (keys (sp_entries p))" using assms(3) by (metis map_of_eq_None_iff_keys option.distinct(1))
  have d: "distinct (keys (sp_entries p))" "int (length (sp_entries p)) \<le> cap" using assms(1,2) by (simp_all add: session_inv_def Let_def)
  have n: "0 < length (sp_entries p)" using assms(3) by (cases "sp_entries p") auto
  have "length (AList.delete k (sp_entries p)) = length (sp_entries p) - 1" using d(1) k by (simp add: length_delete)
  then show l: "int (length (AList.delete k (sp_entries p))) < cap" using d(2) n by linarith
  show "session_inv cap (s\<lparr>ss_provider := p\<lparr>sp_entries := AList.delete k (sp_entries p)\<rparr>\<rparr>)"
    using assms l unfolding session_inv_def Let_def by auto
qed

lemma inv_add:
  assumes "session_inv cap s" and "ss_provider s = p" and "map_of (sp_entries p) k = None" and "int (length (sp_entries p)) < cap"
  shows "session_inv cap (s\<lparr>ss_provider := p\<lparr>sp_sequence := q, sp_entries := AList.update k (length (sp_heap p)) (sp_entries p),
      sp_heap := sp_heap p @ [empty_entry q]\<rparr>, ss_loaders := (k, length (sp_heap p)) # ss_loaders s\<rparr>)"
proof -
  have k: "k \<notin> set (keys (sp_entries p))" using assms(3) by (simp add: map_of_eq_None_iff_keys)
  have old: "\<forall>k e. map_of (sp_entries p) k = Some e \<longrightarrow> e < length (sp_heap p)"
    "\<forall>k k' e. map_of (sp_entries p) k = Some e \<longrightarrow> map_of (sp_entries p) k' = Some e \<longrightarrow> k = k'"
    "\<forall>k e. (k, e) \<in> set (ss_loaders s) \<longrightarrow> map_of (sp_entries p) k = Some e \<and> se_loading (sp_heap p ! e)"
    "\<forall>e < length (sp_heap p). se_ready (sp_heap p ! e) = (\<not> se_loading (sp_heap p ! e)) \<and>
        (se_loading (sp_heap p ! e) \<longrightarrow> (\<exists>k. (k, e) \<in> set (ss_loaders s)))"
    "distinct (keys (sp_entries p))" "distinct (ss_loaders s)" "\<forall>e \<in> set (ss_waiters s). e < length (sp_heap p)"
    "sp_capacity p = cap" "0 < cap"
    using assms(1,2) by (simp_all add: session_inv_def Let_def)
  let ?h = "sp_heap p @ [empty_entry q]"
  have "int (length (AList.update k (length (sp_heap p)) (sp_entries p))) \<le> cap"
    using assms(4) k old(5) by (simp add: length_update)
  moreover have "\<forall>e < length ?h. se_ready (?h ! e) = (\<not> se_loading (?h ! e)) \<and>
      (se_loading (?h ! e) \<longrightarrow> (\<exists>k'. (k', e) \<in> set ((k, length (sp_heap p)) # ss_loaders s)))"
    using old(4) by (auto simp: nth_append empty_entry_def less_Suc_eq)
  moreover have "\<forall>k' e. (k', e) \<in> set ((k, length (sp_heap p)) # ss_loaders s) \<longrightarrow>
      map_of (AList.update k (length (sp_heap p)) (sp_entries p)) k' = Some e \<and> se_loading (?h ! e)"
    using old(1,3) assms(3) by (auto simp: nth_append empty_entry_def)
  moreover have "(k, length (sp_heap p)) \<notin> set (ss_loaders s)" using old(1,3) by blast
  ultimately show ?thesis using old unfolding session_inv_def Let_def by (auto simp: less_Suc_eq)
qed

lemma inv_touch:
  assumes "session_inv cap s" and "ss_provider s = p"
  shows "session_inv cap (s\<lparr>ss_provider := p\<lparr>sp_sequence := q, sp_heap := (sp_heap p)[e := (sp_heap p ! e)\<lparr>se_used := u\<rparr>]\<rparr>\<rparr>)"
proof -
  have "(sp_heap p)[e := (sp_heap p ! e)\<lparr>se_used := u\<rparr>] ! i =
      (if i = e \<and> e < length (sp_heap p) then (sp_heap p ! e)\<lparr>se_used := u\<rparr> else sp_heap p ! i)" for i
    by (auto simp: nth_list_update not_less list_update_beyond)
  then show ?thesis using assms unfolding session_inv_def Let_def by auto
qed

lemma oldest_entry_in:
  "oldest_entry heap es = Some (k, e) \<Longrightarrow> (k, e) \<in> set es \<and> \<not> se_loading (heap ! e)"
proof (induction es arbitrary: k e)
  case (Cons a rest)
  obtain k' e' where a: "a = (k', e')" by force
  show ?case
  proof (cases "se_loading (heap ! e') \<or> oldest_entry heap rest = None")
    case True
    then show ?thesis using Cons a by (cases "se_loading (heap ! e')") auto
  next
    case False
    then obtain k2 e2 where o: "oldest_entry heap rest = Some (k2, e2)" by auto
    have "(k, e) = (k2, e2) \<or> (k, e) = (k', e')" using Cons.prems False o a by (simp split: if_splits)
    then show ?thesis using Cons.IH [OF o] False a by auto
  qed
qed simp

lemma inv_evict:
  assumes "session_inv cap s" and "ss_provider s = p" and "evict_oldest p = (True, q)" and "map_of (sp_entries p) k = None"
  shows "session_inv cap (s\<lparr>ss_provider := q\<rparr>) \<and> int (length (sp_entries q)) < cap \<and> map_of (sp_entries q) k = None \<and>
     sp_heap q = sp_heap p \<and> sp_sequence q = sp_sequence p"
proof -
  obtain k' e where o: "oldest_entry (sp_heap p) (sp_entries p) = Some (k', e)"
    and q: "q = p\<lparr>sp_entries := AList.delete k' (sp_entries p)\<rparr>"
    using assms(3) by (auto simp: evict_oldest_def split: option.splits)
  have "distinct (map fst (sp_entries p))" using assms(1,2) by (simp add: session_inv_def Let_def keys_def)
  with oldest_entry_in [OF o] have "map_of (sp_entries p) k' = Some e" "\<not> se_loading (sp_heap p ! e)" by simp_all
  from inv_drop [OF assms(1,2) this] show ?thesis using assms(4) by (simp add: q)
qed

lemma inv_start_load:
  assumes "session_inv cap s" and "ss_provider s = p" and "map_of (sp_entries p) k = None" and "start_load k p = (out, p')"
  shows "session_inv cap (s\<lparr>ss_provider := p', ss_loaders := (case out of GetLoad e \<Rightarrow> (k, e) # ss_loaders s | _ \<Rightarrow> ss_loaders s)\<rparr>) \<and>
     (\<forall>e. out \<noteq> GetWait e)"
proof -
  have cap: "sp_capacity p = cap" using assms(1,2) by (simp add: session_inv_def Let_def)
  define r where "r = (if int (length (sp_entries p)) \<ge> sp_capacity p then evict_oldest p else (True, p))"
  obtain ok q where r': "r = (ok, q)" by force
  show ?thesis
  proof (cases ok)
    case False
    then have "q = p" using r' by (auto simp: r_def evict_oldest_def split: if_splits option.splits)
    with False show ?thesis using assms r' by (auto simp: start_load_def r_def [symmetric])
  next
    case True
    have q: "session_inv cap (s\<lparr>ss_provider := q\<rparr>) \<and> int (length (sp_entries q)) < cap \<and> map_of (sp_entries q) k = None"
    proof (cases "int (length (sp_entries p)) \<ge> sp_capacity p")
      case True
      then show ?thesis using inv_evict [OF assms(1,2) _ assms(3), of q] r' \<open>ok\<close> by (simp add: r_def)
    next
      case False
      then have "q = p" "int (length (sp_entries p)) < cap" using r' cap by (simp_all add: r_def)
      moreover have "s\<lparr>ss_provider := p\<rparr> = s" using assms(2) by (cases s) simp
      ultimately show ?thesis using assms(1,3) by simp
    qed
    then show ?thesis using inv_add [of cap "s\<lparr>ss_provider := q\<rparr>" q k "sp_sequence q + 1"] assms(4) r' True
      by (auto simp: start_load_def r_def [symmetric])
  qed
qed

lemma inv_wait:
  assumes "session_inv cap s" and "map_of (sp_entries (ss_provider s)) k = Some e"
  shows "session_inv cap (s\<lparr>ss_waiters := e # ss_waiters s\<rparr>)"
  using assms by (auto simp: session_inv_def Let_def)

lemma inv_enter:
  assumes "session_inv cap s" and "get_locked k now (ss_provider s) = (out, p')"
  shows "session_inv cap (s\<lparr>ss_provider := p',
      ss_loaders := (case out of GetLoad e \<Rightarrow> (k, e) # ss_loaders s | _ \<Rightarrow> ss_loaders s),
      ss_waiters := (case out of GetWait e \<Rightarrow> e # ss_waiters s | _ \<Rightarrow> ss_waiters s)\<rparr>)"
proof -
  let ?p = "ss_provider s"
  consider (new) "map_of (sp_entries ?p) k = None"
    | (load) e where "map_of (sp_entries ?p) k = Some e" "se_loading (sp_heap ?p ! e)"
    | (hit) e where "map_of (sp_entries ?p) k = Some e" "\<not> se_loading (sp_heap ?p ! e)" "now < se_expires (sp_heap ?p ! e)"
    | (old) e where "map_of (sp_entries ?p) k = Some e" "\<not> se_loading (sp_heap ?p ! e)" "\<not> now < se_expires (sp_heap ?p ! e)"
    by (cases "map_of (sp_entries ?p) k") auto
  then show ?thesis
  proof cases
    case new
    then show ?thesis using inv_start_load [OF assms(1) refl new, of out p'] assms(2)
      by (cases out) (simp_all add: get_locked_def)
  next
    case load
    then show ?thesis using inv_wait [OF assms(1) load(1)] assms(2) by (auto simp: get_locked_def)
  next
    case hit
    then show ?thesis using inv_touch [OF assms(1) refl] assms(2) by (auto simp: get_locked_def)
  next
    case old
    let ?q = "?p\<lparr>sp_entries := AList.delete k (sp_entries ?p)\<rparr>"
    have "session_inv cap (s\<lparr>ss_provider := ?q\<rparr>)" by (rule inv_drop(1) [OF assms(1) refl old(1,2)])
    from inv_start_load [OF this, of ?q k out p'] assms(2) old show ?thesis by (cases out) (simp_all add: get_locked_def)
  qed
qed

text \<open>What a finished load changes: its entry, and on an error the map.\<close>
definition finished_entry :: "nat \<Rightarrow> core_error option \<Rightarrow> material \<Rightarrow> gotime \<Rightarrow> provider \<Rightarrow> provider \<Rightarrow> session_entry" where
  "finished_entry e err m now p p' = (sp_heap p ! e)\<lparr>se_loading := False, se_err := err, se_material := m, se_ready := True,
     se_generation := (if err = None then sp_generation p' else se_generation (sp_heap p ! e)),
     se_expires := (if err = None then now + sp_ttl p else se_expires (sp_heap p ! e))\<rparr>"

lemma get_finish_shape:
  assumes "get_finish k e err loaded now p = (m, p')"
  shows "sp_heap p' = (sp_heap p)[e := finished_entry e err m now p p']"
    and "sp_entries p' = (if err = None then sp_entries p else AList.delete k (sp_entries p))"
    and "sp_capacity p' = sp_capacity p" and "sp_ttl p' = sp_ttl p"
  using assms unfolding get_finish_def Let_def finished_entry_def by auto

lemma session_invD:
  assumes "session_inv cap s" and "p = ss_provider s"
  shows "sp_capacity p = cap" and "0 < cap" and "int (length (sp_entries p)) \<le> cap" and "distinct (keys (sp_entries p))"
    and "\<And>k e. map_of (sp_entries p) k = Some e \<Longrightarrow> e < length (sp_heap p)"
    and "\<And>k k' e. map_of (sp_entries p) k = Some e \<Longrightarrow> map_of (sp_entries p) k' = Some e \<Longrightarrow> k = k'"
    and "distinct (ss_loaders s)"
    and "\<And>k e. (k, e) \<in> set (ss_loaders s) \<Longrightarrow> map_of (sp_entries p) k = Some e"
    and "\<And>k e. (k, e) \<in> set (ss_loaders s) \<Longrightarrow> se_loading (sp_heap p ! e)"
    and "\<And>e. e < length (sp_heap p) \<Longrightarrow> se_ready (sp_heap p ! e) = (\<not> se_loading (sp_heap p ! e))"
    and "\<And>e. e < length (sp_heap p) \<Longrightarrow> se_loading (sp_heap p ! e) \<Longrightarrow> \<exists>k. (k, e) \<in> set (ss_loaders s)"
    and "\<And>e. e \<in> set (ss_waiters s) \<Longrightarrow> e < length (sp_heap p)"
  using assms(1) unfolding session_inv_def Let_def assms(2) by blast+

lemma session_invI:
  assumes "sp_capacity p = cap" and "0 < cap" and "int (length (sp_entries p)) \<le> cap" and "distinct (keys (sp_entries p))"
    and "\<And>k e. map_of (sp_entries p) k = Some e \<Longrightarrow> e < length (sp_heap p)"
    and "\<And>k k' e. map_of (sp_entries p) k = Some e \<Longrightarrow> map_of (sp_entries p) k' = Some e \<Longrightarrow> k = k'"
    and "distinct (ss_loaders s)"
    and "\<And>k e. (k, e) \<in> set (ss_loaders s) \<Longrightarrow> map_of (sp_entries p) k = Some e"
    and "\<And>k e. (k, e) \<in> set (ss_loaders s) \<Longrightarrow> se_loading (sp_heap p ! e)"
    and "\<And>e. e < length (sp_heap p) \<Longrightarrow> se_ready (sp_heap p ! e) = (\<not> se_loading (sp_heap p ! e))"
    and "\<And>e. e < length (sp_heap p) \<Longrightarrow> se_loading (sp_heap p ! e) \<Longrightarrow> \<exists>k. (k, e) \<in> set (ss_loaders s)"
    and "\<And>e. e \<in> set (ss_waiters s) \<Longrightarrow> e < length (sp_heap p)" and "p = ss_provider s"
  shows "session_inv cap s"
  unfolding session_inv_def Let_def assms(13) [symmetric] using assms(1-12) by blast

lemma inv_finish:
  assumes inv: "session_inv cap s" and load: "(k, e) \<in> set (ss_loaders s)"
    and fin: "get_finish k e err loaded now (ss_provider s) = (m, p')"
  shows "session_inv cap (s\<lparr>ss_provider := p', ss_loaders := remove1 (k, e) (ss_loaders s)\<rparr>)"
proof -
  define p where "p = ss_provider s"
  note old = session_invD [OF inv p_def] and shape = get_finish_shape [OF fin [folded p_def]]
  have ke: "map_of (sp_entries p) k = Some e" "e < length (sp_heap p)" using old(5,8) load by blast+
  have h: "sp_heap p' ! i = (if i = e then finished_entry e err m now p p' else sp_heap p ! i)" for i
    unfolding shape(1) using ke(2) by (simp add: nth_list_update)
  have len: "length (sp_heap p') = length (sp_heap p)" unfolding shape(1) by simp
  have fe: "\<not> se_loading (finished_entry e err m now p p')" "se_ready (finished_entry e err m now p p')"
    by (simp_all add: finished_entry_def)
  have sub: "map_of (sp_entries p) j = Some i" if "map_of (sp_entries p') j = Some i" for j i
    using that unfolding shape(2) by (simp split: if_splits)
  have ent: "map_of (sp_entries p') j = map_of (sp_entries p) j" if "j \<noteq> k" for j
    unfolding shape(2) using that by simp
  have "k \<in> set (keys (sp_entries p))" using ke(1) by (metis map_of_eq_None_iff_keys option.distinct(1))
  then have size: "length (sp_entries p') \<le> length (sp_entries p)" unfolding shape(2) using old(4) by (simp add: length_delete)
  have rem: "set (remove1 (k, e) (ss_loaders s)) = set (ss_loaders s) - {(k, e)}" using old(7) by (rule set_remove1_eq)
  have other: "j \<noteq> k \<and> i \<noteq> e" if "(j, i) \<in> set (ss_loaders s)" "(j, i) \<noteq> (k, e)" for j i
  proof -
    have "map_of (sp_entries p) j = Some i" by (rule old(8) [OF that(1)])
    then have "j = k \<longleftrightarrow> i = e" using old(6) [of j e k] ke(1) by (metis option.inject)
    then show ?thesis using that(2) by blast
  qed
  show ?thesis
  proof (rule session_invI [where p = p'])
    show "int (length (sp_entries p')) \<le> cap" using size old(3) by simp
    show "distinct (keys (sp_entries p'))" unfolding shape(2) using old(4) by simp
    show "i < length (sp_heap p')" if "map_of (sp_entries p') j = Some i" for j i using old(5) [OF sub [OF that]] len by simp
    show "j = j'" if "map_of (sp_entries p') j = Some i" "map_of (sp_entries p') j' = Some i" for j j' i
      by (rule old(6) [OF sub [OF that(1)] sub [OF that(2)]])
    show "map_of (sp_entries p') j = Some i" "se_loading (sp_heap p' ! i)"
      if "(j, i) \<in> set (ss_loaders (s\<lparr>ss_provider := p', ss_loaders := remove1 (k, e) (ss_loaders s)\<rparr>))" for j i
    proof -
      have ji: "(j, i) \<in> set (ss_loaders s)" "(j, i) \<noteq> (k, e)" using that rem by simp_all
      show "map_of (sp_entries p') j = Some i" using ent [OF conjunct1 [OF other [OF ji]]] old(8) [OF ji(1)] by simp
      show "se_loading (sp_heap p' ! i)" using h [of i] other [OF ji] old(9) [OF ji(1)] by simp
    qed
    show "se_ready (sp_heap p' ! i) = (\<not> se_loading (sp_heap p' ! i))" if "i < length (sp_heap p')" for i
      using h [of i] fe old(10) [of i] that len by simp
    show "\<exists>j. (j, i) \<in> set (ss_loaders (s\<lparr>ss_provider := p', ss_loaders := remove1 (k, e) (ss_loaders s)\<rparr>))"
      if "i < length (sp_heap p')" "se_loading (sp_heap p' ! i)" for i
    proof -
      have i: "i \<noteq> e" using that(2) h [of i] fe by auto
      then show ?thesis using old(11) [of i] that h [of i] len rem by auto
    qed
  qed (use old(1,2,7,12) shape(3) len in \<open>simp_all\<close>)
qed

lemma session_step_inv: "session_step idna s ev s' \<Longrightarrow> session_inv cap s \<Longrightarrow> session_inv cap s'"
proof (induction rule: session_step.induct)
  case (enter raw k now s out p)
  then show ?case using inv_enter by blast
next
  case (finish k e s err loaded now m p)
  then show ?case using inv_finish by blast
next
  case (wake e s)
  then show ?case by (auto simp: session_inv_def Let_def dest: notin_set_remove1)
next
  case (cancel e s)
  then show ?case by (auto simp: session_inv_def Let_def dest: notin_set_remove1)
next
  case (invalidate raw m err s b p k)
  then show ?case using inv_drop(1) [of cap s "ss_provider s"]
    by (auto simp: invalidate_for_def split: if_splits option.splits)
qed

lemma session_run_inv: "session_run idna ttl cap tr s \<Longrightarrow> session_inv cap s"
proof (induction rule: session_run.induct)
  case (start p)
  then show ?case by (auto simp: new_provider_def session_inv_def keys_def split: if_splits)
qed (rule session_step_inv)

section \<open>What can be hit\<close>

text \<open>The material a key would be answered with, and until when.\<close>
definition visible :: "provider \<Rightarrow> session_key \<Rightarrow> (material \<times> gotime) option" where
  "visible p k = (case map_of (sp_entries p) k of None \<Rightarrow> None
     | Some e \<Rightarrow> if se_loading (sp_heap p ! e) then None else Some (se_material (sp_heap p ! e), se_expires (sp_heap p ! e)))"

lemma visible_drop: "visible (p\<lparr>sp_entries := AList.delete k (sp_entries p)\<rparr>) j = (if j = k then None else visible p j)"
  by (cases "map_of (sp_entries p) j") (simp_all add: visible_def)

definition in_heap :: "provider \<Rightarrow> bool" where
  "in_heap p \<longleftrightarrow> (\<forall>k e. map_of (sp_entries p) k = Some e \<longrightarrow> e < length (sp_heap p))"

lemma in_heapD: "in_heap p \<Longrightarrow> map_of (sp_entries p) k = Some e \<Longrightarrow> e < length (sp_heap p)"
  unfolding in_heap_def by blast

lemma in_heap_drop: "in_heap p \<Longrightarrow> in_heap (p\<lparr>sp_entries := AList.delete k (sp_entries p)\<rparr>)"
  by (simp add: in_heap_def)

lemma inv_in_heap: "session_inv cap s \<Longrightarrow> in_heap (ss_provider s)"
  unfolding in_heap_def using session_invD(5) [OF _ refl] by blast

lemma visible_add:
  assumes "in_heap p"
  shows "visible (p\<lparr>sp_sequence := q, sp_entries := AList.update k (length (sp_heap p)) (sp_entries p),
      sp_heap := sp_heap p @ [empty_entry u]\<rparr>) j = (if j = k then None else visible p j)"
  using in_heapD [OF assms, of j] by (auto simp: visible_def empty_entry_def nth_append split: option.splits)

lemma visible_touch:
  assumes "e < length (sp_heap p)"
  shows "visible (p\<lparr>sp_sequence := q, sp_heap := (sp_heap p)[e := (sp_heap p ! e)\<lparr>se_used := u\<rparr>]\<rparr>) j = visible p j"
  using assms by (auto simp: visible_def nth_list_update split: option.splits)

lemma evict_visible:
  assumes "evict_oldest p = (ok, q)"
  shows "visible q j = Some x \<Longrightarrow> visible p j = Some x" and "in_heap p \<Longrightarrow> in_heap q"
  using assms by (auto simp: evict_oldest_def visible_drop in_heap_drop split: if_splits option.splits)

lemma start_load_visible:
  assumes "in_heap p" and "start_load k p = (out, p')" and "visible p' j = Some x"
  shows "visible p j = Some x"
proof -
  define r where "r = (if int (length (sp_entries p)) \<ge> sp_capacity p then evict_oldest p else (True, p))"
  obtain ok q where r: "r = (ok, q)" by force
  have q: "visible q j = Some x \<Longrightarrow> visible p j = Some x" "in_heap q"
    using r assms(1) evict_visible [of p ok q] by (auto simp: r_def split: if_splits)
  have "visible q j = Some x"
  proof (cases ok)
    case True
    then have "p' = q\<lparr>sp_sequence := sp_sequence q + 1, sp_entries := AList.update k (length (sp_heap q)) (sp_entries q),
        sp_heap := sp_heap q @ [empty_entry (sp_sequence q + 1)]\<rparr>"
      using assms(2) r by (simp add: start_load_def r_def [symmetric])
    then show ?thesis using assms(3) visible_add [OF q(2)] by (simp split: if_splits)
  next
    case False
    then show ?thesis using assms(2,3) r by (simp add: start_load_def r_def [symmetric])
  qed
  then show ?thesis by (rule q(1))
qed

lemma get_locked_visible:
  assumes "session_inv cap s" and "get_locked k now (ss_provider s) = (out, p')"
  shows "visible p' j = Some x \<Longrightarrow> visible (ss_provider s) j = Some x"
proof -
  define p where "p = ss_provider s"
  have heap: "in_heap p" unfolding p_def by (rule inv_in_heap [OF assms(1)])
  have g: "get_locked k now p = (out, p')" using assms(2) by (simp add: p_def)
  assume v: "visible p' j = Some x"
  show ?thesis unfolding p_def [symmetric]
  proof (cases "map_of (sp_entries p) k")
    case None
    then show "visible p j = Some x" using g start_load_visible [OF heap _ v] by (simp add: get_locked_def)
  next
    case (Some e)
    consider "se_loading (sp_heap p ! e)" | "\<not> se_loading (sp_heap p ! e)" "now < se_expires (sp_heap p ! e)"
      | "\<not> se_loading (sp_heap p ! e)" "\<not> now < se_expires (sp_heap p ! e)" by blast
    then show "visible p j = Some x"
    proof cases
      case 1
      then show ?thesis using g v Some by (simp add: get_locked_def)
    next
      case 2
      then show ?thesis using g v Some visible_touch [OF in_heapD [OF heap Some]] by (auto simp: get_locked_def)
    next
      case 3
      then have "start_load k (p\<lparr>sp_entries := AList.delete k (sp_entries p)\<rparr>) = (out, p')" using g Some by (simp add: get_locked_def)
      from start_load_visible [OF in_heap_drop [OF heap] this v] show ?thesis by (simp add: visible_drop split: if_splits)
    qed
  qed
qed

lemma start_load_no_hit: "start_load k p = (out, p') \<Longrightarrow> out \<noteq> GetHit m"
  by (auto simp: start_load_def Let_def split: prod.splits if_splits)

lemma get_locked_hit:
  assumes "get_locked k now p = (GetHit m, p')"
  shows "\<exists>x. visible p k = Some (m, x) \<and> now < x"
  using assms by (auto simp: get_locked_def visible_def dest: start_load_no_hit split: option.splits if_splits)

lemma finish_visible:
  assumes inv: "session_inv cap s" and load: "(k, e) \<in> set (ss_loaders s)" and fin: "get_finish k e err loaded now (ss_provider s) = (m, p')"
  shows "visible p' j = (if j = k then (if err = None then Some (m, now + sp_ttl (ss_provider s)) else None) else visible (ss_provider s) j)"
proof -
  define p where "p = ss_provider s"
  note old = session_invD [OF inv p_def] and shape = get_finish_shape [OF fin [folded p_def]]
  have ke: "map_of (sp_entries p) k = Some e" "e < length (sp_heap p)" using old(5,8) load by blast+
  have "i \<noteq> e" if "j \<noteq> k" "map_of (sp_entries p) j = Some i" for i using old(6) [of j e k] ke(1) that by blast
  then show ?thesis
    using ke unfolding visible_def shape(1,2) p_def [symmetric]
    by (auto simp: nth_list_update finished_entry_def split: option.splits)
qed

lemma invalidate_visible:
  assumes "invalidate_for idna raw m err p = (b, p')" and "session_scope idna raw = Some k"
  shows "visible p' j = Some x \<Longrightarrow> visible p j = Some x \<and> \<not> (b \<and> j = k)"
  using assms by (auto simp: invalidate_for_def visible_drop split: if_splits option.splits)

lemma step_ttl: "session_step idna s ev s' \<Longrightarrow> sp_ttl (ss_provider s') = sp_ttl (ss_provider s)"
proof (induction rule: session_step.induct)
  case (enter raw k now s out p)
  have "sp_ttl q = sp_ttl r" if "start_load k r = (o', q)" for q r o'
    using that by (auto simp: start_load_def evict_oldest_def Let_def split: prod.splits if_splits option.splits)
  from enter(2) this show ?case by (auto simp: get_locked_def split: option.splits if_splits)
next
  case (finish k e s err loaded now m p)
  then show ?case using get_finish_shape(4) by simp
next
  case (invalidate raw m err s b p k)
  then show ?case by (auto simp: invalidate_for_def split: if_splits option.splits)
qed simp_all

lemma run_ttl: "session_run idna ttl cap tr s \<Longrightarrow> sp_ttl (ss_provider s) = ttl"
  by (induction rule: session_run.induct) (auto simp: new_provider_def step_ttl split: if_splits)

text \<open>The material was loaded under the key, runs out at the given time, and was not invalidated since.\<close>
definition loaded_for :: "duration \<Rightarrow> session_event list \<Rightarrow> session_key \<Rightarrow> material \<Rightarrow> gotime \<Rightarrow> bool" where
  "loaded_for ttl tr k m x \<longleftrightarrow> (\<exists>post pre e t. tr = post @ Finished k e None m t # pre \<and> x = t + ttl \<and> Invalidated k True \<notin> set post)"

lemma loaded_for_cons: "loaded_for ttl tr k m x \<Longrightarrow> ev \<noteq> Invalidated k True \<Longrightarrow> loaded_for ttl (ev # tr) k m x"
  unfolding loaded_for_def by (metis append_Cons set_ConsD)

lemma run_visible:
  "session_run idna ttl cap tr s \<Longrightarrow> visible (ss_provider s) j = Some (m, x) \<Longrightarrow> loaded_for ttl tr j m x"
proof (induction arbitrary: j m x rule: session_run.induct)
  case (start p)
  then show ?case by (auto simp: new_provider_def visible_def split: if_splits)
next
  case (step tr s ev s')
  note inv = session_run_inv [OF step.hyps(1)]
  from step.hyps(2) show ?case
  proof cases
    case (enter raw k now out p)
    then show ?thesis using get_locked_visible [OF inv enter(4)] step.prems step.IH by (auto intro!: loaded_for_cons)
  next
    case (finish k e err loaded now m' p)
    have v: "visible p j = Some (m, x)" using step.prems finish by simp
    show ?thesis
    proof (cases "j = k")
      case True
      then have "err = None" "m = m'" "x = now + ttl"
        using v finish_visible [OF inv finish(3,4), of j] run_ttl [OF step.hyps(1)] by (auto split: if_splits)
      then show ?thesis unfolding loaded_for_def finish(1) True by (metis append_Nil empty_iff list.set(1))
    next
      case False
      then show ?thesis using v finish_visible [OF inv finish(3,4), of j] step.IH finish(1) by (auto intro!: loaded_for_cons)
    qed
  next
    case (invalidate raw m' err b p k)
    then show ?thesis using invalidate_visible [OF invalidate(3,4), of j "(m, x)"] step.prems step.IH
      by (auto intro!: loaded_for_cons)
  qed (use step.prems step.IH in \<open>auto intro!: loaded_for_cons\<close>)
qed

section \<open>Properties\<close>

text \<open>
  C20.  Whatever the callers do, in any interleaving: for each key at most one load is under way, and the
  provider never holds more entries than its capacity.
\<close>
theorem session_single_flight:
  assumes "session_run idna ttl capacity tr s"
  shows "distinct (map fst (ss_loaders s)) \<and> int (length (sp_entries (ss_provider s))) \<le> capacity"
proof -
  note inv = session_invD [OF session_run_inv [OF assms] refl]
  have "inj_on fst (set (ss_loaders s))"
  proof (rule inj_onI)
    fix a b assume "a \<in> set (ss_loaders s)" "b \<in> set (ss_loaders s)" "fst a = fst b"
    then have "Some (snd a) = Some (snd b)" using inv(8) [of "fst a" "snd a"] inv(8) [of "fst b" "snd b"] by (metis prod.collapse)
    then show "a = b" using \<open>fst a = fst b\<close> by (simp add: prod_eq_iff)
  qed
  then show ?thesis using inv(3,7) by (simp add: distinct_map)
qed

text \<open>
  No waiter is forgotten: in every reachable state a caller that waits for an entry can be woken at
  once, or the loader of that entry is still running and, however its load ends, wakes the caller with
  exactly the outcome of the load.
\<close>
theorem session_waiter_served:
  assumes "session_run idna ttl capacity tr s" and "e \<in> set (ss_waiters s)"
  shows "(\<exists>m err s'. session_step idna s (Woken e m err) s') \<or>
     (\<exists>k. (k, e) \<in> set (ss_loaders s) \<and>
       (\<forall>err (loaded :: material) now. \<exists>m s' s''. session_step idna s (Finished k e err m now) s' \<and> session_step idna s' (Woken e m err) s''))"
proof -
  note inv = session_invD [OF session_run_inv [OF assms(1)] refl]
  have e: "e < length (sp_heap (ss_provider s))" using inv(12) assms(2) by blast
  show ?thesis
  proof (cases "se_ready (sp_heap (ss_provider s) ! e)")
    case True
    then show ?thesis using session_step.wake [OF assms(2)] by blast
  next
    case False
    then obtain k where k: "(k, e) \<in> set (ss_loaders s)" using inv(10,11) e by blast
    have "\<exists>m s' s''. session_step idna s (Finished k e err m now) s' \<and> session_step idna s' (Woken e m err) s''" for err and loaded :: material and now
    proof -
      obtain m p where fin: "get_finish k e err loaded now (ss_provider s) = (m, p)" by force
      let ?s = "s\<lparr>ss_provider := p, ss_loaders := remove1 (k, e) (ss_loaders s)\<rparr>"
      have one: "session_step idna s (Finished k e err m now) ?s" by (rule session_step.finish [OF k fin])
      have h: "sp_heap p ! e = finished_entry e err m now (ss_provider s) p"
        unfolding get_finish_shape(1) [OF fin] using e by simp
      have "session_step idna ?s (Woken e (se_material (sp_heap (ss_provider ?s) ! e)) (se_err (sp_heap (ss_provider ?s) ! e)))
          (?s\<lparr>ss_waiters := remove1 e (ss_waiters ?s)\<rparr>)"
        by (rule session_step.wake) (use assms(2) h in \<open>simp_all add: finished_entry_def\<close>)
      then show ?thesis using one h by (auto simp: finished_entry_def)
    qed
    with k show ?thesis by blast
  qed
qed

text \<open>
  Material is never stale: what a lookup answers was loaded under the same key less than the
  time-to-live ago, and has not been invalidated since it was loaded.
\<close>
theorem session_hit_fresh:
  assumes "session_run idna ttl capacity (Entered k now (GetHit m) # tr) s"
  shows "\<exists>post pre e t. tr = post @ Finished k e None m t # pre \<and> now < t + ttl \<and> Invalidated k True \<notin> set post"
proof -
  from assms obtain s0 where run: "session_run idna ttl capacity tr s0"
    and st: "session_step idna s0 (Entered k now (GetHit m)) s" by (cases rule: session_run.cases) auto
  from st obtain p where "get_locked k now (ss_provider s0) = (GetHit m, p)" by (cases rule: session_step.cases) auto
  then obtain x where "visible (ss_provider s0) k = Some (m, x)" "now < x" using get_locked_hit by blast
  then show ?thesis using run_visible [OF run, of k m x] unfolding loaded_for_def by blast
qed

section \<open>A run\<close>

definition demo_key :: session_key where "demo_key = \<lparr>sk_platform = ''a'', sk_host = ''b''\<rparr>"
definition demo_material :: material where "demo_material = \<lparr>sm_value = ''x'', sm_generation = 1\<rparr>"
definition demo0 :: provider where
  "demo0 = \<lparr>sp_ttl = 10, sp_capacity = 1, sp_sequence = 0, sp_generation = 0, sp_entries = [], sp_heap = []\<rparr>"
definition demo1 :: provider where "demo1 = snd (get_locked demo_key 0 demo0)"
definition demo2 :: provider where "demo2 = snd (get_finish demo_key 0 None \<lparr>sm_value = ''x'', sm_generation = 0\<rparr> 2 demo1)"
definition demo3 :: provider where "demo3 = snd (get_locked demo_key 3 demo2)"

lemma demo_steps:
  "session_scope Some demo_key = Some demo_key" "new_provider 10 1 = Some demo0"
  "get_locked demo_key 0 demo0 = (GetLoad 0, demo1)" "get_locked demo_key 1 demo1 = (GetWait 0, demo1)"
  "get_finish demo_key 0 None \<lparr>sm_value = ''x'', sm_generation = 0\<rparr> 2 demo1 = (demo_material, demo2)"
  "get_locked demo_key 3 demo2 = (GetHit demo_material, demo3)"
  by code_simp+

lemma demo_run2:
  "session_run Some 10 1 [Entered demo_key 1 (GetWait 0), Entered demo_key 0 (GetLoad 0)]
     \<lparr>ss_provider = demo1, ss_loaders = [(demo_key, 0)], ss_waiters = [0]\<rparr>"
proof -
  have "session_run Some 10 1 [] \<lparr>ss_provider = demo0, ss_loaders = [], ss_waiters = []\<rparr>"
    by (rule session_run.start [OF demo_steps(2)])
  from session_run.step [OF this session_step.enter [OF demo_steps(1), of 0]] demo_steps(3)
  have "session_run Some 10 1 [Entered demo_key 0 (GetLoad 0)] \<lparr>ss_provider = demo1, ss_loaders = [(demo_key, 0)], ss_waiters = []\<rparr>"
    by fastforce
  from session_run.step [OF this session_step.enter [OF demo_steps(1), of 1]] demo_steps(4) show ?thesis by fastforce
qed

lemma demo_run4:
  "session_run Some 10 1 [Entered demo_key 3 (GetHit demo_material), Finished demo_key 0 None demo_material 2,
       Entered demo_key 1 (GetWait 0), Entered demo_key 0 (GetLoad 0)]
     \<lparr>ss_provider = demo3, ss_loaders = [], ss_waiters = [0]\<rparr>"
proof -
  from session_run.step [OF demo_run2 session_step.finish] demo_steps(5)
  have "session_run Some 10 1 [Finished demo_key 0 None demo_material 2, Entered demo_key 1 (GetWait 0), Entered demo_key 0 (GetLoad 0)]
     \<lparr>ss_provider = demo2, ss_loaders = [], ss_waiters = [0]\<rparr>" by fastforce
  from session_run.step [OF this session_step.enter [OF demo_steps(1), of 3]] demo_steps(6) show ?thesis by fastforce
qed

theorem session_single_flight_witness:
  "distinct (map fst [(demo_key, 0 :: nat)]) \<and> int (length (sp_entries demo1)) \<le> 1"
  using session_single_flight [OF demo_run2] by simp

theorem session_waiter_served_witness:
  "\<exists>k. (k, 0) \<in> set [(demo_key, 0 :: nat)] \<and> \<not> se_ready (sp_heap demo1 ! 0)"
proof -
  have "\<not> se_ready (sp_heap demo1 ! 0)" by code_simp
  moreover have "\<not> session_step Some \<lparr>ss_provider = demo1, ss_loaders = [(demo_key, 0)], ss_waiters = [0]\<rparr> (Woken 0 m err) s'" for m err s'
    using calculation by (auto elim: session_stepE)
  ultimately show ?thesis using session_waiter_served [OF demo_run2, of 0] by auto
qed

theorem session_hit_fresh_witness:
  "\<exists>post pre e t. [Finished demo_key 0 None demo_material 2, Entered demo_key 1 (GetWait 0), Entered demo_key 0 (GetLoad 0)] =
     post @ Finished demo_key e None demo_material t # pre \<and> 3 < t + 10 \<and> Invalidated demo_key True \<notin> set post"
  by (rule session_hit_fresh [OF demo_run4])

end
