(* ===== verification/ParseService.thy ===== *)
theory ParseService imports
  ParserRegistry
  CacheTiered
begin

text \<open>
  \<open>internal/parse/service.go\<close>: the use case behind \<open>POST /api/parse\<close>.  A service is a record of its
  collaborators over a world \<open>'w\<close> (what the caches, the store and the upstream hold); a collaborator may
  change the world in any way its contract allows, so that what other requests do meanwhile is part of its
  step.  The single-flight group is a third-party package: whether this call runs the flight or is handed
  the outcome of one under way is the argument \<open>joined\<close>.
\<close>

section \<open>Errors\<close>

text \<open>What \<open>errors.Is\<close> and \<open>errors.As\<close> look for at the end of a chain of wrapped errors.\<close>
datatype parse_fail = TypedFail parse_error | CtxCanceled | CtxDeadline | EntropyUnavailable
  | OtherFail gostring "parse_fail option"

fun fail_root :: "parse_fail \<Rightarrow> parse_fail" where
  "fail_root (OtherFail _ (Some e)) = fail_root e"
| "fail_root e = e"

definition class_of :: "parse_fail option \<Rightarrow> error_class" where
  "class_of e = (case e of None \<Rightarrow> ErrorOtherClass []
     | Some e \<Rightarrow> (case fail_root e of
          CtxCanceled \<Rightarrow> ErrorCanceled | CtxDeadline \<Rightarrow> ErrorUpstreamTimeout | EntropyUnavailable \<Rightarrow> ErrorInternal
        | TypedFail t \<Rightarrow> pe_class t | OtherFail _ _ \<Rightarrow> ErrorInternal))"

definition negative_cacheable :: "error_class \<Rightarrow> bool" where
  "negative_cacheable c \<longleftrightarrow> c = ErrorUnsupported \<or> c = ErrorEmptyMedia"

definition classify :: "parse_fail \<Rightarrow> gostring \<Rightarrow> parse_error" where
  "classify e platform =
     (case fail_root e of
        TypedFail t \<Rightarrow> t
      | CtxCanceled \<Rightarrow> new_error ErrorCanceled StageParser platform True
      | CtxDeadline \<Rightarrow> new_error ErrorUpstreamTimeout StageUpstream platform True
      | _ \<Rightarrow> new_error ErrorUpstreamBlocked StageUpstream platform True)"

section \<open>Requests, parsers, caches\<close>

record parser_request =
  pq_raw :: gostring
  pq_canonical :: resource
  pq_descriptor :: descriptor

record request =
  rq_url :: gostring
  rq_force :: bool
  rq_source :: int
  rq_timestamp :: int
  rq_signature :: gostring
  rq_version :: int

record id_request =
  iq_source :: gostring
  iq_video :: gostring

record cache_identity =
  ci_platform :: gostring
  ci_url :: gostring
  ci_parser_version :: gostring
  ci_schema :: gostring
  ci_key :: gostring

record parse_output =
  ou_result :: parse_result
  ou_data :: compat_data
  ou_cache :: cache_identity

record stored_result =
  st_share :: gostring
  st_cache :: cache_identity
  st_result :: parse_result
  st_data :: compat_data
  st_created :: gotime

type_synonym 'w parser = "parser_request \<Rightarrow> 'w \<Rightarrow> (parse_fail + parse_result) \<times> 'w"

text \<open>
  \<open>ParserChain\<close>: up to \<open>MaxAttempts\<close> parsers, a nil one is passed over, the prev error is the answer.
  \<open>ctx\<close> is what \<open>ctx.Err\<close> answers in a world.
\<close>
fun chain_loop :: "('w \<Rightarrow> parse_fail option) \<Rightarrow> 'w parser option list \<Rightarrow> parser_request \<Rightarrow> parse_fail option \<Rightarrow> 'w
    \<Rightarrow> (parse_fail + parse_result) \<times> 'w" where
  "chain_loop ctx [] req prev w =
     (Inl (case prev of Some e \<Rightarrow> e
        | None \<Rightarrow> TypedFail (new_error ErrorInternal StageParser (de_platform (pq_descriptor req)) True)), w)"
| "chain_loop ctx (p # ps) req prev w =
     (case ctx w of
        Some e \<Rightarrow> (Inl e, w)
      | None \<Rightarrow> (case p of
          None \<Rightarrow> chain_loop ctx ps req prev w
        | Some f \<Rightarrow> (case f req w of (Inr r, w') \<Rightarrow> (Inr r, w') | (Inl e, w') \<Rightarrow> chain_loop ctx ps req (Some e) w')))"

definition chain_parse :: "('w \<Rightarrow> parse_fail option) \<Rightarrow> 'w parser option list \<Rightarrow> int \<Rightarrow> 'w parser" where
  "chain_parse ctx parsers max_attempts req w =
     chain_loop ctx (if max_attempts \<le> 0 \<or> max_attempts > int (length parsers) then parsers else take (nat max_attempts) parsers) req None w"

datatype 'a cache_answer = CacheFailed | Miss | Found 'a

record 'w parse_cache_ops =
  pc_get_positive :: "cache_identity \<Rightarrow> 'w \<Rightarrow> parse_result cache_answer \<times> 'w"
  pc_set_positive :: "cache_identity \<Rightarrow> parse_result \<Rightarrow> duration \<Rightarrow> 'w \<Rightarrow> 'w"
  pc_get_negative :: "cache_identity \<Rightarrow> 'w \<Rightarrow> parse_fail cache_answer \<times> 'w"
  pc_set_negative :: "cache_identity \<Rightarrow> parse_error \<Rightarrow> duration \<Rightarrow> 'w \<Rightarrow> 'w"

section \<open>The service\<close>

record 'w service =
  sv_parser :: "'w parser"
  sv_id_parser :: "(gostring \<Rightarrow> gostring \<Rightarrow> 'w \<Rightarrow> (parse_fail + parse_result) \<times> 'w) option"
  sv_resolver :: "gostring \<Rightarrow> descriptor option"
  sv_cache :: "'w parse_cache_ops option"
  sv_store :: "(stored_result \<Rightarrow> 'w \<Rightarrow> bool \<times> 'w) option"
  sv_entropy :: "'w \<Rightarrow> gostring option \<times> 'w"
  sv_clock :: "'w \<Rightarrow> gotime"
  sv_parser_version :: gostring
  sv_schema_version :: gostring
  sv_positive_ttl :: duration
  sv_negative_ttl :: duration

definition new_service :: "'w service \<Rightarrow> 'w service" where
  "new_service d = d\<lparr>
     sv_parser_version := (if trim_space (sv_parser_version d) = [] then ''parser-v1'' else trim_space (sv_parser_version d)),
     sv_schema_version := (if trim_space (sv_schema_version d) = [] then ''result-schema-v1'' else trim_space (sv_schema_version d)),
     sv_positive_ttl := (if sv_positive_ttl d \<le> 0 then 6 * hour else sv_positive_ttl d),
     sv_negative_ttl := (if sv_negative_ttl d \<le> 0 then 180 * second else sv_negative_ttl d)\<rparr>"

definition new_cache_identity :: "gostring \<Rightarrow> gostring \<Rightarrow> gostring \<Rightarrow> gostring \<Rightarrow> cache_identity option" where
  "new_cache_identity platform url parser_version schema =
     map_option (\<lambda>k. \<lparr>ci_platform = trim_space platform, ci_url = trim_space url, ci_parser_version = trim_space parser_version,
         ci_schema = trim_space schema, ci_key = k\<rparr>)
       (new_key \<lparr>kp_platform = platform, kp_resource = url, kp_parser_version = parser_version, kp_schema_version = schema\<rparr>)"

text \<open>\<open>io.ReadFull\<close> of 16 bytes, None on an error.\<close>
definition generate_share_id :: "gostring option \<Rightarrow> gostring option" where
  "generate_share_id raw = map_option (\<lambda>bytes. ''share_'' @ b64_encode bytes) raw"

definition present :: "gostring \<Rightarrow> bool" where
  "present raw \<longleftrightarrow> trim_space raw \<noteq> []"

definition media_urls :: "parse_result \<Rightarrow> gostring list" where
  "media_urls r = filter present ([pr_video r, pr_audio r, pr_m3u8 r, pr_preview r, pr_cover r] @
     concat (map (\<lambda>i. [im_url i, im_live i]) (pr_images r)))"

text \<open>None when the result may be answered.\<close>
definition validate_media :: "idna \<Rightarrow> parse_result \<Rightarrow> parse_error option" where
  "validate_media idna r =
     (let platform = trim_space (pr_platform r) in
      if length (pr_images r) > 100 then Some (new_error ErrorSecurityRejected StageNormalize platform False)
      else if media_urls r = [] then Some (new_error ErrorEmptyMedia StageNormalize platform False)
      else if list_ex (\<lambda>raw. new_fetch_url idna (trim_space raw) = None) (media_urls r)
      then Some (new_error ErrorSecurityRejected StageNormalize platform False)
      else None)"

definition plain_output :: "cache_identity \<Rightarrow> parse_result \<Rightarrow> parse_output" where
  "plain_output ci r = \<lparr>ou_result = r, ou_data = (normalize r)\<lparr>cd_source := ci_url ci\<rparr>, ou_cache = ci\<rparr>"

definition save_result :: "'w service \<Rightarrow> stored_result \<Rightarrow> 'w \<Rightarrow> bool \<times> 'w" where
  "save_result svc st w = (case sv_store svc of None \<Rightarrow> (True, w) | Some save \<Rightarrow> save st w)"

text \<open>\<open>outputFromResult\<close> with \<open>persist\<close>; without it the answer is \<open>plain_output\<close>.\<close>
definition output_from_result :: "'w service \<Rightarrow> cache_identity \<Rightarrow> parse_result \<Rightarrow> bool \<Rightarrow> 'w \<Rightarrow> (parse_fail + parse_output) \<times> 'w" where
  "output_from_result svc ci r persist w =
     (let out = plain_output ci r in
      if \<not> persist then (Inr out, w)
      else
        let (raw, w1) = sv_entropy svc w in
        (case generate_share_id raw of
           None \<Rightarrow> (Inl EntropyUnavailable, w1)
         | Some share \<Rightarrow>
             let data = (ou_data out)\<lparr>cd_share := share\<rparr>;
                 (ok, w2) = save_result svc \<lparr>st_share = share, st_cache = ci, st_result = r, st_data = data, st_created = sv_clock svc w1\<rparr> w1
             in if \<not> ok then (Inl (TypedFail (new_error ErrorInternal StageStore (pr_platform r) True)), w2)
                else (Inr (out\<lparr>ou_data := data\<rparr>),
                  (case sv_cache svc of None \<Rightarrow> w2 | Some c \<Rightarrow> pc_set_positive c ci r (sv_positive_ttl svc) w2))))"

text \<open>What is asked for: the URL, its descriptor, its canonical form and its place in the cache.\<close>
definition parse_target :: "'w service \<Rightarrow> idna \<Rightarrow> request \<Rightarrow> parse_error + (parser_request \<times> cache_identity)" where
  "parse_target svc idna req =
     rbind (extract_url (rq_url req)) (\<lambda>raw.
     rbind (or_error (new_error ErrorUnsupported StageInput [] False) (sv_resolver svc raw)) (\<lambda>d.
     rbind (canonicalize_url idna raw d) (\<lambda>canonical.
     rbind (or_error (new_error ErrorInternal StageCache (de_platform d) True)
         (new_cache_identity (first_non_empty [de_platform d, re_platform canonical, ''unknown'']) (re_url canonical)
           (sv_parser_version svc) (sv_schema_version svc))) (\<lambda>ci.
       Inr (\<lparr>pq_raw = raw, pq_canonical = canonical, pq_descriptor = d\<rparr>, ci)))))"

definition get_positive :: "'w service \<Rightarrow> bool \<Rightarrow> cache_identity \<Rightarrow> 'w \<Rightarrow> parse_result cache_answer \<times> 'w" where
  "get_positive svc force ci w =
     (case sv_cache svc of None \<Rightarrow> (Miss, w) | Some c \<Rightarrow> if force then (Miss, w) else pc_get_positive c ci w)"

definition get_negative :: "'w service \<Rightarrow> bool \<Rightarrow> cache_identity \<Rightarrow> 'w \<Rightarrow> parse_fail cache_answer \<times> 'w" where
  "get_negative svc force ci w =
     (case sv_cache svc of None \<Rightarrow> (Miss, w) | Some c \<Rightarrow> if force then (Miss, w) else pc_get_negative c ci w)"

text \<open>The function the flight runs.\<close>
definition flight :: "'w service \<Rightarrow> idna \<Rightarrow> bool \<Rightarrow> parser_request \<Rightarrow> cache_identity \<Rightarrow> 'w \<Rightarrow> (parse_fail + parse_output) \<times> 'w" where
  "flight svc idna force req ci w =
     (case get_positive svc force ci w of
        (Found r, w1) \<Rightarrow> output_from_result svc ci r False w1
      | (_, w1) \<Rightarrow>
          (case sv_parser svc req w1 of
             (Inl e, w2) \<Rightarrow>
               let t = classify e (de_platform (pq_descriptor req)) in
               (Inl (TypedFail t),
                case sv_cache svc of None \<Rightarrow> w2
                | Some c \<Rightarrow> if \<not> force \<and> negative_cacheable (class_of (Some (TypedFail t)))
                    then pc_set_negative c ci t (sv_negative_ttl svc) w2 else w2)
           | (Inr r0, w2) \<Rightarrow>
               let r = (if trim_space (pr_platform r0) = [] then r0\<lparr>pr_platform := de_platform (pq_descriptor req)\<rparr> else r0) in
               (case validate_media idna r of
                  Some e \<Rightarrow> (Inl (TypedFail e), w2)
                | None \<Rightarrow> output_from_result svc ci r True w2)))"

definition parse :: "'w service \<Rightarrow> idna \<Rightarrow> request \<Rightarrow> (parse_fail + parse_output) option \<Rightarrow> 'w \<Rightarrow> (parse_fail + parse_output) \<times> 'w" where
  "parse svc idna req joined w =
     (case parse_target svc idna req of
        Inl e \<Rightarrow> (Inl (TypedFail e), w)
      | Inr (pq, ci) \<Rightarrow>
          (case get_positive svc (rq_force req) ci w of
             (Found r, w1) \<Rightarrow> output_from_result svc ci r False w1
           | (_, w1) \<Rightarrow>
               (case get_negative svc (rq_force req) ci w1 of
                  (Found e, w2) \<Rightarrow> (Inl e, w2)
                | (_, w2) \<Rightarrow>
                    (case joined of
                       Some outcome \<Rightarrow> (outcome, w2)
                     | None \<Rightarrow> flight svc idna (rq_force req) pq ci w2))))"

definition parse_id :: "'w service \<Rightarrow> idna \<Rightarrow> id_request \<Rightarrow> 'w \<Rightarrow> (parse_fail + parse_output) \<times> 'w" where
  "parse_id svc idna req w =
     (case sv_id_parser svc of
        None \<Rightarrow> (Inl (TypedFail (new_error ErrorUnsupported StageInput [] False)), w)
      | Some parser \<Rightarrow>
          let source = to_lower (trim_space (iq_source req)); video = trim_space (iq_video req) in
          if source = [] \<or> video = [] then (Inl (TypedFail (new_error ErrorInvalidInput StageInput source False)), w)
          else (case parser source video w of
              (Inl e, w1) \<Rightarrow> (Inl (TypedFail (classify e source)), w1)
            | (Inr r0, w1) \<Rightarrow>
                let r = (if trim_space (pr_platform r0) = [] then r0\<lparr>pr_platform := source\<rparr> else r0) in
                (case validate_media idna r of
                   Some e \<Rightarrow> (Inl (TypedFail e), w1)
                 | None \<Rightarrow>
                     (case new_cache_identity source (''id/'' @ source @ ''/'' @ video) (sv_parser_version svc) (sv_schema_version svc) of
                        None \<Rightarrow> (Inl (TypedFail (new_error ErrorInternal StageCache source True)), w1)
                      | Some ci \<Rightarrow> output_from_result svc ci r True w1))))"

section \<open>The contract of the result cache\<close>

text \<open>
  A result cache answers under any key only results and failures it was once given; \<open>ok\<close> is what all
  the results it is given satisfy.
\<close>
locale parse_cache =
  fixes ops :: "'w parse_cache_ops" and inv :: "'w \<Rightarrow> bool" and ok :: "parse_result \<Rightarrow> bool"
  assumes get_positive: "inv w \<Longrightarrow> pc_get_positive ops ci w = (a, w') \<Longrightarrow> inv w' \<and> (\<forall>r. a = Found r \<longrightarrow> ok r)"
    and set_positive: "inv w \<Longrightarrow> ok r \<Longrightarrow> inv (pc_set_positive ops ci r ttl w)"
    and get_negative: "inv w \<Longrightarrow> pc_get_negative ops ci w = (b, w') \<Longrightarrow>
      inv w' \<and> (\<forall>e. b = Found e \<longrightarrow> negative_cacheable (class_of (Some e)))"
    and set_negative: "inv w \<Longrightarrow> negative_cacheable (pe_class e) \<Longrightarrow> inv (pc_set_negative ops ci e ttl w)"

text \<open>The contract of the other collaborators: they keep the invariant, and a parser's result has property \<open>good\<close>.\<close>
definition collaborators_ok :: "'w service \<Rightarrow> ('w \<Rightarrow> bool) \<Rightarrow> (parse_result \<Rightarrow> bool) \<Rightarrow> bool" where
  "collaborators_ok svc I good \<longleftrightarrow>
     (\<forall>req w x w'. I w \<longrightarrow> sv_parser svc req w = (x, w') \<longrightarrow> I w' \<and> (\<forall>r. x = Inr r \<longrightarrow> good r)) \<and>
     (\<forall>parser source video w x w'. sv_id_parser svc = Some parser \<longrightarrow> I w \<longrightarrow> parser source video w = (x, w') \<longrightarrow>
        I w' \<and> (\<forall>r. x = Inr r \<longrightarrow> good r)) \<and>
     (\<forall>save st w ok w'. sv_store svc = Some save \<longrightarrow> I w \<longrightarrow> save st w = (ok, w') \<longrightarrow> I w') \<and>
     (\<forall>w x w'. I w \<longrightarrow> sv_entropy svc w = (x, w') \<longrightarrow> I w')"

lemma collaboratorsD:
  assumes "collaborators_ok svc I good" and "I w"
  shows "sv_parser svc req w = (x, w') \<Longrightarrow> I w' \<and> (\<forall>r. x = Inr r \<longrightarrow> good r)"
    and "sv_id_parser svc = Some parser \<Longrightarrow> parser source video w = (x, w') \<Longrightarrow> I w' \<and> (\<forall>r. x = Inr r \<longrightarrow> good r)"
    and "sv_store svc = Some save \<Longrightarrow> save st w = (b, w') \<Longrightarrow> I w'"
    and "sv_entropy svc w = (y, w') \<Longrightarrow> I w'"
  using assms unfolding collaborators_ok_def by blast+

text \<open>A property of results that does not look at the platform.\<close>
definition platform_free :: "(parse_result \<Rightarrow> bool) \<Rightarrow> bool" where
  "platform_free good \<longleftrightarrow> (\<forall>r p. good (r\<lparr>pr_platform := p\<rparr>) = good r)"

lemma media_urls_platform [simp]: "media_urls (r\<lparr>pr_platform := p\<rparr>) = media_urls r"
  by (simp add: media_urls_def)

lemma validate_media_platform: "validate_media idna (r\<lparr>pr_platform := p\<rparr>) = None \<longleftrightarrow> validate_media idna r = None"
  by (simp add: validate_media_def Let_def)

text \<open>What the service promises of an outcome.\<close>
definition outcome_ok :: "(parse_result \<Rightarrow> bool) \<Rightarrow> parse_fail + parse_output \<Rightarrow> bool" where
  "outcome_ok ok x \<longleftrightarrow> (\<forall>out. x = Inr out \<longrightarrow> ok (ou_result out))"

lemma plain_output_result [simp]: "ou_result (plain_output ci r) = r"
  by (simp add: plain_output_def)

context parse_cache
begin

lemma output_ok:
  assumes "sv_cache svc = Some ops" and "collaborators_ok svc inv good" and "inv w" and "ok r"
    and "output_from_result svc ci r persist w = (x, w')"
  shows "inv w' \<and> outcome_ok ok x"
proof (cases persist)
  case False
  then show ?thesis using assms by (auto simp: output_from_result_def outcome_ok_def Let_def)
next
  case True
  obtain raw w1 where e: "sv_entropy svc w = (raw, w1)" by force
  have w1: "inv w1" by (rule collaboratorsD(4) [OF assms(2,3) e])
  show ?thesis
  proof (cases "generate_share_id raw")
    case None
    then show ?thesis using assms(5) True e w1 by (auto simp: output_from_result_def outcome_ok_def Let_def)
  next
    case (Some share)
    let ?data = "(ou_data (plain_output ci r))\<lparr>cd_share := share\<rparr>"
    obtain b w2 where s: "save_result svc \<lparr>st_share = share, st_cache = ci, st_result = r, st_data = ?data,
        st_created = sv_clock svc w1\<rparr> w1 = (b, w2)" by force
    have w2: "inv w2" using s w1 collaboratorsD(3) [OF assms(2) w1] by (cases "sv_store svc") (auto simp: save_result_def)
    have "output_from_result svc ci r True w =
        (if \<not> b then (Inl (TypedFail (new_error ErrorInternal StageStore (pr_platform r) True)), w2)
         else (Inr ((plain_output ci r)\<lparr>ou_data := ?data\<rparr>), pc_set_positive ops ci r (sv_positive_ttl svc) w2))"
      by (simp add: output_from_result_def e Some assms(1) s Let_def)
    then show ?thesis using assms(4,5) True w2 set_positive by (auto simp: outcome_ok_def split: if_splits)
  qed
qed

lemma get_positive_ok:
  assumes "sv_cache svc = Some ops" and "inv w" and "ParseService.get_positive svc force ci w = (a, w')"
  shows "inv w' \<and> (\<forall>r. a = Found r \<longrightarrow> ok r)"
  using assms get_positive [OF assms(2)] by (auto simp: ParseService.get_positive_def split: if_splits)

lemma get_negative_ok:
  assumes "sv_cache svc = Some ops" and "inv w" and "ParseService.get_negative svc force ci w = (a, w')"
  shows "inv w' \<and> (\<forall>e. a = Found e \<longrightarrow> negative_cacheable (class_of (Some e)))"
  using assms get_negative [OF assms(2)] by (auto simp: ParseService.get_negative_def split: if_splits)

lemma flight_ok:
  assumes "sv_cache svc = Some ops" and c: "collaborators_ok svc inv good" and "inv w"
    and ok: "\<And>r. good r \<Longrightarrow> validate_media idna r = None \<Longrightarrow> ok r" and free: "platform_free good"
    and "flight svc idna force req ci w = (x, w')"
  shows "inv w' \<and> outcome_ok ok x"
proof -
  obtain a w1 where g: "ParseService.get_positive svc force ci w = (a, w1)" by force
  note g' = get_positive_ok [OF assms(1,3) g]
  obtain y w2 where p: "sv_parser svc req w1 = (y, w2)" by force
  note p' = collaboratorsD(1) [OF c conjunct1 [OF g'] p]
  show ?thesis
  proof (cases "\<exists>r. a = Found r")
    case True
    then obtain r where "a = Found r" by blast
    then show ?thesis using output_ok [OF assms(1) c conjunct1 [OF g'], of r ci False x w'] g' assms(6) g by (simp add: flight_def)
  next
    case nohit: False
    show ?thesis
    proof (cases y)
      case (Inl e)
      then show ?thesis using assms(1,6) g nohit p p' set_negative
        by (cases a) (auto simp: flight_def Let_def outcome_ok_def class_of_def split: if_splits)
    next
      case (Inr r0)
      let ?r = "if trim_space (pr_platform r0) = [] then r0\<lparr>pr_platform := de_platform (pq_descriptor req)\<rparr> else r0"
      have good: "good ?r" using p' Inr free by (simp add: platform_free_def)
      have "flight svc idna force req ci w = (case validate_media idna ?r of
          Some e \<Rightarrow> (Inl (TypedFail e), w2) | None \<Rightarrow> output_from_result svc ci ?r True w2)"
        using g nohit p Inr by (cases a) (simp_all add: flight_def Let_def)
      then have eq: "(x, w') = (case validate_media idna ?r of
          Some e \<Rightarrow> (Inl (TypedFail e), w2) | None \<Rightarrow> output_from_result svc ci ?r True w2)" using assms(6) by simp
      show ?thesis
      proof (cases "validate_media idna ?r")
        case None
        then show ?thesis using output_ok [OF assms(1) c conjunct1 [OF p'] ok [OF good None] sym] eq by simp
      qed (use eq p' in \<open>simp add: outcome_ok_def\<close>)
    qed
  qed
qed

lemma parse_ok:
  assumes "sv_cache svc = Some ops" and c: "collaborators_ok svc inv good" and "inv w"
    and ok: "\<And>r. good r \<Longrightarrow> validate_media idna r = None \<Longrightarrow> ok r" and free: "platform_free good"
    and joined: "\<And>y. joined = Some y \<Longrightarrow> outcome_ok ok y"
    and "parse svc idna req joined w = (x, w')"
  shows "inv w' \<and> outcome_ok ok x"
proof (cases "parse_target svc idna req")
  case (Inl e)
  then show ?thesis using assms(3,7) by (auto simp: parse_def outcome_ok_def)
next
  case (Inr t)
  obtain pq ci where t: "parse_target svc idna req = Inr (pq, ci)" using Inr by (cases t) simp
  obtain a w1 where g: "ParseService.get_positive svc (rq_force req) ci w = (a, w1)" by force
  note g' = get_positive_ok [OF assms(1,3) g]
  obtain b w2 where n: "ParseService.get_negative svc (rq_force req) ci w1 = (b, w2)" by force
  note n' = get_negative_ok [OF assms(1) conjunct1 [OF g'] n]
  show ?thesis
  proof (cases "\<exists>r. a = Found r")
    case True
    then obtain r where r: "a = Found r" by blast
    then show ?thesis using output_ok [OF assms(1) c conjunct1 [OF g'], of r ci False x w'] g' assms(7) g t by (simp add: parse_def)
  next
    case nopos: False
    show ?thesis
    proof (cases "\<exists>e. b = Found e")
      case True
      then show ?thesis using assms(7) g t nopos n n' by (cases a) (auto simp: parse_def outcome_ok_def)
    next
      case False
      then have "parse svc idna req joined w = (case joined of Some y \<Rightarrow> (y, w2) | None \<Rightarrow> flight svc idna (rq_force req) pq ci w2)"
        using g t nopos n by (cases a; cases b) (simp_all add: parse_def)
      then show ?thesis using assms(7) joined n' flight_ok [OF assms(1) c conjunct1 [OF n'] ok free]
        by (cases joined) auto
    qed
  qed
qed

end

end
