(* ===== verification/JsonTree.thy ===== *)
theory JsonTree imports
  Json
begin

text \<open>
  Nested JSON documents: \<open>json.Marshal\<close> of a value as the text of a tree, and the round trip through the
  decoder for every tree whose strings are valid UTF-8 and whose numbers are integers.
\<close>

section \<open>Writing a tree\<close>

fun json_print :: "json \<Rightarrow> gostring" where
  "json_print JNull = ''null''"
| "json_print (JBool b) = (if b then ''true'' else ''false'')"
| "json_print (JNum s) = s"
| "json_print (JStr s) = json_quote s"
| "json_print (JArr vs) = ''['' @ join '','' (map json_print vs) @ '']''"
| "json_print (JObj kvs) = ''{'' @ join '','' (map (\<lambda>kv. json_quote (fst kv) @ '':'' @ json_print (snd kv)) kvs) @ ''}''"

text \<open>Valid UTF-8 strings.\<close>
function valid_utf8 :: "gostring \<Rightarrow> bool" where
  "valid_utf8 s = (if s = [] then True else if utf8_len s = 0 then False else valid_utf8 (drop (utf8_len s) s))"
  by pat_completeness auto
termination by (relation "measure length") auto

declare valid_utf8.simps [simp del]

text \<open>What reading a string in makes of it: every byte outside a valid encoding becomes U+FFFD.\<close>
function utf8_clean :: "gostring \<Rightarrow> gostring" where
  "utf8_clean s = (if s = [] then [] else if utf8_len s = 0 then [CHR 0xEF, CHR 0xBF, CHR 0xBD] @ utf8_clean (tl s)
     else take (utf8_len s) s @ utf8_clean (drop (utf8_len s) s))"
  by pat_completeness auto
termination by (relation "measure length") auto

declare utf8_clean.simps [simp del]

lemma utf8_clean_valid: "valid_utf8 s \<Longrightarrow> utf8_clean s = s"
proof (induction s rule: valid_utf8.induct)
  case (1 s)
  then show ?case
    by (cases "s = []") (simp_all add: utf8_clean.simps [of "[]"] utf8_clean.simps [of s] valid_utf8.simps [of s] split: if_splits)
qed

fun json_valid :: "json \<Rightarrow> bool" where
  "json_valid (JStr s) \<longleftrightarrow> valid_utf8 s"
| "json_valid (JArr vs) \<longleftrightarrow> (\<forall>v \<in> set vs. json_valid v)"
| "json_valid (JObj kvs) \<longleftrightarrow> (\<forall>kv \<in> set kvs. valid_utf8 (fst kv) \<and> json_valid (snd kv))"
| "json_valid _ \<longleftrightarrow> True"

fun json_ints :: "json \<Rightarrow> bool" where
  "json_ints (JNum s) \<longleftrightarrow> s \<in> range show_int"
| "json_ints (JArr vs) \<longleftrightarrow> (\<forall>v \<in> set vs. json_ints v)"
| "json_ints (JObj kvs) \<longleftrightarrow> (\<forall>kv \<in> set kvs. json_ints (snd kv))"
| "json_ints _ \<longleftrightarrow> True"

fun json_clean :: "json \<Rightarrow> json" where
  "json_clean (JStr s) = JStr (utf8_clean s)"
| "json_clean (JArr vs) = JArr (map json_clean vs)"
| "json_clean (JObj kvs) = JObj (map (\<lambda>kv. (utf8_clean (fst kv), json_clean (snd kv))) kvs)"
| "json_clean v = v"

lemma json_clean_valid: "json_valid v \<Longrightarrow> json_clean v = v"
proof (induction v)
  case (JObj kvs)
  have "(utf8_clean (fst kv), json_clean (snd kv)) = kv" if "kv \<in> set kvs" for kv
  proof -
    have "snd kv \<in> Basic_BNFs.snds kv" by (simp add: snds.simps)
    from JObj.IH [OF that this] JObj.prems that show ?thesis by (simp add: utf8_clean_valid)
  qed
  then show ?case by (simp add: map_idI)
next
  case (JArr vs)
  then show ?case by (simp add: map_idI)
qed (simp_all add: utf8_clean_valid)

section \<open>Strings\<close>

definition utf8_2 :: "gostring \<Rightarrow> bool" where
  "utf8_2 s \<longleftrightarrow> byte_in s 0 0xC2 0xDF \<and> byte_in s 1 0x80 0xBF"

definition utf8_3 :: "gostring \<Rightarrow> bool" where
  "utf8_3 s \<longleftrightarrow> ((byte_in s 0 0xE0 0xE0 \<and> byte_in s 1 0xA0 0xBF) \<or>
     (byte_in s 0 0xE1 0xEC \<and> byte_in s 1 0x80 0xBF) \<or>
     (byte_in s 0 0xED 0xED \<and> byte_in s 1 0x80 0x9F) \<or>
     (byte_in s 0 0xEE 0xEF \<and> byte_in s 1 0x80 0xBF)) \<and> byte_in s 2 0x80 0xBF"

definition utf8_4 :: "gostring \<Rightarrow> bool" where
  "utf8_4 s \<longleftrightarrow> ((byte_in s 0 0xF0 0xF0 \<and> byte_in s 1 0x90 0xBF) \<or>
     (byte_in s 0 0xF1 0xF3 \<and> byte_in s 1 0x80 0xBF) \<or>
     (byte_in s 0 0xF4 0xF4 \<and> byte_in s 1 0x80 0x8F)) \<and> byte_in s 2 0x80 0xBF \<and> byte_in s 3 0x80 0xBF"

lemma utf8_len_alt:
  "utf8_len s = (if byte_in s 0 0 127 then 1 else if utf8_2 s then 2 else if utf8_3 s then 3 else if utf8_4 s then 4 else 0)"
  unfolding utf8_len_def utf8_2_def utf8_3_def utf8_4_def by (rule refl)

lemma byte_in_length: "byte_in s i lo hi \<Longrightarrow> i < length s"
  by (simp add: byte_in_def)

lemma utf8_len_bound: "utf8_len s \<le> length s" "utf8_len s \<le> 4"
proof -
  have "utf8_2 s \<Longrightarrow> 1 < length s" unfolding utf8_2_def by (elim conjE, erule byte_in_length)
  moreover have "utf8_3 s \<Longrightarrow> 2 < length s" unfolding utf8_3_def by (drule conjunct2, erule byte_in_length)
  moreover have "utf8_4 s \<Longrightarrow> 3 < length s" unfolding utf8_4_def by (drule conjunct2, drule conjunct2, erule byte_in_length)
  moreover have "byte_in s 0 0 127 \<Longrightarrow> 0 < length s" by (rule byte_in_length)
  ultimately show "utf8_len s \<le> length s" by (auto simp: utf8_len_alt Suc_le_eq)
  show "utf8_len s \<le> 4" by (simp add: utf8_len_alt)
qed

text \<open>The length of an encoding depends on nothing after it.\<close>
lemma utf8_len_take:
  assumes "utf8_len s = n" and "n \<noteq> 0"
  shows "utf8_len (take n s @ r) = n"
proof -
  let ?x = "take n s @ r"
  have l: "n \<le> length s" using utf8_len_bound(1) [of s] assms(1) by simp
  have b: "byte_in ?x i lo hi = byte_in s i lo hi" if "i < n" for i lo hi
    using that l by (auto simp: byte_in_def nth_append)
  have b0: "byte_in ?x 0 0 127 = byte_in s 0 0 127" using b assms(2) by simp
  have b2: "2 \<le> n \<Longrightarrow> utf8_2 ?x = utf8_2 s" and b3: "3 \<le> n \<Longrightarrow> utf8_3 ?x = utf8_3 s" and b4: "4 \<le> n \<Longrightarrow> utf8_4 ?x = utf8_4 s"
    unfolding utf8_2_def utf8_3_def utf8_4_def by (simp_all add: b)
  show ?thesis using assms b0 b2 b3 b4 unfolding utf8_len_alt by (simp split: if_splits)
qed

lemma string_unit_chunk:
  assumes "utf8_len s = n" and "n \<noteq> 0" and "\<not> byte_val (hd s) < 128"
  shows "string_unit (take n s @ r) = Some (take n s, r)"
proof -
  obtain c t where s: "s = c # t" using assms(1,2) utf8_len_bound(1) [of s] by (cases s) simp_all
  obtain m where n: "n = Suc m" using assms(2) by (cases n) simp_all
  have c: "\<not> byte_val c < 128" using assms(3) s by simp
  then have "c \<noteq> CHR 0x5C" by auto
  moreover have "utf8_len (take n s @ r) = n" by (rule utf8_len_take [OF assms(1,2)])
  moreover have "length (take n s) = n" using utf8_len_bound(1) [of s] assms(1) by simp
  ultimately show ?thesis using c s n by (simp add: string_unit_def)
qed

lemma string_unit_separator:
  "string_unit (CHR 0x5C # ''u2028'' @ r) = Some ([CHR 0xE2, CHR 0x80, CHR 0xA8], r)"
  "string_unit (CHR 0x5C # ''u2029'' @ r) = Some ([CHR 0xE2, CHR 0x80, CHR 0xA9], r)"
  "string_unit (CHR 0x5C # ''ufffd'' @ r) = Some ([CHR 0xEF, CHR 0xBF, CHR 0xBD], r)"
  by (simp_all add: string_unit_def unescape_def hex4_def hex_val_def utf8_encode_def) code_simp+

lemma scan_string_step:
  assumes "string_unit x = Some (u, r)" and "x \<noteq> []" and "hd x \<noteq> CHR 0x22" and "length r < length x" and "scan_string r = Some (s, r')"
  shows "scan_string x = Some (u @ s, r')"
  using assms by (subst scan_string.simps) simp

lemma utf8_first_ascii: "byte_val c < 128 \<Longrightarrow> utf8_len (c # s) = 1"
  by (rule utf8_len_ascii)

lemma json_escape_step:
  "json_escape (c # t) =
     (if byte_val c < 128 then escape_ascii c @ json_escape t
      else if utf8_len (c # t) = 0 then CHR 0x5C # ''ufffd'' @ json_escape t
      else if take 3 (c # t) = [CHR 0xE2, CHR 0x80, CHR 0xA8] then CHR 0x5C # ''u2028'' @ json_escape (drop 2 t)
      else if take 3 (c # t) = [CHR 0xE2, CHR 0x80, CHR 0xA9] then CHR 0x5C # ''u2029'' @ json_escape (drop 2 t)
      else take (utf8_len (c # t)) (c # t) @ json_escape (drop (utf8_len (c # t) - 1) t))"
  by (subst json_escape.simps) (simp only: list.case)

lemma scan_string_utf8: "scan_string (json_escape s @ CHR 0x22 # r) = Some (utf8_clean s, r)"
proof (induction s rule: json_escape.induct)
  case (1 s)
  show ?case
  proof (cases s)
    case Nil
    then show ?thesis by (simp add: scan_string.simps [of "CHR 0x22 # r"] json_escape.simps utf8_clean.simps)
  next
    case (Cons c t)
    let ?n = "utf8_len s"
    have ne: "s \<noteq> []" using Cons by simp
    show ?thesis
    proof (cases "byte_val c < 128")
      case True
      then have t: "utf8_clean s = c # utf8_clean t" using Cons utf8_len_ascii [OF True, of t] by (simp add: utf8_clean.simps [of "c # t"])
      have e: "json_escape s = escape_ascii c @ json_escape t" using Cons True by (subst json_escape.simps) simp
      have "scan_string (escape_ascii c @ json_escape t @ CHR 0x22 # r) = Some ([c] @ utf8_clean t, r)"
        by (rule scan_string_step [OF string_unit_escape [OF True]])
          (use escape_no_quote [of c] "1.IH"(1) [OF Cons True] in \<open>simp_all add: hd_append\<close>)
      then show ?thesis unfolding e t by simp
    next
      case high: False
      show ?thesis
      proof (cases "?n = 0")
        case True
        have e: "json_escape s = CHR 0x5C # ''ufffd'' @ json_escape t"
          using json_escape_step [of c t] unfolding Cons [symmetric] by (simp only: high True if_False) simp
        have "utf8_clean s = [CHR 0xEF, CHR 0xBF, CHR 0xBD] @ utf8_clean t"
          using ne True Cons by (simp add: utf8_clean.simps [of "c # t"])
        moreover have "scan_string (CHR 0x5C # ''ufffd'' @ json_escape t @ CHR 0x22 # r) = Some ([CHR 0xEF, CHR 0xBF, CHR 0xBD] @ utf8_clean t, r)"
          by (rule scan_string_step [OF string_unit_separator(3)]) (use "1.IH"(2) [OF Cons high True] in simp_all)
        ultimately show ?thesis unfolding e by simp
      next
        case n: False
      note False = high
      have clean: "utf8_clean s = take ?n s @ utf8_clean (drop ?n s)" using ne n by (simp add: utf8_clean.simps [of s])
      have q: "c \<noteq> CHR 0x22" using False by auto
      have len: "?n \<le> length s" by (rule utf8_len_bound(1))
      consider (ls) "take 3 s = [CHR 0xE2, CHR 0x80, CHR 0xA8]" | (ps) "take 3 s = [CHR 0xE2, CHR 0x80, CHR 0xA9]"
        | (other) "take 3 s \<noteq> [CHR 0xE2, CHR 0x80, CHR 0xA8]" "take 3 s \<noteq> [CHR 0xE2, CHR 0x80, CHR 0xA9]" by blast
      then show ?thesis
      proof cases
        case other
        have e: "json_escape s = take ?n s @ json_escape (drop (?n - 1) t)"
          using json_escape_step [of c t] unfolding Cons [symmetric] by (simp only: False n other if_False)
        obtain m where m: "?n = Suc m" using n by (cases ?n) simp_all
        have d: "drop ?n s = drop (?n - 1) t" using m Cons by simp
        have "scan_string (take ?n s @ json_escape (drop (?n - 1) t) @ CHR 0x22 # r) = Some (take ?n s @ utf8_clean (drop (?n - 1) t), r)"
        proof (rule scan_string_step [OF string_unit_chunk [OF refl n]])
          show "\<not> byte_val (hd s) < 128" using Cons False by simp
          show "scan_string (json_escape (drop (?n - 1) t) @ CHR 0x22 # r) = Some (utf8_clean (drop (?n - 1) t), r)"
            by (rule "1.IH"(5) [OF Cons False n other])
        qed (use m Cons q in simp_all)
        then show ?thesis unfolding e clean d by simp
      next
        case ls
        then obtain u where u: "s = [CHR 0xE2, CHR 0x80, CHR 0xA8] @ u" by (metis append_take_drop_id)
        have "utf8_len s = 3" by (simp add: u utf8_len_def byte_in_def)
        then have cu: "utf8_clean s = [CHR 0xE2, CHR 0x80, CHR 0xA8] @ utf8_clean u" using clean u by simp
        have d: "drop 2 t = u" using u Cons by auto
        have e: "json_escape s = CHR 0x5C # ''u2028'' @ json_escape (drop 2 t)"
          using json_escape_step [of c t] unfolding Cons [symmetric] by (simp only: False n ls if_False) simp
        have "scan_string (json_escape (drop 2 t) @ CHR 0x22 # r) = Some (utf8_clean u, r)"
          using "1.IH"(3) [OF Cons False n ls] d by simp
        then have "scan_string (CHR 0x5C # ''u2028'' @ json_escape (drop 2 t) @ CHR 0x22 # r) = Some ([CHR 0xE2, CHR 0x80, CHR 0xA8] @ utf8_clean u, r)"
          by (intro scan_string_step [OF string_unit_separator(1)]) simp_all
        then show ?thesis unfolding e cu by simp
      next
        case ps
        then obtain u where u: "s = [CHR 0xE2, CHR 0x80, CHR 0xA9] @ u" by (metis append_take_drop_id)
        have "utf8_len s = 3" by (simp add: u utf8_len_def byte_in_def)
        then have cu: "utf8_clean s = [CHR 0xE2, CHR 0x80, CHR 0xA9] @ utf8_clean u" using clean u by simp
        have nl: "take 3 s \<noteq> [CHR 0xE2, CHR 0x80, CHR 0xA8]" using ps by simp
        have d: "drop 2 t = u" using u Cons by auto
        have e: "json_escape s = CHR 0x5C # ''u2029'' @ json_escape (drop 2 t)"
          using json_escape_step [of c t] unfolding Cons [symmetric] by (simp only: False n ps if_False) simp
        have "scan_string (json_escape (drop 2 t) @ CHR 0x22 # r) = Some (utf8_clean u, r)"
          using "1.IH"(4) [OF Cons False n nl ps] d by simp
        then have "scan_string (CHR 0x5C # ''u2029'' @ json_escape (drop 2 t) @ CHR 0x22 # r) = Some ([CHR 0xE2, CHR 0x80, CHR 0xA9] @ utf8_clean u, r)"
          by (intro scan_string_step [OF string_unit_separator(2)]) simp_all
        then show ?thesis unfolding e cu by simp
      qed
      qed
    qed
  qed
qed

section \<open>Numbers\<close>

text \<open>What may follow a number.\<close>
definition json_end :: "gostring \<Rightarrow> bool" where
  "json_end r \<longleftrightarrow> r = [] \<or> hd r \<in> set '',]}''"

lemma json_end_simps [simp]: "json_end []" "json_end (CHR '','' # r)" "json_end (CHR '']'' # r)" "json_end (CHR ''}'' # r)"
  by (simp_all add: json_end_def)

lemma scan_int_part_end:
  assumes "0 \<le> n" and "json_end r"
  shows "scan_int_part (int_digits n @ r) = Some (int_digits n, r)"
proof -
  obtain d ds where ds: "int_digits n = d # ds" "is_digit d" "list_all is_digit ds"
    using digits_all [OF assms(1)] by (cases "int_digits n") auto
  have r: "takeWhile is_digit r = []" "dropWhile is_digit r = r"
    using assms(2) by (cases r; auto simp: json_end_def is_digit_def)+
  show ?thesis
  proof (cases "d = CHR ''0''")
    case True
    then have "n = 0" using dec_digits_hd [of "nat n"] ds(1) assms(1) by (simp add: int_digits_dec)
    moreover have "int_digits 0 = ''0''" by code_simp
    ultimately have "int_digits n = ''0''" by simp
    then show ?thesis by (simp add: scan_int_part_def)
  next
    case False
    have "takeWhile is_digit (ds @ r) = ds" "dropWhile is_digit (ds @ r) = r"
      using ds(3) r by (simp_all add: takeWhile_append2 dropWhile_append2 list_all_iff)
    then show ?thesis using False ds by (simp add: scan_int_part_def digits_of_def)
  qed
qed

lemma scan_number_end:
  assumes "json_end r"
  shows "scan_number (show_int n @ r) = Some (show_int n, r)"
proof -
  have f: "scan_frac r = Some ([], r)" "scan_exp r = Some ([], r)"
    using assms by (cases r; auto simp: json_end_def scan_frac_def scan_exp_def has_prefix_def)+
  have nd: "\<not> has_prefix (int_digits m @ r) ''-''" if "0 \<le> m" for m
    using digits_all [OF that] by (cases "int_digits m") (auto simp: has_prefix_def is_digit_def)
  show ?thesis
  proof (cases "n < 0")
    case True
    then show ?thesis using scan_int_part_end [of "- n", OF _ assms] f
      by (simp add: scan_number_def show_int_def has_prefix_def)
  next
    case False
    then show ?thesis using scan_int_part_end [of n, OF _ assms] f nd [of n]
      by (simp add: scan_number_def show_int_def)
  qed
qed

lemma show_int_head: "\<exists>c x. show_int i = c # x \<and> (c = CHR ''-'' \<or> is_digit c)"
proof (cases "i < 0")
  case False
  then obtain d ds where "int_digits i = d # ds" "is_digit d" using digits_all [of i] by (cases "int_digits i") auto
  then show ?thesis using False by (simp add: show_int_def)
qed (simp add: show_int_def)

section \<open>Round trip\<close>

text \<open>The fuel a tree needs.\<close>
fun json_size :: "json \<Rightarrow> nat" where
  "json_size (JArr vs) = 2 + sum_list (map (\<lambda>v. Suc (json_size v)) vs)"
| "json_size (JObj kvs) = 2 + sum_list (map (\<lambda>kv. Suc (json_size (snd kv))) kvs)"
| "json_size _ = 1"

lemma no_ws: "\<not> json_space c \<Longrightarrow> skip_ws (c # x) = c # x"
  by simp

lemma print_head: "json_ints v \<Longrightarrow> \<exists>c x. json_print v = c # x \<and> \<not> json_space c \<and> c \<noteq> CHR '']'' \<and> c \<noteq> CHR ''}''"
proof (cases v)
  case (JNum s)
  assume "json_ints v"
  then obtain i where "s = show_int i" using JNum by auto
  then show ?thesis using show_int_head [of i] JNum by (auto simp: json_space_def is_digit_def)
qed (auto simp: json_space_def json_quote_def)

definition scans :: "nat \<Rightarrow> json \<Rightarrow> bool" where
  "scans n v \<longleftrightarrow> (\<forall>r. json_end r \<longrightarrow> scan_value n (json_print v @ r) = Some (json_clean v, r))"

lemma scans_number: "scans (Suc n) (JNum (show_int i))"
  unfolding scans_def
proof (intro allI impI)
  fix r assume r: "json_end r"
  obtain c x where s: "show_int i = c # x" "c = CHR ''-'' \<or> is_digit c" using show_int_head by blast
  have "skip_ws (c # y) = c # y" "c \<noteq> CHR 0x22" "c \<noteq> CHR ''[''" "c \<noteq> CHR ''{''"
    "\<not> has_prefix (c # y) ''null''" "\<not> has_prefix (c # y) ''true''" "\<not> has_prefix (c # y) ''false''" for y
    using s(2) by (auto simp: json_space_def is_digit_def has_prefix_def)
  then have "scan_value (Suc n) (c # y) = map_option (apfst JNum) (scan_number (c # y))" for y by (simp del: dropWhile.simps)
  then show "scan_value (Suc n) (json_print (JNum (show_int i)) @ r) = Some (json_clean (JNum (show_int i)), r)"
    using s(1) scan_number_end [OF r, of i] by simp
qed

lemma scans_atoms: "scans (Suc n) JNull" "scans (Suc n) (JBool b)" "scans (Suc n) (JStr s)"
  by (auto simp: scans_def json_space_def has_prefix_def json_quote_def scan_string_utf8)

lemma scan_elements_print:
  assumes "vs \<noteq> []" and "\<And>v m. v \<in> set vs \<Longrightarrow> json_size v \<le> m \<Longrightarrow> scans m v"
    and "sum_list (map (\<lambda>v. Suc (json_size v)) vs) \<le> n"
  shows "scan_elements n (join '','' (map json_print vs) @ CHR '']'' # r) = Some (map json_clean vs, r)"
  using assms
proof (induction vs arbitrary: n)
  case (Cons v vs)
  obtain m where n: "n = Suc m" using Cons.prems(3) by (cases n) auto
  have v: "scans m v" using Cons.prems(2,3) n by simp
  have ws: "skip_ws (CHR '','' # x) = CHR '','' # x" "skip_ws (CHR '']'' # x) = CHR '']'' # x" for x by (simp_all add: json_space_def)
  show ?case
  proof (cases "vs = []")
    case True
    then show ?thesis using v by (simp add: n scans_def ws del: dropWhile.simps)
  next
    case False
    have j: "join '','' (map json_print (v # vs)) @ CHR '']'' # r = json_print v @ CHR '','' # join '','' (map json_print vs) @ CHR '']'' # r"
      using False by (cases vs) simp_all
    have "scan_elements m (join '','' (map json_print vs) @ CHR '']'' # r) = Some (map json_clean vs, r)"
      by (rule Cons.IH [OF False]) (use Cons.prems n in auto)
    then show ?thesis unfolding j using v by (simp add: n scans_def ws del: dropWhile.simps)
  qed
qed simp

lemma scan_members_print:
  assumes "kvs \<noteq> []" and "\<And>kv m. kv \<in> set kvs \<Longrightarrow> json_size (snd kv) \<le> m \<Longrightarrow> scans m (snd kv)"
    and "sum_list (map (\<lambda>kv. Suc (json_size (snd kv))) kvs) \<le> n"
  shows "scan_members n (join '','' (map (\<lambda>kv. json_quote (fst kv) @ '':'' @ json_print (snd kv)) kvs) @ CHR ''}'' # r) = Some (map (\<lambda>kv. (utf8_clean (fst kv), json_clean (snd kv))) kvs, r)"
  using assms
proof (induction kvs arbitrary: n)
  case (Cons kv kvs)
  let ?p = "\<lambda>kv. json_quote (fst kv) @ '':'' @ json_print (snd kv)"
  obtain k v where kv: "kv = (k, v)" by (cases kv)
  obtain m where n: "n = Suc m" using Cons.prems(3) by (cases n) auto
  have v: "scans m v" using Cons.prems(2) [of kv m] Cons.prems(3) n kv by simp
  have ws: "skip_ws (c # x) = c # x" if "c \<in> {CHR 0x22, CHR '':'', CHR '','', CHR ''}''}" for c x
    using that by (auto simp: json_space_def)
  let ?tail = "if kvs = [] then CHR ''}'' # r else CHR '','' # join '','' (map ?p kvs) @ CHR ''}'' # r"
  have j: "join '','' (map ?p (kv # kvs)) @ CHR ''}'' # r = CHR 0x22 # json_escape k @ CHR 0x22 # CHR '':'' # json_print v @ ?tail"
    by (cases kvs) (simp_all add: kv json_quote_def)
  have sv: "scan_value m (json_print v @ ?tail) = Some (json_clean v, ?tail)" using v by (simp add: scans_def)
  show ?case
  proof (cases "kvs = []")
    case True
    then show ?thesis unfolding j using scan_string_utf8 [of k] sv by (simp add: n ws kv del: dropWhile.simps)
  next
    case False
    have "scan_members m (join '','' (map ?p kvs) @ CHR ''}'' # r) = Some (map (\<lambda>kv. (utf8_clean (fst kv), json_clean (snd kv))) kvs, r)"
      by (rule Cons.IH [OF False]) (use Cons.prems n in auto)
    then show ?thesis unfolding j using False scan_string_utf8 [of k] sv by (simp add: n ws kv del: dropWhile.simps)
  qed
qed simp

lemma join_head: "ws \<noteq> [] \<Longrightarrow> hd ws = c # x \<Longrightarrow> \<exists>y. join sep ws = c # y"
  by (cases ws; cases "tl ws") auto

lemma scans_print: "json_ints v \<Longrightarrow> json_size v \<le> n \<Longrightarrow> scans n v"
proof (induction v arbitrary: n)
  case (JArr vs)
  obtain m where n: "n = Suc m" using JArr.prems(2) by (cases n) auto
  have op: "skip_ws (CHR ''['' # x) = CHR ''['' # x" for x by (simp add: json_space_def)
  show ?case
  proof (cases "vs = []")
    case True
    then show ?thesis by (auto simp: n scans_def json_space_def has_prefix_def)
  next
    case False
    then obtain c x where h: "hd (map json_print vs) = c # x" "\<not> json_space c" "c \<noteq> CHR '']''"
      using print_head [of "hd vs"] JArr.prems(1) by (auto simp: hd_map)
    then obtain y where y: "join '','' (map json_print vs) = c # y" using join_head [of "map json_print vs" c x] False by auto
    have e: "scan_elements m (join '','' (map json_print vs) @ CHR '']'' # r) = Some (map json_clean vs, r)" for r
      by (rule scan_elements_print [OF False]) (use JArr n in auto)
    have "\<not> has_prefix (skip_ws (join '','' (map json_print vs) @ CHR '']'' # r)) '']''" for r
      unfolding y using h by (simp add: has_prefix_def)
    then show ?thesis using e by (simp add: scans_def n op del: dropWhile.simps)
  qed
next
  case (JObj kvs)
  let ?p = "\<lambda>kv. json_quote (fst kv) @ '':'' @ json_print (snd kv)"
  obtain m where n: "n = Suc m" using JObj.prems(2) by (cases n) auto
  have op: "skip_ws (CHR ''{'' # x) = CHR ''{'' # x" for x by (simp add: json_space_def)
  show ?case
  proof (cases "kvs = []")
    case True
    then show ?thesis by (auto simp: n scans_def json_space_def has_prefix_def)
  next
    case False
    then obtain x where "hd (map ?p kvs) = CHR 0x22 # x" by (auto simp: hd_map json_quote_def)
    then obtain y where y: "join '','' (map ?p kvs) = CHR 0x22 # y" using join_head [of "map ?p kvs" "CHR 0x22" x] False by auto
    have ih: "scans i (snd kv)" if "kv \<in> set kvs" "json_size (snd kv) \<le> i" for kv i
      by (rule JObj.IH [of kv "snd kv"]) (use that JObj.prems in \<open>auto simp: snds.simps\<close>)
    have e: "scan_members m (join '','' (map ?p kvs) @ CHR ''}'' # r) = Some (map (\<lambda>kv. (utf8_clean (fst kv), json_clean (snd kv))) kvs, r)" for r
      by (rule scan_members_print [OF False]) (use ih JObj.prems n in auto)
    have "\<not> has_prefix (skip_ws (join '','' (map ?p kvs) @ CHR ''}'' # r)) ''}''" for r
      unfolding y by (simp add: has_prefix_def json_space_def)
    then show ?thesis using e by (simp add: scans_def n op del: dropWhile.simps)
  qed
next
  case (JNum s)
  obtain m where "n = Suc m" using JNum.prems(2) by (cases n) auto
  then show ?case using scans_number JNum.prems(1) by auto
next
  case JNull
  then show ?case using scans_atoms(1) by (cases n) simp_all
next
  case (JBool b)
  then show ?case using scans_atoms(2) by (cases n) simp_all
next
  case (JStr s)
  then show ?case using scans_atoms(3) [of _ s] by (cases n) simp_all
qed

lemma print_length: "json_ints v \<Longrightarrow> json_size v \<le> 2 * length (json_print v)"
proof (induction v)
  case (JArr vs)
  have "\<forall>v \<in> set vs. json_size v \<le> 2 * length (json_print v)" using JArr by simp
  then have "sum_list (map (\<lambda>v. Suc (json_size v)) vs) \<le> 2 * length (join '','' (map json_print vs)) + 2"
  proof (induction vs)
    case (Cons v vs)
    then show ?case by (cases vs) auto
  qed simp
  then show ?case by simp
next
  case (JObj kvs)
  let ?p = "\<lambda>kv. json_quote (fst kv) @ '':'' @ json_print (snd kv)"
  have "\<forall>kv \<in> set kvs. json_size (snd kv) \<le> 2 * length (json_print (snd kv))"
    using JObj by (auto simp: snds.simps)
  then have "sum_list (map (\<lambda>kv. Suc (json_size (snd kv))) kvs) \<le> 2 * length (join '','' (map ?p kvs)) + 2"
  proof (induction kvs)
    case (Cons kv kvs)
    then show ?case by (cases kvs) (auto simp: json_quote_def)
  qed simp
  then show ?case by simp
next
  case (JNum s)
  then obtain i where "s = show_int i" by auto
  then show ?case using show_int_head [of i] by auto
qed (simp_all add: json_quote_def)

text \<open>
  Encoding loses nothing: for any nesting of objects, arrays, strings and integers, decoding the JSON
  text gives the document back - exactly when its strings are valid UTF-8 (with quotes, control and HTML
  characters escaped and restored), and otherwise with U+FFFD in place of the bytes that are not.
\<close>
lemma json_roundtrip:
  assumes "json_ints v"
  shows "json_decode (json_print v) = Some (json_clean v) \<and> (json_valid v \<longrightarrow> json_clean v = v)"
proof
  have "scans (2 * length (json_print v) + 2) v" using scans_print [OF assms] print_length [OF assms] by simp
  then have "scan_value (2 * length (json_print v) + 2) (json_print v) = Some (json_clean v, [])"
    unfolding scans_def by (metis append_Nil2 json_end_simps(1))
  then show "json_decode (json_print v) = Some (json_clean v)" by (simp add: json_decode_def)
qed (simp add: json_clean_valid)

end
