(* ===== verification/RuntimeCache.thy ===== *)
theory RuntimeCache imports
  ParseService
  JsonTree
begin

text \<open>
  \<open>internal/app/runtime_cache.go\<close>: the result cache of the parse use case, JSON records in the two-tier
  byte cache.  The world is the pair of tiers with the clock.  An empty slice is written like a nil one
  (\<open>null\<close>); both read back as empty.
\<close>

section \<open>Records as JSON\<close>

definition error_class_text :: "error_class \<Rightarrow> gostring" where
  "error_class_text c = (case c of ErrorInvalidInput \<Rightarrow> ''invalid_input'' | ErrorUnsupported \<Rightarrow> ''unsupported''
     | ErrorCredentialRequired \<Rightarrow> ''credential_required'' | ErrorUpstreamTimeout \<Rightarrow> ''upstream_timeout''
     | ErrorUpstreamBlocked \<Rightarrow> ''upstream_blocked'' | ErrorEmptyMedia \<Rightarrow> ''empty_media''
     | ErrorSchemaChanged \<Rightarrow> ''schema_changed'' | ErrorInternal \<Rightarrow> ''internal'' | ErrorCanceled \<Rightarrow> ''canceled''
     | ErrorSecurityRejected \<Rightarrow> ''security_rejected'' | ErrorOtherClass s \<Rightarrow> s)"

definition stage_text :: "stage \<Rightarrow> gostring" where
  "stage_text s = (case s of StageInput \<Rightarrow> ''input'' | StageCache \<Rightarrow> ''cache'' | StageParser \<Rightarrow> ''parser''
     | StageUpstream \<Rightarrow> ''upstream'' | StageStore \<Rightarrow> ''store'' | StageNormalize \<Rightarrow> ''normalize'' | StageOther t \<Rightarrow> t)"

definition text_class :: "gostring \<Rightarrow> error_class" where
  "text_class s = (case find (\<lambda>c. error_class_text c = s) [ErrorInvalidInput, ErrorUnsupported, ErrorCredentialRequired,
       ErrorUpstreamTimeout, ErrorUpstreamBlocked, ErrorEmptyMedia, ErrorSchemaChanged, ErrorInternal, ErrorCanceled,
       ErrorSecurityRejected] of Some c \<Rightarrow> c | None \<Rightarrow> ErrorOtherClass s)"

definition text_stage :: "gostring \<Rightarrow> stage" where
  "text_stage s = (case find (\<lambda>c. stage_text c = s) [StageInput, StageCache, StageParser, StageUpstream, StageStore,
       StageNormalize] of Some c \<Rightarrow> c | None \<Rightarrow> StageOther s)"

definition omit_empty :: "gostring \<Rightarrow> gostring \<Rightarrow> (gostring \<times> json) list" where
  "omit_empty k s = (if s = [] then [] else [(k, JStr s)])"

definition image_json :: "image_asset \<Rightarrow> json" where
  "image_json i = JObj ((''url'', JStr (im_url i)) # omit_empty ''livePhotoUrl'' (im_live i))"

definition result_json :: "parse_result \<Rightarrow> json" where
  "result_json r = JObj [(''Platform'', JStr (pr_platform r)), (''Type'', JStr (pr_type r)), (''Title'', JStr (pr_title r)),
     (''Description'', JStr (pr_description r)), (''VideoURL'', JStr (pr_video r)), (''AudioURL'', JStr (pr_audio r)),
     (''CoverURL'', JStr (pr_cover r)), (''PreviewURL'', JStr (pr_preview r)), (''M3U8URL'', JStr (pr_m3u8 r)),
     (''Author'', JObj (omit_empty ''uid'' (pr_author_uid r) @ omit_empty ''name'' (pr_author_name r) @
        omit_empty ''avatar'' (pr_author_avatar r))),
     (''Images'', if pr_images r = [] then JNull else JArr (map image_json (pr_images r))),
     (''Duration'', JNum (show_int (pr_duration r)))]"

definition error_json :: "parse_error \<Rightarrow> json" where
  "error_json e = JObj [(''class'', JStr (error_class_text (pe_class e))), (''stage'', JStr (stage_text (pe_stage e))),
     (''platform'', JStr (pe_platform e)), (''retryable'', JBool (pe_retryable e))]"

definition zero_result :: parse_result where
  "zero_result = \<lparr>pr_platform = [], pr_type = [], pr_title = [], pr_description = [], pr_video = [], pr_audio = [],
     pr_cover = [], pr_preview = [], pr_m3u8 = [], pr_author_uid = [], pr_author_name = [], pr_author_avatar = [],
     pr_images = [], pr_duration = 0\<rparr>"

record cache_record =
  rr_schema :: gostring
  rr_result :: parse_result
  rr_error :: "parse_error option"

definition cache_schema :: gostring where
  "cache_schema = ''runtime-parse-cache/v1''"

text \<open>\<open>omitempty\<close> drops the nil pointer, never the struct.\<close>
definition record_json :: "cache_record \<Rightarrow> json" where
  "record_json c = JObj ([(''schemaVersion'', JStr (rr_schema c)), (''result'', result_json (rr_result c))] @
     (case rr_error c of None \<Rightarrow> [] | Some e \<Rightarrow> [(''error'', error_json e)]))"

section \<open>Reading them\<close>

text \<open>The members of a struct field: a repeated object is merged into the first.\<close>
definition object_field :: "gostring \<Rightarrow> (gostring \<times> json) list \<Rightarrow> (gostring \<times> json) list option" where
  "object_field name kvs = map_option concat (those (map (\<lambda>v. case v of JObj m \<Rightarrow> Some m | _ \<Rightarrow> None) (field_values name kvs)))"

definition bool_field :: "gostring \<Rightarrow> (gostring \<times> json) list \<Rightarrow> bool option" where
  "bool_field name kvs =
     (let vs = field_values name kvs in
      if list_ex (\<lambda>v. case v of JBool _ \<Rightarrow> False | _ \<Rightarrow> True) vs then None
      else Some (vs \<noteq> [] \<and> last vs = JBool True))"

definition image_decode :: "json \<Rightarrow> image_asset option" where
  "image_decode v = (case v of
     JNull \<Rightarrow> Some \<lparr>im_url = [], im_live = []\<rparr>
   | JObj kvs \<Rightarrow> (case (string_field ''url'' kvs, string_field ''livePhotoUrl'' kvs) of
        (Some u, Some l) \<Rightarrow> Some \<lparr>im_url = u, im_live = l\<rparr> | _ \<Rightarrow> None)
   | _ \<Rightarrow> None)"

text \<open>A slice: the last occurrence counts, null empties it.\<close>
definition images_field :: "gostring \<Rightarrow> (gostring \<times> json) list \<Rightarrow> image_asset list option" where
  "images_field name kvs =
     map_option (\<lambda>xss. if xss = [] then [] else last xss)
       (those (map (\<lambda>v. case v of JNull \<Rightarrow> Some [] | JArr vs \<Rightarrow> those (map image_decode vs) | _ \<Rightarrow> None)
          (map snd (filter (\<lambda>kv. equal_fold (fst kv) name) kvs))))"

definition result_decode :: "(gostring \<times> json) list \<Rightarrow> parse_result option" where
  "result_decode kvs =
     (case (those (map (\<lambda>k. string_field k kvs) [''Platform'', ''Type'', ''Title'', ''Description'', ''VideoURL'', ''AudioURL'',
          ''CoverURL'', ''PreviewURL'', ''M3U8URL'']), object_field ''Author'' kvs, images_field ''Images'' kvs, int_field ''Duration'' kvs) of
        (Some [p, ty, ti, de, vi, au, co, pv, m3], Some a, Some im, Some du) \<Rightarrow>
          (case (string_field ''uid'' a, string_field ''name'' a, string_field ''avatar'' a) of
             (Some uid, Some nm, Some av) \<Rightarrow> Some \<lparr>pr_platform = p, pr_type = ty, pr_title = ti, pr_description = de, pr_video = vi,
                pr_audio = au, pr_cover = co, pr_preview = pv, pr_m3u8 = m3, pr_author_uid = uid, pr_author_name = nm,
                pr_author_avatar = av, pr_images = im, pr_duration = du\<rparr>
           | _ \<Rightarrow> None)
      | _ \<Rightarrow> None)"

definition error_decode :: "(gostring \<times> json) list \<Rightarrow> parse_error option" where
  "error_decode kvs =
     (case (string_field ''class'' kvs, string_field ''stage'' kvs, string_field ''platform'' kvs, bool_field ''retryable'' kvs) of
        (Some c, Some s, Some p, Some b) \<Rightarrow> Some \<lparr>pe_class = text_class c, pe_stage = text_stage s, pe_platform = p, pe_retryable = b\<rparr>
      | _ \<Rightarrow> None)"

text \<open>A pointer: null makes it nil again.\<close>
definition error_field :: "gostring \<Rightarrow> (gostring \<times> json) list \<Rightarrow> parse_error option option" where
  "error_field name kvs =
     (let vs = map snd (filter (\<lambda>kv. equal_fold (fst kv) name) kvs) in
      case those (map (\<lambda>v. case v of JNull \<Rightarrow> Some None | JObj m \<Rightarrow> Some (Some m) | _ \<Rightarrow> None) vs) of
        None \<Rightarrow> None
      | Some ms \<Rightarrow>
          (case fold (\<lambda>m acc. case m of None \<Rightarrow> None | Some x \<Rightarrow> Some ((case acc of None \<Rightarrow> [] | Some y \<Rightarrow> y) @ x)) ms None of
             None \<Rightarrow> Some None
           | Some m \<Rightarrow> map_option Some (error_decode m)))"

definition record_decode :: "gostring \<Rightarrow> cache_record option" where
  "record_decode raw =
     (case decode_members raw of
        None \<Rightarrow> None
      | Some kvs \<Rightarrow>
          (case (string_field ''schemaVersion'' kvs, Option.bind (object_field ''result'' kvs) result_decode, error_field ''error'' kvs) of
             (Some s, Some r, Some e) \<Rightarrow> Some \<lparr>rr_schema = s, rr_result = r, rr_error = e\<rparr>
           | _ \<Rightarrow> None))"

section \<open>The cache\<close>

text \<open>The tiers and the time.\<close>
record ('p, 'f) cache_world =
  cw_now :: gotime
  cw_tiers :: "'p \<times> 'f"

definition runtime_cache_key :: "cache_identity \<Rightarrow> gostring \<Rightarrow> gostring option" where
  "runtime_cache_key ci polarity =
     new_key \<lparr>kp_platform = ci_platform ci, kp_resource = ci_url ci, kp_parser_version = ci_parser_version ci,
       kp_schema_version = trim_space (ci_schema ci) @ '':'' @ polarity\<rparr>"

text \<open>The record under a key; one that does not decode is deleted.\<close>
definition read_record :: "'p cache_ops option \<Rightarrow> 'f cache_ops option \<Rightarrow> go_context \<Rightarrow> gostring option
    \<Rightarrow> ('p, 'f) cache_world \<Rightarrow> cache_record cache_answer \<times> ('p, 'f) cache_world" where
  "read_record P F c key w =
     (case key of
        None \<Rightarrow> (CacheFailed, w)
      | Some k \<Rightarrow>
          (case tiered_get P F c (cw_now w) k (cw_tiers w) of
             (Inl e, s) \<Rightarrow> (CacheFailed, w\<lparr>cw_tiers := s\<rparr>)
           | (Inr None, s) \<Rightarrow> (Miss, w\<lparr>cw_tiers := s\<rparr>)
           | (Inr (Some raw), s) \<Rightarrow>
               (case record_decode raw of
                  None \<Rightarrow> (Miss, w\<lparr>cw_tiers := snd (tiered_delete P F c (cw_now w) k s)\<rparr>)
                | Some rec \<Rightarrow> (Found rec, w\<lparr>cw_tiers := s\<rparr>))))"

definition runtime_get_positive :: "'p cache_ops option \<Rightarrow> 'f cache_ops option \<Rightarrow> go_context \<Rightarrow> cache_identity
    \<Rightarrow> ('p, 'f) cache_world \<Rightarrow> parse_result cache_answer \<times> ('p, 'f) cache_world" where
  "runtime_get_positive P F c ci w =
     (case read_record P F c (runtime_cache_key ci ''positive'') w of
        (CacheFailed, w') \<Rightarrow> (CacheFailed, w')
      | (Miss, w') \<Rightarrow> (Miss, w')
      | (Found rec, w') \<Rightarrow> (if rr_schema rec \<noteq> cache_schema \<or> rr_error rec \<noteq> None then Miss else Found (rr_result rec), w'))"

definition runtime_get_negative :: "'p cache_ops option \<Rightarrow> 'f cache_ops option \<Rightarrow> go_context \<Rightarrow> cache_identity
    \<Rightarrow> ('p, 'f) cache_world \<Rightarrow> parse_fail cache_answer \<times> ('p, 'f) cache_world" where
  "runtime_get_negative P F c ci w =
     (case read_record P F c (runtime_cache_key ci ''negative'') w of
        (CacheFailed, w') \<Rightarrow> (CacheFailed, w')
      | (Miss, w') \<Rightarrow> (Miss, w')
      | (Found rec, w') \<Rightarrow>
          (case rr_error rec of
             None \<Rightarrow> (Miss, w')
           | Some e \<Rightarrow>
               if rr_schema rec \<noteq> cache_schema \<or> pe_class e = ErrorOtherClass [] then (Miss, w')
               else (Found (TypedFail (new_error (pe_class e) (pe_stage e) (pe_platform e) (pe_retryable e))), w')))"

definition write_record :: "'p cache_ops option \<Rightarrow> 'f cache_ops option \<Rightarrow> go_context \<Rightarrow> gostring option \<Rightarrow> cache_record
    \<Rightarrow> duration \<Rightarrow> ('p, 'f) cache_world \<Rightarrow> ('p, 'f) cache_world" where
  "write_record P F c key rec ttl w =
     (case key of
        None \<Rightarrow> w
      | Some k \<Rightarrow> w\<lparr>cw_tiers := snd (tiered_set P F c (cw_now w) k (json_print (record_json rec)) ttl (cw_tiers w))\<rparr>)"

definition runtime_set_positive :: "'p cache_ops option \<Rightarrow> 'f cache_ops option \<Rightarrow> go_context \<Rightarrow> cache_identity \<Rightarrow> parse_result
    \<Rightarrow> duration \<Rightarrow> ('p, 'f) cache_world \<Rightarrow> ('p, 'f) cache_world" where
  "runtime_set_positive P F c ci r ttl w =
     write_record P F c (runtime_cache_key ci ''positive'') \<lparr>rr_schema = cache_schema, rr_result = r, rr_error = None\<rparr> ttl w"

definition runtime_set_negative :: "'p cache_ops option \<Rightarrow> 'f cache_ops option \<Rightarrow> go_context \<Rightarrow> cache_identity \<Rightarrow> parse_error
    \<Rightarrow> duration \<Rightarrow> ('p, 'f) cache_world \<Rightarrow> ('p, 'f) cache_world" where
  "runtime_set_negative P F c ci e ttl w =
     write_record P F c (runtime_cache_key ci ''negative'')
       \<lparr>rr_schema = cache_schema, rr_result = zero_result, rr_error = Some e\<rparr> ttl w"

definition runtime_cache :: "'p cache_ops option \<Rightarrow> 'f cache_ops option \<Rightarrow> go_context \<Rightarrow> ('p, 'f) cache_world parse_cache_ops" where
  "runtime_cache P F c = \<lparr>pc_get_positive = runtime_get_positive P F c, pc_set_positive = runtime_set_positive P F c,
     pc_get_negative = runtime_get_negative P F c, pc_set_negative = runtime_set_negative P F c\<rparr>"

section \<open>Records survive\<close>

text \<open>What is read back of a result: its strings as a decoder reads them.\<close>
definition clean_image :: "image_asset \<Rightarrow> image_asset" where
  "clean_image i = \<lparr>im_url = utf8_clean (im_url i), im_live = utf8_clean (im_live i)\<rparr>"

definition clean_result :: "parse_result \<Rightarrow> parse_result" where
  "clean_result r = \<lparr>pr_platform = utf8_clean (pr_platform r), pr_type = utf8_clean (pr_type r), pr_title = utf8_clean (pr_title r),
     pr_description = utf8_clean (pr_description r), pr_video = utf8_clean (pr_video r), pr_audio = utf8_clean (pr_audio r),
     pr_cover = utf8_clean (pr_cover r), pr_preview = utf8_clean (pr_preview r), pr_m3u8 = utf8_clean (pr_m3u8 r),
     pr_author_uid = utf8_clean (pr_author_uid r), pr_author_name = utf8_clean (pr_author_name r),
     pr_author_avatar = utf8_clean (pr_author_avatar r), pr_images = map clean_image (pr_images r), pr_duration = pr_duration r\<rparr>"

lemma utf8_clean_Nil [simp]: "utf8_clean [] = []"
  by (simp add: utf8_clean.simps)

lemma utf8_clean_ascii_char: "byte_val c < 128 \<Longrightarrow> utf8_clean (c # t) = c # utf8_clean t"
  by (simp add: utf8_clean.simps [of "c # t"] utf8_len_ascii)

lemma utf8_clean_ascii: "is_ascii s \<Longrightarrow> utf8_clean s = s"
  by (induction s) (simp_all add: is_ascii_def utf8_clean_ascii_char)

lemma utf8_clean_Nil_iff: "utf8_clean s = [] \<longleftrightarrow> s = []"
  using utf8_len_bound(1) [of s] by (auto simp: utf8_clean.simps [of s])

definition clean_error :: "parse_error \<Rightarrow> parse_error" where
  "clean_error e = \<lparr>pe_class = text_class (utf8_clean (error_class_text (pe_class e))),
     pe_stage = text_stage (utf8_clean (stage_text (pe_stage e))), pe_platform = utf8_clean (pe_platform e),
     pe_retryable = pe_retryable e\<rparr>"

lemma json_clean_key: "is_ascii k \<Longrightarrow> json_clean (JObj ((k, v) # kvs)) = (case json_clean (JObj kvs) of JObj ms \<Rightarrow> JObj ((k, json_clean v) # ms))"
  by (simp add: utf8_clean_ascii)

lemma ascii_keys:
  "list_all is_ascii [''Platform'', ''Type'', ''Title'', ''Description'', ''VideoURL'', ''AudioURL'', ''CoverURL'', ''PreviewURL'',
     ''M3U8URL'', ''Author'', ''Images'', ''Duration'', ''uid'', ''name'', ''avatar'', ''url'', ''livePhotoUrl'', ''class'', ''stage'',
     ''platform'', ''retryable'', ''schemaVersion'', ''result'', ''error'']"
  by code_simp

lemma map_clean_omit: "is_ascii k \<Longrightarrow> map (\<lambda>kv. (utf8_clean (fst kv), json_clean (snd kv))) (omit_empty k s) = omit_empty k (utf8_clean s)"
  by (simp add: omit_empty_def utf8_clean_Nil_iff utf8_clean_ascii)

lemma clean_image_json: "json_clean (image_json i) = image_json (clean_image i)"
  using ascii_keys by (simp add: image_json_def clean_image_def map_clean_omit utf8_clean_ascii)

lemma clean_result_json: "json_clean (result_json r) = result_json (clean_result r)"
  using ascii_keys by (simp add: result_json_def clean_result_def map_clean_omit utf8_clean_ascii clean_image_json)

lemma ints_result_json: "json_ints (result_json r)"
  by (auto simp: result_json_def omit_empty_def image_json_def)

section \<open>Fields of a printed struct\<close>

definition fold_keys :: "(gostring \<times> json) list \<Rightarrow> gostring list" where
  "fold_keys kvs = map (\<lambda>kv. to_lower (fst kv)) kvs"

lemma fold_keys_in: "(k, v) \<in> set kvs \<Longrightarrow> to_lower k \<in> set (fold_keys kvs)"
  by (force simp: fold_keys_def)

lemma field_absent: "to_lower k \<notin> set (fold_keys kvs) \<Longrightarrow> filter (\<lambda>kv. equal_fold (fst kv) k) kvs = []"
  by (auto simp: equal_fold_def filter_empty_conv dest: fold_keys_in)

lemma field_once: "distinct (fold_keys kvs) \<Longrightarrow> (k, v) \<in> set kvs \<Longrightarrow> filter (\<lambda>kv. equal_fold (fst kv) k) kvs = [(k, v)]"
proof (induction kvs)
  case (Cons a kvs)
  show ?case
  proof (cases "a = (k, v)")
    case True
    then have "to_lower k \<notin> set (fold_keys kvs)" using Cons.prems(1) by (simp add: fold_keys_def)
    then show ?thesis using True field_absent by (simp add: equal_fold_def)
  next
    case False
    then have kv: "(k, v) \<in> set kvs" using Cons.prems(2) by simp
    have "fold_keys (a # kvs) = to_lower (fst a) # fold_keys kvs" by (simp add: fold_keys_def)
    then have "to_lower (fst a) \<noteq> to_lower k" "distinct (fold_keys kvs)"
      using Cons.prems(1) fold_keys_in [OF kv] by auto
    then show ?thesis using Cons.IH kv by (simp add: equal_fold_def)
  qed
qed simp

lemma field_values_once: "distinct (fold_keys kvs) \<Longrightarrow> (k, v) \<in> set kvs \<Longrightarrow> field_values k kvs = (if v = JNull then [] else [v])"
  by (simp add: field_values_def field_once)

lemma string_field_once: "distinct (fold_keys kvs) \<Longrightarrow> (k, JStr s) \<in> set kvs \<Longrightarrow> string_field k kvs = Some s"
  by (simp add: string_field_def field_values_once Let_def)

lemma string_field_absent: "to_lower k \<notin> set (fold_keys kvs) \<Longrightarrow> string_field k kvs = Some []"
  by (simp add: string_field_def field_values_def field_absent Let_def)

lemma object_field_once: "distinct (fold_keys kvs) \<Longrightarrow> (k, JObj m) \<in> set kvs \<Longrightarrow> object_field k kvs = Some m"
  by (simp add: object_field_def field_values_once)

definition int64 :: "int \<Rightarrow> bool" where
  "int64 n \<longleftrightarrow> - (2 ^ 63) \<le> n \<and> n < 2 ^ 63"

lemma int_field_once: "distinct (fold_keys kvs) \<Longrightarrow> (k, JNum (show_int n)) \<in> set kvs \<Longrightarrow> int64 n \<Longrightarrow> int_field k kvs = Some n"
  unfolding int64_def by (simp add: int_field_def field_values_once Let_def json_int64_show)

lemma bool_field_once: "distinct (fold_keys kvs) \<Longrightarrow> (k, JBool b) \<in> set kvs \<Longrightarrow> bool_field k kvs = Some b"
  by (cases b) (simp_all add: bool_field_def field_values_once Let_def)

lemma fold_keys_simps [simp]: "fold_keys [] = []" "fold_keys ((k, v) # kvs) = to_lower k # fold_keys kvs"
  "fold_keys (xs @ ys) = fold_keys xs @ fold_keys ys"
  by (simp_all add: fold_keys_def)

lemma fold_keys_omit: "fold_keys (omit_empty k s) = (if s = [] then [] else [to_lower k])"
  by (simp add: omit_empty_def)

lemma string_field_omit:
  assumes "distinct (fold_keys kvs)" and "s \<noteq> [] \<Longrightarrow> (k, JStr s) \<in> set kvs" and "s = [] \<Longrightarrow> to_lower k \<notin> set (fold_keys kvs)"
  shows "string_field k kvs = Some s"
  using assms string_field_once string_field_absent by (cases "s = []") auto

lemma image_keys: "to_lower ''url'' \<noteq> to_lower ''livePhotoUrl''" by code_simp

lemma image_decode_json: "image_decode (image_json i) = Some i"
proof -
  let ?kvs = "(''url'', JStr (im_url i)) # omit_empty ''livePhotoUrl'' (im_live i)"
  have d: "distinct (fold_keys ?kvs)" using image_keys by (simp add: fold_keys_omit)
  have "string_field ''url'' ?kvs = Some (im_url i)" by (rule string_field_once [OF d]) simp
  moreover have "string_field ''livePhotoUrl'' ?kvs = Some (im_live i)"
    by (rule string_field_omit [OF d]) (use image_keys in \<open>simp_all add: omit_empty_def\<close>)
  ultimately show ?thesis by (simp add: image_decode_def image_json_def)
qed

lemma those_Some: "those (map Some xs) = Some xs"
  by (induction xs) simp_all

lemma result_keys:
  "distinct (map to_lower [''Platform'', ''Type'', ''Title'', ''Description'', ''VideoURL'', ''AudioURL'', ''CoverURL'', ''PreviewURL'',
     ''M3U8URL'', ''Author'', ''Images'', ''Duration''])"
  "distinct (map to_lower [''uid'', ''name'', ''avatar''])"
  "distinct (map to_lower [''class'', ''stage'', ''platform'', ''retryable''])"
  "distinct (map to_lower [''schemaVersion'', ''result'', ''error''])"
  by code_simp+

definition author_members :: "parse_result \<Rightarrow> (gostring \<times> json) list" where
  "author_members r = omit_empty ''uid'' (pr_author_uid r) @ omit_empty ''name'' (pr_author_name r) @
     omit_empty ''avatar'' (pr_author_avatar r)"

lemma author_fields:
  "string_field ''uid'' (author_members r) = Some (pr_author_uid r)"
  "string_field ''name'' (author_members r) = Some (pr_author_name r)"
  "string_field ''avatar'' (author_members r) = Some (pr_author_avatar r)"
proof -
  have d: "distinct (fold_keys (author_members r))"
    using result_keys(2) by (auto simp: author_members_def fold_keys_omit)
  have n: "to_lower ''uid'' \<noteq> to_lower ''name''" "to_lower ''uid'' \<noteq> to_lower ''avatar''" "to_lower ''name'' \<noteq> to_lower ''avatar''"
    using result_keys(2) by auto
  show "string_field ''uid'' (author_members r) = Some (pr_author_uid r)"
    "string_field ''name'' (author_members r) = Some (pr_author_name r)"
    "string_field ''avatar'' (author_members r) = Some (pr_author_avatar r)"
    by (rule string_field_omit [OF d]; use n in \<open>auto simp: author_members_def omit_empty_def split: if_splits\<close>)+
qed

definition result_members :: "parse_result \<Rightarrow> (gostring \<times> json) list" where
  "result_members r = [(''Platform'', JStr (pr_platform r)), (''Type'', JStr (pr_type r)), (''Title'', JStr (pr_title r)),
     (''Description'', JStr (pr_description r)), (''VideoURL'', JStr (pr_video r)), (''AudioURL'', JStr (pr_audio r)),
     (''CoverURL'', JStr (pr_cover r)), (''PreviewURL'', JStr (pr_preview r)), (''M3U8URL'', JStr (pr_m3u8 r)),
     (''Author'', JObj (author_members r)),
     (''Images'', if pr_images r = [] then JNull else JArr (map image_json (pr_images r))),
     (''Duration'', JNum (show_int (pr_duration r)))]"

lemma result_json_members: "result_json r = JObj (result_members r)"
  by (simp add: result_json_def result_members_def author_members_def)

lemma result_decode_members:
  assumes "int64 (pr_duration r)"
  shows "result_decode (result_members r) = Some r"
proof -
  have d: "distinct (fold_keys (result_members r))" using result_keys(1) by (simp add: result_members_def del: distinct.simps)
  have s: "map (\<lambda>k. string_field k (result_members r)) [''Platform'', ''Type'', ''Title'', ''Description'', ''VideoURL'', ''AudioURL'',
       ''CoverURL'', ''PreviewURL'', ''M3U8URL''] = map Some [pr_platform r, pr_type r, pr_title r, pr_description r, pr_video r,
       pr_audio r, pr_cover r, pr_preview r, pr_m3u8 r]"
    unfolding list.map list.inject by (intro conjI refl string_field_once [OF d]; simp add: result_members_def)
  have a: "object_field ''Author'' (result_members r) = Some (author_members r)"
    by (rule object_field_once [OF d]) (simp add: result_members_def)
  have "filter (\<lambda>kv. equal_fold (fst kv) ''Images'') (result_members r) =
      [(''Images'', if pr_images r = [] then JNull else JArr (map image_json (pr_images r)))]"
    by (rule field_once [OF d]) (simp add: result_members_def)
  moreover have "those (map image_decode (map image_json xs)) = Some xs" for xs
    using those_Some [of xs] by (simp add: image_decode_json comp_def)
  ultimately have i: "images_field ''Images'' (result_members r) = Some (pr_images r)"
    by (simp add: images_field_def)
  have n: "int_field ''Duration'' (result_members r) = Some (pr_duration r)"
    by (rule int_field_once [OF d _ assms]) (simp add: result_members_def)
  show ?thesis unfolding result_decode_def s those_Some a i n prod.case option.case list.case author_fields by simp
qed

definition error_members :: "parse_error \<Rightarrow> (gostring \<times> json) list" where
  "error_members e = [(''class'', JStr (error_class_text (pe_class e))), (''stage'', JStr (stage_text (pe_stage e))),
     (''platform'', JStr (pe_platform e)), (''retryable'', JBool (pe_retryable e))]"

definition clean_error_members :: "parse_error \<Rightarrow> (gostring \<times> json) list" where
  "clean_error_members e = [(''class'', JStr (utf8_clean (error_class_text (pe_class e)))), (''stage'', JStr (utf8_clean (stage_text (pe_stage e)))),
     (''platform'', JStr (utf8_clean (pe_platform e))), (''retryable'', JBool (pe_retryable e))]"

lemma clean_error_json: "json_clean (error_json e) = JObj (clean_error_members e)"
  using ascii_keys by (simp add: error_json_def clean_error_members_def utf8_clean_ascii)

lemma error_decode_members: "error_decode (clean_error_members e) = Some (clean_error e)"
proof -
  let ?m = "clean_error_members e"
  have d: "distinct (fold_keys ?m)" using result_keys(3) by (simp add: clean_error_members_def del: distinct.simps)
  have "string_field ''class'' ?m = Some (utf8_clean (error_class_text (pe_class e)))" by (rule string_field_once [OF d]) (simp add: clean_error_members_def)
  moreover have "string_field ''stage'' ?m = Some (utf8_clean (stage_text (pe_stage e)))" by (rule string_field_once [OF d]) (simp add: clean_error_members_def)
  moreover have "string_field ''platform'' ?m = Some (utf8_clean (pe_platform e))" by (rule string_field_once [OF d]) (simp add: clean_error_members_def)
  moreover have "bool_field ''retryable'' ?m = Some (pe_retryable e)" by (rule bool_field_once [OF d]) (simp add: clean_error_members_def)
  ultimately show ?thesis by (simp add: error_decode_def clean_error_def)
qed

text \<open>Reading a written record: its strings cleaned, everything else as it was.\<close>

lemma record_roundtrip:
  assumes "int64 (pr_duration (rr_result c))"
  shows "record_decode (json_print (record_json c)) =
     Some \<lparr>rr_schema = utf8_clean (rr_schema c), rr_result = clean_result (rr_result c), rr_error = map_option clean_error (rr_error c)\<rparr>"
proof -
  define ms where "ms = [(''schemaVersion'', JStr (utf8_clean (rr_schema c))), (''result'', JObj (result_members (clean_result (rr_result c))))] @
     (case rr_error c of None \<Rightarrow> [] | Some e \<Rightarrow> [(''error'', JObj (clean_error_members e))])"
  have "json_ints (record_json c)"
    using ints_result_json by (auto simp: record_json_def error_json_def split: option.splits)
  moreover have "json_clean (record_json c) = JObj ms"
    using ascii_keys clean_result_json [of "rr_result c"]
    by (simp add: record_json_def ms_def utf8_clean_ascii clean_error_json result_json_members split: option.splits)
  ultimately have m: "decode_members (json_print (record_json c)) = Some ms"
    using json_roundtrip by (simp add: decode_members_def)
  have d: "distinct (fold_keys ms)" using result_keys(4) by (cases "rr_error c") (simp_all add: ms_def)
  have s: "string_field ''schemaVersion'' ms = Some (utf8_clean (rr_schema c))"
    by (rule string_field_once [OF d]) (simp add: ms_def)
  have o': "object_field ''result'' ms = Some (result_members (clean_result (rr_result c)))"
    by (rule object_field_once [OF d]) (simp add: ms_def)
  have r: "result_decode (result_members (clean_result (rr_result c))) = Some (clean_result (rr_result c))"
    by (rule result_decode_members) (use assms in \<open>simp add: clean_result_def\<close>)
  have e: "error_field ''error'' ms = Some (map_option clean_error (rr_error c))"
  proof (cases "rr_error c")
    case None
    then have "to_lower ''error'' \<notin> set (fold_keys ms)" using result_keys(4) by (auto simp: ms_def)
    from field_absent [OF this] None show ?thesis by (simp add: error_field_def)
  next
    case (Some x)
    then have "filter (\<lambda>kv. equal_fold (fst kv) ''error'') ms = [(''error'', JObj (clean_error_members x))]"
      by (intro field_once [OF d]) (simp add: ms_def)
    then show ?thesis using Some by (simp add: error_field_def error_decode_members)
  qed
  show ?thesis by (simp add: record_decode_def m s o' r e)
qed

text \<open>Every string of a result.\<close>
definition result_texts :: "parse_result \<Rightarrow> gostring list" where
  "result_texts r = [pr_platform r, pr_type r, pr_title r, pr_description r, pr_video r, pr_audio r, pr_cover r, pr_preview r,
     pr_m3u8 r, pr_author_uid r, pr_author_name r, pr_author_avatar r] @ concat (map (\<lambda>i. [im_url i, im_live i]) (pr_images r))"

lemma clean_result_valid:
  assumes "list_all valid_utf8 (result_texts r)"
  shows "clean_result r = r"
proof -
  have "map clean_image (pr_images r) = pr_images r"
    using assms by (intro map_idI) (auto simp: result_texts_def list_all_iff clean_image_def utf8_clean_valid)
  then show ?thesis using assms by (simp add: clean_result_def result_texts_def utf8_clean_valid)
qed

text \<open>
  C23.  Whatever a parser found, the record the cache writes decodes, and to the result that was written:
  titles with quotes, control or HTML characters, images and durations come back, and only bytes that
  are not UTF-8 are replaced.
\<close>
theorem cache_record_roundtrip:
  assumes "int64 (pr_duration (rr_result c))"
  shows "case record_decode (json_print (record_json c)) of
      None \<Rightarrow> False
    | Some d \<Rightarrow> rr_schema d = utf8_clean (rr_schema c) \<and> rr_result d = clean_result (rr_result c) \<and>
        (list_all valid_utf8 (result_texts (rr_result c)) \<longrightarrow> rr_result d = rr_result c) \<and>
        rr_error d = map_option clean_error (rr_error c)"
  using record_roundtrip [OF assms] clean_result_valid [of "rr_result c"] by simp

definition demo_gallery :: parse_result where
  "demo_gallery = zero_result\<lparr>pr_title := ''<'' @ [CHR 0x22, CHR 0xE4, CHR 0xB8, CHR 0xAD], pr_duration := 7,
     pr_images := [\<lparr>im_url = ''https://a/1'', im_live = []\<rparr>]\<rparr>"

theorem cache_record_roundtrip_witness:
  "map_option rr_result (record_decode (json_print (record_json
     \<lparr>rr_schema = cache_schema, rr_result = demo_gallery, rr_error = None\<rparr>))) = Some demo_gallery"
proof -
  have "int64 (pr_duration demo_gallery)" by (simp add: int64_def demo_gallery_def)
  moreover have "list_all valid_utf8 (result_texts demo_gallery)" by code_simp
  ultimately show ?thesis
    using cache_record_roundtrip [of "\<lparr>rr_schema = cache_schema, rr_result = demo_gallery, rr_error = None\<rparr>"]
    by (auto split: option.splits)
qed

section \<open>The contract\<close>

text \<open>Every value a tier can answer satisfies \<open>Q\<close>.\<close>
definition tier_all :: "'s cache_ops option \<Rightarrow> ('s \<Rightarrow> cache_view) \<Rightarrow> ('s \<Rightarrow> bool) \<Rightarrow> (gostring \<Rightarrow> bool) \<Rightarrow> 's \<Rightarrow> bool" where
  "tier_all T view ok Q s \<longleftrightarrow>
     (\<forall>ops. T = Some ops \<longrightarrow> cache_store ops view ok \<and> ok s \<and> (\<forall>k t v. view s k t = Some v \<longrightarrow> Q v))"

lemma tier_all_forgets:
  assumes "tier_all T view ok Q s" and "\<And>ops. T = Some ops \<Longrightarrow> ok s' \<and> forgets (view s) (view s')"
  shows "tier_all T view ok Q s'"
  using assms unfolding tier_all_def forgets_def by blast

lemma tier_all_get:
  assumes "tier_all (Some ops) view ok Q s" and "co_get ops c now k s = (r, s')"
  shows "tier_all (Some ops) view ok Q s' \<and> (\<forall>v. r = Inr (Some v) \<longrightarrow> Q v)"
proof -
  have st: "cache_store ops view ok" "ok s" using assms(1) by (simp_all add: tier_all_def)
  have "tier_all (Some ops) view ok Q s'"
    by (rule tier_all_forgets [OF assms(1)]) (use cache_store.get_inv [OF st assms(2)] in simp)
  moreover have "Q v" if "r = Inr (Some v)" for v
    using cache_store.get_sound [OF st assms(2) [unfolded that]] assms(1) by (auto simp: tier_all_def)
  ultimately show ?thesis by blast
qed

lemma tier_all_lookup:
  assumes "tier_all T view ok Q s" and "tier_lookup T c now k s = (r, s')"
  shows "tier_all T view ok Q s' \<and> (\<forall>v. r = Some v \<longrightarrow> Q v)"
proof (cases T)
  case (Some ops)
  obtain x q where q: "co_get ops c now k s = (x, q)" by fastforce
  from tier_all_get [OF assms(1) [unfolded Some] q] assms(2) q Some show ?thesis
    by (auto simp: tier_lookup_def split: sum.splits option.splits)
qed (use assms in \<open>simp add: tier_lookup_def\<close>)

lemma tier_all_set:
  assumes "tier_all T view ok Q s" and "0 \<le> now" and "Q v" and "tier_set T c now k v ttl s = (r, s')"
  shows "tier_all T view ok Q s'"
proof (cases T)
  case (Some ops)
  then have st: "cache_store ops view ok" "ok s" using assms(1) by (simp_all add: tier_all_def)
  have e: "co_set ops c now k v ttl s = (r, s')" using assms(4) Some by (simp add: tier_set_def)
  show ?thesis
  proof (cases r)
    case None
    have f: "ok s'" "forgets ((view s)(k := stored now v ttl)) (view s')"
      using cache_store.set_ok [OF st assms(2) e [unfolded None]] by simp_all
    have "Q u" if "view s' j t = Some u" for j t u
    proof -
      have "((view s)(k := stored now v ttl)) j t = Some u" using f(2) that by (simp add: forgets_def)
      then show ?thesis using assms(1,3) Some by (auto simp: tier_all_def stored_def split: if_splits)
    qed
    then show ?thesis using st f(1) Some by (simp add: tier_all_def)
  next
    case (Some e')
    then show ?thesis using tier_all_forgets [OF assms(1)] cache_store.set_error [OF st e [unfolded Some]] \<open>T = Some ops\<close> by simp
  qed
qed (simp add: tier_all_def)

lemma tier_all_delete:
  assumes "tier_all T view ok Q s" and "tier_delete T c now k s = (r, s')"
  shows "tier_all T view ok Q s'"
proof (cases T)
  case (Some ops)
  then have st: "cache_store ops view ok" "ok s" using assms(1) by (simp_all add: tier_all_def)
  have e: "co_delete ops c now k s = (r, s')" using assms(2) Some by (simp add: tier_delete_def)
  have "ok s' \<and> forgets (view s) (view s')"
  proof (cases r)
    case None
    from cache_store.delete_ok [OF st e [unfolded None]] forgets_None forgets_trans show ?thesis by blast
  next
    case (Some e')
    from cache_store.delete_error [OF st e [unfolded Some]] show ?thesis .
  qed
  then show ?thesis using tier_all_forgets [OF assms(1)] by blast
qed (simp add: tier_all_def)

text \<open>A result the service may answer: its media is valid, and survives being written as JSON.\<close>
definition storable :: "parse_result \<Rightarrow> bool" where
  "storable r \<longleftrightarrow> int64 (pr_duration r) \<and> list_all valid_utf8 ([pr_video r, pr_audio r, pr_m3u8 r, pr_preview r, pr_cover r] @
     concat (map (\<lambda>i. [im_url i, im_live i]) (pr_images r)))"

definition answerable :: "idna \<Rightarrow> parse_result \<Rightarrow> bool" where
  "answerable idna r \<longleftrightarrow> validate_media idna r = None \<and> storable r"

lemma storable_platform_free: "platform_free storable"
  by (simp add: platform_free_def storable_def)

lemma storable_clean:
  assumes "storable r"
  shows "media_urls (clean_result r) = media_urls r" and "storable (clean_result r)"
    and "length (pr_images (clean_result r)) = length (pr_images r)"
proof -
  have i: "clean_image i = i" if "i \<in> set (pr_images r)" for i
  proof -
    have "valid_utf8 (im_url i)" "valid_utf8 (im_live i)" using assms that by (auto simp: storable_def list_all_iff)
    then show ?thesis by (simp add: clean_image_def utf8_clean_valid)
  qed
  then have im: "map clean_image (pr_images r) = pr_images r" by (rule map_idI)
  have v: "valid_utf8 (pr_video r)" "valid_utf8 (pr_audio r)" "valid_utf8 (pr_m3u8 r)" "valid_utf8 (pr_preview r)" "valid_utf8 (pr_cover r)"
    using assms by (simp_all add: storable_def)
  show "media_urls (clean_result r) = media_urls r" "length (pr_images (clean_result r)) = length (pr_images r)"
    by (simp_all add: clean_result_def media_urls_def im v utf8_clean_valid)
  show "storable (clean_result r)" using assms by (simp add: clean_result_def storable_def im v utf8_clean_valid)
qed

lemma answerable_clean: "answerable idna r \<Longrightarrow> answerable idna (clean_result r)"
  using storable_clean [of r] by (auto simp: answerable_def validate_media_def Let_def split: if_splits)

text \<open>What the bytes in the cache may say.\<close>
definition sound_record :: "idna \<Rightarrow> gostring \<Rightarrow> bool" where
  "sound_record idna raw \<longleftrightarrow> (\<forall>c. record_decode raw = Some c \<longrightarrow>
     (case rr_error c of None \<Rightarrow> answerable idna (rr_result c) | Some e \<Rightarrow> negative_cacheable (pe_class e)))"

lemma error_class_texts [simp]: "text_class (utf8_clean ''unsupported'') = ErrorUnsupported" "text_class (utf8_clean ''empty_media'') = ErrorEmptyMedia"
  by code_simp+

lemma sound_negative: "negative_cacheable (pe_class e) \<Longrightarrow> negative_cacheable (pe_class (clean_error e))"
  by (auto simp: negative_cacheable_def clean_error_def error_class_text_def)

lemma sound_writes:
  "answerable idna r \<Longrightarrow> sound_record idna (json_print (record_json \<lparr>rr_schema = s, rr_result = r, rr_error = None\<rparr>))"
  "negative_cacheable (pe_class e) \<Longrightarrow> sound_record idna (json_print (record_json \<lparr>rr_schema = s, rr_result = zero_result, rr_error = Some e\<rparr>))"
proof -
  assume a: "answerable idna r"
  then have "int64 (pr_duration r)" by (simp add: answerable_def storable_def)
  then show "sound_record idna (json_print (record_json \<lparr>rr_schema = s, rr_result = r, rr_error = None\<rparr>))"
    using record_roundtrip [of "\<lparr>rr_schema = s, rr_result = r, rr_error = None\<rparr>"] answerable_clean [OF a] by (simp add: sound_record_def)
next
  assume e: "negative_cacheable (pe_class e)"
  have "int64 (pr_duration zero_result)" by (simp add: zero_result_def int64_def)
  then show "sound_record idna (json_print (record_json \<lparr>rr_schema = s, rr_result = zero_result, rr_error = Some e\<rparr>))"
    using record_roundtrip [of "\<lparr>rr_schema = s, rr_result = zero_result, rr_error = Some e\<rparr>"] sound_negative [OF e]
    by (simp add: sound_record_def)
qed

definition tiers_sound :: "idna \<Rightarrow> 'p cache_ops option \<Rightarrow> ('p \<Rightarrow> cache_view) \<Rightarrow> ('p \<Rightarrow> bool) \<Rightarrow> 'f cache_ops option \<Rightarrow> ('f \<Rightarrow> cache_view)
    \<Rightarrow> ('f \<Rightarrow> bool) \<Rightarrow> ('p, 'f) cache_world \<Rightarrow> bool" where
  "tiers_sound idna P pv pok F fv fok w \<longleftrightarrow> 0 \<le> cw_now w \<and> tier_all P pv pok (sound_record idna) (fst (cw_tiers w)) \<and>
     tier_all F fv fok (sound_record idna) (snd (cw_tiers w))"

lemma tiered_get_all:
  assumes "tier_all P pv pok Q (fst s)" and "tier_all F fv fok Q (snd s)" and "tiered_get P F c now k s = (r, s')"
  shows "tier_all P pv pok Q (fst s') \<and> tier_all F fv fok Q (snd s') \<and> (\<forall>v. r = Inr (Some v) \<longrightarrow> Q v)"
proof -
  obtain hit p1 where h: "tier_lookup P c now k (fst s) = (hit, p1)" by fastforce
  note p1 = tier_all_lookup [OF assms(1) h]
  show ?thesis
  proof (cases "hit = None \<and> F \<noteq> None")
    case True
    then obtain ops where ops: "F = Some ops" by auto
    obtain x q where q: "co_get ops c now k (snd s) = (x, q)" by fastforce
    have "r = x" "s' = (p1, q)" using assms(3) h q True ops by (auto simp: tiered_get_def)
    with tier_all_get [OF assms(2) [unfolded ops] q] p1 ops show ?thesis by auto
  next
    case False
    then show ?thesis using assms(2,3) h p1 by (cases hit) (auto simp: tiered_get_def split: option.splits)
  qed
qed

lemma read_record_sound:
  assumes "tiers_sound idna P pv pok F fv fok w" and "read_record P F c key w = (a, w')"
  shows "tiers_sound idna P pv pok F fv fok w' \<and> (\<forall>rec. a = Found rec \<longrightarrow>
     (case rr_error rec of None \<Rightarrow> answerable idna (rr_result rec) | Some e \<Rightarrow> negative_cacheable (pe_class e)))"
proof (cases key)
  case None
  then show ?thesis using assms by (simp add: read_record_def)
next
  case (Some k)
  obtain r s where g: "tiered_get P F c (cw_now w) k (cw_tiers w) = (r, s)" by (rule prod.exhaust)
  have t: "tier_all P pv pok (sound_record idna) (fst (cw_tiers w))" "tier_all F fv fok (sound_record idna) (snd (cw_tiers w))" "0 \<le> cw_now w"
    using assms(1) by (simp_all add: tiers_sound_def)
  note g' = tiered_get_all [OF t(1,2) g]
  have sound: "tiers_sound idna P pv pok F fv fok (w\<lparr>cw_tiers := s\<rparr>)" using g' t(3) by (simp add: tiers_sound_def)
  show ?thesis
  proof (cases "\<exists>raw. r = Inr (Some raw) \<and> record_decode raw = None")
    case True
    obtain x y where d: "tier_delete P c (cw_now w) k (fst s) = x" "tier_delete F c (cw_now w) k (snd s) = y" by blast
    have "tier_all P pv pok (sound_record idna) (snd x)" "tier_all F fv fok (sound_record idna) (snd y)"
      using tier_all_delete [OF conjunct1 [OF g'], of c "cw_now w" k "fst x" "snd x"]
        tier_all_delete [OF conjunct1 [OF conjunct2 [OF g']], of c "cw_now w" k "fst y" "snd y"] d by simp_all
    then show ?thesis using True assms(2) Some g t(3) d
      by (auto simp: read_record_def tiers_sound_def tiered_delete_def case_prod_unfold Let_def)
  next
    case False
    then show ?thesis using assms(2) Some g g' sound
      by (auto simp: read_record_def sound_record_def split: sum.splits option.splits)
  qed
qed

lemma write_record_sound:
  assumes "tiers_sound idna P pv pok F fv fok w" and "sound_record idna (json_print (record_json rec))"
  shows "tiers_sound idna P pv pok F fv fok (write_record P F c key rec ttl w)"
proof (cases key)
  case (Some k)
  let ?v = "json_print (record_json rec)"
  have t: "tier_all P pv pok (sound_record idna) (fst (cw_tiers w))" "tier_all F fv fok (sound_record idna) (snd (cw_tiers w))" "0 \<le> cw_now w"
    using assms(1) by (simp_all add: tiers_sound_def)
  let ?x = "tier_set P c (cw_now w) k ?v ttl (fst (cw_tiers w))" and ?y = "tier_set F c (cw_now w) k ?v ttl (snd (cw_tiers w))"
  have "tier_all P pv pok (sound_record idna) (snd ?x)" "tier_all F fv fok (sound_record idna) (snd ?y)"
    using tier_all_set [OF t(1,3) assms(2), of c k ttl "fst ?x" "snd ?x"] tier_all_set [OF t(2,3) assms(2), of c k ttl "fst ?y" "snd ?y"] by simp_all
  then show ?thesis using Some t(3) by (simp add: write_record_def tiers_sound_def tiered_set_def case_prod_unfold Let_def)
qed (use assms in \<open>simp add: write_record_def\<close>)

text \<open>Over tiers that keep the store contract this is a result cache.\<close>

lemma runtime_parse_cache: "parse_cache (runtime_cache P F c) (tiers_sound idna P pv pok F fv fok) (answerable idna)"
proof
  fix w w' ci a assume w: "tiers_sound idna P pv pok F fv fok w" and g: "pc_get_positive (runtime_cache P F c) ci w = (a, w')"
  obtain b v where r: "read_record P F c (runtime_cache_key ci ''positive'') w = (b, v)" by force
  from read_record_sound [OF w r] g r show "tiers_sound idna P pv pok F fv fok w' \<and> (\<forall>r. a = Found r \<longrightarrow> answerable idna r)"
    by (cases b) (auto simp: runtime_cache_def runtime_get_positive_def split: if_splits)
next
  fix w w' ci b assume w: "tiers_sound idna P pv pok F fv fok w" and g: "pc_get_negative (runtime_cache P F c) ci w = (b, w')"
  obtain a v where r: "read_record P F c (runtime_cache_key ci ''negative'') w = (a, v)" by force
  from read_record_sound [OF w r] g r
  show "tiers_sound idna P pv pok F fv fok w' \<and> (\<forall>e. b = Found e \<longrightarrow> negative_cacheable (class_of (Some e)))"
    by (cases a) (auto simp: runtime_cache_def runtime_get_negative_def class_of_def new_error_def split: if_splits option.splits)
next
  fix w ci ttl and r :: parse_result assume "tiers_sound idna P pv pok F fv fok w" and "answerable idna r"
  then show "tiers_sound idna P pv pok F fv fok (pc_set_positive (runtime_cache P F c) ci r ttl w)"
    by (simp add: runtime_cache_def runtime_set_positive_def write_record_sound sound_writes)
next
  fix w ci ttl and e :: parse_error assume "tiers_sound idna P pv pok F fv fok w" and "negative_cacheable (pe_class e)"
  then show "tiers_sound idna P pv pok F fv fok (pc_set_negative (runtime_cache P F c) ci e ttl w)"
    by (simp add: runtime_cache_def runtime_set_negative_def write_record_sound sound_writes)
qed

interpretation results: parse_cache "runtime_cache P F c" "tiers_sound idna P pv pok F fv fok" "answerable idna"
  for P F c idna pv pok fv fok
  by (rule runtime_parse_cache)

section \<open>The service over it\<close>

text \<open>Requests in the order they finish; one that joins a flight is handed an earlier outcome.\<close>
fun serve :: "'w service \<Rightarrow> idna \<Rightarrow> (request \<times> nat option) list \<Rightarrow> (parse_fail + parse_output) list \<Rightarrow> 'w
    \<Rightarrow> (parse_fail + parse_output) list \<times> 'w" where
  "serve svc idna [] outs w = (outs, w)"
| "serve svc idna ((req, flight_of) # reqs) outs w =
     (let joined = Option.bind flight_of (\<lambda>i. if i < length outs then Some (outs ! i) else None);
          (x, w') = parse svc idna req joined w
      in serve svc idna reqs (outs @ [x]) w')"

lemma serve_answerable:
  assumes "sv_cache svc = Some (runtime_cache P F c)" and "collaborators_ok svc (tiers_sound idna P pv pok F fv fok) storable"
    and "tiers_sound idna P pv pok F fv fok w" and "list_all (outcome_ok (answerable idna)) outs"
    and "serve svc idna reqs outs w = (outs', w')"
  shows "tiers_sound idna P pv pok F fv fok w' \<and> list_all (outcome_ok (answerable idna)) outs'"
  using assms(3-5)
proof (induction reqs arbitrary: outs w)
  case (Cons rj reqs)
  obtain req j where rj: "rj = (req, j)" by (rule prod.exhaust)
  define joined where "joined = Option.bind j (\<lambda>i. if i < length outs then Some (outs ! i) else None)"
  obtain x w1 where p: "parse svc idna req joined w = (x, w1)" by (rule prod.exhaust)
  have J: "outcome_ok (answerable idna) y" if "joined = Some y" for y
    using that Cons.prems(2) by (auto simp: joined_def bind_eq_Some_conv list_all_iff split: if_splits)
  have ok: "tiers_sound idna P pv pok F fv fok w1 \<and> outcome_ok (answerable idna) x"
    by (rule results.parse_ok [OF assms(1,2) Cons.prems(1) _ storable_platform_free J p]) (simp_all add: answerable_def)
  have "serve svc idna reqs (outs @ [x]) w1 = (outs', w')" using Cons.prems(3) p by (simp add: rj joined_def Let_def)
  then show ?case using Cons.IH [of w1 "outs @ [x]"] ok Cons.prems(2) by simp
qed simp

lemma media_urls_accepted:
  assumes "validate_media idna r = None"
  shows "media_urls r \<noteq> [] \<and> length (pr_images r) \<le> 100 \<and>
    (\<forall>raw\<in>set (media_urls r). \<exists>u. new_fetch_url idna (trim_space raw) = Some u)"
  using assms by (auto simp: validate_media_def Let_def list_ex_iff split: if_splits)

lemma tiers_sound_forgetful:
  assumes "tier_ok P pv pok (\<lambda>_ _. None) p" and "tier_ok F fv fok (\<lambda>_ _. None) f" and "0 \<le> now"
  shows "tiers_sound idna P pv pok F fv fok \<lparr>cw_now = now, cw_tiers = (p, f)\<rparr>"
  using assms by (simp add: tiers_sound_def tier_all_def tier_ok_def forgets_def)

text \<open>
  C21.  Whatever requests come in, forced or not, answered from the cache, by a flight of their own or one
  they join, every result that is answered has media, at most 100 images, and only media URLs the fetch
  guard accepts: an answer read back from the cache is no exception, although it is not validated again.
\<close>
theorem runtime_parse_safe:
  assumes "sv_cache svc = Some (runtime_cache P F c)" and "collaborators_ok svc (tiers_sound idna P pv pok F fv fok) storable"
    and "tier_ok P pv pok (\<lambda>_ _. None) p" and "tier_ok F fv fok (\<lambda>_ _. None) f" and "0 \<le> now"
    and "Inr out \<in> set (fst (serve svc idna reqs [] \<lparr>cw_now = now, cw_tiers = (p, f)\<rparr>))"
  shows "media_urls (ou_result out) \<noteq> [] \<and> length (pr_images (ou_result out)) \<le> 100 \<and>
    (\<forall>raw\<in>set (media_urls (ou_result out)). \<exists>u. new_fetch_url idna (trim_space raw) = Some u)"
proof -
  obtain outs w' where s: "serve svc idna reqs [] \<lparr>cw_now = now, cw_tiers = (p, f)\<rparr> = (outs, w')" by (rule prod.exhaust)
  have "list_all (outcome_ok (answerable idna)) outs"
    using serve_answerable [OF assms(1,2) tiers_sound_forgetful [OF assms(3-5)] _ s] by simp
  then have "answerable idna (ou_result out)" using assms(6) s by (auto simp: list_all_iff outcome_ok_def)
  then show ?thesis by (intro media_urls_accepted) (simp add: answerable_def)
qed

lemma runtime_get_after_set:
  assumes "runtime_cache_key ci ''positive'' = Some k" and "cm_inv (snd (cw_tiers w))"
    and "k \<in> set (keys (cm_items (snd (cw_tiers w)))) \<or> k \<notin> set (cm_order (snd (cw_tiers w)))"
    and "int64 (pr_duration r)" and "0 \<le> cw_now w" and "0 < ttl" and "t < cw_now w + ttl"
  shows "runtime_get_positive None (Some cm_ops) (Ctx None) ci ((runtime_set_positive None (Some cm_ops) (Ctx None) ci r ttl w)\<lparr>cw_now := t\<rparr>) =
     (Found (clean_result r), (runtime_set_positive None (Some cm_ops) (Ctx None) ci r ttl w)\<lparr>cw_now := t\<rparr>)"
proof -
  let ?raw = "json_print (record_json \<lparr>rr_schema = cache_schema, rr_result = r, rr_error = None\<rparr>)"
  obtain p m where w: "cw_tiers w = (p, m)" by (rule prod.exhaust)
  obtain m' where m': "cm_set (Ctx None) (cw_now w) k ?raw ttl m = (None, m')"
    by (rule prod.exhaust [of "cm_set (Ctx None) (cw_now w) k ?raw ttl m"]) (auto simp: cm_set_def ctx_error_def Let_def case_prod_unfold)
  have e: "map_of (cm_items m') k = Some \<lparr>me_value = ?raw, me_expires = cw_now w + ttl\<rparr>"
    using cm_set_keeps [OF _ _ m'] assms(2,3,6) w by simp
  have get: "cm_get (Ctx None) t k m' = (Inr (Some ?raw), m')"
    using e assms(7) by (simp add: cm_get_def ctx_error_def)
  have set_eq: "runtime_set_positive None (Some cm_ops) (Ctx None) ci r ttl w = w\<lparr>cw_tiers := (p, m')\<rparr>"
    using m' by (simp add: runtime_set_positive_def write_record_def assms(1) tiered_set_def tier_set_def w cm_ops_def Let_def)
  have schema: "utf8_clean cache_schema = cache_schema" by code_simp
  show ?thesis
    unfolding set_eq using get record_roundtrip [of "\<lparr>rr_schema = cache_schema, rr_result = r, rr_error = None\<rparr>"] assms(4)
    by (simp add: runtime_get_positive_def read_record_def assms(1) tiered_get_def tier_lookup_def cm_ops_def schema)
qed

text \<open>Requests one after the other, each at its time, with the outcome it would join.\<close>
fun ask_at :: "('p, 'f) cache_world service \<Rightarrow> idna \<Rightarrow> (gotime \<times> request \<times> (parse_fail + parse_output) option) list \<Rightarrow> ('p, 'f) cache_world
    \<Rightarrow> (parse_fail + parse_output) list \<times> ('p, 'f) cache_world" where
  "ask_at svc idna [] w = ([], w)"
| "ask_at svc idna ((t, req, joined) # asks) w =
     (let (x, w1) = parse svc idna req joined (w\<lparr>cw_now := t\<rparr>); (xs, w2) = ask_at svc idna asks w1 in (x # xs, w2))"

text \<open>
  C22.  In the configuration without Redis, let a result be stored under its identity while its key is live in
  the memory cache or was never in it (a key that expired and is stored again keeps its old place in the
  eviction order and may be dropped at once).  Then the requests for that resource that follow with nothing
  else in between, not forced to refresh, in contexts that have not ended and before the time-to-live has
  passed, however many and at whatever times, are all answered with that result: no parser runs, no flight is
  joined, and the cache is left as it was.
\<close>
theorem cached_result_served:
  assumes "sv_cache svc = Some (runtime_cache None (Some cm_ops) (Ctx None))"
    and "runtime_cache_key ci ''positive'' = Some k" and "cm_inv (snd (cw_tiers w))"
    and "k \<in> set (keys (cm_items (snd (cw_tiers w)))) \<or> k \<notin> set (cm_order (snd (cw_tiers w)))"
    and "int64 (pr_duration r)" and "0 \<le> cw_now w" and "0 < ttl"
    and "w' = pc_set_positive (runtime_cache None (Some cm_ops) (Ctx None)) ci r ttl w"
    and "\<forall>(t, req, joined) \<in> set asks. t < cw_now w + ttl \<and> \<not> rq_force req \<and> (\<exists>pq. parse_target svc idna req = Inr (pq, ci))"
  shows "fst (ask_at svc idna asks w') = replicate (length asks) (Inr (plain_output ci (clean_result r))) \<and>
    cw_tiers (snd (ask_at svc idna asks w')) = cw_tiers w'"
proof -
  have one: "parse svc idna req joined (w'\<lparr>cw_now := t\<rparr>) = (Inr (plain_output ci (clean_result r)), w'\<lparr>cw_now := t\<rparr>)"
    if "t < cw_now w + ttl" "\<not> rq_force req" "parse_target svc idna req = Inr (pq, ci)" for t req joined pq
    using runtime_get_after_set [OF assms(2-7) that(1)] assms(1) that(2,3)
    by (simp add: parse_def get_positive_def output_from_result_def runtime_cache_def assms(8) Let_def)
  have "fst (ask_at svc idna asks (w'\<lparr>cw_now := n\<rparr>)) = replicate (length asks) (Inr (plain_output ci (clean_result r))) \<and>
    cw_tiers (snd (ask_at svc idna asks (w'\<lparr>cw_now := n\<rparr>))) = cw_tiers w'" for n
    using assms(9)
  proof (induction asks arbitrary: n)
    case (Cons a asks)
    obtain t req joined where a: "a = (t, req, joined)" by (rule prod_cases3)
    obtain pq where "t < cw_now w + ttl" "\<not> rq_force req" "parse_target svc idna req = Inr (pq, ci)" using Cons.prems by (auto simp: a)
    from one [OF this, of joined] Cons show ?case by (simp add: a case_prod_unfold Let_def)
  qed simp
  from this [of "cw_now w'"] show ?thesis by simp
qed

section \<open>Witnesses\<close>

definition demo_result :: parse_result where
  "demo_result = zero_result\<lparr>pr_video := ''https://v.a.com/1.mp4'', pr_title := ''t''\<rparr>"

text \<open>One platform, whose parser answers the demo result.\<close>
definition demo_service :: "(unit, cache_memory) cache_world service" where
  "demo_service = new_service \<lparr>sv_parser = (\<lambda>_ w. (Inr demo_result, w)), sv_id_parser = None,
     sv_resolver = (\<lambda>_. Some \<lparr>de_platform = ''demo'', de_query_keys = [], de_host_rules = [\<lparr>hr_host = ''a.com'', hr_subdomains = False\<rparr>]\<rparr>),
     sv_cache = Some (runtime_cache None (Some cm_ops) (Ctx None)), sv_store = None,
     sv_entropy = (\<lambda>w. (Some (replicate 16 CHR ''x''), w)), sv_clock = cw_now, sv_parser_version = [], sv_schema_version = [],
     sv_positive_ttl = 0, sv_negative_ttl = 0\<rparr>"

definition demo_ask :: request where
  "demo_ask = \<lparr>rq_url = ''see https://a.com/x'', rq_force = False, rq_source = 0, rq_timestamp = 0, rq_signature = [], rq_version = 0\<rparr>"

definition demo_start :: "(unit, cache_memory) cache_world" where
  "demo_start = \<lparr>cw_now = 1, cw_tiers = ((), new_memory 4)\<rparr>"

lemma canonicalize_url_value:
  assumes "url_parse (trim_space raw) = Some u" and "url_hostname u \<noteq> []"
    and "to_lower (trim_space (u_scheme u)) \<in> {''http'', ''https''}"
    and "normalize_host idna (url_hostname u) = Some host" and "descriptor_matches_host idna d host"
  shows "\<exists>r. canonicalize_url idna raw d = Inr r \<and> re_platform r = trim_space (de_platform d) \<and>
    re_url r = url_string (u\<lparr>u_scheme := to_lower (trim_space (u_scheme u)),
      u_host := host_with_port (u\<lparr>u_scheme := to_lower (trim_space (u_scheme u))\<rparr>) host, u_path := clean_path (u_path u), u_raw_path := [],
      u_raw_query := canonical_query (u_raw_query u) (de_query_keys d), u_force_query := False, u_fragment := []\<rparr>)"
proof -
  have h: "url_hostname (u\<lparr>u_scheme := s\<rparr>) = url_hostname u" for s by (simp add: url_hostname_def)
  show ?thesis
    by (unfold canonicalize_url_def Let_def assms(1) or_error_def h) (use assms h in \<open>simp add: go_errors or_error_def\<close>)
qed

definition demo_descriptor :: descriptor where
  "demo_descriptor = \<lparr>de_platform = ''demo'', de_query_keys = [], de_host_rules = [\<lparr>hr_host = ''a.com'', hr_subdomains = False\<rparr>]\<rparr>"

definition demo_identity :: cache_identity where
  "demo_identity = \<lparr>ci_platform = ''demo'', ci_url = ''https://a.com/x'', ci_parser_version = ''parser-v1'', ci_schema = ''result-schema-v1'',
     ci_key = ''parse:v1:'' @ hex_encode (sha256 (key_material \<lparr>kp_platform = ''demo'', kp_resource = ''https://a.com/x'',
       kp_parser_version = ''parser-v1'', kp_schema_version = ''result-schema-v1''\<rparr>))\<rparr>"

lemma demo_target: "\<exists>pq. parse_target demo_service Some demo_ask = Inr (pq, demo_identity) \<and> pq_descriptor pq = demo_descriptor"
proof -
  let ?u = "the (url_parse (trim_space ''https://a.com/x''))"
  have x: "extract_url (rq_url demo_ask) = Inr ''https://a.com/x''" by code_simp
  have "url_parse (trim_space ''https://a.com/x'') \<noteq> None" by code_simp
  then have p: "url_parse (trim_space ''https://a.com/x'') = Some ?u" by (metis option.collapse)
  have c: "url_hostname ?u \<noteq> []" "to_lower (trim_space (u_scheme ?u)) \<in> {''http'', ''https''}"
    "normalize_host Some (url_hostname ?u) = Some ''a.com''" "descriptor_matches_host Some demo_descriptor ''a.com''"
    by code_simp+
  have v: "url_string (?u\<lparr>u_scheme := to_lower (trim_space (u_scheme ?u)),
      u_host := host_with_port (?u\<lparr>u_scheme := to_lower (trim_space (u_scheme ?u))\<rparr>) ''a.com'', u_path := clean_path (u_path ?u), u_raw_path := [],
      u_raw_query := canonical_query (u_raw_query ?u) (de_query_keys demo_descriptor), u_force_query := False, u_fragment := []\<rparr>)
    = ''https://a.com/x''" by code_simp
  obtain r where r: "canonicalize_url Some ''https://a.com/x'' demo_descriptor = Inr r" "re_url r = ''https://a.com/x''"
    using canonicalize_url_value [OF p c] unfolding v by blast
  have k: "sv_resolver demo_service ''https://a.com/x'' = Some demo_descriptor" "sv_parser_version demo_service = ''parser-v1''"
    "sv_schema_version demo_service = ''result-schema-v1''" by code_simp+
  have b: "\<not> list_ex bad_key_field (key_fields \<lparr>kp_platform = ''demo'', kp_resource = ''https://a.com/x'',
       kp_parser_version = ''parser-v1'', kp_schema_version = ''result-schema-v1''\<rparr>)" by code_simp
  have t: "trim_space ''demo'' = ''demo''" "trim_space ''https://a.com/x'' = ''https://a.com/x''"
    "trim_space ''parser-v1'' = ''parser-v1''" "trim_space ''result-schema-v1'' = ''result-schema-v1''" by code_simp+
  have f: "first_non_empty [de_platform demo_descriptor, re_platform r, ''unknown''] = ''demo''"
    by (simp add: demo_descriptor_def t)
  have n: "new_cache_identity ''demo'' ''https://a.com/x'' ''parser-v1'' ''result-schema-v1'' = Some demo_identity"
    using b by (simp add: new_cache_identity_def new_key_def t demo_identity_def)
  show ?thesis
    unfolding parse_target_def x by (simp del: first_non_empty.simps add: or_error_def k r f n)
qed

lemma demo_keys: "\<exists>k. runtime_cache_key demo_identity ''positive'' = Some k" "\<exists>k. runtime_cache_key demo_identity ''negative'' = Some k"
proof -
  let ?p = "\<lambda>x. \<lparr>kp_platform = ''demo'', kp_resource = ''https://a.com/x'', kp_parser_version = ''parser-v1'',
    kp_schema_version = trim_space ''result-schema-v1'' @ '':'' @ x\<rparr>"
  have "\<not> list_ex bad_key_field (key_fields (?p ''positive''))" "\<not> list_ex bad_key_field (key_fields (?p ''negative''))" by code_simp+
  then show "\<exists>k. runtime_cache_key demo_identity ''positive'' = Some k" "\<exists>k. runtime_cache_key demo_identity ''negative'' = Some k"
    by (simp_all add: runtime_cache_key_def demo_identity_def new_key_def)
qed

lemma demo_collaborators: "collaborators_ok demo_service (tiers_sound Some P pv pok F fv fok) storable"
proof -
  have "storable demo_result" by code_simp
  then show ?thesis by (simp add: collaborators_ok_def demo_service_def new_service_def)
qed

lemma demo_miss: "read_record None (Some cm_ops) (Ctx None) (Some k) demo_start = (Miss, demo_start)"
  by (simp add: read_record_def demo_start_def tiered_get_def tier_lookup_def cm_ops_def cm_get_def ctx_error_def new_memory_def)

lemma demo_parse:
  "\<exists>out w. parse demo_service Some demo_ask None demo_start = (Inr out, w) \<and> ou_result out = demo_result\<lparr>pr_platform := ''demo''\<rparr>"
proof -
  obtain pq where t: "parse_target demo_service Some demo_ask = Inr (pq, demo_identity)" and d: "pq_descriptor pq = demo_descriptor"
    using demo_target by blast
  obtain k k' where k: "runtime_cache_key demo_identity ''positive'' = Some k" "runtime_cache_key demo_identity ''negative'' = Some k'"
    using demo_keys by blast
  have c: "sv_cache demo_service = Some (runtime_cache None (Some cm_ops) (Ctx None))" "\<not> rq_force demo_ask"
    by (simp_all add: demo_service_def new_service_def demo_ask_def)
  have m: "pc_get_positive (runtime_cache None (Some cm_ops) (Ctx None)) demo_identity demo_start = (Miss, demo_start)"
    "pc_get_negative (runtime_cache None (Some cm_ops) (Ctx None)) demo_identity demo_start = (Miss, demo_start)"
    by (simp_all add: runtime_cache_def runtime_get_positive_def runtime_get_negative_def k demo_miss)
  have p: "sv_parser demo_service pq demo_start = (Inr demo_result, demo_start)" "pr_platform demo_result = []"
    by (simp_all add: demo_service_def new_service_def demo_result_def zero_result_def)
  have de: "de_platform demo_descriptor = ''demo''" "trim_space [] = []" by code_simp+
  have u: "media_urls demo_result = [''https://v.a.com/1.mp4'']" "pr_images demo_result = []" by code_simp+
  have "new_fetch_url Some (trim_space ''https://v.a.com/1.mp4'') \<noteq> None" by code_simp
  then have v: "validate_media Some (demo_result\<lparr>pr_platform := ''demo''\<rparr>) = None"
    by (simp add: validate_media_def u del: not_None_eq)
  have st: "sv_store demo_service = None" and "\<exists>bytes. \<forall>w. sv_entropy demo_service w = (Some bytes, w)"
    by (simp_all add: demo_service_def new_service_def)
  then obtain bytes where e: "sv_entropy demo_service w = (Some bytes, w)" for w by blast
  have o: "\<exists>out w. output_from_result demo_service demo_identity r True demo_start = (Inr out, w) \<and> ou_result out = r" for r
    by (simp add: output_from_result_def e generate_share_id_def save_result_def st c Let_def)
  have "parse demo_service Some demo_ask None demo_start = flight demo_service Some False pq demo_identity demo_start"
    using c(2) by (simp add: parse_def t get_positive_def get_negative_def c m)
  also have "\<dots> = output_from_result demo_service demo_identity (demo_result\<lparr>pr_platform := ''demo''\<rparr>) True demo_start"
    by (simp add: flight_def get_positive_def c m p d de v)
  finally show ?thesis using o by simp
qed

theorem runtime_parse_safe_witness:
  "\<exists>out. Inr out \<in> set (fst (serve demo_service Some [(demo_ask, None), (demo_ask, Some 0)] [] demo_start)) \<and>
     ou_result out = demo_result\<lparr>pr_platform := ''demo''\<rparr> \<and>
     (\<forall>raw\<in>set (media_urls (ou_result out)). \<exists>u. new_fetch_url Some (trim_space raw) = Some u)"
proof -
  have c: "sv_cache demo_service = Some (runtime_cache None (Some cm_ops) (Ctx None))"
    by (simp add: demo_service_def new_service_def)
  have n: "tier_ok (None :: unit cache_ops option) (\<lambda>_ _ _. None) (\<lambda>_. True) (\<lambda>_ _. None) ()" by (simp add: tier_ok_def)
  obtain out w where o: "parse demo_service Some demo_ask None demo_start = (Inr out, w)" "ou_result out = demo_result\<lparr>pr_platform := ''demo''\<rparr>"
    using demo_parse by blast
  have "Inr out \<in> set (fst (serve demo_service Some [(demo_ask, None), (demo_ask, Some 0)] [] demo_start))"
    by (simp add: o(1) case_prod_unfold Let_def)
  with runtime_parse_safe [OF c demo_collaborators n new_memory_tier [of 4], of 1 out "[(demo_ask, None), (demo_ask, Some 0)]"] o(2)
  show ?thesis unfolding demo_start_def by auto
qed

theorem cached_result_served_witness:
  "fst (ask_at demo_service Some [(3, demo_ask, None), (5, demo_ask, None)]
      (pc_set_positive (runtime_cache None (Some cm_ops) (Ctx None)) demo_identity demo_result 5 demo_start)) =
    [Inr (plain_output demo_identity demo_result), Inr (plain_output demo_identity demo_result)]"
proof -
  obtain pq where t: "parse_target demo_service Some demo_ask = Inr (pq, demo_identity)" using demo_target by blast
  obtain k where k: "runtime_cache_key demo_identity ''positive'' = Some k" using demo_keys by blast
  have c: "sv_cache demo_service = Some (runtime_cache None (Some cm_ops) (Ctx None))" "\<not> rq_force demo_ask"
    by (simp_all add: demo_service_def new_service_def demo_ask_def)
  have m: "cm_inv (snd (cw_tiers demo_start))" "k \<notin> set (cm_order (snd (cw_tiers demo_start)))" "cw_now demo_start = 1"
    using new_memory_inv [of 4] by (simp_all add: demo_start_def new_memory_def)
  have r: "int64 (pr_duration demo_result)" "clean_result demo_result = demo_result" by code_simp+
  have n: "0 \<le> cw_now demo_start" "(0::int) < 5" using m(3) by simp_all
  have a: "\<forall>(t, req, joined) \<in> set [(3, demo_ask, None), (5, demo_ask, None)].
      t < cw_now demo_start + 5 \<and> \<not> rq_force req \<and> (\<exists>pq. parse_target demo_service Some req = Inr (pq, demo_identity))"
    using m(3) c(2) t by simp
  from cached_result_served [OF c(1) k m(1) disjI2 [OF m(2)] r(1) n refl a] show ?thesis by (simp add: r(2))
qed

end
