(* ===== verification/Candidates.thy ===== *)
theory Candidates imports
  ParserRegistry
begin

text \<open>
  \<open>internal/parser/result.go\<close> and \<open>internal/parser/native/media_candidates.go\<close>: the media candidates a parser
  finds, their order, and the attempts to reach one within the request budget.  The \<open>http.Client\<close> a probe
  uses is an argument that is given the transport and the redirect hook; what it may do with them is the
  hypothesis \<open>uses_only\<close>.
\<close>

section \<open>Candidates and results\<close>

datatype media_kind = KindVideo | KindAudio | KindM3U8 | KindOther gostring

definition media_kind_text :: "media_kind \<Rightarrow> gostring" where
  "media_kind_text k = (case k of KindVideo \<Rightarrow> ''video'' | KindAudio \<Rightarrow> ''audio'' | KindM3U8 \<Rightarrow> ''m3u8'' | KindOther s \<Rightarrow> s)"

record media_candidate =
  mc_url :: gostring
  mc_kind :: media_kind
  mc_quality :: int
  mc_bitrate :: int
  mc_width :: int
  mc_height :: int
  mc_source :: int

record core_result =
  cr_platform :: gostring
  cr_uid :: gostring
  cr_name :: gostring
  cr_avatar :: gostring
  cr_title :: gostring
  cr_video :: gostring
  cr_preview :: gostring
  cr_audio :: gostring
  cr_cover :: gostring
  cr_images :: "image_asset list"
  cr_candidates :: "media_candidate list"

text \<open>True when the result fits the capabilities.\<close>
definition validate_against :: "'p core_descriptor \<Rightarrow> core_result \<Rightarrow> bool" where
  "validate_against d r \<longleftrightarrow>
     (let video = cr_video r \<noteq> []; gallery = cr_images r \<noteq> []; audio = cr_audio r \<noteq> [];
          live = list_ex (\<lambda>i. im_live i \<noteq> []) (cr_images r)
      in list_all (\<lambda>(c, present). present \<longrightarrow> has_capability d c)
           [(capability_video, video), (capability_gallery, gallery), (capability_audio, audio), (capability_live_photo, live)] \<and>
         (video \<or> gallery \<or> audio))"

section \<open>The order\<close>

definition has_metadata :: "media_candidate \<Rightarrow> bool" where
  "has_metadata c \<longleftrightarrow> mc_quality c > 0 \<or> mc_bitrate c > 0 \<or> mc_width c > 0 \<or> mc_height c > 0"

text \<open>The product of two machine integers wraps.\<close>
definition pixels :: "media_candidate \<Rightarrow> int" where
  "pixels c = sint (word_of_int (mc_width c * mc_height c) :: 64 word)"

definition candidate_less :: "media_candidate \<Rightarrow> media_candidate \<Rightarrow> bool" where
  "candidate_less l r =
     (if has_metadata l \<noteq> has_metadata r then has_metadata l
      else if \<not> has_metadata l then False
      else if mc_quality l \<noteq> mc_quality r then mc_quality l > mc_quality r
      else if pixels l \<noteq> pixels r then pixels l > pixels r
      else if mc_bitrate l \<noteq> mc_bitrate r then mc_bitrate l > mc_bitrate r
      else mc_source l < mc_source r)"

text \<open>\<open>sort.SliceStable\<close>: an insertion keeps the order of what the comparison does not separate.\<close>
fun insert_stable :: "('a \<Rightarrow> 'a \<Rightarrow> bool) \<Rightarrow> 'a \<Rightarrow> 'a list \<Rightarrow> 'a list" where
  "insert_stable before x [] = [x]"
| "insert_stable before x (y # ys) = (if before y x then y # insert_stable before x ys else x # y # ys)"

definition sort_stable :: "('a \<Rightarrow> 'a \<Rightarrow> bool) \<Rightarrow> 'a list \<Rightarrow> 'a list" where
  "sort_stable before xs = foldr (insert_stable before) xs []"

definition sort_candidates :: "media_candidate list \<Rightarrow> media_candidate list" where
  "sort_candidates cs = sort_stable candidate_less cs"

section \<open>Collecting candidates\<close>

definition normalize_external_url :: "idna \<Rightarrow> gostring \<Rightarrow> gostring option" where
  "normalize_external_url idna raw =
     (let s = trim_space raw; s = (if has_prefix s ''//'' then ''https:'' @ s else s)
      in map_option url_string (new_fetch_url idna s))"

definition fill_missing :: "media_candidate \<Rightarrow> media_candidate \<Rightarrow> media_candidate" where
  "fill_missing d s = d\<lparr>
     mc_quality := (if mc_quality d = 0 then mc_quality s else mc_quality d),
     mc_bitrate := (if mc_bitrate d = 0 then mc_bitrate s else mc_bitrate d),
     mc_width := (if mc_width d = 0 then mc_width s else mc_width d),
     mc_height := (if mc_height d = 0 then mc_height s else mc_height d)\<rparr>"

text \<open>\<open>appendUsableMediaCandidate\<close>; \<open>m\<close> carries the metadata.\<close>
fun fill_first :: "(media_candidate \<Rightarrow> bool) \<Rightarrow> media_candidate \<Rightarrow> media_candidate list \<Rightarrow> media_candidate list option" where
  "fill_first P m [] = None"
| "fill_first P m (c # cs) = (if P c then Some (fill_missing c m # cs) else map_option ((#) c) (fill_first P m cs))"

definition append_usable :: "idna \<Rightarrow> media_candidate list \<Rightarrow> gostring \<Rightarrow> media_kind \<Rightarrow> media_candidate \<Rightarrow> media_candidate list" where
  "append_usable idna cs raw kind m =
     (case normalize_external_url idna raw of
        None \<Rightarrow> cs
      | Some u \<Rightarrow>
          let incoming = m\<lparr>mc_url := u, mc_kind := kind, mc_source := int (length cs)\<rparr> in
          (case fill_first (\<lambda>c. mc_url c = u \<and> mc_kind c = kind) incoming cs of Some cs' \<Rightarrow> cs' | None \<Rightarrow> cs @ [incoming]))"

definition candidate_identity :: "media_candidate \<Rightarrow> gostring" where
  "candidate_identity c = media_kind_text (mc_kind c) @ CHR 0x00 # mc_url c"

text \<open>The loop of \<open>normalizeMediaCandidates\<close>.\<close>
fun normalize_loop :: "idna \<Rightarrow> media_candidate list \<Rightarrow> media_candidate list \<Rightarrow> (gostring, nat) gomap \<Rightarrow> media_candidate list" where
  "normalize_loop idna [] result seen = result"
| "normalize_loop idna (c # cs) result seen =
     (if mc_kind c \<notin> {KindVideo, KindAudio, KindM3U8} then normalize_loop idna cs result seen
      else (case normalize_external_url idna (mc_url c) of
          None \<Rightarrow> normalize_loop idna cs result seen
        | Some u \<Rightarrow>
            let identity = candidate_identity (c\<lparr>mc_url := u\<rparr>) in
            (case map_of seen identity of
               Some i \<Rightarrow> normalize_loop idna cs (result[i := fill_missing (result ! i) c]) seen
             | None \<Rightarrow> normalize_loop idna cs (result @ [c\<lparr>mc_url := u\<rparr>]) (AList.update identity (length result) seen))))"

definition normalize_candidates :: "idna \<Rightarrow> media_candidate list \<Rightarrow> media_candidate list" where
  "normalize_candidates idna input = sort_candidates (normalize_loop idna input [] [])"

definition first_candidate_url :: "media_candidate list \<Rightarrow> media_kind \<Rightarrow> gostring" where
  "first_candidate_url cs kind = (case find (\<lambda>c. mc_kind c = kind) cs of None \<Rightarrow> [] | Some c \<Rightarrow> mc_url c)"

section \<open>Attempts\<close>

text \<open>What \<open>errors.Is\<close> finds in the errors of an attempt.\<close>
datatype attempt_error = CandidatesExhausted | AttemptBudget budget_error | AttemptCanceled | AttemptDeadline
  | AttemptURL | AttemptOther gostring

definition stops_attempts :: "attempt_error \<Rightarrow> bool" where
  "stops_attempts e \<longleftrightarrow> (case e of AttemptBudget _ \<Rightarrow> True | AttemptCanceled \<Rightarrow> True | AttemptDeadline \<Rightarrow> True | _ \<Rightarrow> False)"

text \<open>The loop over the sorted candidates; \<open>account\<close> is \<open>accountBeforeProbe\<close>, \<open>clock\<close> reads the budget's clock.\<close>
fun attempt_loop :: "idna \<Rightarrow> ('w \<times> budget \<Rightarrow> attempt_error option) \<Rightarrow> ('w \<Rightarrow> gotime) \<Rightarrow> bool
    \<Rightarrow> (media_candidate \<Rightarrow> url \<Rightarrow> 'w \<times> budget \<Rightarrow> attempt_error option \<times> ('w \<times> budget))
    \<Rightarrow> media_candidate list \<Rightarrow> 'w \<times> budget \<Rightarrow> (attempt_error + media_candidate) \<times> ('w \<times> budget)" where
  "attempt_loop idna ctx clock account probe [] s = (Inl CandidatesExhausted, s)"
| "attempt_loop idna ctx clock account probe (c # cs) s =
     (case ctx s of
        Some e \<Rightarrow> (Inl e, s)
      | None \<Rightarrow> (case new_fetch_url idna (mc_url c) of
          None \<Rightarrow> attempt_loop idna ctx clock account probe cs s
        | Some target \<Rightarrow>
            let (e, b) = (if account then allow_fetch (clock (fst s)) (Some target) (snd s) else (None, snd s)) in
            (case e of
               Some e \<Rightarrow> (Inl (AttemptBudget e), (fst s, b))
             | None \<Rightarrow> (case probe c target (fst s, b) of
                 (None, s') \<Rightarrow> (Inr c, s')
               | (Some e, s') \<Rightarrow> if stops_attempts e then (Inl e, s') else attempt_loop idna ctx clock account probe cs s'))))"

definition attempt_candidates :: "idna \<Rightarrow> ('w \<times> budget \<Rightarrow> attempt_error option) \<Rightarrow> ('w \<Rightarrow> gotime) \<Rightarrow> bool
    \<Rightarrow> (media_candidate \<Rightarrow> url \<Rightarrow> 'w \<times> budget \<Rightarrow> attempt_error option \<times> ('w \<times> budget))
    \<Rightarrow> media_candidate list \<Rightarrow> 'w \<times> budget \<Rightarrow> (attempt_error + media_candidate) \<times> ('w \<times> budget)" where
  "attempt_candidates idna ctx clock account probe cs s = attempt_loop idna ctx clock account probe (sort_candidates cs) s"

section \<open>Probing with HEAD\<close>

text \<open>A transport takes the text of the request's URL.\<close>
type_synonym ('r, 's) transport = "gostring \<Rightarrow> 's \<Rightarrow> (attempt_error + 'r) \<times> 's"
type_synonym 's redirect_hook = "'s \<Rightarrow> attempt_error option \<times> 's"
type_synonym ('r, 's) head_client = "('r, 's) transport \<Rightarrow> 's redirect_hook \<Rightarrow> gostring \<Rightarrow> 's \<Rightarrow> (attempt_error + int) \<times> 's"

text \<open>\<open>candidateBudgetRoundTripper.RoundTrip\<close>\<close>
definition budget_round_trip :: "idna \<Rightarrow> ('w \<Rightarrow> gotime) \<Rightarrow> ('r, 'w) transport \<Rightarrow> ('r, 'w \<times> budget) transport" where
  "budget_round_trip idna clock following req s =
     (case new_fetch_url idna req of
        None \<Rightarrow> (Inl AttemptURL, s)
      | Some target \<Rightarrow>
          (case allow_fetch (clock (fst s)) (Some target) (snd s) of
             (Some e, b) \<Rightarrow> (Inl (AttemptBudget e), (fst s, b))
           | (None, b) \<Rightarrow> let (r, w) = following req (fst s) in (r, (w, b))))"

definition budget_redirect :: "('w \<Rightarrow> gotime) \<Rightarrow> ('w \<times> budget) redirect_hook" where
  "budget_redirect clock s =
     (let (e, b) = allow_redirect (clock (fst s)) (snd s) in (map_option AttemptBudget e, (fst s, b)))"

definition head_probe :: "idna \<Rightarrow> ('w \<Rightarrow> gotime) \<Rightarrow> ('r, 'w \<times> budget) head_client \<Rightarrow> ('r, 'w) transport
    \<Rightarrow> media_candidate \<Rightarrow> url \<Rightarrow> 'w \<times> budget \<Rightarrow> attempt_error option \<times> ('w \<times> budget)" where
  "head_probe idna clock client following c target s =
     (case client (budget_round_trip idna clock following) (budget_redirect clock) (url_string target) s of
        (Inl e, s') \<Rightarrow> (Some e, s')
      | (Inr status, s') \<Rightarrow> (if 200 \<le> status \<and> status < 300 then None else Some (AttemptOther ''candidate HEAD response rejected''), s'))"

text \<open>
  \<open>AttemptMediaCandidatesWithHEAD\<close>; \<open>ctx\<close> is the error of the context with the given deadline, None is a
  nil client or transport.
\<close>
definition attempt_head :: "idna \<Rightarrow> (gotime \<Rightarrow> 'w \<times> budget \<Rightarrow> attempt_error option) \<Rightarrow> gotime option \<Rightarrow> gotime \<Rightarrow> ('w \<Rightarrow> gotime)
    \<Rightarrow> (('r, 'w \<times> budget) head_client \<times> ('r, 'w) transport) option \<Rightarrow> int \<Rightarrow> media_candidate list \<Rightarrow> 'w \<times> budget
    \<Rightarrow> (attempt_error + media_candidate) \<times> ('w \<times> budget)" where
  "attempt_head idna ctx parent wall clock client max_redirects cs s =
     (if max_redirects < 0 then (Inl CandidatesExhausted, s)
      else (case bind_context (snd s) parent wall (clock (fst s)) of
          Inl e \<Rightarrow> (Inl (AttemptBudget e), s)
        | Inr deadline \<Rightarrow> (case client of
            None \<Rightarrow> (Inl CandidatesExhausted, s)
          | Some (http, following) \<Rightarrow>
              attempt_candidates idna (ctx deadline) clock False (head_probe idna clock http following) cs s)))"

text \<open>A client reaches the network only through its transport, and its hook.\<close>
definition uses_only :: "('r, 's) head_client \<Rightarrow> bool" where
  "uses_only client \<longleftrightarrow>
     (\<forall>rt hook (I :: 's \<Rightarrow> bool) req s. (\<forall>u t. I t \<longrightarrow> I (snd (rt u t))) \<longrightarrow> (\<forall>t. I t \<longrightarrow> I (snd (hook t))) \<longrightarrow> I s \<longrightarrow>
        I (snd (client rt hook req s)))"

section \<open>The order is a stable sort\<close>

text \<open>A key whose order is the comparison.\<close>
definition candidate_key :: "media_candidate \<Rightarrow> int list" where
  "candidate_key c = (if has_metadata c then [0, - mc_quality c, - pixels c, - mc_bitrate c, mc_source c] else [1])"

lemma candidate_less_key: "candidate_less l r \<longleftrightarrow> candidate_key l < candidate_key r"
  by (auto simp: candidate_less_def candidate_key_def)

lemma insert_stable_key: "insert_stable (\<lambda>l r. f l < f r) x ys = insort_key f x ys" for f :: "'a \<Rightarrow> 'b :: linorder"
  by (induction ys) auto

lemma sort_candidates_key: "sort_candidates cs = sort_key candidate_key cs"
proof -
  have "candidate_less = (\<lambda>l r. candidate_key l < candidate_key r)" by (intro ext) (simp add: candidate_less_key)
  moreover have "insert_stable (\<lambda>l r. candidate_key l < candidate_key r) = insort_key candidate_key"
    by (intro ext) (rule insert_stable_key)
  ultimately have "insert_stable candidate_less = insort_key candidate_key" by simp
  then show ?thesis by (simp add: sort_candidates_def sort_stable_def sort_key_def)
qed

text \<open>
  Sorting loses and invents no candidate, puts none before one that is better, and keeps candidates
  the comparison does not separate (all those without metadata, for one) in the order they were found.
\<close>
theorem candidates_sorted:
  "mset (sort_candidates cs) = mset cs \<and> sorted_wrt (\<lambda>l r. \<not> candidate_less r l) (sort_candidates cs) \<and>
   filter (\<lambda>c. \<not> candidate_less c d \<and> \<not> candidate_less d c) (sort_candidates cs) =
     filter (\<lambda>c. \<not> candidate_less c d \<and> \<not> candidate_less d c) cs"
proof (intro conjI)
  show "mset (sort_candidates cs) = mset cs" by (simp add: sort_candidates_key)
  have "sorted_wrt (\<lambda>l r. candidate_key l \<le> candidate_key r) (sort_key candidate_key cs)"
    using sorted_sort_key [of candidate_key cs] unfolding sorted_map .
  then show "sorted_wrt (\<lambda>l r. \<not> candidate_less r l) (sort_candidates cs)"
    by (simp add: sort_candidates_key candidate_less_key not_less)
  have "(\<lambda>c. \<not> candidate_less c d \<and> \<not> candidate_less d c) = (\<lambda>c. candidate_key c = candidate_key d)"
    by (intro ext) (auto simp: candidate_less_key)
  then show "filter (\<lambda>c. \<not> candidate_less c d \<and> \<not> candidate_less d c) (sort_candidates cs) =
      filter (\<lambda>c. \<not> candidate_less c d \<and> \<not> candidate_less d c) cs"
    by (simp add: sort_candidates_key sort_key_stable)
qed

section \<open>What an attempt does\<close>

text \<open>The candidate chosen, when the outcome of a probe does not depend on what was probed before.\<close>
lemma attempt_loop_selects:
  assumes "\<And>c t s. fst (probe c t s) = answer c" and "fst (attempt_loop idna ctx clock account probe cs s) = Inr c"
  shows "find (\<lambda>d. new_fetch_url idna (mc_url d) \<noteq> None \<and> answer d = None) cs = Some c"
  using assms(2)
proof (induction cs arbitrary: s)
  case (Cons d cs)
  show ?case
  proof (cases "ctx s \<noteq> None \<or> new_fetch_url idna (mc_url d) = None")
    case True
    then show ?thesis using Cons by (auto split: option.splits)
  next
    case False
    then obtain t where t: "new_fetch_url idna (mc_url d) = Some t" "ctx s = None" by auto
    obtain e b where eb: "(if account then allow_fetch (clock (fst s)) (Some t) (snd s) else (None, snd s)) = (e, b)" by (rule prod.exhaust)
    have e: "e = None" using Cons.prems t eb by (cases e) auto
    obtain x s' where p: "probe d t (fst s, b) = (x, s')" by (rule prod.exhaust)
    with assms(1) have x: "answer d = x" by (metis fst_conv)
    show ?thesis
    proof (cases x)
      case None
      then show ?thesis using Cons.prems t eb e p x by simp
    next
      case (Some y)
      then have "\<not> stops_attempts y" "fst (attempt_loop idna ctx clock account probe cs s') = Inr c"
        using Cons.prems t eb e p by (auto split: if_splits)
      then show ?thesis using Cons.IH Some x by simp
    qed
  qed
qed simp

lemma find_Some_split:
  "find P xs = Some x \<Longrightarrow> \<exists>pre post. xs = pre @ x # post \<and> P x \<and> (\<forall>y \<in> set pre. \<not> P y)"
proof (induction xs)
  case (Cons y xs)
  show ?case
  proof (cases "P y")
    case True
    then show ?thesis using Cons.prems by (intro exI [of _ "[]"] exI [of _ xs]) simp
  next
    case False
    then obtain pre post where "xs = pre @ x # post" "P x" "\<forall>z \<in> set pre. \<not> P z" using Cons by auto
    then show ?thesis using False by (intro exI [of _ "y # pre"] exI [of _ post]) simp
  qed
qed simp

text \<open>
  The candidate an attempt settles on is usable and answered its probe, and every candidate better
  than it (or as good and found before it) is not a fetchable URL or failed its probe.
\<close>
theorem attempt_selects_best:
  assumes "\<And>c t s. fst (probe c t s) = answer c" and "fst (attempt_candidates idna ctx clock account probe cs s) = Inr c"
  shows "c \<in> set cs \<and> new_fetch_url idna (mc_url c) \<noteq> None \<and> answer c = None \<and>
    (\<forall>d \<in> set cs. candidate_less d c \<longrightarrow> new_fetch_url idna (mc_url d) = None \<or> answer d \<noteq> None)"
proof -
  let ?P = "\<lambda>d. new_fetch_url idna (mc_url d) \<noteq> None \<and> answer d = None"
  have "find ?P (sort_candidates cs) = Some c"
    by (rule attempt_loop_selects [OF assms(1)]) (use assms(2) in \<open>simp add: attempt_candidates_def\<close>)
  then obtain pre post where sp: "sort_candidates cs = pre @ c # post" "?P c" "\<forall>d \<in> set pre. \<not> ?P d"
    by (blast dest: find_Some_split)
  have sorted: "sorted_wrt (\<lambda>l r. \<not> candidate_less r l) (pre @ c # post)"
    using sorted_sort_key [of candidate_key cs] sp(1) unfolding sorted_map
    by (simp add: sort_candidates_key candidate_less_key not_less)
  have elems: "set cs = set (pre @ c # post)" using sp(1) by (metis sort_candidates_key set_sort)
  have "\<not> ?P d" if "d \<in> set cs" "candidate_less d c" for d
  proof -
    have "d \<noteq> c" using that(2) by (auto simp: candidate_less_key)
    moreover have "d \<notin> set post" using sorted that(2) by (auto simp: sorted_wrt_append)
    ultimately show ?thesis using that(1) elems sp(3) by auto
  qed
  then show ?thesis using sp(2) elems by auto
qed

text \<open>The fetches made since \<open>s0\<close>, by the log of the world and by the budget.\<close>
definition spent_since :: "('w \<Rightarrow> gostring list) \<Rightarrow> 'w \<times> budget \<Rightarrow> 'w \<times> budget \<Rightarrow> bool" where
  "spent_since log s0 s \<longleftrightarrow> (\<exists>fs. log (fst s) = fs @ log (fst s0) \<and> bu_seen (snd s) = fs @ bu_seen (snd s0) \<and>
     bu_requests (snd s) = bu_requests (snd s0) + int (length fs) \<and> bu_max_requests (snd s) = bu_max_requests (snd s0) \<and>
     distinct fs \<and> set fs \<inter> set (bu_seen (snd s0)) = {} \<and> (fs = [] \<or> bu_requests (snd s) \<le> bu_max_requests (snd s)))"

lemma spent_since_refl: "spent_since log s s"
  by (simp add: spent_since_def)

lemma spent_round_trip:
  assumes "\<And>req w. log (snd (following req w)) = fetch_fingerprint (new_fetch_url idna req) # log w" and "spent_since log s0 s"
  shows "spent_since log s0 (snd (budget_round_trip idna clock following req s))"
proof (cases "new_fetch_url idna req")
  case None
  then show ?thesis using assms(2) by (simp add: budget_round_trip_def)
next
  case (Some t)
  obtain e b where a: "allow_fetch (clock (fst s)) (Some t) (snd s) = (e, b)" by (rule prod.exhaust)
  show ?thesis
  proof (cases e)
    case None
    have l: "log (snd (following req (fst s))) = fetch_fingerprint (Some t) # log (fst s)" using assms(1) Some by metis
    from assms(2) obtain fs where f: "log (fst s) = fs @ log (fst s0)" "bu_seen (snd s) = fs @ bu_seen (snd s0)"
      "bu_requests (snd s) = bu_requests (snd s0) + int (length fs)" "bu_max_requests (snd s) = bu_max_requests (snd s0)"
      "distinct fs" "set fs \<inter> set (bu_seen (snd s0)) = {}"
      unfolding spent_since_def by blast
    have "b = (snd s)\<lparr>bu_seen := fetch_fingerprint (Some t) # bu_seen (snd s), bu_requests := bu_requests (snd s) + 1\<rparr>"
      "fetch_fingerprint (Some t) \<notin> set (bu_seen (snd s))" "bu_requests (snd s) < bu_max_requests (snd s)"
      using a None by (auto simp: allow_fetch_def split: if_splits)
    then show ?thesis using a None Some l f
      by (intro spent_since_def [THEN iffD2] exI [of _ "fetch_fingerprint (Some t) # fs"])
        (auto simp: budget_round_trip_def case_prod_unfold Let_def)
  next
    case (Some x)
    then have "b = snd s" using a by (auto simp: allow_fetch_def split: if_splits)
    then show ?thesis using assms(2) a Some \<open>new_fetch_url idna req = _\<close> by (simp add: budget_round_trip_def)
  qed
qed

lemma spent_redirect:
  assumes "spent_since log s0 s"
  shows "spent_since log s0 (snd (budget_redirect clock s))"
proof -
  have "bu_seen (snd (allow_redirect now x)) = bu_seen x" "bu_requests (snd (allow_redirect now x)) = bu_requests x"
    "bu_max_requests (snd (allow_redirect now x)) = bu_max_requests x" for now x
    by (simp_all add: allow_redirect_def)
  then show ?thesis using assms by (simp add: budget_redirect_def spent_since_def case_prod_unfold Let_def)
qed

lemma spent_attempt_loop:
  assumes "\<And>c t s. spent_since log s0 s \<Longrightarrow> spent_since log s0 (snd (probe c t s))" and "spent_since log s0 s"
  shows "spent_since log s0 (snd (attempt_loop idna ctx clock False probe cs s))"
  using assms(2)
proof (induction cs arbitrary: s)
  case (Cons c cs)
  have p: "spent_since log s0 s'" if "probe c t (fst s, snd s) = (x, s')" for t x s'
    using assms(1) [OF Cons.prems, of c t] that by simp
  show ?case
  proof (cases "ctx s \<noteq> None \<or> new_fetch_url idna (mc_url c) = None")
    case True
    then show ?thesis using Cons by (cases "ctx s") auto
  next
    case False
    then obtain t where t: "new_fetch_url idna (mc_url c) = Some t" "ctx s = None" by auto
    obtain x s' where px: "probe c t (fst s, snd s) = (x, s')" by (rule prod.exhaust)
    then show ?thesis using Cons.IH [OF p [OF px]] p [OF px] t by (cases x) simp_all
  qed
qed simp

lemma uses_onlyD:
  assumes "uses_only client" and "\<And>u t. I t \<Longrightarrow> I (snd (rt u t))" and "\<And>t. I t \<Longrightarrow> I (snd (hook t))" and "I s"
  shows "I (snd (client rt hook req s))"
  using assms unfolding uses_only_def by (metis (no_types, lifting))

text \<open>
  Probing media candidates stays within the request budget, redirects included: however the client
  behaves, no more fetches leave than the budget had left, and none goes to a target that was fetched
  before.
\<close>
theorem head_attempts_bounded:
  assumes "uses_only http" and "\<And>req w. log (snd (following req w)) = fetch_fingerprint (new_fetch_url idna req) # log w"
    and "attempt_head idna ctx parent wall clock (Some (http, following)) max_redirects cs (w, b) = (r, (w', b'))"
  shows "\<exists>fs. log w' = fs @ log w \<and> distinct fs \<and> set fs \<inter> set (bu_seen b) = {} \<and>
    (fs = [] \<or> int (length fs) \<le> bu_max_requests b - bu_requests b)"
proof -
  have probe: "spent_since log (w, b) (snd (head_probe idna clock http following c t s))" if "spent_since log (w, b) s" for c t s
  proof -
    have "spent_since log (w, b) (snd (http (budget_round_trip idna clock following) (budget_redirect clock) (url_string t) s))"
      by (rule uses_onlyD [OF assms(1), where I = "spent_since log (w, b)"])
        (rule spent_round_trip [OF assms(2)] spent_redirect that | assumption)+
    then show ?thesis by (auto simp: head_probe_def split: prod.splits sum.splits)
  qed
  have "spent_since log (w, b) (snd (attempt_head idna ctx parent wall clock (Some (http, following)) max_redirects cs (w, b)))"
    using spent_attempt_loop [OF probe spent_since_refl [of log "(w, b)"]] spent_since_refl [of log "(w, b)"]
    by (auto simp: attempt_head_def attempt_candidates_def split: sum.splits)
  then show ?thesis using assms(3) by (auto simp: spent_since_def)
qed

section \<open>Collected candidates\<close>

definition media_kinds :: "media_kind set" where
  "media_kinds = {KindVideo, KindAudio, KindM3U8}"

lemma fill_missing_keeps [simp]: "mc_url (fill_missing d s) = mc_url d" "mc_kind (fill_missing d s) = mc_kind d"
  "candidate_identity (fill_missing d s) = candidate_identity d"
  by (simp_all add: fill_missing_def candidate_identity_def)

text \<open>The map of the loop knows the position of every identity.\<close>
definition seen_ok :: "media_candidate list \<Rightarrow> (gostring, nat) gomap \<Rightarrow> bool" where
  "seen_ok result seen \<longleftrightarrow> (\<forall>k i. map_of seen k = Some i \<longleftrightarrow> i < length result \<and> candidate_identity (result ! i) = k)"

lemma seen_ok_distinct: "seen_ok result seen \<Longrightarrow> distinct (map candidate_identity result)"
  unfolding seen_ok_def distinct_conv_nth by (metis length_map nth_map option.inject)

text \<open>What the loop adds to a result.\<close>
definition collected :: "idna \<Rightarrow> media_candidate list \<Rightarrow> media_candidate list \<Rightarrow> bool" where
  "collected idna input result \<longleftrightarrow>
     (\<forall>c \<in> set result. mc_kind c \<in> media_kinds \<and> (\<exists>d \<in> set input. mc_kind d = mc_kind c \<and> normalize_external_url idna (mc_url d) = Some (mc_url c)))"

lemma normalize_loop_spec:
  assumes "seen_ok result seen" and "collected idna input result" and "set cs \<subseteq> set input"
    and "out = normalize_loop idna cs result seen"
  shows "distinct (map candidate_identity out) \<and> collected idna input out \<and>
    candidate_identity ` set result \<subseteq> candidate_identity ` set out \<and>
    (\<forall>d \<in> set cs. \<forall>u. mc_kind d \<in> media_kinds \<longrightarrow> normalize_external_url idna (mc_url d) = Some u \<longrightarrow>
       candidate_identity (d\<lparr>mc_url := u\<rparr>) \<in> candidate_identity ` set out)"
  using assms
proof (induction idna cs result seen rule: normalize_loop.induct)
  case (1 idna result seen)
  then show ?case using seen_ok_distinct by simp
next
  case (2 idna c cs result seen)
  show ?case
  proof (cases "mc_kind c \<notin> media_kinds")
    case True
    then show ?thesis using 2 by (simp add: media_kinds_def)
  next
    case kind: False
    show ?thesis
    proof (cases "normalize_external_url idna (mc_url c)")
      case None
      then show ?thesis using 2 kind by (simp add: media_kinds_def)
    next
      case (Some u)
      let ?k = "candidate_identity (c\<lparr>mc_url := u\<rparr>)"
      show ?thesis
      proof (cases "map_of seen ?k")
        case hit: (Some i)
        then have i: "i < length result" "candidate_identity (result ! i) = ?k" using 2(5) by (simp_all add: seen_ok_def)
        let ?r = "result[i := fill_missing (result ! i) c]"
        have ids: "map candidate_identity ?r = map candidate_identity result"
          using i(1) by (metis fill_missing_keeps(3) list_update_id map_update nth_map)
        have s: "seen_ok ?r seen"
        proof -
          have "candidate_identity (?r ! j) = candidate_identity (result ! j)" if "j < length result" for j
            using ids that by (metis length_list_update nth_map)
          then show ?thesis using 2(5) by (auto simp: seen_ok_def)
        qed
        have c: "collected idna input ?r"
          using 2(6) i(1) unfolding collected_def by (metis (no_types, lifting) fill_missing_keeps(1,2) in_set_conv_nth length_list_update nth_list_update nth_mem)
        have set: "candidate_identity ` set ?r = candidate_identity ` set result" using ids by (metis list.set_map)
        have k: "?k \<in> candidate_identity ` set result" using i by (metis image_eqI nth_mem)
        have out: "out = normalize_loop idna cs ?r seen" unfolding 2(8) using kind Some hit by (auto simp: media_kinds_def Let_def)
        note IH = 2(4) [OF _ Some refl hit s c _ out]
        show ?thesis using IH kind 2(7) k set Some by (auto simp: media_kinds_def)
      next
        case miss: None
        let ?r = "result @ [c\<lparr>mc_url := u\<rparr>]" and ?s = "AList.update ?k (length result) seen"
        have s: "seen_ok ?r ?s"
        proof -
          have fresh: "candidate_identity (result ! i) \<noteq> ?k" if "i < length result" for i
            using 2(5) miss that unfolding seen_ok_def by (metis option.distinct(1))
          show ?thesis using 2(5) fresh unfolding seen_ok_def
            by (auto simp: map_of_update nth_append less_Suc_eq split: if_splits)
        qed
        have c: "collected idna input ?r" using 2(6,7) kind Some by (auto simp: collected_def)
        have out: "out = normalize_loop idna cs ?r ?s" unfolding 2(8) using kind Some miss by (auto simp: media_kinds_def Let_def)
        note IH = 2(3) [OF _ Some refl miss s c _ out]
        show ?thesis using IH kind 2(7) Some by (auto simp: media_kinds_def)
      qed
    qed
  qed
qed

text \<open>
  The normalised candidates are exactly one per kind and canonical URL: nothing unfetchable or of
  another kind gets in, no pair occurs twice, and every usable candidate that was found is represented.
\<close>
theorem candidates_normalized:
  "distinct (map (\<lambda>c. (mc_kind c, mc_url c)) (normalize_candidates idna cs)) \<and>
   (\<lambda>c. (mc_kind c, mc_url c)) ` set (normalize_candidates idna cs) =
     {(k, u). k \<in> media_kinds \<and> (\<exists>d \<in> set cs. mc_kind d = k \<and> normalize_external_url idna (mc_url d) = Some u)}"
proof -
  let ?out = "normalize_loop idna cs [] []"
  have "seen_ok [] []" "collected idna cs []" by (simp_all add: seen_ok_def collected_def)
  from normalize_loop_spec [OF this subset_refl refl] have d: "distinct (map candidate_identity ?out)"
    and c: "collected idna cs ?out"
    and r: "\<And>d u. d \<in> set cs \<Longrightarrow> mc_kind d \<in> media_kinds \<Longrightarrow> normalize_external_url idna (mc_url d) = Some u \<Longrightarrow>
      candidate_identity (d\<lparr>mc_url := u\<rparr>) \<in> candidate_identity ` set ?out"
    by blast+
  have m: "mset (normalize_candidates idna cs) = mset ?out"
    by (simp add: normalize_candidates_def sort_candidates_key)
  have inj: "mc_kind x = mc_kind y \<and> mc_url x = mc_url y"
    if "candidate_identity x = candidate_identity y" "mc_kind x \<in> media_kinds" "mc_kind y \<in> media_kinds" for x y
    using that by (auto simp: candidate_identity_def media_kind_text_def media_kinds_def)
  have "distinct (map candidate_identity (normalize_candidates idna cs))"
    using d m by (metis mset_map mset_eq_imp_distinct_iff)
  then have "distinct (map (\<lambda>c. (mc_kind c, mc_url c)) (normalize_candidates idna cs))"
    by (auto simp: distinct_map inj_on_def candidate_identity_def)
  moreover have "set (normalize_candidates idna cs) = set ?out" using m by (metis set_mset_mset)
  moreover have "(\<lambda>c. (mc_kind c, mc_url c)) ` set ?out =
     {(k, u). k \<in> media_kinds \<and> (\<exists>d \<in> set cs. mc_kind d = k \<and> normalize_external_url idna (mc_url d) = Some u)}" (is "?L = ?R")
  proof
    show "?L \<subseteq> ?R" using c by (fastforce simp: collected_def)
    show "?R \<subseteq> ?L"
    proof (clarify)
      fix u d assume a: "d \<in> set cs" "mc_kind d \<in> media_kinds" "normalize_external_url idna (mc_url d) = Some u"
      from r [OF this] obtain e where e: "e \<in> set ?out" "candidate_identity (d\<lparr>mc_url := u\<rparr>) = candidate_identity e" by blast
      then have "mc_kind e = mc_kind d \<and> mc_url e = u"
        using inj [OF e(2)] a(2) c by (simp add: collected_def)
      then show "(mc_kind d, u) \<in> (\<lambda>c. (mc_kind c, mc_url c)) ` set ?out" using e(1) by (intro image_eqI [of _ _ e]) simp_all
    qed
  qed
  ultimately show ?thesis by simp
qed

section \<open>Witnesses\<close>

definition demo_candidate :: "gostring \<Rightarrow> int \<Rightarrow> media_candidate" where
  "demo_candidate u q = \<lparr>mc_url = u, mc_kind = KindVideo, mc_quality = q, mc_bitrate = 0, mc_width = 0, mc_height = 0, mc_source = 0\<rparr>"

definition demo_candidates :: "media_candidate list" where
  "demo_candidates = [demo_candidate ''https://a.com/1'' 1, demo_candidate ''ftp://a.com/3'' 3, demo_candidate ''https://a.com/2'' 2]"

theorem attempt_selects_best_witness:
  "let c = demo_candidate ''https://a.com/2'' 2
   in fst (attempt_candidates Some (\<lambda>_. None) (\<lambda>_. 0) False (\<lambda>c t s. (None, s)) demo_candidates ((), undefined)) = Inr c \<and> c \<in> set demo_candidates"
proof -
  let ?c = "demo_candidate ''https://a.com/2'' 2"
  have order: "sort_candidates demo_candidates = [demo_candidate ''ftp://a.com/3'' 3, ?c, demo_candidate ''https://a.com/1'' 1]"
    by code_simp
  have u: "new_fetch_url Some ''ftp://a.com/3'' = None" "new_fetch_url Some ''https://a.com/2'' \<noteq> None" by code_simp+
  let ?run = "attempt_candidates Some (\<lambda>_. None) (\<lambda>_. 0) False (\<lambda>c t s. (None, s)) demo_candidates ((), undefined)"
  have f: "fst ?run = Inr ?c"
    unfolding attempt_candidates_def order using u by (auto simp: demo_candidate_def)
  show ?thesis
    using attempt_selects_best [where answer = "\<lambda>_. None", OF _ f] f by (simp add: Let_def)
qed

text \<open>A client that does one request.\<close>
definition demo_http :: "(unit, 's) head_client" where
  "demo_http rt hook req s = (case rt req s of (Inl e, s') \<Rightarrow> (Inl e, s') | (Inr _, s') \<Rightarrow> (Inr 404, s'))"

definition demo_net :: "(unit, gostring list) transport" where
  "demo_net req w = (Inr (), fetch_fingerprint (new_fetch_url Some req) # w)"

theorem head_attempts_bounded_witness:
  "\<exists>b w' b'. new_budget 1 0 5 0 0 = Some b \<and>
     attempt_head Some (\<lambda>_ _. None) None 0 (\<lambda>_. 0) (Some (demo_http, demo_net)) 0 demo_candidates ([], b) =
       (Inl (AttemptBudget BudgetExceeded), (w', b')) \<and> length w' = 1"
proof -
  have order: "sort_candidates demo_candidates =
      [demo_candidate ''ftp://a.com/3'' 3, demo_candidate ''https://a.com/2'' 2, demo_candidate ''https://a.com/1'' 1]" by code_simp
  have f: "new_fetch_url Some ''ftp://a.com/3'' = None" by code_simp
  have m: "map_option url_string (new_fetch_url Some ''https://a.com/2'') = Some ''https://a.com/2''"
    "map_option url_string (new_fetch_url Some ''https://a.com/1'') = Some ''https://a.com/1''" by code_simp+
  then obtain t u where t: "new_fetch_url Some ''https://a.com/2'' = Some t" "url_string t = ''https://a.com/2''"
    and u: "new_fetch_url Some ''https://a.com/1'' = Some u" "url_string u = ''https://a.com/1''" by auto
  obtain b where b: "new_budget 1 0 5 0 0 = Some b" "b = \<lparr>bu_max_requests = 1, bu_max_redirects = 0, bu_requests = 0, bu_redirects = 0,
      bu_seen = [], bu_deadline = 5, bu_ctx_deadline = 5\<rparr>" by (simp add: new_budget_def)
  let ?r = "attempt_head Some (\<lambda>_ _. None) None 0 (\<lambda>_. 0) (Some (demo_http, demo_net)) 0 demo_candidates ([], b)"
  have e: "fst ?r = Inl (AttemptBudget BudgetExceeded)" "fst (snd ?r) = [fetch_fingerprint (Some t)]"
    unfolding attempt_head_def attempt_candidates_def order b(2)
    by (simp_all add: bind_context_def demo_candidate_def f t u head_probe_def demo_http_def demo_net_def budget_round_trip_def
      allow_fetch_def stops_attempts_def)
  have "uses_only (demo_http :: (unit, gostring list \<times> budget) head_client)"
    by (auto simp: uses_only_def demo_http_def split: prod.splits sum.splits) (metis snd_conv)+
  moreover have "id (snd (demo_net req w)) = fetch_fingerprint (new_fetch_url Some req) # id w" for req w by (simp add: demo_net_def)
  ultimately have "\<exists>fs. id (fst (snd ?r)) = fs @ id [] \<and> distinct fs \<and> set fs \<inter> set (bu_seen b) = {} \<and>
      (fs = [] \<or> int (length fs) \<le> bu_max_requests b - bu_requests b)"
    by (rule head_attempts_bounded [where log = id and ctx = "\<lambda>_ _. None" and parent = None and wall = 0 and clock = "\<lambda>_. 0"
        and max_redirects = 0 and cs = demo_candidates and r = "fst ?r" and b' = "snd (snd ?r)"]) simp
  then show ?thesis using b e by (intro exI [of _ b] exI [of _ "fst (snd ?r)"] exI [of _ "snd (snd ?r)"]) (auto simp: prod_eq_iff)
qed

end
