(* ===== verification/NativeCatalog.thy ===== *)
theory NativeCatalog imports
  SessionMaterial
  Candidates
begin

text \<open>
  \<open>internal/parser/native/descriptors.go\<close> and the catalog part of \<open>parser.go\<close>: the table of the platforms
  the service ships with, and the registry built from it.  The scrapers of the platforms are arguments
  (theory \<open>NativeAdapter\<close>); the table says which of them take identifiers.
\<close>

section \<open>The table\<close>

datatype binding_kind = BindShare | BindShareAndID

record native_registration =
  nr_key :: gostring
  nr_display :: gostring
  nr_aliases :: "gostring list"
  nr_hosts :: "host_rule list"
  nr_capabilities :: capability
  nr_query_keys :: "gostring list"
  nr_max_requests :: int
  nr_max_redirects :: int
  nr_session_host :: gostring
  nr_authorities :: "authority_rule list"
  nr_bind :: "binding_kind option"

abbreviation subdomains_of :: "gostring \<Rightarrow> host_rule" where
  "subdomains_of host \<equiv> \<lparr>hr_host = host, hr_subdomains = True\<rparr>"

definition purpose_metadata_api :: authority_purpose where
  "purpose_metadata_api = ''metadata_api''"

definition purpose_session_consumer :: authority_purpose where
  "purpose_session_consumer = ''session_consumer''"

definition metadata_authorities :: "gostring list \<Rightarrow> authority_rule list" where
  "metadata_authorities hosts =
     map (\<lambda>h. \<lparr>ar_purpose = purpose_metadata_api, ar_host = h, ar_subdomains = False, ar_dynamic = False, ar_sensitive = False\<rparr>) hosts"

definition supports_id :: "native_registration \<Rightarrow> bool" where
  "supports_id r \<longleftrightarrow> nr_bind r = Some BindShareAndID"

definition sohu_session_host :: gostring where
  "sohu_session_host = ''api.tv.sohu.com''"

definition reg_douyin :: native_registration where
  "reg_douyin = \<lparr>nr_key = ''douyin'', nr_display = [CHR 0xE6, CHR 0x8A, CHR 0x96, CHR 0xE9, CHR 0x9F, CHR 0xB3], nr_aliases = [],
     nr_hosts = [subdomains_of ''v.douyin.com'', subdomains_of ''www.iesdouyin.com'', subdomains_of ''www.douyin.com''],
     nr_capabilities = or capability_video (or capability_gallery (or capability_audio capability_live_photo)), nr_query_keys = [''modal_id''], nr_max_requests = 4, nr_max_redirects = 3,
     nr_session_host = [], nr_authorities = [], nr_bind = Some BindShareAndID\<rparr>"

definition reg_kuaishou :: native_registration where
  "reg_kuaishou = \<lparr>nr_key = ''kuaishou'', nr_display = [CHR 0xE5, CHR 0xBF, CHR 0xAB, CHR 0xE6, CHR 0x89, CHR 0x8B], nr_aliases = [],
     nr_hosts = [subdomains_of ''v.kuaishou.com'', subdomains_of ''www.kuaishou.com''],
     nr_capabilities = or capability_video capability_gallery, nr_query_keys = [''id'', ''photoid''], nr_max_requests = 4, nr_max_redirects = 3,
     nr_session_host = [], nr_authorities = [], nr_bind = Some BindShare\<rparr>"

definition reg_zuiyou :: native_registration where
  "reg_zuiyou = \<lparr>nr_key = ''zuiyou'', nr_display = [CHR 0xE6, CHR 0x9C, CHR 0x80, CHR 0xE5, CHR 0x8F, CHR 0xB3], nr_aliases = [],
     nr_hosts = [subdomains_of ''share.xiaochuankeji.cn''],
     nr_capabilities = capability_video, nr_query_keys = [''pid''], nr_max_requests = 4, nr_max_redirects = 3,
     nr_session_host = [], nr_authorities = [], nr_bind = Some BindShare\<rparr>"

definition reg_xigua :: native_registration where
  "reg_xigua = \<lparr>nr_key = ''xigua'', nr_display = [CHR 0xE8, CHR 0xA5, CHR 0xBF, CHR 0xE7, CHR 0x93, CHR 0x9C, CHR 0xE8, CHR 0xA7, CHR 0x86, CHR 0xE9, CHR 0xA2, CHR 0x91], nr_aliases = [''ixigua''],
     nr_hosts = [subdomains_of ''v.ixigua.com'', subdomains_of ''www.ixigua.com'', subdomains_of ''m.ixigua.com''],
     nr_capabilities = capability_video, nr_query_keys = [''id''], nr_max_requests = 4, nr_max_redirects = 3,
     nr_session_host = [], nr_authorities = [], nr_bind = Some BindShareAndID\<rparr>"

definition reg_pipixia :: native_registration where
  "reg_pipixia = \<lparr>nr_key = ''pipixia'', nr_display = [CHR 0xE7, CHR 0x9A, CHR 0xAE, CHR 0xE7, CHR 0x9A, CHR 0xAE, CHR 0xE8, CHR 0x99, CHR 0xBE], nr_aliases = [],
     nr_hosts = [subdomains_of ''h5.pipix.com''],
     nr_capabilities = or capability_video capability_gallery, nr_query_keys = [''id''], nr_max_requests = 4, nr_max_redirects = 3,
     nr_session_host = [], nr_authorities = metadata_authorities [''api.pipix.com''], nr_bind = Some BindShareAndID\<rparr>"

definition reg_weishi :: native_registration where
  "reg_weishi = \<lparr>nr_key = ''weishi'', nr_display = [CHR 0xE5, CHR 0xBE, CHR 0xAE, CHR 0xE8, CHR 0xA7, CHR 0x86], nr_aliases = [],
     nr_hosts = [subdomains_of ''weishi.qq.com''],
     nr_capabilities = capability_video, nr_query_keys = [''id''], nr_max_requests = 4, nr_max_redirects = 3,
     nr_session_host = [], nr_authorities = [], nr_bind = Some BindShareAndID\<rparr>"

definition reg_huoshan :: native_registration where
  "reg_huoshan = \<lparr>nr_key = ''huoshan'', nr_display = [CHR 0xE7, CHR 0x81, CHR 0xAB, CHR 0xE5, CHR 0xB1, CHR 0xB1], nr_aliases = [],
     nr_hosts = [subdomains_of ''share.huoshan.com''],
     nr_capabilities = capability_video, nr_query_keys = [''item_id''], nr_max_requests = 4, nr_max_redirects = 3,
     nr_session_host = [], nr_authorities = [], nr_bind = Some BindShareAndID\<rparr>"

definition reg_lishipin :: native_registration where
  "reg_lishipin = \<lparr>nr_key = ''lishipin'', nr_display = [CHR 0xE6, CHR 0xA2, CHR 0xA8, CHR 0xE8, CHR 0xA7, CHR 0x86, CHR 0xE9, CHR 0xA2, CHR 0x91], nr_aliases = [],
     nr_hosts = [subdomains_of ''www.pearvideo.com''],
     nr_capabilities = capability_video, nr_query_keys = [], nr_max_requests = 4, nr_max_redirects = 3,
     nr_session_host = [], nr_authorities = [], nr_bind = Some BindShareAndID\<rparr>"

definition reg_pipigaoxiao :: native_registration where
  "reg_pipigaoxiao = \<lparr>nr_key = ''pipigaoxiao'', nr_display = [CHR 0xE7, CHR 0x9A, CHR 0xAE, CHR 0xE7, CHR 0x9A, CHR 0xAE, CHR 0xE6, CHR 0x90, CHR 0x9E, CHR 0xE7, CHR 0xAC, CHR 0x91], nr_aliases = [],
     nr_hosts = [subdomains_of ''h5.pipigx.com''],
     nr_capabilities = capability_video, nr_query_keys = [''pid''], nr_max_requests = 4, nr_max_redirects = 3,
     nr_session_host = [], nr_authorities = metadata_authorities [''share.ippzone.com''], nr_bind = Some BindShareAndID\<rparr>"

definition reg_quanmin :: native_registration where
  "reg_quanmin = \<lparr>nr_key = ''quanmin'', nr_display = [CHR 0xE5, CHR 0xBA, CHR 0xA6, CHR 0xE5, CHR 0xB0, CHR 0x8F, CHR 0xE8, CHR 0xA7, CHR 0x86], nr_aliases = [],
     nr_hosts = [subdomains_of ''xspshare.baidu.com'', subdomains_of ''quanmin.baidu.com'', subdomains_of ''quanmin.hao222.com''],
     nr_capabilities = capability_video, nr_query_keys = [''vid''], nr_max_requests = 4, nr_max_redirects = 3,
     nr_session_host = [], nr_authorities = [], nr_bind = Some BindShareAndID\<rparr>"

definition reg_huya :: native_registration where
  "reg_huya = \<lparr>nr_key = ''huya'', nr_display = [CHR 0xE8, CHR 0x99, CHR 0x8E, CHR 0xE7, CHR 0x89, CHR 0x99], nr_aliases = [],
     nr_hosts = [subdomains_of ''v.huya.com'', subdomains_of ''www.huya.com''],
     nr_capabilities = capability_video, nr_query_keys = [''vid''], nr_max_requests = 4, nr_max_redirects = 3,
     nr_session_host = [], nr_authorities = metadata_authorities [''liveapi.huya.com''], nr_bind = Some BindShareAndID\<rparr>"

definition reg_acfun :: native_registration where
  "reg_acfun = \<lparr>nr_key = ''acfun'', nr_display = ''AcFun'', nr_aliases = [],
     nr_hosts = [subdomains_of ''www.acfun.cn''],
     nr_capabilities = capability_video, nr_query_keys = [''ac''], nr_max_requests = 4, nr_max_redirects = 3,
     nr_session_host = [], nr_authorities = [], nr_bind = Some BindShareAndID\<rparr>"

definition reg_weibo :: native_registration where
  "reg_weibo = \<lparr>nr_key = ''weibo'', nr_display = [CHR 0xE5, CHR 0xBE, CHR 0xAE, CHR 0xE5, CHR 0x8D, CHR 0x9A], nr_aliases = [],
     nr_hosts = [subdomains_of ''weibo.com''],
     nr_capabilities = or capability_video capability_gallery, nr_query_keys = [''fid''], nr_max_requests = 4, nr_max_redirects = 3,
     nr_session_host = [], nr_authorities = [], nr_bind = Some BindShareAndID\<rparr>"

definition reg_lvzhou :: native_registration where
  "reg_lvzhou = \<lparr>nr_key = ''lvzhou'', nr_display = [CHR 0xE7, CHR 0xBB, CHR 0xBF, CHR 0xE6, CHR 0xB4, CHR 0xB2], nr_aliases = [],
     nr_hosts = [subdomains_of ''weibo.cn''],
     nr_capabilities = capability_video, nr_query_keys = [''id''], nr_max_requests = 4, nr_max_redirects = 3,
     nr_session_host = [], nr_authorities = [], nr_bind = Some BindShareAndID\<rparr>"

definition reg_meipai :: native_registration where
  "reg_meipai = \<lparr>nr_key = ''meipai'', nr_display = [CHR 0xE7, CHR 0xBE, CHR 0x8E, CHR 0xE6, CHR 0x8B, CHR 0x8D], nr_aliases = [],
     nr_hosts = [subdomains_of ''meipai.com''],
     nr_capabilities = capability_video, nr_query_keys = [''id''], nr_max_requests = 4, nr_max_redirects = 3,
     nr_session_host = [], nr_authorities = [], nr_bind = Some BindShareAndID\<rparr>"

definition reg_doupai :: native_registration where
  "reg_doupai = \<lparr>nr_key = ''doupai'', nr_display = [CHR 0xE9, CHR 0x80, CHR 0x97, CHR 0xE6, CHR 0x8B, CHR 0x8D], nr_aliases = [],
     nr_hosts = [subdomains_of ''doupai.cc''],
     nr_capabilities = capability_video, nr_query_keys = [''id''], nr_max_requests = 4, nr_max_redirects = 3,
     nr_session_host = [], nr_authorities = [], nr_bind = Some BindShareAndID\<rparr>"

definition reg_quanminkge :: native_registration where
  "reg_quanminkge = \<lparr>nr_key = ''quanminkge'', nr_display = [CHR 0xE5, CHR 0x85, CHR 0xA8, CHR 0xE6, CHR 0xB0, CHR 0x91, CHR 0x4B, CHR 0xE6, CHR 0xAD, CHR 0x8C], nr_aliases = [''kgqq''],
     nr_hosts = [subdomains_of ''kg.qq.com''],
     nr_capabilities = capability_video, nr_query_keys = [''s''], nr_max_requests = 4, nr_max_redirects = 3,
     nr_session_host = [], nr_authorities = [], nr_bind = Some BindShareAndID\<rparr>"

definition reg_sixroom :: native_registration where
  "reg_sixroom = \<lparr>nr_key = ''sixroom'', nr_display = [CHR 0xE5, CHR 0x85, CHR 0xAD, CHR 0xE9, CHR 0x97, CHR 0xB4, CHR 0xE6, CHR 0x88, CHR 0xBF], nr_aliases = [],
     nr_hosts = [subdomains_of ''6.cn''],
     nr_capabilities = capability_video, nr_query_keys = [''vid''], nr_max_requests = 4, nr_max_redirects = 3,
     nr_session_host = [], nr_authorities = [], nr_bind = Some BindShareAndID\<rparr>"

definition reg_xinpianchang :: native_registration where
  "reg_xinpianchang = \<lparr>nr_key = ''xinpianchang'', nr_display = [CHR 0xE6, CHR 0x96, CHR 0xB0, CHR 0xE7, CHR 0x89, CHR 0x87, CHR 0xE5, CHR 0x9C, CHR 0xBA], nr_aliases = [],
     nr_hosts = [subdomains_of ''xinpianchang.com''],
     nr_capabilities = capability_video, nr_query_keys = [''id''], nr_max_requests = 4, nr_max_redirects = 3,
     nr_session_host = [], nr_authorities = [], nr_bind = Some BindShare\<rparr>"

definition reg_haokan :: native_registration where
  "reg_haokan = \<lparr>nr_key = ''haokan'', nr_display = [CHR 0xE5, CHR 0xA5, CHR 0xBD, CHR 0xE7, CHR 0x9C, CHR 0x8B, CHR 0xE8, CHR 0xA7, CHR 0x86, CHR 0xE9, CHR 0xA2, CHR 0x91], nr_aliases = [],
     nr_hosts = [subdomains_of ''haokan.baidu.com'', subdomains_of ''haokan.hao123.com''],
     nr_capabilities = capability_video, nr_query_keys = [''vid''], nr_max_requests = 4, nr_max_redirects = 3,
     nr_session_host = [], nr_authorities = [], nr_bind = Some BindShareAndID\<rparr>"

definition reg_redbook :: native_registration where
  "reg_redbook = \<lparr>nr_key = ''redbook'', nr_display = [CHR 0xE5, CHR 0xB0, CHR 0x8F, CHR 0xE7, CHR 0xBA, CHR 0xA2, CHR 0xE4, CHR 0xB9, CHR 0xA6], nr_aliases = [''xiaohongshu''],
     nr_hosts = [subdomains_of ''www.xiaohongshu.com'', subdomains_of ''xhslink.com''],
     nr_capabilities = or capability_video (or capability_gallery capability_live_photo), nr_query_keys = [''xsec_token'', ''xsec_source''], nr_max_requests = 4, nr_max_redirects = 3,
     nr_session_host = [], nr_authorities = [], nr_bind = Some BindShare\<rparr>"

definition reg_bilibili :: native_registration where
  "reg_bilibili = \<lparr>nr_key = ''bilibili'', nr_display = [CHR 0xE5, CHR 0x93, CHR 0x94, CHR 0xE5, CHR 0x93, CHR 0xA9, CHR 0xE5, CHR 0x93, CHR 0x94, CHR 0xE5, CHR 0x93, CHR 0xA9], nr_aliases = [],
     nr_hosts = [subdomains_of ''bilibili.com'', subdomains_of ''b23.tv''],
     nr_capabilities = capability_video, nr_query_keys = [''bvid'', ''p''], nr_max_requests = 4, nr_max_redirects = 3,
     nr_session_host = [], nr_authorities = metadata_authorities [''api.bilibili.com''], nr_bind = Some BindShare\<rparr>"

definition reg_twitter :: native_registration where
  "reg_twitter = \<lparr>nr_key = ''twitter'', nr_display = ''X/Twitter'', nr_aliases = [],
     nr_hosts = [subdomains_of ''x.com'', subdomains_of ''twitter.com'', subdomains_of ''t.co''],
     nr_capabilities = or capability_video capability_gallery, nr_query_keys = [''s'', ''t''], nr_max_requests = 4, nr_max_redirects = 3,
     nr_session_host = [], nr_authorities = metadata_authorities [''cdn.syndication.twimg.com''], nr_bind = Some BindShareAndID\<rparr>"

definition reg_qqvideo :: native_registration where
  "reg_qqvideo = \<lparr>nr_key = ''qqvideo'', nr_display = [CHR 0xE8, CHR 0x85, CHR 0xBE, CHR 0xE8, CHR 0xAE, CHR 0xAF, CHR 0xE8, CHR 0xA7, CHR 0x86, CHR 0xE9, CHR 0xA2, CHR 0x91], nr_aliases = [],
     nr_hosts = [subdomains_of ''v.qq.com''],
     nr_capabilities = capability_video, nr_query_keys = [''v'', ''vid''], nr_max_requests = 4, nr_max_redirects = 3,
     nr_session_host = [], nr_authorities = metadata_authorities [''vv.video.qq.com''], nr_bind = Some BindShareAndID\<rparr>"

definition reg_sohu :: native_registration where
  "reg_sohu = \<lparr>nr_key = ''sohu'', nr_display = [CHR 0xE6, CHR 0x90, CHR 0x9C, CHR 0xE7, CHR 0x8B, CHR 0x90, CHR 0xE8, CHR 0xA7, CHR 0x86, CHR 0xE9, CHR 0xA2, CHR 0x91], nr_aliases = [],
     nr_hosts = [subdomains_of ''tv.sohu.com'', subdomains_of ''my.tv.sohu.com''],
     nr_capabilities = capability_video, nr_query_keys = [''id'', ''vid''], nr_max_requests = 4, nr_max_redirects = 3,
     nr_session_host = sohu_session_host, nr_authorities = [], nr_bind = Some BindShareAndID\<rparr>"

definition reg_cctv :: native_registration where
  "reg_cctv = \<lparr>nr_key = ''cctv'', nr_display = [CHR 0xE5, CHR 0xA4, CHR 0xAE, CHR 0xE8, CHR 0xA7, CHR 0x86, CHR 0xE7, CHR 0xBD, CHR 0x91], nr_aliases = [],
     nr_hosts = [subdomains_of ''tv.cctv.cn'', subdomains_of ''tv.cctv.com''],
     nr_capabilities = capability_video, nr_query_keys = [''pid''], nr_max_requests = 4, nr_max_redirects = 3,
     nr_session_host = [], nr_authorities = metadata_authorities [''vdn.apps.cntv.cn''], nr_bind = Some BindShareAndID\<rparr>"

definition native_registrations :: "native_registration list" where
  "native_registrations = [reg_douyin, reg_kuaishou, reg_zuiyou, reg_xigua, reg_pipixia, reg_weishi, reg_huoshan, reg_lishipin, reg_pipigaoxiao, reg_quanmin, reg_huya, reg_acfun, reg_weibo, reg_lvzhou, reg_meipai, reg_doupai, reg_quanminkge, reg_sixroom, reg_xinpianchang, reg_haokan, reg_redbook, reg_bilibili, reg_twitter, reg_qqvideo, reg_sohu, reg_cctv]"

section \<open>Descriptors\<close>

text \<open>\<open>descriptorsFromRegistrations\<close>; \<open>new\<close> makes the constructor of a registration.\<close>
definition descriptor_of :: "(native_registration \<Rightarrow> 'p) \<Rightarrow> nat \<Rightarrow> native_registration \<Rightarrow> 'p core_descriptor" where
  "descriptor_of new priority r = \<lparr>rd_key = nr_key r, rd_display = nr_display r, rd_aliases = nr_aliases r, rd_hosts = nr_hosts r,
     rd_capabilities = nr_capabilities r, rd_priority = int priority, rd_query_keys = nr_query_keys r, rd_supports_id = supports_id r,
     rd_max_requests = nr_max_requests r, rd_max_redirects = nr_max_redirects r, rd_session_host = nr_session_host r,
     rd_authority = nr_authorities r @ (if nr_session_host r = [] then [] else
       [\<lparr>ar_purpose = purpose_session_consumer, ar_host = nr_session_host r, ar_subdomains = False, ar_dynamic = False, ar_sensitive = True\<rparr>]),
     rd_new = Some (new r)\<rparr>"

definition descriptors_from :: "(native_registration \<Rightarrow> 'p) \<Rightarrow> native_registration list \<Rightarrow> 'p core_descriptor list" where
  "descriptors_from new regs = map (\<lambda>(i, r). descriptor_of new i r) (enumerate 0 regs)"

definition native_descriptors :: "(native_registration \<Rightarrow> 'p) \<Rightarrow> 'p core_descriptor list" where
  "native_descriptors new = descriptors_from new native_registrations"

section \<open>The views of the catalog\<close>

record source_info =
  si_key :: gostring
  si_display :: gostring
  si_hosts :: "host_rule list"
  si_domains :: "gostring list"
  si_url :: bool
  si_id :: bool

definition source_from_descriptor :: "'p core_descriptor \<Rightarrow> source_info" where
  "source_from_descriptor d = \<lparr>si_key = rd_key d, si_display = rd_display d, si_hosts = rd_hosts d,
     si_domains = map hr_host (rd_hosts d), si_url = True, si_id = rd_supports_id d\<rparr>"

text \<open>\<open>Service.Source\<close> and \<open>CatalogSource\<close>\<close>
definition native_source :: "'p registry \<Rightarrow> gostring \<Rightarrow> source_info option" where
  "native_source reg source = map_option source_from_descriptor (registry_descriptor reg (to_lower (trim_space source)))"

text \<open>\<open>Service.SourceForURL\<close> and \<open>CatalogSourceForURL\<close>\<close>
definition source_for_url :: "idna \<Rightarrow> 'p registry \<Rightarrow> gostring \<Rightarrow> resolve_error + gostring" where
  "source_for_url idna reg raw = rbind (resolve_url idna reg raw) (\<lambda>d. Inr (rd_key d))"

section \<open>The shipped table is a registry\<close>

text \<open>Strings of lower-case letters, digits, dots, dashes and underscores.\<close>
definition plain_char :: "char \<Rightarrow> bool" where
  "plain_char c \<longleftrightarrow> (97 \<le> byte_val c \<and> byte_val c \<le> 122) \<or> (45 \<le> byte_val c \<and> byte_val c \<le> 57 \<and> byte_val c \<noteq> 47) \<or> byte_val c = 95"

definition plain :: "gostring \<Rightarrow> bool" where
  "plain s \<longleftrightarrow> s \<noteq> [] \<and> list_all plain_char s"

lemma leading_of_hd: "\<forall>w \<in> set ws. w \<noteq> [] \<and> hd w \<noteq> hd s \<Longrightarrow> s \<noteq> [] \<Longrightarrow> leading_of ws s = None"
  unfolding leading_of_def find_None_iff
proof
  assume a: "\<forall>w \<in> set ws. w \<noteq> [] \<and> hd w \<noteq> hd s" and s: "s \<noteq> []" and "\<exists>w. w \<in> set ws \<and> w \<noteq> [] \<and> has_prefix s w"
  then obtain w where w: "w \<in> set ws" "has_prefix s w" by blast
  with a have "w \<noteq> []" "hd w \<noteq> hd s" by simp_all
  with w(2) s show False by (cases w; cases s) (simp_all add: has_prefix_def)
qed

lemma plain_not_space: "plain_char c \<Longrightarrow> \<forall>w \<in> set go_spaces. w \<noteq> [] \<and> hd w \<noteq> c \<and> last w \<noteq> c"
  by (auto simp: go_spaces_def plain_char_def)

lemma plain_trim: "plain s \<Longrightarrow> trim_space s = s"
proof -
  assume p: "plain s"
  then have "plain_char (hd s)" "plain_char (last s)" "s \<noteq> []" by (auto simp: plain_def list_all_iff)
  note sp = plain_not_space [OF this(1)] plain_not_space [OF this(2)] this(3)
  have "leading_of go_spaces s = None" by (rule leading_of_hd) (use sp in auto)
  moreover have "leading_of (map rev go_spaces) (rev s) = None"
    by (rule leading_of_hd) (use sp in \<open>auto simp: hd_rev\<close>)
  ultimately show ?thesis by (simp add: trim_space_def trim_left_id)
qed

lemma plain_lower: "plain s \<Longrightarrow> to_lower s = s"
  by (auto simp: plain_def to_lower_def list_all_iff plain_char_def lower_char_def Let_def intro!: map_idI)

lemma plain_contains: "plain s \<Longrightarrow> list_all (\<lambda>c. \<not> plain_char c) cs \<Longrightarrow> \<not> contains_any s cs"
  by (auto simp: plain_def contains_any_def list_all_iff list_ex_iff)

lemma plain_host:
  assumes "plain h" and "last h \<noteq> CHR ''.''" and "idna h = Some h"
  shows "normalize_registry_host idna h = Some h"
proof -
  have "\<not> has_suffix h ''.''" using assms(1,2) by (auto simp: has_suffix_append plain_def)
  then have "trim_suffix h ''.'' = h" by (simp add: trim_suffix_def)
  moreover have "\<not> contains_any h ''/:@[]''" by (rule plain_contains [OF assms(1)]) (simp add: plain_char_def)
  ultimately show ?thesis
    using assms plain_trim [OF assms(1)] plain_lower [OF assms(1)] by (simp add: normalize_registry_host_def plain_def Let_def)
qed

section \<open>When a table is a registry\<close>

lemma check_query_keys_plain:
  "list_all plain ks \<Longrightarrow> distinct ks \<Longrightarrow> set ks \<inter> set seen = {} \<Longrightarrow> check_query_keys ks seen = Inr ks"
proof (induction ks arbitrary: seen)
  case (Cons k ks)
  have "\<not> contains_any k ''&=%''" by (rule plain_contains) (use Cons.prems in \<open>simp_all add: plain_char_def\<close>)
  moreover have "check_query_keys ks (k # seen) = Inr ks" using Cons by auto
  ultimately show ?case using Cons.prems plain_trim [of k] plain_lower [of k] by (simp add: plain_def Let_def)
qed simp

lemma claim_keys_fresh:
  "list_all valid_platform_key names \<Longrightarrow> distinct names \<Longrightarrow> \<forall>n \<in> set names. map_of ks n = None \<Longrightarrow> \<exists>ks'. claim_keys i names ks = Inr ks'"
proof (induction names arbitrary: ks)
  case (Cons n names)
  then have "\<exists>ks'. claim_keys i names (AList.update n i ks) = Inr ks'" by (intro Cons.IH) (auto simp: map_of_update)
  then show ?case using Cons.prems by simp
qed simp

lemma claim_hosts_fresh:
  "\<forall>r \<in> set rules. normalize_registry_host idna (hr_host r) = Some (hr_host r) \<Longrightarrow> distinct (map hr_host rules) \<Longrightarrow>
    \<forall>r \<in> set rules. hr_host r \<notin> set seen \<Longrightarrow> \<forall>r \<in> set rules. \<forall>(l, k) \<in> set owners. k \<noteq> key \<longrightarrow> \<not> host_rules_overlap l r \<Longrightarrow>
    claim_hosts idna key rules seen owners = Inr (rules, owners @ map (\<lambda>r. (r, key)) rules)"
proof (induction rules arbitrary: seen owners)
  case (Cons r rules)
  have none: "find (\<lambda>(l, k). k \<noteq> key \<and> host_rules_overlap l r) owners = None"
    using Cons.prems(4) by (fastforce simp: find_None_iff)
  have sep: "hr_host s \<noteq> hr_host r" if "s \<in> set rules" for s
  proof
    assume "hr_host s = hr_host r"
    with that have "hr_host r \<in> hr_host ` set rules" by (metis imageI)
    with Cons.prems(2) show False by simp
  qed
  have "claim_hosts idna key rules (hr_host r # seen) (owners @ [(r, key)]) = Inr (rules, (owners @ [(r, key)]) @ map (\<lambda>r. (r, key)) rules)"
    by (rule Cons.IH) (use Cons.prems sep in auto)
  with none show ?case using Cons.prems(1,3) by (simp add: or_error_def Let_def)
qed simp

lemma claim_authority_fresh:
  "\<forall>r \<in> set rules. normalize_registry_host idna (ar_host r) = Some (ar_host r) \<Longrightarrow>
    \<exists>res. claim_authority idna key hosts rules reserved = Inr (rules, res) \<and> set res \<subseteq> set reserved \<union> ar_host ` set rules"
proof (induction rules arbitrary: reserved)
  case (Cons r rules)
  have rest: "\<exists>res. claim_authority idna key hosts rules reserved' = Inr (rules, res) \<and> set res \<subseteq> set reserved' \<union> ar_host ` set rules" for reserved'
    using Cons by simp
  show ?case
  proof (cases "ar_dynamic r")
    case True
    then show ?thesis using rest [of reserved] by auto
  next
    case False
    let ?res = "if ar_purpose r \<noteq> purpose_input_share \<and> \<not> has_exact_input_host hosts (ar_host r) then List.insert (ar_host r) reserved else reserved"
    obtain res where "claim_authority idna key hosts rules ?res = Inr (rules, res)" "set res \<subseteq> set ?res \<union> ar_host ` set rules"
      using rest by blast
    then show ?thesis using False Cons.prems by (auto simp: or_error_def split: if_splits)
  qed
qed simp

definition owners_of :: "'p core_descriptor list \<Rightarrow> (host_rule \<times> gostring) list" where
  "owners_of ds = concat (map (\<lambda>d. map (\<lambda>r. (r, rd_key d)) (rd_hosts d)) ds)"

fun owners_disjoint :: "(host_rule \<times> gostring) list \<Rightarrow> bool" where
  "owners_disjoint [] = True"
| "owners_disjoint ((r, k) # os) = (list_all (\<lambda>(l, a). a = k \<or> \<not> host_rules_overlap l r) os \<and> owners_disjoint os)"

lemma owners_disjoint_ok: "owners_disjoint os \<Longrightarrow> owners_ok os"
proof (induction os rule: owners_disjoint.induct)
  case (2 r k os)
  then have "\<forall>(l, a) \<in> set os. a \<noteq> k \<longrightarrow> \<not> host_rules_overlap l r \<and> \<not> host_rules_overlap r l"
    using overlap_sym by (fastforce simp: list_all_iff)
  with 2 show ?case by (fastforce simp: owners_ok_def)
qed (simp add: owners_ok_def)

text \<open>A row by itself: written in the normal form, with the ASCII form of its hosts known.\<close>
definition row_ok :: "idna \<Rightarrow> 'p core_descriptor \<Rightarrow> bool" where
  "row_ok idna d \<longleftrightarrow> \<not> bad_descriptor d \<and> list_all valid_platform_key (rd_aliases d) \<and>
     list_all plain (rd_query_keys d) \<and> distinct (rd_query_keys d) \<and> distinct (map hr_host (rd_hosts d)) \<and>
     (\<forall>r \<in> set (rd_hosts d). normalize_registry_host idna (hr_host r) = Some (hr_host r)) \<and>
     (\<forall>r \<in> set (rd_authority d). normalize_registry_host idna (ar_host r) = Some (ar_host r))"

lemma add_descriptors_fresh:
  assumes "\<forall>d \<in> set ds. row_ok idna d" and "distinct (concat (map descriptor_names ds))"
    and "\<forall>n \<in> set (concat (map descriptor_names ds)). map_of (rg_keys reg) n = None" and "owners_ok (owners @ owners_of ds)"
  shows "\<exists>reg'. add_descriptors idna i ds owners reg = Inr reg' \<and>
    rg_descriptors reg' = rg_descriptors reg @ map (\<lambda>d. d\<lparr>rd_query_keys := sort (rd_query_keys d)\<rparr>) ds \<and>
    set (rg_reserved reg') \<subseteq> set (rg_reserved reg) \<union> ar_host ` set (concat (map rd_authority ds))"
  using assms
proof (induction ds arbitrary: i owners reg)
  case (Cons d ds)
  have ok: "row_ok idna d" using Cons.prems(1) by simp
  have names: "list_all valid_platform_key (rd_key d # rd_aliases d)" using ok by (simp add: row_ok_def bad_descriptor_def)
  have "\<exists>ks. claim_keys i (rd_key d # rd_aliases d) (rg_keys reg) = Inr ks"
    by (rule claim_keys_fresh [OF names]) (use Cons.prems(2,3) in \<open>simp_all add: descriptor_names_def\<close>)
  then obtain ks where ks: "claim_keys i (rd_key d # rd_aliases d) (rg_keys reg) = Inr ks" by blast
  have q: "check_query_keys (rd_query_keys d) [] = Inr (rd_query_keys d)"
    by (rule check_query_keys_plain) (use ok in \<open>simp_all add: row_ok_def\<close>)
  have h: "claim_hosts idna (rd_key d) (rd_hosts d) [] owners = Inr (rd_hosts d, owners @ map (\<lambda>r. (r, rd_key d)) (rd_hosts d))"
  proof (rule claim_hosts_fresh)
    show "\<forall>r \<in> set (rd_hosts d). \<forall>(l, k) \<in> set owners. k \<noteq> rd_key d \<longrightarrow> \<not> host_rules_overlap l r"
    proof (intro ballI)
      fix r x assume "r \<in> set (rd_hosts d)" "x \<in> set owners"
      then have "x \<in> set (owners @ owners_of (d # ds))" "(r, rd_key d) \<in> set (owners @ owners_of (d # ds))" by (auto simp: owners_of_def)
      with Cons.prems(4) show "case x of (l, k) \<Rightarrow> k \<noteq> rd_key d \<longrightarrow> \<not> host_rules_overlap l r"
        unfolding owners_ok_def by (cases x) fastforce
    qed
  qed (use ok in \<open>simp_all add: row_ok_def\<close>)
  obtain res where a: "claim_authority idna (rd_key d) (rd_hosts d) (rd_authority d) (rg_reserved reg) = Inr (rd_authority d, res)"
    and res: "set res \<subseteq> set (rg_reserved reg) \<union> ar_host ` set (rd_authority d)"
    using claim_authority_fresh [of "rd_authority d"] ok unfolding row_ok_def by blast
  let ?d = "d\<lparr>rd_query_keys := sort (rd_query_keys d)\<rparr>"
  let ?reg = "\<lparr>rg_descriptors = rg_descriptors reg @ [?d], rg_keys = ks, rg_reserved = res\<rparr>"
  have d: "d\<lparr>rd_query_keys := sort (rd_query_keys d), rd_hosts := rd_hosts d, rd_authority := rd_authority d\<rparr> = ?d" by simp
  have "\<forall>n \<in> set (concat (map descriptor_names ds)). map_of ks n = None"
    using claim_keys_spec [OF ks] Cons.prems(2,3) by (auto simp: descriptor_names_def)
  moreover have "owners_ok ((owners @ map (\<lambda>r. (r, rd_key d)) (rd_hosts d)) @ owners_of ds)" using Cons.prems(4) by (simp add: owners_of_def)
  ultimately obtain reg' where r: "add_descriptors idna (Suc i) ds (owners @ map (\<lambda>r. (r, rd_key d)) (rd_hosts d)) ?reg = Inr reg'"
    "rg_descriptors reg' = rg_descriptors ?reg @ map (\<lambda>d. d\<lparr>rd_query_keys := sort (rd_query_keys d)\<rparr>) ds"
    "set (rg_reserved reg') \<subseteq> set (rg_reserved ?reg) \<union> ar_host ` set (concat (map rd_authority ds))"
    using Cons.IH [where owners = "owners @ map (\<lambda>r. (r, rd_key d)) (rd_hosts d)" and reg = ?reg and i = "Suc i"] Cons.prems(1,2) by auto
  have "add_descriptors idna i (d # ds) owners reg = Inr reg'"
    using ok ks q h a r(1) d by (simp add: row_ok_def go_errors)
  then show ?case using r(2,3) res by auto
qed simp

text \<open>The hosts the parsers call themselves; a shared link to one of them is not theirs to parse.\<close>
definition native_api_hosts :: "gostring list" where
  "native_api_hosts = map ar_host (concat (map nr_authorities native_registrations)) @
     filter (\<lambda>h. h \<noteq> []) (map nr_session_host native_registrations)"

definition native_hosts :: "gostring list" where
  "native_hosts = map hr_host (concat (map nr_hosts native_registrations)) @ native_api_hosts"

section \<open>The shipped table\<close>

lemma native_hosts_plain: "list_all (\<lambda>h. plain h \<and> last h \<noteq> CHR ''.'') native_hosts"
  by code_simp

lemma native_rows:
  "list_all (\<lambda>r. \<not> bad_descriptor (descriptor_of (\<lambda>_. ()) 0 r) \<and> list_all valid_platform_key (nr_aliases r) \<and>
     list_all plain (nr_query_keys r) \<and> distinct (nr_query_keys r) \<and> distinct (map hr_host (nr_hosts r))) native_registrations"
  by code_simp

lemma native_names: "distinct (concat (map (\<lambda>r. nr_key r # nr_aliases r) native_registrations))"
  by code_simp

lemma native_owners: "owners_disjoint (concat (map (\<lambda>r. map (\<lambda>h. (h, nr_key r)) (nr_hosts r)) native_registrations))"
  by code_simp

lemma native_descriptors_nth:
  "i < length native_registrations \<Longrightarrow> native_descriptors new ! i = descriptor_of new i (native_registrations ! i)"
  by (simp add: native_descriptors_def descriptors_from_def nth_enumerate_eq)

lemma length_native_descriptors [simp]: "length (native_descriptors new) = length native_registrations"
  by (simp add: native_descriptors_def descriptors_from_def)

lemma native_descriptors_map:
  "(\<And>i r. f (descriptor_of new i r) = g r) \<Longrightarrow> map f (native_descriptors new) = map g native_registrations"
  by (intro nth_equalityI) (simp_all add: native_descriptors_nth)

lemma native_descriptors_in:
  "d \<in> set (native_descriptors new) \<Longrightarrow> \<exists>i r. r \<in> set native_registrations \<and> d = descriptor_of new i r"
  by (metis in_set_conv_nth length_native_descriptors native_descriptors_nth nth_mem)

lemma native_sorted: "sort_key descriptor_rank (native_descriptors new) = native_descriptors new"
proof (rule sort_key_id_if_sorted)
  show "sorted (map descriptor_rank (native_descriptors new))"
    unfolding sorted_iff_nth_mono_less
    by (auto simp: native_descriptors_nth descriptor_rank_def descriptor_of_def less_eq_rank_def)
qed

lemma native_authority_hosts:
  assumes "r \<in> set native_registrations" and "x \<in> set (rd_authority (descriptor_of new i r))"
  shows "ar_host x \<in> set native_api_hosts"
proof -
  consider "x \<in> set (nr_authorities r)" | "ar_host x = nr_session_host r" "nr_session_host r \<noteq> []"
    using assms(2) by (auto simp: descriptor_of_def split: if_splits)
  then show ?thesis
  proof cases
    case 1
    then have "x \<in> set (concat (map nr_authorities native_registrations))" using assms(1) by auto
    then show ?thesis unfolding native_api_hosts_def set_append set_map by blast
  next
    case 2
    then show ?thesis using assms(1) unfolding native_api_hosts_def set_append set_filter set_map by simp
  qed
qed

lemma native_row_ok:
  assumes "\<forall>h \<in> set native_hosts. idna h = Some h" and "d \<in> set (native_descriptors new)"
  shows "row_ok idna d"
proof -
  obtain i r where r: "r \<in> set native_registrations" "d = descriptor_of new i r" using native_descriptors_in [OF assms(2)] by blast
  have norm: "normalize_registry_host idna h = Some h" if "h \<in> set native_hosts" for h
    by (rule plain_host) (use that native_hosts_plain assms(1) in \<open>auto simp: list_all_iff\<close>)
  have "hr_host x \<in> set native_hosts" if "x \<in> set (nr_hosts r)" for x using that r(1) by (auto simp: native_hosts_def)
  moreover have "ar_host x \<in> set native_hosts" if "x \<in> set (rd_authority d)" for x
    using native_authority_hosts [OF r(1), of x new i] that unfolding r(2) native_hosts_def by simp
  moreover have "bad_descriptor d \<longleftrightarrow> bad_descriptor (descriptor_of (\<lambda>_. ()) 0 r)"
    by (simp add: r(2) bad_descriptor_def descriptor_of_def)
  ultimately show ?thesis
    using native_rows r norm by (auto simp: row_ok_def list_all_iff descriptor_of_def)
qed

lemma native_registry:
  assumes "\<forall>h \<in> set native_hosts. idna h = Some h"
  obtains reg where "new_registry idna (native_descriptors new) = Inr reg"
    and "rg_descriptors reg = map (\<lambda>d. d\<lparr>rd_query_keys := sort (rd_query_keys d)\<rparr>) (native_descriptors new)"
    and "set (rg_reserved reg) \<subseteq> set native_api_hosts"
proof -
  have names: "map descriptor_names (native_descriptors new) = map (\<lambda>r. nr_key r # nr_aliases r) native_registrations"
    by (rule native_descriptors_map) (simp add: descriptor_names_def descriptor_of_def)
  have owners: "owners_of (native_descriptors new) = concat (map (\<lambda>r. map (\<lambda>h. (h, nr_key r)) (nr_hosts r)) native_registrations)"
    unfolding owners_of_def by (rule arg_cong [where f = concat], rule native_descriptors_map) (simp add: descriptor_of_def)
  have apis: "ar_host ` set (concat (map rd_authority (native_descriptors new))) \<subseteq> set native_api_hosts"
    using native_authority_hosts by (fastforce dest: native_descriptors_in)
  have "\<forall>d \<in> set (native_descriptors new). row_ok idna d" using native_row_ok [OF assms] by blast
  moreover have "distinct (concat (map descriptor_names (native_descriptors new)))" using native_names by (simp add: names)
  moreover have "owners_ok ([] @ owners_of (native_descriptors new))" using owners_disjoint_ok [OF native_owners] by (simp add: owners)
  ultimately obtain reg where "add_descriptors idna 0 (native_descriptors new) [] \<lparr>rg_descriptors = [], rg_keys = [], rg_reserved = []\<rparr> = Inr reg"
    "rg_descriptors reg = map (\<lambda>d. d\<lparr>rd_query_keys := sort (rd_query_keys d)\<rparr>) (native_descriptors new)"
    "set (rg_reserved reg) \<subseteq> ar_host ` set (concat (map rd_authority (native_descriptors new)))"
    using add_descriptors_fresh [where reg = "\<lparr>rg_descriptors = [], rg_keys = [], rg_reserved = []\<rparr>" and owners = "[]" and i = 0
      and ds = "native_descriptors new" and idna = idna] by auto
  then have reg: "new_registry idna (native_descriptors new) = Inr reg"
    "rg_descriptors reg = map (\<lambda>d. d\<lparr>rd_query_keys := sort (rd_query_keys d)\<rparr>) (native_descriptors new)"
    "set (rg_reserved reg) \<subseteq> ar_host ` set (concat (map rd_authority (native_descriptors new)))"
    by (simp_all add: new_registry_def native_sorted)
  then show thesis using that apis by blast
qed

text \<open>
  C24.  The platforms the service ships with form a registry: no key, alias or host rule of one collides
  with another's, and every link whose host is none of the parsers' own upstream hosts is recognised as a
  platform's exactly when one of that platform's host rules matches it.  This is for any IDNA conversion
  that leaves the hosts of the table, which are ASCII, as they are.
\<close>
theorem native_catalog_routes:
  assumes "\<forall>h \<in> set native_hosts. idna h = Some h"
  shows "\<exists>reg. new_registry idna (native_descriptors new) = Inr reg \<and>
    map rd_key (rg_descriptors reg) = map nr_key native_registrations \<and>
    (\<forall>raw host r. request_host idna raw = Some host \<longrightarrow> host \<notin> set native_api_hosts \<longrightarrow> r \<in> set native_registrations \<longrightarrow>
       (source_for_url idna reg raw = Inr (nr_key r) \<longleftrightarrow> (\<exists>h \<in> set (nr_hosts r). host_rule_matches h host)))"
proof -
  obtain reg where reg: "new_registry idna (native_descriptors new) = Inr reg"
    "rg_descriptors reg = map (\<lambda>d. d\<lparr>rd_query_keys := sort (rd_query_keys d)\<rparr>) (native_descriptors new)"
    "set (rg_reserved reg) \<subseteq> set native_api_hosts"
    using native_registry [OF assms] by blast
  have keys: "map rd_key (rg_descriptors reg) = map nr_key native_registrations"
    unfolding reg(2) map_map by (rule native_descriptors_map) (simp add: descriptor_of_def)
  have pairs: "(\<lambda>d. (rd_key d, rd_hosts d)) ` set (rg_descriptors reg) = (\<lambda>r. (nr_key r, nr_hosts r)) ` set native_registrations"
  proof -
    have "map (\<lambda>d. (rd_key d, rd_hosts d)) (rg_descriptors reg) = map (\<lambda>r. (nr_key r, nr_hosts r)) native_registrations"
      unfolding reg(2) map_map by (rule native_descriptors_map) (simp add: descriptor_of_def)
    then show ?thesis by (metis list.set_map)
  qed
  have "distinct (map nr_key native_registrations)" by code_simp
  then have inj: "inj_on nr_key (set native_registrations)" by (simp add: distinct_map)
  have "source_for_url idna reg raw = Inr (nr_key r) \<longleftrightarrow> (\<exists>h \<in> set (nr_hosts r). host_rule_matches h host)"
    if h: "request_host idna raw = Some host" "host \<notin> set native_api_hosts" and r: "r \<in> set native_registrations" for raw host r
  proof -
    have iff: "resolve_url idna reg raw = Inr d \<longleftrightarrow> d \<in> set (rg_descriptors reg) \<and> (\<exists>x \<in> set (rd_hosts d). host_rule_matches x host)" for d
      using resolve_url_iff [OF reg(1) h(1)] h(2) reg(3) by blast
    have hosts: "rd_hosts d = nr_hosts r" if "d \<in> set (rg_descriptors reg)" "rd_key d = nr_key r" for d
    proof -
      have "(rd_key d, rd_hosts d) \<in> (\<lambda>r. (nr_key r, nr_hosts r)) ` set native_registrations" using that(1) pairs by blast
      then obtain q where "q \<in> set native_registrations" "rd_key d = nr_key q" "rd_hosts d = nr_hosts q" by auto
      then show ?thesis using inj r that(2) by (metis inj_onD)
    qed
    obtain d where d: "d \<in> set (rg_descriptors reg)" "rd_key d = nr_key r" using keys r by (metis (no_types, lifting) in_set_conv_nth length_map nth_map)
    show ?thesis
    proof
      assume "source_for_url idna reg raw = Inr (nr_key r)"
      then obtain e where e: "resolve_url idna reg raw = Inr e" "rd_key e = nr_key r"
        by (cases "resolve_url idna reg raw") (auto simp: source_for_url_def)
      then show "\<exists>h \<in> set (nr_hosts r). host_rule_matches h host" using iff hosts by metis
    next
      assume "\<exists>h \<in> set (nr_hosts r). host_rule_matches h host"
      then have "resolve_url idna reg raw = Inr d" using iff d hosts by metis
      then show "source_for_url idna reg raw = Inr (nr_key r)" using d by (simp add: source_for_url_def)
    qed
  qed
  then show ?thesis using reg(1) keys by blast
qed

theorem native_catalog_routes_witness:
  "\<exists>reg. new_registry Some (native_descriptors (\<lambda>_. ())) = Inr reg \<and> source_for_url Some reg ''https://v.douyin.com/abc/'' = Inr ''douyin''"
proof -
  obtain reg where reg: "new_registry Some (native_descriptors (\<lambda>_. ())) = Inr reg"
    and routes: "\<And>raw host r. request_host Some raw = Some host \<Longrightarrow> host \<notin> set native_api_hosts \<Longrightarrow> r \<in> set native_registrations \<Longrightarrow>
      source_for_url Some reg raw = Inr (nr_key r) \<longleftrightarrow> (\<exists>h \<in> set (nr_hosts r). host_rule_matches h host)"
    using native_catalog_routes [of Some "\<lambda>_. ()"] by blast
  have "normalize_registry_host Some ''v.douyin.com'' = Some ''v.douyin.com''"
    by (rule plain_host) (simp_all add: plain_def plain_char_def)
  moreover have "Option.bind (new_fetch_url Some (trim_space ''https://v.douyin.com/abc/''))
      (\<lambda>t. map_option url_hostname (url_parse (safe_url (Some t)))) = Some ''v.douyin.com''" by code_simp
  then obtain t u where "new_fetch_url Some (trim_space ''https://v.douyin.com/abc/'') = Some t" "url_parse (safe_url (Some t)) = Some u"
    "url_hostname u = ''v.douyin.com''" by (auto simp: bind_eq_Some_conv)
  ultimately have h: "request_host Some ''https://v.douyin.com/abc/'' = Some ''v.douyin.com''"
    by (simp add: request_host_def)
  have a: "''v.douyin.com'' \<notin> set native_api_hosts" by code_simp
  have r: "reg_douyin \<in> set native_registrations" unfolding native_registrations_def by (rule list.set_intros(1))
  have k: "nr_key reg_douyin = ''douyin''" "list_ex (\<lambda>h. host_rule_matches h ''v.douyin.com'') (nr_hosts reg_douyin)" by code_simp+
  show ?thesis using reg routes [OF h a r] k by (auto simp: list_ex_iff)
qed

end
