(* ===== verification/NativeAdapter.thy ===== *)
theory NativeAdapter imports
  NativeCatalog
begin

text \<open>
  The adapter between the platforms' scrapers and the rest of the service (\<open>legacyAdapter\<close> in
  \<open>internal/parser/native/descriptors.go\<close>, \<open>http_client.go\<close> and the use of it in \<open>parser.go\<close>): one request
  budget per parse, session material with one refresh, sanitised errors, the projection of a snapshot
  onto a result.  A scraper is an argument over the world and the budget; a state is their pair.
\<close>

section \<open>Scrapers\<close>

text \<open>An error with what it wraps, and whether \<open>errors.Is\<close> finds the end of a context in it.\<close>
datatype native_error = NativeError (ne_context: bool) (ne_error: core_error)

abbreviation NativeCore :: "core_error \<Rightarrow> native_error" where
  "NativeCore \<equiv> NativeError False"

record video_info =
  vi_uid :: gostring
  vi_name :: gostring
  vi_avatar :: gostring
  vi_title :: gostring
  vi_video :: gostring
  vi_preview :: gostring
  vi_music :: gostring
  vi_cover :: gostring
  vi_images :: "image_asset list"
  vi_candidates :: "media_candidate list"

record legacy_clients =
  lc_max_redirects :: int
  lc_weibo :: gostring
  lc_xigua :: gostring
  lc_token :: "material option"

type_synonym 'w scraper = "gostring \<Rightarrow> 'w \<times> budget \<Rightarrow> (native_error + video_info option) \<times> ('w \<times> budget)"

record 'w native_binding =
  nb_share :: "'w scraper option"
  nb_id :: "'w scraper option"

text \<open>The provider of session material, its \<open>Get\<close> with the loader, and its \<open>InvalidateFor\<close>.\<close>
record 'w session_ops =
  so_get :: "session_key \<Rightarrow> 'w \<times> budget \<Rightarrow> (native_error + material) \<times> ('w \<times> budget)"
  so_invalidate :: "session_key \<Rightarrow> material \<Rightarrow> native_error \<Rightarrow> 'w \<times> budget \<Rightarrow> 'w \<times> budget"

record 'w native_deps =
  nd_fetcher :: bool
  nd_sessions :: "'w session_ops option"
  nd_loader :: bool
  nd_weibo :: gostring
  nd_xigua :: gostring
  nd_token :: "material option"

record 'w adapter =
  la_key :: gostring
  la_capabilities :: capability
  la_deps :: "'w native_deps"
  la_max_requests :: int
  la_max_redirects :: int
  la_session_host :: gostring
  la_bind :: "(legacy_clients \<Rightarrow> 'w native_binding) option"

record adapter_request =
  aq_url :: "url option"
  aq_id :: gostring

definition plain_error :: "gostring \<Rightarrow> native_error" where
  "plain_error text = NativeCore (OtherError text None)"

text \<open>The constructor a descriptor carries; \<open>bind\<close> finds the scrapers of a registration.\<close>
definition adapter_new :: "(native_registration \<Rightarrow> legacy_clients \<Rightarrow> 'w native_binding) \<Rightarrow> native_registration
    \<Rightarrow> 'w native_deps \<Rightarrow> native_error + 'w adapter" where
  "adapter_new bind r deps =
     (if \<not> nd_fetcher deps then Inl (plain_error ''native parser requires a guarded fetcher'')
      else if nr_bind r = None then Inl (plain_error ''native parser binding is absent'')
      else Inr \<lparr>la_key = nr_key r, la_capabilities = nr_capabilities r, la_deps = deps, la_max_requests = nr_max_requests r,
        la_max_redirects = nr_max_redirects r, la_session_host = nr_session_host r, la_bind = Some (bind r)\<rparr>)"

section \<open>The clients of a scraper\<close>

definition redirect_limit :: "legacy_clients \<Rightarrow> int" where
  "redirect_limit c = (if lc_max_redirects c \<le> 0 then 3 else lc_max_redirects c)"

text \<open>\<open>budgetRoundTripper.RoundTrip\<close>; the wrapped budget error is one \<open>errors.As\<close> finds no parser error in.\<close>
definition native_round_trip :: "idna \<Rightarrow> ('w \<Rightarrow> gotime) \<Rightarrow> (gostring \<Rightarrow> 'w \<Rightarrow> (native_error + 'r) \<times> 'w) \<Rightarrow> gostring
    \<Rightarrow> 'w \<times> budget \<Rightarrow> (native_error + 'r) \<times> ('w \<times> budget)" where
  "native_round_trip idna clock following req s =
     (case new_fetch_url idna req of
        None \<Rightarrow> (Inl (NativeCore (ParseError SecurityRejected (Some (OtherError ''parser request URL rejected'' None)))), s)
      | Some target \<Rightarrow>
          (case allow_fetch (clock (fst s)) (Some target) (snd s) of
             (Some e, b) \<Rightarrow> (Inl (plain_error ''guarded parser request rejected''), (fst s, b))
           | (None, b) \<Rightarrow> let (r, w) = following req (fst s) in (r, (w, b))))"

text \<open>The redirect hook: the budget first, then the hook of the base client.\<close>
definition native_redirect :: "('w \<Rightarrow> gotime) \<Rightarrow> ('w \<times> budget \<Rightarrow> native_error option) \<Rightarrow> 'w \<times> budget \<Rightarrow> native_error option \<times> ('w \<times> budget)" where
  "native_redirect clock hook s =
     (case allow_redirect (clock (fst s)) (snd s) of
        (Some e, b) \<Rightarrow> (Some (plain_error ''budget''), (fst s, b))
      | (None, b) \<Rightarrow> (hook (fst s, b), (fst s, b)))"

section \<open>Snapshots and results\<close>

definition normalized_or_empty :: "idna \<Rightarrow> gostring \<Rightarrow> gostring" where
  "normalized_or_empty idna raw = (case normalize_external_url idna raw of None \<Rightarrow> [] | Some u \<Rightarrow> u)"

definition no_metadata :: media_candidate where
  "no_metadata = \<lparr>mc_url = [], mc_kind = KindOther [], mc_quality = 0, mc_bitrate = 0, mc_width = 0, mc_height = 0, mc_source = 0\<rparr>"

text \<open>The candidates of a snapshot or a result, with its video and audio.\<close>
definition all_candidates :: "idna \<Rightarrow> media_candidate list \<Rightarrow> gostring \<Rightarrow> gostring \<Rightarrow> media_candidate list" where
  "all_candidates idna cs video audio =
     sort_candidates (append_usable idna (append_usable idna (normalize_candidates idna cs) video KindVideo no_metadata) audio KindAudio no_metadata)"

definition media_or_candidate :: "idna \<Rightarrow> media_candidate list \<Rightarrow> media_kind \<Rightarrow> gostring \<Rightarrow> gostring" where
  "media_or_candidate idna cs kind raw =
     (if normalized_or_empty idna raw = [] then first_candidate_url cs kind else normalized_or_empty idna raw)"

definition legacy_to_result :: "idna \<Rightarrow> gostring \<Rightarrow> video_info \<Rightarrow> core_result" where
  "legacy_to_result idna platform i =
     (let cs = all_candidates idna (vi_candidates i) (vi_video i) (vi_music i) in
      \<lparr>cr_platform = platform, cr_uid = vi_uid i, cr_name = vi_name i, cr_avatar = vi_avatar i, cr_title = vi_title i,
       cr_video = media_or_candidate idna cs KindVideo (vi_video i), cr_preview = vi_preview i,
       cr_audio = media_or_candidate idna cs KindAudio (vi_music i), cr_cover = vi_cover i,
       cr_images = map (\<lambda>x. \<lparr>im_url = im_url x, im_live = im_live x\<rparr>) (vi_images i), cr_candidates = cs\<rparr>)"

definition result_to_legacy :: "idna \<Rightarrow> core_result \<Rightarrow> video_info" where
  "result_to_legacy idna r =
     (let cs = all_candidates idna (cr_candidates r) (cr_video r) (cr_audio r) in
      \<lparr>vi_uid = cr_uid r, vi_name = cr_name r, vi_avatar = cr_avatar r, vi_title = cr_title r,
       vi_video = media_or_candidate idna cs KindVideo (cr_video r), vi_preview = cr_preview r,
       vi_music = media_or_candidate idna cs KindAudio (cr_audio r), vi_cover = cr_cover r,
       vi_images = map (\<lambda>x. \<lparr>im_url = im_url x, im_live = im_live x\<rparr>) (cr_images r), vi_candidates = cs\<rparr>)"

text \<open>\<open>applyMediaCandidates\<close>\<close>
definition apply_candidates :: "media_candidate list \<Rightarrow> video_info \<Rightarrow> video_info" where
  "apply_candidates cs i = i\<lparr>vi_candidates := sort_candidates cs, vi_video := first_candidate_url (sort_candidates cs) KindVideo\<rparr>"

section \<open>Parsing\<close>

definition native_code :: "native_error \<Rightarrow> error_code option" where
  "native_code e = parse_code (ne_error e)"

definition sanitize_error :: "native_error \<Rightarrow> native_error" where
  "sanitize_error e =
     (if ne_context e then e
      else (case native_code e of
          Some code \<Rightarrow> NativeCore (ParseError code (Some (OtherError ''native parser rejected the upstream snapshot'' None)))
        | None \<Rightarrow> NativeCore (ParseError UpstreamFailed (Some (OtherError ''native parser failed'' None)))))"

definition parse_legacy :: "'w adapter \<Rightarrow> legacy_clients \<Rightarrow> adapter_request \<Rightarrow> 'w \<times> budget
    \<Rightarrow> (native_error + video_info option) \<times> ('w \<times> budget)" where
  "parse_legacy a clients req s =
     (case la_bind a of
        None \<Rightarrow> (Inl (plain_error ''native parser adapter is absent''), s)
      | Some bind \<Rightarrow>
          if trim_space (aq_id req) \<noteq> [] then
            (case nb_id (bind clients) of
               None \<Rightarrow> (Inl (plain_error ''native parser does not support IDs''), s)
             | Some f \<Rightarrow> f (aq_id req) s)
          else (case (aq_url req, nb_share (bind clients)) of
               (Some u, Some f) \<Rightarrow> f (url_string u) s
             | _ \<Rightarrow> (Inl (plain_error ''native parser URL is required''), s)))"

text \<open>The secret, the material with its key where the provider gave it.\<close>
definition session_secret :: "'w adapter \<Rightarrow> 'w \<times> budget
    \<Rightarrow> (native_error + (material option \<times> (material \<times> session_key) option)) \<times> ('w \<times> budget)" where
  "session_secret a s =
     (let deps = la_deps a in
      if la_session_host a = [] then (Inr (nd_token deps, None), s)
      else (case nd_sessions deps of
          None \<Rightarrow>
            if \<not> nd_loader deps then (Inr (nd_token deps, None), s)
            else (Inl (NativeCore (ParseError CredentialRequired (Some (OtherError ''session material dependency is incomplete'' None)))), s)
        | Some ops \<Rightarrow>
            if \<not> nd_loader deps
            then (Inl (NativeCore (ParseError CredentialRequired (Some (OtherError ''session material dependency is incomplete'' None)))), s)
            else let key = \<lparr>sk_platform = la_key a, sk_host = la_session_host a\<rparr> in
              (case so_get ops key s of (Inl e, s') \<Rightarrow> (Inl e, s') | (Inr m, s') \<Rightarrow> (Inr (Some m, Some (m, key)), s'))))"

text \<open>\<open>RefreshOnce\<close> with a fresh guard: None when it does not refresh.\<close>
definition refresh_once :: "'w session_ops \<Rightarrow> session_key \<Rightarrow> material \<Rightarrow> native_error \<Rightarrow> 'w \<times> budget
    \<Rightarrow> (native_error + material) option \<times> ('w \<times> budget)" where
  "refresh_once ops key m e s =
     (if native_code e \<noteq> Some SessionExpired then (None, s)
      else let (x, s') = so_get ops key (so_invalidate ops key m e s) in (Some x, s'))"

text \<open>The snapshot, with one more attempt on new session material.\<close>
definition take_snapshot :: "'w adapter \<Rightarrow> adapter_request \<Rightarrow> 'w \<times> budget \<Rightarrow> (native_error + video_info option) \<times> ('w \<times> budget)" where
  "take_snapshot a req s =
     (case session_secret a s of
        (Inl e, s1) \<Rightarrow> (Inl (sanitize_error e), s1)
      | (Inr (secret, backed), s1) \<Rightarrow>
          let clients = \<lparr>lc_max_redirects = la_max_redirects a, lc_weibo = trim_space (nd_weibo (la_deps a)),
                lc_xigua = trim_space (nd_xigua (la_deps a)), lc_token = secret\<rparr> in
          (case parse_legacy a clients req s1 of
             (Inr r, s2) \<Rightarrow> (Inr r, s2)
           | (Inl e, s2) \<Rightarrow>
               (case (backed, nd_sessions (la_deps a)) of
                  (Some (m, key), Some ops) \<Rightarrow>
                    (case refresh_once ops key m e s2 of
                       (None, s3) \<Rightarrow> (Inl (sanitize_error e), s3)
                     | (Some (Inl e'), s3) \<Rightarrow> (Inl (sanitize_error e'), s3)
                     | (Some (Inr m'), s3) \<Rightarrow>
                         (case parse_legacy a (clients\<lparr>lc_token := Some m'\<rparr>) req s3 of
                            (Inl e', s4) \<Rightarrow> (Inl (sanitize_error e'), s4)
                          | (Inr r, s4) \<Rightarrow> (Inr r, s4)))
                | _ \<Rightarrow> (Inl (sanitize_error e), s2))))"

text \<open>
  \<open>legacyAdapter.Parse\<close>.  \<open>ctx\<close> is the error of the caller's context; the budget is made at \<open>now1\<close> and
  bound at \<open>now2\<close> (readings of its clock), with \<open>wall1\<close> and \<open>wall2\<close> those of the machine.
\<close>
definition adapter_parse :: "idna \<Rightarrow> native_error option \<Rightarrow> gotime option \<Rightarrow> gotime \<Rightarrow> gotime \<Rightarrow> gotime \<Rightarrow> gotime
    \<Rightarrow> 'w adapter \<Rightarrow> adapter_request \<Rightarrow> 'w \<Rightarrow> (native_error + core_result) \<times> 'w" where
  "adapter_parse idna ctx parent wall1 now1 wall2 now2 a req w =
     (case ctx of
        Some e \<Rightarrow> (Inl e, w)
      | None \<Rightarrow> (case new_budget (la_max_requests a) (la_max_redirects a) (20 * second) wall1 now1 of
          None \<Rightarrow> (Inl (plain_error ''invalid parser request budget''), w)
        | Some b \<Rightarrow> (case bind_context b parent wall2 now2 of
            Inl _ \<Rightarrow> (Inl (plain_error ''budget''), w)
          | Inr _ \<Rightarrow> (case take_snapshot a req (w, b) of
              (Inl e, (w', _)) \<Rightarrow> (Inl e, w')
            | (Inr None, (w', _)) \<Rightarrow>
                (Inl (NativeCore (ParseError SchemaChanged (Some (OtherError ''native parser returned an empty snapshot'' None)))), w')
            | (Inr (Some i), (w', _)) \<Rightarrow>
                let r = legacy_to_result idna (la_key a) i;
                    d = \<lparr>rd_key = [], rd_display = [], rd_aliases = [], rd_hosts = [], rd_capabilities = la_capabilities a, rd_priority = 0,
                      rd_query_keys = [], rd_supports_id = False, rd_max_requests = 0, rd_max_redirects = 0, rd_session_host = [],
                      rd_authority = [], rd_new = (None :: unit option)\<rparr>
                in (if validate_against d r then Inr r
                    else Inl (NativeCore (ParseError SchemaChanged (Some (OtherError ''parser result does not match descriptor capabilities'' None)))), w')))))"

section \<open>The service over the table\<close>

datatype service_error = ServiceNative native_error | ServiceResolve resolve_error | ServiceURL | ServiceInput gostring

text \<open>\<open>Service.ParseVideoShareURL\<close>; \<open>run\<close> is the adapter's \<open>Parse\<close>.\<close>
definition parse_share_url :: "idna \<Rightarrow> ('w native_deps \<Rightarrow> native_error + 'w adapter) registry \<Rightarrow> 'w native_deps
    \<Rightarrow> ('w adapter \<Rightarrow> adapter_request \<Rightarrow> 'w \<Rightarrow> (native_error + core_result) \<times> 'w) \<Rightarrow> gostring \<Rightarrow> 'w
    \<Rightarrow> (service_error + video_info) \<times> 'w" where
  "parse_share_url idna reg deps run raw w =
     (case resolve_url idna reg (trim_space raw) of
        Inl e \<Rightarrow> (Inl (ServiceResolve e), w)
      | Inr d \<Rightarrow> (case rd_new d of
          None \<Rightarrow> (Inl (ServiceInput ''constructor''), w)
        | Some new \<Rightarrow> (case new deps of
            Inl e \<Rightarrow> (Inl (ServiceNative e), w)
          | Inr a \<Rightarrow> (case normalize_fetch_url idna d raw of
              None \<Rightarrow> (Inl ServiceURL, w)
            | Some u \<Rightarrow> (case run a \<lparr>aq_url = Some u, aq_id = []\<rparr> w of
                (Inl e, w') \<Rightarrow> (Inl (ServiceNative e), w')
              | (Inr r, w') \<Rightarrow> (Inr (result_to_legacy idna r), w'))))))"

definition parse_video_id :: "idna \<Rightarrow> ('w native_deps \<Rightarrow> native_error + 'w adapter) registry \<Rightarrow> 'w native_deps
    \<Rightarrow> ('w adapter \<Rightarrow> adapter_request \<Rightarrow> 'w \<Rightarrow> (native_error + core_result) \<times> 'w) \<Rightarrow> gostring \<Rightarrow> gostring \<Rightarrow> 'w
    \<Rightarrow> (service_error + video_info) \<times> 'w" where
  "parse_video_id idna reg deps run source video w =
     (if trim_space video = [] \<or> trim_space source = [] then (Inl (ServiceInput ''video id or source is empty''), w)
      else (case registry_descriptor reg (to_lower (trim_space source)) of
          None \<Rightarrow> (Inl (ServiceInput ''unknown parser source''), w)
        | Some d \<Rightarrow>
            if \<not> rd_supports_id d then (Inl (ServiceInput ''source has no video id parser''), w)
            else (case rd_new d of
                None \<Rightarrow> (Inl (ServiceInput ''constructor''), w)
              | Some new \<Rightarrow> (case new deps of
                  Inl e \<Rightarrow> (Inl (ServiceNative e), w)
                | Inr a \<Rightarrow> (case run a \<lparr>aq_url = None, aq_id = video\<rparr> w of
                    (Inl e, w') \<Rightarrow> (Inl (ServiceNative e), w')
                  | (Inr r, w') \<Rightarrow> (Inr (result_to_legacy idna r), w'))))))"

section \<open>What the adapter guarantees\<close>

lemma normalized_or_empty_ok: "normalized_or_empty idna raw = u \<Longrightarrow> u \<noteq> [] \<Longrightarrow> \<exists>x. normalize_external_url idna x = Some u"
  by (auto simp: normalized_or_empty_def split: option.splits)

text \<open>Candidates whose URL came out of the guard.\<close>
definition guarded :: "idna \<Rightarrow> media_candidate list \<Rightarrow> bool" where
  "guarded idna cs \<longleftrightarrow> (\<forall>c \<in> set cs. \<exists>x. normalize_external_url idna x = Some (mc_url c))"

lemma fill_first_urls: "fill_first P m cs = Some cs' \<Longrightarrow> map mc_url cs' = map mc_url cs"
  by (induction cs arbitrary: cs') (auto split: if_splits)

lemma guarded_iff: "guarded idna cs \<longleftrightarrow> (\<forall>u \<in> set (map mc_url cs). \<exists>x. normalize_external_url idna x = Some u)"
  by (simp add: guarded_def)

lemma guarded_append: "guarded idna cs \<Longrightarrow> guarded idna (append_usable idna cs raw kind m)"
proof (cases "normalize_external_url idna raw")
  case (Some u)
  assume g: "guarded idna cs"
  let ?m = "m\<lparr>mc_url := u, mc_kind := kind, mc_source := int (length cs)\<rparr>"
  show ?thesis
  proof (cases "fill_first (\<lambda>c. mc_url c = u \<and> mc_kind c = kind) ?m cs")
    case None
    then have "append_usable idna cs raw kind m = cs @ [?m]" using Some by (simp add: append_usable_def Let_def)
    then show ?thesis using g Some by (auto simp: guarded_def)
  next
    case filled: (Some cs')
    then have "append_usable idna cs raw kind m = cs'" using Some by (simp add: append_usable_def Let_def)
    then show ?thesis using g fill_first_urls [OF filled] by (simp add: guarded_iff)
  qed
qed (simp add: append_usable_def)

lemma guarded_sort: "guarded idna (sort_candidates cs) = guarded idna cs"
  by (simp add: guarded_def sort_candidates_key)

lemma guarded_normalize: "guarded idna (normalize_candidates idna cs)"
proof -
  have "seen_ok [] []" "collected idna cs []" by (simp_all add: seen_ok_def collected_def)
  from normalize_loop_spec [OF this subset_refl refl] have "collected idna cs (normalize_loop idna cs [] [])" by blast
  then show ?thesis unfolding normalize_candidates_def guarded_sort by (auto simp: guarded_def collected_def)
qed

lemma guarded_all: "guarded idna (all_candidates idna cs video audio)"
  by (simp add: all_candidates_def guarded_sort guarded_append guarded_normalize)

lemma media_or_candidate_guarded:
  "guarded idna cs \<Longrightarrow> media_or_candidate idna cs kind raw = u \<Longrightarrow> u \<noteq> [] \<Longrightarrow> \<exists>x. normalize_external_url idna x = Some u"
  by (auto simp: media_or_candidate_def first_candidate_url_def guarded_def find_Some_iff normalized_or_empty_ok
    split: if_splits option.splits)

text \<open>
  A result an adapter answers belongs to its platform, has some media, only media of the kinds the
  platform declares, and as video, as audio and as candidates only URLs the fetch guard has accepted.
\<close>
theorem adapter_result_ok:
  assumes "adapter_parse idna ctx parent wall1 now1 wall2 now2 a req w = (Inr r, w')"
  shows "cr_platform r = la_key a \<and> (cr_video r \<noteq> [] \<or> cr_audio r \<noteq> [] \<or> cr_images r \<noteq> []) \<and>
    (cr_video r \<noteq> [] \<longrightarrow> and (la_capabilities a) capability_video \<noteq> 0) \<and>
    (cr_audio r \<noteq> [] \<longrightarrow> and (la_capabilities a) capability_audio \<noteq> 0) \<and>
    (cr_images r \<noteq> [] \<longrightarrow> and (la_capabilities a) capability_gallery \<noteq> 0) \<and>
    (\<forall>u \<in> set ([cr_video r, cr_audio r] @ map mc_url (cr_candidates r)). u \<noteq> [] \<longrightarrow> (\<exists>x. normalize_external_url idna x = Some u))"
proof -
  obtain b i s where n: "new_budget (la_max_requests a) (la_max_redirects a) (20 * second) wall1 now1 = Some b"
    and sn: "take_snapshot a req (w, b) = (Inr (Some i), s)" and r: "r = legacy_to_result idna (la_key a) i"
    and v: "validate_against \<lparr>rd_key = [], rd_display = [], rd_aliases = [], rd_hosts = [], rd_capabilities = la_capabilities a, rd_priority = 0,
        rd_query_keys = [], rd_supports_id = False, rd_max_requests = 0, rd_max_redirects = 0, rd_session_host = [],
        rd_authority = [], rd_new = (None :: unit option)\<rparr> r"
    using assms unfolding adapter_parse_def Let_def
    by (auto split: option.splits sum.splits prod.splits if_splits)
  have c: "guarded idna (cr_candidates r)" by (simp add: r legacy_to_result_def Let_def guarded_all)
  have "cr_video r = media_or_candidate idna (cr_candidates r) KindVideo (vi_video i)"
    "cr_audio r = media_or_candidate idna (cr_candidates r) KindAudio (vi_music i)" "cr_platform r = la_key a"
    by (simp_all add: r legacy_to_result_def Let_def)
  then show ?thesis
    using v c media_or_candidate_guarded [OF c] by (auto simp: validate_against_def has_capability_def guarded_def Let_def)
qed

text \<open>The errors an adapter makes up itself: a class and one of a few fixed texts, wrapping nothing.\<close>
definition sanitized :: "native_error \<Rightarrow> bool" where
  "sanitized e \<longleftrightarrow> (\<exists>code text. e = NativeCore (ParseError code (Some (OtherError text None))) \<and>
     text \<in> {''native parser rejected the upstream snapshot'', ''native parser failed'', ''native parser returned an empty snapshot'',
       ''parser result does not match descriptor capabilities''}) \<or>
     e = plain_error ''invalid parser request budget'' \<or> e = plain_error ''budget''"

lemma sanitize_ok: "ne_context (sanitize_error e) \<or> sanitized (sanitize_error e)"
  by (auto simp: sanitize_error_def sanitized_def split: option.splits)

lemma sanitized_texts: "sanitized (plain_error ''invalid parser request budget'')" "sanitized (plain_error ''budget'')"
  "sanitized (NativeCore (ParseError SchemaChanged (Some (OtherError ''native parser returned an empty snapshot'' None))))"
  "sanitized (NativeCore (ParseError SchemaChanged (Some (OtherError ''parser result does not match descriptor capabilities'' None))))"
  by (simp_all add: sanitized_def)

lemma snapshot_sanitized: "take_snapshot a req s = (Inl e, s') \<Longrightarrow> ne_context e \<or> sanitized e"
  unfolding take_snapshot_def Let_def
  by (auto split: sum.splits prod.splits option.splits) (use sanitize_ok in blast)+

text \<open>
  C25.  Unless it wraps the end of a context, an error that reaches the caller of an adapter has nothing of what
  an upstream page or a scraper said: it carries a class and one of a few fixed texts, whatever the scraper,
  the sessions and the network answer.  (An error that wraps the end of a context passes as it is, see
  \<open>context_error_passes\<close>.)
\<close>
theorem adapter_errors_sanitized:
  assumes "adapter_parse idna None parent wall1 now1 wall2 now2 a req w = (Inl e, w')"
  shows "ne_context e \<or> sanitized e"
  using assms unfolding adapter_parse_def Let_def
  by (auto simp: sanitized_texts dest: snapshot_sanitized split: option.splits sum.splits prod.splits if_splits)

section \<open>One budget for a parse\<close>

text \<open>A step that reaches the network only through the budget, by the log of the world.\<close>
definition budgeted :: "('w \<Rightarrow> gostring list) \<Rightarrow> ('w \<times> budget \<Rightarrow> 'a \<times> ('w \<times> budget)) \<Rightarrow> bool" where
  "budgeted log f \<longleftrightarrow> (\<forall>s0 s. spent_since log s0 s \<longrightarrow> spent_since log s0 (snd (f s)))"

lemma budgetedD: "budgeted log f \<Longrightarrow> spent_since log s0 s \<Longrightarrow> f s = (x, s') \<Longrightarrow> spent_since log s0 s'"
  unfolding budgeted_def by (metis snd_conv)

lemma budgetedI: "(\<And>s0 s. spent_since log s0 s \<Longrightarrow> spent_since log s0 (snd (f s))) \<Longrightarrow> budgeted log f"
  unfolding budgeted_def by blast

lemma budgetedS: "budgeted log f \<Longrightarrow> spent_since log s0 s \<Longrightarrow> spent_since log s0 (snd (f s))"
  unfolding budgeted_def by blast

text \<open>The clients of a scraper are such.\<close>
lemma native_client_budgeted:
  assumes "\<And>req w. log (snd (following req w)) = fetch_fingerprint (new_fetch_url idna req) # log w"
  shows "budgeted log (native_round_trip idna clock following req)" and "budgeted log (native_redirect clock hook)"
proof -
  let ?f = "\<lambda>req w. let (r, w') = following req w in (map_sum (\<lambda>_. AttemptURL) id r, w')"
  have f: "log (snd (?f req w)) = fetch_fingerprint (new_fetch_url idna req) # log w" for req w
    using assms by (simp add: case_prod_unfold Let_def)
  have "snd (native_round_trip idna clock following req s) = snd (budget_round_trip idna clock ?f req s)" for s
    by (auto simp: native_round_trip_def budget_round_trip_def Let_def split: option.splits prod.splits)
  then show "budgeted log (native_round_trip idna clock following req)"
    using spent_round_trip [where following = ?f, OF f] by (intro budgetedI) simp
  have "snd (native_redirect clock hook s) = snd (budget_redirect clock s)" for s
    by (auto simp: native_redirect_def budget_redirect_def Let_def split: option.splits prod.splits)
  then show "budgeted log (native_redirect clock hook)" using spent_redirect by (intro budgetedI) simp
qed

text \<open>Scrapers and the session provider of an adapter.\<close>
definition adapter_budgeted :: "('w \<Rightarrow> gostring list) \<Rightarrow> 'w adapter \<Rightarrow> bool" where
  "adapter_budgeted log a \<longleftrightarrow>
     (\<forall>bind clients f arg. la_bind a = Some bind \<longrightarrow> (nb_share (bind clients) = Some f \<or> nb_id (bind clients) = Some f) \<longrightarrow> budgeted log (f arg)) \<and>
     (\<forall>ops key m e. nd_sessions (la_deps a) = Some ops \<longrightarrow>
        budgeted log (so_get ops key) \<and> budgeted log (\<lambda>s. ((), so_invalidate ops key m e s)))"

lemma parse_legacy_budgeted: "adapter_budgeted log a \<Longrightarrow> budgeted log (parse_legacy a clients req)"
  unfolding budgeted_def parse_legacy_def adapter_budgeted_def by (auto split: option.splits)

lemma session_secret_budgeted:
  assumes "adapter_budgeted log a"
  shows "budgeted log (session_secret a)"
proof (rule budgetedI)
  fix s0 s assume s: "spent_since log s0 s"
  have g: "spent_since log s0 s'" if "nd_sessions (la_deps a) = Some ops" "so_get ops key s = (x, s')" for ops key x s'
  proof (rule budgetedD [where f = "so_get ops key", OF _ s that(2)])
    show "budgeted log (so_get ops key)" using assms that(1) by (simp add: adapter_budgeted_def)
  qed
  show "spent_since log s0 (snd (session_secret a s))"
    unfolding session_secret_def Let_def using s g by (auto split: option.splits sum.splits prod.splits)
qed

lemma refresh_budgeted:
  assumes "adapter_budgeted log a" and "nd_sessions (la_deps a) = Some ops"
  shows "budgeted log (refresh_once ops key m e)"
proof (rule budgetedI)
  fix s0 s assume s: "spent_since log s0 s"
  have g: "budgeted log (so_get ops key)" and i: "budgeted log (\<lambda>s. ((), so_invalidate ops key m e s))"
    using assms by (simp_all add: adapter_budgeted_def)
  have "spent_since log s0 (so_invalidate ops key m e s)" using budgetedS [OF i s] by simp
  from budgetedS [OF g this] s show "spent_since log s0 (snd (refresh_once ops key m e s))"
    by (simp add: refresh_once_def case_prod_unfold Let_def)
qed

lemma snapshot_budgeted:
  assumes a: "adapter_budgeted log a" and s: "spent_since log s0 s"
  shows "spent_since log s0 (snd (take_snapshot a req s))"
proof -
  obtain x s1 where ss: "session_secret a s = (x, s1)" by (rule prod.exhaust)
  note s1 = budgetedD [OF session_secret_budgeted [OF a] s ss]
  show ?thesis
  proof (cases x)
    case (Inl e)
    then show ?thesis using ss s1 by (simp add: take_snapshot_def)
  next
    case (Inr p)
    obtain secret backed where p: "p = (secret, backed)" by (rule prod.exhaust)
    let ?c = "\<lparr>lc_max_redirects = la_max_redirects a, lc_weibo = trim_space (nd_weibo (la_deps a)),
      lc_xigua = trim_space (nd_xigua (la_deps a)), lc_token = secret\<rparr>"
    obtain y s2 where pl: "parse_legacy a ?c req s1 = (y, s2)" by (rule prod.exhaust)
    note s2 = budgetedD [OF parse_legacy_budgeted [OF a] s1 pl]
    show ?thesis
    proof (cases "\<exists>e m key ops. y = Inl e \<and> backed = Some (m, key) \<and> nd_sessions (la_deps a) = Some ops")
      case False
      then show ?thesis using ss Inr p pl s2
        by (cases y; cases backed; cases "nd_sessions (la_deps a)") (auto simp: take_snapshot_def Let_def)
    next
      case True
      then obtain e m key ops where t: "y = Inl e" "backed = Some (m, key)" "nd_sessions (la_deps a) = Some ops" by blast
      obtain z s3 where rf: "refresh_once ops key m e s2 = (z, s3)" by (rule prod.exhaust)
      note s3 = budgetedD [OF refresh_budgeted [OF a t(3)] s2 rf]
      have last: "spent_since log s0 s4" if "parse_legacy a (?c\<lparr>lc_token := Some m'\<rparr>) req s3 = (v, s4)" for m' v s4
        by (rule budgetedD [OF parse_legacy_budgeted [OF a] s3 that])
      show ?thesis using ss Inr p pl t rf s3 last
        by (cases z) (auto simp: take_snapshot_def Let_def split: sum.splits prod.splits)
    qed
  qed
qed

text \<open>
  One parse of a native platform makes at most as many fetches as its row of the table allows, and
  none twice, whatever the scraper does with its clients: redirects, the loading of session material, its
  refresh and the second snapshot after it all draw on one budget.
\<close>
theorem adapter_fetches_bounded:
  assumes "adapter_budgeted log a" and "adapter_parse idna ctx parent wall1 now1 wall2 now2 a req w = (x, w')"
  shows "\<exists>fs. log w' = fs @ log w \<and> distinct fs \<and> (fs = [] \<or> int (length fs) \<le> la_max_requests a)"
proof -
  have "spent_since log (w, b) s" if "new_budget (la_max_requests a) (la_max_redirects a) (20 * second) wall1 now1 = Some b"
    "take_snapshot a req (w, b) = (y, s)" for b y s
    using snapshot_budgeted [OF assms(1) spent_since_refl, of "(w, b)" req] that by simp
  moreover have "bu_requests b = 0 \<and> bu_max_requests b = la_max_requests a"
    if "new_budget (la_max_requests a) (la_max_redirects a) (20 * second) wall1 now1 = Some b" for b
    using that by (auto simp: new_budget_def split: if_splits)
  moreover have "w' = w \<or> (\<exists>b y b'. new_budget (la_max_requests a) (la_max_redirects a) (20 * second) wall1 now1 = Some b \<and>
      take_snapshot a req (w, b) = (y, (w', b')))"
    using assms(2) unfolding adapter_parse_def Let_def by (auto split: option.splits sum.splits prod.splits if_splits)
  ultimately show ?thesis by (fastforce simp: spent_since_def)
qed

section \<open>Witnesses\<close>

definition demo_info :: video_info where
  "demo_info = \<lparr>vi_uid = [], vi_name = [], vi_avatar = [], vi_title = ''t'', vi_video = ''//v.a.com/1.mp4'', vi_preview = [],
     vi_music = [], vi_cover = [], vi_images = [], vi_candidates = []\<rparr>"

lemma demo_info_result: "cr_video (legacy_to_result Some ''demo'' demo_info) = ''https://v.a.com/1.mp4''"
  "cr_audio (legacy_to_result Some ''demo'' demo_info) = []" "cr_images (legacy_to_result Some ''demo'' demo_info) = []"
proof -
  have u: "normalize_external_url Some ''//v.a.com/1.mp4'' = Some ''https://v.a.com/1.mp4''" "normalize_external_url Some [] = None"
    by code_simp+
  show "cr_video (legacy_to_result Some ''demo'' demo_info) = ''https://v.a.com/1.mp4''"
    "cr_audio (legacy_to_result Some ''demo'' demo_info) = []" "cr_images (legacy_to_result Some ''demo'' demo_info) = []"
    by (simp_all add: legacy_to_result_def demo_info_def media_or_candidate_def normalized_or_empty_def u all_candidates_def
      normalize_candidates_def append_usable_def sort_candidates_def sort_stable_def first_candidate_url_def Let_def)
qed

text \<open>A scraper that fetches one page, twice when its token is fresh.\<close>
definition demo_scraper :: "material option \<Rightarrow> gostring list scraper" where
  "demo_scraper token arg s =
     (case native_round_trip Some (\<lambda>_. 0) (\<lambda>req w. (Inr (), fetch_fingerprint (new_fetch_url Some req) # w)) arg s of
        (Inl e, s') \<Rightarrow> (Inl e, s')
      | (Inr _, s') \<Rightarrow>
          (if token = Some \<lparr>sm_value = ''new'', sm_generation = 2\<rparr>
           then (Inr (Some demo_info), s')
           else (Inl (NativeCore (ParseError SessionExpired None)), s')))"

definition demo_adapter :: "gostring \<Rightarrow> gostring list adapter" where
  "demo_adapter token = \<lparr>la_key = ''demo'', la_capabilities = capability_video,
     la_deps = \<lparr>nd_fetcher = True, nd_sessions = None, nd_loader = False, nd_weibo = [], nd_xigua = [],
       nd_token = Some \<lparr>sm_value = token, sm_generation = 2\<rparr>\<rparr>,
     la_max_requests = 1, la_max_redirects = 0, la_session_host = [],
     la_bind = Some (\<lambda>c. \<lparr>nb_share = None, nb_id = Some (demo_scraper (lc_token c))\<rparr>)\<rparr>"

definition demo_parse_native :: "gostring \<Rightarrow> (native_error + core_result) \<times> gostring list" where
  "demo_parse_native token = adapter_parse Some None None 0 0 0 0 (demo_adapter token) \<lparr>aq_url = None, aq_id = ''https://a.com/1''\<rparr> []"

lemma demo_scraper_steps:
  assumes "bu_requests b = 0" and "bu_max_requests b = 1" and "0 < bu_deadline b" and "bu_seen b = []"
  shows "\<exists>b' f. demo_scraper token ''https://a.com/1'' ([], b) =
    (if token = Some \<lparr>sm_value = ''new'', sm_generation = 2\<rparr>
     then Inr (Some demo_info)
     else Inl (NativeCore (ParseError SessionExpired None)), ([f], b'))"
proof -
  have "new_fetch_url Some ''https://a.com/1'' \<noteq> None" by code_simp
  then obtain t where "new_fetch_url Some ''https://a.com/1'' = Some t" by blast
  then show ?thesis using assms by (simp add: demo_scraper_def native_round_trip_def allow_fetch_def)
qed

lemma demo_parse_native_eq:
  "\<exists>f. demo_parse_native token = (if token = ''new'' then
       Inr (legacy_to_result Some ''demo'' demo_info)
     else Inl (NativeCore (ParseError SessionExpired (Some (OtherError ''native parser rejected the upstream snapshot'' None)))), [f])"
proof -
  let ?b = "\<lparr>bu_max_requests = 1, bu_max_redirects = 0, bu_requests = 0, bu_redirects = 0, bu_seen = [], bu_deadline = 20 * second,
    bu_ctx_deadline = 20 * second\<rparr>"
  have d: "0 < 20 * second" by (simp add: second_def)
  then obtain b' f where s: "demo_scraper (Some \<lparr>sm_value = token, sm_generation = 2\<rparr>) ''https://a.com/1'' ([], ?b) =
      (if token = ''new'' then Inr (Some demo_info) else Inl (NativeCore (ParseError SessionExpired None)), ([f], b'))"
    using demo_scraper_steps [of ?b "Some \<lparr>sm_value = token, sm_generation = 2\<rparr>"] by auto
  have trim: "trim_space ''https://a.com/1'' \<noteq> []" by code_simp
  show ?thesis using s trim d
    by (auto simp: demo_info_result demo_parse_native_def adapter_parse_def new_budget_def bind_context_def take_snapshot_def session_secret_def demo_adapter_def
      parse_legacy_def sanitize_error_def native_code_def validate_against_def has_capability_def capability_video_def Let_def)
qed

theorem adapter_result_ok_witness:
  "\<exists>r w'. demo_parse_native ''new'' = (Inr r, w') \<and> cr_platform r = ''demo'' \<and> cr_video r = ''https://v.a.com/1.mp4'' \<and>
     (\<exists>x. normalize_external_url Some x = Some (cr_video r))"
proof -
  obtain r w' where r: "demo_parse_native ''new'' = (Inr r, w')" and v: "cr_video r = ''https://v.a.com/1.mp4''"
  proof -
    let ?r = "legacy_to_result Some ''demo'' demo_info"
    show thesis using demo_info_result demo_parse_native_eq [of "''new''"] that [of ?r] by auto
  qed
  from adapter_result_ok [OF r [unfolded demo_parse_native_def]] r v show ?thesis by (simp add: demo_adapter_def)
qed

theorem adapter_errors_sanitized_witness:
  "\<exists>e w'. demo_parse_native ''old'' = (Inl e, w') \<and> native_code e = Some SessionExpired \<and> sanitized e"
proof -
  obtain e w' where e: "demo_parse_native ''old'' = (Inl e, w')" "native_code e = Some SessionExpired" "\<not> ne_context e"
    using demo_parse_native_eq [of "''old''"] by (auto simp: native_code_def)
  from adapter_errors_sanitized [OF e(1) [unfolded demo_parse_native_def]] e show ?thesis by blast
qed

text \<open>
  A transport error that wraps the end of a context, as \<open>net/http\<close> reports one, names the URL it was about; it
  reaches the caller with it.
\<close>
definition demo_url_error :: native_error where
  "demo_url_error = NativeError True (OtherError ''Get https://upstream/api?token=secret: context deadline exceeded'' None)"

lemma context_error_passes:
  "\<exists>w'. adapter_parse Some None None 0 0 0 0
     ((demo_adapter ''new'')\<lparr>la_bind := Some (\<lambda>c. \<lparr>nb_share = None, nb_id = Some (\<lambda>_ s. (Inl demo_url_error, s))\<rparr>)\<rparr>)
     \<lparr>aq_url = None, aq_id = ''https://a.com/1''\<rparr> [] = (Inl demo_url_error, w')"
proof -
  have trim: "trim_space ''https://a.com/1'' \<noteq> []" by code_simp
  have c: "ne_context demo_url_error" by (simp add: demo_url_error_def)
  have d: "0 < 20 * second" by (simp add: second_def)
  show ?thesis using trim d
    by (simp add: adapter_parse_def new_budget_def bind_context_def take_snapshot_def session_secret_def demo_adapter_def
      parse_legacy_def sanitize_error_def c Let_def)
qed

theorem adapter_fetches_bounded_witness:
  "\<exists>x w'. demo_parse_native ''new'' = (x, w') \<and> length w' = 1 \<and> int (length w') \<le> la_max_requests (demo_adapter ''new'')"
proof -
  have "budgeted id (demo_scraper token arg)" for token arg
  proof (rule budgetedI)
    fix s0 s assume s: "spent_since id s0 s"
    let ?net = "\<lambda>req w. (Inr (), fetch_fingerprint (new_fetch_url Some req) # w)"
    have "budgeted id (native_round_trip Some (\<lambda>_. 0) ?net arg)" by (rule native_client_budgeted) simp
    from budgetedS [OF this s] have "spent_since id s0 (snd (native_round_trip Some (\<lambda>_. 0) ?net arg s))" .
    moreover have "snd (demo_scraper token arg s) = snd (native_round_trip Some (\<lambda>_. 0) ?net arg s)"
      by (auto simp: demo_scraper_def split: prod.splits sum.splits)
    ultimately show "spent_since id s0 (snd (demo_scraper token arg s))" by simp
  qed
  then have a: "adapter_budgeted id (demo_adapter ''new'')" by (auto simp: adapter_budgeted_def demo_adapter_def)
  obtain x f where x: "demo_parse_native ''new'' = (x, [f])" using demo_parse_native_eq [of "''new''"] by (metis prod.collapse snd_conv)
  from adapter_fetches_bounded [OF a x [unfolded demo_parse_native_def]] have "int (length [f]) \<le> la_max_requests (demo_adapter ''new'')"
    by auto
  with x show ?thesis by simp
qed

end
