(* ===== verification/Admin.thy ===== *)
theory Admin imports
  Download
  RuntimeCache
begin

text \<open>
  \<open>internal/admin/auth.go\<close> and \<open>service.go\<close>: administrators log in, carry a signed session cookie
  and write under a role, a CSRF token and an origin check.  The cookie is real JSON, base64 and
  HMAC-SHA-256.  \<open>golang.org/x/crypto/bcrypt\<close> is not under \<open>src/\<close>: whether a hash matches a password
  is the argument \<open>matches\<close>, a new hash the argument \<open>generate\<close>.  Entropy is what the reader has to
  give; a user store is a record of its two operations on a state \<open>'s\<close>.
\<close>

section \<open>Types\<close>

type_synonym admin_role = gostring

definition role_viewer :: admin_role where "role_viewer = ''viewer''"
definition role_owner :: admin_role where "role_owner = ''owner''"

type_synonym auth_mode = gostring

definition mode_mysql :: auth_mode where "mode_mysql = ''mysql''"
definition mode_environment :: auth_mode where "mode_environment = ''environment''"
definition mode_breakglass :: auth_mode where "mode_breakglass = ''breakglass''"

datatype admin_error = ErrInvalidCredentials | ErrAuthUnavailable | ErrEnvironmentAuthDisabled | ErrBreakglassDisabled
  | ErrWeakBreakglassPassphrase | ErrCookieSigningKeyRequired | ErrForbidden | ErrCSRF | ErrOrigin
  | ErrAdminEntropy | ErrAdminUnsupported

record admin_user =
  au_username :: gostring
  au_role :: admin_role
  au_hash :: gostring

record audit_record =
  ar_username :: gostring
  ar_action :: gostring
  ar_resource :: gostring
  ar_resource_id :: gostring
  ar_details :: json
  ar_created :: gotime

record 's user_store =
  us_find :: "gostring \<Rightarrow> 's \<Rightarrow> gostring + admin_user option"
  us_audit :: "audit_record \<Rightarrow> 's \<Rightarrow> 's \<times> gostring option"

record 's admin_options =
  ao_key :: gostring
  ao_store :: "'s user_store option"
  ao_environment :: gostring
  ao_env_username :: gostring
  ao_env_password :: gostring
  ao_breakglass :: bool
  ao_breakglass_username :: gostring
  ao_breakglass_pass :: gostring
  ao_origins :: "gostring list"
  ao_ttl :: duration

record admin_login_request =
  lr_username :: gostring
  lr_password :: gostring

record admin_session =
  as_username :: gostring
  as_role :: admin_role
  as_mode :: auth_mode
  as_expires :: gotime
  as_csrf :: gostring

record write_request =
  wr_method :: gostring
  wr_origin :: gostring
  wr_host :: gostring
  wr_csrf :: gostring

record 's admin_auth =
  aa_key :: gostring
  aa_store :: "'s user_store option"
  aa_environment :: gostring
  aa_env_username :: gostring
  aa_env_password :: gostring
  aa_breakglass :: bool
  aa_breakglass_username :: gostring
  aa_breakglass_pass :: gostring
  aa_origins :: "gostring list"
  aa_ttl :: duration

section \<open>The service\<close>

definition normalize_role :: "admin_role \<Rightarrow> admin_role" where
  "normalize_role role = (if role = role_owner then role_owner else role_viewer)"

text \<open>\<open>len([]rune(s))\<close>: an invalid byte counts as one rune.\<close>
function rune_count :: "gostring \<Rightarrow> nat" where
  "rune_count s = (if s = [] then 0 else Suc (rune_count (drop (max 1 (utf8_len s)) s)))"
  by pat_completeness auto
termination by (relation "measure length") auto

declare rune_count.simps [simp del]

definition new_admin_auth :: "'s admin_options \<Rightarrow> admin_error + 's admin_auth" where
  "new_admin_auth opts =
     rbind (require (ao_key opts \<noteq> []) ErrCookieSigningKeyRequired) (\<lambda>_.
     rbind (require (\<not> (ao_breakglass opts \<and> rune_count (ao_breakglass_pass opts) < 16)) ErrWeakBreakglassPassphrase) (\<lambda>_.
       Inr \<lparr>aa_key = ao_key opts, aa_store = ao_store opts,
         aa_environment = to_lower (trim_space (ao_environment opts)),
         aa_env_username = trim_space (ao_env_username opts), aa_env_password = ao_env_password opts,
         aa_breakglass = ao_breakglass opts,
         aa_breakglass_username = trim_space (ao_breakglass_username opts),
         aa_breakglass_pass = ao_breakglass_pass opts,
         aa_origins = filter (\<lambda>x. x \<noteq> []) (map (\<lambda>x. trim_slashes (trim_space x)) (ao_origins opts)),
         aa_ttl = (if ao_ttl opts \<le> 0 then 12 * hour else ao_ttl opts)\<rparr>))"

definition hash_password :: "(gostring \<Rightarrow> gostring option) \<Rightarrow> gostring \<Rightarrow> gostring option" where
  "hash_password generate passphrase = generate passphrase"

definition environment_auth_allowed :: "'s admin_auth \<Rightarrow> bool" where
  "environment_auth_allowed svc \<longleftrightarrow>
     aa_store svc = None \<and> (aa_environment svc = ''development'' \<or> aa_environment svc = ''test'')"

definition random_token :: "gostring \<Rightarrow> admin_error + gostring" where
  "random_token entropy = (if length entropy < 16 then Inl ErrAdminEntropy else Inr (b64_encode (take 16 entropy)))"

definition new_session :: "'s admin_auth \<Rightarrow> gostring \<Rightarrow> gotime \<Rightarrow> gostring \<Rightarrow> admin_role \<Rightarrow> auth_mode \<Rightarrow> admin_error + admin_session" where
  "new_session svc entropy now username role mode =
     rbind (random_token entropy) (\<lambda>csrf.
       Inr \<lparr>as_username = username, as_role = normalize_role role, as_mode = mode,
         as_expires = now + aa_ttl svc, as_csrf = csrf\<rparr>)"

definition admin_login :: "(gostring \<Rightarrow> gostring \<Rightarrow> bool) \<Rightarrow> 's admin_auth \<Rightarrow> gostring \<Rightarrow> gotime \<Rightarrow> admin_login_request \<Rightarrow> 's
    \<Rightarrow> admin_error + admin_session" where
  "admin_login matches svc entropy now request s =
     (let username = trim_space (lr_username request) in
      if username = [] then Inl ErrInvalidCredentials
      else (case aa_store svc of
          Some store \<Rightarrow>
            (case us_find store username s of
               Inl _ \<Rightarrow> Inl ErrAuthUnavailable
             | Inr None \<Rightarrow> Inl ErrInvalidCredentials
             | Inr (Some user) \<Rightarrow>
                 if \<not> matches (au_hash user) (lr_password request) then Inl ErrInvalidCredentials
                 else new_session svc entropy now (au_username user) (normalize_role (au_role user)) mode_mysql)
        | None \<Rightarrow>
            if environment_auth_allowed svc \<and> username = aa_env_username svc \<and> lr_password request = aa_env_password svc
            then new_session svc entropy now username role_owner mode_environment
            else if aa_env_username svc \<noteq> [] \<and> username = aa_env_username svc \<and> \<not> environment_auth_allowed svc
            then Inl ErrEnvironmentAuthDisabled
            else if aa_breakglass_username svc \<noteq> [] \<and> username = aa_breakglass_username svc
              \<and> lr_password request = aa_breakglass_pass svc
            then (if \<not> aa_breakglass svc then Inl ErrBreakglassDisabled
                  else new_session svc entropy now username role_owner mode_breakglass)
            else Inl ErrInvalidCredentials))"

section \<open>Cookies\<close>

definition admin_sign :: "gostring \<Rightarrow> gostring \<Rightarrow> gostring" where
  "admin_sign key segment = b64_encode (hmac_sha256 key segment)"

text \<open>\<open>t.Unix()\<close> (seconds, rounded down) and \<open>time.Unix(n, 0)\<close>, whose seconds wrap at 64 bits.\<close>
definition unix_seconds :: "gotime \<Rightarrow> int" where
  "unix_seconds t = int64_of ((t - unix_epoch) div second)"

definition time_of_unix :: "int \<Rightarrow> gotime" where
  "time_of_unix n = int64_of (n + 62135596800) * second"

definition session_json :: "admin_session \<Rightarrow> json" where
  "session_json x = JObj [(''u'', JStr (as_username x)), (''r'', JStr (normalize_role (as_role x))), (''m'', JStr (as_mode x)),
     (''e'', JNum (show_int (unix_seconds (as_expires x)))), (''c'', JStr (as_csrf x))]"

record admin_cookie =
  ck_name :: gostring
  ck_value :: gostring
  ck_path :: gostring
  ck_max_age :: int
  ck_http_only :: bool
  ck_secure :: bool
  ck_same_site :: gostring

text \<open>
  \<open>int(d.Seconds())\<close> drops the fraction (the model keeps the quotient exact where the source goes
  through a \<open>float64\<close>); \<open>time.Until\<close> reads the wall clock and saturates.
\<close>
definition until_seconds :: "gotime \<Rightarrow> gotime \<Rightarrow> int" where
  "until_seconds wall t =
     (let d = max (- (2 ^ 63)) (min (2 ^ 63 - 1) (t - wall)) in if d < 0 then - (- d div second) else d div second)"

definition session_cookie :: "'s admin_auth \<Rightarrow> gostring \<Rightarrow> gotime \<Rightarrow> gotime \<Rightarrow> admin_session \<Rightarrow> bool \<Rightarrow> admin_error + admin_cookie" where
  "session_cookie svc entropy now wall session0 secure =
     (let session1 = (if as_expires session0 = zero_time then session0\<lparr>as_expires := now + aa_ttl svc\<rparr> else session0) in
      rbind (if as_csrf session1 = [] then random_token entropy else Inr (as_csrf session1)) (\<lambda>csrf.
        let session = session1\<lparr>as_csrf := csrf\<rparr>;
            segment = b64_encode (json_print (session_json session))
        in Inr \<lparr>ck_name = ''watermark_admin_session'', ck_value = segment @ ''.'' @ admin_sign (aa_key svc) segment,
             ck_path = ''/'', ck_max_age = until_seconds wall (as_expires session), ck_http_only = True,
             ck_secure = secure, ck_same_site = ''Lax''\<rparr>))"

definition session_decode :: "gostring \<Rightarrow> admin_session option" where
  "session_decode body =
     (case decode_members body of
        None \<Rightarrow> None
      | Some kvs \<Rightarrow>
          (case (string_field ''u'' kvs, string_field ''r'' kvs, string_field ''m'' kvs, int_field ''e'' kvs, string_field ''c'' kvs) of
             (Some u, Some r, Some m, Some e, Some c) \<Rightarrow>
               Some \<lparr>as_username = trim_space u, as_role = normalize_role r, as_mode = m, as_expires = time_of_unix e, as_csrf = c\<rparr>
           | _ \<Rightarrow> None))"

text \<open>The switch at the end: in the \<open>mysql\<close> mode the role comes from the store, not from the cookie.\<close>
definition session_in_mode :: "'s admin_auth \<Rightarrow> 's \<Rightarrow> admin_session \<Rightarrow> admin_session option" where
  "session_in_mode svc s session =
     (if as_mode session = mode_mysql then
        (case aa_store svc of
           None \<Rightarrow> None
         | Some store \<Rightarrow>
             (case us_find store (as_username session) s of
                Inr (Some user) \<Rightarrow> Some (session\<lparr>as_role := normalize_role (au_role user)\<rparr>)
              | _ \<Rightarrow> None))
      else if as_mode session = mode_environment then
        (if aa_store svc = None \<and> environment_auth_allowed svc \<and> as_username session = aa_env_username svc then Some session else None)
      else if as_mode session = mode_breakglass then
        (if aa_breakglass svc \<and> as_username session = aa_breakglass_username svc then Some session else None)
      else None)"

text \<open>None stands for the answer \<open>false\<close>, whatever session accompanies it.\<close>
definition validate_session_cookie :: "'s admin_auth \<Rightarrow> gotime \<Rightarrow> gostring \<Rightarrow> 's \<Rightarrow> admin_session option" where
  "validate_session_cookie svc now raw s =
     (case split_on CHR ''.'' (trim_space raw) of
        [p0, p1] \<Rightarrow>
          if p0 = [] \<or> p1 = [] then None
          else if p1 \<noteq> admin_sign (aa_key svc) p0 then None
          else (case b64_decode p0 of
              None \<Rightarrow> None
            | Some body \<Rightarrow>
                (case session_decode body of
                   None \<Rightarrow> None
                 | Some session \<Rightarrow>
                     if as_username session = [] \<or> as_csrf session = [] \<or> \<not> as_expires session > now then None
                     else session_in_mode svc s session))
      | _ \<Rightarrow> None)"

section \<open>Writes\<close>

definition origin_allowed :: "'s admin_auth \<Rightarrow> gostring \<Rightarrow> gostring \<Rightarrow> bool" where
  "origin_allowed svc origin0 host =
     (let origin = trim_slashes (trim_space origin0) in
      if origin = [] then False
      else if aa_origins svc \<noteq> [] then origin \<in> set (aa_origins svc)
      else (case url_parse origin of
          None \<Rightarrow> False
        | Some parsed \<Rightarrow> u_host parsed \<noteq> [] \<and> equal_fold (u_host parsed) (trim_space host)))"

definition check_write_request :: "'s admin_auth \<Rightarrow> admin_session \<Rightarrow> write_request \<Rightarrow> admin_error option" where
  "check_write_request svc session request =
     (if normalize_role (as_role session) \<noteq> role_owner then Some ErrForbidden
      else if trim_space (wr_csrf request) = [] \<or> wr_csrf request \<noteq> as_csrf session then Some ErrCSRF
      else if \<not> origin_allowed svc (wr_origin request) (wr_host request) then Some ErrOrigin
      else None)"

definition record_audit :: "'s admin_auth \<Rightarrow> gotime \<Rightarrow> admin_session \<Rightarrow> gostring \<Rightarrow> gostring \<Rightarrow> gostring \<Rightarrow> json \<Rightarrow> 's \<Rightarrow> 's \<times> gostring option" where
  "record_audit svc now session action resource resource_id details s =
     (case aa_store svc of
        None \<Rightarrow> (s, None)
      | Some store \<Rightarrow> us_audit store
          \<lparr>ar_username = as_username session, ar_action = trim_space action, ar_resource = trim_space resource,
           ar_resource_id = trim_space resource_id, ar_details = details, ar_created = now\<rparr> s)"

section \<open>The administration service\<close>

record baseline_sample =
  bs_platform :: gostring
  bs_url :: gostring
  bs_enabled :: bool
  bs_expected_platform :: gostring
  bs_expected_type :: gostring

record 's admin_service =
  sv_auth :: "'s admin_auth"
  sv_started :: gotime
  sv_samples :: "baseline_sample list"

record admin_summary =
  sm_started :: gotime
  sm_uptime :: int
  sm_platforms :: nat
  sm_samples :: nat
  sm_links :: nat

definition new_admin_service :: "'s admin_options \<Rightarrow> gotime \<Rightarrow> gotime \<Rightarrow> baseline_sample list \<Rightarrow> admin_error + 's admin_service" where
  "new_admin_service opts wall started samples =
     rbind (new_admin_auth opts) (\<lambda>svc.
       Inr \<lparr>sv_auth = svc, sv_started = (if started = zero_time then wall else started), sv_samples = samples\<rparr>)"

definition admin_summary_of :: "'s admin_service \<Rightarrow> gotime \<Rightarrow> admin_summary" where
  "admin_summary_of service wall =
     \<lparr>sm_started = sv_started service, sm_uptime = until_seconds (sv_started service) wall,
      sm_platforms = length (sv_samples service), sm_samples = length (sv_samples service),
      sm_links = length (filter (\<lambda>x. bs_enabled x \<and> bs_url x \<noteq> []) (sv_samples service))\<rparr>"

definition update_settings :: "'s admin_service \<Rightarrow> gotime \<Rightarrow> admin_session \<Rightarrow> 's \<Rightarrow> 's \<times> gostring option" where
  "update_settings service now session s =
     record_audit (sv_auth service) now session ''settings.update'' ''settings'' ''runtime'' (JObj [(''changed'', JBool True)]) s"

section \<open>Facts\<close>

lemma normalize_role_owner: "normalize_role r = role_owner \<longleftrightarrow> r = role_owner"
proof -
  have "role_owner \<noteq> role_viewer" by code_simp
  then show ?thesis by (auto simp: normalize_role_def)
qed

lemma normalize_role_idem [simp]: "normalize_role (normalize_role r) = normalize_role r"
  by (simp add: normalize_role_def)

lemma time_of_unix_seconds:
  assumes "0 \<le> t" and "t < 2 ^ 63 * second"
  shows "time_of_unix (unix_seconds t) = t div second * second"
proof -
  have e: "(t - unix_epoch) div second = t div second - 62135596800"
    by (simp add: unix_epoch_def second_def)
  have "0 \<le> t div second" "t div second < 2 ^ 63" using assms by (simp_all add: second_def)
  then show ?thesis by (simp add: time_of_unix_def unix_seconds_def e int64_of_id)
qed

definition session_members :: "admin_session \<Rightarrow> (gostring \<times> json) list" where
  "session_members x = [(''u'', JStr (as_username x)), (''r'', JStr (normalize_role (as_role x))), (''m'', JStr (as_mode x)),
     (''e'', JNum (show_int (unix_seconds (as_expires x)))), (''c'', JStr (as_csrf x))]"

lemma session_keys: "distinct (map to_lower [''u'', ''r'', ''m'', ''e'', ''c''])"
  by code_simp

definition session_texts :: "admin_session \<Rightarrow> gostring list" where
  "session_texts x = [as_username x, as_mode x, as_csrf x]"

lemma valid_role: "valid_utf8 (normalize_role r)"
proof -
  have "valid_utf8 role_owner" "valid_utf8 role_viewer" by code_simp+
  then show ?thesis by (simp add: normalize_role_def)
qed

lemma session_decode_print:
  assumes "list_all valid_utf8 (session_texts x)"
  shows "session_decode (json_print (session_json x)) =
    Some \<lparr>as_username = trim_space (as_username x), as_role = normalize_role (as_role x), as_mode = as_mode x,
      as_expires = time_of_unix (unix_seconds (as_expires x)), as_csrf = as_csrf x\<rparr>"
proof -
  let ?m = "session_members x"
  have k: "valid_utf8 ''u''" "valid_utf8 ''r''" "valid_utf8 ''m''" "valid_utf8 ''e''" "valid_utf8 ''c''" by code_simp+
  have "json_decode (json_print (session_json x)) = Some (JObj ?m)"
    using json_roundtrip [of "session_json x"] assms k
    by (simp add: session_json_def session_members_def session_texts_def valid_role)
  then have d: "decode_members (json_print (session_json x)) = Some ?m" by (simp add: decode_members_def)
  have dist: "distinct (fold_keys ?m)" using session_keys by (simp add: session_members_def)
  have i: "int64 (unix_seconds (as_expires x))"
    using int64_of_range by (simp add: int64_def unix_seconds_def)
  have f: "string_field ''u'' ?m = Some (as_username x)" "string_field ''r'' ?m = Some (normalize_role (as_role x))"
    "string_field ''m'' ?m = Some (as_mode x)" "string_field ''c'' ?m = Some (as_csrf x)"
    "int_field ''e'' ?m = Some (unix_seconds (as_expires x))"
    by (rule string_field_once [OF dist] int_field_once [OF dist _ i], simp add: session_members_def)+
  show ?thesis by (simp add: session_decode_def d f)
qed

lemma validate_signed:
  assumes "session_decode body = Some x" and "body \<noteq> []" and "as_username x \<noteq> []" and "as_csrf x \<noteq> []" and "now < as_expires x"
  shows "validate_session_cookie svc now (b64_encode body @ ''.'' @ admin_sign (aa_key svc) (b64_encode body)) s = session_in_mode svc s x"
proof -
  let ?seg = "b64_encode body"
  let ?sig = "admin_sign (aa_key svc) ?seg"
  have "list_all token_char (?seg @ ''.'' @ ?sig)" using b64_encode_token by (simp add: token_char_def admin_sign_def)
  then have trim: "trim_space (?seg @ ''.'' @ ?sig) = ?seg @ ''.'' @ ?sig" by (rule trim_space_token)
  have split: "split_on CHR ''.'' (?seg @ ''.'' @ ?sig) = [?seg, ?sig]"
    using split_on_two [of "CHR ''.''" ?seg ?sig] b64_encode_no_dot by (simp add: admin_sign_def)
  have "?seg \<noteq> []" "?sig \<noteq> []"
    using length_hmac [of "aa_key svc" ?seg] assms(2) by (auto simp: admin_sign_def simp del: length_hmac)
  then show ?thesis
    unfolding validate_session_cookie_def trim split using assms by (simp add: b64_roundtrip)
qed

lemma validate_authentic:
  assumes "validate_session_cookie svc now raw s = Some x"
  obtains seg body y where "trim_space raw = seg @ ''.'' @ admin_sign (aa_key svc) seg" and "b64_decode seg = Some body"
    and "session_decode body = Some y" and "now < as_expires y" and "as_csrf y \<noteq> []" and "session_in_mode svc s y = Some x"
proof -
  obtain p0 p1 where sp: "split_on CHR ''.'' (trim_space raw) = [p0, p1]"
    using assms by (auto simp: validate_session_cookie_def split: list.splits)
  have "trim_space raw = p0 @ ''.'' @ p1" using join_split_on [of "CHR ''.''" "trim_space raw"] by (simp add: sp)
  then show thesis
    using assms that unfolding validate_session_cookie_def sp list.case
    by (auto split: if_splits option.splits)
qed

lemma session_in_mode_same:
  assumes "session_in_mode svc s y = Some x"
  shows "as_csrf x = as_csrf y" "as_mode x = as_mode y" "as_username x = as_username y" "as_expires x = as_expires y"
  using assms by (auto simp: session_in_mode_def split: if_splits option.splits sum.splits)

lemma session_in_mode_store:
  assumes "session_in_mode svc s y = Some x" and "aa_store svc = Some store" and "as_mode x \<noteq> mode_breakglass"
  shows "\<exists>user. us_find store (as_username x) s = Inr (Some user) \<and> as_role x = normalize_role (au_role user)"
  using assms by (auto simp: session_in_mode_def split: if_splits option.splits sum.splits)

lemma new_session_Inr:
  "new_session svc entropy now u role mode = Inr x \<longleftrightarrow> 16 \<le> length entropy \<and>
     x = \<lparr>as_username = u, as_role = normalize_role role, as_mode = mode, as_expires = now + aa_ttl svc, as_csrf = b64_encode (take 16 entropy)\<rparr>"
  by (auto simp: new_session_def random_token_def go_errors)

lemma admin_login_session:
  assumes "admin_login matches svc entropy now req s = Inr x"
  shows "16 \<le> length entropy" "as_csrf x = b64_encode (take 16 entropy)" "as_expires x = now + aa_ttl svc"
    "as_role x = normalize_role (as_role x)" "as_mode x \<in> {mode_mysql, mode_environment, mode_breakglass}"
  using assms by (auto simp: admin_login_def Let_def new_session_Inr normalize_role_def split: option.splits sum.splits if_splits)

lemma valid_utf8_ascii: "is_ascii s \<Longrightarrow> valid_utf8 s"
  by (induction s) (auto simp: is_ascii_def valid_utf8.simps utf8_first_ascii)

lemma b64_encode_valid: "valid_utf8 (b64_encode s)"
proof (rule valid_utf8_ascii)
  have "byte_val (b64_char n) < 128" if "n < 64" for n using that by (auto simp: b64_char_def Let_def)
  then show "is_ascii (b64_encode s)"
    using b64_digits_less [of s] by (auto simp: is_ascii_def b64_encode_def list_all_iff)
qed

lemma b64_encode_nonempty: "s \<noteq> [] \<Longrightarrow> b64_encode s \<noteq> []"
  by (metis b64_roundtrip b64_encode_def b64_digits.simps(1) list.simps(8) option.inject)

lemma valid_modes: "m \<in> {mode_mysql, mode_environment, mode_breakglass} \<Longrightarrow> valid_utf8 m"
proof -
  have "valid_utf8 mode_mysql" "valid_utf8 mode_environment" "valid_utf8 mode_breakglass" by code_simp+
  then show "m \<in> {mode_mysql, mode_environment, mode_breakglass} \<Longrightarrow> valid_utf8 m" by blast
qed

lemma session_cookie_set:
  assumes "as_expires x \<noteq> zero_time" and "as_csrf x \<noteq> []"
  shows "\<exists>c. session_cookie svc entropy now wall x secure = Inr c \<and> ck_secure c = secure \<and> ck_http_only c \<and>
    ck_value c = b64_encode (json_print (session_json x)) @ ''.'' @ admin_sign (aa_key svc) (b64_encode (json_print (session_json x)))"
  using assms by (simp add: session_cookie_def Let_def rbind_def)

lemma print_nonempty: "json_print (session_json x) \<noteq> []"
  by (simp add: session_json_def)

lemma valid_cookie_session:
  assumes "as_csrf x \<noteq> []" and "list_all valid_utf8 (session_texts x)" and "trim_space (as_username x) = as_username x"
    and "as_username x \<noteq> []" and "0 \<le> as_expires x" and "as_expires x < 2 ^ 63 * second" and "now < as_expires x div second * second"
  shows "validate_session_cookie svc now
      (b64_encode (json_print (session_json x)) @ ''.'' @ admin_sign (aa_key svc) (b64_encode (json_print (session_json x)))) s =
    session_in_mode svc s (x\<lparr>as_role := normalize_role (as_role x), as_expires := as_expires x div second * second\<rparr>)"
proof -
  have "session_decode (json_print (session_json x)) =
      Some (x\<lparr>as_role := normalize_role (as_role x), as_expires := as_expires x div second * second\<rparr>)"
    using session_decode_print [OF assms(2)] assms(3) time_of_unix_seconds [OF assms(5,6)] by simp
  from validate_signed [OF this print_nonempty] assms show ?thesis by simp
qed

text \<open>
  The cookie of a login is accepted until its last whole second.  The session an administrator gets
  from a login, put into a cookie, comes back from the cookie as it was - user, CSRF token and mode, the
  expiry rounded down to a second - and is then settled by the mode it names: by the user store's present
  answer for a stored user, by the configuration for the other two.  (The user name is valid UTF-8 without
  surrounding white space.)
\<close>
theorem admin_cookie_roundtrip:
  assumes "admin_login matches svc entropy now req s = Inr x" and "session_cookie svc entropy' now wall x secure = Inr c"
    and "valid_utf8 (as_username x)" and "trim_space (as_username x) = as_username x" and "as_username x \<noteq> []"
    and "0 < as_expires x" and "as_expires x < 2 ^ 63 * second" and "now' < as_expires x div second * second"
  shows "validate_session_cookie svc now' (ck_value c) s' =
    session_in_mode svc s' (x\<lparr>as_expires := as_expires x div second * second\<rparr>)"
proof -
  note l = admin_login_session [OF assms(1)]
  have csrf: "as_csrf x \<noteq> []" using l(1,2) b64_encode_nonempty [of "take 16 entropy"] by auto
  have texts: "list_all valid_utf8 (session_texts x)"
    using assms(3) l(2) valid_modes [OF l(5)] b64_encode_valid by (simp add: session_texts_def)
  have "ck_value c = b64_encode (json_print (session_json x)) @ ''.'' @ admin_sign (aa_key svc) (b64_encode (json_print (session_json x)))"
    using session_cookie_set [of x svc entropy' now wall secure] csrf assms(2,6) by auto
  then show ?thesis
    using valid_cookie_session [OF csrf texts assms(4,5) _ assms(7,8)] assms(6) l(4) by simp
qed

definition demo_environment :: "unit admin_auth" where
  "demo_environment = \<lparr>aa_key = ''key'', aa_store = None, aa_environment = ''test'', aa_env_username = ''root'',
     aa_env_password = ''pw'', aa_breakglass = False, aa_breakglass_username = [], aa_breakglass_pass = [],
     aa_origins = [], aa_ttl = 12 * hour\<rparr>"

definition demo_admin :: admin_session where
  "demo_admin = \<lparr>as_username = ''root'', as_role = role_owner, as_mode = mode_environment, as_expires = unix_epoch + 12 * hour,
     as_csrf = b64_encode ''0123456789abcdef''\<rparr>"

lemma demo_admin_login:
  "admin_login (\<lambda>h p. False) demo_environment ''0123456789abcdef'' unix_epoch \<lparr>lr_username = '' root '', lr_password = ''pw''\<rparr> () = Inr demo_admin"
  "aa_ttl demo_environment = 12 * hour" "trim_space ''root'' = ''root''" "valid_utf8 ''root''"
  by code_simp+

theorem admin_cookie_roundtrip_witness:
  "\<exists>c. session_cookie demo_environment [] unix_epoch unix_epoch demo_admin True = Inr c \<and>
     validate_session_cookie demo_environment (unix_epoch + 60 * second) (ck_value c) () = Some demo_admin"
proof -
  have e: "as_expires demo_admin \<noteq> zero_time" "as_expires demo_admin = as_expires demo_admin div second * second"
    "0 < as_expires demo_admin" "as_expires demo_admin < 2 ^ 63 * second" "unix_epoch + 60 * second < as_expires demo_admin"
    by (simp_all add: demo_admin_def unix_epoch_def second_def minute_def hour_def)
  have c: "as_csrf demo_admin \<noteq> []" using b64_encode_nonempty by (simp add: demo_admin_def)
  obtain ck where ck: "session_cookie demo_environment [] unix_epoch unix_epoch demo_admin True = Inr ck"
    using session_cookie_set [OF e(1) c] by blast
  have u: "as_username demo_admin = ''root''" by (simp add: demo_admin_def)
  have m: "session_in_mode demo_environment () demo_admin = Some demo_admin" by code_simp
  from admin_cookie_roundtrip [OF demo_admin_login(1) ck, of "unix_epoch + 60 * second" "()"]
  have "validate_session_cookie demo_environment (unix_epoch + 60 * second) (ck_value ck) () = Some demo_admin"
    using e u m demo_admin_login(3,4) by simp
  with ck show ?thesis by blast
qed

end
