(* ===== verification/AdminStore.thy ===== *)
theory AdminStore imports
  Admin
  AuthMySQL
begin

text \<open>
  Who answers for administrators, and the HTTP face of the administration: the seeded store of
  \<open>internal/app/app.go\<close>, the tables \<open>admin_users\<close> and \<open>admin_audit_logs\<close> behind
  \<open>MySQLRuntimeStore\<close> (\<open>internal/store/runtime_mysql.go\<close>), and the handlers of
  \<open>internal/httpapi/admin_handlers.go\<close>.  What gin reads from a request (the bound JSON body, the
  cookie, the headers) is the record \<open>admin_request\<close>.
\<close>

section \<open>The seeded store\<close>

record seeded_store =
  ss_user :: admin_user
  ss_audits :: "audit_record list"
  ss_enabled :: bool

definition new_seeded_store :: "(gostring \<Rightarrow> gostring option) \<Rightarrow> gostring \<Rightarrow> seeded_store option" where
  "new_seeded_store generate password0 =
     (let password = trim_space password0; store = \<lparr>ss_user = \<lparr>au_username = [], au_role = [], au_hash = []\<rparr>, ss_audits = [], ss_enabled = False\<rparr> in
      if password = [] then Some store
      else (case hash_password generate password of
          None \<Rightarrow> None
        | Some h \<Rightarrow> Some (store\<lparr>ss_enabled := True, ss_user := \<lparr>au_username = ''admin'', au_role = role_owner, au_hash = h\<rparr>\<rparr>)))"

definition seeded_find :: "gostring \<Rightarrow> seeded_store \<Rightarrow> gostring + admin_user option" where
  "seeded_find username store =
     (if \<not> ss_enabled store \<or> trim_space username \<noteq> au_username (ss_user store) then Inr None else Inr (Some (ss_user store)))"

definition seeded_audit :: "audit_record \<Rightarrow> seeded_store \<Rightarrow> seeded_store \<times> gostring option" where
  "seeded_audit r store = (store\<lparr>ss_audits := ss_audits store @ [r]\<rparr>, None)"

definition seeded_ops :: "seeded_store user_store" where
  "seeded_ops = \<lparr>us_find = seeded_find, us_audit = seeded_audit\<rparr>"

section \<open>The MySQL store\<close>

record admin_row =
  aw_username :: gostring
  aw_role :: gostring
  aw_hash :: gostring
  aw_status :: int
  aw_created :: gotime
  aw_updated :: gotime

record audit_row =
  gw_username :: gostring
  gw_action :: gostring
  gw_resource :: gostring
  gw_resource_id :: gostring
  gw_details :: gostring
  gw_created :: gotime

text \<open>The tables, the store's clock and whether the database fails the next call.\<close>
record admin_tables =
  dt_users :: "admin_row list"
  dt_audits :: "audit_row list"
  dt_clock :: gotime
  dt_fault :: "gostring option"

fun upsert_admin :: "admin_row \<Rightarrow> admin_row list \<Rightarrow> admin_row list" where
  "upsert_admin r [] = [r]"
| "upsert_admin r (x # xs) =
     (if collate (aw_username x) = collate (aw_username r)
      then x\<lparr>aw_role := aw_role r, aw_hash := aw_hash r, aw_status := 1, aw_updated := aw_updated r\<rparr> # xs
      else x # upsert_admin r xs)"

definition seed_admin_user :: "(gostring \<Rightarrow> gostring option) \<Rightarrow> gostring \<Rightarrow> gostring \<Rightarrow> admin_tables \<Rightarrow> admin_tables \<times> gostring option" where
  "seed_admin_user generate username0 passphrase0 tb =
     (let username = (if trim_space username0 = [] then ''admin'' else trim_space username0);
          passphrase = trim_space passphrase0; now = mysql_datetime (dt_clock tb)
      in if passphrase = [] then (tb, None)
         else (case hash_password generate passphrase of
             None \<Rightarrow> (tb, Some ''bcrypt'')
           | Some h \<Rightarrow>
               (case dt_fault tb of
                  Some e \<Rightarrow> (tb, Some e)
                | None \<Rightarrow> (tb\<lparr>dt_users := upsert_admin \<lparr>aw_username = username, aw_role = role_owner, aw_hash = h,
                    aw_status = 1, aw_created = now, aw_updated = now\<rparr> (dt_users tb)\<rparr>, None))))"

definition sq_find_user :: "gostring \<Rightarrow> admin_tables \<Rightarrow> gostring + admin_user option" where
  "sq_find_user username0 tb =
     (let username = trim_space username0 in
      if username = [] then Inr None
      else (case dt_fault tb of
          Some e \<Rightarrow> Inl e
        | None \<Rightarrow>
            (case find (\<lambda>r. collate (aw_username r) = collate username \<and> aw_status r = 1) (dt_users tb) of
               None \<Rightarrow> Inr None
             | Some r \<Rightarrow>
                 let role = trim_space (aw_role r)
                 in Inr (Some \<lparr>au_username = aw_username r, au_role = (if role = [] then role_owner else role), au_hash = aw_hash r\<rparr>))))"

definition sq_record_audit :: "audit_record \<Rightarrow> admin_tables \<Rightarrow> admin_tables \<times> gostring option" where
  "sq_record_audit r tb =
     (let username = trim_space (ar_username r); action = trim_space (ar_action r);
          created = (if ar_created r = zero_time then dt_clock tb else ar_created r)
      in if username = [] \<or> action = [] then (tb, Some ''admin audit record is incomplete'')
         else (case dt_fault tb of
             Some e \<Rightarrow> (tb, Some e)
           | None \<Rightarrow> (tb\<lparr>dt_audits := dt_audits tb @ [\<lparr>gw_username = username, gw_action = action,
               gw_resource = trim_space (ar_resource r), gw_resource_id = trim_space (ar_resource_id r),
               gw_details = json_print (ar_details r), gw_created = mysql_datetime created\<rparr>]\<rparr>, None)))"

definition sq_admin_ops :: "admin_tables user_store" where
  "sq_admin_ops = \<lparr>us_find = sq_find_user, us_audit = sq_record_audit\<rparr>"

section \<open>HTTP handlers\<close>

record admin_request =
  rq_login :: "admin_login_request option"
  rq_cookie :: "gostring option"
  rq_method :: gostring
  rq_origin :: gostring
  rq_host :: gostring
  rq_csrf :: gostring
  rq_forwarded :: gostring
  rq_tls :: bool

datatype admin_data = NoData | LoginData gostring admin_role auth_mode gostring | SummaryData admin_summary

record admin_reply =
  ry_status :: int
  ry_code :: int
  ry_msg :: gostring
  ry_data :: admin_data
  ry_cookie :: "admin_cookie option"

definition admin_json :: "int \<Rightarrow> int \<Rightarrow> gostring \<Rightarrow> admin_data \<Rightarrow> admin_reply" where
  "admin_json status code msg d = \<lparr>ry_status = status, ry_code = code, ry_msg = msg, ry_data = d, ry_cookie = None\<rparr>"

definition admin_https :: "admin_request \<Rightarrow> bool" where
  "admin_https req \<longleftrightarrow> rq_tls req \<or> equal_fold (rq_forwarded req) ''https''"

definition handle_admin_login :: "(gostring \<Rightarrow> gostring \<Rightarrow> bool) \<Rightarrow> 's admin_service option \<Rightarrow> gostring \<Rightarrow> gotime \<Rightarrow> gotime \<Rightarrow> admin_request \<Rightarrow> 's \<Rightarrow> admin_reply" where
  "handle_admin_login matches handlers entropy now wall req s =
     (case handlers of
        None \<Rightarrow> admin_json 500 1001 ''admin unavailable'' NoData
      | Some service \<Rightarrow>
          (case rq_login req of
             None \<Rightarrow> admin_json 400 1004 ''invalid login payload'' NoData
           | Some request \<Rightarrow>
               (case admin_login matches (sv_auth service) entropy now request s of
                  Inl _ \<Rightarrow> admin_json 401 1001 ''invalid username or password'' NoData
                | Inr session \<Rightarrow>
                    (case session_cookie (sv_auth service) (drop 16 entropy) now wall session (admin_https req) of
                       Inl _ \<Rightarrow> admin_json 500 1001 ''admin session unavailable'' NoData
                     | Inr cookie \<Rightarrow>
                         (admin_json 200 0 ''ok'' (LoginData (as_username session) (as_role session) (as_mode session) (as_csrf session)))
                           \<lparr>ry_cookie := Some cookie\<rparr>))))"

definition admin_session_of :: "'s admin_service option \<Rightarrow> gotime \<Rightarrow> admin_request \<Rightarrow> 's \<Rightarrow> admin_session option" where
  "admin_session_of handlers now req s =
     (case (handlers, rq_cookie req) of
        (Some service, Some cookie) \<Rightarrow> validate_session_cookie (sv_auth service) now cookie s
      | _ \<Rightarrow> None)"

definition handle_admin_summary :: "'s admin_service option \<Rightarrow> gotime \<Rightarrow> gotime \<Rightarrow> admin_request \<Rightarrow> 's \<Rightarrow> admin_reply" where
  "handle_admin_summary handlers now wall req s =
     (case (admin_session_of handlers now req s, handlers) of
        (Some _, Some service) \<Rightarrow> admin_json 200 0 ''ok'' (SummaryData (admin_summary_of service wall))
      | _ \<Rightarrow> admin_json 401 401 ''please login first'' NoData)"

definition handle_update_settings :: "'s admin_service option \<Rightarrow> gotime \<Rightarrow> admin_request \<Rightarrow> 's \<Rightarrow> 's \<times> admin_reply" where
  "handle_update_settings handlers now req s =
     (case (admin_session_of handlers now req s, handlers) of
        (Some session, Some service) \<Rightarrow>
          (case check_write_request (sv_auth service) session
              \<lparr>wr_method = rq_method req, wr_origin = rq_origin req, wr_host = rq_host req, wr_csrf = rq_csrf req\<rparr> of
             Some _ \<Rightarrow> (s, admin_json 403 403 ''forbidden'' NoData)
           | None \<Rightarrow>
               (case update_settings service now session s of
                  (s', Some _) \<Rightarrow> (s', admin_json 500 1001 ''settings update failed'' NoData)
                | (s', None) \<Rightarrow> (s', admin_json 200 0 ''ok'' NoData)))
      | _ \<Rightarrow> (s, admin_json 401 401 ''please login first'' NoData))"

definition handle_admin_profile :: admin_reply where
  "handle_admin_profile = admin_json 200 1002 ''unsupported'' NoData"

definition new_runtime_admin_service :: "gostring \<Rightarrow> gostring \<Rightarrow> gostring \<Rightarrow> 's user_store \<Rightarrow> gotime \<Rightarrow> admin_error + 's admin_service" where
  "new_runtime_admin_service environment password secret store wall =
     new_admin_service \<lparr>ao_key = secret, ao_store = Some store, ao_environment = environment, ao_env_username = ''admin'',
       ao_env_password = password, ao_breakglass = False, ao_breakglass_username = [], ao_breakglass_pass = [],
       ao_origins = [], ao_ttl = 0\<rparr> wall wall []"

section \<open>Writes are guarded\<close>

text \<open>
  C26.  A settings request that changes anything, or is answered with success, came from an owner.  The
  request carried a cookie whose second segment is the HMAC of the first under the service's key; the
  session the first segment encodes has not expired; the CSRF header equals the session's token, which is
  not empty; the origin is allowed; and unless the session is a breakglass one, the user store names the
  user with the role \<open>owner\<close> at this moment, whatever role the cookie carries.
\<close>
theorem admin_settings_guarded:
  assumes "handle_update_settings (Some service) now req s = (s', reply)" and "s' \<noteq> s \<or> ry_code reply = 0"
    and "aa_store (sv_auth service) = Some store"
  shows "\<exists>cookie seg body session. rq_cookie req = Some cookie \<and>
    trim_space cookie = seg @ ''.'' @ admin_sign (aa_key (sv_auth service)) seg \<and>
    b64_decode seg = Some body \<and> session_decode body = Some session \<and> now < as_expires session \<and>
    rq_csrf req = as_csrf session \<and> as_csrf session \<noteq> [] \<and>
    origin_allowed (sv_auth service) (rq_origin req) (rq_host req) \<and>
    (as_mode session \<noteq> mode_breakglass \<longrightarrow>
      (\<exists>user. us_find store (as_username session) s = Inr (Some user) \<and> au_role user = role_owner))"
proof -
  obtain cookie x where c: "rq_cookie req = Some cookie" and v: "validate_session_cookie (sv_auth service) now cookie s = Some x"
    and w: "check_write_request (sv_auth service) x
      \<lparr>wr_method = rq_method req, wr_origin = rq_origin req, wr_host = rq_host req, wr_csrf = rq_csrf req\<rparr> = None"
    using assms(1,2)
    by (cases "rq_cookie req"; cases "admin_session_of (Some service) now req s")
      (auto simp: handle_update_settings_def admin_session_of_def admin_json_def split: option.splits prod.splits)
  from w have r: "normalize_role (as_role x) = role_owner" "rq_csrf req = as_csrf x"
      "origin_allowed (sv_auth service) (rq_origin req) (rq_host req)"
    by (simp_all add: check_write_request_def split: if_splits)
  obtain seg body y where y: "trim_space cookie = seg @ ''.'' @ admin_sign (aa_key (sv_auth service)) seg" "b64_decode seg = Some body"
      "session_decode body = Some y" "now < as_expires y" "as_csrf y \<noteq> []" and m: "session_in_mode (sv_auth service) s y = Some x"
    using v by (rule validate_authentic)
  note same = session_in_mode_same [OF m]
  have u: "\<exists>user. us_find store (as_username y) s = Inr (Some user) \<and> au_role user = role_owner" if "as_mode y \<noteq> mode_breakglass"
  proof -
    from that same(2) obtain user where "us_find store (as_username x) s = Inr (Some user)" "as_role x = normalize_role (au_role user)"
      using session_in_mode_store [OF m assms(3)] by auto
    then show ?thesis using r(1) same(3) normalize_role_owner by auto
  qed
  show ?thesis
    by (rule exI [of _ cookie], rule exI [of _ seg], rule exI [of _ body], rule exI [of _ y]) (use c y(1-5) r(2,3) same(1) u in simp)
qed

section \<open>A seeded administrator\<close>

definition admin_rows_ok :: "admin_tables \<Rightarrow> bool" where
  "admin_rows_ok tb \<longleftrightarrow> list_all (\<lambda>r. valid_utf8 (aw_username r) \<and> trim_space (aw_username r) = aw_username r \<and> aw_username r \<noteq> []) (dt_users tb)"

lemma upsert_find:
  "aw_status r = 1 \<Longrightarrow> \<exists>x. find (\<lambda>y. collate (aw_username y) = collate (aw_username r) \<and> aw_status y = 1) (upsert_admin r xs) = Some x \<and>
     collate (aw_username x) = collate (aw_username r) \<and> aw_role x = aw_role r \<and> aw_hash x = aw_hash r \<and>
     (aw_username x = aw_username r \<or> (\<exists>y \<in> set xs. aw_username x = aw_username y))"
  by (induction xs) auto

definition seeded_user :: "gostring \<Rightarrow> gostring \<Rightarrow> admin_user \<Rightarrow> bool" where
  "seeded_user username h user \<longleftrightarrow> collate (au_username user) = collate username \<and> au_role user = role_owner \<and> au_hash user = h \<and>
     valid_utf8 (au_username user) \<and> trim_space (au_username user) = au_username user \<and> au_username user \<noteq> []"

lemma seed_find:
  assumes "seed_admin_user generate username passphrase tb = (tb', None)" and "admin_rows_ok tb"
    and "trim_space username = username" and "username \<noteq> []" and "valid_utf8 username" and "trim_space passphrase \<noteq> []"
  shows "\<exists>h user. generate (trim_space passphrase) = Some h \<and> dt_fault tb' = None \<and> seeded_user username h user \<and>
    (\<forall>name. trim_space name = name \<longrightarrow> name \<noteq> [] \<longrightarrow> collate name = collate username \<longrightarrow> sq_find_user name tb' = Inr (Some user))"
proof -
  obtain h where h: "generate (trim_space passphrase) = Some h" and f: "dt_fault tb = None"
    and tb': "dt_fault tb' = None" "dt_users tb' = upsert_admin \<lparr>aw_username = username, aw_role = role_owner, aw_hash = h, aw_status = 1,
        aw_created = mysql_datetime (dt_clock tb), aw_updated = mysql_datetime (dt_clock tb)\<rparr> (dt_users tb)"
    using assms(1,3,4,6) by (auto simp: seed_admin_user_def hash_password_def Let_def split: option.splits if_splits)
  let ?r = "\<lparr>aw_username = username, aw_role = role_owner, aw_hash = h, aw_status = 1,
        aw_created = mysql_datetime (dt_clock tb), aw_updated = mysql_datetime (dt_clock tb)\<rparr>"
  have "\<exists>x. find (\<lambda>y. collate (aw_username y) = collate username \<and> aw_status y = 1) (dt_users tb') = Some x \<and>
      collate (aw_username x) = collate username \<and> aw_role x = role_owner \<and> aw_hash x = h \<and>
      (aw_username x = username \<or> (\<exists>y \<in> set (dt_users tb). aw_username x = aw_username y))"
    using upsert_find [of ?r "dt_users tb"] unfolding tb'(2) by simp
  then obtain x where x: "find (\<lambda>y. collate (aw_username y) = collate username \<and> aw_status y = 1) (dt_users tb') = Some x"
      "collate (aw_username x) = collate username" "aw_role x = role_owner" "aw_hash x = h"
    and p: "aw_username x = username \<or> (\<exists>y \<in> set (dt_users tb). aw_username x = aw_username y)"
    by blast
  have "valid_utf8 (aw_username y) \<and> trim_space (aw_username y) = aw_username y \<and> aw_username y \<noteq> []" if "y \<in> set (dt_users tb)" for y
    using assms(2) that by (simp add: admin_rows_ok_def list_all_iff)
  then have ok: "valid_utf8 (aw_username x)" "trim_space (aw_username x) = aw_username x" "aw_username x \<noteq> []"
    using p assms(3-5) by metis+
  have ro: "trim_space role_owner = role_owner" "role_owner \<noteq> []" by code_simp+
  let ?u = "\<lparr>au_username = aw_username x, au_role = role_owner, au_hash = h\<rparr>"
  have "sq_find_user name tb' = Inr (Some ?u)" if "trim_space name = name" "name \<noteq> []" "collate name = collate username" for name
    using that x tb'(1) ro by (simp add: sq_find_user_def Let_def)
  moreover have "seeded_user username h ?u" using x ok by (simp add: seeded_user_def)
  ultimately show ?thesis using h tb'(1) by blast
qed

lemma runtime_service_auth:
  assumes "new_runtime_admin_service environment password secret store wall = Inr service"
  shows "aa_store (sv_auth service) = Some store" "aa_key (sv_auth service) = secret" "aa_ttl (sv_auth service) = 12 * hour"
    "aa_origins (sv_auth service) = []"
  using assms by (auto simp: new_runtime_admin_service_def new_admin_service_def new_admin_auth_def go_errors)

lemma seeded_login:
  assumes "aa_store svc = Some sq_admin_ops" and "sq_find_user username tb = Inr (Some user)" and "seeded_user username h user"
    and "trim_space username = username" and "username \<noteq> []" and "matches h pass" and "16 \<le> length entropy"
  shows "admin_login matches svc entropy now \<lparr>lr_username = username, lr_password = pass\<rparr> tb =
    Inr \<lparr>as_username = au_username user, as_role = role_owner, as_mode = mode_mysql, as_expires = now + aa_ttl svc,
      as_csrf = b64_encode (take 16 entropy)\<rparr>"
  using assms by (simp add: admin_login_def Let_def sq_admin_ops_def seeded_user_def new_session_def random_token_def rbind_def normalize_role_def)

lemma token_trim: "trim_space (b64_encode s) = b64_encode s"
  by (rule trim_space_token) (rule b64_encode_token)

lemma seeded_update:
  assumes "aa_store (sv_auth service) = Some sq_admin_ops" and "dt_fault tb = None"
    and "validate_session_cookie (sv_auth service) now cookie tb = Some x"
    and "as_role x = role_owner" and "as_csrf x = b64_encode r" and "r \<noteq> []" and "trim_space (as_username x) = as_username x" and "as_username x \<noteq> []"
    and "origin_allowed (sv_auth service) origin host"
  shows "\<exists>tb' row. handle_update_settings (Some service) now
      (req\<lparr>rq_cookie := Some cookie, rq_csrf := as_csrf x, rq_origin := origin, rq_host := host\<rparr>) tb = (tb', admin_json 200 0 ''ok'' NoData) \<and>
    dt_audits tb' = dt_audits tb @ [row] \<and> gw_username row = as_username x \<and> gw_action row = ''settings.update''"
proof -
  have a: "trim_space ''settings.update'' = ''settings.update''" by code_simp
  have "b64_encode r \<noteq> []" using b64_encode_nonempty [OF assms(6)] .
  then show ?thesis
    using assms by (simp add: handle_update_settings_def admin_session_of_def check_write_request_def normalize_role_def token_trim
        update_settings_def record_audit_def sq_admin_ops_def sq_record_audit_def Let_def a)
qed

text \<open>
  C27.  A seeded administrator gets in and can write.  After \<open>SeedAdminUser\<close> succeeds against a working
  database, logging in with that name (in any letter case the collation identifies) and passphrase answers
  200 with an owner's session and a cookie; and until the cookie's last whole second, a settings request
  with that cookie, the CSRF token of the answer and an allowed origin answers 200 and appends exactly one
  audit row, with the administrator's name.  (Of bcrypt: a hash it generates matches the passphrase.)
\<close>
theorem admin_seeded_write:
  assumes "seed_admin_user generate username passphrase tb = (tb', None)" and "admin_rows_ok tb"
    and "trim_space username = username" and "username \<noteq> []" and "valid_utf8 username" and "trim_space passphrase \<noteq> []"
    and "trim_space name = name" and "name \<noteq> []" and "collate name = collate username"
    and bcrypt: "\<And>p h. generate p = Some h \<Longrightarrow> matches h p"
    and service: "new_runtime_admin_service environment password secret sq_admin_ops wall0 = Inr service"
    and "16 \<le> length entropy" and "rq_login req = Some \<lparr>lr_username = name, lr_password = trim_space passphrase\<rparr>"
    and "0 < now" and "now + 12 * hour < 2 ^ 63 * second" and "now' < (now + 12 * hour) div second * second"
    and "origin_allowed (sv_auth service) origin host"
  shows "\<exists>u c csrf tb'' row. handle_admin_login matches (Some service) entropy now wall req tb' =
      (admin_json 200 0 ''ok'' (LoginData u role_owner mode_mysql csrf))\<lparr>ry_cookie := Some c\<rparr> \<and>
    handle_update_settings (Some service) now'
      (req'\<lparr>rq_cookie := Some (ck_value c), rq_csrf := csrf, rq_origin := origin, rq_host := host\<rparr>) tb' = (tb'', admin_json 200 0 ''ok'' NoData) \<and>
    dt_audits tb'' = dt_audits tb' @ [row] \<and> gw_username row = u \<and> collate u = collate username"
proof -
  let ?svc = "sv_auth service"
  note auth = runtime_service_auth [OF service]
  obtain h user where h: "generate (trim_space passphrase) = Some h" and f: "dt_fault tb' = None" and user: "seeded_user username h user"
    and find: "\<And>m. trim_space m = m \<Longrightarrow> m \<noteq> [] \<Longrightarrow> collate m = collate username \<Longrightarrow> sq_find_user m tb' = Inr (Some user)"
    using seed_find [OF assms(1-6)] by blast
  let ?x = "\<lparr>as_username = au_username user, as_role = role_owner, as_mode = mode_mysql, as_expires = now + 12 * hour,
      as_csrf = b64_encode (take 16 entropy)\<rparr>"
  have user': "seeded_user name h user" using user assms(9) by (simp add: seeded_user_def)
  have login: "admin_login matches ?svc entropy now \<lparr>lr_username = name, lr_password = trim_space passphrase\<rparr> tb' = Inr ?x"
    using seeded_login [where matches = matches and h = h and pass = "trim_space passphrase", OF auth(1) find [OF assms(7-9)] user' assms(7,8) bcrypt [OF h] assms(12)] by (simp add: auth(3))
  have u: "valid_utf8 (au_username user)" "trim_space (au_username user) = au_username user" "au_username user \<noteq> []"
      "collate (au_username user) = collate username" "au_role user = role_owner" using user by (simp_all add: seeded_user_def)
  have e: "0 < now + 12 * hour" using assms(14) by (simp add: hour_def minute_def second_def)
  have csrf: "take 16 entropy \<noteq> []" using assms(12) by auto
  obtain c where c: "session_cookie ?svc (drop 16 entropy) now wall ?x (admin_https req) = Inr c"
    using session_cookie_set [of ?x] e b64_encode_nonempty [OF csrf] by (metis admin_session.select_convs(4,5) less_irrefl)
  let ?y = "?x\<lparr>as_expires := (now + 12 * hour) div second * second\<rparr>"
  have "validate_session_cookie ?svc now' (ck_value c) tb' = session_in_mode ?svc tb' ?y"
    using admin_login_session [OF login] session_cookie_set [of ?x ?svc "drop 16 entropy" now wall "admin_https req"]
      valid_cookie_session [of ?x now' ?svc tb'] c e u assms(15,16) b64_encode_nonempty [OF csrf] b64_encode_valid valid_modes [of mode_mysql]
    by (simp add: session_texts_def normalize_role_def)
  also have "\<dots> = Some ?y"
    using find [OF u(2-4)] u(5) by (simp add: session_in_mode_def auth(1) sq_admin_ops_def normalize_role_def)
  finally have v: "validate_session_cookie ?svc now' (ck_value c) tb' = Some ?y" .
  have "handle_admin_login matches (Some service) entropy now wall req tb' =
      (admin_json 200 0 ''ok'' (LoginData (au_username user) role_owner mode_mysql (b64_encode (take 16 entropy))))\<lparr>ry_cookie := Some c\<rparr>"
    by (simp add: handle_admin_login_def assms(13) login c)
  moreover obtain tb'' row where "handle_update_settings (Some service) now'
      (req'\<lparr>rq_cookie := Some (ck_value c), rq_csrf := b64_encode (take 16 entropy), rq_origin := origin, rq_host := host\<rparr>) tb' =
      (tb'', admin_json 200 0 ''ok'' NoData)" "dt_audits tb'' = dt_audits tb' @ [row]" "gw_username row = au_username user"
    using seeded_update [OF auth(1) f v, of "take 16 entropy" origin host req'] u csrf assms(17) by auto
  ultimately show ?thesis using u(4) by blast
qed

section \<open>A concrete administrator\<close>

definition demo_admin_tables :: admin_tables where
  "demo_admin_tables = \<lparr>dt_users = [], dt_audits = [], dt_clock = unix_epoch, dt_fault = None\<rparr>"

definition demo_generate :: "gostring \<Rightarrow> gostring option" where
  "demo_generate p = Some (CHR ''$'' # p)"

definition demo_matches :: "gostring \<Rightarrow> gostring \<Rightarrow> bool" where
  "demo_matches h p \<longleftrightarrow> h = CHR ''$'' # p"

definition demo_seeded :: admin_tables where
  "demo_seeded = fst (seed_admin_user demo_generate ''Root'' '' pw '' demo_admin_tables)"

definition demo_admin_service :: "admin_tables admin_service" where
  "demo_admin_service = (case new_runtime_admin_service ''production'' [] ''key'' sq_admin_ops unix_epoch of Inr v \<Rightarrow> v)"

definition demo_admin_request :: admin_request where
  "demo_admin_request = \<lparr>rq_login = Some \<lparr>lr_username = ''root'', lr_password = ''pw''\<rparr>, rq_cookie = None, rq_method = ''POST'',
     rq_origin = [], rq_host = [], rq_csrf = [], rq_forwarded = ''https'', rq_tls = False\<rparr>"

lemma demo_seed: "seed_admin_user demo_generate ''Root'' '' pw '' demo_admin_tables = (demo_seeded, None)"
  unfolding demo_seeded_def by code_simp

lemma demo_admin_facts:
  "trim_space '' pw '' = ''pw''" "trim_space ''Root'' = ''Root''" "trim_space ''root'' = ''root''" "collate ''root'' = collate ''Root''"
  "valid_utf8 ''Root''" "trim_space ''https://a.example'' = ''https://a.example''"
  by code_simp+

lemma demo_service_built: "new_runtime_admin_service ''production'' [] ''key'' sq_admin_ops unix_epoch = Inr demo_admin_service"
  by (simp add: demo_admin_service_def new_runtime_admin_service_def new_admin_service_def new_admin_auth_def rbind_def require_def)

lemma demo_origin: "origin_allowed (sv_auth demo_admin_service) ''https://a.example'' ''a.example''"
proof -
  have "(case url_parse (trim_slashes (trim_space ''https://a.example'')) of None \<Rightarrow> False
      | Some parsed \<Rightarrow> u_host parsed \<noteq> [] \<and> equal_fold (u_host parsed) (trim_space ''a.example''))"
    "trim_slashes (trim_space ''https://a.example'') \<noteq> []" by code_simp+
  then show ?thesis by (simp add: origin_allowed_def Let_def runtime_service_auth [OF demo_service_built])
qed

theorem admin_seeded_write_witness:
  "\<exists>u c csrf tb row. handle_admin_login demo_matches (Some demo_admin_service) ''0123456789abcdef'' unix_epoch unix_epoch demo_admin_request demo_seeded =
      (admin_json 200 0 ''ok'' (LoginData u role_owner mode_mysql csrf))\<lparr>ry_cookie := Some c\<rparr> \<and>
    handle_update_settings (Some demo_admin_service) (unix_epoch + hour)
      (demo_admin_request\<lparr>rq_cookie := Some (ck_value c), rq_csrf := csrf, rq_origin := ''https://a.example'', rq_host := ''a.example''\<rparr>) demo_seeded =
      (tb, admin_json 200 0 ''ok'' NoData) \<and> dt_audits tb = dt_audits demo_seeded @ [row]"
proof -
  have rows: "admin_rows_ok demo_admin_tables" by (simp add: admin_rows_ok_def demo_admin_tables_def)
  have bcrypt: "demo_generate p = Some h \<Longrightarrow> demo_matches h p" for p h by (auto simp: demo_generate_def demo_matches_def)
  have times: "0 < unix_epoch" "unix_epoch + 12 * hour < 2 ^ 63 * second" "unix_epoch + hour < (unix_epoch + 12 * hour) div second * second"
    by (simp_all add: unix_epoch_def second_def minute_def hour_def)
  have lr: "rq_login demo_admin_request = Some \<lparr>lr_username = ''root'', lr_password = trim_space '' pw ''\<rparr>"
    by (simp add: demo_admin_request_def demo_admin_facts(1))
  have ne: "''Root'' \<noteq> []" "trim_space '' pw '' \<noteq> []" "''root'' \<noteq> []" "16 \<le> length ''0123456789abcdef''"
    by (simp_all add: demo_admin_facts(1))
  from admin_seeded_write [where matches = demo_matches,
      OF demo_seed rows demo_admin_facts(2) ne(1) demo_admin_facts(5) ne(2) demo_admin_facts(3) ne(3) demo_admin_facts(4) bcrypt demo_service_built
        ne(4) lr times demo_origin]
  show ?thesis by blast
qed

theorem admin_settings_guarded_witness:
  "\<exists>cookie csrf tb session seg body. handle_update_settings (Some demo_admin_service) (unix_epoch + hour)
      (demo_admin_request\<lparr>rq_cookie := Some cookie, rq_csrf := csrf, rq_origin := ''https://a.example'', rq_host := ''a.example''\<rparr>) demo_seeded =
      (tb, admin_json 200 0 ''ok'' NoData) \<and>
    trim_space cookie = seg @ ''.'' @ admin_sign ''key'' seg \<and> b64_decode seg = Some body \<and> session_decode body = Some session \<and>
    unix_epoch + hour < as_expires session \<and> csrf = as_csrf session"
proof -
  obtain h user where f: "dt_fault demo_seeded = None" and user: "seeded_user ''Root'' h user"
    and find: "\<And>m. trim_space m = m \<Longrightarrow> m \<noteq> [] \<Longrightarrow> collate m = collate ''Root'' \<Longrightarrow> sq_find_user m demo_seeded = Inr (Some user)"
    using seed_find [OF demo_seed _ demo_admin_facts(2) _ demo_admin_facts(5)] demo_admin_facts(1)
    by (auto simp: admin_rows_ok_def demo_admin_tables_def)
  note auth = runtime_service_auth [OF demo_service_built]
  let ?x = "\<lparr>as_username = au_username user, as_role = role_owner, as_mode = mode_mysql, as_expires = unix_epoch + 12 * hour,
      as_csrf = b64_encode ''0123456789abcdef''\<rparr>"
  let ?c = "b64_encode (json_print (session_json ?x)) @ ''.'' @ admin_sign ''key'' (b64_encode (json_print (session_json ?x)))"
  have u: "valid_utf8 (au_username user)" "trim_space (au_username user) = au_username user" "au_username user \<noteq> []"
      "collate (au_username user) = collate ''Root''" "au_role user = role_owner" using user by (simp_all add: seeded_user_def)
  have e: "0 \<le> as_expires ?x" "as_expires ?x < 2 ^ 63 * second" "unix_epoch + hour < as_expires ?x div second * second"
      "as_expires ?x div second * second = as_expires ?x"
    by (simp_all add: unix_epoch_def second_def minute_def hour_def)
  have csrf: "b64_encode ''0123456789abcdef'' \<noteq> []" by (rule b64_encode_nonempty) simp
  have "validate_session_cookie (sv_auth demo_admin_service) (unix_epoch + hour) ?c demo_seeded =
      session_in_mode (sv_auth demo_admin_service) demo_seeded ?x"
    using valid_cookie_session [of ?x "unix_epoch + hour" "sv_auth demo_admin_service" demo_seeded] csrf e u b64_encode_valid valid_modes [of mode_mysql]
    by (simp add: session_texts_def normalize_role_def auth(2))
  also have "\<dots> = Some ?x"
    using find [OF u(2-4)] u(5) by (simp add: session_in_mode_def auth(1) sq_admin_ops_def normalize_role_def)
  finally have "validate_session_cookie (sv_auth demo_admin_service) (unix_epoch + hour) ?c demo_seeded = Some ?x" .
  then obtain c x where v: "validate_session_cookie (sv_auth demo_admin_service) (unix_epoch + hour) c demo_seeded = Some x"
    and x: "as_role x = role_owner" "as_csrf x = b64_encode ''0123456789abcdef''" "trim_space (as_username x) = as_username x" "as_username x \<noteq> []"
    using u by force
  obtain tb where w: "handle_update_settings (Some demo_admin_service) (unix_epoch + hour)
      (demo_admin_request\<lparr>rq_cookie := Some c, rq_csrf := as_csrf x, rq_origin := ''https://a.example'', rq_host := ''a.example''\<rparr>) demo_seeded =
      (tb, admin_json 200 0 ''ok'' NoData)"
    using seeded_update [OF auth(1) f v x(1,2) _ x(3,4) demo_origin] by auto
  have code: "tb \<noteq> demo_seeded \<or> ry_code (admin_json 200 0 ''ok'' NoData) = 0" by (simp add: admin_json_def)
  from admin_settings_guarded [OF w code auth(1)]
  obtain seg body session where "trim_space c = seg @ ''.'' @ admin_sign ''key'' seg" "b64_decode seg = Some body"
      "session_decode body = Some session" "unix_epoch + hour < as_expires session" "as_csrf x = as_csrf session"
    unfolding auth(2) by auto
  with w show ?thesis by blast
qed

end
