(* ===== verification/Media.thy ===== *)
theory Media imports
  Download
  Candidates
  ParseUrl
begin

text \<open>
  \<open>internal/media/m3u8.go\<close> and \<open>runner.go\<close>: reading an HLS manifest, checking its URIs, rewriting it to
  local files, and the fixed \<open>ffmpeg\<close> command over local paths.  Package \<open>path\<close> is modelled on byte
  strings; what the file system and the process answer are arguments.
\<close>

section \<open>Package path\<close>

text \<open>
  The elements of a path: an empty element or \<open>.\<close> is dropped, \<open>..\<close> removes the element before it; above
  the start it is kept in a relative path and dropped in a rooted one.  The stack is reversed.
\<close>
fun clean_stack :: "bool \<Rightarrow> gostring list \<Rightarrow> gostring list \<Rightarrow> gostring list" where
  "clean_stack rooted st [] = rev st"
| "clean_stack rooted st (w # ws) =
     (if w = [] \<or> w = ''.'' then clean_stack rooted st ws
      else if w = ''..'' then
        (case st of
           [] \<Rightarrow> clean_stack rooted (if rooted then [] else [w]) ws
         | v # vs \<Rightarrow> if v = ''..'' then clean_stack rooted (w # st) ws else clean_stack rooted vs ws)
      else clean_stack rooted (w # st) ws)"

text \<open>\<open>path.Clean\<close> and, on Unix, \<open>filepath.Clean\<close>.\<close>
definition path_clean :: "gostring \<Rightarrow> gostring" where
  "path_clean p =
     (let rooted = has_prefix p ''/''; ws = clean_stack rooted [] (split_on CHR ''/'' p) in
      if rooted then CHR ''/'' # join ''/'' ws else if ws = [] then ''.'' else join ''/'' ws)"

text \<open>\<open>filepath.Abs\<close> in the working directory \<open>cwd\<close> (None: it cannot be read).\<close>
definition path_abs :: "gostring option \<Rightarrow> gostring \<Rightarrow> gostring option" where
  "path_abs cwd p =
     (if has_prefix p ''/'' then Some (path_clean p)
      else (case cwd of None \<Rightarrow> None | Some d \<Rightarrow> Some (path_clean (if p = [] then d else d @ ''/'' @ p))))"

definition path_elements :: "gostring \<Rightarrow> gostring list" where
  "path_elements p = filter (\<lambda>w. w \<noteq> []) (split_on CHR ''/'' p)"

fun drop_common :: "gostring list \<Rightarrow> gostring list \<Rightarrow> gostring list \<times> gostring list" where
  "drop_common (a # as) (b # bs) = (if a = b then drop_common as bs else (a # as, b # bs))"
| "drop_common as bs = (as, bs)"

text \<open>\<open>filepath.Rel\<close> of two absolute, cleaned paths.\<close>
definition path_rel :: "gostring \<Rightarrow> gostring \<Rightarrow> gostring" where
  "path_rel base targ =
     (let (up, down) = drop_common (path_elements base) (path_elements targ);
          ws = map (\<lambda>_. ''..'') up @ down
      in if ws = [] then ''.'' else join ''/'' ws)"

section \<open>Manifests\<close>

datatype media_error = ErrM3U8Depth | ErrM3U8Limit | ErrM3U8UnsafeURI | ErrM3U8Encryption | ErrUnsafeLocalPath
  | ErrFFmpegExecutable | ErrFFmpegFailed | ErrDASHPairRequired | ErrFallbackBudgetExceeded | ErrNoDASHCandidate
  | MediaFetchURL guard_error | MediaContext gostring | MediaFetch gostring | MediaFile gostring | JoinedFFmpeg gostring

record m3u8_options =
  mo_depth :: int
  mo_max_depth :: int
  mo_max_segments :: int
  mo_max_bytes :: int

record segment_info =
  sg_uri :: gostring
  sg_bytes :: "64 word"

record manifest =
  mf_original :: gostring
  mf_segments :: "segment_info list"
  mf_children :: "gostring list"

definition normalize_m3u8_options :: "m3u8_options \<Rightarrow> m3u8_options" where
  "normalize_m3u8_options opts = opts
     \<lparr>mo_max_depth := (if mo_max_depth opts \<le> 0 then 3 else mo_max_depth opts),
      mo_max_segments := (if mo_max_segments opts \<le> 0 then 256 else mo_max_segments opts),
      mo_max_bytes := (if mo_max_bytes opts \<le> 0 then 2 ^ 20 else mo_max_bytes opts)\<rparr>"

text \<open>\<open>strings.Index\<close> of one byte.\<close>
definition index_of :: "char \<Rightarrow> gostring \<Rightarrow> int" where
  "index_of c s = (if c \<in> set s then int (length (takeWhile (\<lambda>x. x \<noteq> c) s)) else - 1)"

text \<open>The checks after the recursive one.\<close>
definition check_plain_uri :: "gostring \<Rightarrow> bool" where
  "check_plain_uri raw \<longleftrightarrow>
     \<not> has_prefix raw ''/'' \<and>
     (case url_parse raw of
        None \<Rightarrow> False
      | Some u \<Rightarrow>
          u_scheme u = [] \<and> u_host u = [] \<and> u_opaque u = [] \<and>
          (let cleaned = path_clean (u_path u) in
           cleaned \<noteq> ''.'' \<and> \<not> has_prefix cleaned ''../'' \<and> cleaned \<noteq> ''..'' \<and> \<not> contains cleaned ''/../'') \<and>
          \<not> (CHR '':'' \<in> set raw \<and> index_of CHR '':'' raw < index_of CHR ''/'' (raw @ ''/'')))"

lemma unescape_shorter:
  assumes "url_unescape m s = Some d" and "m \<noteq> EncQuery"
  shows "length d \<le> length s \<and> (d \<noteq> s \<longrightarrow> length d + 2 \<le> length s)"
  using assms
proof (induction m s arbitrary: d rule: url_unescape.induct)
  case (2 m c s)
  then show ?case by (fastforce simp: Let_def split: if_splits list.splits option.splits)
qed simp

function validate_manifest_uri :: "gostring \<Rightarrow> bool" where
  "validate_manifest_uri raw =
     (if raw = [] \<or> contains_any raw [CHR 0x00, CHR 0x0D, CHR 0x0A, CHR 0x5C] then False
      else (case url_unescape EncPathSegment raw of
          Some decoded \<Rightarrow> (if decoded \<noteq> raw then validate_manifest_uri decoded else True) \<and> check_plain_uri raw
        | None \<Rightarrow> check_plain_uri raw))"
  by pat_completeness auto
termination
  by (relation "measure length") (auto dest: unescape_shorter)

declare validate_manifest_uri.simps [simp del]

record manifest_scan =
  ms_parsed :: manifest
  ms_child :: bool

definition scan_manifest_line :: "m3u8_options \<Rightarrow> gostring \<Rightarrow> manifest_scan \<Rightarrow> media_error + manifest_scan" where
  "scan_manifest_line opts raw st =
     (let line = trim_space raw; upper = to_upper line; m = ms_parsed st in
      if line = [] then Inr st
      else if has_prefix line ''#'' then
        (if has_prefix upper ''#EXT-X-KEY'' \<or> contains upper ''METHOD=AES-128'' then Inl ErrM3U8Encryption
         else Inr (st\<lparr>ms_child := has_prefix upper ''#EXT-X-STREAM-INF''\<rparr>))
      else if \<not> validate_manifest_uri line then Inl ErrM3U8UnsafeURI
      else if ms_child st then
        (if mo_depth opts \<ge> mo_max_depth opts then Inl ErrM3U8Depth
         else Inr \<lparr>ms_parsed = m\<lparr>mf_children := mf_children m @ [line]\<rparr>, ms_child = False\<rparr>)
      else
        let segments = mf_segments m @ [\<lparr>sg_uri = line, sg_bytes = 0\<rparr>] in
        if int (length segments) > mo_max_segments opts then Inl ErrM3U8Limit
        else Inr (st\<lparr>ms_parsed := m\<lparr>mf_segments := segments\<rparr>\<rparr>))"

fun scan_manifest :: "m3u8_options \<Rightarrow> gostring list \<Rightarrow> manifest_scan \<Rightarrow> media_error + manifest_scan" where
  "scan_manifest opts [] st = Inr st"
| "scan_manifest opts (raw # lines) st = rbind (scan_manifest_line opts raw st) (scan_manifest opts lines)"

definition parse_m3u8_manifest :: "gostring \<Rightarrow> m3u8_options \<Rightarrow> media_error + manifest" where
  "parse_m3u8_manifest text opts0 =
     (let opts = normalize_m3u8_options opts0 in
      if int (length text) > mo_max_bytes opts then Inl ErrM3U8Limit
      else rbind (scan_manifest opts (split_on CHR 0x0A text)
          \<lparr>ms_parsed = \<lparr>mf_original = text, mf_segments = [], mf_children = []\<rparr>, ms_child = False\<rparr>) (\<lambda>st. Inr (ms_parsed st)))"

text \<open>The running total is an \<open>int64\<close> and wraps.\<close>
fun segment_budget_loop :: "64 word \<Rightarrow> segment_info list \<Rightarrow> 64 word \<Rightarrow> media_error option" where
  "segment_budget_loop budget_bytes [] acc = None"
| "segment_budget_loop budget_bytes (x # xs) acc =
     (if sg_bytes x <s 0 then Some ErrM3U8Limit
      else if budget_bytes <s acc + sg_bytes x then Some ErrM3U8Limit
      else segment_budget_loop budget_bytes xs (acc + sg_bytes x))"

definition validate_segment_budget :: "segment_info list \<Rightarrow> 64 word \<Rightarrow> media_error option" where
  "validate_segment_budget segments budget_bytes =
     (if budget_bytes <=s 0 then None else segment_budget_loop budget_bytes segments 0)"

section \<open>Local files\<close>

record media_files =
  mx_cwd :: "gostring option"
  mx_mkdir :: "gostring option"
  mx_chmod :: "gostring option"

definition absolute_root :: "media_files \<Rightarrow> gostring \<Rightarrow> media_error + gostring" where
  "absolute_root env root0 =
     (let root = trim_space root0 in
      if root = [] \<or> contains root ''://'' then Inl ErrUnsafeLocalPath
      else (case path_abs (mx_cwd env) root of
          None \<Rightarrow> Inl ErrUnsafeLocalPath
        | Some p \<Rightarrow>
            (case mx_mkdir env of
               Some e \<Rightarrow> Inl (MediaFile e)
             | None \<Rightarrow> (case mx_chmod env of Some e \<Rightarrow> Inl (MediaFile e) | None \<Rightarrow> Inr (path_clean p)))))"

definition require_local_path :: "media_files \<Rightarrow> gostring \<Rightarrow> gostring \<Rightarrow> media_error + gostring" where
  "require_local_path env root candidate =
     (if trim_space candidate = [] \<or> contains candidate ''://'' then Inl ErrUnsafeLocalPath
      else rbind (absolute_root env root) (\<lambda>abs_root.
        (case path_abs (mx_cwd env) candidate of
           None \<Rightarrow> Inl ErrUnsafeLocalPath
         | Some p \<Rightarrow>
             let abs_candidate = path_clean p; relative = path_rel abs_root abs_candidate in
             if relative = ''.'' \<or> has_prefix relative ''../'' \<or> relative = ''..'' \<or> has_prefix relative ''/''
             then Inl ErrUnsafeLocalPath else Inr abs_candidate)))"

record localized_segment =
  ls_source :: gostring
  ls_local :: gostring
  ls_path :: gostring

record localized_m3u8 =
  lm_manifest :: gostring
  lm_segments :: "localized_segment list"

definition local_name :: "nat \<Rightarrow> gostring" where
  "local_name index = ''segment_'' @ pad_dec 6 (index + 1) @ ''.ts''"

definition segment_names :: "gostring \<Rightarrow> segment_info list \<Rightarrow> (gostring, localized_segment) gomap" where
  "segment_names root segments =
     foldl (\<lambda>m (i, x). AList.update (sg_uri x)
         \<lparr>ls_source = sg_uri x, ls_local = local_name i, ls_path = path_clean (root @ ''/'' @ local_name i)\<rparr> m)
       [] (enumerate 0 segments)"

definition rewrite_line :: "(gostring, localized_segment) gomap \<Rightarrow> gostring \<Rightarrow> gostring list" where
  "rewrite_line names raw =
     (let line = trim_space raw in
      if line = [] then []
      else if has_prefix line ''#'' then [line]
      else (case map_of names line of Some x \<Rightarrow> [ls_local x] | None \<Rightarrow> []))"

definition localize_m3u8 :: "media_files \<Rightarrow> manifest \<Rightarrow> gostring \<Rightarrow> media_error + localized_m3u8" where
  "localize_m3u8 env m temp_root =
     rbind (absolute_root env temp_root) (\<lambda>root.
       let names = segment_names root (mf_segments m);
           rewritten = concat (map (rewrite_line names) (split_on CHR 0x0A (mf_original m)))
       in Inr \<lparr>lm_manifest = join [CHR 0x0A] rewritten @ [CHR 0x0A],
            lm_segments = map (\<lambda>x. get_or \<lparr>ls_source = [], ls_local = [], ls_path = []\<rparr> names (sg_uri x)) (mf_segments m)\<rparr>)"

section \<open>The ffmpeg command\<close>

record ffmpeg_request =
  fr_executable :: gostring
  fr_root :: gostring
  fr_manifest :: gostring
  fr_output :: gostring

record ffmpeg_command =
  fc_executable :: gostring
  fc_args :: "gostring list"

definition build_ffmpeg_command :: "media_files \<Rightarrow> ffmpeg_request \<Rightarrow> media_error + ffmpeg_command" where
  "build_ffmpeg_command env request =
     (let executable = trim_space (fr_executable request) in
      if executable \<noteq> ''ffmpeg'' then Inl ErrFFmpegExecutable
      else rbind (require_local_path env (fr_root request) (fr_manifest request)) (\<lambda>manifest_path.
           rbind (require_local_path env (fr_root request) (fr_output request)) (\<lambda>output_path.
             Inr \<lparr>fc_executable = executable,
               fc_args = [''-hide_banner'', ''-nostdin'', ''-protocol_whitelist'', ''file'', ''-allowed_extensions'', ''ALL'',
                 ''-i'', manifest_path, ''-c'', ''copy'', ''-y'', output_path]\<rparr>)))"

fun has_argument_pair :: "gostring list \<Rightarrow> gostring \<Rightarrow> gostring \<Rightarrow> bool" where
  "has_argument_pair (a # b # rest) l r = (a = l \<and> b = r \<or> has_argument_pair (b # rest) l r)"
| "has_argument_pair _ l r = False"

definition forbidden_schemes :: "gostring list" where
  "forbidden_schemes = [''http:'', ''https:'', ''file:'', ''concat:'', ''crypto:'', ''data:'', ''tcp:'', ''udp:'']"

definition validate_ffmpeg_command :: "ffmpeg_command \<Rightarrow> media_error option" where
  "validate_ffmpeg_command command =
     (if trim_space (fc_executable command) \<noteq> ''ffmpeg'' then Some ErrFFmpegExecutable
      else if fc_args command = [] then Some ErrFFmpegFailed
      else if \<not> has_argument_pair (fc_args command) ''-protocol_whitelist'' ''file'' then Some ErrUnsafeLocalPath
      else if list_ex (\<lambda>a. list_ex (contains (to_lower (trim_space a))) forbidden_schemes) (fc_args command) then Some ErrUnsafeLocalPath
      else None)"

section \<open>Cleaned paths\<close>

text \<open>A walk along the elements that never climbs above its start.\<close>
fun stays_inside :: "nat \<Rightarrow> gostring list \<Rightarrow> bool" where
  "stays_inside n [] = True"
| "stays_inside n (w # ws) =
     (if w = [] \<or> w = ''.'' then stays_inside n ws
      else if w = ''..'' then 0 < n \<and> stays_inside (n - 1) ws
      else stays_inside (Suc n) ws)"

lemma clean_stack_bottom:
  "st \<noteq> [] \<Longrightarrow> last st = ''..'' \<Longrightarrow> clean_stack False st ws \<noteq> [] \<and> hd (clean_stack False st ws) = ''..''"
proof (induction ws arbitrary: st)
  case Nil
  then show ?case by (simp add: hd_rev)
next
  case (Cons w ws)
  show ?case
  proof (cases "w = [] \<or> w = ''.''")
    case True
    then show ?thesis using Cons by simp
  next
    case False
    then obtain v vs where st: "st = v # vs" using Cons.prems(1) by (cases st) auto
    show ?thesis
    proof (cases "w = ''..'' \<and> v \<noteq> ''..''")
      case True
      then have "vs \<noteq> []" "last vs = ''..''" using Cons.prems(2) st by (auto split: if_splits)
      then show ?thesis using Cons.IH True False st by simp
    next
      case no: False
      then have "clean_stack False st (w # ws) = clean_stack False (w # st) ws" using False st by auto
      moreover have "last (w # st) = ''..''" using Cons.prems by simp
      ultimately show ?thesis using Cons.IH [of "w # st"] by (metis list.distinct(1))
    qed
  qed
qed

lemma clean_stack_escapes:
  "''..'' \<notin> set st \<Longrightarrow> \<not> stays_inside (length st) ws \<Longrightarrow> clean_stack False st ws \<noteq> [] \<and> hd (clean_stack False st ws) = ''..''"
proof (induction ws arbitrary: st)
  case (Cons w ws)
  show ?case
  proof (cases st)
    case Nil
    then show ?thesis using Cons clean_stack_bottom [of "[''..'']" ws] Cons.IH [of "[w]"] Cons.IH [of "[]"] by (auto split: if_splits)
  next
    case (Cons v vs)
    then show ?thesis using Cons.prems Cons.IH [of st] Cons.IH [of vs] Cons.IH [of "w # st"] by (auto split: if_splits)
  qed
qed simp

lemma join_first: "ws \<noteq> [] \<Longrightarrow> hd ws = w \<Longrightarrow> join sep ws = w \<or> (\<exists>t. join sep ws = w @ sep @ t)"
  by (cases ws rule: remdups_adj.cases) auto

lemma path_clean_inside:
  assumes "\<not> has_prefix p ''/''" and "\<not> has_prefix (path_clean p) ''../''" and "path_clean p \<noteq> ''..''"
  shows "stays_inside 0 (split_on CHR ''/'' p)"
proof (rule ccontr)
  assume "\<not> stays_inside 0 (split_on CHR ''/'' p)"
  then have "clean_stack False [] (split_on CHR ''/'' p) \<noteq> [] \<and> hd (clean_stack False [] (split_on CHR ''/'' p)) = ''..''"
    using clean_stack_escapes [of "[]"] by simp
  then show False
    using join_first [of "clean_stack False [] (split_on CHR ''/'' p)" "''..''" "''/''"] assms
    by (auto simp: path_clean_def Let_def has_prefix_def)
qed

section \<open>Manifest URIs\<close>

lemma scheme_scan_rest: "scheme_scan raw acc s = Some (sch, rest) \<Longrightarrow> sch = [] \<Longrightarrow> rest = raw"
  by (induction raw acc s rule: scheme_scan.induct) (auto simp: Let_def split: if_splits)

lemma cut_at_split: "cut_at d s = (a, q) \<Longrightarrow> \<exists>r. s = a @ r"
  by (auto simp: cut_at_def split: if_splits) (metis takeWhile_dropWhile_id)+

lemma set_path_path: "set_path p u = Some v \<Longrightarrow> url_unescape EncPath p = Some (u_path v) \<and> u_scheme v = u_scheme u"
  by (auto simp: set_path_def split: option.splits)

lemma parse_relative_path:
  assumes "url_parse raw = Some u" and "u_scheme u = []" and "\<not> has_prefix raw ''/''"
  shows "\<exists>p rest. raw = p @ rest \<and> url_unescape EncPath p = Some (u_path u)"
proof -
  obtain s frag where c: "cut_at CHR ''#'' raw = (s, frag)" by (cases "cut_at CHR ''#'' raw")
  then obtain r where raw: "raw = s @ r" using cut_at_split by blast
  obtain v where v: "parse_no_fragment s = Some v" "u_path v = u_path u" "u_scheme v = u_scheme u"
    using assms(1) c by (auto simp: url_parse_def split: option.splits list.splits)
  show ?thesis
  proof (cases "s = ''*''")
    case True
    then have "v = empty_url\<lparr>u_path := ''*''\<rparr>" using v(1) by (simp add: parse_no_fragment_def has_ctl_def)
    then have "u_path u = ''*''" using v(2) by (cases v) (simp add: empty_url_def)
    then show ?thesis using raw True by (rule_tac x = s in exI, rule_tac x = r in exI) simp
  next
    case False
    obtain scheme0 rest0 where g: "get_scheme s = Some (scheme0, rest0)" and ctl: "\<not> has_ctl s"
      using v(1) False by (auto simp: parse_no_fragment_def split: option.splits if_splits)
    let ?force = "has_suffix rest0 ''?'' \<and> count_char CHR ''?'' rest0 = 1"
    obtain rest query where rq: "(if ?force then (butlast rest0, []) else (case cut_at CHR ''?'' rest0 of (a, q) \<Rightarrow> (a, case q of None \<Rightarrow> [] | Some b \<Rightarrow> b)))
        = (rest, query)" by fastforce
    let ?u = "empty_url\<lparr>u_scheme := to_lower scheme0, u_force_query := ?force, u_raw_query := query\<rparr>"
    have pnf: "parse_no_fragment s =
        (if \<not> has_prefix rest ''/'' \<and> to_lower scheme0 \<noteq> [] then Some (?u\<lparr>u_opaque := rest\<rparr>)
         else if \<not> has_prefix rest ''/'' \<and> CHR '':'' \<in> set (fst (cut_at CHR ''/'' rest)) then None
         else if (to_lower scheme0 \<noteq> [] \<or> \<not> has_prefix rest ''///'') \<and> has_prefix rest ''//'' then
           (let auth = takeWhile (\<lambda>c. c \<noteq> CHR ''/'') (drop 2 rest); path = dropWhile (\<lambda>c. c \<noteq> CHR ''/'') (drop 2 rest)
            in (case parse_authority auth of None \<Rightarrow> None | Some (user, host) \<Rightarrow> set_path path (?u\<lparr>u_user := user, u_host := host\<rparr>)))
         else set_path rest (?u\<lparr>u_omit_host := (to_lower scheme0 \<noteq> [] \<and> has_prefix rest ''/'')\<rparr>))"
      by (simp only: parse_no_fragment_def ctl False g Let_def rq if_False option.case prod.case)
    have "to_lower scheme0 = []"
      using v(1,3) assms(2) unfolding pnf by (auto simp: Let_def split: if_splits option.splits dest: set_path_path)
    then have sch: "scheme0 = []" by (simp add: to_lower_def)
    then have "rest0 = s" using g scheme_scan_rest by (simp add: get_scheme_def)
    then obtain r' where r': "s = rest @ r'"
      using rq cut_at_split [of "CHR ''?''" s] by (auto split: if_splits prod.splits) (metis append_take_drop_id butlast_conv_take)
    then have "\<not> has_prefix rest ''/''" using assms(3) raw by (auto simp: has_prefix_append)
    then have "set_path rest ?u = Some v"
      using v(1) unfolding pnf by (auto simp: sch to_lower_def has_prefix_append empty_url_def split: if_splits)
    then show ?thesis using set_path_path [of rest ?u v] v(2) raw r' by (rule_tac x = rest in exI, rule_tac x = "r' @ r" in exI) simp
  qed
qed

lemma unescape_slash:
  assumes "url_unescape EncPath p = Some path" and "has_prefix path ''/''" and "\<not> has_prefix (p @ r) ''/''"
    and "url_unescape EncPathSegment (p @ r) = Some d"
  shows "has_prefix d ''/''"
proof (cases p)
  case Nil
  then show ?thesis using assms(1,2) by (auto simp: has_prefix_def)
next
  case (Cons c s)
  show ?thesis
  proof (cases "c = CHR ''%''")
    case True
    then obtain h l t where s: "s = h # l # t" using assms(1) Cons by (auto split: list.splits)
    then show ?thesis using assms(1,2,4) Cons True
      by (auto simp: has_prefix_def Let_def split: option.splits)
  next
    case False
    then obtain t where "path = c # t" using assms(1) Cons by (auto split: if_splits)
    then show ?thesis using assms(2,3) Cons by (simp add: has_prefix_def)
  qed
qed

text \<open>
  What a checked URI may be: a relative reference whose path, decoded, never climbs above the place it
  starts from.
\<close>
definition relative_uri :: "gostring \<Rightarrow> bool" where
  "relative_uri raw \<longleftrightarrow> raw \<noteq> [] \<and> \<not> contains_any raw [CHR 0x00, CHR 0x0D, CHR 0x0A, CHR 0x5C] \<and>
     (case url_parse raw of
        None \<Rightarrow> False
      | Some u \<Rightarrow> u_scheme u = [] \<and> u_host u = [] \<and> u_opaque u = [] \<and> \<not> has_prefix (u_path u) ''/'' \<and>
          stays_inside 0 (split_on CHR ''/'' (u_path u)))"

lemma validate_not_rooted: "validate_manifest_uri raw \<Longrightarrow> \<not> has_prefix raw ''/''"
  by (subst (asm) validate_manifest_uri.simps) (auto simp: check_plain_uri_def split: if_splits option.splits)

lemma validate_decoded: "validate_manifest_uri raw \<Longrightarrow> url_unescape EncPathSegment raw = Some d \<Longrightarrow> validate_manifest_uri d"
  by (cases "d = raw") (auto simp: validate_manifest_uri.simps [of raw] split: if_splits)

lemma validate_relative:
  assumes "validate_manifest_uri raw" and "url_unescape EncPathSegment raw = Some d"
  shows "relative_uri raw"
proof -
  have c: "raw \<noteq> []" "\<not> contains_any raw [CHR 0x00, CHR 0x0D, CHR 0x0A, CHR 0x5C]" "check_plain_uri raw"
    using assms by (auto simp: validate_manifest_uri.simps [of raw] split: if_splits)
  then obtain u where u: "url_parse raw = Some u" "u_scheme u = []" "u_host u = []" "u_opaque u = []"
      "\<not> has_prefix (path_clean (u_path u)) ''../''" "path_clean (u_path u) \<noteq> ''..''"
    by (auto simp: check_plain_uri_def Let_def split: option.splits)
  have raw: "\<not> has_prefix raw ''/''" using validate_not_rooted assms(1) .
  obtain p r where p: "raw = p @ r" "url_unescape EncPath p = Some (u_path u)"
    using parse_relative_path [OF u(1,2) raw] by blast
  have "\<not> has_prefix d ''/''" using validate_not_rooted validate_decoded [OF assms] .
  then have "\<not> has_prefix (u_path u) ''/''" using unescape_slash [OF p(2)] raw assms(2) p(1) by blast
  then show ?thesis using path_clean_inside u c by (simp add: relative_uri_def)
qed

text \<open>The same check with a bound on the depth of the recursion: None is a call beyond the bound.\<close>
fun validate_uri_within :: "nat \<Rightarrow> gostring \<Rightarrow> bool option" where
  "validate_uri_within 0 raw = None"
| "validate_uri_within (Suc n) raw =
     (if raw = [] \<or> contains_any raw [CHR 0x00, CHR 0x0D, CHR 0x0A, CHR 0x5C] then Some False
      else (case url_unescape EncPathSegment raw of
          Some decoded \<Rightarrow>
            if decoded \<noteq> raw then
              (case validate_uri_within n decoded of None \<Rightarrow> None | Some ok \<Rightarrow> Some (ok \<and> check_plain_uri raw))
            else Some (check_plain_uri raw)
        | None \<Rightarrow> Some (check_plain_uri raw)))"

text \<open>
  C29.  Checking a manifest URI ends, however often the URI is percent-encoded: the function calls itself on
  its own decoding, each decoding is at least two bytes shorter, and so a URI of \<open>n\<close> bytes is settled after
  at most \<open>n div 2 + 1\<close> nested calls.
\<close>
theorem manifest_uri_check_ends:
  "validate_uri_within (length raw div 2 + 1) raw = Some (validate_manifest_uri raw)"
proof -
  have "length raw < 2 * n \<Longrightarrow> validate_uri_within n raw = Some (validate_manifest_uri raw)" for n raw
  proof (induction n arbitrary: raw)
    case (Suc n)
    have "validate_uri_within n d = Some (validate_manifest_uri d)" if "url_unescape EncPathSegment raw = Some d" "d \<noteq> raw" for d
      using Suc unescape_shorter [OF that(1)] that(2) by simp
    then show ?case by (auto simp: validate_manifest_uri.simps [of raw] split: option.splits)
  qed simp
  moreover have "length raw < 2 * (length raw div 2 + 1)" by simp
  ultimately show ?thesis by blast
qed

section \<open>Manifests\<close>

definition uri_line :: "gostring \<Rightarrow> bool" where
  "uri_line u \<longleftrightarrow> validate_manifest_uri u \<and> \<not> has_prefix u ''#'' \<and> trim_space u = u"

definition scan_ok :: "m3u8_options \<Rightarrow> manifest \<Rightarrow> bool" where
  "scan_ok opts m \<longleftrightarrow> list_all uri_line (map sg_uri (mf_segments m) @ mf_children m) \<and>
     int (length (mf_segments m)) \<le> mo_max_segments opts \<and> (mo_depth opts \<ge> mo_max_depth opts \<longrightarrow> mf_children m = [])"

lemma scan_line_ok:
  assumes "scan_manifest_line opts raw st = Inr st'" and "scan_ok opts (ms_parsed st)"
  shows "scan_ok opts (ms_parsed st') \<and> mf_original (ms_parsed st') = mf_original (ms_parsed st)"
proof -
  have "uri_line (trim_space raw)" if "validate_manifest_uri (trim_space raw)" "\<not> has_prefix (trim_space raw) ''#''"
    using that trim_space_idem by (simp add: uri_line_def)
  then show ?thesis
    using assms by (auto simp: scan_manifest_line_def scan_ok_def Let_def split: if_splits)
qed

lemma scan_manifest_ok:
  "scan_manifest opts lines st = Inr st' \<Longrightarrow> scan_ok opts (ms_parsed st) \<Longrightarrow>
     scan_ok opts (ms_parsed st') \<and> mf_original (ms_parsed st') = mf_original (ms_parsed st)"
proof (induction lines arbitrary: st)
  case (Cons raw lines)
  then obtain st1 where "scan_manifest_line opts raw st = Inr st1" "scan_manifest opts lines st1 = Inr st'" by (auto simp: go_errors)
  with Cons scan_line_ok show ?case by metis
qed simp

text \<open>
  C28.  A manifest that parses is within its limits and points nowhere outside.  Its text is no longer than
  allowed and kept as it was; it has no more segments than allowed, and child manifests only below the
  depth limit.  The URI of every segment and child, when its percent-encoding is well formed, is a
  relative reference without scheme, host, leading slash, backslash or control line break, whose decoded
  path never climbs above the manifest's directory; and the same holds of everything it decodes to, again
  and again.  (A URI whose encoding is broken somewhere is accepted without the check of what it decodes to,
  see \<open>m3u8_broken_query_accepted\<close>; URIs in the attributes of tags are kept with the text and not checked.)
\<close>
theorem m3u8_manifest_confined:
  assumes "parse_m3u8_manifest text opts0 = Inr m"
  shows "mf_original m = text \<and>
    (let opts = normalize_m3u8_options opts0 in
       int (length text) \<le> mo_max_bytes opts \<and> int (length (mf_segments m)) \<le> mo_max_segments opts \<and>
       (mo_depth opts \<ge> mo_max_depth opts \<longrightarrow> mf_children m = [])) \<and>
    (\<forall>u \<in> set (map sg_uri (mf_segments m) @ mf_children m).
       \<forall>n d. ((\<lambda>x. Option.bind x (url_unescape EncPathSegment)) ^^ n) (Some u) = Some d \<longrightarrow>
         url_unescape EncPathSegment d \<noteq> None \<longrightarrow> relative_uri d)"
proof -
  let ?opts = "normalize_m3u8_options opts0"
  let ?st = "\<lparr>ms_parsed = \<lparr>mf_original = text, mf_segments = [], mf_children = []\<rparr>, ms_child = False\<rparr>"
  have pos: "0 < mo_max_segments ?opts" by (simp add: normalize_m3u8_options_def)
  obtain st where len: "int (length text) \<le> mo_max_bytes ?opts"
    and st: "scan_manifest ?opts (split_on CHR 0x0A text) ?st = Inr st" "m = ms_parsed st"
    using assms by (auto simp: parse_m3u8_manifest_def Let_def go_errors split: if_splits)
  have ok: "scan_ok ?opts m \<and> mf_original m = text"
    using scan_manifest_ok [OF st(1)] pos st(2) by (simp add: scan_ok_def)
  have "relative_uri d" if u: "u \<in> set (map sg_uri (mf_segments m) @ mf_children m)"
    and d: "((\<lambda>x. Option.bind x (url_unescape EncPathSegment)) ^^ n) (Some u) = Some d" and e: "url_unescape EncPathSegment d \<noteq> None" for u n d
  proof -
    have "validate_manifest_uri u" using ok u by (auto simp: scan_ok_def uri_line_def list_all_iff)
    then have "validate_manifest_uri d" using d
    proof (induction n arbitrary: d)
      case (Suc n)
      then obtain x where "((\<lambda>x. Option.bind x (url_unescape EncPathSegment)) ^^ n) (Some u) = Some x" "url_unescape EncPathSegment x = Some d"
        by (auto simp: bind_eq_Some_conv)
      with Suc validate_decoded show ?case by blast
    qed simp
    then show ?thesis using validate_relative e by blast
  qed
  then show ?thesis using ok len by (auto simp: scan_ok_def Let_def)
qed

definition demo_manifest :: gostring where
  "demo_manifest = join [CHR 0x0A] [''#EXTM3U'', ''#EXT-X-STREAM-INF:BANDWIDTH=1'', ''low/a.m3u8'', ''#EXTINF:4,'', ''seg%201.ts'', '' b/../c.ts '']"

definition demo_m3u8_options :: m3u8_options where
  "demo_m3u8_options = \<lparr>mo_depth = 0, mo_max_depth = 0, mo_max_segments = 0, mo_max_bytes = 0\<rparr>"

lemma demo_manifest_parses: "case parse_m3u8_manifest demo_manifest demo_m3u8_options of Inl _ \<Rightarrow> False | Inr m \<Rightarrow>
    map sg_uri (mf_segments m) = [''seg%201.ts'', ''b/../c.ts''] \<and> mf_children m = [''low/a.m3u8'']"
  by code_simp

theorem m3u8_manifest_confined_witness:
  "\<exists>m. parse_m3u8_manifest demo_manifest demo_m3u8_options = Inr m \<and> relative_uri ''seg%201.ts'' \<and> relative_uri ''seg 1.ts'' \<and>
     relative_uri ''b/../c.ts'' \<and> relative_uri ''low/a.m3u8''"
proof -
  let ?d = "\<lambda>x. Option.bind x (url_unescape EncPathSegment)"
  obtain m where m: "parse_m3u8_manifest demo_manifest demo_m3u8_options = Inr m"
    and u: "set (map sg_uri (mf_segments m) @ mf_children m) = {''seg%201.ts'', ''b/../c.ts'', ''low/a.m3u8''}"
    using demo_manifest_parses by (auto simp: insert_commute split: sum.splits)
  have d: "url_unescape EncPathSegment ''seg%201.ts'' = Some ''seg 1.ts''" "url_unescape EncPathSegment ''seg 1.ts'' = Some ''seg 1.ts''"
    "url_unescape EncPathSegment ''b/../c.ts'' = Some ''b/../c.ts''" "url_unescape EncPathSegment ''low/a.m3u8'' = Some ''low/a.m3u8''" by code_simp+
  have r: "relative_uri x" if "w \<in> {''seg%201.ts'', ''b/../c.ts'', ''low/a.m3u8''}" "(?d ^^ n) (Some w) = Some x" "url_unescape EncPathSegment x \<noteq> None" for w n x
    using m3u8_manifest_confined [OF m] that unfolding u by blast
  have "relative_uri ''seg%201.ts''" using r [of "''seg%201.ts''" 0] d by simp
  moreover have "relative_uri ''seg 1.ts''" using r [of "''seg%201.ts''" 1] d by simp
  moreover have "relative_uri ''b/../c.ts''" using r [of "''b/../c.ts''" 0] d by simp
  moreover have "relative_uri ''low/a.m3u8''" using r [of "''low/a.m3u8''" 0] d by simp
  ultimately show ?thesis using m by blast
qed

text \<open>
  A query with a broken escape switches the check of the decoded form off: the URI below, which a
  manifest may contain, is accepted although its path, decoded once, is \<open>/etc/passwd\<close>; and so is one whose
  path, decoded twice, starts with \<open>../\<close>.
\<close>
theorem m3u8_broken_query_accepted:
  "(case parse_m3u8_manifest ''%2Fetc%2Fpasswd?%'' demo_m3u8_options of Inl _ \<Rightarrow> False | Inr m \<Rightarrow> map sg_uri (mf_segments m) = [''%2Fetc%2Fpasswd?%'']) \<and>
   map_option u_path (url_parse ''%2Fetc%2Fpasswd?%'') = Some ''/etc/passwd'' \<and>
   validate_manifest_uri ''%252e%252e/a.ts?%'' \<and>
   Option.bind (map_option u_path (url_parse ''%252e%252e/a.ts?%'')) (url_unescape EncPathSegment) = Some ''../a.ts'' \<and>
   \<not> validate_manifest_uri ''%2Fetc%2Fpasswd?x'' \<and> \<not> validate_manifest_uri ''%252e%252e/a.ts?x''"
  by (intro conjI; code_simp)

section \<open>The segment budget\<close>

lemma sint_add_exact: "0 \<le> sint a \<Longrightarrow> 0 \<le> sint b \<Longrightarrow> sint a + sint b < 2 ^ 63 \<Longrightarrow> sint (a + b) = sint a + sint b" for a b :: "64 word"
proof -
  assume h: "0 \<le> sint a" "0 \<le> sint b" "sint a + sint b < 2 ^ 63"
  have "a + b = word_of_int (sint a + sint b)" by simp
  then have "sint (a + b) = signed_take_bit 63 (sint a + sint b)" by (simp only: sint_sbintrunc') simp
  then show ?thesis using h by (simp add: signed_take_bit_int_eq_self)
qed

lemma segment_budget_loop_exact:
  assumes "list_all (\<lambda>x. 0 \<le> sint (sg_bytes x)) xs" and "0 \<le> sint acc" and "sint acc \<le> sint limit"
    and "sint acc + sum_list (map (\<lambda>x. sint (sg_bytes x)) xs) < 2 ^ 63"
  shows "segment_budget_loop limit xs acc = None \<longleftrightarrow> sint acc + sum_list (map (\<lambda>x. sint (sg_bytes x)) xs) \<le> sint limit"
  using assms
proof (induction xs arbitrary: acc)
  case (Cons x xs)
  have tail: "0 \<le> sum_list (map (\<lambda>x. sint (sg_bytes x)) xs)"
    using Cons.prems(1) by (induction xs) auto
  then have add: "sint (acc + sg_bytes x) = sint acc + sint (sg_bytes x)" using Cons.prems sint_add_exact by simp
  show ?case using Cons.IH [of "acc + sg_bytes x"] Cons.prems add tail by (auto simp: word_sless_alt)
qed simp

text \<open>
  The segment budget is exact as long as the sizes add up below \<open>2 ^ 63\<close>: sizes that are not negative
  are accepted exactly when their sum is within the limit.
\<close>
theorem segment_budget_exact:
  assumes "list_all (\<lambda>x. 0 \<le> sint (sg_bytes x)) xs" and "sum_list (map (\<lambda>x. sint (sg_bytes x)) xs) < 2 ^ 63" and "0 < sint limit"
  shows "validate_segment_budget xs limit = None \<longleftrightarrow> sum_list (map (\<lambda>x. sint (sg_bytes x)) xs) \<le> sint limit"
  using segment_budget_loop_exact [of xs 0 limit] assms by (auto simp: validate_segment_budget_def word_sle_eq)

theorem segment_budget_exact_witness:
  "validate_segment_budget [\<lparr>sg_uri = ''a'', sg_bytes = 7\<rparr>, \<lparr>sg_uri = ''b'', sg_bytes = 5\<rparr>] 12 = None \<and>
   validate_segment_budget [\<lparr>sg_uri = ''a'', sg_bytes = 7\<rparr>, \<lparr>sg_uri = ''b'', sg_bytes = 5\<rparr>] 11 \<noteq> None"
  using segment_budget_exact [of "[\<lparr>sg_uri = ''a'', sg_bytes = 7\<rparr>, \<lparr>sg_uri = ''b'', sg_bytes = 5\<rparr>]" 12]
    segment_budget_exact [of "[\<lparr>sg_uri = ''a'', sg_bytes = 7\<rparr>, \<lparr>sg_uri = ''b'', sg_bytes = 5\<rparr>]" 11] by simp

text \<open>
  Beyond that the running total wraps: two segments of 1 and \<open>2 ^ 63 - 1\<close> bytes pass a budget of a
  single byte.
\<close>
theorem segment_budget_wraps:
  "validate_segment_budget [\<lparr>sg_uri = ''a'', sg_bytes = 1\<rparr>, \<lparr>sg_uri = ''b'', sg_bytes = 2 ^ 63 - 1\<rparr>] 1 = None"
  by code_simp

section \<open>Localized manifests\<close>

definition local_entry :: "gostring \<Rightarrow> nat \<times> segment_info \<Rightarrow> localized_segment" where
  "local_entry root p = \<lparr>ls_source = sg_uri (snd p), ls_local = local_name (fst p), ls_path = path_clean (root @ ''/'' @ local_name (fst p))\<rparr>"

lemma foldl_update_map:
  "map_of (foldl (\<lambda>m p. AList.update (k p) (v p) m) m ps) = map_of m ++ map_of (rev (map (\<lambda>p. (k p, v p)) ps))"
proof (induction ps arbitrary: m)
  case (Cons p ps)
  have u: "map_of (AList.update (k p) (v p) m) = map_of m ++ map_of [(k p, v p)]" by (simp add: update_conv')
  show ?case unfolding foldl.simps list.map rev.simps Cons.IH u map_of_append by (simp only: map_add_assoc)
qed simp

lemma segment_names_map:
  "map_of (segment_names root xs) = map_of (rev (map (\<lambda>p. (sg_uri (snd p), local_entry root p)) (enumerate 0 xs)))"
  using foldl_update_map [of "\<lambda>p. sg_uri (snd p)" "local_entry root" "[]" "enumerate 0 xs"]
  by (simp add: segment_names_def local_entry_def split_def)

lemma segment_names_lookup:
  assumes "map_of (segment_names root xs) u = Some y"
  shows "\<exists>i < length xs. sg_uri (xs ! i) = u \<and> y = local_entry root (i, xs ! i)"
proof -
  have "(u, y) \<in> (\<lambda>p. (sg_uri (snd p), local_entry root p)) ` set (enumerate 0 xs)"
    using map_of_SomeD [OF assms [unfolded segment_names_map]] by simp
  then obtain i x where "(i, x) \<in> set (enumerate 0 xs)" "u = sg_uri x" "y = local_entry root (i, x)" by auto
  then show ?thesis by (auto simp: in_set_enumerate_eq)
qed

lemma segment_names_total:
  assumes "x \<in> set xs"
  shows "map_of (segment_names root xs) (sg_uri x) \<noteq> None"
proof -
  obtain i where "i < length xs" "xs ! i = x" using assms by (auto simp: in_set_conv_nth)
  then have "(i, x) \<in> set (enumerate 0 xs)" by (simp add: in_set_enumerate_eq)
  then have "sg_uri x \<in> fst ` set (rev (map (\<lambda>p. (sg_uri (snd p), local_entry root p)) (enumerate 0 xs)))" by force
  then show ?thesis unfolding segment_names_map map_of_eq_None_iff by blast
qed

lemma join_snoc: "ws \<noteq> [] \<Longrightarrow> join sep (ws @ [w]) = join sep ws @ sep @ w"
  by (induction sep ws rule: join.induct) auto

lemma local_name_plain: "CHR 0x0A \<notin> set (local_name i)"
proof -
  have "\<not> is_digit CHR 0x0A" by code_simp
  then have "CHR 0x0A \<notin> set (pad_dec 6 (i + 1))" using dec_digits_digit [of "i + 1"] by (auto simp: pad_dec_def)
  then show ?thesis by (simp add: local_name_def)
qed

lemma rewrite_line_cases:
  assumes "w \<in> set (rewrite_line (segment_names root xs) raw)"
  shows "(has_prefix w ''#'' \<and> w = trim_space raw) \<or> (\<exists>i < length xs. w = local_name i)"
proof (cases "has_prefix (trim_space raw) ''#''")
  case False
  with assms show ?thesis using segment_names_lookup [of root xs "trim_space raw"]
    by (cases "map_of (segment_names root xs) (trim_space raw)") (auto simp: rewrite_line_def Let_def local_entry_def split: if_splits)
qed (use assms in \<open>auto simp: rewrite_line_def Let_def split: if_splits\<close>)

text \<open>
  A localized manifest refers to local files only: each of its lines is a tag line of the original or
  the generated name of a segment; and the segments, as many as before and in their order, keep their URI
  as the source and get a generated name and the path of that name below the temporary root.
\<close>
theorem localized_lines:
  assumes "localize_m3u8 env m temp_root = Inr l"
  shows "\<exists>root. absolute_root env temp_root = Inr root \<and>
    (\<forall>line \<in> set (split_on CHR 0x0A (lm_manifest l)). line = [] \<or>
       (has_prefix line ''#'' \<and> line \<in> trim_space ` set (split_on CHR 0x0A (mf_original m))) \<or>
       (\<exists>i < length (mf_segments m). line = local_name i)) \<and>
    map ls_source (lm_segments l) = map sg_uri (mf_segments m) \<and>
    (\<forall>x \<in> set (lm_segments l). \<exists>i < length (mf_segments m). ls_local x = local_name i \<and> ls_path x = path_clean (root @ ''/'' @ local_name i))"
proof -
  obtain root where root: "absolute_root env temp_root = Inr root"
    using assms by (auto simp: localize_m3u8_def go_errors)
  let ?names = "segment_names root (mf_segments m)"
  let ?ws = "concat (map (rewrite_line ?names) (split_on CHR 0x0A (mf_original m)))"
  have l: "lm_manifest l = join [CHR 0x0A] ?ws @ [CHR 0x0A]"
    "lm_segments l = map (\<lambda>x. get_or \<lparr>ls_source = [], ls_local = [], ls_path = []\<rparr> ?names (sg_uri x)) (mf_segments m)"
    using assms root by (auto simp: localize_m3u8_def rbind_def Let_def)
  have line: "(has_prefix w ''#'' \<and> w \<in> trim_space ` set (split_on CHR 0x0A (mf_original m))) \<or> (\<exists>i < length (mf_segments m). w = local_name i)"
    if "w \<in> set ?ws" for w
    using that rewrite_line_cases [of w root "mf_segments m"] by (auto simp del: map_append)
  have plain: "CHR 0x0A \<notin> set w" if "w \<in> set ?ws" for w
    using line [OF that] split_on_parts [of "CHR 0x0A" "mf_original m"] set_trim_space local_name_plain by blast
  have "split_on CHR 0x0A (lm_manifest l) = (if ?ws = [] then [[], []] else ?ws @ [[]])"
  proof (cases "?ws = []")
    case False
    then have "join [CHR 0x0A] (?ws @ [[]]) = join [CHR 0x0A] ?ws @ [CHR 0x0A] @ []" by (rule join_snoc)
    moreover have "split_on CHR 0x0A (join [CHR 0x0A] (?ws @ [[]])) = ?ws @ [[]]"
      by (rule split_on_join) (use plain in auto)
    ultimately show ?thesis using False unfolding l append_Nil2 by (simp only: if_False)
  next
    case True
    show ?thesis unfolding l True by simp
  qed
  then have lines: "\<forall>w \<in> set (split_on CHR 0x0A (lm_manifest l)). w = [] \<or>
       (has_prefix w ''#'' \<and> w \<in> trim_space ` set (split_on CHR 0x0A (mf_original m))) \<or> (\<exists>i < length (mf_segments m). w = local_name i)"
    using line by auto
  have entry: "\<exists>i < length (mf_segments m). sg_uri (mf_segments m ! i) = sg_uri x \<and>
      get_or d ?names (sg_uri x) = local_entry root (i, mf_segments m ! i)" if "x \<in> set (mf_segments m)" for x d
    using segment_names_total [OF that, of root] segment_names_lookup [of root "mf_segments m" "sg_uri x"] by (auto simp: get_or_def)
  have e: "ls_source (get_or d ?names (sg_uri x)) = sg_uri x"
      "\<exists>i < length (mf_segments m). ls_local (get_or d ?names (sg_uri x)) = local_name i \<and>
        ls_path (get_or d ?names (sg_uri x)) = path_clean (root @ ''/'' @ local_name i)" if "x \<in> set (mf_segments m)" for x d
    using entry [OF that, of d] by (auto simp: local_entry_def)
  then have "map ls_source (lm_segments l) = map sg_uri (mf_segments m)" by (simp add: l(2))
  moreover have "\<forall>x \<in> set (lm_segments l). \<exists>i < length (mf_segments m). ls_local x = local_name i \<and> ls_path x = path_clean (root @ ''/'' @ local_name i)"
    unfolding l(2) using e(2) by auto
  ultimately show ?thesis using root lines by blast
qed

definition demo_files :: media_files where
  "demo_files = \<lparr>mx_cwd = Some ''/srv'', mx_mkdir = None, mx_chmod = None\<rparr>"

lemma demo_localized: "case parse_m3u8_manifest demo_manifest demo_m3u8_options of Inl _ \<Rightarrow> False | Inr m \<Rightarrow>
    (case localize_m3u8 demo_files m '' tmp/job '' of Inl _ \<Rightarrow> False
     | Inr l \<Rightarrow> lm_manifest l = join [CHR 0x0A] [''#EXTM3U'', ''#EXT-X-STREAM-INF:BANDWIDTH=1'', ''#EXTINF:4,'', ''segment_000001.ts'', ''segment_000002.ts'', []] \<and>
         map ls_path (lm_segments l) = [''/srv/tmp/job/segment_000001.ts'', ''/srv/tmp/job/segment_000002.ts''])"
  by code_simp

theorem localized_lines_witness:
  "\<exists>m l. parse_m3u8_manifest demo_manifest demo_m3u8_options = Inr m \<and> localize_m3u8 demo_files m '' tmp/job '' = Inr l \<and>
     map ls_source (lm_segments l) = map sg_uri (mf_segments m) \<and> length (lm_segments l) = 2"
proof -
  obtain m l where m: "parse_m3u8_manifest demo_manifest demo_m3u8_options = Inr m" and l: "localize_m3u8 demo_files m '' tmp/job '' = Inr l"
    and n: "map ls_path (lm_segments l) = [''/srv/tmp/job/segment_000001.ts'', ''/srv/tmp/job/segment_000002.ts'']"
    using demo_localized by (auto split: sum.splits)
  from localized_lines [OF l] m l arg_cong [OF n, of length] show ?thesis by auto
qed

text \<open>
  A tag line is kept as it is, with the URIs in its attributes: a manifest can name a local file in
  \<open>EXT-X-MAP\<close>, and the localized manifest still names it.
\<close>
lemma tag_uri_kept:
  "case parse_m3u8_manifest ''#EXT-X-MAP:URI=/etc/passwd'' demo_m3u8_options of Inl _ \<Rightarrow> False | Inr m \<Rightarrow>
    (case localize_m3u8 demo_files m ''/tmp/job'' of Inl _ \<Rightarrow> False | Inr l \<Rightarrow> lm_manifest l = ''#EXT-X-MAP:URI=/etc/passwd'' @ [CHR 0x0A])"
  by code_simp

section \<open>Local paths\<close>

lemma clean_stack_rooted:
  "clean_parts st \<Longrightarrow> \<forall>w \<in> set ws. CHR ''/'' \<notin> set w \<Longrightarrow> clean_parts (clean_stack True st ws)"
proof (induction ws arbitrary: st)
  case (Cons w ws)
  show ?case
  proof (cases st)
    case (Cons v vs)
    then show ?thesis using Cons.prems Cons.IH by auto
  qed (use Cons in auto)
qed simp

lemma clean_stack_id: "clean_parts ws \<Longrightarrow> clean_stack r st ws = rev st @ ws"
  by (induction ws arbitrary: st) auto

lemma elements_join: "clean_parts ws \<Longrightarrow> path_elements (CHR ''/'' # join ''/'' ws) = ws"
proof -
  assume ws: "clean_parts ws"
  have "filter (\<lambda>w. w \<noteq> []) ws = ws" using ws by (auto simp: clean_parts_def list_all_iff filter_id_conv)
  moreover have "split_on CHR ''/'' (join ''/'' ws) = (if ws = [] then [[]] else ws)"
    using split_on_join [of ws] clean_parts_slash [OF ws] by auto
  ultimately show ?thesis by (simp add: path_elements_def)
qed

text \<open>An absolute cleaned path is its elements.\<close>
definition clean_absolute :: "gostring \<Rightarrow> bool" where
  "clean_absolute p \<longleftrightarrow> clean_parts (path_elements p) \<and> p = CHR ''/'' # join ''/'' (path_elements p)"

lemma path_clean_absolute:
  assumes "has_prefix p ''/''"
  shows "clean_absolute (path_clean p)"
proof -
  have "clean_parts (clean_stack True [] (split_on CHR ''/'' p))"
    using clean_stack_rooted [of "[]"] split_on_parts by simp
  then show ?thesis using assms by (simp add: path_clean_def clean_absolute_def elements_join)
qed

lemma clean_absolute_rooted: "clean_absolute p \<Longrightarrow> has_prefix p ''/''"
  unfolding clean_absolute_def by (metis append_Cons append_Nil has_prefix_append)

text \<open>\<open>os.Getwd\<close> answers an absolute path.\<close>
definition cwd_absolute :: "media_files \<Rightarrow> bool" where
  "cwd_absolute env \<longleftrightarrow> (case mx_cwd env of None \<Rightarrow> True | Some d \<Rightarrow> has_prefix d ''/'')"

lemma path_abs_clean: "cwd_absolute env \<Longrightarrow> path_abs (mx_cwd env) p = Some q \<Longrightarrow> clean_absolute q"
  using path_clean_absolute by (auto simp: path_abs_def cwd_absolute_def has_prefix_append split: if_splits option.splits)

lemma absolute_root_clean:
  assumes "cwd_absolute env" and "absolute_root env root = Inr p"
  shows "clean_absolute p"
  using assms path_abs_clean path_clean_absolute clean_absolute_rooted
  by (auto simp: absolute_root_def Let_def split: if_splits option.splits)

lemma drop_common_below: "drop_common as bs = (up, down) \<Longrightarrow> \<exists>cs. as = cs @ up \<and> bs = cs @ down"
proof (induction as bs rule: drop_common.induct)
  case (1 a as b bs)
  then show ?case by (auto split: if_splits)
qed auto

text \<open>Strictly below a directory, by elements and as text.\<close>
definition below :: "gostring \<Rightarrow> gostring \<Rightarrow> bool" where
  "below root p \<longleftrightarrow> (\<exists>rest. rest \<noteq> [] \<and> path_elements p = path_elements root @ rest) \<and> ''..'' \<notin> set (path_elements p) \<and>
     has_prefix p root \<and> p \<noteq> root"

lemma join_prefix: "\<exists>t. join sep (as @ bs) = join sep as @ t"
proof (induction sep as rule: join.induct)
  case (2 sep w)
  then show ?case by (cases bs) auto
qed auto

lemma below_clean:
  assumes "clean_absolute root" and "clean_absolute p" and "path_elements p = path_elements root @ rest" and "rest \<noteq> []"
  shows "below root p"
proof -
  have r: "root = CHR ''/'' # join ''/'' (path_elements root)" and p: "p = CHR ''/'' # join ''/'' (path_elements root @ rest)"
    using assms(1-3) by (auto simp: clean_absolute_def)
  have "has_prefix p root" using r p join_prefix has_prefix_append by (metis append_Cons)
  moreover have "''..'' \<notin> set (path_elements p)" using assms(2) by (auto simp: clean_absolute_def clean_parts_def list_all_iff)
  moreover have "p \<noteq> root" using assms(3,4) by auto
  ultimately show ?thesis using assms(3,4) unfolding below_def by blast
qed

lemma require_local_below:
  assumes "cwd_absolute env" and "require_local_path env root candidate = Inr p"
  shows "\<exists>r. absolute_root env root = Inr r \<and> below r p"
proof -
  obtain r q where r: "absolute_root env root = Inr r" and q: "path_abs (mx_cwd env) candidate = Some q" "p = path_clean q"
    and rel: "path_rel r p \<noteq> ''.''" "\<not> has_prefix (path_rel r p) ''../''" "path_rel r p \<noteq> ''..''"
    using assms(2) by (auto simp: require_local_path_def go_errors Let_def split: if_splits option.splits)
  have cr: "clean_absolute r" using absolute_root_clean [OF assms(1) r] .
  have cp: "clean_absolute p" using path_abs_clean [OF assms(1) q(1)] clean_absolute_rooted path_clean_absolute q(2) by simp
  obtain up down where d: "drop_common (path_elements r) (path_elements p) = (up, down)" by fastforce
  obtain cs where cs: "path_elements r = cs @ up" "path_elements p = cs @ down" using drop_common_below [OF d] by blast
  have "up = []"
  proof (rule ccontr)
    assume "up \<noteq> []"
    then have "map (\<lambda>_. ''..'') up @ down \<noteq> []" "hd (map (\<lambda>_. ''..'') up @ down) = ''..''" by (cases up; simp)+
    then show False using join_first [of "map (\<lambda>_. ''..'') up @ down" "''..''" "''/''"] rel(2,3) d by (auto simp: path_rel_def has_prefix_append)
  qed
  moreover have "down \<noteq> []" using rel(1) d calculation by (auto simp: path_rel_def)
  ultimately show ?thesis using below_clean [OF cr cp] cs r by auto
qed

text \<open>
  C30.  An \<open>ffmpeg\<close> command that is built runs \<open>ffmpeg\<close> and nothing else, allows it the \<open>file\<close> protocol
  only, and reads and writes strictly below the temporary root: both paths are absolute, free of \<open>..\<close>
  elements, and extend the root's elements.
\<close>
theorem ffmpeg_command_confined:
  assumes "build_ffmpeg_command env request = Inr c" and "cwd_absolute env"
  shows "\<exists>root manifest_path output_path. absolute_root env (fr_root request) = Inr root \<and> below root manifest_path \<and> below root output_path \<and>
    c = \<lparr>fc_executable = ''ffmpeg'', fc_args = [''-hide_banner'', ''-nostdin'', ''-protocol_whitelist'', ''file'',
      ''-allowed_extensions'', ''ALL'', ''-i'', manifest_path, ''-c'', ''copy'', ''-y'', output_path]\<rparr>"
proof -
  obtain i out where p: "require_local_path env (fr_root request) (fr_manifest request) = Inr i"
      "require_local_path env (fr_root request) (fr_output request) = Inr out"
    and c: "c = \<lparr>fc_executable = ''ffmpeg'', fc_args = [''-hide_banner'', ''-nostdin'', ''-protocol_whitelist'', ''file'',
        ''-allowed_extensions'', ''ALL'', ''-i'', i, ''-c'', ''copy'', ''-y'', out]\<rparr>"
    using assms(1) by (auto simp: build_ffmpeg_command_def Let_def go_errors split: if_splits)
  obtain root where "absolute_root env (fr_root request) = Inr root" "below root i" "below root out"
    using require_local_below [OF assms(2) p(1)] require_local_below [OF assms(2) p(2)] by auto
  with c show ?thesis by blast
qed

definition demo_ffmpeg :: ffmpeg_request where
  "demo_ffmpeg = \<lparr>fr_executable = '' ffmpeg'', fr_root = ''tmp/job'', fr_manifest = ''/srv/tmp/job/x/../a.m3u8'', fr_output = ''tmp/job/out.mp4''\<rparr>"

theorem ffmpeg_command_confined_witness:
  "\<exists>c. build_ffmpeg_command demo_files demo_ffmpeg = Inr c \<and> fc_executable c = ''ffmpeg'' \<and> validate_ffmpeg_command c = None \<and>
     below ''/srv/tmp/job'' (fc_args c ! 7) \<and> below ''/srv/tmp/job'' (fc_args c ! 11)"
proof -
  have b: "case build_ffmpeg_command demo_files demo_ffmpeg of Inl _ \<Rightarrow> False | Inr c \<Rightarrow> validate_ffmpeg_command c = None"
    and r: "absolute_root demo_files (fr_root demo_ffmpeg) = Inr ''/srv/tmp/job''" and w: "cwd_absolute demo_files" by code_simp+
  then obtain c where c: "build_ffmpeg_command demo_files demo_ffmpeg = Inr c" "validate_ffmpeg_command c = None" by (auto split: sum.splits)
  from ffmpeg_command_confined [OF c(1) w] c r show ?thesis by auto
qed

lemma demo_ffmpeg_outside:
  "build_ffmpeg_command demo_files (demo_ffmpeg\<lparr>fr_output := ''/srv/tmp/job/../../etc/x''\<rparr>) = Inl ErrUnsafeLocalPath"
  "build_ffmpeg_command demo_files (demo_ffmpeg\<lparr>fr_manifest := ''http://a/b''\<rparr>) = Inl ErrUnsafeLocalPath"
  "build_ffmpeg_command demo_files (demo_ffmpeg\<lparr>fr_manifest := ''tmp/job''\<rparr>) = Inl ErrUnsafeLocalPath"
  by code_simp+

end
