(* ===== verification/Dash.thy ===== *)
theory Dash imports
  Media
begin

text \<open>
  \<open>internal/media/dash.go\<close> and the run of a command in \<open>runner.go\<close>: picking a video and an audio
  candidate within a budget, fetching the parts of a DASH stream side by side, and merging them into one
  file.  Files are a map from paths to contents; \<open>fault\<close> says which system calls fail; the fetch, the
  probe and the process are arguments.
\<close>

section \<open>Candidates\<close>

record dash_request =
  dq_video :: "media_candidate list"
  dq_audio :: "media_candidate list"

record dash_job =
  dj_video :: media_candidate
  dj_audio :: media_candidate

definition allows_synchronous_dash :: "media_candidate list \<Rightarrow> media_candidate list \<Rightarrow> bool" where
  "allows_synchronous_dash video audio = False"

definition order_dash_candidates :: "idna \<Rightarrow> media_candidate list \<Rightarrow> media_candidate list" where
  "order_dash_candidates idna cs = sort_candidates (filter (\<lambda>c. new_fetch_url idna (mc_url c) \<noteq> None) cs)"

definition new_dash_job :: "idna \<Rightarrow> dash_request \<Rightarrow> media_error + dash_job" where
  "new_dash_job idna request =
     (case (order_dash_candidates idna (dq_video request), order_dash_candidates idna (dq_audio request)) of
        (v # _, a # _) \<Rightarrow> Inr \<lparr>dj_video = v, dj_audio = a\<rparr>
      | _ \<Rightarrow> Inl ErrDASHPairRequired)"

record fallback_budget =
  fb_max :: int
  fb_attempts :: int

definition new_fallback_budget :: "int \<Rightarrow> fallback_budget" where
  "new_fallback_budget m = \<lparr>fb_max = m, fb_attempts = 0\<rparr>"

definition budget_allow :: "fallback_budget \<Rightarrow> bool \<times> fallback_budget" where
  "budget_allow b =
     (if fb_max b \<le> 0 then (True, b\<lparr>fb_attempts := fb_attempts b + 1\<rparr>)
      else if fb_attempts b \<ge> fb_max b then (False, b)
      else (True, b\<lparr>fb_attempts := fb_attempts b + 1\<rparr>))"

text \<open>\<open>ctx\<close> is \<open>ctx.Err()\<close> in the state it is asked in; a probe may change the state.\<close>
fun select_dash_loop :: "('w \<Rightarrow> gostring option) \<Rightarrow> (media_candidate \<Rightarrow> 'w \<Rightarrow> gostring option \<times> 'w) \<Rightarrow> media_candidate list
    \<Rightarrow> fallback_budget \<Rightarrow> 'w \<Rightarrow> (media_error + media_candidate) \<times> fallback_budget \<times> 'w" where
  "select_dash_loop ctx probe [] b w =
     (Inl (if fb_max b > 0 \<and> fb_attempts b \<ge> fb_max b then ErrFallbackBudgetExceeded else ErrNoDASHCandidate), b, w)"
| "select_dash_loop ctx probe (c # cs) b w =
     (case ctx w of
        Some e \<Rightarrow> (Inl (MediaContext e), b, w)
      | None \<Rightarrow>
          (case budget_allow b of
             (False, b') \<Rightarrow> (Inl ErrFallbackBudgetExceeded, b', w)
           | (True, b') \<Rightarrow>
               (case probe c w of
                  (None, w') \<Rightarrow> (Inr c, b', w')
                | (Some _, w') \<Rightarrow> select_dash_loop ctx probe cs b' w')))"

definition select_dash_candidate :: "idna \<Rightarrow> ('w \<Rightarrow> gostring option) \<Rightarrow> (media_candidate \<Rightarrow> 'w \<Rightarrow> gostring option \<times> 'w) \<Rightarrow> media_candidate list
    \<Rightarrow> fallback_budget \<Rightarrow> 'w \<Rightarrow> (media_error + media_candidate) \<times> fallback_budget \<times> 'w" where
  "select_dash_candidate idna ctx probe cs b w = select_dash_loop ctx probe (order_dash_candidates idna cs) b w"

section \<open>Files\<close>

type_synonym media_store = "(gostring, gostring) gomap"

datatype media_call = CallStat gostring | CallChmod gostring | CallRename gostring | CallRemove gostring

type_synonym media_faults = "media_call \<Rightarrow> gostring option"

definition media_remove :: "media_faults \<Rightarrow> gostring \<Rightarrow> media_store \<Rightarrow> media_store" where
  "media_remove fault p fs = (if fault (CallRemove p) = None then AList.delete p fs else fs)"

text \<open>\<open>os.Stat\<close>: the size, or an error, also for a file that is not there.\<close>
definition media_stat :: "media_faults \<Rightarrow> gostring \<Rightarrow> media_store \<Rightarrow> gostring + int" where
  "media_stat fault p fs =
     (case fault (CallStat p) of
        Some e \<Rightarrow> Inl e
      | None \<Rightarrow> (case map_of fs p of None \<Rightarrow> Inl ''no such file or directory'' | Some body \<Rightarrow> Inr (int (length body))))"

definition media_rename :: "media_faults \<Rightarrow> gostring \<Rightarrow> gostring \<Rightarrow> media_store \<Rightarrow> media_store \<times> gostring option" where
  "media_rename fault p q fs =
     (case fault (CallRename p) of
        Some e \<Rightarrow> (fs, Some e)
      | None \<Rightarrow> (case map_of fs p of
          None \<Rightarrow> (fs, Some ''no such file or directory'')
        | Some body \<Rightarrow> (AList.update q body (AList.delete p fs), None)))"

section \<open>Prefetching\<close>

record dash_source =
  dx_name :: gostring
  dx_url :: gostring
  dx_max :: int

record dash_prefetcher =
  dp_root :: gostring
  dp_concurrency :: int

definition new_dash_prefetcher :: "gostring \<Rightarrow> int \<Rightarrow> dash_prefetcher" where
  "new_dash_prefetcher root n = \<lparr>dp_root = root, dp_concurrency = (if n \<le> 0 \<or> n > 2 then 2 else n)\<rparr>"

definition fallback_index_suffix :: "nat \<Rightarrow> gostring" where
  "fallback_index_suffix i = ''_'' @ itoa (int i) @ ''.bin''"

definition safe_generated_name :: "gostring \<Rightarrow> nat \<Rightarrow> media_error + gostring" where
  "safe_generated_name name0 i =
     (let name1 = (if trim_space name0 = [] then ''asset'' else trim_space name0);
          name = map (\<lambda>c. if c = CHR '' '' then CHR ''_'' else c) name1
      in if contains_any name [CHR ''/'', CHR 0x5C, CHR '':''] \<or> contains name ''..'' then Inl ErrUnsafeLocalPath
         else Inr (to_lower name @ ''_'' @ dropWhile (\<lambda>c. c = CHR ''.'') (path_ext name) @ fallback_index_suffix i))"

record dash_part =
  pt_source :: dash_source
  pt_final :: gostring

text \<open>
  The loop over the sources: each gets its path and its goroutine is started; a bad URL or name returns at
  once, with the goroutines started before it still running.
\<close>
fun launch_parts :: "idna \<Rightarrow> gostring \<Rightarrow> nat \<Rightarrow> dash_source list \<Rightarrow> media_error option \<times> dash_part list" where
  "launch_parts idna root i [] = (None, [])"
| "launch_parts idna root i (x # xs) =
     (case new_fetch_url idna (dx_url x) of
        None \<Rightarrow> (Some (MediaFetch ''invalid fetch url''), [])
      | Some _ \<Rightarrow>
          (case safe_generated_name (dx_name x) i of
             Inl e \<Rightarrow> (Some e, [])
           | Inr name \<Rightarrow>
               (case launch_parts idna root (Suc i) xs of
                  (e, parts) \<Rightarrow> (e, \<lparr>pt_source = x, pt_final = join_path root name\<rparr> # parts))))"

record prefetch_state =
  ps_files :: media_store
  ps_created :: "gostring list"
  ps_errors :: "media_error list"

text \<open>
  A goroutine, from its turn at the semaphore to its end; \<open>cancelled\<close> is the context's error when the
  context ended first.  It touches its own two paths only, so it is one step of the model.
\<close>
definition run_part :: "media_faults \<Rightarrow> gostring option \<Rightarrow> (dash_source \<Rightarrow> gostring \<Rightarrow> media_store \<Rightarrow> media_store \<times> gostring option) \<Rightarrow> dash_part
    \<Rightarrow> prefetch_state \<Rightarrow> prefetch_state" where
  "run_part fault cancelled fetch part st =
     (let final = pt_final part; temp = final @ ''.part''; source = pt_source part;
          failed = (\<lambda>fs e. st\<lparr>ps_files := fs, ps_errors := ps_errors st @ [e]\<rparr>) in
      case cancelled of
        Some e \<Rightarrow> failed (ps_files st) (MediaContext e)
      | None \<Rightarrow>
          (case fetch source temp (ps_files st) of
             (fs1, Some e) \<Rightarrow> failed (media_remove fault temp fs1) (MediaFetch e)
           | (fs1, None) \<Rightarrow>
               (case media_stat fault temp fs1 of
                  Inl e \<Rightarrow> failed fs1 (MediaFile e)
                | Inr n \<Rightarrow>
                    if dx_max source > 0 \<and> n > dx_max source then failed (media_remove fault temp fs1) ErrM3U8Limit
                    else (case fault (CallChmod temp) of
                        Some e \<Rightarrow> failed (media_remove fault temp fs1) (MediaFile e)
                      | None \<Rightarrow>
                          (case media_rename fault temp final fs1 of
                             (fs2, Some e) \<Rightarrow> failed (media_remove fault temp fs2) (MediaFile e)
                           | (fs2, None) \<Rightarrow>
                               (case fault (CallChmod final) of
                                  Some e \<Rightarrow> failed fs2 (MediaFile e)
                                | None \<Rightarrow> st\<lparr>ps_files := fs2, ps_created := ps_created st @ [final]\<rparr>))))))"

fun run_parts :: "media_faults \<Rightarrow> (dash_part \<Rightarrow> gostring option) \<Rightarrow> (dash_source \<Rightarrow> gostring \<Rightarrow> media_store \<Rightarrow> media_store \<times> gostring option)
    \<Rightarrow> dash_part list \<Rightarrow> prefetch_state \<Rightarrow> prefetch_state" where
  "run_parts fault cancelled fetch [] st = st"
| "run_parts fault cancelled fetch (p # ps) st = run_parts fault cancelled fetch ps (run_part fault (cancelled p) fetch p st)"

text \<open>
  \<open>Prefetch\<close>: \<open>schedule\<close> orders the goroutines by when they end.  A bad URL or name of a later source
  returns without waiting: of the goroutines started by then, \<open>ended\<close> have come to their end, whose files the
  answer's file system holds, and the rest, the third component, go on after the answer is given (one under
  way may already have its part file, which is not shown until its step).  Otherwise all have ended.
\<close>
definition prefetch :: "idna \<Rightarrow> media_files \<Rightarrow> media_faults \<Rightarrow> (dash_part \<Rightarrow> gostring option) \<Rightarrow> (dash_part list \<Rightarrow> dash_part list) \<Rightarrow> nat
    \<Rightarrow> (dash_source \<Rightarrow> gostring \<Rightarrow> media_store \<Rightarrow> media_store \<times> gostring option) option \<Rightarrow> dash_prefetcher \<Rightarrow> dash_source list \<Rightarrow> media_store
    \<Rightarrow> (media_error + gostring list) \<times> media_store \<times> dash_part list" where
  "prefetch idna env fault cancelled schedule ended fetch_option prefetcher sources fs =
     (case absolute_root env (dp_root prefetcher) of
        Inl e \<Rightarrow> (Inl e, fs, [])
      | Inr root \<Rightarrow>
          (case fetch_option of
             None \<Rightarrow> (Inl (MediaFetch ''dash fetch function is required''), fs, [])
           | Some fetch \<Rightarrow>
               (case launch_parts idna root 0 sources of
                  (Some e, parts) \<Rightarrow>
                    (Inl e, ps_files (run_parts fault cancelled fetch (take ended (schedule parts)) \<lparr>ps_files = fs, ps_created = [], ps_errors = []\<rparr>),
                     drop ended (schedule parts))
                | (None, parts) \<Rightarrow>
                    let st = run_parts fault cancelled fetch (schedule parts) \<lparr>ps_files = fs, ps_created = [], ps_errors = []\<rparr> in
                    (case ps_errors st of
                       [] \<Rightarrow> (Inr (map pt_final parts), ps_files st, [])
                     | e # _ \<Rightarrow> (Inl e, fold (media_remove fault) (ps_created st) (ps_files st), [])))))"

section \<open>Merging\<close>

text \<open>How the process ends: it cannot be started, it exits, or the context ends it.\<close>
datatype process_end = StartFails gostring | ProcessExits "gostring option" | ContextEnds gostring

definition run_local_ffmpeg :: "(ffmpeg_command \<Rightarrow> media_store \<Rightarrow> media_store \<times> process_end) \<Rightarrow> ffmpeg_command \<Rightarrow> media_store
    \<Rightarrow> media_store \<times> media_error option" where
  "run_local_ffmpeg process command fs =
     (case validate_ffmpeg_command command of
        Some e \<Rightarrow> (fs, Some e)
      | None \<Rightarrow>
          (case process command fs of
             (fs', StartFails e) \<Rightarrow> (fs', Some (JoinedFFmpeg e))
           | (fs', ProcessExits (Some e)) \<Rightarrow> (fs', Some (JoinedFFmpeg e))
           | (fs', ProcessExits None) \<Rightarrow> (fs', None)
           | (fs', ContextEnds e) \<Rightarrow> (fs', Some (MediaContext e))))"

record merge_request =
  mq_root :: gostring
  mq_video :: gostring
  mq_audio :: gostring
  mq_output :: gostring

definition merge_command :: "gostring \<Rightarrow> gostring \<Rightarrow> gostring \<Rightarrow> ffmpeg_command" where
  "merge_command video audio part = \<lparr>fc_executable = ''ffmpeg'',
     fc_args = [''-hide_banner'', ''-nostdin'', ''-protocol_whitelist'', ''file'', ''-i'', video, ''-i'', audio, ''-c'', ''copy'', ''-y'', part]\<rparr>"

text \<open>\<open>runner\<close> answers an error as text; \<open>ctx\<close> is the context's error after the run.\<close>
definition merge_run :: "media_faults \<Rightarrow> gostring option \<Rightarrow> (ffmpeg_command \<Rightarrow> media_store \<Rightarrow> media_store \<times> gostring option) option
    \<Rightarrow> gostring \<Rightarrow> gostring \<Rightarrow> gostring \<Rightarrow> media_store \<Rightarrow> media_store \<times> media_error option" where
  "merge_run fault ctx runner video audio path fs =
     (let part = path @ ''.part''; command = merge_command video audio part in
      case runner of
        None \<Rightarrow> (fs, Some ErrFFmpegFailed)
      | Some run \<Rightarrow>
          (case validate_ffmpeg_command command of
             Some e \<Rightarrow> (fs, Some e)
           | None \<Rightarrow>
               (case run command fs of
                  (fs1, Some e) \<Rightarrow> (media_remove fault part fs1, Some (case ctx of Some c \<Rightarrow> MediaContext c | None \<Rightarrow> JoinedFFmpeg e))
                | (fs1, None) \<Rightarrow>
                    (case media_stat fault part fs1 of
                       Inl e \<Rightarrow> (fs1, Some (JoinedFFmpeg e))
                     | Inr _ \<Rightarrow>
                         (case media_rename fault part path fs1 of
                            (fs2, Some e) \<Rightarrow> (fs2, Some (MediaFile e))
                          | (fs2, None) \<Rightarrow> (fs2, map_option MediaFile (fault (CallChmod path))))))))"

definition merge_dash :: "media_files \<Rightarrow> media_faults \<Rightarrow> gostring option \<Rightarrow> (ffmpeg_command \<Rightarrow> media_store \<Rightarrow> media_store \<times> gostring option) option
    \<Rightarrow> merge_request \<Rightarrow> media_store \<Rightarrow> media_store \<times> media_error option" where
  "merge_dash env fault ctx runner request fs =
     (case rbind (require_local_path env (mq_root request) (mq_video request)) (\<lambda>video.
           rbind (require_local_path env (mq_root request) (mq_audio request)) (\<lambda>audio.
           rbind (require_local_path env (mq_root request) (mq_output request)) (\<lambda>path. Inr (video, audio, path)))) of
        Inl e \<Rightarrow> (fs, Some e)
      | Inr (video, audio, path) \<Rightarrow>
          (case merge_run fault ctx runner video audio path fs of
             (fs', e) \<Rightarrow> (media_remove fault (path @ ''.part'') fs', e)))"

section \<open>Candidates are tried in order, within the budget\<close>

definition usable_candidates :: "idna \<Rightarrow> media_candidate list \<Rightarrow> media_candidate list" where
  "usable_candidates idna cs = filter (\<lambda>c. new_fetch_url idna (mc_url c) \<noteq> None) cs"

lemma budget_allow_True:
  assumes "fst (budget_allow b)"
  shows "budget_allow b = (True, b\<lparr>fb_attempts := fb_attempts b + 1\<rparr>) \<and> (fb_attempts b + 1 \<le> fb_max b \<or> fb_max b \<le> 0)"
  using assms by (auto simp: budget_allow_def split: if_splits)

lemma select_loop_tried:
  assumes "select_dash_loop ctx probe cs b w = (r, b', w')" and "fb_attempts b \<le> fb_max b \<or> fb_max b \<le> 0"
  shows "fb_max b' = fb_max b \<and> fb_attempts b \<le> fb_attempts b' \<and> (fb_attempts b' \<le> fb_max b \<or> fb_max b \<le> 0) \<and>
    (\<forall>c. r = Inr c \<longrightarrow> (\<exists>pre post. cs = pre @ c # post \<and> fb_attempts b' = fb_attempts b + int (length pre) + 1 \<and>
       (\<forall>d \<in> set pre. \<exists>w1. fst (probe d w1) \<noteq> None)))"
  using assms
proof (induction cs arbitrary: b w)
  case (Cons c cs)
  show ?case
  proof (cases "ctx w = None \<and> fst (budget_allow b)")
    case False
    then show ?thesis using Cons.prems by (auto simp: budget_allow_def split: option.splits prod.splits if_splits)
  next
    case True
    define b1 where "b1 = b\<lparr>fb_attempts := fb_attempts b + 1\<rparr>"
    have b1: "budget_allow b = (True, b1)" "fb_max b1 = fb_max b" "fb_attempts b1 = fb_attempts b + 1"
      "fb_attempts b1 \<le> fb_max b1 \<or> fb_max b1 \<le> 0"
      using budget_allow_True [of b] True by (simp_all add: b1_def)
    obtain e w1 where p: "probe c w = (e, w1)" by (rule prod.exhaust)
    show ?thesis
    proof (cases e)
      case None
      then have "r = Inr c" "b' = b1" using Cons.prems(1) True b1 p by auto
      moreover have "\<exists>pre post. c # cs = pre @ c # post \<and> pre = []" by simp
      ultimately show ?thesis using b1 Cons.prems(2) by fastforce
    next
      case (Some y)
      then have rec: "select_dash_loop ctx probe cs b1 w1 = (r, b', w')" using Cons.prems(1) True b1 p by auto
      note ih = Cons.IH [OF rec b1(4)]
      have "\<exists>pre post. c # cs = pre @ d # post \<and> fb_attempts b' = fb_attempts b + int (length pre) + 1 \<and>
          (\<forall>x \<in> set pre. \<exists>w1. fst (probe x w1) \<noteq> None)" if d: "r = Inr d" for d
      proof -
        obtain pre post where pp: "cs = pre @ d # post" "fb_attempts b' = fb_attempts b1 + int (length pre) + 1"
          "\<forall>x \<in> set pre. \<exists>w1. fst (probe x w1) \<noteq> None" using ih d by blast
        have "fst (probe c w) \<noteq> None" using p Some by simp
        then show ?thesis using pp b1(3) by (rule_tac x = "c # pre" in exI, rule_tac x = post in exI) auto
      qed
      then show ?thesis using ih b1 by auto
    qed
  qed
qed (auto split: if_splits)

lemma order_dash_sorted:
  "mset (order_dash_candidates idna cs) = mset (usable_candidates idna cs) \<and>
   sorted_wrt (\<lambda>l r. \<not> candidate_less r l) (order_dash_candidates idna cs)"
proof -
  let ?f = "filter (\<lambda>c. new_fetch_url idna (mc_url c) \<noteq> None) cs"
  have "sorted_wrt (\<lambda>l r. candidate_key l \<le> candidate_key r) (sort_key candidate_key ?f)"
    using sorted_sort_key [of candidate_key ?f] unfolding sorted_map .
  then show ?thesis by (simp add: order_dash_candidates_def usable_candidates_def sort_candidates_key candidate_less_key not_less)
qed

text \<open>
  The DASH candidate that is chosen was probed within the budget, and every candidate strictly better
  than it that can be fetched was probed before it and failed; with a limit, there are never more probes than
  it allows, whether or not one is found.
\<close>
theorem dash_selection_within_budget:
  assumes "select_dash_candidate idna ctx probe cs (new_fallback_budget m) w = (r, b, w')"
  shows "(0 < m \<longrightarrow> fb_attempts b \<le> m) \<and>
    (\<forall>c. r = Inr c \<longrightarrow> c \<in> set cs \<and> new_fetch_url idna (mc_url c) \<noteq> None \<and> 1 \<le> fb_attempts b \<and>
      (\<forall>d \<in> set cs. candidate_less d c \<longrightarrow> new_fetch_url idna (mc_url d) = None \<or> (\<exists>w1. fst (probe d w1) \<noteq> None)))"
proof -
  let ?cs = "order_dash_candidates idna cs"
  have loop: "select_dash_loop ctx probe ?cs (new_fallback_budget m) w = (r, b, w')" using assms by (simp add: select_dash_candidate_def)
  have b0: "fb_max (new_fallback_budget m) = m" "fb_attempts (new_fallback_budget m) = 0" by (simp_all add: new_fallback_budget_def)
  have tried: "0 < m \<longrightarrow> fb_attempts b \<le> m" "\<And>c. r = Inr c \<Longrightarrow> \<exists>pre post. ?cs = pre @ c # post \<and> fb_attempts b = int (length pre) + 1 \<and>
      (\<forall>d \<in> set pre. \<exists>w1. fst (probe d w1) \<noteq> None)"
  proof -
    have pre: "fb_attempts (new_fallback_budget m) \<le> fb_max (new_fallback_budget m) \<or> fb_max (new_fallback_budget m) \<le> 0" using b0 by arith
    note t = select_loop_tried [OF loop pre, unfolded b0]
    from t show "0 < m \<longrightarrow> fb_attempts b \<le> m" by auto
    show "\<exists>pre post. ?cs = pre @ c # post \<and> fb_attempts b = int (length pre) + 1 \<and> (\<forall>d \<in> set pre. \<exists>w1. fst (probe d w1) \<noteq> None)"
      if "r = Inr c" for c using t that by force
  qed
  have elems: "set ?cs = {c \<in> set cs. new_fetch_url idna (mc_url c) \<noteq> None}"
    by (simp add: order_dash_candidates_def sort_candidates_key)
  have "c \<in> set cs \<and> new_fetch_url idna (mc_url c) \<noteq> None \<and> 1 \<le> fb_attempts b \<and>
      (\<forall>d \<in> set cs. candidate_less d c \<longrightarrow> new_fetch_url idna (mc_url d) = None \<or> (\<exists>w1. fst (probe d w1) \<noteq> None))" if r: "r = Inr c" for c
  proof -
    obtain pre post where pp: "?cs = pre @ c # post" "fb_attempts b = int (length pre) + 1" "\<forall>d \<in> set pre. \<exists>w1. fst (probe d w1) \<noteq> None"
      using tried(2) [OF r] by blast
    have better: "d \<in> set pre" if "d \<in> set ?cs" "candidate_less d c" for d
    proof -
      have "\<not> candidate_less c c" by (simp add: candidate_less_key)
      then show ?thesis using that order_dash_sorted [of idna cs] unfolding pp(1) by (auto simp: sorted_wrt_append)
    qed
    have "c \<in> set ?cs" using pp(1) by simp
    moreover have "new_fetch_url idna (mc_url d) = None \<or> (\<exists>w1. fst (probe d w1) \<noteq> None)" if "d \<in> set cs" "candidate_less d c" for d
      using better [of d] that pp(3) unfolding elems by blast
    ultimately show ?thesis using pp(2) unfolding elems by simp
  qed
  with tried(1) show ?thesis by blast
qed

section \<open>Merging replaces the output or leaves it\<close>

definition runner_local :: "(ffmpeg_command \<Rightarrow> media_store \<Rightarrow> media_store \<times> gostring option) \<Rightarrow> bool" where
  "runner_local run \<longleftrightarrow> (\<forall>c fs q. q \<noteq> last (fc_args c) \<longrightarrow> map_of (fst (run c fs)) q = map_of fs q)"

lemma media_remove_map: "map_of (media_remove fault p fs) = (if fault (CallRemove p) = None then (map_of fs)(p := None) else map_of fs)"
  by (simp add: media_remove_def delete_conv')

lemma part_differs: "path @ ''.part'' \<noteq> path" "path \<noteq> path @ ''.part''"
  by simp_all

lemma merge_run_files:
  assumes "merge_run fault ctx (Some run) video audio path fs = (fs', e)" and "runner_local run"
  shows "(\<forall>q. q \<notin> {path, path @ ''.part''} \<longrightarrow> map_of fs' q = map_of fs q) \<and>
    (map_of fs' path = map_of fs path \<and> e \<noteq> None \<or>
     (\<exists>fs1 body. run (merge_command video audio (path @ ''.part'')) fs = (fs1, None) \<and> map_of fs1 (path @ ''.part'') = Some body \<and>
        map_of fs' path = Some body \<and> e = map_option MediaFile (fault (CallChmod path))))"
proof (cases "validate_ffmpeg_command (merge_command video audio (path @ ''.part''))")
  case (Some x)
  then have "e = Some x" "fs' = fs" using assms(1) by (simp_all add: merge_run_def Let_def)
  then show ?thesis by simp
next
  case None
  obtain fs1 x where run: "run (merge_command video audio (path @ ''.part'')) fs = (fs1, x)" by (rule prod.exhaust)
  have last_arg: "last (fc_args (merge_command video audio (path @ ''.part''))) = path @ ''.part''" by (simp add: merge_command_def)
  have frame: "map_of fs1 q = map_of fs q" if "q \<noteq> path @ ''.part''" for q
    using assms(2) that run last_arg unfolding runner_local_def by (metis fst_conv)
  let ?part = "path @ ''.part''"
  have out: "map_of fs1 path = map_of fs path" using frame part_differs by metis
  show ?thesis
  proof (cases "x = None \<and> fault (CallStat ?part) = None \<and> fault (CallRename ?part) = None \<and> map_of fs1 ?part \<noteq> None")
    case True
    then obtain body where body: "map_of fs1 ?part = Some body" by auto
    have "fs' = AList.update path body (AList.delete ?part fs1)" "e = map_option MediaFile (fault (CallChmod path))"
      using assms(1) None run True body by (simp_all add: merge_run_def Let_def media_stat_def media_rename_def)
    then show ?thesis using body run True frame by (auto simp: update_conv' delete_conv')
  next
    case False
    have "e \<noteq> None \<and> (fs' = fs1 \<or> fs' = media_remove fault ?part fs1)"
      using assms(1) None run False
      by (cases x; cases "fault (CallStat ?part)"; cases "map_of fs1 ?part"; cases "fault (CallRename ?part)")
        (auto simp: merge_run_def Let_def media_stat_def media_rename_def)
    moreover have "map_of (media_remove fault ?part fs1) q = map_of fs1 q" if "q \<noteq> ?part" for q using that by (simp add: media_remove_map)
    ultimately have "e \<noteq> None" "\<forall>q. q \<noteq> ?part \<longrightarrow> map_of fs' q = map_of fs q" using frame by auto
    then show ?thesis using part_differs by simp
  qed
qed

text \<open>
  C32.  A merge puts a finished file in place or leaves the output as it was.  The output changes only when the
  process succeeded, and then to what it wrote into the part file; an answer without error means that
  happened; no file other than the output and its part changes, and the part is gone afterwards.  (The
  process writes its last argument only; \<open>os.Remove\<close> works.)
\<close>
theorem merge_output_atomic:
  assumes "merge_dash env fault ctx (Some run) request fs = (fs', e)" and "require_local_path env (mq_root request) (mq_output request) = Inr path"
    and "runner_local run" and "fault (CallRemove (path @ ''.part'')) = None" and "map_of fs (path @ ''.part'') = None"
  shows "map_of fs' (path @ ''.part'') = None \<and> (\<forall>q. q \<noteq> path \<longrightarrow> map_of fs' q = map_of fs q) \<and>
    (map_of fs' path = map_of fs path \<and> e \<noteq> None \<or>
     (\<exists>command fs1 body. run command fs = (fs1, None) \<and> fc_executable command = ''ffmpeg'' \<and> last (fc_args command) = path @ ''.part'' \<and>
        map_of fs1 (path @ ''.part'') = Some body \<and> map_of fs' path = Some body \<and> (e = None \<or> fault (CallChmod path) \<noteq> None)))"
proof -
  let ?part = "path @ ''.part''"
  show ?thesis
  proof (cases "\<exists>v a. require_local_path env (mq_root request) (mq_video request) = Inr v \<and> require_local_path env (mq_root request) (mq_audio request) = Inr a")
    case False
    then have "fs' = fs \<and> e \<noteq> None" using assms(1,2)
      by (cases "require_local_path env (mq_root request) (mq_video request)"; cases "require_local_path env (mq_root request) (mq_audio request)")
        (auto simp: merge_dash_def rbind_def)
    then show ?thesis using assms(5) by simp
  next
    case True
    then obtain v a where va: "require_local_path env (mq_root request) (mq_video request) = Inr v"
      "require_local_path env (mq_root request) (mq_audio request) = Inr a" by blast
    obtain fs1 e1 where m: "merge_run fault ctx (Some run) v a path fs = (fs1, e1)" by (rule prod.exhaust)
    have fs': "fs' = media_remove fault ?part fs1" "e = e1" using assms(1,2) va m by (auto simp: merge_dash_def rbind_def)
    have map: "map_of fs' = (map_of fs1)(?part := None)" using assms(4) by (simp add: fs' media_remove_map)
    have c: "fc_executable (merge_command v a ?part) = ''ffmpeg''" "last (fc_args (merge_command v a ?part)) = ?part"
      by (simp_all add: merge_command_def)
    from merge_run_files [OF m assms(3)] show ?thesis
    proof (elim conjE disjE exE)
      assume f: "\<forall>q. q \<notin> {path, ?part} \<longrightarrow> map_of fs1 q = map_of fs q" "map_of fs1 path = map_of fs path" "e1 \<noteq> None"
      then show ?thesis using assms(5) fs'(2) by (simp add: map)
    next
      fix fs2 body
      assume f: "\<forall>q. q \<notin> {path, ?part} \<longrightarrow> map_of fs1 q = map_of fs q" "run (merge_command v a ?part) fs = (fs2, None)"
        "map_of fs2 ?part = Some body" "map_of fs1 path = Some body" "e1 = map_option MediaFile (fault (CallChmod path))"
      have "e = None \<or> fault (CallChmod path) \<noteq> None" using fs'(2) f(5) by auto
      moreover have "map_of fs' path = Some body" "map_of fs' ?part = None" "\<forall>q. q \<noteq> path \<longrightarrow> map_of fs' q = map_of fs q"
        using f(1,4) assms(5) by (simp_all add: map)
      ultimately show ?thesis using f(2,3) c by blast
    qed
  qed
qed

section \<open>Prefetching keeps all of it or nothing\<close>

definition fetch_local :: "(dash_source \<Rightarrow> gostring \<Rightarrow> media_store \<Rightarrow> media_store \<times> gostring option) \<Rightarrow> bool" where
  "fetch_local fetch \<longleftrightarrow> (\<forall>x p fs q. q \<noteq> p \<longrightarrow> map_of (fst (fetch x p fs)) q = map_of fs q)"

definition part_stored :: "media_store \<Rightarrow> dash_part \<Rightarrow> bool" where
  "part_stored fs p \<longleftrightarrow> (\<exists>body. map_of fs (pt_final p) = Some body \<and> (dx_max (pt_source p) > 0 \<longrightarrow> int (length body) \<le> dx_max (pt_source p)))"

text \<open>What one goroutine does, seen from outside.\<close>
lemma run_part_outcome:
  assumes "fetch_local fetch"
  shows "(\<forall>q. q \<notin> {pt_final p, pt_final p @ ''.part''} \<longrightarrow> map_of (ps_files (run_part fault cancelled fetch p st)) q = map_of (ps_files st) q) \<and>
    (ps_created (run_part fault cancelled fetch p st) = ps_created st @ [pt_final p] \<and> ps_errors (run_part fault cancelled fetch p st) = ps_errors st \<and>
       part_stored (ps_files (run_part fault cancelled fetch p st)) p \<or>
     ps_created (run_part fault cancelled fetch p st) = ps_created st \<and>
       (\<exists>e. ps_errors (run_part fault cancelled fetch p st) = ps_errors st @ [e]) \<and>
       (map_of (ps_files (run_part fault cancelled fetch p st)) (pt_final p) = map_of (ps_files st) (pt_final p) \<or> fault (CallChmod (pt_final p)) \<noteq> None))"
proof -
  let ?f = "pt_final p" and ?x = "pt_source p"
  let ?t = "?f @ ''.part''"
  have tf: "?t \<noteq> ?f" "?f \<noteq> ?t" by simp_all
  obtain fs1 e where fetch: "fetch ?x ?t (ps_files st) = (fs1, e)" by (rule prod.exhaust)
  have frame: "map_of fs1 q = map_of (ps_files st) q" if "q \<noteq> ?t" for q
    using assms that fetch unfolding fetch_local_def by (metis fst_conv)
  have rm: "map_of (media_remove fault ?t fs1) q = map_of (ps_files st) q" if "q \<noteq> ?t" for q
    using frame that by (simp add: media_remove_map)
  show ?thesis
  proof (cases "cancelled = None \<and> e = None \<and> fault (CallStat ?t) = None \<and> map_of fs1 ?t \<noteq> None \<and>
      \<not> (dx_max ?x > 0 \<and> int (length (the (map_of fs1 ?t))) > dx_max ?x) \<and> fault (CallChmod ?t) = None \<and> fault (CallRename ?t) = None")
    case True
    then obtain body where body: "map_of fs1 ?t = Some body" by auto
    have nb: "(dx_max ?x > 0 \<and> int (length body) > dx_max ?x) = False" using True body by auto
    let ?fs2 = "AList.update ?f body (AList.delete ?t fs1)"
    have r: "run_part fault cancelled fetch p st = (case fault (CallChmod ?f) of
        Some e \<Rightarrow> st\<lparr>ps_files := ?fs2, ps_errors := ps_errors st @ [MediaFile e]\<rparr>
      | None \<Rightarrow> st\<lparr>ps_files := ?fs2, ps_created := ps_created st @ [?f]\<rparr>)"
      using True fetch body nb by (auto simp: run_part_def Let_def media_stat_def media_rename_def)
    have m: "map_of ?fs2 = (map_of fs1)(?t := None, ?f \<mapsto> body)" by (simp add: update_conv' delete_conv')
    show ?thesis unfolding r using True frame body
      by (cases "fault (CallChmod ?f)") (auto simp: m part_stored_def simp del: map_of_delete)
  next
    case False
    have "\<exists>e fs'. run_part fault cancelled fetch p st = st\<lparr>ps_files := fs', ps_errors := ps_errors st @ [e]\<rparr> \<and>
        fs' \<in> {ps_files st, fs1, media_remove fault ?t fs1}"
    proof (cases cancelled)
      case (Some a)
      have "run_part fault cancelled fetch p st = st\<lparr>ps_files := ps_files st, ps_errors := ps_errors st @ [MediaContext a]\<rparr>"
        using Some by (simp add: run_part_def Let_def)
      then show ?thesis by blast
    next
      case none: None
      show ?thesis
      proof (cases "e = None \<and> fault (CallStat ?t) = None \<and> map_of fs1 ?t \<noteq> None")
        case True
        then obtain body where "map_of fs1 ?t = Some body" by auto
        then show ?thesis using True False none fetch
          by (cases "fault (CallChmod ?t)"; cases "fault (CallRename ?t)")
            (auto simp: run_part_def Let_def media_stat_def media_rename_def)
      next
        case no: False
        then show ?thesis using fetch none
          by (cases e; cases "fault (CallStat ?t)"; cases "map_of fs1 ?t") (auto simp: run_part_def Let_def media_stat_def)
      qed
    qed
    then obtain e' fs' where r: "run_part fault cancelled fetch p st = st\<lparr>ps_files := fs', ps_errors := ps_errors st @ [e']\<rparr>"
      and fs': "fs' = ps_files st \<or> fs' = fs1 \<or> fs' = media_remove fault ?t fs1" by auto
    have "map_of fs' q = map_of (ps_files st) q" if "q \<noteq> ?t" for q using fs' frame rm that by auto
    then show ?thesis unfolding r using tf by simp
  qed
qed

definition part_paths :: "dash_part \<Rightarrow> gostring list" where
  "part_paths p = [pt_final p, pt_final p @ ''.part'']"

lemma run_parts_errors: "\<exists>es. ps_errors (run_parts fault cancelled fetch ps st) = ps_errors st @ es"
proof (induction ps arbitrary: st)
  case (Cons p ps)
  have "\<exists>es. ps_errors (run_part fault (cancelled p) fetch p st) = ps_errors st @ es"
    by (auto simp: run_part_def Let_def split: option.splits sum.splits prod.splits)
  then show ?case using Cons.IH [of "run_part fault (cancelled p) fetch p st"] by auto
qed simp

lemma run_parts_frame:
  "fetch_local fetch \<Longrightarrow> \<forall>p \<in> set ps. q \<notin> set (part_paths p) \<Longrightarrow>
     map_of (ps_files (run_parts fault cancelled fetch ps st)) q = map_of (ps_files st) q"
proof (induction ps arbitrary: st)
  case (Cons p ps)
  have "map_of (ps_files (run_part fault (cancelled p) fetch p st)) q = map_of (ps_files st) q"
    using run_part_outcome [OF Cons.prems(1), of p fault "cancelled p" st] Cons.prems(2) by (simp add: part_paths_def)
  then show ?case using Cons by simp
qed simp

lemma run_parts_stored:
  assumes "fetch_local fetch" and "distinct (concat (map part_paths ps))" and "ps_errors (run_parts fault cancelled fetch ps st) = []"
  shows "\<forall>p \<in> set ps. part_stored (ps_files (run_parts fault cancelled fetch ps st)) p"
  using assms(2,3)
proof (induction ps arbitrary: st)
  case (Cons p ps)
  let ?st = "run_part fault (cancelled p) fetch p st"
  have "ps_errors ?st = []" using Cons.prems(2) run_parts_errors [of fault cancelled fetch ps ?st] by auto
  then have "part_stored (ps_files ?st) p" using run_part_outcome [OF assms(1), of p fault "cancelled p" st] by auto
  moreover have "map_of (ps_files (run_parts fault cancelled fetch ps ?st)) (pt_final p) = map_of (ps_files ?st) (pt_final p)"
    by (rule run_parts_frame [OF assms(1)]) (use Cons.prems(1) in \<open>auto simp: part_paths_def\<close>)
  ultimately have "part_stored (ps_files (run_parts fault cancelled fetch ps ?st)) p" by (simp add: part_stored_def)
  then show ?case using Cons by simp
qed simp

lemma run_parts_created: "set (ps_created st) \<subseteq> set (ps_created (run_parts fault cancelled fetch ps st))"
proof (induction ps arbitrary: st)
  case (Cons p ps)
  have "set (ps_created st) \<subseteq> set (ps_created (run_part fault (cancelled p) fetch p st))"
    by (auto simp: run_part_def Let_def split: option.splits sum.splits prod.splits)
  then show ?case using Cons.IH [of "run_part fault (cancelled p) fetch p st"] by auto
qed simp

lemma run_parts_created_of:
  "set (ps_created (run_parts fault cancelled fetch ps st)) \<subseteq> set (ps_created st) \<union> pt_final ` set ps"
proof (induction ps arbitrary: st)
  case (Cons p ps)
  have "set (ps_created (run_part fault (cancelled p) fetch p st)) \<subseteq> insert (pt_final p) (set (ps_created st))"
    by (auto simp: run_part_def Let_def split: option.splits sum.splits prod.splits)
  then show ?case using Cons.IH [of "run_part fault (cancelled p) fetch p st"] by auto
qed simp

lemma run_parts_unchanged:
  assumes "fetch_local fetch" and "\<forall>p. fault (CallChmod p) = None"
    and "q \<notin> set (ps_created (run_parts fault cancelled fetch ps st))" and "\<forall>p \<in> set ps. q \<noteq> pt_final p @ ''.part''"
  shows "map_of (ps_files (run_parts fault cancelled fetch ps st)) q = map_of (ps_files st) q"
  using assms(3,4)
proof (induction ps arbitrary: st)
  case (Cons p ps)
  let ?st = "run_part fault (cancelled p) fetch p st"
  have rest: "map_of (ps_files (run_parts fault cancelled fetch ps ?st)) q = map_of (ps_files ?st) q" using Cons by simp
  have q: "q \<notin> set (ps_created ?st)" using Cons.prems(1) run_parts_created [of ?st fault cancelled fetch ps] by auto
  have "map_of (ps_files ?st) q = map_of (ps_files st) q"
    using run_part_outcome [OF assms(1), of p fault "cancelled p" st] assms(2) Cons.prems(2) q by (cases "q = pt_final p") auto
  with rest show ?case by simp
qed simp

section \<open>Generated names\<close>

lemma contains_any_set: "contains_any s cs \<longleftrightarrow> (\<exists>c \<in> set s. c \<in> set cs)"
  by (auto simp: contains_any_def list_ex_iff)

lemma not_contains_any: "\<not> contains_any s cs \<Longrightarrow> c \<in> set cs \<Longrightarrow> c \<notin> set s"
  by (auto simp: contains_any_set)

lemma lower_slash: "lower_char c = CHR ''/'' \<Longrightarrow> c = CHR ''/''"
proof (rule ccontr)
  assume l: "lower_char c = CHR ''/''" and "c \<noteq> CHR ''/''"
  then have n: "65 \<le> byte_val c" "byte_val c \<le> 90" "char_of (byte_val c + 32) = CHR ''/''"
    by (auto simp: lower_char_def Let_def split: if_splits)
  from arg_cong [OF n(3), of "of_char :: char \<Rightarrow> nat"] n(1,2) show False by simp
qed

lemma lower_no_slash: "CHR ''/'' \<notin> set s \<Longrightarrow> CHR ''/'' \<notin> set (to_lower s)"
  unfolding to_lower_def set_map by (metis imageE lower_slash)

lemma set_takeWhile_subset: "set (takeWhile P xs) \<subseteq> set xs"
  by (auto dest: set_takeWhileD)

lemma path_ext_set: "set (path_ext p) \<subseteq> insert CHR ''.'' (set p)"
proof -
  let ?b = "rev (takeWhile (\<lambda>c. c \<noteq> CHR ''/'') (rev p))"
  have "set ?b \<subseteq> set p" using set_takeWhile_subset [of _ "rev p"] by simp
  moreover have "set (rev (takeWhile (\<lambda>c. c \<noteq> CHR ''.'') (rev ?b))) \<subseteq> set ?b" using set_takeWhile_subset [of _ "rev ?b"] by simp
  ultimately show ?thesis unfolding path_ext_def Let_def by auto
qed

lemma itoa_nat: "itoa (int i) = dec_digits i"
  by (simp add: itoa_def)

lemma suffix_index:
  assumes "a @ fallback_index_suffix i = b @ fallback_index_suffix j"
  shows "i = j"
proof -
  have "a @ ''_'' @ dec_digits i = b @ ''_'' @ dec_digits j"
    using assms by (simp add: fallback_index_suffix_def itoa_nat)
  moreover have "rev (takeWhile is_digit (rev (x @ ''_'' @ dec_digits k))) = dec_digits k" for x k
  proof -
    have "\<not> is_digit CHR ''_''" by code_simp
    moreover have "takeWhile is_digit (rev (dec_digits k) @ r) = rev (dec_digits k) @ takeWhile is_digit r" for r
      by (rule takeWhile_append2) (use dec_digits_digit [of k] in auto)
    ultimately show ?thesis by simp
  qed
  ultimately have "dec_digits i = dec_digits j" by metis
  then show ?thesis by (rule dec_digits_inj)
qed

lemma generated_name:
  assumes "safe_generated_name name i = Inr g"
  shows "CHR ''/'' \<notin> set g \<and> (\<exists>a. g = a @ fallback_index_suffix i)"
proof -
  let ?n1 = "if trim_space name = [] then ''asset'' else trim_space name"
  let ?n = "map (\<lambda>c. if c = CHR '' '' then CHR ''_'' else c) ?n1"
  have s: "\<not> contains_any ?n [CHR ''/'', CHR 0x5C, CHR '':'']"
    and g: "g = to_lower ?n @ ''_'' @ dropWhile (\<lambda>c. c = CHR ''.'') (path_ext ?n) @ fallback_index_suffix i"
    using assms unfolding safe_generated_name_def Let_def by (auto split: if_splits)
  have n: "CHR ''/'' \<notin> set ?n" by (rule not_contains_any [OF s]) simp
  have "CHR ''/'' \<notin> set (path_ext ?n)" using n path_ext_set [of ?n] by auto
  then have "CHR ''/'' \<notin> set (dropWhile (\<lambda>c. c = CHR ''.'') (path_ext ?n))" by (meson set_dropWhileD)
  moreover have "CHR ''/'' \<notin> set (to_lower ?n)" by (rule lower_no_slash [OF n])
  moreover have "CHR ''/'' \<notin> set (fallback_index_suffix i)"
  proof -
    have "\<not> is_digit CHR ''/''" by code_simp
    then show ?thesis using dec_digits_digit [of i] by (auto simp: fallback_index_suffix_def itoa_nat)
  qed
  ultimately show ?thesis unfolding g by auto
qed

lemma launch_parts_names:
  assumes "launch_parts idna root i xs = (e, parts)"
  shows "length parts \<le> length xs \<and> (e = None \<longrightarrow> length parts = length xs) \<and>
    (\<forall>k < length parts. \<exists>a. pt_source (parts ! k) = xs ! k \<and> CHR ''/'' \<notin> set (a @ fallback_index_suffix (i + k)) \<and>
       pt_final (parts ! k) = join_path root (a @ fallback_index_suffix (i + k)))"
  using assms
proof (induction xs arbitrary: i e parts)
  case (Cons x xs)
  show ?case
  proof (cases "new_fetch_url idna (dx_url x) = None \<or> (\<exists>y. safe_generated_name (dx_name x) i = Inl y)")
    case True
    then show ?thesis using Cons.prems by (auto split: option.splits)
  next
    case False
    then obtain g where g: "safe_generated_name (dx_name x) i = Inr g" by (cases "safe_generated_name (dx_name x) i") auto
    obtain e' ps where l: "launch_parts idna root (Suc i) xs = (e', ps)" by (rule prod.exhaust)
    have parts: "parts = \<lparr>pt_source = x, pt_final = join_path root g\<rparr> # ps" "e = e'" using Cons.prems False g l by auto
    note ih = Cons.IH [OF l]
    have "\<exists>a. pt_source (parts ! k) = (x # xs) ! k \<and> CHR ''/'' \<notin> set (a @ fallback_index_suffix (i + k)) \<and>
       pt_final (parts ! k) = join_path root (a @ fallback_index_suffix (i + k))" if "k < length parts" for k
    proof (cases k)
      case 0
      then show ?thesis using generated_name [OF g] parts by auto
    next
      case (Suc m)
      then show ?thesis using ih parts that by auto
    qed
    then show ?thesis using ih parts by auto
  qed
qed simp

lemma join_path_inj: "join_path root a = join_path root b \<Longrightarrow> a = b"
  by (simp add: join_path_def split: if_splits)

lemma final_not_part:
  assumes "f = join_path root (a @ fallback_index_suffix i)"
  shows "f \<noteq> y @ ''.part''"
proof -
  have "last f = CHR ''n''" using assms by (simp add: join_path_def fallback_index_suffix_def)
  then show ?thesis by auto
qed

lemma launch_parts_distinct:
  assumes "launch_parts idna root i xs = (e, parts)"
  shows "distinct (map pt_final parts) \<and> distinct (concat (map part_paths parts)) \<and> (\<forall>p \<in> set parts. \<forall>y. pt_final p \<noteq> y @ ''.part'')"
proof -
  note l = launch_parts_names [OF assms]
  have d: "distinct (map pt_final parts)"
  proof (rule distinct_conv_nth [THEN iffD2], intro allI impI)
    fix j k assume jk: "j < length (map pt_final parts)" "k < length (map pt_final parts)" "j \<noteq> k"
    then obtain a b where ab: "pt_final (parts ! j) = join_path root (a @ fallback_index_suffix (i + j))"
      "pt_final (parts ! k) = join_path root (b @ fallback_index_suffix (i + k))" using l by (metis length_map)
    have "a @ fallback_index_suffix (i + j) \<noteq> b @ fallback_index_suffix (i + k)" using suffix_index [of a "i + j" b "i + k"] jk(3) by auto
    then have "pt_final (parts ! j) \<noteq> pt_final (parts ! k)" unfolding ab using join_path_inj by blast
    then show "map pt_final parts ! j \<noteq> map pt_final parts ! k" using jk(1,2) by simp
  qed
  have n: "\<forall>y. pt_final p \<noteq> y @ ''.part''" if "p \<in> set parts" for p
    using l that final_not_part by (metis in_set_conv_nth)
  have "distinct (concat (map part_paths ps))" if "distinct (map pt_final ps)" "set ps \<subseteq> set parts" for ps
    using that
  proof (induction ps)
    case (Cons p ps)
    have "pt_final p \<noteq> pt_final q \<and> pt_final p \<noteq> pt_final q @ ''.part'' \<and> pt_final p @ ''.part'' \<noteq> pt_final q"
      if "q \<in> set ps" for q
    proof (intro conjI)
      show "pt_final p \<noteq> pt_final q" using Cons.prems(1) that by auto
      show "pt_final p \<noteq> pt_final q @ ''.part''" using n [of p] Cons.prems(2) by auto
      have "q \<in> set parts" using Cons.prems(2) that by auto
      then show "pt_final p @ ''.part'' \<noteq> pt_final q" using n [of q] by metis
    qed
    moreover have "distinct (concat (map part_paths ps))" using Cons by simp
    ultimately show ?case by (auto simp: part_paths_def [abs_def])
  qed simp
  then show ?thesis using d n by blast
qed

lemma fold_remove_map:
  assumes "\<forall>p. fault (CallRemove p) = None"
  shows "map_of (fold (media_remove fault) ps fs) = (\<lambda>q. if q \<in> set ps then None else map_of fs q)"
  using assms by (induction ps arbitrary: fs) (auto simp: media_remove_map)

lemma concat_distinct_mset:
  assumes "mset xs = mset ys" and "distinct (concat (map f ys))"
  shows "distinct (concat (map f xs))"
proof -
  have "mset (concat (map f zs)) = sum_mset (image_mset (\<lambda>x. mset (f x)) (mset zs))" for zs by (induction zs) auto
  then have "mset (concat (map f xs)) = mset (concat (map f ys))" using assms(1) by simp
  then show ?thesis using assms(2) by (metis mset_eq_imp_distinct_iff)
qed

text \<open>What an answer of paths says of each.\<close>
definition launch_stored :: "gostring \<Rightarrow> media_store \<Rightarrow> dash_source list \<Rightarrow> gostring list \<Rightarrow> bool" where
  "launch_stored root fs sources paths \<longleftrightarrow>
     (\<forall>i < length sources. \<exists>body name. map_of fs (paths ! i) = Some body \<and> CHR ''/'' \<notin> set name \<and> paths ! i = join_path root name \<and>
        (dx_max (sources ! i) > 0 \<longrightarrow> int (length body) \<le> dx_max (sources ! i)))"

lemma launch_parts_stored:
  assumes "launch_parts idna root 0 sources = (e, parts)" and "e = None" and "\<forall>p \<in> set parts. part_stored fs p"
  shows "launch_stored root fs sources (map pt_final parts)"
  unfolding launch_stored_def
proof (intro allI impI)
  fix i assume i: "i < length sources"
  note names = launch_parts_names [OF assms(1)]
  have len: "i < length parts" using names assms(2) i by simp
  then obtain a where a: "pt_source (parts ! i) = sources ! i" "CHR ''/'' \<notin> set (a @ fallback_index_suffix i)"
    "pt_final (parts ! i) = join_path root (a @ fallback_index_suffix i)" using names by auto
  obtain body where "map_of fs (pt_final (parts ! i)) = Some body" "dx_max (sources ! i) > 0 \<longrightarrow> int (length body) \<le> dx_max (sources ! i)"
    using assms(3) nth_mem [OF len] a(1) unfolding part_stored_def by metis
  then show "\<exists>body name. map_of fs (map pt_final parts ! i) = Some body \<and> CHR ''/'' \<notin> set name \<and> map pt_final parts ! i = join_path root name \<and>
      (dx_max (sources ! i) > 0 \<longrightarrow> int (length body) \<le> dx_max (sources ! i))"
    using a(2,3) len by (metis nth_map)
qed

text \<open>What the loop over the sources takes of each: a URL that can be fetched and a safe name.\<close>
definition accepted_source :: "idna \<Rightarrow> nat \<Rightarrow> dash_source \<Rightarrow> bool" where
  "accepted_source idna i x \<longleftrightarrow>
     new_fetch_url idna (dx_url x) \<noteq> None \<and> (case safe_generated_name (dx_name x) i of Inl _ \<Rightarrow> False | Inr _ \<Rightarrow> True)"

lemma launch_parts_accepts:
  "fst (launch_parts idna root i xs) = None \<longleftrightarrow> (\<forall>k < length xs. accepted_source idna (i + k) (xs ! k))"
proof (induction xs arbitrary: i)
  case (Cons x xs)
  have "(\<forall>k < length (x # xs). accepted_source idna (i + k) ((x # xs) ! k)) \<longleftrightarrow>
      accepted_source idna i x \<and> (\<forall>k < length xs. accepted_source idna (Suc i + k) (xs ! k))"
    by (auto simp: less_Suc_eq_0_disj nth_Cons')
  also have "\<dots> \<longleftrightarrow> accepted_source idna i x \<and> fst (launch_parts idna root (Suc i) xs) = None" by (simp only: Cons.IH)
  also have "\<dots> \<longleftrightarrow> fst (launch_parts idna root i (x # xs)) = None"
    by (auto simp: accepted_source_def split: option.splits sum.splits prod.splits)
  finally show ?case by blast
qed simp

text \<open>The two paths of a part are directly below the root.\<close>
lemma launch_parts_below:
  assumes "launch_parts idna root i xs = (e, parts)" and "p \<in> set parts" and "q \<in> set (part_paths p)"
  shows "\<exists>name. CHR ''/'' \<notin> set name \<and> q = join_path root name"
proof -
  obtain k where k: "k < length parts" "p = parts ! k" using assms(2) by (metis in_set_conv_nth)
  with launch_parts_names [OF assms(1)] obtain a where a: "CHR ''/'' \<notin> set (a @ fallback_index_suffix (i + k))"
    "pt_final p = join_path root (a @ fallback_index_suffix (i + k))" by auto
  let ?n = "a @ fallback_index_suffix (i + k)"
  have "CHR ''/'' \<notin> set (?n @ ''.part'')" using a(1) by simp
  moreover have "join_path root ?n @ ''.part'' = join_path root (?n @ ''.part'')" by (simp add: join_path_def)
  moreover have "q = join_path root ?n \<or> q = join_path root ?n @ ''.part''" using assms(3) a(2) by (auto simp: part_paths_def)
  ultimately show ?thesis using a(1) by metis
qed

text \<open>
  C31.  Prefetching keeps every part or, unless a source is refused, no new file.  If it answers paths, they are
  one per source, all different, directly below the root, each holds what was fetched, and none exceeds its
  source's limit; and nothing is left running.  If it answers an error although the URL and the name of every
  source are accepted, nothing is left running and every file (part files apart) is as it was before or gone -
  whatever the order in which the concurrent fetches ended.  If a source is refused, files of the earlier
  sources may appear, before the answer and after it; but with any error only paths directly below the root
  are touched, now or by what still runs.  (A fetch writes its own part file only; changing modes and removing
  files work.)
\<close>
theorem prefetch_all_or_nothing:
  assumes "prefetch idna env fault cancelled schedule ended (Some fetch) prefetcher sources fs = (r, fs', running)"
    and "fetch_local fetch" and "\<And>ps. mset (schedule ps) = mset ps"
    and "\<forall>p. fault (CallChmod p) = None" and "\<forall>p. fault (CallRemove p) = None"
  shows "case r of
      Inr paths \<Rightarrow> running = [] \<and> distinct paths \<and> length paths = length sources \<and>
        (\<forall>i < length sources. \<exists>body root name. map_of fs' (paths ! i) = Some body \<and>
           absolute_root env (dp_root prefetcher) = Inr root \<and> CHR ''/'' \<notin> set name \<and> paths ! i = join_path root name \<and>
           (dx_max (sources ! i) > 0 \<longrightarrow> int (length body) \<le> dx_max (sources ! i)))
    | Inl _ \<Rightarrow>
        ((\<forall>i < length sources. accepted_source idna i (sources ! i)) \<longrightarrow>
           running = [] \<and> (\<forall>q. (\<forall>y. q \<noteq> y @ ''.part'') \<longrightarrow> map_of fs' q = map_of fs q \<or> map_of fs' q = None)) \<and>
        (\<forall>q. (\<forall>root name. absolute_root env (dp_root prefetcher) = Inr root \<and> CHR ''/'' \<notin> set name \<longrightarrow> q \<noteq> join_path root name) \<longrightarrow>
           map_of fs' q = map_of fs q \<and>
           map_of (ps_files (run_parts fault cancelled fetch running \<lparr>ps_files = fs', ps_created = [], ps_errors = []\<rparr>)) q = map_of fs q)"
proof (cases "absolute_root env (dp_root prefetcher)")
  case (Inl e)
  then show ?thesis using assms(1) by (auto simp: prefetch_def)
next
  case root: (Inr root)
  obtain e parts where l: "launch_parts idna root 0 sources = (e, parts)" by (rule prod.exhaust)
  let ?ps = "schedule parts" and ?init = "\<lparr>ps_files = fs, ps_created = [], ps_errors = []\<rparr>"
  let ?out = "\<lambda>q. \<forall>root name. absolute_root env (dp_root prefetcher) = Inr root \<and> CHR ''/'' \<notin> set name \<longrightarrow> q \<noteq> join_path root name"
  have sched: "set ?ps = set parts" using assms(3) [of parts] by (metis set_mset_mset)
  have outside: "map_of (ps_files (run_parts fault cancelled fetch ps st)) q = map_of (ps_files st) q"
    if "?out q" "set ps \<subseteq> set parts" for q ps st
  proof (rule run_parts_frame [OF assms(2)], intro ballI notI)
    fix p assume p: "p \<in> set ps" "q \<in> set (part_paths p)"
    then have "p \<in> set parts" using that(2) by blast
    from launch_parts_below [OF l this p(2)] obtain name where "CHR ''/'' \<notin> set name" "q = join_path root name" by blast
    then show False using that(1) root by blast
  qed
  show ?thesis
  proof (cases e)
    case (Some x)
    then have r: "r = Inl x" "fs' = ps_files (run_parts fault cancelled fetch (take ended ?ps) ?init)" "running = drop ended ?ps"
      using assms(1) root l by (auto simp: prefetch_def)
    have no: "\<not> (\<forall>i < length sources. accepted_source idna i (sources ! i))"
      using launch_parts_accepts [of idna root 0 sources] l Some by simp
    have "set (take ended ?ps) \<subseteq> set parts" "set running \<subseteq> set parts"
      using sched r(3) set_take_subset set_drop_subset by fastforce+
    then show ?thesis unfolding r(1) sum.case using no outside by (auto simp: r(2))
  next
    case None
    let ?st = "run_parts fault cancelled fetch ?ps ?init"
    have apart: "distinct (map pt_final parts)" "distinct (concat (map part_paths ?ps))"
      using launch_parts_distinct [OF l] concat_distinct_mset [OF assms(3)] by auto
    show ?thesis
    proof (cases "ps_errors ?st")
      case Nil
      have r: "r = Inr (map pt_final parts)" "fs' = ps_files ?st" "running = []"
        using assms(1) root l None Nil by (auto simp: prefetch_def Let_def)
      have stored: "\<forall>p \<in> set parts. part_stored fs' p"
        using run_parts_stored [OF assms(2) apart(2) Nil] sched r(2) by simp
      have "launch_stored root fs' sources (map pt_final parts)"
        by (rule launch_parts_stored [OF l None stored])
      then show ?thesis using r apart(1) launch_parts_names [OF l] None root by (auto simp: launch_stored_def)
    next
      case (Cons x xs)
      have r: "r = Inl x" "fs' = fold (media_remove fault) (ps_created ?st) (ps_files ?st)" "running = []"
        using assms(1) root l None Cons by (auto simp: prefetch_def Let_def)
      have kept: "map_of fs' q = map_of fs q \<or> map_of fs' q = None" if q: "\<forall>y. q \<noteq> y @ ''.part''" for q
        using run_parts_unchanged [OF assms(2,4), where q = q and cancelled = cancelled and ps = ?ps and st = ?init] q
        by (auto simp: r(2) fold_remove_map [OF assms(5)])
      have "map_of fs' q = map_of fs q" if out: "?out q" for q
      proof -
        have "q \<notin> set (ps_created ?st)"
        proof
          assume "q \<in> set (ps_created ?st)"
          then obtain p where "p \<in> set parts" "q \<in> set (part_paths p)"
            using run_parts_created_of [of fault cancelled fetch ?ps ?init] sched by (auto simp: part_paths_def)
          then show False using launch_parts_below [OF l] out root by blast
        qed
        then show ?thesis using outside [OF out, of ?ps ?init] sched by (simp add: r(2) fold_remove_map [OF assms(5)])
      qed
      then show ?thesis using r(1,3) kept by simp
    qed
  qed
qed

section \<open>Concrete runs\<close>

definition demo_video :: "gostring \<Rightarrow> int \<Rightarrow> media_candidate" where
  "demo_video u q = \<lparr>mc_url = u, mc_kind = KindVideo, mc_quality = q, mc_bitrate = 0, mc_width = 0, mc_height = 0, mc_source = 0\<rparr>"

definition demo_videos :: "media_candidate list" where
  "demo_videos = [demo_video ''https://a/low'' 1, demo_video ''ftp://a/best'' 9, demo_video ''https://a/high'' 5]"

theorem dash_selection_within_budget_witness:
  "\<exists>b. select_dash_candidate Some (\<lambda>_. None) (\<lambda>c w. (if mc_quality c > 3 then Some ''dead'' else None, w)) demo_videos (new_fallback_budget 2) () =
     (Inr (demo_video ''https://a/low'' 1), b, ()) \<and> fb_attempts b \<le> 2"
proof -
  have run: "select_dash_candidate Some (\<lambda>_. None) (\<lambda>c w. (if mc_quality c > 3 then Some ''dead'' else None, w)) demo_videos (new_fallback_budget 2) () =
     (Inr (demo_video ''https://a/low'' 1), \<lparr>fb_max = 2, fb_attempts = 2\<rparr>, ())"
    by code_simp
  from dash_selection_within_budget [OF run] run show ?thesis by simp
qed

definition demo_process :: "ffmpeg_command \<Rightarrow> media_store \<Rightarrow> media_store \<times> gostring option" where
  "demo_process c fs = (AList.update (last (fc_args c)) ''merged'' fs, None)"

definition demo_merge :: merge_request where
  "demo_merge = \<lparr>mq_root = ''/tmp/job'', mq_video = ''/tmp/job/v'', mq_audio = ''/tmp/job/a'', mq_output = ''/tmp/job/out.mp4''\<rparr>"

lemma demo_merge_answer: "merge_dash demo_files (\<lambda>_. None) None (Some demo_process) demo_merge [(''/tmp/job/v'', ''1''), (''/tmp/job/out.mp4'', ''old'')] =
    ([(''/tmp/job/v'', ''1''), (''/tmp/job/out.mp4'', ''merged'')], None)"
  "require_local_path demo_files (mq_root demo_merge) (mq_output demo_merge) = Inr ''/tmp/job/out.mp4''"
  by code_simp+

theorem merge_output_atomic_witness:
  "\<exists>fs'. merge_dash demo_files (\<lambda>_. None) None (Some demo_process) demo_merge [(''/tmp/job/v'', ''1''), (''/tmp/job/out.mp4'', ''old'')] = (fs', None) \<and>
     map_of fs' ''/tmp/job/out.mp4'' = Some ''merged'' \<and> map_of fs' ''/tmp/job/out.mp4.part'' = None"
proof -
  let ?fs = "[(''/tmp/job/v'', ''1''), (''/tmp/job/out.mp4'', ''old'')]"
  obtain fs' where m: "merge_dash demo_files (\<lambda>_. None) None (Some demo_process) demo_merge ?fs = (fs', None)"
    using demo_merge_answer(1) by blast
  have out: "map_of fs' ''/tmp/job/out.mp4'' = Some ''merged''" using demo_merge_answer(1) m by simp
  have local: "runner_local demo_process" by (simp add: runner_local_def demo_process_def update_conv')
  from merge_output_atomic [OF m demo_merge_answer(2) local] have "map_of fs' (''/tmp/job/out.mp4'' @ ''.part'') = None" by simp
  with m out show ?thesis by auto
qed

definition demo_fetch :: "dash_source \<Rightarrow> gostring \<Rightarrow> media_store \<Rightarrow> media_store \<times> gostring option" where
  "demo_fetch x p fs = (AList.update p ''body'' fs, None)"

definition demo_sources :: "dash_source list" where
  "demo_sources = [\<lparr>dx_name = ''Video A.mp4'', dx_url = ''https://a/v'', dx_max = 10\<rparr>, \<lparr>dx_name = [], dx_url = ''https://a/a'', dx_max = 0\<rparr>]"

lemma demo_prefetch_facts:
  "case fst (prefetch Some demo_files (\<lambda>_. None) (\<lambda>_. None) rev 0 (Some demo_fetch) (new_dash_prefetcher ''/tmp/job'' 7) demo_sources []) of
     Inl _ \<Rightarrow> False | Inr paths \<Rightarrow> paths = [''/tmp/job/video_a.mp4_mp4_0.bin'', ''/tmp/job/asset__1.bin'']"
  by code_simp

theorem prefetch_all_or_nothing_witness:
  "\<exists>fs'. prefetch Some demo_files (\<lambda>_. None) (\<lambda>_. None) rev 0 (Some demo_fetch) (new_dash_prefetcher ''/tmp/job'' 7) demo_sources [] =
     (Inr [''/tmp/job/video_a.mp4_mp4_0.bin'', ''/tmp/job/asset__1.bin''], fs', []) \<and> map_of fs' ''/tmp/job/asset__1.bin'' \<noteq> None"
proof -
  obtain r fs' running where p: "prefetch Some demo_files (\<lambda>_. None) (\<lambda>_. None) rev 0 (Some demo_fetch) (new_dash_prefetcher ''/tmp/job'' 7) demo_sources [] =
      (r, fs', running)" by (rule prod_cases3)
  have r: "r = Inr [''/tmp/job/video_a.mp4_mp4_0.bin'', ''/tmp/job/asset__1.bin'']"
    using demo_prefetch_facts unfolding p by (cases r) auto
  have local: "fetch_local demo_fetch" by (simp add: fetch_local_def demo_fetch_def update_conv')
  have len: "(1::nat) < length demo_sources" by (simp add: demo_sources_def)
  from prefetch_all_or_nothing [OF p local] have "running = []"
    "\<forall>i < length demo_sources. \<exists>body. map_of fs' ([''/tmp/job/video_a.mp4_mp4_0.bin'', ''/tmp/job/asset__1.bin''] ! i) = Some body"
    by (auto simp: r)
  then show ?thesis using p r len by fastforce
qed

text \<open>
  A source with a bad name makes the call return while fetches started before it go on: the file of one that
  had ended by then stays, and nobody waits for the other or removes what it writes.
\<close>
lemma prefetch_leaves_running:
  "case prefetch Some demo_files (\<lambda>_. None) (\<lambda>_. None) rev 1 (Some demo_fetch) (new_dash_prefetcher ''/tmp/job'' 2)
     (demo_sources @ [\<lparr>dx_name = ''../x'', dx_url = ''https://a/x'', dx_max = 0\<rparr>]) [] of (r, fs, running) \<Rightarrow>
     r = Inl ErrUnsafeLocalPath \<and> map fst fs = [''/tmp/job/asset__1.bin''] \<and> length running = 1 \<and>
     map fst (ps_files (run_parts (\<lambda>_. None) (\<lambda>_. None) demo_fetch running \<lparr>ps_files = fs, ps_created = [], ps_errors = []\<rparr>)) =
       [''/tmp/job/asset__1.bin'', ''/tmp/job/video_a.mp4_mp4_0.bin'']"
  by code_simp

end
