(* ===== verification/ParseTasks.thy ===== *)
theory ParseTasks imports
  TaskWorker
  RuntimeCache
  Download
begin

text \<open>
  \<open>internal/parse/tasks.go\<close>: a parse request that becomes a task.  The request travels as JSON in the
  task's payload, the executor parses what it reads there, the outcome travels back as JSON in the task's
  result, and the view a client polls decodes it.  The task store is a record of its two operations; the
  in-memory store is an instance.
\<close>

section \<open>Requests as JSON\<close>

definition request_members :: "request \<Rightarrow> (gostring \<times> json) list" where
  "request_members r = [(''URL'', JStr (rq_url r)), (''ForceRefresh'', JBool (rq_force r)), (''Source'', JNum (show_int (rq_source r))),
     (''Timestamp'', JNum (show_int (rq_timestamp r))), (''Signature'', JStr (rq_signature r)), (''Version'', JNum (show_int (rq_version r)))]"

definition request_json :: "request \<Rightarrow> json" where
  "request_json r = JObj (request_members r)"

definition request_decode :: "gostring \<Rightarrow> request option" where
  "request_decode raw =
     (case decode_members raw of
        None \<Rightarrow> None
      | Some kvs \<Rightarrow>
          (case (string_field ''URL'' kvs, bool_field ''ForceRefresh'' kvs, int_field ''Source'' kvs, int_field ''Timestamp'' kvs,
              string_field ''Signature'' kvs, int_field ''Version'' kvs) of
             (Some u, Some f, Some s, Some t, Some g, Some v) \<Rightarrow>
               Some \<lparr>rq_url = u, rq_force = f, rq_source = s, rq_timestamp = t, rq_signature = g, rq_version = v\<rparr>
           | _ \<Rightarrow> None))"

section \<open>Results as JSON\<close>

text \<open>\<open>CompatData\<close> with every field of its own, as it is encoded; slices are not nil.\<close>
record wire_data =
  wd_platform :: gostring
  wd_type :: gostring
  wd_title :: gostring
  wd_desc :: gostring
  wd_cover :: gostring
  wd_author :: gostring
  wd_avatar :: gostring
  wd_music :: gostring
  wd_mp3 :: gostring
  wd_audio :: gostring
  wd_audio_url :: gostring
  wd_duration :: int
  wd_downloads :: "(gostring \<times> gostring) list"
  wd_images :: "gostring list"
  wd_pics :: "gostring list"
  wd_m3u8 :: gostring
  wd_preview :: gostring
  wd_play :: gostring
  wd_share :: gostring
  wd_source :: gostring
  wd_assets :: "image_asset list"

definition wire_of :: "compat_data \<Rightarrow> wire_data" where
  "wire_of d = \<lparr>wd_platform = cd_platform d, wd_type = cd_type d, wd_title = cd_title d, wd_desc = cd_desc d, wd_cover = cd_cover d,
     wd_author = cd_author d, wd_avatar = cd_avatar d, wd_music = cd_audio d, wd_mp3 = cd_audio d, wd_audio = cd_audio d,
     wd_audio_url = cd_audio d, wd_duration = cd_duration d, wd_downloads = cd_downloads d, wd_images = cd_images d,
     wd_pics = cd_images d, wd_m3u8 = cd_m3u8 d, wd_preview = cd_preview d, wd_play = cd_play d, wd_share = cd_share d,
     wd_source = cd_source d, wd_assets = cd_assets d\<rparr>"

definition item_json :: "gostring \<times> gostring \<Rightarrow> json" where
  "item_json i = JObj ((''url'', JStr (fst i)) # omit_empty ''label'' (snd i))"

definition wire_members :: "wire_data \<Rightarrow> (gostring \<times> json) list" where
  "wire_members d = [(''platform'', JStr (wd_platform d)), (''type'', JStr (wd_type d)), (''title'', JStr (wd_title d)), (''desc'', JStr (wd_desc d)),
     (''cover'', JStr (wd_cover d)), (''author'', JStr (wd_author d)), (''avatar'', JStr (wd_avatar d)), (''music'', JStr (wd_music d)),
     (''mp3'', JStr (wd_mp3 d)), (''audio'', JStr (wd_audio d)), (''audioUrl'', JStr (wd_audio_url d)),
     (''duration'', JNum (show_int (wd_duration d))), (''downloads'', JArr (map item_json (wd_downloads d))),
     (''images'', JArr (map JStr (wd_images d))), (''pics'', JArr (map JStr (wd_pics d))), (''m3u8'', JStr (wd_m3u8 d)),
     (''previewUrl'', JStr (wd_preview d)), (''playAddr'', JStr (wd_play d))] @
     omit_empty ''shareId'' (wd_share d) @ omit_empty ''sourceUrl'' (wd_source d) @
     (if wd_assets d = [] then [] else [(''imageAssets'', JArr (map image_json (wd_assets d)))])"

definition item_decode :: "json \<Rightarrow> (gostring \<times> gostring) option" where
  "item_decode v = (case v of
     JNull \<Rightarrow> Some ([], [])
   | JObj kvs \<Rightarrow> (case (string_field ''url'' kvs, string_field ''label'' kvs) of (Some u, Some l) \<Rightarrow> Some (u, l) | _ \<Rightarrow> None)
   | _ \<Rightarrow> None)"

definition text_decode :: "json \<Rightarrow> gostring option" where
  "text_decode v = (case v of JNull \<Rightarrow> Some [] | JStr s \<Rightarrow> Some s | _ \<Rightarrow> None)"

text \<open>A slice: null empties it.  The encoder writes a name once; of several occurrences the last one is taken.\<close>
definition slice_field :: "(json \<Rightarrow> 'a option) \<Rightarrow> gostring \<Rightarrow> (gostring \<times> json) list \<Rightarrow> 'a list option" where
  "slice_field f name kvs =
     map_option (\<lambda>xss. if xss = [] then [] else last xss)
       (those (map (\<lambda>v. case v of JNull \<Rightarrow> Some [] | JArr vs \<Rightarrow> those (map f vs) | _ \<Rightarrow> None)
          (map snd (filter (\<lambda>kv. equal_fold (fst kv) name) kvs))))"

definition wire_texts :: "gostring list" where
  "wire_texts = [''platform'', ''type'', ''title'', ''desc'', ''cover'', ''author'', ''avatar'', ''music'', ''mp3'', ''audio'', ''audioUrl'',
     ''m3u8'', ''previewUrl'', ''playAddr'', ''shareId'', ''sourceUrl'']"

definition wire_decode :: "gostring \<Rightarrow> wire_data option" where
  "wire_decode raw =
     (case decode_members raw of
        None \<Rightarrow> None
      | Some kvs \<Rightarrow>
          (case (those (map (\<lambda>k. string_field k kvs) wire_texts), int_field ''duration'' kvs, slice_field item_decode ''downloads'' kvs,
              slice_field text_decode ''images'' kvs, slice_field text_decode ''pics'' kvs, slice_field image_decode ''imageAssets'' kvs) of
             (Some [p, ty, ti, de, co, au, av, mu, mp, ao, aurl, m3, pv, pl, sh, so], Some du, Some dl, Some im, Some pi, Some asts) \<Rightarrow>
               Some \<lparr>wd_platform = p, wd_type = ty, wd_title = ti, wd_desc = de, wd_cover = co, wd_author = au, wd_avatar = av,
                 wd_music = mu, wd_mp3 = mp, wd_audio = ao, wd_audio_url = aurl, wd_duration = du, wd_downloads = dl,
                 wd_images = im, wd_pics = pi, wd_m3u8 = m3, wd_preview = pv, wd_play = pl, wd_share = sh, wd_source = so, wd_assets = asts\<rparr>
           | _ \<Rightarrow> None))"

section \<open>Submitting and polling\<close>

record task_meta =
  tm_request :: gostring
  tm_client :: gostring

record parse_task_view =
  tw_id :: gostring
  tw_status :: gostring
  tw_progress :: int
  tw_poll :: gostring
  tw_request :: gostring
  tw_result :: "wire_data option"

record 's async_store =
  as_create :: "create_request \<Rightarrow> 's \<Rightarrow> (task_error + task) \<times> 's"
  as_get :: "gostring \<Rightarrow> 's \<Rightarrow> task_error + task option"

record 's async_tasks =
  at_store :: "'s async_store option"
  at_poll :: gostring

datatype tasks_error = TasksParse parse_error | TasksStore task_error

definition new_async_tasks :: "'s async_store option \<Rightarrow> gostring \<Rightarrow> 's async_tasks" where
  "new_async_tasks store base =
     (let poll = trim_slashes (trim_space base) in
      \<lparr>at_store = store, at_poll = (if poll = [] then ''/api/parse/task'' else poll)\<rparr>)"

definition status_string :: "status \<Rightarrow> gostring" where
  "status_string s = (case s of Pending \<Rightarrow> ''pending'' | Running \<Rightarrow> ''running'' | Completed \<Rightarrow> ''completed'' | Failed \<Rightarrow> ''failed''
     | Expired \<Rightarrow> ''expired'' | Queued \<Rightarrow> ''queued'' | OtherStatus x \<Rightarrow> x)"

definition task_view_of :: "'s async_tasks \<Rightarrow> snapshot \<Rightarrow> parse_task_view" where
  "task_view_of tasks sn =
     \<lparr>tw_id = sn_task_id sn, tw_status = status_string (normalize_status (sn_status sn)), tw_progress = sn_progress sn,
      tw_poll = at_poll tasks @ ''/'' @ sn_task_id sn,
      tw_request = (if sn_request_id sn = [] then sn_task_id sn else sn_request_id sn),
      tw_result = (if normalize_status (sn_status sn) = Completed \<and> sn_result sn \<noteq> [] then wire_decode (sn_result sn) else None)\<rparr>"

definition submit_task :: "'s async_tasks \<Rightarrow> gostring option \<Rightarrow> request \<Rightarrow> task_meta \<Rightarrow> 's \<Rightarrow> (tasks_error + parse_task_view) \<times> 's" where
  "submit_task tasks entropy request meta s =
     (case at_store tasks of
        None \<Rightarrow> (Inl (TasksParse (new_error ErrorInternal StageStore [] True)), s)
      | Some store \<Rightarrow>
          (case generate_id entropy of
             None \<Rightarrow> (Inl (TasksStore task_error.EntropyUnavailable), s)
           | Some i \<Rightarrow>
               let rid = (if trim_space (tm_request meta) = [] then i else trim_space (tm_request meta)) in
               (case as_create store \<lparr>cr_id = i, cr_type = ''parse'', cr_payload = json_print (request_json request), cr_request_id = rid,
                   cr_client_id = trim_space (tm_client meta), cr_max_attempts = 0\<rparr> s of
                  (Inl e, s') \<Rightarrow> (Inl (TasksStore e), s')
                | (Inr t, s') \<Rightarrow> (Inr (task_view_of tasks (snapshot_of t)), s'))))"

definition get_task :: "'s async_tasks \<Rightarrow> gostring \<Rightarrow> 's \<Rightarrow> tasks_error + parse_task_view option" where
  "get_task tasks i s =
     (case at_store tasks of
        None \<Rightarrow> Inl (TasksParse (new_error ErrorInternal StageStore [] True))
      | Some store \<Rightarrow>
          (case as_get store (trim_space i) s of
             Inl e \<Rightarrow> Inl (TasksStore e)
           | Inr None \<Rightarrow> Inr None
           | Inr (Some t) \<Rightarrow> Inr (Some (task_view_of tasks (snapshot_of t)))))"

definition memory_async :: "gotime \<Rightarrow> memory_store async_store" where
  "memory_async clk = \<lparr>as_create = ms_create clk, as_get = (\<lambda>i s. Inr (ms_get i s))\<rparr>"

section \<open>Executing\<close>

datatype execute_error = ExecutorUnavailable | BadPayload parse_error | ParseFailed parse_fail

definition execute_task :: "(request \<Rightarrow> 'w \<Rightarrow> (parse_fail + parse_output) \<times> 'w) option \<Rightarrow> task \<Rightarrow> 'w \<Rightarrow> (execute_error + gostring) \<times> 'w" where
  "execute_task parser item w =
     (case parser of
        None \<Rightarrow> (Inl ExecutorUnavailable, w)
      | Some run \<Rightarrow>
          (case request_decode (t_payload item) of
             None \<Rightarrow> (Inl (BadPayload (new_error ErrorInvalidInput StageInput [] False)), w)
           | Some request \<Rightarrow>
               (case run request w of
                  (Inl e, w') \<Rightarrow> (Inl (ParseFailed e), w')
                | (Inr out, w') \<Rightarrow> (Inr (json_print (JObj (wire_members (wire_of (ou_data out))))), w'))))"


section \<open>Round trips\<close>

definition clean_request :: "request \<Rightarrow> request" where
  "clean_request r = r\<lparr>rq_url := utf8_clean (rq_url r), rq_signature := utf8_clean (rq_signature r)\<rparr>"

lemma task_keys:
  "distinct (map to_lower [''URL'', ''ForceRefresh'', ''Source'', ''Timestamp'', ''Signature'', ''Version''])"
  "distinct (map to_lower (wire_texts @ [''duration'', ''downloads'', ''images'', ''pics'', ''imageAssets'']))"
  "distinct (map to_lower [''url'', ''label''])"
  by code_simp+

lemma ascii_task_keys:
  "list_all is_ascii ([''URL'', ''ForceRefresh'', ''Source'', ''Timestamp'', ''Signature'', ''Version'', ''label''] @ wire_texts @
     [''duration'', ''downloads'', ''images'', ''pics'', ''imageAssets'', ''url''])"
  by code_simp

lemma request_decode_members:
  assumes "int64 (rq_source r)" and "int64 (rq_timestamp r)" and "int64 (rq_version r)"
  shows "decode_members raw = Some (request_members r) \<Longrightarrow> request_decode raw = Some r"
proof -
  have d: "distinct (fold_keys (request_members r))" using task_keys(1) by (simp add: request_members_def del: distinct.simps)
  have "string_field ''URL'' (request_members r) = Some (rq_url r)" "string_field ''Signature'' (request_members r) = Some (rq_signature r)"
    by (rule string_field_once [OF d]; simp add: request_members_def)+
  moreover have "bool_field ''ForceRefresh'' (request_members r) = Some (rq_force r)"
    by (rule bool_field_once [OF d]) (simp add: request_members_def)
  moreover have "int_field ''Source'' (request_members r) = Some (rq_source r)" "int_field ''Timestamp'' (request_members r) = Some (rq_timestamp r)"
      "int_field ''Version'' (request_members r) = Some (rq_version r)"
    by (rule int_field_once [OF d _ assms(1)] int_field_once [OF d _ assms(2)] int_field_once [OF d _ assms(3)]; simp add: request_members_def)+
  ultimately show "decode_members raw = Some (request_members r) \<Longrightarrow> request_decode raw = Some r" by (simp add: request_decode_def)
qed

lemma request_roundtrip:
  assumes "int64 (rq_source r)" and "int64 (rq_timestamp r)" and "int64 (rq_version r)"
  shows "request_decode (json_print (request_json r)) = Some (clean_request r)"
proof (rule request_decode_members)
  have "json_clean (request_json r) = JObj (request_members (clean_request r))"
    using ascii_task_keys by (simp add: request_json_def request_members_def clean_request_def utf8_clean_ascii)
  moreover have "json_ints (request_json r)" by (auto simp: request_json_def request_members_def)
  ultimately show "decode_members (json_print (request_json r)) = Some (request_members (clean_request r))"
    using json_roundtrip by (simp add: decode_members_def)
qed (use assms in \<open>simp_all add: clean_request_def\<close>)

definition clean_item :: "gostring \<times> gostring \<Rightarrow> gostring \<times> gostring" where
  "clean_item i = (utf8_clean (fst i), utf8_clean (snd i))"

text \<open>What a client decodes of a result: the strings as a decoder reads them.\<close>
definition clean_wire :: "wire_data \<Rightarrow> wire_data" where
  "clean_wire d = \<lparr>wd_platform = utf8_clean (wd_platform d), wd_type = utf8_clean (wd_type d), wd_title = utf8_clean (wd_title d),
     wd_desc = utf8_clean (wd_desc d), wd_cover = utf8_clean (wd_cover d), wd_author = utf8_clean (wd_author d),
     wd_avatar = utf8_clean (wd_avatar d), wd_music = utf8_clean (wd_music d), wd_mp3 = utf8_clean (wd_mp3 d),
     wd_audio = utf8_clean (wd_audio d), wd_audio_url = utf8_clean (wd_audio_url d), wd_duration = wd_duration d,
     wd_downloads = map clean_item (wd_downloads d), wd_images = map utf8_clean (wd_images d), wd_pics = map utf8_clean (wd_pics d),
     wd_m3u8 = utf8_clean (wd_m3u8 d), wd_preview = utf8_clean (wd_preview d), wd_play = utf8_clean (wd_play d),
     wd_share = utf8_clean (wd_share d), wd_source = utf8_clean (wd_source d), wd_assets = map clean_image (wd_assets d)\<rparr>"

lemma item_decode_json: "item_decode (item_json i) = Some i"
proof -
  let ?kvs = "(''url'', JStr (fst i)) # omit_empty ''label'' (snd i)"
  have d: "distinct (fold_keys ?kvs)" using task_keys(3) by (simp add: fold_keys_omit)
  have "string_field ''url'' ?kvs = Some (fst i)" by (rule string_field_once [OF d]) simp
  moreover have "string_field ''label'' ?kvs = Some (snd i)"
    by (rule string_field_omit [OF d]) (use task_keys(3) in \<open>simp_all add: omit_empty_def\<close>)
  ultimately show ?thesis by (simp add: item_decode_def item_json_def)
qed

lemma slice_field_once:
  assumes "distinct (fold_keys kvs)" and "(k, JArr (map g xs)) \<in> set kvs" and "\<And>x. f (g x) = Some x"
  shows "slice_field f k kvs = Some xs"
  using field_once [OF assms(1,2)] those_Some [of xs] by (simp add: slice_field_def assms(3) comp_def)

lemma slice_field_absent: "to_lower k \<notin> set (fold_keys kvs) \<Longrightarrow> slice_field f k kvs = Some []"
  by (simp add: slice_field_def field_absent)

text \<open>The names that are always written.\<close>
definition wire_fixed :: "gostring list" where
  "wire_fixed = [''platform'', ''type'', ''title'', ''desc'', ''cover'', ''author'', ''avatar'', ''music'', ''mp3'', ''audio'', ''audioUrl'',
     ''duration'', ''downloads'', ''images'', ''pics'', ''m3u8'', ''previewUrl'', ''playAddr'']"

lemma wire_names: "distinct (map to_lower wire_fixed @ [to_lower ''shareId''] @ [to_lower ''sourceUrl''] @ [to_lower ''imageAssets''])"
  by code_simp

lemma wire_fold_keys:
  "fold_keys (wire_members d) = map to_lower wire_fixed @ (if wd_share d = [] then [] else [to_lower ''shareId'']) @
     (if wd_source d = [] then [] else [to_lower ''sourceUrl'']) @ (if wd_assets d = [] then [] else [to_lower ''imageAssets''])"
  by (simp add: wire_members_def wire_fixed_def fold_keys_omit)

lemma wire_members_keys:
  "distinct (fold_keys (wire_members d))"
  "wd_share d = [] \<Longrightarrow> to_lower ''shareId'' \<notin> set (fold_keys (wire_members d))"
  "wd_source d = [] \<Longrightarrow> to_lower ''sourceUrl'' \<notin> set (fold_keys (wire_members d))"
  "wd_assets d = [] \<Longrightarrow> to_lower ''imageAssets'' \<notin> set (fold_keys (wire_members d))"
proof -
  have g: "distinct (A @ [a] @ [b] @ [c]) \<Longrightarrow> distinct (A @ (if p then [] else [a]) @ (if q then [] else [b]) @ (if r then [] else [c])) \<and>
      (p \<longrightarrow> a \<notin> set (A @ (if p then [] else [a]) @ (if q then [] else [b]) @ (if r then [] else [c]))) \<and>
      (q \<longrightarrow> b \<notin> set (A @ (if p then [] else [a]) @ (if q then [] else [b]) @ (if r then [] else [c]))) \<and>
      (r \<longrightarrow> c \<notin> set (A @ (if p then [] else [a]) @ (if q then [] else [b]) @ (if r then [] else [c])))"
    for A :: "gostring list" and a b c p q r by (cases p; cases q; cases r) auto
  show "distinct (fold_keys (wire_members d))"
    "wd_share d = [] \<Longrightarrow> to_lower ''shareId'' \<notin> set (fold_keys (wire_members d))"
    "wd_source d = [] \<Longrightarrow> to_lower ''sourceUrl'' \<notin> set (fold_keys (wire_members d))"
    "wd_assets d = [] \<Longrightarrow> to_lower ''imageAssets'' \<notin> set (fold_keys (wire_members d))"
    unfolding wire_fold_keys using g [OF wire_names] by blast+
qed

lemma wire_optional:
  "string_field ''shareId'' (wire_members d) = Some (wd_share d)" "string_field ''sourceUrl'' (wire_members d) = Some (wd_source d)"
  by (rule string_field_omit [OF wire_members_keys(1)];
    use wire_members_keys in \<open>simp add: wire_members_def omit_empty_def\<close>)+

lemma wire_decode_members:
  assumes "int64 (wd_duration d)"
  shows "decode_members raw = Some (wire_members d) \<Longrightarrow> wire_decode raw = Some d"
proof -
  let ?m = "wire_members d"
  note k = wire_members_keys [of d]
  have s: "map (\<lambda>k. string_field k ?m) wire_texts = map Some [wd_platform d, wd_type d, wd_title d, wd_desc d, wd_cover d, wd_author d,
      wd_avatar d, wd_music d, wd_mp3 d, wd_audio d, wd_audio_url d, wd_m3u8 d, wd_preview d, wd_play d, wd_share d, wd_source d]"
    unfolding list.map list.inject wire_texts_def
    by (intro conjI refl wire_optional string_field_once [OF k(1)]; simp add: wire_members_def)
  have dl: "slice_field item_decode ''downloads'' ?m = Some (wd_downloads d)"
    by (rule slice_field_once [OF k(1), where g = item_json]) (simp_all add: wire_members_def item_decode_json)
  have im: "slice_field text_decode ''images'' ?m = Some (wd_images d)" "slice_field text_decode ''pics'' ?m = Some (wd_pics d)"
    by (rule slice_field_once [OF k(1), where g = JStr]; simp add: wire_members_def text_decode_def)+
  have asts: "slice_field image_decode ''imageAssets'' ?m = Some (wd_assets d)"
  proof (cases "wd_assets d = []")
    case True
    then show ?thesis using k(4) slice_field_absent by simp
  next
    case False
    then show ?thesis by (intro slice_field_once [OF k(1), where g = image_json]) (simp_all add: wire_members_def image_decode_json)
  qed
  have du: "int_field ''duration'' ?m = Some (wd_duration d)"
    by (rule int_field_once [OF k(1) _ assms]) (simp add: wire_members_def)
  show "decode_members raw = Some ?m \<Longrightarrow> wire_decode raw = Some d"
    by (simp only: wire_decode_def option.case s those_Some dl im asts du prod.case list.case) simp
qed

lemma clean_item_json: "json_clean (item_json i) = item_json (clean_item i)"
  using ascii_task_keys by (simp add: item_json_def clean_item_def map_clean_omit utf8_clean_ascii)

lemma wire_roundtrip:
  assumes "int64 (wd_duration d)"
  shows "wire_decode (json_print (JObj (wire_members d))) = Some (clean_wire d)"
proof (rule wire_decode_members)
  define v where "v = JObj (wire_members d)"
  have "json_clean v = JObj (wire_members (clean_wire d))"
    using ascii_task_keys by (simp add: v_def wire_members_def clean_wire_def wire_texts_def map_clean_omit utf8_clean_ascii clean_item_json clean_image_json comp_def)
  moreover have "json_ints v"
    by (auto simp: v_def wire_members_def item_json_def omit_empty_def image_json_def)
  ultimately have "json_decode (json_print v) = Some (JObj (wire_members (clean_wire d)))" using json_roundtrip by simp
  then show "decode_members (json_print (JObj (wire_members d))) = Some (wire_members (clean_wire d))"
    by (simp only: decode_members_def v_def option.case json.case)
qed (use assms in \<open>simp add: clean_wire_def\<close>)


definition wire_strings :: "wire_data \<Rightarrow> gostring list" where
  "wire_strings d = [wd_platform d, wd_type d, wd_title d, wd_desc d, wd_cover d, wd_author d, wd_avatar d, wd_music d, wd_mp3 d,
     wd_audio d, wd_audio_url d, wd_m3u8 d, wd_preview d, wd_play d, wd_share d, wd_source d] @ map fst (wd_downloads d) @
     map snd (wd_downloads d) @ wd_images d @ wd_pics d @ map im_url (wd_assets d) @ map im_live (wd_assets d)"

lemma clean_wire_valid:
  assumes "list_all valid_utf8 (wire_strings d)"
  shows "clean_wire d = d"
proof -
  have v: "x \<in> set (wire_strings d) \<Longrightarrow> utf8_clean x = x" for x using assms by (simp add: list_all_iff utf8_clean_valid)
  have "clean_item i = i" if "i \<in> set (wd_downloads d)" for i
    using that v [of "fst i"] v [of "snd i"] by (simp add: wire_strings_def clean_item_def)
  moreover have "clean_image i = i" if "i \<in> set (wd_assets d)" for i
    using that v [of "im_url i"] v [of "im_live i"] by (simp add: wire_strings_def clean_image_def)
  moreover have "utf8_clean i = i" if "i \<in> set (wd_images d) \<or> i \<in> set (wd_pics d)" for i
    using that v [of i] by (auto simp: wire_strings_def)
  ultimately have "map clean_item (wd_downloads d) = wd_downloads d" "map utf8_clean (wd_images d) = wd_images d"
      "map utf8_clean (wd_pics d) = wd_pics d" "map clean_image (wd_assets d) = wd_assets d"
    by (simp_all add: map_idI)
  then show ?thesis using assms by (simp add: clean_wire_def wire_strings_def utf8_clean_valid)
qed

section \<open>From submission to answer\<close>

lemma ms_create_new:
  assumes "ms_create clk req s = (Inr t, s')" and "s' \<noteq> s"
  shows "t_payload t = cr_payload req" and "t_request_id t = trim_space (cr_request_id req)" and "t_id t = trim_space (cr_id req)"
    and "map_of (ms_tasks s') (t_id t) = Some t" and "t_status t = Pending"
  using assms by (auto simp: ms_create_def Let_def split: if_splits)

text \<open>What no claim changes of a task.\<close>
definition same_job :: "task \<Rightarrow> task \<Rightarrow> bool" where
  "same_job t u \<longleftrightarrow> t_payload t = t_payload u \<and> t_request_id t = t_request_id u \<and> t_id t = t_id u"

lemma claim_scan_step:
  obtains (skip) "claim_scan now w d n (j # ids) s = claim_scan now w d n ids s"
  | (out) u where "claim_scan now w d n (j # ids) s = claim_scan now w d n ids (ms_put j u s)" "same_job (get_or zero_task (ms_tasks s) j) u"
  | (hit) u where "claim_scan now w d n (j # ids) s = (Some u, ms_put j u s)" "same_job (get_or zero_task (ms_tasks s) j) u"
proof -
  define t where "t = get_or zero_task (ms_tasks s) j"
  define u where "u = (if t_max_attempts t \<le> 0 then t\<lparr>t_max_attempts := n\<rparr> else t)"
  have "same_job t u" by (simp add: u_def same_job_def)
  moreover have "claim_scan now w d n (j # ids) s =
      (if t_status t \<noteq> Pending then claim_scan now w d n ids s
       else if t_next_attempt t \<noteq> zero_time \<and> t_next_attempt t > now then claim_scan now w d n ids s
       else if t_attempts u \<ge> t_max_attempts u then claim_scan now w d n ids (ms_put j (u\<lparr>t_status := Failed, t_updated := now\<rparr>) s)
       else (let v = u\<lparr>t_status := Running, t_attempts := t_attempts u + 1, t_locked_by := w, t_locked_until := now + d,
              t_started := (if t_started u = zero_time then now else t_started u), t_updated := now\<rparr> in (Some v, ms_put j v s)))"
    unfolding claim_scan.simps t_def u_def Let_def ..
  ultimately show ?thesis
    using skip out [of "u\<lparr>t_status := Failed, t_updated := now\<rparr>"]
      hit [of "u\<lparr>t_status := Running, t_attempts := t_attempts u + 1, t_locked_by := w, t_locked_until := now + d,
              t_started := (if t_started u = zero_time then now else t_started u), t_updated := now\<rparr>"]
    unfolding t_def [symmetric] Let_def by (simp add: same_job_def split: if_split_asm)
qed

lemma claim_scan_same:
  "map_of (ms_tasks s) i = Some t \<Longrightarrow> \<exists>u. map_of (ms_tasks (snd (claim_scan now w d n ids s))) i = Some u \<and> same_job t u"
proof (induction ids arbitrary: s t)
  case (Cons j ids)
  have put: "\<exists>v. map_of (ms_tasks (ms_put j u s)) i = Some v \<and> same_job t v" if "same_job (get_or zero_task (ms_tasks s) j) u" for u
    using Cons.prems that by (cases "j = i") (simp_all add: same_job_def get_or_Some)
  show ?case
  proof (cases rule: claim_scan_step [of now w d n j ids s])
    case skip
    then show ?thesis using Cons.IH [OF Cons.prems] by simp
  next
    case (out u)
    obtain v where "map_of (ms_tasks (ms_put j u s)) i = Some v" "same_job t v" using put [OF out(2)] by blast
    with Cons.IH [OF this(1)] show ?thesis unfolding out(1) by (auto simp: same_job_def)
  next
    case (hit u)
    then show ?thesis using put [OF hit(2)] by simp
  qed
qed (auto simp: same_job_def)

lemma claim_scan_running: "claim_scan now w d n ids s = (Some t, s') \<Longrightarrow> t_status t = Running \<and> t_locked_by t = w"
  by (induction ids arbitrary: s) (auto simp: Let_def split: if_splits)

lemma claim_keeps_job:
  assumes "ms_inv s" and "ms_claim_next clk w now d n s = (Some t, s')" and "map_of (ms_tasks s) (t_id t) = Some u"
  shows "same_job u t" and "map_of (ms_tasks s') (t_id t) = Some t" and "t_status t = Running" and "t_locked_by t = worker_name w"
proof -
  show m: "map_of (ms_tasks s') (t_id t) = Some t" using ms_claim_sim [OF assms(1,2)] by auto
  show "same_job u t" using claim_scan_same [OF assms(3), of "time_or clk now" "worker_name w" "lease_or_default d" "max_or_default n" "ms_order s"] assms(2) m
    by (simp add: ms_claim_next_def)
  show "t_status t = Running" "t_locked_by t = worker_name w"
    using claim_scan_running [of _ "worker_name w"] assms(2) by (auto simp: ms_claim_next_def)
qed

lemma memory_create: "as_create (memory_async clk) = ms_create clk" and memory_get: "as_get (memory_async clk) = (\<lambda>i s. Inr (ms_get i s))"
  by (simp_all add: memory_async_def)

lemma submit_new:
  assumes "submit_task (new_async_tasks (Some (memory_async clk)) base) entropy request meta s = (Inr v, s1)" and "s1 \<noteq> s" and "ms_inv s"
  obtains t where "map_of (ms_tasks s1) (tw_id v) = Some t" "t_payload t = json_print (request_json request)" "t_id t = tw_id v"
    "ms_inv s1" "trim_space (tw_id v) = tw_id v" "v = task_view_of (new_async_tasks (Some (memory_async clk)) base) (snapshot_of t)"
proof -
  let ?tasks = "new_async_tasks (Some (memory_async clk)) base"
  have st: "at_store ?tasks = Some (memory_async clk)" by (simp add: new_async_tasks_def Let_def)
  obtain i where i: "generate_id entropy = Some i" using assms(1) st by (cases "generate_id entropy") (simp_all add: submit_task_def)
  define req where "req = \<lparr>cr_id = i, cr_type = ''parse'', cr_payload = json_print (request_json request),
      cr_request_id = (if trim_space (tm_request meta) = [] then i else trim_space (tm_request meta)),
      cr_client_id = trim_space (tm_client meta), cr_max_attempts = 0\<rparr>"
  obtain r s' where rs: "ms_create clk req s = (r, s')" by fastforce
  have run: "submit_task ?tasks entropy request meta s =
      (case r of Inl e \<Rightarrow> (Inl (TasksStore e), s') | Inr t \<Rightarrow> (Inr (task_view_of ?tasks (snapshot_of t)), s'))"
    unfolding submit_task_def st i option.case Let_def memory_create req_def [symmetric] rs prod.case
    by (cases r) simp_all
  obtain t where c: "ms_create clk req s = (Inr t, s1)" "v = task_view_of ?tasks (snapshot_of t)" "cr_payload req = json_print (request_json request)"
    using assms(1) rs run by (cases r) (simp_all add: req_def)
  note new = ms_create_new [OF c(1) assms(2)]
  have v: "tw_id v = t_id t" by (simp add: c(2) task_view_of_def snapshot_of_def Let_def)
  show ?thesis
  proof (rule that [of t])
    show "map_of (ms_tasks s1) (tw_id v) = Some t" "t_id t = tw_id v" using new(4) v by simp_all
    show "t_payload t = json_print (request_json request)" using new(1) c(3) by simp
    show "ms_inv s1" by (rule ms_create_inv [OF assms(3) c(1)])
    show "trim_space (tw_id v) = tw_id v" using new(3) v by simp
  qed (rule c(2))
qed

text \<open>
  C33.  An asynchronous parse answers what a direct one would.  A submission that created a task is claimed
  by a worker, executed and completed: the worker's parser saw exactly the submitted request, the completion
  is accepted, and polling the id the client was given answers \<open>completed\<close> at 100 percent with the parser's
  data, every string as JSON carries it.
\<close>
theorem submitted_task_answered:
  assumes "ms_inv s" and "submit_task (new_async_tasks (Some (memory_async clk)) base) entropy request meta s = (Inr v, s1)" and "s1 \<noteq> s"
    and "int64 (rq_source request)" and "int64 (rq_timestamp request)" and "int64 (rq_version request)"
    and "valid_utf8 (rq_url request)" and "valid_utf8 (rq_signature request)"
    and "ms_claim_next clk2 w now d n s1 = (Some t, s2)" and "t_id t = tw_id v"
    and "execute_task (Some run) t w0 = (Inr raw, w1)"
  shows "\<exists>out s3. run request w0 = (Inr out, w1) \<and> ms_complete clk3 (tw_id v) (worker_name w) raw s2 = (None, s3) \<and>
    (int64 (cd_duration (ou_data out)) \<longrightarrow>
       get_task (new_async_tasks (Some (memory_async clk)) base) (tw_id v) s3 =
         Inr (Some (v\<lparr>tw_status := ''completed'', tw_progress := 100, tw_result := Some (clean_wire (wire_of (ou_data out)))\<rparr>)))"
proof -
  let ?tasks = "new_async_tasks (Some (memory_async clk)) base"
  obtain u where u: "map_of (ms_tasks s1) (tw_id v) = Some u" "t_payload u = json_print (request_json request)" "t_id u = tw_id v"
      "ms_inv s1" "trim_space (tw_id v) = tw_id v" "v = task_view_of ?tasks (snapshot_of u)"
    using submit_new [OF assms(2,3,1)] .
  have "map_of (ms_tasks s1) (t_id t) = Some u" using u(1) assms(10) by simp
  note k = claim_keeps_job [OF u(4) assms(9) this]
  have "clean_request request = request" using assms(7,8) by (simp add: clean_request_def utf8_clean_valid)
  then have "request_decode (t_payload t) = Some request"
    using request_roundtrip [OF assms(4-6)] k(1) u(2) by (simp add: same_job_def)
  then obtain out where out: "run request w0 = (Inr out, w1)" and raw: "raw = json_print (JObj (wire_members (wire_of (ou_data out))))"
    using assms(11) by (auto simp: execute_task_def split: prod.splits sum.splits)
  let ?done = "t\<lparr>t_status := Completed, t_result := raw, t_locked_by := [], t_locked_until := zero_time, t_finished := clk3, t_updated := clk3\<rparr>"
  obtain s3 where s3: "ms_complete clk3 (tw_id v) (worker_name w) raw s2 = (None, s3)" and
      t3: "map_of (ms_tasks s3) (tw_id v) = Some ?done"
    using k(2-4) assms(10) by (simp add: ms_complete_def ms_owned_def)
  have "raw \<noteq> []" by (simp add: raw)
  have "get_task ?tasks (tw_id v) s3 = Inr (Some (v\<lparr>tw_status := ''completed'', tw_progress := 100, tw_result := Some (clean_wire (wire_of (ou_data out)))\<rparr>))"
    if "int64 (cd_duration (ou_data out))"
  proof -
    have "wire_decode raw = Some (clean_wire (wire_of (ou_data out)))"
      using wire_roundtrip [of "wire_of (ou_data out)"] that by (simp add: raw wire_of_def)
    moreover have "at_store ?tasks = Some (memory_async clk)" by (simp add: new_async_tasks_def Let_def)
    moreover have "t_id t = t_id u" "t_request_id t = t_request_id u" using k(1) by (simp_all add: same_job_def)
    moreover have "tw_poll v = at_poll ?tasks @ ''/'' @ t_id u" "tw_request v = (if t_request_id u = [] then t_id u else t_request_id u)"
      by (subst u(6), simp add: task_view_of_def snapshot_of_def Let_def)+
    moreover have "snapshot_of ?done = \<lparr>sn_task_id = t_id t, sn_type = t_type t, sn_status = Completed, sn_progress = 100, sn_result = raw,
        sn_error = t_error t, sn_request_id = t_request_id t, sn_created = t_created t, sn_updated = clk3\<rparr>"
      by (simp add: snapshot_of_def normalize_status_def Let_def)
    moreover have "ms_get (trim_space (tw_id v)) s3 = Some ?done" using t3 u(5) by (simp add: ms_get_def)
    ultimately show ?thesis
      using u(3) \<open>raw \<noteq> []\<close>
      by (simp add: get_task_def memory_get task_view_of_def normalize_status_def status_string_def)
  qed
  then show ?thesis using out s3 by blast
qed


definition demo_out :: parse_output where
  "demo_out = plain_output \<lparr>ci_platform = ''demo'', ci_url = ''https://v.example/1'', ci_parser_version = ''1'', ci_schema = ''1'', ci_key = []\<rparr>
     (zero_result\<lparr>pr_title := (CHR 0x22 # ''a <b>''), pr_video := ''https://v.example/1.mp4''\<rparr>)"

lemma inr_pair:
  assumes "case p of (Inr v, s) \<Rightarrow> P v s | _ \<Rightarrow> False"
  obtains v s where "p = (Inr v, s)" "P v s"
  using assms by (cases p; cases "fst p") auto

lemma some_pair:
  assumes "case p of (Some v, s) \<Rightarrow> P v s | _ \<Rightarrow> False"
  obtains v s where "p = (Some v, s)" "P v s"
  using assms by (cases p; cases "fst p") auto

theorem submitted_task_answered_witness:
  "let r = \<lparr>rq_url = ''https://v.example/1'', rq_force = True, rq_source = 2, rq_timestamp = 3, rq_signature = [], rq_version = 4\<rparr>;
       tasks = new_async_tasks (Some (memory_async 100)) '' /poll/ '';
       (v, s1) = submit_task tasks (Some ''0123456789abcdef'') r \<lparr>tm_request = '' q '', tm_client = ''c''\<rparr> ms_empty;
       (t, s2) = ms_claim_next 101 '' w '' 101 (5 * second) 2 s1;
       raw = json_print (JObj (wire_members (wire_of (ou_data demo_out))));
       (e, s3) = ms_complete 102 (t_id (the t)) ''w'' raw s2
   in e = None \<and> (case get_task tasks (t_id (the t)) s3 of Inr (Some u) \<Rightarrow>
        tw_status u = ''completed'' \<and> tw_progress u = 100 \<and> map_option wd_title (tw_result u) = Some (CHR 0x22 # ''a <b>'') | _ \<Rightarrow> False)"
proof -
  let ?r = "\<lparr>rq_url = ''https://v.example/1'', rq_force = True, rq_source = 2, rq_timestamp = 3, rq_signature = [], rq_version = 4\<rparr>"
  let ?tasks = "new_async_tasks (Some (memory_async 100)) '' /poll/ ''"
  let ?meta = "\<lparr>tm_request = '' q '', tm_client = ''c''\<rparr>"
  let ?sub = "submit_task ?tasks (Some ''0123456789abcdef'') ?r ?meta ms_empty"
  let ?raw = "json_print (JObj (wire_members (wire_of (ou_data demo_out))))"
  let ?claim = "ms_claim_next 101 '' w '' 101 (5 * second) 2 (snd ?sub)"
  have a: "case ?sub of (Inr v, s1) \<Rightarrow> length (ms_tasks s1) \<noteq> length (ms_tasks ms_empty) \<and>
      (case ms_claim_next 101 '' w '' 101 (5 * second) 2 s1 of (Some t, s2) \<Rightarrow>
         t_id t = tw_id v \<and> fst (execute_task (Some (\<lambda>r u. (Inr demo_out, u))) t ()) = Inr ?raw | _ \<Rightarrow> False) | _ \<Rightarrow> False"
    by code_simp
  obtain v s1 where sub: "?sub = (Inr v, s1)" and b: "length (ms_tasks s1) \<noteq> length (ms_tasks ms_empty) \<and>
      (case ms_claim_next 101 '' w '' 101 (5 * second) 2 s1 of (Some t, s2) \<Rightarrow>
         t_id t = tw_id v \<and> fst (execute_task (Some (\<lambda>r u. (Inr demo_out, u))) t ()) = Inr ?raw | _ \<Rightarrow> False)"
    by (rule inr_pair [OF a])
  have ne: "s1 \<noteq> ms_empty" using b by metis
  obtain t s2 where cl: "ms_claim_next 101 '' w '' 101 (5 * second) 2 s1 = (Some t, s2)"
      and c: "t_id t = tw_id v \<and> fst (execute_task (Some (\<lambda>r u. (Inr demo_out, u))) t ()) = Inr ?raw"
    by (rule some_pair [OF conjunct2 [OF b]])
  have tid: "t_id t = tw_id v" and ex: "execute_task (Some (\<lambda>r u. (Inr demo_out, u))) t () = (Inr ?raw, ())"
    using c by (simp_all only: prod_eq_iff fst_conv) simp
  have w: "worker_name '' w '' = ''w''" by code_simp
  have "ms_inv ms_empty" by (simp add: ms_inv_def ms_empty_def tasks_ok_def keys_def)
  moreover have "int64 2" "int64 3" "int64 4" "int64 (cd_duration (ou_data demo_out))"
    unfolding int64_def by code_simp+
  moreover have "valid_utf8 ''https://v.example/1''" "valid_utf8 []" by code_simp+
  moreover have "wd_title (clean_wire (wire_of (ou_data demo_out))) = (CHR 0x22 # ''a <b>'')" by code_simp
  ultimately show ?thesis
    using submitted_task_answered [OF _ sub ne _ _ _ _ _ cl tid ex, of 102] sub cl tid w by auto
qed

end
