(* ===== verification/Lifecycle.thy ===== *)
theory Lifecycle imports
  Prelude
begin

text \<open>
  The life of the application (\<open>internal/app/app.go\<close>: \<open>New\<close>, \<open>Run\<close> and what it calls;
  \<open>runtime_resource.go\<close>): components are started one after the other, and stopped in reverse order when
  a start fails, a component ends or the process is cancelled.  What the channels and the context show at
  each look is the environment's choice, so that a run is a function of it; its result is the trace of what
  the application did and the joined errors.
\<close>

section \<open>Waiting\<close>

text \<open>
  \<open>lifecycleEvent\<close>: a start that was answered, a component that ended, or a cancelled process.  The last two
  carry the answer of a pending start that had already arrived.
\<close>
datatype lifecycle_event = StartCompleted "gostring option" | Terminated nat "gostring option" "gostring option option"
  | ProcessCanceled "gostring option option"

datatype lifecycle_choice = ChoseDone nat "gostring option" | ChoseStart "gostring option" | ChoseProcess

text \<open>
  What one call of \<open>waitLifecycleEvent\<close> sees, look by look: a poll finds the position of a component that
  ended and its error, the context's error is looked up, the start's answer may be there, and the blocking
  select chooses.
\<close>
record wait_view =
  wv_poll1 :: "(nat \<times> gostring option) option"
  wv_ctx1 :: bool
  wv_poll2 :: "(nat \<times> gostring option) option"
  wv_ready :: "gostring option option"
  wv_poll3 :: "(nat \<times> gostring option) option"
  wv_ctx2 :: bool
  wv_choice :: lifecycle_choice
  wv_poll4 :: "(nat \<times> gostring option) option"
  wv_ctx3 :: bool

definition poll_terminal :: "(nat \<times> gostring option) option \<Rightarrow> nat list \<Rightarrow> (nat \<times> gostring option) option" where
  "poll_terminal seen started =
     (case seen of None \<Rightarrow> None | Some (k, e) \<Rightarrow> if k < length started then Some (started ! k, e) else None)"

definition answered :: "(nat \<times> gostring option) option \<Rightarrow> bool \<Rightarrow> gostring option \<Rightarrow> lifecycle_event" where
  "answered ended canceled e =
     (case ended of
        Some (i, x) \<Rightarrow> Terminated i x (Some e)
      | None \<Rightarrow> if canceled then ProcessCanceled (Some e) else StartCompleted e)"

definition wait_event :: "wait_view \<Rightarrow> bool \<Rightarrow> nat list \<Rightarrow> lifecycle_event" where
  "wait_event v starting started =
     (let blocking =
        (case wv_choice v of
           ChoseDone k e \<Rightarrow> if k < length started then Terminated (started ! k) e None else ProcessCanceled None
         | ChoseStart e \<Rightarrow> if starting then answered (poll_terminal (wv_poll4 v) started) (wv_ctx3 v) e else ProcessCanceled None
         | ChoseProcess \<Rightarrow>
             (case poll_terminal (wv_poll4 v) started of Some (i, e) \<Rightarrow> Terminated i e None | None \<Rightarrow> ProcessCanceled None))
      in case poll_terminal (wv_poll1 v) started of
           Some (i, e) \<Rightarrow> Terminated i e None
         | None \<Rightarrow>
             if wv_ctx1 v then
               (case poll_terminal (wv_poll2 v) started of Some (i, e) \<Rightarrow> Terminated i e None | None \<Rightarrow> ProcessCanceled None)
             else
               (case (starting, wv_ready v) of
                  (True, Some e) \<Rightarrow> answered (poll_terminal (wv_poll3 v) started) (wv_ctx2 v) e
                | _ \<Rightarrow> blocking))"

section \<open>Running\<close>

text \<open>What the application does: it calls \<open>Start\<close>, receives the answer, cancels the run context, calls \<open>Stop\<close>.\<close>
datatype app_action = CallStart nat | Answer nat "gostring option" | CancelRun | CallStop nat

datatype run_error = StartFailed nat gostring | ComponentEnded nat "gostring option" | StartNotSettled nat | StopFailed nat gostring
  | BadEvent | NilApp | NilContext

text \<open>
  The environment of a run: what every wait sees (the wait for component \<open>i\<close>, and the last one), the answer
  of a start that is settled during the shutdown (None: the shutdown budget ran out first), whether that
  component has ended then, and what each \<open>Stop\<close> returns.
\<close>
record app_env =
  ae_wait :: "nat \<Rightarrow> wait_view"
  ae_settle :: "gostring option option"
  ae_settled_done :: "gostring option option"
  ae_stop :: "nat \<Rightarrow> gostring option"

definition stop_errors :: "app_env \<Rightarrow> nat list \<Rightarrow> run_error list" where
  "stop_errors env started = concat (map (\<lambda>i. case ae_stop env i of None \<Rightarrow> [] | Some e \<Rightarrow> [StopFailed i e]) (rev started))"

definition stop_components :: "app_env \<Rightarrow> nat list \<Rightarrow> app_action list \<times> run_error list" where
  "stop_components env started = (map CallStop (rev started), stop_errors env started)"

definition settle_and_stop :: "app_env \<Rightarrow> nat list \<Rightarrow> nat \<Rightarrow> gostring option option \<Rightarrow> app_action list \<times> run_error list" where
  "settle_and_stop env started i known =
     (let answer = (case known of Some e \<Rightarrow> Some e | None \<Rightarrow> ae_settle env);
          acts = (case known of Some _ \<Rightarrow> [] | None \<Rightarrow> (case ae_settle env of None \<Rightarrow> [] | Some e \<Rightarrow> [Answer i e]))
      in case answer of
           None \<Rightarrow> (acts @ fst (stop_components env started), StartNotSettled i # snd (stop_components env started))
         | Some (Some _) \<Rightarrow> (acts @ fst (stop_components env started), snd (stop_components env started))
         | Some None \<Rightarrow>
             (acts @ fst (stop_components env (started @ [i])),
              (case ae_settled_done env of None \<Rightarrow> [] | Some e \<Rightarrow> [ComponentEnded i e]) @ snd (stop_components env (started @ [i]))))"

text \<open>Answers that arrived during the wait.\<close>
definition known_answer :: "nat \<Rightarrow> gostring option option \<Rightarrow> app_action list" where
  "known_answer i known = (case known of None \<Rightarrow> [] | Some e \<Rightarrow> [Answer i e])"

fun run_components :: "app_env \<Rightarrow> nat list \<Rightarrow> nat list \<Rightarrow> app_action list \<times> run_error list" where
  "run_components env started [] =
     (case wait_event (ae_wait env (length started)) False started of
        Terminated i e _ \<Rightarrow> (CancelRun # fst (stop_components env started), ComponentEnded i e # snd (stop_components env started))
      | ProcessCanceled _ \<Rightarrow> (CancelRun # fst (stop_components env started), snd (stop_components env started))
      | StartCompleted _ \<Rightarrow> ([CancelRun], [BadEvent]))"
| "run_components env started (i # rest) =
     (case wait_event (ae_wait env i) True started of
        StartCompleted None \<Rightarrow> apfst (\<lambda>acts. CallStart i # Answer i None # acts) (run_components env (started @ [i]) rest)
      | StartCompleted (Some e) \<Rightarrow>
          (CallStart i # Answer i (Some e) # CancelRun # fst (stop_components env started), StartFailed i e # snd (stop_components env started))
      | Terminated k e known \<Rightarrow>
          (CallStart i # known_answer i known @ CancelRun # fst (settle_and_stop env started i known),
           ComponentEnded k e # snd (settle_and_stop env started i known))
      | ProcessCanceled known \<Rightarrow>
          (CallStart i # known_answer i known @ CancelRun # fst (settle_and_stop env started i known),
           snd (settle_and_stop env started i known)))"

definition default_shutdown_timeout :: duration where "default_shutdown_timeout = 20 * second"

text \<open>\<open>New\<close>: a component is given by whether it is there and whether it has a terminal channel.\<close>
datatype app_option = WithComponents "(bool \<times> bool) list" | WithShutdownTimeout duration

datatype new_app_error = NilOption | BadTimeout | NilComponent | NoTerminalChannel | BuildFailed gostring

definition apply_app_option :: "app_option option \<Rightarrow> duration \<times> (bool \<times> bool) list option \<Rightarrow> new_app_error + duration \<times> (bool \<times> bool) list option" where
  "apply_app_option opt st =
     (case opt of
        None \<Rightarrow> Inl NilOption
      | Some (WithComponents cs) \<Rightarrow> Inr (fst st, Some cs)
      | Some (WithShutdownTimeout t) \<Rightarrow> if t \<le> 0 then Inl BadTimeout else Inr (t, snd st))"

fun apply_app_options :: "app_option option list \<Rightarrow> duration \<times> (bool \<times> bool) list option \<Rightarrow> new_app_error + duration \<times> (bool \<times> bool) list option" where
  "apply_app_options [] st = Inr st"
| "apply_app_options (opt # opts) st = rbind (apply_app_option opt st) (apply_app_options opts)"

fun check_components :: "(bool \<times> bool) list \<Rightarrow> new_app_error option" where
  "check_components [] = None"
| "check_components ((present, channel) # cs) =
     (if \<not> present then Some NilComponent else if \<not> channel then Some NoTerminalChannel else check_components cs)"

definition new_app :: "new_app_error + (bool \<times> bool) list \<Rightarrow> app_option option list \<Rightarrow> new_app_error + (nat \<times> duration)" where
  "new_app build supplied =
     rbind (apply_app_options supplied (default_shutdown_timeout, None)) (\<lambda>(timeout, set).
       if timeout \<le> 0 then Inl BadTimeout
       else rbind (case set of Some cs \<Rightarrow> Inr cs | None \<Rightarrow> build) (\<lambda>cs.
         case check_components cs of Some e \<Rightarrow> Inl e | None \<Rightarrow> Inr (length cs, timeout)))"

definition app_run :: "(nat \<times> duration) option \<Rightarrow> bool \<Rightarrow> app_env \<Rightarrow> app_action list \<times> run_error list" where
  "app_run app ctx env =
     (case app of
        None \<Rightarrow> ([], [NilApp])
      | Some (n, _) \<Rightarrow> if \<not> ctx then ([], [NilContext]) else run_components env [] [0..<n])"

section \<open>Shared resources\<close>

text \<open>A closer is None when it was nil, else what \<open>Close\<close> returns.\<close>
record resource_component =
  rs_closers :: "gostring option list"
  rs_stopped :: bool
  rs_done :: "gostring option option"

definition new_resource_component :: "gostring option option list \<Rightarrow> resource_component" where
  "new_resource_component closers = \<lparr>rs_closers = map the (filter (\<lambda>c. c \<noteq> None) closers), rs_stopped = False, rs_done = None\<rparr>"

fun close_all :: "gostring option list \<Rightarrow> gostring option \<Rightarrow> gostring option" where
  "close_all [] result = result"
| "close_all (c # cs) result = close_all cs (case (c, result) of (Some e, None) \<Rightarrow> Some e | _ \<Rightarrow> result)"

text \<open>The component after it, the positions it closed in order, and the error.\<close>
definition stop_resources :: "resource_component \<Rightarrow> resource_component \<times> nat list \<times> gostring option" where
  "stop_resources c =
     (if rs_stopped c then (c, [], None)
      else let result = close_all (rev (rs_closers c)) None
           in (c\<lparr>rs_stopped := True, rs_done := Some result\<rparr>, rev [0..<length (rs_closers c)], result))"

definition close_runtime :: "gostring option option list \<Rightarrow> nat list" where
  "close_runtime closers = rev (filter (\<lambda>i. closers ! i \<noteq> None) [0..<length closers])"


section \<open>Every started component is stopped\<close>

text \<open>The components whose start was answered with nil, those that were stopped, and those that were started.\<close>
definition running :: "app_action list \<Rightarrow> nat list" where
  "running tr = concat (map (\<lambda>a. case a of Answer i None \<Rightarrow> [i] | _ \<Rightarrow> []) tr)"

definition stopped :: "app_action list \<Rightarrow> nat list" where
  "stopped tr = concat (map (\<lambda>a. case a of CallStop i \<Rightarrow> [i] | _ \<Rightarrow> []) tr)"

definition calls :: "app_action list \<Rightarrow> nat list" where
  "calls tr = concat (map (\<lambda>a. case a of CallStart i \<Rightarrow> [i] | _ \<Rightarrow> []) tr)"

lemma trace_simps [simp]:
  "running [] = []" "stopped [] = []" "calls [] = []"
  "running (x @ y) = running x @ running y" "stopped (x @ y) = stopped x @ stopped y" "calls (x @ y) = calls x @ calls y"
  "running (Answer i e # tr) = (if e = None then i # running tr else running tr)" "stopped (Answer i e # tr) = stopped tr"
  "calls (Answer i e # tr) = calls tr"
  "running (CallStart i # tr) = running tr" "stopped (CallStart i # tr) = stopped tr" "calls (CallStart i # tr) = i # calls tr"
  "running (CancelRun # tr) = running tr" "stopped (CancelRun # tr) = stopped tr" "calls (CancelRun # tr) = calls tr"
  "running (CallStop i # tr) = running tr" "stopped (CallStop i # tr) = i # stopped tr" "calls (CallStop i # tr) = calls tr"
  "running (map CallStop xs) = []" "stopped (map CallStop xs) = xs" "calls (map CallStop xs) = []"
  by (simp_all add: running_def stopped_def calls_def comp_def split: option.split)

lemma wait_idle: "wait_event v False started \<noteq> StartCompleted e"
  by (simp add: wait_event_def Let_def split: option.split prod.split lifecycle_choice.split)

text \<open>The shape of a run: starting, cancelling, at most one late answer, stopping what runs.\<close>
definition orderly :: "nat list \<Rightarrow> nat list \<Rightarrow> app_action list \<Rightarrow> bool" where
  "orderly started rest tr \<longleftrightarrow> (\<exists>pre ans. tr = pre @ CancelRun # ans @ map CallStop (rev (started @ running tr)) \<and> CancelRun \<notin> set pre \<and>
     stopped (pre @ ans) = [] \<and> calls ans = [] \<and> length ans \<le> 1 \<and>
     (\<exists>m \<le> length rest. calls tr = take m rest \<and> (running tr = take m rest \<or> (0 < m \<and> running tr = take (m - 1) rest))))"

lemma orderlyI:
  assumes "tr = pre @ CancelRun # ans @ map CallStop (rev (started @ running tr))" and "CancelRun \<notin> set pre" and "stopped (pre @ ans) = []"
    and "calls ans = []" and "length ans \<le> 1" and "m \<le> length rest" and "calls tr = take m rest"
    and "running tr = take m rest \<or> (0 < m \<and> running tr = take (m - 1) rest)"
  shows "orderly started rest tr"
  unfolding orderly_def using assms by blast

lemma settle_cases:
  obtains (timeout) "known = None" "ae_settle env = None" | (late) "known = None" "ae_settle env = Some None"
  | (failed) x where "known = None" "ae_settle env = Some (Some x)" | (started) "known = Some None"
  | (refused) x where "known = Some (Some x)"
  by (metis option.exhaust)

lemma settle_orderly:
  assumes "tr = CallStart i # known_answer i known @ CancelRun # fst (settle_and_stop env started i known)"
  shows "orderly started (i # rest) tr"
proof -
  define pre where "pre = CallStart i # known_answer i known"
  define ans where "ans = (case known of Some _ \<Rightarrow> [] | None \<Rightarrow> (case ae_settle env of None \<Rightarrow> [] | Some e \<Rightarrow> [Answer i e]))"
  have r: "running tr = running (pre @ ans)" and t: "tr = pre @ CancelRun # ans @ map CallStop (rev (started @ running (pre @ ans)))"
    unfolding assms pre_def ans_def
    by (rule settle_cases [of known env]; simp add: known_answer_def settle_and_stop_def stop_components_def Let_def)+
  have "CancelRun \<notin> set pre" "stopped (pre @ ans) = []" "calls ans = []" "length ans \<le> 1" "calls (pre @ ans) = [i]"
      "running (pre @ ans) = [i] \<or> running (pre @ ans) = []"
    by (rule settle_cases [of known env]; simp add: pre_def ans_def known_answer_def)+
  moreover have "calls tr = calls (pre @ ans)" by (subst t) simp
  ultimately show ?thesis unfolding orderly_def r using t
    by (intro exI [of _ pre] exI [of _ ans] conjI) (auto intro!: exI [of _ 1])
qed

lemma run_orderly: "orderly started rest (fst (run_components env started rest))"
proof (induction rest arbitrary: started)
  case Nil
  show ?case
  proof (cases "wait_event (ae_wait env (length started)) False started")
    case (StartCompleted e)
    then show ?thesis using wait_idle by blast
  qed (auto simp: orderly_def stop_components_def intro!: exI [of _ "[]"])
next
  case (Cons i rest)
  show ?case
  proof (cases "wait_event (ae_wait env i) True started")
    case (StartCompleted e)
    show ?thesis
    proof (cases e)
      case None
      let ?tr = "fst (run_components env (started @ [i]) rest)"
      obtain pre ans m where ih: "?tr = pre @ CancelRun # ans @ map CallStop (rev ((started @ [i]) @ running ?tr))" "CancelRun \<notin> set pre"
          "stopped (pre @ ans) = []" "calls ans = []" "length ans \<le> 1" "m \<le> length rest" "calls ?tr = take m rest"
          "running ?tr = take m rest \<or> (0 < m \<and> running ?tr = take (m - 1) rest)"
        using Cons.IH [of "started @ [i]"] unfolding orderly_def by blast
      let ?new = "fst (run_components env started (i # rest))"
      have new: "?new = CallStart i # Answer i None # ?tr" using StartCompleted None by simp
      have run: "running ?new = i # running ?tr" unfolding new by simp
      have "?new = (CallStart i # Answer i None # pre) @ CancelRun # ans @ map CallStop (rev (started @ running ?new))"
        unfolding run by (subst new, subst ih(1)) simp
      moreover have "calls ?new = take (Suc m) (i # rest)" unfolding new using ih(7) by simp
      moreover have "running ?new = take (Suc m) (i # rest) \<or> (0 < Suc m \<and> running ?new = take (Suc m - 1) (i # rest))"
        using ih(8) run by (cases m) auto
      ultimately show ?thesis unfolding orderly_def using ih(2-6)
        by (intro exI [of _ "CallStart i # Answer i None # pre"] exI [of _ ans] conjI) (auto intro!: exI [of _ "Suc m"])
    next
      case (Some x)
      let ?tr = "CallStart i # Answer i (Some x) # CancelRun # map CallStop (rev started)"
      have "fst (run_components env started (i # rest)) = ?tr" using StartCompleted Some by (simp add: stop_components_def)
      then show ?thesis
        by (intro orderlyI [where pre = "[CallStart i, Answer i (Some x)]" and ans = "[]" and m = 1]) simp_all
    qed
  next
    case (Terminated k e known)
    then show ?thesis by (intro settle_orderly [where known = known and env = env]) simp
  next
    case (ProcessCanceled known)
    then show ?thesis by (intro settle_orderly [where known = known and env = env]) simp
  qed
qed

text \<open>
  C34.  Whatever the components, the scheduler and the process signal do, \<open>Run\<close> starts a prefix of the
  components in order, cancels their context exactly once and stops exactly the components whose start was
  answered with nil, each once and in reverse order; after the cancellation nothing is started, and of the
  components that were started only the last one can be left out, because its start failed or was never answered.
\<close>
theorem run_stops_started:
  assumes "app_run (Some (n, t)) True env = (tr, errs)"
  shows "\<exists>pre ans m. tr = pre @ CancelRun # ans @ map CallStop (rev (running tr)) \<and> CancelRun \<notin> set pre \<and>
    stopped (pre @ ans) = [] \<and> calls ans = [] \<and> length ans \<le> 1 \<and>
    m \<le> n \<and> calls tr = [0..<m] \<and> (running tr = [0..<m] \<or> (0 < m \<and> running tr = [0..<m - 1]))"
proof -
  have "orderly [] [0..<n] tr" using run_orderly [of "[]" "[0..<n]" env] assms by (simp add: app_run_def)
  then obtain pre ans m where o': "tr = pre @ CancelRun # ans @ map CallStop (rev (running tr))" "CancelRun \<notin> set pre" "stopped (pre @ ans) = []"
      "calls ans = []" "length ans \<le> 1" "m \<le> n" "calls tr = take m [0..<n]" "running tr = take m [0..<n] \<or> (0 < m \<and> running tr = take (m - 1) [0..<n])"
    unfolding orderly_def by auto
  have "take k [0..<n] = [0..<k]" if "k \<le> n" for k using that by simp
  then have "calls tr = [0..<m]" "running tr = [0..<m] \<or> (0 < m \<and> running tr = [0..<m - 1])" using o'(6-8) by simp_all
  then show ?thesis using o'(1-6) by blast
qed

lemma no_stop_errors: "stop_errors env started = [] \<Longrightarrow> \<forall>i \<in> set started. ae_stop env i = None"
  by (auto simp: stop_errors_def split: option.splits)

lemma settle_nil:
  assumes "snd (settle_and_stop env started i known) = []"
  shows "\<forall>j \<in> set started \<union> set (running (known_answer i known)) \<union> set (running (fst (settle_and_stop env started i known))). ae_stop env j = None"
proof -
  have s: "snd (stop_components env xs) = [] \<Longrightarrow> \<forall>j \<in> set xs. ae_stop env j = None" "running (fst (stop_components env xs)) = []" for xs
    using no_stop_errors [of env xs] by (simp_all add: stop_components_def)
  show ?thesis
  proof (cases rule: settle_cases [of known env])
    case timeout
    then show ?thesis using assms by (simp add: settle_and_stop_def)
  next
    case late
    then have "snd (stop_components env (started @ [i])) = []" using assms by (simp add: settle_and_stop_def)
    from s(1) [OF this] show ?thesis using late by (simp add: settle_and_stop_def known_answer_def s(2))
  next
    case (failed x)
    then have "snd (stop_components env started) = []" using assms by (simp add: settle_and_stop_def)
    from s(1) [OF this] show ?thesis using failed by (simp add: settle_and_stop_def known_answer_def s(2))
  next
    case started
    then have "snd (stop_components env (started @ [i])) = []" using assms by (simp add: settle_and_stop_def)
    from s(1) [OF this] show ?thesis using started by (simp add: settle_and_stop_def known_answer_def s(2))
  next
    case (refused x)
    then have "snd (stop_components env started) = []" using assms by (simp add: settle_and_stop_def)
    from s(1) [OF this] show ?thesis using refused by (simp add: settle_and_stop_def known_answer_def s(2))
  qed
qed

lemma run_nil:
  "run_components env started rest = (tr, []) \<Longrightarrow> started @ rest = [0..<n] \<Longrightarrow>
    (\<exists>i \<le> n. \<exists>known. wait_event (ae_wait env i) (i < n) [0..<i] = ProcessCanceled known) \<and>
    (\<forall>i \<in> set started \<union> set (running tr). ae_stop env i = None)"
proof (induction rest arbitrary: started tr)
  case Nil
  then have "started = [0..<n]" "length started = n" by auto
  moreover obtain known where w: "wait_event (ae_wait env (length started)) False started = ProcessCanceled known"
    using Nil.prems(1) wait_idle by (cases "wait_event (ae_wait env (length started)) False started") auto
  ultimately show ?case using Nil.prems(1) no_stop_errors [of env started]
    by (auto simp: stop_components_def intro!: exI [of _ n])
next
  case (Cons i rest)
  have i: "i = length started" "started = [0..<i]" "i < n"
  proof -
    have "[0..<n] ! length started = i" "length started < n" using Cons.prems(2) by (metis nth_append_length, metis length_append length_upt diff_zero less_add_Suc1 list.size(4) add_Suc_right)
    then show "i = length started" "i < n" by simp_all
    then show "started = [0..<i]" using Cons.prems(2) by (metis append_eq_conv_conj less_imp_le take_upt add_0)
  qed
  show ?case
  proof (cases "wait_event (ae_wait env i) True started")
    case (StartCompleted e)
    show ?thesis
    proof (cases e)
      case None
      obtain tr' where r: "run_components env (started @ [i]) rest = (tr', [])" and tr: "tr = CallStart i # Answer i None # tr'"
        using Cons.prems(1) StartCompleted None by (cases "run_components env (started @ [i]) rest") auto
      from Cons.IH [OF r] Cons.prems(2) show ?thesis by (auto simp: tr)
    next
      case (Some x)
      then show ?thesis using Cons.prems(1) StartCompleted by simp
    qed
  next
    case (Terminated k e known)
    then show ?thesis using Cons.prems(1) by simp
  next
    case (ProcessCanceled known)
    then have "tr = CallStart i # known_answer i known @ CancelRun # fst (settle_and_stop env started i known)" and
        e: "snd (settle_and_stop env started i known) = []" using Cons.prems(1) by simp_all
    then have "\<forall>j \<in> set started \<union> set (running tr). ae_stop env j = None"
      using settle_nil [OF e] by auto
    moreover have "wait_event (ae_wait env i) (i < n) [0..<i] = ProcessCanceled known" using ProcessCanceled i(2,3) by simp
    ultimately show ?thesis using i(3) by (meson less_imp_le)
  qed
qed

text \<open>
  \<open>Run\<close> returns nil only for an orderly shutdown: the wait of some component, or the last one, saw the
  process cancelled, and every component that had been started stopped without an error.
\<close>
theorem run_nil_canceled:
  assumes "app_run (Some (n, t)) True env = (tr, [])"
  shows "(\<exists>i \<le> n. \<exists>known. wait_event (ae_wait env i) (i < n) [0..<i] = ProcessCanceled known) \<and>
    (\<forall>i \<in> set (running tr). ae_stop env i = None)"
  using run_nil [of env "[]" "[0..<n]" tr n] assms by (simp add: app_run_def)

definition quiet_view :: "lifecycle_choice \<Rightarrow> wait_view" where
  "quiet_view c = \<lparr>wv_poll1 = None, wv_ctx1 = False, wv_poll2 = None, wv_ready = None, wv_poll3 = None, wv_ctx2 = False,
     wv_choice = c, wv_poll4 = None, wv_ctx3 = False\<rparr>"

definition demo_run_env :: app_env where
  "demo_run_env = \<lparr>ae_wait = (\<lambda>i. if i < 2 then quiet_view (ChoseStart None) else (quiet_view (ChoseDone 0 (Some ''x'')))),
     ae_settle = Some None, ae_settled_done = None, ae_stop = (\<lambda>_. None)\<rparr>"

theorem run_stops_started_witness:
  "let (tr, errs) = app_run (Some (3, 1)) True demo_run_env
   in running tr = [0, 1, 2] \<and> stopped tr = [2, 1, 0] \<and> errs = [ComponentEnded 0 (Some ''x'')] \<and>
     (\<exists>pre ans. tr = pre @ CancelRun # ans @ map CallStop (rev (running tr)) \<and> length ans \<le> 1)"
proof -
  obtain tr errs where r: "app_run (Some (3, 1)) True demo_run_env = (tr, errs)" by fastforce
  have "case app_run (Some (3, 1)) True demo_run_env of (tr, errs) \<Rightarrow>
      running tr = [0, 1, 2] \<and> stopped tr = [2, 1, 0] \<and> errs = [ComponentEnded 0 (Some ''x'')]" by code_simp
  then show ?thesis using run_stops_started [OF r] unfolding r by auto
qed

theorem run_nil_canceled_witness:
  "let (tr, errs) = app_run (Some (1, 1)) True (demo_run_env\<lparr>ae_wait := \<lambda>i. quiet_view (if i = 0 then ChoseStart None else ChoseProcess)\<rparr>)
   in tr = [CallStart 0, Answer 0 None, CancelRun, CallStop 0] \<and> errs = [] \<and>
     (\<forall>i \<in> set (running tr). ae_stop demo_run_env i = None)"
proof -
  let ?env = "demo_run_env\<lparr>ae_wait := \<lambda>i. quiet_view (if i = 0 then ChoseStart None else ChoseProcess)\<rparr>"
  have r: "app_run (Some (1, 1)) True ?env = ([CallStart 0, Answer 0 None, CancelRun, CallStop 0], [])" by code_simp
  from run_nil_canceled [OF r] show ?thesis unfolding r by (simp add: demo_run_env_def)
qed

section \<open>Closing\<close>

lemma close_all_first: "close_all cs result = (case result of Some e \<Rightarrow> Some e | None \<Rightarrow> (case filter (\<lambda>c. c \<noteq> None) cs of [] \<Rightarrow> None | c # _ \<Rightarrow> c))"
  by (induction cs result rule: close_all.induct) (auto split: option.splits list.splits)

text \<open>Stopping twice closes once.\<close>
lemma stop_resources_once: "stop_resources (fst (stop_resources c)) = (fst (stop_resources c), [], None)"
  by (simp add: stop_resources_def Let_def)

end
