(* ===== verification/Config.thy ===== *)
theory Config imports
  Download
  AdminStore
begin

text \<open>
  \<open>internal/config/config.go\<close>: the configuration read from the environment, its validation for production,
  and what of it is ever printed.  The environment is a function from names to values; parsing a MySQL
  data source name belongs to the driver, an argument that answers the database's name.
\<close>

section \<open>Data\<close>

text \<open>\<open>SensitiveValue\<close>, which only \<open>Use\<close> reveals.\<close>
datatype sensitive = Sensitive gostring

definition sensitive_value :: "sensitive \<Rightarrow> gostring" where
  "sensitive_value v = (case v of Sensitive s \<Rightarrow> s)"

definition configured :: "sensitive \<Rightarrow> bool" where
  "configured v \<longleftrightarrow> sensitive_value v \<noteq> []"

definition sensitive_string :: "sensitive \<Rightarrow> gostring" where
  "sensitive_string v = (if configured v then ''[configured]'' else ''[not-configured]'')"

definition sensitive_go_string :: "sensitive \<Rightarrow> gostring" where
  "sensitive_go_string v = ''config.SensitiveValue('' @ sensitive_string v @ '')''"

record redis_config =
  rc_addr :: gostring
  rc_username :: gostring
  rc_password :: gostring
  rc_namespace :: gostring
  rc_db :: int

record parser_config =
  pc_weibo :: gostring
  pc_xigua :: gostring
  pc_sohu :: sensitive

record runner_config =
  ru_engine :: gostring
  ru_fallback :: bool
  ru_ytdlp :: gostring
  ru_ytdlp_timeout :: duration
  ru_python :: gostring
  ru_bridge :: gostring
  ru_video_source :: gostring
  ru_music_source :: gostring
  ru_work_dir :: gostring
  ru_video_timeout :: duration
  ru_music_timeout :: duration
  ru_music_limit :: int
  ru_music_config :: sensitive

record security_config =
  sc_admin_password :: gostring
  sc_admin_secret :: gostring
  sc_wechat_id :: gostring
  sc_wechat_secret :: gostring
  sc_signature_required :: bool
  sc_signature_key :: gostring

record gate_config =
  gc_receipt :: gostring
  gc_role :: gostring
  gc_stage :: gostring
  gc_image :: gostring
  gc_run :: gostring
  gc_schema :: gostring
  gc_db :: gostring
  gc_redis :: gostring
  gc_outbox :: gostring
  gc_snapshot :: gostring
  gc_config :: gostring

record config =
  co_environment :: gostring
  co_port :: gostring
  co_mysql :: gostring
  co_redis :: redis_config
  co_parser :: parser_config
  co_runner :: runner_config
  co_workers :: int
  co_download_secret :: gostring
  co_security :: security_config
  co_baseline :: int
  co_gate :: gate_config

record data_gate_config =
  dg_environment :: gostring
  dg_mode :: gostring
  dg_mysql :: gostring
  dg_redis_addr :: gostring
  dg_namespace :: gostring
  dg_attempt :: gostring
  dg_gate :: gate_config

type_synonym getenv = "gostring \<Rightarrow> gostring"

section \<open>Readers\<close>

definition trimmed :: "getenv \<Rightarrow> gostring \<Rightarrow> gostring" where
  "trimmed env key = trim_space (env key)"

text \<open>\<open>strconv.Atoi\<close> on 64 bits.\<close>
definition atoi :: "gostring \<Rightarrow> int option" where
  "atoi s =
     (let (neg, d) = (case s of [] \<Rightarrow> (False, s) | c # r \<Rightarrow> if c = CHR ''-'' then (True, r) else if c = CHR ''+'' then (False, r) else (False, s)) in
      if d = [] \<or> \<not> list_all is_digit d then None
      else let v = (if neg then - int (dec_val d) else int (dec_val d)) in
        if - (2 ^ 63) \<le> v \<and> v < 2 ^ 63 then Some v else None)"

definition load_integer :: "getenv \<Rightarrow> gostring \<Rightarrow> int \<Rightarrow> int \<Rightarrow> int \<Rightarrow> gostring + int" where
  "load_integer env key fallback low high =
     (if trimmed env key = [] then Inr fallback
      else (case atoi (trimmed env key) of
          None \<Rightarrow> Inl (''invalid '' @ key)
        | Some v \<Rightarrow> if v < low \<or> v > high then Inl (''invalid '' @ key) else Inr v))"

definition load_boolean :: "getenv \<Rightarrow> gostring \<Rightarrow> bool \<Rightarrow> gostring + bool" where
  "load_boolean env key fallback =
     (let raw = to_lower (trimmed env key) in
      if raw = [] then Inr fallback
      else if raw \<in> set [''1'', ''true'', ''yes'', ''y'', ''on''] then Inr True
      else if raw \<in> set [''0'', ''false'', ''no'', ''n'', ''off''] then Inr False
      else Inl (''invalid '' @ key))"

definition load_environment :: "getenv \<Rightarrow> gostring + gostring" where
  "load_environment env =
     (let e = to_lower (trimmed env ''APP_ENV'') in
      if e \<in> set [''development'', ''test'', ''production''] then Inr e else Inl ''unknown APP_ENV'')"

text \<open>The secret and whether the deprecated name is warned about.\<close>
definition load_download_secret :: "getenv \<Rightarrow> gostring + gostring \<times> bool" where
  "load_download_secret env =
     (let canonical = trimmed env ''DOWNLOAD_TOKEN_SECRET''; legacy = trimmed env ''DOWNLOAD_FALLBACK_TOKEN_SECRET'' in
      if canonical \<noteq> [] \<and> legacy \<noteq> [] \<and> canonical \<noteq> legacy then Inl ''conflicting download token secret variables''
      else Inr (if canonical \<noteq> [] then canonical else legacy, legacy \<noteq> []))"

definition runner_locations :: "(gostring \<times> gostring) list" where
  "runner_locations = [(''YT_DLP_BINARY'', ''/usr/local/bin/yt-dlp''), (''UNIVERSAL_PARSER_PYTHON_BIN'', ''/usr/local/bin/python3''),
     (''UNIVERSAL_PARSER_BRIDGE_SCRIPT'', ''/app/bridges/universal/python/bridge.py''),
     (''UNIVERSAL_PARSER_VIDEODL_PATH'', ''/app/third_party/CharlesPikachu/videodl''),
     (''UNIVERSAL_PARSER_MUSICDL_PATH'', ''/app/third_party/CharlesPikachu/musicdl''),
     (''UNIVERSAL_PARSER_WORK_DIR'', ''/app/cache/universal-parser'')]"

definition line_break_chars :: gostring where "line_break_chars = [CHR 0x00, CHR 0x0D, CHR 0x0A]"

fun load_locations :: "getenv \<Rightarrow> (gostring \<times> gostring) list \<Rightarrow> gostring + gostring list" where
  "load_locations env [] = Inr []"
| "load_locations env ((key, fallback) # ls) =
     (let v = (if trimmed env key = [] then fallback else trimmed env key) in
      if contains_any v line_break_chars then Inl (''invalid '' @ key)
      else rbind (load_locations env ls) (\<lambda>vs. Inr (v # vs)))"

definition load_runner :: "getenv \<Rightarrow> gostring + runner_config" where
  "load_runner env =
     (let engine0 = to_lower (trimmed env ''PARSER_ENGINE''); engine = (if engine0 = [] then ''native'' else engine0) in
      rbind (require (engine \<in> set [''native'', ''universal'']) ''invalid PARSER_ENGINE'') (\<lambda>_.
      rbind (load_boolean env ''PARSER_FALLBACK_ENABLED'' False) (\<lambda>fallback.
      rbind (load_integer env ''YT_DLP_TIMEOUT_SECONDS'' 30 1 120) (\<lambda>yt.
      rbind (load_integer env ''UNIVERSAL_PARSER_TIMEOUT_SECONDS'' 60 1 120) (\<lambda>video.
      rbind (load_integer env ''UNIVERSAL_PARSER_MUSICDL_TIMEOUT_SECONDS'' 15 1 120) (\<lambda>music.
      rbind (load_integer env ''UNIVERSAL_PARSER_MUSICDL_ITEM_LIMIT'' 5 1 20) (\<lambda>items.
      rbind (load_locations env runner_locations) (\<lambda>vs.
        Inr \<lparr>ru_engine = engine, ru_fallback = fallback, ru_ytdlp = vs ! 0, ru_ytdlp_timeout = yt * second, ru_python = vs ! 1,
          ru_bridge = vs ! 2, ru_video_source = vs ! 3, ru_music_source = vs ! 4, ru_work_dir = vs ! 5,
          ru_video_timeout = video * second, ru_music_timeout = music * second, ru_music_limit = items,
          ru_music_config = Sensitive []\<rparr>))))))))"

section \<open>The music configuration\<close>

definition plain_key :: "gostring \<Rightarrow> gostring" where
  "plain_key k = map lower_char (filter is_alnum k)"

definition unsafe_keys :: "gostring list" where
  "unsafe_keys = [''proxy'', ''proxies'', ''httpproxy'', ''httpsproxy'', ''allproxy'', ''noproxy'', ''header'', ''headers'', ''cookie'',
     ''cookies'', ''authorization'', ''origin'', ''referer'', ''session'', ''verify'', ''stream'', ''redirect'', ''redirects'',
     ''allowredirect'', ''allowredirects'']"

definition unsafe_music_key :: "gostring \<Rightarrow> bool" where
  "unsafe_music_key k \<longleftrightarrow> (contains (plain_key k) ''request'' \<and> contains (plain_key k) ''override'') \<or> plain_key k \<in> set unsafe_keys"

text \<open>Of several members with one name the decoded map holds the last.\<close>
fun unsafe_music :: "json \<Rightarrow> bool" and unsafe_members :: "(gostring \<times> json) list \<Rightarrow> bool" and unsafe_items :: "json list \<Rightarrow> bool" where
  "unsafe_music (JObj kvs) = unsafe_members kvs"
| "unsafe_music (JArr vs) = unsafe_items vs"
| "unsafe_music v = False"
| "unsafe_members [] = False"
| "unsafe_members ((k, v) # kvs) = ((\<not> list_ex (\<lambda>kv. fst kv = k) kvs \<and> (unsafe_music_key k \<or> unsafe_music v)) \<or> unsafe_members kvs)"
| "unsafe_items [] = False"
| "unsafe_items (v # vs) = (unsafe_music v \<or> unsafe_items vs)"

text \<open>
  Decoding into \<open>any\<close> makes every number a \<open>float64\<close> and refuses one that does not round to a finite value:
  from halfway between the largest float and \<open>2 ^ 1024\<close> on.  A literal is its digits times a power of ten.
\<close>
definition float64_literal :: "gostring \<Rightarrow> bool" where
  "float64_literal lit =
     (let s = (if has_prefix lit ''-'' then tl lit else lit);
          mant = takeWhile (\<lambda>c. c \<noteq> CHR ''e'' \<and> c \<noteq> CHR ''E'') s; ex = drop (length mant + 1) s;
          whole = takeWhile (\<lambda>c. c \<noteq> CHR ''.'') mant; frac = drop (length whole + 1) mant;
          m = dec_val (whole @ frac);
          e = (if has_prefix ex ''-'' then - int (dec_val (tl ex)) else if has_prefix ex ''+'' then int (dec_val (tl ex)) else int (dec_val ex))
                - int (length frac)
      in m = 0 \<or> int (length (whole @ frac)) + e \<le> 308 \<or>
         (e \<le> 308 \<and> int m * 10 ^ nat e < (2 ^ 1024 - 2 ^ 970) * 10 ^ nat (- e)))"

fun float_numbers :: "json \<Rightarrow> bool" and float_members :: "(gostring \<times> json) list \<Rightarrow> bool" and float_items :: "json list \<Rightarrow> bool" where
  "float_numbers (JNum lit) = float64_literal lit"
| "float_numbers (JObj kvs) = float_members kvs"
| "float_numbers (JArr vs) = float_items vs"
| "float_numbers v = True"
| "float_members [] = True"
| "float_members ((k, v) # kvs) = (float_numbers v \<and> float_members kvs)"
| "float_items [] = True"
| "float_items (v # vs) = (float_numbers v \<and> float_items vs)"

definition check_music :: "gostring \<Rightarrow> gostring option" where
  "check_music raw =
     (if raw = [] then None
      else (case json_decode raw of
          None \<Rightarrow> Some ''invalid UNIVERSAL_PARSER_MUSICDL_CONFIG_JSON''
        | Some v \<Rightarrow> if \<not> float_numbers v then Some ''invalid UNIVERSAL_PARSER_MUSICDL_CONFIG_JSON''
            else if unsafe_music v then Some ''unsafe musicdl config'' else None))"

section \<open>Production\<close>

definition placeholder_markers :: "gostring list" where
  "placeholder_markers = [''change-me'', ''change_me'', ''changeme'', ''example'', ''placeholder'', ''dummy'', ''invalid-for-test-only'',
     ''redacted'', ''sample'', ''admin123456'', ''password'', ''secret'']"

definition obvious_placeholder :: "gostring \<Rightarrow> bool" where
  "obvious_placeholder raw \<longleftrightarrow>
     (let v = to_lower (trim_space raw) in
      list_ex (\<lambda>m. v = m \<or> list_ex (\<lambda>sep. has_prefix v (m @ sep)) [''-'', ''_'', ''.'', '':'', ''/'']) placeholder_markers)"

definition validate_secret :: "gostring \<Rightarrow> gostring \<Rightarrow> nat \<Rightarrow> bool \<Rightarrow> gostring option" where
  "validate_secret name value0 low aes =
     (let value = trim_space value0 in
      if value = [] \<or> obvious_placeholder value then Some (''weak production secret: '' @ name)
      else if aes then (if length value \<in> set [16, 24, 32] then None else Some (''weak production secret: '' @ name))
      else if length value < low then Some (''weak production secret: '' @ name) else None)"

fun first_error :: "'e option list \<Rightarrow> 'e option" where
  "first_error [] = None"
| "first_error (Some e # es) = Some e"
| "first_error (None # es) = first_error es"

text \<open>\<open>parse_dsn\<close> is the driver's, answering the name of the database.\<close>
definition validate_dsn :: "(gostring \<Rightarrow> gostring option) \<Rightarrow> gostring \<Rightarrow> gostring option" where
  "validate_dsn parse_dsn raw =
     (if raw = [] then Some ''invalid production storage: MYSQL_DSN is required''
      else (case parse_dsn raw of
          None \<Rightarrow> Some ''invalid production storage: MYSQL_DSN''
        | Some db \<Rightarrow> if trim_space db = [] then Some ''invalid production storage: MYSQL_DSN'' else None))"

definition validate_production :: "(gostring \<Rightarrow> gostring option) \<Rightarrow> config \<Rightarrow> gostring option" where
  "validate_production parse_dsn cfg =
     (let sec = co_security cfg; red = co_redis cfg in
      if ru_engine (co_runner cfg) \<noteq> ''native'' \<or> ru_fallback (co_runner cfg)
      then Some ''guarded external parser runners are unavailable in production''
      else first_error
        ([validate_dsn parse_dsn (co_mysql cfg),
          if rc_addr red \<noteq> [] \<and> (trim_space (rc_namespace red) = [] \<or> contains_any (rc_namespace red) line_break_chars)
          then Some ''invalid production cache: REDIS_NAMESPACE is required when REDIS_ADDR is configured'' else None,
          validate_secret ''ADMIN_PASSWORD'' (sc_admin_password sec) 12 False,
          validate_secret ''ADMIN_SESSION_SECRET'' (sc_admin_secret sec) 32 False,
          validate_secret ''DOWNLOAD_TOKEN_SECRET'' (co_download_secret cfg) 32 False,
          validate_secret ''WECHAT_MINI_APP_SECRET'' (sc_wechat_secret sec) 16 False] @
         (if sc_signature_required sec then [validate_secret ''APP_CLIENT_SIGNATURE_KEY'' (sc_signature_key sec) 0 True] else []) @
         [if sc_wechat_id sec = [] \<or> obvious_placeholder (sc_wechat_id sec) then Some ''invalid production identity: WECHAT_MINI_APP_ID'' else None]))"

section \<open>Loading\<close>

definition load_gate :: "getenv \<Rightarrow> gate_config" where
  "load_gate env = \<lparr>gc_receipt = trimmed env ''GATE_RECEIPT_PATH'', gc_role = trimmed env ''GATE_ROLE'', gc_stage = trimmed env ''GATE_DATA_STAGE'',
     gc_image = trimmed env ''IMAGE_DIGEST'', gc_run = trimmed env ''DEPLOYMENT_RUN_ID'', gc_schema = trimmed env ''GATE_SCHEMA_STATE'',
     gc_db = trimmed env ''GATE_TARGET_DB_IDENTITY'', gc_redis = trimmed env ''GATE_REDIS_IDENTITY'',
     gc_outbox = trimmed env ''GATE_OUTBOX_IDENTITY'', gc_snapshot = trimmed env ''GATE_INPUT_SNAPSHOT_HASH'',
     gc_config = trimmed env ''GATE_CONFIG_HASH''\<rparr>"

text \<open>The \<open>Config\<close> literal of \<open>LoadWithOptions\<close>.\<close>
definition config_of :: "getenv \<Rightarrow> gostring \<Rightarrow> int \<Rightarrow> int \<Rightarrow> int \<Rightarrow> int \<Rightarrow> bool \<Rightarrow> runner_config \<Rightarrow> gostring \<Rightarrow> config" where
  "config_of env environment port db workers baseline signature runner secret =
     \<lparr>co_environment = environment, co_port = itoa port, co_mysql = trimmed env ''MYSQL_DSN'',
        co_redis = \<lparr>rc_addr = trimmed env ''REDIS_ADDR'', rc_username = trimmed env ''REDIS_USERNAME'',
          rc_password = trimmed env ''REDIS_PASSWORD'', rc_namespace = trimmed env ''REDIS_NAMESPACE'', rc_db = db\<rparr>,
        co_parser = \<lparr>pc_weibo = trimmed env ''WEIBO_COOKIE'', pc_xigua = trimmed env ''XIGUA_COOKIE'',
          pc_sohu = Sensitive (trimmed env ''SOHU_API_KEY'')\<rparr>,
        co_runner = runner\<lparr>ru_music_config := Sensitive (trimmed env ''UNIVERSAL_PARSER_MUSICDL_CONFIG_JSON'')\<rparr>,
        co_workers = workers, co_download_secret = secret,
        co_security = \<lparr>sc_admin_password = trimmed env ''ADMIN_PASSWORD'', sc_admin_secret = trimmed env ''ADMIN_SESSION_SECRET'',
          sc_wechat_id = trimmed env ''WECHAT_MINI_APP_ID'', sc_wechat_secret = trimmed env ''WECHAT_MINI_APP_SECRET'',
          sc_signature_required = signature, sc_signature_key = trimmed env ''APP_CLIENT_SIGNATURE_KEY''\<rparr>,
        co_baseline = baseline, co_gate = load_gate env\<rparr>"

definition load_config :: "(gostring \<Rightarrow> gostring option) \<Rightarrow> getenv \<Rightarrow> gostring + config" where
  "load_config parse_dsn env =
     rbind (load_environment env) (\<lambda>environment.
     rbind (load_integer env ''PORT'' 5001 1 65535) (\<lambda>port.
     rbind (load_integer env ''REDIS_DB'' 0 0 15) (\<lambda>db.
     rbind (load_integer env ''TASK_WORKER_CONCURRENCY'' 3 1 64) (\<lambda>workers.
     rbind (load_integer env ''BASELINE_CONCURRENCY'' 3 1 64) (\<lambda>baseline.
     rbind (load_boolean env ''APP_CLIENT_SIGNATURE_REQUIRED'' False) (\<lambda>signature.
     rbind (load_runner env) (\<lambda>runner.
     rbind (case check_music (trimmed env ''UNIVERSAL_PARSER_MUSICDL_CONFIG_JSON'') of Some e \<Rightarrow> Inl e | None \<Rightarrow> Inr ()) (\<lambda>_.
     rbind (load_download_secret env) (\<lambda>(secret, _).
       let cfg = config_of env environment port db workers baseline signature runner secret
       in if environment = ''production'' then (case validate_production parse_dsn cfg of Some e \<Rightarrow> Inl e | None \<Rightarrow> Inr cfg)
          else Inr cfg)))))))))"

definition load_data_gate :: "getenv \<Rightarrow> gostring + data_gate_config" where
  "load_data_gate env =
     rbind (load_environment env) (\<lambda>environment.
       let mode0 = to_lower (trimmed env ''GATE_MODE''); mode = (if mode0 = [] then ''apply'' else mode0);
           cfg = \<lparr>dg_environment = environment, dg_mode = mode, dg_mysql = trimmed env ''MYSQL_DSN'',
             dg_redis_addr = trimmed env ''REDIS_ADDR'', dg_namespace = trimmed env ''REDIS_NAMESPACE'',
             dg_attempt = trimmed env ''GATE_ATTEMPT_ID'', dg_gate = load_gate env\<rparr>
       in rbind (require (mode \<in> set [''apply'', ''revalidate'']) ''unknown GATE_MODE'') (\<lambda>_.
          rbind (require (\<not> (environment = ''production'' \<and> dg_mysql cfg = [])) ''MYSQL_DSN is required for data gate'') (\<lambda>_.
          rbind (require (gc_receipt (dg_gate cfg) \<noteq> []) ''GATE_RECEIPT_PATH is required for data gate'') (\<lambda>_. Inr cfg))))"

section \<open>What is printed\<close>

record summary =
  su_environment :: gostring
  su_port :: gostring
  su_flags :: "(gostring \<times> bool) list"
  su_signature_required :: bool
  su_signature_key :: bool
  su_engine :: gostring
  su_fallback :: bool

text \<open>\<open>Summary\<close>; the flags in the order of its fields.\<close>
definition config_summary :: "config \<Rightarrow> summary" where
  "config_summary cfg =
     \<lparr>su_environment = co_environment cfg, su_port = co_port cfg,
      su_flags = [(''MySQLConfigured'', co_mysql cfg \<noteq> []), (''RedisConfigured'', rc_addr (co_redis cfg) \<noteq> []),
        (''WeiboCookieConfigured'', pc_weibo (co_parser cfg) \<noteq> []), (''XiguaCookieConfigured'', pc_xigua (co_parser cfg) \<noteq> []),
        (''SohuTokenConfigured'', configured (pc_sohu (co_parser cfg))),
        (''MusicConfigConfigured'', configured (ru_music_config (co_runner cfg))),
        (''DownloadTokenConfigured'', co_download_secret cfg \<noteq> []),
        (''AdminPasswordConfigured'', sc_admin_password (co_security cfg) \<noteq> []),
        (''AdminSessionConfigured'', sc_admin_secret (co_security cfg) \<noteq> []),
        (''WechatMiniAppIDConfigured'', sc_wechat_id (co_security cfg) \<noteq> []),
        (''WechatMiniAppSecretConfigured'', sc_wechat_secret (co_security cfg) \<noteq> [])],
      su_signature_required = sc_signature_required (co_security cfg),
      su_signature_key = (sc_signature_key (co_security cfg) \<noteq> []),
      su_engine = ru_engine (co_runner cfg), su_fallback = ru_fallback (co_runner cfg)\<rparr>"

definition bool_text :: "bool \<Rightarrow> gostring" where
  "bool_text b = (if b then ''true'' else ''false'')"

text \<open>\<open>String\<close>: the verb \<open>%+v\<close> of the summary.\<close>
definition config_string :: "config \<Rightarrow> gostring" where
  "config_string cfg =
     (let s = config_summary cfg in
      ''config.Config{'' @ join '' '' ([''Environment:'' @ su_environment s, ''HTTPPort:'' @ su_port s] @
        map (\<lambda>(n, b). n @ '':'' @ bool_text b) (su_flags s) @
        [''ClientSignatureRequired:'' @ bool_text (su_signature_required s), ''ClientSignatureKeyConfigured:'' @ bool_text (su_signature_key s),
         ''RunnerEngine:'' @ su_engine s, ''RunnerFallbackEnabled:'' @ bool_text (su_fallback s)]) @ ''}'')"


section \<open>What loading guarantees\<close>

lemma load_integer_bounds: "load_integer env key fallback low high = Inr v \<Longrightarrow> low \<le> fallback \<Longrightarrow> fallback \<le> high \<Longrightarrow> low \<le> v \<and> v \<le> high"
  by (auto simp: load_integer_def split: if_splits option.splits)

lemma load_config_Inr:
  assumes "load_config parse_dsn env = Inr cfg"
  obtains port db workers baseline signature runner warn where
    "load_environment env = Inr (co_environment cfg)" "load_integer env ''PORT'' 5001 1 65535 = Inr port" "co_port cfg = itoa port"
    "load_integer env ''REDIS_DB'' 0 0 15 = Inr (rc_db (co_redis cfg))"
    "load_integer env ''TASK_WORKER_CONCURRENCY'' 3 1 64 = Inr (co_workers cfg)"
    "load_integer env ''BASELINE_CONCURRENCY'' 3 1 64 = Inr (co_baseline cfg)"
    "load_boolean env ''APP_CLIENT_SIGNATURE_REQUIRED'' False = Inr (sc_signature_required (co_security cfg))"
    "load_runner env = Inr runner" "co_runner cfg = runner\<lparr>ru_music_config := Sensitive (trimmed env ''UNIVERSAL_PARSER_MUSICDL_CONFIG_JSON'')\<rparr>"
    "load_download_secret env = Inr (co_download_secret cfg, warn)"
    "co_mysql cfg = trimmed env ''MYSQL_DSN''" "rc_addr (co_redis cfg) = trimmed env ''REDIS_ADDR''"
    "pc_weibo (co_parser cfg) = trimmed env ''WEIBO_COOKIE''" "pc_xigua (co_parser cfg) = trimmed env ''XIGUA_COOKIE''"
    "pc_sohu (co_parser cfg) = Sensitive (trimmed env ''SOHU_API_KEY'')"
    "sc_admin_password (co_security cfg) = trimmed env ''ADMIN_PASSWORD''" "sc_admin_secret (co_security cfg) = trimmed env ''ADMIN_SESSION_SECRET''"
    "sc_wechat_id (co_security cfg) = trimmed env ''WECHAT_MINI_APP_ID''" "sc_wechat_secret (co_security cfg) = trimmed env ''WECHAT_MINI_APP_SECRET''"
    "sc_signature_key (co_security cfg) = trimmed env ''APP_CLIENT_SIGNATURE_KEY''"
    "co_environment cfg = ''production'' \<Longrightarrow> validate_production parse_dsn cfg = None"
proof -
  obtain environment port db workers baseline signature runner u p where
      r: "load_environment env = Inr environment" "load_integer env ''PORT'' 5001 1 65535 = Inr port" "load_integer env ''REDIS_DB'' 0 0 15 = Inr db"
      "load_integer env ''TASK_WORKER_CONCURRENCY'' 3 1 64 = Inr workers" "load_integer env ''BASELINE_CONCURRENCY'' 3 1 64 = Inr baseline"
      "load_boolean env ''APP_CLIENT_SIGNATURE_REQUIRED'' False = Inr signature" "load_runner env = Inr runner"
      "(case check_music (trimmed env ''UNIVERSAL_PARSER_MUSICDL_CONFIG_JSON'') of None \<Rightarrow> Inr () | Some e \<Rightarrow> Inl e) = Inr u"
      "load_download_secret env = Inr p"
      and c: "(case p of (secret, _) \<Rightarrow> (let cfg = config_of env environment port db workers baseline signature runner secret
       in if environment = ''production'' then (case validate_production parse_dsn cfg of None \<Rightarrow> Inr cfg | Some e \<Rightarrow> Inl e) else Inr cfg)) = Inr cfg"
    using assms unfolding load_config_def go_errors by (elim exE conjE)
  obtain secret warn where p: "p = (secret, warn)" by fastforce
  have cfg: "cfg = config_of env environment port db workers baseline signature runner secret"
      and v: "environment = ''production'' \<Longrightarrow> validate_production parse_dsn cfg = None"
    using c by (auto simp: p Let_def split: if_splits option.splits)
  show thesis
    by (rule that [of port runner warn]; use r p v in \<open>simp add: cfg config_of_def\<close>)
qed

text \<open>
  Every number a loaded configuration holds is within its documented range, whatever the environment
  says: the port, the Redis database, the concurrencies, the time limits of the helpers and the item limit.
\<close>
theorem config_bounds:
  assumes "load_config parse_dsn env = Inr cfg"
  shows "(\<exists>port. co_port cfg = itoa port \<and> 1 \<le> port \<and> port \<le> 65535) \<and> 0 \<le> rc_db (co_redis cfg) \<and> rc_db (co_redis cfg) \<le> 15 \<and>
    1 \<le> co_workers cfg \<and> co_workers cfg \<le> 64 \<and> 1 \<le> co_baseline cfg \<and> co_baseline cfg \<le> 64 \<and>
    second \<le> ru_ytdlp_timeout (co_runner cfg) \<and> ru_ytdlp_timeout (co_runner cfg) \<le> 120 * second \<and>
    second \<le> ru_video_timeout (co_runner cfg) \<and> ru_video_timeout (co_runner cfg) \<le> 120 * second \<and>
    second \<le> ru_music_timeout (co_runner cfg) \<and> ru_music_timeout (co_runner cfg) \<le> 120 * second \<and>
    1 \<le> ru_music_limit (co_runner cfg) \<and> ru_music_limit (co_runner cfg) \<le> 20"
proof -
  obtain port runner where p: "load_integer env ''PORT'' 5001 1 65535 = Inr port" "co_port cfg = itoa port"
      "load_integer env ''REDIS_DB'' 0 0 15 = Inr (rc_db (co_redis cfg))" "load_integer env ''TASK_WORKER_CONCURRENCY'' 3 1 64 = Inr (co_workers cfg)"
      "load_integer env ''BASELINE_CONCURRENCY'' 3 1 64 = Inr (co_baseline cfg)" "load_runner env = Inr runner"
      "co_runner cfg = runner\<lparr>ru_music_config := Sensitive (trimmed env ''UNIVERSAL_PARSER_MUSICDL_CONFIG_JSON'')\<rparr>"
    using load_config_Inr [OF assms] by metis
  obtain yt video music where r: "load_integer env ''YT_DLP_TIMEOUT_SECONDS'' 30 1 120 = Inr yt" "load_integer env ''UNIVERSAL_PARSER_TIMEOUT_SECONDS'' 60 1 120 = Inr video"
      "load_integer env ''UNIVERSAL_PARSER_MUSICDL_TIMEOUT_SECONDS'' 15 1 120 = Inr music"
      "load_integer env ''UNIVERSAL_PARSER_MUSICDL_ITEM_LIMIT'' 5 1 20 = Inr (ru_music_limit runner)"
      "ru_ytdlp_timeout runner = yt * second" "ru_video_timeout runner = video * second" "ru_music_timeout runner = music * second"
    using p(6) by (auto simp: load_runner_def go_errors Let_def)
  have "0 < second" by (simp add: second_def)
  then have s: "1 \<le> k \<Longrightarrow> k \<le> 120 \<Longrightarrow> second \<le> k * second \<and> k * second \<le> 120 * second" for k by simp
  show ?thesis
    using load_integer_bounds [OF p(1)] load_integer_bounds [OF p(3)] load_integer_bounds [OF p(4)] load_integer_bounds [OF p(5)]
      s [of yt] s [of video] s [of music] load_integer_bounds [OF r(1)] load_integer_bounds [OF r(2)] load_integer_bounds [OF r(3)]
      load_integer_bounds [OF r(4)] p(2,7) r(5-7)
    by auto
qed

lemma first_error_None: "first_error es = None \<longleftrightarrow> (\<forall>e \<in> set es. e = None)"
  by (induction es rule: first_error.induct) auto

lemma strong_secret:
  "validate_secret name v low False = None \<Longrightarrow> low \<le> length (trim_space v) \<and> trim_space v \<noteq> [] \<and> \<not> obvious_placeholder v"
  by (auto simp: validate_secret_def obvious_placeholder_def Let_def split: if_splits)

text \<open>
  C36.  A configuration that loads in production is one the application can run on: the parsers are the native
  ones, the data source names a database, a configured Redis has its own namespace, the secrets are long enough
  and no placeholders, a required client signature has an AES key; and with it the download service and the
  administration service are built without an error.
\<close>
theorem production_config_builds:
  assumes "load_config parse_dsn env = Inr cfg" and "co_environment cfg = ''production''"
  shows "ru_engine (co_runner cfg) = ''native'' \<and> \<not> ru_fallback (co_runner cfg) \<and>
    (\<exists>db. parse_dsn (co_mysql cfg) = Some db \<and> trim_space db \<noteq> []) \<and>
    (rc_addr (co_redis cfg) \<noteq> [] \<longrightarrow> trim_space (rc_namespace (co_redis cfg)) \<noteq> []) \<and>
    12 \<le> length (trim_space (sc_admin_password (co_security cfg))) \<and> 32 \<le> length (trim_space (sc_admin_secret (co_security cfg))) \<and>
    32 \<le> length (trim_space (co_download_secret cfg)) \<and> 16 \<le> length (trim_space (sc_wechat_secret (co_security cfg))) \<and>
    \<not> obvious_placeholder (sc_admin_password (co_security cfg)) \<and> \<not> obvious_placeholder (co_download_secret cfg) \<and>
    (sc_signature_required (co_security cfg) \<longrightarrow> length (trim_space (sc_signature_key (co_security cfg))) \<in> {16, 24, 32}) \<and>
    (\<exists>dcfg st. new_download_service tmp \<lparr>dc_key = co_download_secret cfg, dc_root = root, dc_base = [], dc_ttl = 0, dc_global = 0, dc_per_client = 0\<rparr> = Inr (dcfg, st)) \<and>
    (\<exists>svc. new_runtime_admin_service ''production'' (sc_admin_password (co_security cfg)) (sc_admin_secret (co_security cfg)) store wall = Inr svc)"
proof -
  have v: "validate_production parse_dsn cfg = None"
    using load_config_Inr [OF assms(1)] assms(2) by metis
  note e = v [unfolded validate_production_def Let_def]
  have eng: "ru_engine (co_runner cfg) = ''native''" "\<not> ru_fallback (co_runner cfg)" using e by (simp_all split: if_splits)
  have all: "\<forall>x \<in> set ([validate_dsn parse_dsn (co_mysql cfg),
          if rc_addr (co_redis cfg) \<noteq> [] \<and> (trim_space (rc_namespace (co_redis cfg)) = [] \<or> contains_any (rc_namespace (co_redis cfg)) line_break_chars)
          then Some ''invalid production cache: REDIS_NAMESPACE is required when REDIS_ADDR is configured'' else None,
          validate_secret ''ADMIN_PASSWORD'' (sc_admin_password (co_security cfg)) 12 False,
          validate_secret ''ADMIN_SESSION_SECRET'' (sc_admin_secret (co_security cfg)) 32 False,
          validate_secret ''DOWNLOAD_TOKEN_SECRET'' (co_download_secret cfg) 32 False,
          validate_secret ''WECHAT_MINI_APP_SECRET'' (sc_wechat_secret (co_security cfg)) 16 False] @
         (if sc_signature_required (co_security cfg) then [validate_secret ''APP_CLIENT_SIGNATURE_KEY'' (sc_signature_key (co_security cfg)) 0 True] else []) @
         [if sc_wechat_id (co_security cfg) = [] \<or> obvious_placeholder (sc_wechat_id (co_security cfg))
          then Some ''invalid production identity: WECHAT_MINI_APP_ID'' else None]). x = None"
    using e eng by (simp only: first_error_None simp_thms if_False)
  have dsn: "\<exists>db. parse_dsn (co_mysql cfg) = Some db \<and> trim_space db \<noteq> []"
    using all by (auto simp: validate_dsn_def split: if_splits option.splits)
  have red: "rc_addr (co_redis cfg) \<noteq> [] \<longrightarrow> trim_space (rc_namespace (co_redis cfg)) \<noteq> []" using all by (auto split: if_splits)
  have sec: "validate_secret ''ADMIN_PASSWORD'' (sc_admin_password (co_security cfg)) 12 False = None"
      "validate_secret ''ADMIN_SESSION_SECRET'' (sc_admin_secret (co_security cfg)) 32 False = None"
      "validate_secret ''DOWNLOAD_TOKEN_SECRET'' (co_download_secret cfg) 32 False = None"
      "validate_secret ''WECHAT_MINI_APP_SECRET'' (sc_wechat_secret (co_security cfg)) 16 False = None"
      "sc_signature_required (co_security cfg) \<Longrightarrow> validate_secret ''APP_CLIENT_SIGNATURE_KEY'' (sc_signature_key (co_security cfg)) 0 True = None"
    using all by simp_all
  note p = strong_secret [OF sec(1)] strong_secret [OF sec(2)] strong_secret [OF sec(3)] strong_secret [OF sec(4)]
  have sig: "sc_signature_required (co_security cfg) \<longrightarrow> length (trim_space (sc_signature_key (co_security cfg))) \<in> {16, 24, 32}"
    using sec(5) by (auto simp: validate_secret_def Let_def split: if_splits)
  have "co_download_secret cfg \<noteq> []" "sc_admin_secret (co_security cfg) \<noteq> []" using p by auto
  then have dl: "\<exists>dcfg st. new_download_service tmp \<lparr>dc_key = co_download_secret cfg, dc_root = root, dc_base = [], dc_ttl = 0, dc_global = 0, dc_per_client = 0\<rparr> = Inr (dcfg, st)"
      and ad: "\<exists>svc. new_runtime_admin_service ''production'' (sc_admin_password (co_security cfg)) (sc_admin_secret (co_security cfg)) store wall = Inr svc"
    by (simp_all add: new_download_service_def new_runtime_admin_service_def new_admin_service_def new_admin_auth_def rbind_def require_def)
  show ?thesis using eng dsn red p sig dl ad by blast
qed

section \<open>Secrets are not printed\<close>

definition secret_names :: "gostring list" where
  "secret_names = [''MYSQL_DSN'', ''REDIS_ADDR'', ''REDIS_USERNAME'', ''REDIS_PASSWORD'', ''WEIBO_COOKIE'', ''XIGUA_COOKIE'', ''SOHU_API_KEY'',
     ''UNIVERSAL_PARSER_MUSICDL_CONFIG_JSON'', ''DOWNLOAD_TOKEN_SECRET'', ''DOWNLOAD_FALLBACK_TOKEN_SECRET'', ''ADMIN_PASSWORD'',
     ''ADMIN_SESSION_SECRET'', ''WECHAT_MINI_APP_ID'', ''WECHAT_MINI_APP_SECRET'', ''APP_CLIENT_SIGNATURE_KEY'']"

lemma reader_same:
  assumes "env1 k = env2 k"
  shows "load_integer env1 k = load_integer env2 k" and "load_boolean env1 k = load_boolean env2 k" and "trimmed env1 k = trimmed env2 k"
proof -
  show t: "trimmed env1 k = trimmed env2 k" by (simp only: trimmed_def assms)
  show "load_integer env1 k = load_integer env2 k" "load_boolean env1 k = load_boolean env2 k"
    by (intro ext, simp only: load_integer_def load_boolean_def t)+
qed

lemma not_secret:
  "list_all (\<lambda>k. k \<notin> set secret_names) ([''APP_ENV'', ''PORT'', ''APP_CLIENT_SIGNATURE_REQUIRED'', ''PARSER_ENGINE'', ''PARSER_FALLBACK_ENABLED''])"
  by code_simp

lemma secret_keys:
  "list_all (\<lambda>k. k \<in> set secret_names) [''MYSQL_DSN'', ''REDIS_ADDR'', ''WEIBO_COOKIE'', ''XIGUA_COOKIE'', ''SOHU_API_KEY'',
     ''UNIVERSAL_PARSER_MUSICDL_CONFIG_JSON'', ''DOWNLOAD_TOKEN_SECRET'', ''DOWNLOAD_FALLBACK_TOKEN_SECRET'', ''ADMIN_PASSWORD'',
     ''ADMIN_SESSION_SECRET'', ''WECHAT_MINI_APP_ID'', ''WECHAT_MINI_APP_SECRET'', ''APP_CLIENT_SIGNATURE_KEY'']"
  by code_simp

text \<open>
  C35.  Printing a configuration discloses no credential: two environments that differ only in the values of
  credentials (connection strings, cookies, tokens, passwords, keys), each set in both or in neither, print the
  same text.
\<close>
theorem config_text_redacted:
  assumes "load_config parse_dsn env1 = Inr c1" and "load_config parse_dsn env2 = Inr c2"
    and same: "\<forall>k. k \<notin> set secret_names \<longrightarrow> env1 k = env2 k"
    and there: "\<forall>k \<in> set secret_names. trimmed env1 k = [] \<longleftrightarrow> trimmed env2 k = []"
  shows "config_string c1 = config_string c2"
proof -
  have eq: "env1 ''APP_ENV'' = env2 ''APP_ENV''" "env1 ''PORT'' = env2 ''PORT''" "env1 ''APP_CLIENT_SIGNATURE_REQUIRED'' = env2 ''APP_CLIENT_SIGNATURE_REQUIRED''"
      "env1 ''PARSER_ENGINE'' = env2 ''PARSER_ENGINE''" "env1 ''PARSER_FALLBACK_ENABLED'' = env2 ''PARSER_FALLBACK_ENABLED''"
    using not_secret same by simp_all
  obtain port1 run1 w1 where a: "load_environment env1 = Inr (co_environment c1)" "load_integer env1 ''PORT'' 5001 1 65535 = Inr port1" "co_port c1 = itoa port1"
      "load_boolean env1 ''APP_CLIENT_SIGNATURE_REQUIRED'' False = Inr (sc_signature_required (co_security c1))"
      "load_runner env1 = Inr run1" "co_runner c1 = run1\<lparr>ru_music_config := Sensitive (trimmed env1 ''UNIVERSAL_PARSER_MUSICDL_CONFIG_JSON'')\<rparr>"
      "load_download_secret env1 = Inr (co_download_secret c1, w1)"
      "co_mysql c1 = trimmed env1 ''MYSQL_DSN''" "rc_addr (co_redis c1) = trimmed env1 ''REDIS_ADDR''"
      "pc_weibo (co_parser c1) = trimmed env1 ''WEIBO_COOKIE''" "pc_xigua (co_parser c1) = trimmed env1 ''XIGUA_COOKIE''"
      "pc_sohu (co_parser c1) = Sensitive (trimmed env1 ''SOHU_API_KEY'')"
      "sc_admin_password (co_security c1) = trimmed env1 ''ADMIN_PASSWORD''" "sc_admin_secret (co_security c1) = trimmed env1 ''ADMIN_SESSION_SECRET''"
      "sc_wechat_id (co_security c1) = trimmed env1 ''WECHAT_MINI_APP_ID''" "sc_wechat_secret (co_security c1) = trimmed env1 ''WECHAT_MINI_APP_SECRET''"
      "sc_signature_key (co_security c1) = trimmed env1 ''APP_CLIENT_SIGNATURE_KEY''"
    by (rule load_config_Inr [OF assms(1)])
  obtain port2 run2 w2 where b: "load_environment env2 = Inr (co_environment c2)" "load_integer env2 ''PORT'' 5001 1 65535 = Inr port2" "co_port c2 = itoa port2"
      "load_boolean env2 ''APP_CLIENT_SIGNATURE_REQUIRED'' False = Inr (sc_signature_required (co_security c2))"
      "load_runner env2 = Inr run2" "co_runner c2 = run2\<lparr>ru_music_config := Sensitive (trimmed env2 ''UNIVERSAL_PARSER_MUSICDL_CONFIG_JSON'')\<rparr>"
      "load_download_secret env2 = Inr (co_download_secret c2, w2)"
      "co_mysql c2 = trimmed env2 ''MYSQL_DSN''" "rc_addr (co_redis c2) = trimmed env2 ''REDIS_ADDR''"
      "pc_weibo (co_parser c2) = trimmed env2 ''WEIBO_COOKIE''" "pc_xigua (co_parser c2) = trimmed env2 ''XIGUA_COOKIE''"
      "pc_sohu (co_parser c2) = Sensitive (trimmed env2 ''SOHU_API_KEY'')"
      "sc_admin_password (co_security c2) = trimmed env2 ''ADMIN_PASSWORD''" "sc_admin_secret (co_security c2) = trimmed env2 ''ADMIN_SESSION_SECRET''"
      "sc_wechat_id (co_security c2) = trimmed env2 ''WECHAT_MINI_APP_ID''" "sc_wechat_secret (co_security c2) = trimmed env2 ''WECHAT_MINI_APP_SECRET''"
      "sc_signature_key (co_security c2) = trimmed env2 ''APP_CLIENT_SIGNATURE_KEY''"
    by (rule load_config_Inr [OF assms(2)])
  have env: "co_environment c1 = co_environment c2" using a(1) b(1) eq(1) by (simp add: load_environment_def trimmed_def Let_def split: if_splits)
  have port: "port1 = port2" using a(2) b(2) reader_same(1) [of env1 "''PORT''" env2, OF eq(2)] by simp
  have req: "sc_signature_required (co_security c1) = sc_signature_required (co_security c2)"
    using a(4) b(4) reader_same(2) [of env1 "''APP_CLIENT_SIGNATURE_REQUIRED''" env2, OF eq(3)] by simp
  have run: "ru_engine run1 = ru_engine run2" "ru_fallback run1 = ru_fallback run2"
    using a(5) b(5) reader_same(3) [of env1 "''PARSER_ENGINE''" env2, OF eq(4)]
      reader_same(2) [of env1 "''PARSER_FALLBACK_ENABLED''" env2, OF eq(5)] by (auto simp: load_runner_def go_errors Let_def)
  have k: "trimmed env1 k = [] \<longleftrightarrow> trimmed env2 k = []" if "k \<in> set secret_names" for k using there that by blast
  have ks: "trimmed env1 ''MYSQL_DSN'' = [] \<longleftrightarrow> trimmed env2 ''MYSQL_DSN'' = []" "trimmed env1 ''REDIS_ADDR'' = [] \<longleftrightarrow> trimmed env2 ''REDIS_ADDR'' = []"
      "trimmed env1 ''WEIBO_COOKIE'' = [] \<longleftrightarrow> trimmed env2 ''WEIBO_COOKIE'' = []" "trimmed env1 ''XIGUA_COOKIE'' = [] \<longleftrightarrow> trimmed env2 ''XIGUA_COOKIE'' = []"
      "trimmed env1 ''SOHU_API_KEY'' = [] \<longleftrightarrow> trimmed env2 ''SOHU_API_KEY'' = []"
      "trimmed env1 ''UNIVERSAL_PARSER_MUSICDL_CONFIG_JSON'' = [] \<longleftrightarrow> trimmed env2 ''UNIVERSAL_PARSER_MUSICDL_CONFIG_JSON'' = []"
      "trimmed env1 ''DOWNLOAD_TOKEN_SECRET'' = [] \<longleftrightarrow> trimmed env2 ''DOWNLOAD_TOKEN_SECRET'' = []"
      "trimmed env1 ''DOWNLOAD_FALLBACK_TOKEN_SECRET'' = [] \<longleftrightarrow> trimmed env2 ''DOWNLOAD_FALLBACK_TOKEN_SECRET'' = []"
      "trimmed env1 ''ADMIN_PASSWORD'' = [] \<longleftrightarrow> trimmed env2 ''ADMIN_PASSWORD'' = []"
      "trimmed env1 ''ADMIN_SESSION_SECRET'' = [] \<longleftrightarrow> trimmed env2 ''ADMIN_SESSION_SECRET'' = []"
      "trimmed env1 ''WECHAT_MINI_APP_ID'' = [] \<longleftrightarrow> trimmed env2 ''WECHAT_MINI_APP_ID'' = []"
      "trimmed env1 ''WECHAT_MINI_APP_SECRET'' = [] \<longleftrightarrow> trimmed env2 ''WECHAT_MINI_APP_SECRET'' = []"
      "trimmed env1 ''APP_CLIENT_SIGNATURE_KEY'' = [] \<longleftrightarrow> trimmed env2 ''APP_CLIENT_SIGNATURE_KEY'' = []"
    by (rule k; use secret_keys in simp)+
  have dl: "co_download_secret c1 = [] \<longleftrightarrow> co_download_secret c2 = []"
    using a(7) b(7) ks(7,8) by (auto simp: load_download_secret_def Let_def split: if_splits)
  have "config_summary c1 = config_summary c2"
    unfolding config_summary_def a(3,6,8-17) b(3,6,8-17) env port req dl configured_def
    by (simp add: ks run sensitive_value_def)
  then show ?thesis by (simp only: config_string_def)
qed


section \<open>A concrete environment\<close>

definition demo_getenv :: "gostring \<Rightarrow> getenv" where
  "demo_getenv secret k = (case map_of [(''APP_ENV'', '' Production ''), (''PORT'', ''8080''), (''MYSQL_DSN'', ''u@/db''), (''ADMIN_PASSWORD'', ''correct horse battery''),
      (''ADMIN_SESSION_SECRET'', replicate 32 (CHR ''s'')), (''DOWNLOAD_TOKEN_SECRET'', secret), (''WECHAT_MINI_APP_SECRET'', replicate 16 (CHR ''w'')),
      (''WECHAT_MINI_APP_ID'', ''wx123'')] k of None \<Rightarrow> [] | Some v \<Rightarrow> v)"

definition demo_secret1 :: gostring where "demo_secret1 = replicate 32 (CHR ''a'')"
definition demo_secret2 :: gostring where "demo_secret2 = replicate 40 (CHR ''b'')"

definition demo_runner :: runner_config where
  "demo_runner = (case load_runner (\<lambda>_. []) of Inr r \<Rightarrow> r)"

definition demo_loaded :: "gostring \<Rightarrow> config" where
  "demo_loaded secret = config_of (demo_getenv secret) ''production'' 8080 0 3 3 False demo_runner secret"

lemma demo_parts:
  "load_environment (demo_getenv demo_secret1) = Inr ''production''" "load_environment (demo_getenv demo_secret2) = Inr ''production''"
  "load_integer (demo_getenv demo_secret1) ''PORT'' 5001 1 65535 = Inr 8080" "load_integer (demo_getenv demo_secret2) ''PORT'' 5001 1 65535 = Inr 8080"
  "load_download_secret (demo_getenv demo_secret1) = Inr (demo_secret1, False)" "load_download_secret (demo_getenv demo_secret2) = Inr (demo_secret2, False)"
  by code_simp+

lemma demo_valid_secrets:
  "validate_secret ''DOWNLOAD_TOKEN_SECRET'' demo_secret1 32 False = None" "validate_secret ''DOWNLOAD_TOKEN_SECRET'' demo_secret2 32 False = None"
  "validate_secret ''ADMIN_PASSWORD'' (trimmed (demo_getenv []) ''ADMIN_PASSWORD'') 12 False = None"
  "validate_secret ''ADMIN_SESSION_SECRET'' (trimmed (demo_getenv []) ''ADMIN_SESSION_SECRET'') 32 False = None"
  "validate_secret ''WECHAT_MINI_APP_SECRET'' (trimmed (demo_getenv []) ''WECHAT_MINI_APP_SECRET'') 16 False = None"
  "trimmed (demo_getenv []) ''WECHAT_MINI_APP_ID'' \<noteq> []" "\<not> obvious_placeholder (trimmed (demo_getenv []) ''WECHAT_MINI_APP_ID'')"
  "trimmed (demo_getenv []) ''MYSQL_DSN'' \<noteq> []" "trimmed (demo_getenv []) ''REDIS_ADDR'' = []" "trim_space ''db'' \<noteq> []"
  "ru_engine demo_runner = ''native''" "\<not> ru_fallback demo_runner"
  by code_simp+

lemma demo_other: "k \<noteq> ''DOWNLOAD_TOKEN_SECRET'' \<Longrightarrow> trimmed (demo_getenv s) k = trimmed (demo_getenv []) k"
  by (simp add: trimmed_def demo_getenv_def)

lemma demo_valid:
  assumes "validate_secret ''DOWNLOAD_TOKEN_SECRET'' s 32 False = None"
  shows "validate_production (\<lambda>_. Some ''db'') (demo_loaded s) = None"
proof -
  have o': "trimmed (demo_getenv s) k = trimmed (demo_getenv []) k" if "k \<in> set [''ADMIN_PASSWORD'', ''ADMIN_SESSION_SECRET'',
      ''WECHAT_MINI_APP_SECRET'', ''WECHAT_MINI_APP_ID'', ''MYSQL_DSN'', ''REDIS_ADDR'']" for k
    by (rule demo_other) (use that in auto)
  show ?thesis
    using assms demo_valid_secrets o' by (simp add: validate_production_def demo_loaded_def config_of_def validate_dsn_def first_error_None)
qed

lemma demo_unset: "k \<notin> set [''APP_ENV'', ''PORT'', ''MYSQL_DSN'', ''ADMIN_PASSWORD'', ''ADMIN_SESSION_SECRET'', ''DOWNLOAD_TOKEN_SECRET'',
    ''WECHAT_MINI_APP_SECRET'', ''WECHAT_MINI_APP_ID''] \<Longrightarrow> demo_getenv secret k = []"
  by (simp add: demo_getenv_def)

lemma demo_defaults:
  "trimmed (demo_getenv secret) k = []" if "k \<notin> set [''APP_ENV'', ''PORT'', ''MYSQL_DSN'', ''ADMIN_PASSWORD'', ''ADMIN_SESSION_SECRET'',
     ''DOWNLOAD_TOKEN_SECRET'', ''WECHAT_MINI_APP_SECRET'', ''WECHAT_MINI_APP_ID'']"
  using demo_unset [OF that] by (simp add: trimmed_def)

lemma demo_load:
  assumes "load_environment (demo_getenv s) = Inr ''production''" and "load_integer (demo_getenv s) ''PORT'' 5001 1 65535 = Inr 8080"
    and "load_download_secret (demo_getenv s) = Inr (s, False)" and "validate_production (\<lambda>_. Some ''db'') (demo_loaded s) = None"
  shows "load_config (\<lambda>_. Some ''db'') (demo_getenv s) = Inr (demo_loaded s)"
proof -
  have d: "trimmed (demo_getenv s) k = []" if "k \<in> set [''REDIS_DB'', ''TASK_WORKER_CONCURRENCY'', ''BASELINE_CONCURRENCY'',
      ''APP_CLIENT_SIGNATURE_REQUIRED'', ''UNIVERSAL_PARSER_MUSICDL_CONFIG_JSON'']" for k
    by (rule demo_defaults) (use that in auto)
  have r: "load_integer (demo_getenv s) ''REDIS_DB'' 0 0 15 = Inr 0" "load_integer (demo_getenv s) ''TASK_WORKER_CONCURRENCY'' 3 1 64 = Inr 3"
      "load_integer (demo_getenv s) ''BASELINE_CONCURRENCY'' 3 1 64 = Inr 3" "load_boolean (demo_getenv s) ''APP_CLIENT_SIGNATURE_REQUIRED'' False = Inr False"
      "check_music (trimmed (demo_getenv s) ''UNIVERSAL_PARSER_MUSICDL_CONFIG_JSON'') = None"
    using d by (simp_all add: load_integer_def load_boolean_def check_music_def to_lower_def)
  have "load_runner (demo_getenv s) = load_runner (\<lambda>_. [])"
  proof -
    have t: "trimmed (demo_getenv s) k = trimmed (\<lambda>_. []) k" if "k \<in> set ([''PARSER_ENGINE'', ''PARSER_FALLBACK_ENABLED'', ''YT_DLP_TIMEOUT_SECONDS'',
        ''UNIVERSAL_PARSER_TIMEOUT_SECONDS'', ''UNIVERSAL_PARSER_MUSICDL_TIMEOUT_SECONDS'', ''UNIVERSAL_PARSER_MUSICDL_ITEM_LIMIT''] @ map fst runner_locations)" for k
      using demo_defaults [of k s] that by (auto simp: trimmed_def runner_locations_def)
    have "load_locations (demo_getenv s) ls = load_locations (\<lambda>_. []) ls" if "set (map fst ls) \<subseteq> set (map fst runner_locations)" for ls
      using that
    proof (induction ls)
      case (Cons a ls)
      obtain k b where a: "a = (k, b)" by fastforce
      have "trimmed (demo_getenv s) k = trimmed (\<lambda>_. []) k" by (rule t) (use Cons.prems a in auto)
      then show ?case using Cons by (simp add: a Let_def)
    qed simp
    then show ?thesis using t by (simp add: load_runner_def load_integer_def load_boolean_def)
  qed
  moreover have "load_runner (\<lambda>_. []) = Inr demo_runner"
  proof -
    have "(case load_runner (\<lambda>_. []) of Inr r \<Rightarrow> True | _ \<Rightarrow> False)" by code_simp
    then show ?thesis by (auto simp: demo_runner_def split: sum.splits)
  qed
  ultimately show ?thesis
    using assms r by (simp add: load_config_def rbind_def demo_loaded_def Let_def)
qed

lemmas demo_loads = demo_load [OF demo_parts(1,3,5) demo_valid [OF demo_valid_secrets(1)]] demo_load [OF demo_parts(2,4,6) demo_valid [OF demo_valid_secrets(2)]]

lemma demo_production: "co_environment (demo_loaded s) = ''production''"
  by (simp add: demo_loaded_def config_of_def)

theorem config_bounds_witness:
  "\<exists>cfg. load_config (\<lambda>_. Some ''db'') (demo_getenv demo_secret1) = Inr cfg \<and> 1 \<le> co_workers cfg \<and> co_workers cfg \<le> 64"
  using config_bounds [OF demo_loads(1)] demo_loads(1) by blast

theorem production_config_builds_witness:
  "\<exists>cfg dcfg st. load_config (\<lambda>_. Some ''db'') (demo_getenv demo_secret1) = Inr cfg \<and>
     new_download_service ''/tmp'' \<lparr>dc_key = co_download_secret cfg, dc_root = ''/d'', dc_base = [], dc_ttl = 0, dc_global = 0, dc_per_client = 0\<rparr> = Inr (dcfg, st)"
  using production_config_builds [OF demo_loads(1) demo_production, of "''/tmp''" "''/d''"] demo_loads(1) by blast

theorem config_text_redacted_witness:
  "config_string (demo_loaded demo_secret1) = config_string (demo_loaded demo_secret2) \<and>
   co_download_secret (demo_loaded demo_secret1) \<noteq> co_download_secret (demo_loaded demo_secret2)"
proof -
  have t: "\<forall>k \<in> set secret_names. trimmed (demo_getenv demo_secret1) k = [] \<longleftrightarrow> trimmed (demo_getenv demo_secret2) k = []"
  proof
    fix k assume "k \<in> set secret_names"
    have "trimmed (demo_getenv demo_secret1) ''DOWNLOAD_TOKEN_SECRET'' \<noteq> []" "trimmed (demo_getenv demo_secret2) ''DOWNLOAD_TOKEN_SECRET'' \<noteq> []" by code_simp+
    then show "trimmed (demo_getenv demo_secret1) k = [] \<longleftrightarrow> trimmed (demo_getenv demo_secret2) k = []"
      by (cases "k = ''DOWNLOAD_TOKEN_SECRET''") (auto simp: trimmed_def demo_getenv_def)
  qed
  have s: "\<forall>k. k \<notin> set secret_names \<longrightarrow> demo_getenv demo_secret1 k = demo_getenv demo_secret2 k"
    by (auto simp: demo_getenv_def secret_names_def)
  have ne: "co_download_secret (demo_loaded demo_secret1) \<noteq> co_download_secret (demo_loaded demo_secret2)"
    by (simp add: demo_loaded_def config_of_def demo_secret1_def demo_secret2_def)
  show ?thesis using config_text_redacted [OF demo_loads(1,2) s t] ne by simp
qed

end
