(* ===== verification/HttpParse.thy ===== *)
theory HttpParse imports
  ParseTasks
begin

text \<open>
  The parse routes (\<open>internal/httpapi\<close>: \<open>parse_handlers.go\<close>, \<open>parse_task_handlers.go\<close>, \<open>response.go\<close>).
  A handler sees what gin (third-party) read from the request: a body that bound to its type, query and path
  parameters, and headers; the services are records of their operations.
\<close>

section \<open>Requests and replies\<close>

text \<open>\<open>hq_parse\<close> is the body bound to a \<open>ParseRequest\<close>, None when \<open>ShouldBindJSON\<close> failed.\<close>
record http_request =
  hq_method :: gostring
  hq_get_header :: "gostring \<Rightarrow> gostring"
  hq_query :: "gostring \<Rightarrow> gostring"
  hq_param :: "gostring \<Rightarrow> gostring"
  hq_parse :: "request option"

datatype api_data = ApiNone | ApiParse compat_data | ApiTask parse_task_view | ApiObject "(gostring \<times> json) list"

text \<open>
  The envelope \<open>code/msg/data\<close>, the replies of the v1 routes, a file with its content type, and a bare status.
\<close>
datatype api_reply = Envelope int int gostring api_data | V1Error int gostring gostring | V1Success compat_data
  | FileReply gostring gostring gostring | BareStatus int

definition ok_reply :: "api_data \<Rightarrow> api_reply" where
  "ok_reply d = Envelope 200 0 ''ok'' d"

definition fail_reply :: "int \<Rightarrow> gostring \<Rightarrow> api_reply" where
  "fail_reply code msg = Envelope 200 code msg ApiNone"

fun first_header :: "(gostring \<Rightarrow> gostring) \<Rightarrow> gostring list \<Rightarrow> gostring" where
  "first_header get [] = []"
| "first_header get (k # ks) = (if trim_space (get k) \<noteq> [] then trim_space (get k) else first_header get ks)"

section \<open>Parsing\<close>

text \<open>\<open>pa_id\<close> is there when the service also implements \<open>ParseIDService\<close>; \<open>pa_cached\<close> is None when it fails.\<close>
record 'w parse_api =
  pa_parse :: "request \<Rightarrow> 'w \<Rightarrow> (parse_fail + parse_output) \<times> 'w"
  pa_id :: "(id_request \<Rightarrow> 'w \<Rightarrow> (parse_fail + parse_output) \<times> 'w) option"
  pa_cached :: "gostring \<Rightarrow> 'w \<Rightarrow> compat_data option option"

definition url_request :: "gostring \<Rightarrow> request" where
  "url_request u = \<lparr>rq_url = u, rq_force = False, rq_source = 0, rq_timestamp = 0, rq_signature = [], rq_version = 0\<rparr>"

definition normalize_request :: "request \<Rightarrow> request" where
  "normalize_request r = r\<lparr>rq_url := trim_space (rq_url r)\<rparr>"

definition api_parse :: "'w parse_api option \<Rightarrow> request \<Rightarrow> 'w \<Rightarrow> (parse_fail + parse_output) \<times> 'w" where
  "api_parse svc r w =
     (case svc of None \<Rightarrow> (Inl (TypedFail (new_error ErrorInternal StageParser [] True)), w) | Some s \<Rightarrow> pa_parse s r w)"

definition api_parse_id :: "'w parse_api option \<Rightarrow> id_request \<Rightarrow> 'w \<Rightarrow> (parse_fail + parse_output) \<times> 'w" where
  "api_parse_id svc r w =
     (case Option.bind svc pa_id of
        None \<Rightarrow> (Inl (TypedFail (new_error ErrorUnsupported StageInput (iq_source r) False)), w)
      | Some run \<Rightarrow> run r w)"

definition parse_error_response :: "parse_fail \<Rightarrow> int \<times> gostring" where
  "parse_error_response e =
     (case class_of (Some e) of
        ErrorInvalidInput \<Rightarrow> (1004, ''invalid url'')
      | ErrorUnsupported \<Rightarrow> (1002, ''unsupported platform'')
      | ErrorCredentialRequired \<Rightarrow> (1001, ''credential required'')
      | ErrorCanceled \<Rightarrow> (1001, ''parse timeout, please retry later'')
      | ErrorUpstreamTimeout \<Rightarrow> (1001, ''parse timeout, please retry later'')
      | _ \<Rightarrow> (1001, ''parse failed, please retry later''))"

definition v1_parse_error_code :: "parse_fail \<Rightarrow> gostring" where
  "v1_parse_error_code e =
     (case class_of (Some e) of
        ErrorInvalidInput \<Rightarrow> ''MISSING_PARAMETER''
      | ErrorUnsupported \<Rightarrow> ''UNSUPPORTED_URL''
      | _ \<Rightarrow> ''PARSE_FAILED'')"

text \<open>The reply of the envelope routes: \<open>okc\<close> is the code of success, \<open>code\<close> the one a failure is given.\<close>
definition parse_reply :: "int \<Rightarrow> (int \<Rightarrow> int) \<Rightarrow> parse_fail + parse_output \<Rightarrow> api_reply" where
  "parse_reply okc code r =
     (case r of
        Inl e \<Rightarrow> fail_reply (code (fst (parse_error_response e))) (snd (parse_error_response e))
      | Inr out \<Rightarrow> Envelope 200 okc ''ok'' (ApiParse (ou_data out)))"

definition v1_reply :: "int \<Rightarrow> parse_fail + parse_output \<Rightarrow> api_reply" where
  "v1_reply status r =
     (case r of
        Inl e \<Rightarrow> V1Error status (v1_parse_error_code e) (snd (parse_error_response e))
      | Inr out \<Rightarrow> V1Success (ou_data out))"

definition handle_parse :: "'w parse_api option \<Rightarrow> 'x http_request_scheme \<Rightarrow> 'w \<Rightarrow> api_reply \<times> 'w" where
  "handle_parse svc q w =
     (case hq_parse q of
        None \<Rightarrow> (fail_reply 1004 ''invalid parse payload'', w)
      | Some r \<Rightarrow> apfst (parse_reply 0 id) (api_parse svc r w))"

definition handle_hybrid :: "'w parse_api option \<Rightarrow> 'x http_request_scheme \<Rightarrow> 'w \<Rightarrow> api_reply \<times> 'w" where
  "handle_hybrid svc q w = apfst (parse_reply 0 id) (api_parse svc (url_request (hq_query q ''url'')) w)"

definition handle_legacy_share :: "'w parse_api option \<Rightarrow> 'x http_request_scheme \<Rightarrow> 'w \<Rightarrow> api_reply \<times> 'w" where
  "handle_legacy_share svc q w = apfst (parse_reply 200 (\<lambda>_. 201)) (api_parse svc (url_request (hq_query q ''url'')) w)"

definition handle_legacy_id :: "'w parse_api option \<Rightarrow> 'x http_request_scheme \<Rightarrow> 'w \<Rightarrow> api_reply \<times> 'w" where
  "handle_legacy_id svc q w = apfst (parse_reply 200 (\<lambda>_. 201))
     (api_parse_id svc \<lparr>iq_source = hq_query q ''source'', iq_video = hq_query q ''video_id''\<rparr> w)"

text \<open>The UTF-8 bytes of the message for a share that has expired.\<close>
definition share_expired :: gostring where
  "share_expired = map char_of [0xE5, 0x88, 0x86, 0xE4, 0xBA, 0xAB, 0xE5, 0x86, 0x85, 0xE5, 0xAE, 0xB9, 0xE5, 0xB7, 0xB2, 0xE5, 0xA4, 0xB1, 0xE6, 0x95, 0x88 :: nat]"

definition handle_parse_cache :: "'w parse_api option \<Rightarrow> 'x http_request_scheme \<Rightarrow> 'w \<Rightarrow> api_reply \<times> 'w" where
  "handle_parse_cache svc q w =
     ((case svc of
        None \<Rightarrow> fail_reply 1004 share_expired
      | Some s \<Rightarrow>
          (case pa_cached s (trim_space (hq_param q ''id'')) w of
             None \<Rightarrow> fail_reply 1001 ''parse cache unavailable''
           | Some None \<Rightarrow> fail_reply 1004 share_expired
           | Some (Some d) \<Rightarrow> ok_reply (ApiParse d))), w)"

definition handle_v1_parse :: "'w parse_api option \<Rightarrow> 'x http_request_scheme \<Rightarrow> 'w \<Rightarrow> api_reply \<times> 'w" where
  "handle_v1_parse svc q w =
     (if trim_space (hq_query q ''url'') = [] then (V1Error 400 ''MISSING_PARAMETER'' ''url parameter is required'', w)
      else apfst (v1_reply 422) (api_parse svc (url_request (hq_query q ''url'')) w))"

definition handle_v1_parse_id :: "'w parse_api option \<Rightarrow> 'x http_request_scheme \<Rightarrow> 'w \<Rightarrow> api_reply \<times> 'w" where
  "handle_v1_parse_id svc q w =
     apfst (v1_reply 400) (api_parse_id svc \<lparr>iq_source = hq_param q ''source'', iq_video = hq_param q ''video_id''\<rparr> w)"

section \<open>Parse tasks\<close>

record 'w task_api =
  ta_submit :: "request \<Rightarrow> task_meta \<Rightarrow> 'w \<Rightarrow> (tasks_error + parse_task_view) \<times> 'w"
  ta_get :: "gostring \<Rightarrow> 'w \<Rightarrow> tasks_error + parse_task_view option"

text \<open>Any error but a typed one is of the class \<open>ClassOf\<close> gives to an unknown error.\<close>
definition tasks_class :: "tasks_error \<Rightarrow> error_class" where
  "tasks_class e = (case e of TasksParse p \<Rightarrow> class_of (Some (TypedFail p)) | TasksStore _ \<Rightarrow> ErrorInternal)"

definition parse_task_error_response :: "tasks_error \<Rightarrow> int \<times> gostring" where
  "parse_task_error_response e =
     (if e = TasksStore task_error.EntropyUnavailable then (1001, ''parse task unavailable'')
      else if tasks_class e = ErrorInvalidInput then (1004, ''invalid url'')
      else (1001, ''parse task unavailable''))"

definition handle_task_submit :: "'w task_api option \<Rightarrow> 'x http_request_scheme \<Rightarrow> 'w \<Rightarrow> api_reply \<times> 'w" where
  "handle_task_submit svc q w =
     (case hq_parse q of
        None \<Rightarrow> (fail_reply 1004 ''invalid parse task payload'', w)
      | Some r \<Rightarrow>
          (case svc of
             None \<Rightarrow> (fail_reply 1001 ''parse task unavailable'', w)
           | Some s \<Rightarrow>
               (case ta_submit s r \<lparr>tm_request = first_header (hq_get_header q) [''X-Request-ID'', ''X-Request-Id''],
                   tm_client = first_header (hq_get_header q) [''X-Client-ID'', ''X-Client-Id'']\<rparr> w of
                  (Inl e, w') \<Rightarrow> (fail_reply (fst (parse_task_error_response e)) (snd (parse_task_error_response e)), w')
                | (Inr v, w') \<Rightarrow> (ok_reply (ApiTask v), w'))))"

definition handle_task_get :: "'w task_api option \<Rightarrow> 'x http_request_scheme \<Rightarrow> 'w \<Rightarrow> api_reply \<times> 'w" where
  "handle_task_get svc q w =
     ((case svc of
        None \<Rightarrow> fail_reply 1004 ''parse task not found''
      | Some s \<Rightarrow>
          (case ta_get s (trim_space (hq_param q ''id'')) w of
             Inl e \<Rightarrow> fail_reply (fst (parse_task_error_response e)) (snd (parse_task_error_response e))
           | Inr None \<Rightarrow> fail_reply 1004 ''parse task not found''
           | Inr (Some v) \<Rightarrow> ok_reply (ApiTask v))), w)"

end
