(* ===== verification/AppTransfers.thy ===== *)
theory AppTransfers imports
  Download
  NetTransport
begin

text \<open>
  The downloads of the running application (\<open>internal/app/app.go\<close>: \<open>runtimeDownloadService\<close>): creating a
  fallback task starts a transfer that fetches the media through the guard, copies it within its limit,
  and completes or fails the task.
\<close>

section \<open>Limits\<close>

definition runtime_media_types :: "media_type list" where
  "runtime_media_types = [MediaVideo, MediaAudio, MediaImage]"

fun largest_limit :: "media_type list \<Rightarrow> int \<Rightarrow> download_error + int" where
  "largest_limit [] m = (if m \<le> 0 then Inl (DownloadMsg ''download media limit must be positive'') else Inr m)"
| "largest_limit (t # ts) m = rbind (max_bytes t) (\<lambda>n. largest_limit ts (if n > m then n else m))"

definition max_runtime_bytes :: "download_error + int" where
  "max_runtime_bytes = largest_limit runtime_media_types 0"

definition runtime_download_limits :: "download_error + limits" where
  "runtime_download_limits = rbind max_runtime_bytes (\<lambda>n. Inr \<lparr>l_header = 64 * 1024, l_wire = n, l_decoded = n, l_duration = 10 * minute\<rparr>)"

section \<open>Transfers\<close>

text \<open>What the guarded fetch answers: the status, the content type and what copying its body meets.\<close>
record transfer_response =
  tr_status :: int
  tr_type :: gostring
  tr_events :: "stream_event list"

datatype transfer_error = TransferUnavailable | TransferDownload download_error | TransferFetch guard_error | TransferStatus int

type_synonym download_world = "filesystem \<times> download_state"

record transfer_env =
  te_absolute :: "gostring \<Rightarrow> gostring option"
  te_fault :: faults
  te_config :: download_config
  te_fetch :: "(fetch_request \<Rightarrow> download_world \<Rightarrow> (guard_error + transfer_response) \<times> download_world) option"
  te_now :: gotime
  te_wrote :: "gostring \<Rightarrow> gostring"

record create_request_full =
  cf_request :: fallback_request
  cf_client :: gostring

text \<open>
  The part of \<open>completeFallbackTransfer\<close> while the transfer is held; None as long as the copy still waits.
  Other requests may change the world during the fetch.  \<open>te_wrote\<close> is what of a body reaches a file whose
  writing fails.
\<close>
definition held_transfer :: "transfer_env \<Rightarrow> (fetch_request \<Rightarrow> download_world \<Rightarrow> (guard_error + transfer_response) \<times> download_world)
    \<Rightarrow> url \<Rightarrow> int \<Rightarrow> gostring \<Rightarrow> download_world \<Rightarrow> (download_world \<times> transfer_error option) option" where
  "held_transfer env run target limit tid s =
     (case run \<lparr>fr_method = ''GET'', fr_url = Some target, fr_header = [], fr_redirects = 3\<rparr> s of
        (Inl e, s1) \<Rightarrow> Some (s1, Some (TransferFetch e))
      | (Inr r, s1) \<Rightarrow>
          if tr_status r < 200 \<or> tr_status r \<ge> 300 then Some (s1, Some (TransferStatus (tr_status r)))
          else (case copy_stream limit [] (tr_events r) of
              None \<Rightarrow> None
            | Some (_, Some e) \<Rightarrow> Some (s1, Some (TransferDownload e))
            | Some (body, None) \<Rightarrow>
                (case write_completed_file (te_absolute env) (te_fault env) (te_config env) None (te_now env) tid body (te_wrote env body) (tr_type r) s1 of
                   (s2, e) \<Rightarrow> Some (s2, map_option TransferDownload e))))"

definition complete_transfer :: "idna \<Rightarrow> transfer_env \<Rightarrow> gostring \<Rightarrow> create_request_full \<Rightarrow> download_world
    \<Rightarrow> (download_world \<times> transfer_error option) option" where
  "complete_transfer idna env tid q s =
     (case te_fetch env of
        None \<Rightarrow> Some (s, Some TransferUnavailable)
      | Some run \<Rightarrow>
          (case new_fetch_url idna (trim_space (fb_url (cf_request q))) of
             None \<Rightarrow> Some (s, Some (TransferDownload UnsafeTarget))
           | Some target \<Rightarrow>
               (case max_bytes (fb_type (cf_request q)) of
                  Inl e \<Rightarrow> Some (s, Some (TransferDownload e))
                | Inr limit \<Rightarrow>
                    (case acquire_transfer (te_config env) None (cf_client q) (snd s) of
                       Inl e \<Rightarrow> Some (s, Some (TransferDownload e))
                     | Inr st \<Rightarrow>
                         map_option (\<lambda>((fs', st'), e). ((fs', release_transfer (client_or_anonymous (cf_client q)) st'), e))
                           (held_transfer env run target limit tid (fst s, st))))))"

text \<open>\<open>startFallbackTransfer\<close>, the goroutine: None while it runs.\<close>
definition start_transfer :: "idna \<Rightarrow> transfer_env \<Rightarrow> gostring \<Rightarrow> create_request_full \<Rightarrow> download_world \<Rightarrow> download_world option" where
  "start_transfer idna env tid q s =
     (case complete_transfer idna env tid q s of
        None \<Rightarrow> None
      | Some (s', None) \<Rightarrow> Some s'
      | Some ((fs, st), Some _) \<Rightarrow> Some (fs, fst (mark_failed (te_config env) None (te_now env) tid st)))"

text \<open>\<open>runtimeDownloadService.CreateFallback\<close>: the answer and the transfer it starts.\<close>
definition runtime_create_fallback :: "idna \<Rightarrow> download_config \<Rightarrow> download_error option \<Rightarrow> gostring + gostring \<Rightarrow> gotime \<Rightarrow> gotime
    \<Rightarrow> create_request_full \<Rightarrow> download_state \<Rightarrow> download_state \<times> (download_error + task_view) \<times> (gostring \<times> create_request_full) option" where
  "runtime_create_fallback idna cfg ctx entropy now now' q st =
     (case create_fallback idna cfg ctx entropy now now' (cf_request q) st of
        (st', Inl e) \<Rightarrow> (st', Inl e, None)
      | (st', Inr v) \<Rightarrow> (st', Inr v, Some (tv_id v, q)))"

section \<open>Every transfer settles its task\<close>

text \<open>Two states with the same counters.\<close>
definition same_transfers :: "download_state \<Rightarrow> download_state \<Rightarrow> bool" where
  "same_transfers st st' \<longleftrightarrow> ds_active st' = ds_active st \<and> (\<forall>c. get_or 0 (ds_by_client st') c = get_or 0 (ds_by_client st) c)"

lemma write_keeps_counters:
  assumes "write_completed_file absolute fault cfg ctx now tid body wrote ct (fs, st) = ((fs', st'), err)"
  shows "ds_active st' = ds_active st" and "ds_by_client st' = ds_by_client st"
  using assms by (auto simp: write_completed_file_def Let_def split: sum.splits prod.splits)

lemma release_acquired:
  assumes "acquire_transfer cfg ctx client st = Inr st1" and "transfers_ok cfg (st, held)"
    and "ds_active st2 = ds_active st1" and "ds_by_client st2 = ds_by_client st1"
  shows "same_transfers st (release_transfer (client_or_anonymous client) st2)"
proof -
  let ?c = "client_or_anonymous client"
  have st1: "st1 = st\<lparr>ds_active := ds_active st + 1, ds_by_client := AList.update ?c (get_or 0 (ds_by_client st) ?c + 1) (ds_by_client st)\<rparr>"
    using assms(1) by (auto simp: acquire_transfer_def Let_def split: option.splits if_splits)
  have "ds_active st = int (length held)" "get_or 0 (ds_by_client st) ?c = int (count_list held ?c)"
    using assms(2) by (simp_all add: transfers_ok_def)
  then have n: "0 \<le> ds_active st" "0 \<le> get_or 0 (ds_by_client st) ?c" by simp_all
  have g: "get_or 0 (ds_by_client st1) x = (if x = ?c then get_or 0 (ds_by_client st) ?c + 1 else get_or 0 (ds_by_client st) x)" for x
    unfolding st1 by simp
  have a: "ds_active st1 = ds_active st + 1" unfolding st1 by simp
  have "get_or 0 (ds_by_client (release_transfer ?c st2)) x = get_or 0 (ds_by_client st) x" for x
    using g [of x] g [of ?c] n(2) assms(4) by (simp add: release_transfer_def)
  moreover have "ds_active (release_transfer ?c st2) = ds_active st" using a n(1) assms(3) by (simp add: release_transfer_def)
  ultimately show ?thesis by (simp add: same_transfers_def)
qed


lemma write_records:
  assumes "write_completed_file absolute fault cfg ctx now tid body wrote ct (fs, st) = ((fs', st'), None)"
  shows "\<exists>path v. task_file_path absolute cfg tid = Inr path \<and> map_of (ds_tasks st') tid = Some v \<and> tv_id v = tid \<and> tv_status v = DlCompleted \<and>
    tv_progress v = 100 \<and> tv_download v = [] \<and>
    map_of (ds_files st') tid = Some (path, if trim_space ct = [] then ''application/octet-stream'' else ct)"
  using assms by (auto simp: write_completed_file_def new_view_def rbind_def Let_def split: sum.splits prod.splits option.splits)

lemma write_failed_state:
  assumes "write_completed_file absolute fault cfg ctx now tid body wrote ct (fs, st) = ((fs', st'), Some e)"
  shows "st' = st"
  using assms by (auto simp: write_completed_file_def Let_def split: sum.splits prod.splits)

lemma b64_char_safe: "n < 64 \<Longrightarrow> safe_id_char (b64_char n)"
  by (auto simp: safe_id_char_def b64_char_def is_alnum_def Let_def)

lemma b64_digits_length: "length (b64_digits s) \<le> 2 * length s"
  by (induction s rule: b64_digits.induct) (auto simp: Let_def)

lemma generated_id:
  assumes "dl_generate_id (Inr raw) prefix = Inr tid" and "length raw = 16" and "list_all safe_id_char prefix" and "7 \<le> length prefix" and "length prefix \<le> 95"
  shows "safe_task_id tid" and "trim_space tid = tid"
proof -
  have tid: "tid = prefix @ ''_'' @ b64_encode raw" using assms(1) by (simp add: dl_generate_id_def)
  have "length (b64_encode raw) \<le> 32" using b64_digits_length [of raw] assms(2) by (simp add: b64_encode_def)
  moreover have "list_all safe_id_char (b64_encode raw)"
    using b64_digits_less [of raw] by (auto simp: b64_encode_def list_all_iff b64_char_safe)
  ultimately have "list_all safe_id_char tid" "8 \<le> length tid" "length tid \<le> 128"
    using assms(3-5) by (simp_all add: tid safe_id_char_def)
  then show "safe_task_id tid" by (simp add: safe_task_id_def)
  have "token_char c" if "safe_id_char c" for c using that by (auto simp: safe_id_char_def token_char_def)
  then have "list_all token_char tid" using \<open>list_all safe_id_char tid\<close> by (simp add: list_all_iff)
  then show "trim_space tid = tid" by (rule trim_space_token)
qed

lemma created_fallback:
  assumes "create_fallback idna cfg ctx (Inr raw) now now' q st0 = (st, Inr v)" and "length raw = 16"
  shows "safe_task_id (tv_id v)" and "trim_space (tv_id v) = tv_id v" and "map_of (ds_tasks st) (tv_id v) = Some v"
    and "\<exists>poll. build_ticket_url cfg (''/api/download/fallback/'' @ tv_id v) (tv_id v) purpose_poll (now + dc_ttl cfg) now' = Inr poll \<and>
      v = new_view (tv_id v) poll (now + dc_ttl cfg)"
    and "validated_media_target idna (fb_url q) \<noteq> None"
    and "ds_active st = ds_active st0" and "ds_by_client st = ds_by_client st0"
proof -
  have r: "\<exists>tid poll. dl_generate_id (Inr raw) ''download'' = Inr tid \<and> v = new_view tid poll (now + dc_ttl cfg) \<and>
      build_ticket_url cfg (''/api/download/fallback/'' @ tid) tid purpose_poll (now + dc_ttl cfg) now' = Inr poll \<and>
      validated_media_target idna (fb_url q) \<noteq> None \<and> st = st0\<lparr>ds_tasks := AList.update (tv_id v) v (ds_tasks st0)\<rparr>"
    using assms(1) by (auto simp: create_fallback_def rbind_def require_def Let_def split: sum.splits option.splits if_splits)
  then obtain tid poll where t: "dl_generate_id (Inr raw) ''download'' = Inr tid" "v = new_view tid poll (now + dc_ttl cfg)"
      "build_ticket_url cfg (''/api/download/fallback/'' @ tid) tid purpose_poll (now + dc_ttl cfg) now' = Inr poll"
      "validated_media_target idna (fb_url q) \<noteq> None" "st = st0\<lparr>ds_tasks := AList.update (tv_id v) v (ds_tasks st0)\<rparr>" by blast
  have i: "tv_id v = tid" by (simp add: t(2) new_view_def)
  have "list_all safe_id_char ''download''" by code_simp
  note g = generated_id [OF t(1) assms(2) this]
  show "safe_task_id (tv_id v)" "trim_space (tv_id v) = tv_id v" using g by (simp_all add: i)
  show "map_of (ds_tasks st) (tv_id v) = Some v" "ds_active st = ds_active st0" "ds_by_client st = ds_by_client st0" by (simp_all add: t(5))
  show "validated_media_target idna (fb_url q) \<noteq> None" by (rule t(4))
  show "\<exists>poll. build_ticket_url cfg (''/api/download/fallback/'' @ tv_id v) (tv_id v) purpose_poll (now + dc_ttl cfg) now' = Inr poll \<and>
      v = new_view (tv_id v) poll (now + dc_ttl cfg)" unfolding i using t(2,3) by blast
qed

text \<open>How a transfer ends that nobody interferes with.\<close>
lemma held_transfer_cases:
  assumes "held_transfer env run target limit tid (fs, st) = Some ((fs', st'), e)" and "\<And>q s. snd (run q s) = s"
  shows "ds_active st' = ds_active st \<and> ds_by_client st' = ds_by_client st \<and>
    (case e of
       Some _ \<Rightarrow> ds_tasks st' = ds_tasks st
     | None \<Rightarrow> \<exists>r body path v. fst (run \<lparr>fr_method = ''GET'', fr_url = Some target, fr_header = [], fr_redirects = 3\<rparr> (fs, st)) = Inr r \<and>
         200 \<le> tr_status r \<and> tr_status r < 300 \<and> copy_stream limit [] (tr_events r) = Some (body, None) \<and>
         task_file_path (te_absolute env) (te_config env) tid = Inr path \<and> map_of fs' path = Some (FileNode body) \<and>
         map_of (ds_tasks st') tid = Some v \<and> tv_id v = tid \<and> tv_status v = DlCompleted \<and> tv_progress v = 100 \<and> tv_download v = [] \<and>
         map_of (ds_files st') tid = Some (path, if trim_space (tr_type r) = [] then ''application/octet-stream'' else tr_type r))"
proof -
  let ?q = "\<lparr>fr_method = ''GET'', fr_url = Some target, fr_header = [], fr_redirects = 3\<rparr>"
  obtain a where a: "run ?q (fs, st) = (a, (fs, st))" using assms(2) [of ?q "(fs, st)"] by (metis prod.collapse)
  show ?thesis
  proof (cases a)
    case (Inl x)
    then show ?thesis using assms(1) a by (auto simp: held_transfer_def)
  next
    case (Inr r)
    show ?thesis
    proof (cases "tr_status r < 200 \<or> tr_status r \<ge> 300")
      case True
      then show ?thesis using assms(1) a Inr by (auto simp: held_transfer_def)
    next
      case False
      then obtain body x where c: "copy_stream limit [] (tr_events r) = Some (body, x)"
        using assms(1) a Inr by (auto simp: held_transfer_def split: option.splits)
      show ?thesis
      proof (cases x)
        case (Some y)
        then show ?thesis using assms(1) a Inr False c by (auto simp: held_transfer_def)
      next
        case None
        obtain w where w: "write_completed_file (te_absolute env) (te_fault env) (te_config env) None (te_now env) tid body (te_wrote env body) (tr_type r) (fs, st) =
            ((fs', st'), w)" and e: "e = map_option TransferDownload w"
          using assms(1) a Inr False c None by (auto simp: held_transfer_def split: prod.splits)
        note k = write_keeps_counters [OF w]
        show ?thesis
        proof (cases w)
          case (Some y)
          then show ?thesis using k write_failed_state [OF w [unfolded Some]] by (simp add: e)
        next
          case done': None
          note w' = w [unfolded done']
          obtain path v where p: "task_file_path (te_absolute env) (te_config env) tid = Inr path" "map_of (ds_tasks st') tid = Some v" "tv_id v = tid"
              "tv_status v = DlCompleted" "tv_progress v = 100" "tv_download v = []"
              "map_of (ds_files st') tid = Some (path, if trim_space (tr_type r) = [] then ''application/octet-stream'' else tr_type r)"
            using write_records [OF w'] by blast
          have "map_of fs' path = Some (FileNode body)" using write_completed_cases [OF w'] p(1) by auto
          then show ?thesis using p k a Inr False c None by (simp add: e done')
        qed
      qed
    qed
  qed
qed


lemma acquire_tasks: "acquire_transfer cfg ctx client st = Inr st1 \<Longrightarrow> ds_tasks st1 = ds_tasks st"
  by (auto simp: acquire_transfer_def Let_def split: option.splits if_splits)

lemma release_keeps: "ds_tasks (release_transfer c st) = ds_tasks st" "ds_files (release_transfer c st) = ds_files st"
  by (simp_all add: release_transfer_def)

lemma mark_failed_existing:
  assumes "safe_task_id tid" and "trim_space tid = tid" and "map_of (ds_tasks st) tid = Some v" and "mark_failed cfg None now tid st = (st', e)"
  shows "\<exists>w. map_of (ds_tasks st') tid = Some w \<and> tv_status w = DlFailed" and "ds_active st' = ds_active st" and "ds_by_client st' = ds_by_client st"
  using assms by (auto simp: mark_failed_def Let_def)

lemma same_transfers_refl: "same_transfers st st"
  by (simp add: same_transfers_def)

lemma max_bytes_positive: "max_bytes t = Inr n \<Longrightarrow> 0 < n"
  by (auto simp: max_bytes_def split: media_type.splits)

text \<open>A completed transfer, in full.\<close>
definition transfer_completed :: "idna \<Rightarrow> transfer_env \<Rightarrow> (fetch_request \<Rightarrow> download_world \<Rightarrow> (guard_error + transfer_response) \<times> download_world)
    \<Rightarrow> gostring \<Rightarrow> fallback_request \<Rightarrow> download_world \<Rightarrow> gostring \<Rightarrow> gostring \<Rightarrow> gostring \<Rightarrow> task_view \<Rightarrow> bool" where
  "transfer_completed idna env run tid q s path ct body v \<longleftrightarrow>
     (\<exists>target limit r t. new_fetch_url idna (trim_space (fb_url q)) = Some target \<and> max_bytes (fb_type q) = Inr limit \<and>
        fst (run \<lparr>fr_method = ''GET'', fr_url = Some target, fr_header = [], fr_redirects = 3\<rparr> t) = Inr r \<and>
        200 \<le> tr_status r \<and> tr_status r < 300 \<and> copy_stream limit [] (tr_events r) = Some (body, None) \<and> int (length body) \<le> limit \<and>
        ct = (if trim_space (tr_type r) = [] then ''application/octet-stream'' else tr_type r)) \<and>
     task_file_path (te_absolute env) (te_config env) tid = Inr path \<and> map_of (fst s) path = Some (FileNode body) \<and>
     map_of (ds_files (snd s)) tid = Some (path, ct) \<and>
     map_of (ds_tasks (snd s)) tid = Some v \<and> tv_id v = tid \<and> tv_status v = DlCompleted \<and> tv_progress v = 100 \<and> tv_download v = []"

lemma transfer_outcome:
  assumes created: "create_fallback idna cfg ctx (Inr raw) now now' (cf_request q) st0 = (st, Inr v)" and len: "length raw = 16" and tid: "tid = tv_id v"
    and run: "te_fetch env = Some run" and quiet: "\<And>x s. snd (run x s) = s"
    and ok: "transfers_ok (te_config env) (st, held)"
    and settled: "start_transfer idna env tid q (fs, st) = Some (fs', st')"
  shows "same_transfers st st' \<and>
    ((\<exists>w. map_of (ds_tasks st') tid = Some w \<and> tv_status w = DlFailed) \<or>
     (\<exists>path ct body w. transfer_completed idna env run tid (cf_request q) (fs', st') path ct body w))"
proof -
  note cr = created_fallback [OF created len]
  obtain target where target: "new_fetch_url idna (trim_space (fb_url (cf_request q))) = Some target"
    using cr(5) by (auto simp: validated_media_target_def)
  have failing: "same_transfers st st' \<and> (\<exists>w. map_of (ds_tasks st') tid = Some w \<and> tv_status w = DlFailed)"
    if "complete_transfer idna env tid q (fs, st) = Some ((fs1, st1), Some e)" "ds_tasks st1 = ds_tasks st" "same_transfers st st1" for fs1 st1 e
  proof -
    obtain st2 e2 where m: "mark_failed (te_config env) None (te_now env) tid st1 = (st2, e2)" by fastforce
    then have "st' = st2" using settled that(1) by (simp add: start_transfer_def)
    then show ?thesis using mark_failed_existing [OF _ _ _ m] cr(1-3) that(2,3) by (auto simp: tid same_transfers_def)
  qed
  show ?thesis
  proof (cases "max_bytes (fb_type (cf_request q))")
    case (Inl e)
    then show ?thesis using failing [of fs st] target run same_transfers_refl by (simp add: complete_transfer_def)
  next
    case limit: (Inr limit)
    show ?thesis
    proof (cases "acquire_transfer (te_config env) None (cf_client q) st")
      case (Inl e)
      then show ?thesis using failing [of fs st] target run limit same_transfers_refl by (simp add: complete_transfer_def)
    next
      case (Inr st1)
      let ?c = "client_or_anonymous (cf_client q)"
      have ct: "complete_transfer idna env tid q (fs, st) =
          map_option (\<lambda>((fs', st'), e). ((fs', release_transfer ?c st'), e)) (held_transfer env run target limit tid (fs, st1))"
        using target run limit Inr by (simp add: complete_transfer_def)
      obtain fs2 st2 e where h: "held_transfer env run target limit tid (fs, st1) = Some ((fs2, st2), e)"
        using settled ct by (auto simp: start_transfer_def split: option.splits)
      note k = held_transfer_cases [OF h quiet]
      have c: "complete_transfer idna env tid q (fs, st) = Some ((fs2, release_transfer ?c st2), e)" using ct h by simp
      have same: "same_transfers st (release_transfer ?c st2)" using release_acquired [OF Inr ok] k by blast
      show ?thesis
      proof (cases e)
        case (Some x)
        then show ?thesis using failing [OF c [unfolded Some]] same k acquire_tasks [OF Inr] by (simp add: release_keeps)
      next
        case None
        have fin: "fs' = fs2" "st' = release_transfer ?c st2" using settled c None by (simp_all add: start_transfer_def)
        obtain r body path w where p: "fst (run \<lparr>fr_method = ''GET'', fr_url = Some target, fr_header = [], fr_redirects = 3\<rparr> (fs, st1)) = Inr r"
            "200 \<le> tr_status r" "tr_status r < 300" "copy_stream limit [] (tr_events r) = Some (body, None)"
            "task_file_path (te_absolute env) (te_config env) tid = Inr path" "map_of fs2 path = Some (FileNode body)"
            "map_of (ds_tasks st2) tid = Some w" "tv_id w = tid" "tv_status w = DlCompleted" "tv_progress w = 100" "tv_download w = []"
            "map_of (ds_files st2) tid = Some (path, if trim_space (tr_type r) = [] then ''application/octet-stream'' else tr_type r)"
          using k None by auto
        have "int (length body) \<le> limit" using copy_stream_bound [OF p(4)] max_bytes_positive [OF limit] by simp
        then have "transfer_completed idna env run tid (cf_request q) (fs', st') path
            (if trim_space (tr_type r) = [] then ''application/octet-stream'' else tr_type r) body w"
          unfolding transfer_completed_def using p target limit by (auto simp: fin release_keeps)
        then show ?thesis using same by (auto simp: fin)
      qed
    qed
  qed
qed

text \<open>
  C37.  Every transfer settles.  When a fallback task has been created and nobody else touches the service
  meanwhile, the transfer it started leaves the task completed or failed and gives its slot back; and a
  completed task has a file of exactly the bytes that a successful response of the guarded fetch to the
  validated URL carried, within the limit of its media type, stored under the task's own path.
\<close>
theorem fallback_transfer_settles:
  assumes "runtime_create_fallback idna (te_config env) None (Inr raw) now now' q st0 = (st, Inr v, Some (tid, q))" and "length raw = 16"
    and "te_fetch env = Some run" and "\<And>x s. snd (run x s) = s" and "transfers_ok (te_config env) (st, held)"
    and "start_transfer idna env tid q (fs, st) = Some (fs', st')"
  shows "same_transfers st st' \<and> (\<exists>w. map_of (ds_tasks st') tid = Some w \<and>
    (tv_status w = DlFailed \<or>
     tv_status w = DlCompleted \<and>
     (\<exists>target limit r body path t. new_fetch_url idna (trim_space (fb_url (cf_request q))) = Some target \<and> max_bytes (fb_type (cf_request q)) = Inr limit \<and>
        fst (run \<lparr>fr_method = ''GET'', fr_url = Some target, fr_header = [], fr_redirects = 3\<rparr> t) = Inr r \<and> 200 \<le> tr_status r \<and> tr_status r < 300 \<and>
        copy_stream limit [] (tr_events r) = Some (body, None) \<and> int (length body) \<le> limit \<and>
        task_file_path (te_absolute env) (te_config env) tid = Inr path \<and> map_of fs' path = Some (FileNode body))))"
proof -
  have c: "create_fallback idna (te_config env) None (Inr raw) now now' (cf_request q) st0 = (st, Inr v)" and t: "tid = tv_id v"
    using assms(1) by (auto simp: runtime_create_fallback_def split: prod.splits sum.splits)
  show ?thesis using transfer_outcome [OF c assms(2) t assms(3-6)] unfolding transfer_completed_def fst_conv snd_conv by blast
qed

definition demo_transfer :: transfer_env where
  "demo_transfer = \<lparr>te_absolute = Some, te_fault = (\<lambda>_. None), te_config = demo_config,
     te_fetch = Some (\<lambda>_ s. (Inr \<lparr>tr_status = 200, tr_type = ''video/mp4'', tr_events = [StreamRead ''abc'' (Some None) 3 None]\<rparr>, s)),
     te_now = unix_epoch, te_wrote = (\<lambda>_. [])\<rparr>"

definition demo_fallback :: create_request_full where
  "demo_fallback = \<lparr>cf_request = \<lparr>fb_url = ''https://v.example/1.mp4'', fb_type = MediaVideo, fb_attempt = 4\<rparr>, cf_client = ''c''\<rparr>"


definition demo_task :: gostring where
  "demo_task = ''download_MDEyMzQ1Njc4OWFiY2RlZg''"

lemma demo_transfer_facts:
  "dl_generate_id (Inr ''0123456789abcdef'') ''download'' = Inr demo_task" "trim_space demo_task = demo_task" "demo_task \<noteq> []"
  "new_fetch_url demo_idna (trim_space ''https://v.example/1.mp4'') \<noteq> None" "trim_space purpose_poll \<noteq> []"
  "task_file_path Some demo_config demo_task = Inr (''/tmp/d/'' @ demo_task @ ''.bin'')"
  "copy_stream (300 * 1048576) [] [StreamRead ''abc'' (Some None) 3 None] = Some (''abc'', None)" "trim_space ''/tmp/d'' \<noteq> []"
  "acquire_transfer demo_config None ''c'' demo_state \<noteq> Inl ConcurrencyLimit" "trim_space ''video/mp4'' \<noteq> []"
  by code_simp+

lemma demo_signs: "unix_epoch \<le> now \<Longrightarrow> p = purpose_poll \<or> p = purpose_download \<Longrightarrow> 0 < d \<Longrightarrow>
  \<exists>raw. sign_ticket ''key'' \<lparr>tc_task = demo_task, tc_purpose = p, tc_expires = now + d\<rparr> now = Inr raw"
proof -
  assume a: "unix_epoch \<le> now" "p = purpose_poll \<or> p = purpose_download" "0 < d"
  have "trim_space purpose_download \<noteq> []" by code_simp
  moreover have "now + d \<noteq> 0" using a by (simp add: unix_epoch_def second_def)
  ultimately show ?thesis using a demo_transfer_facts(2,3,5) by (auto simp: sign_ticket_def Let_def)
qed

lemma demo_ttl: "0 < dc_ttl demo_config" "dc_key demo_config = ''key''"
  by (simp_all add: demo_config_def minute_def second_def)

lemma demo_created:
  obtains v st where "runtime_create_fallback demo_idna demo_config None (Inr ''0123456789abcdef'') unix_epoch unix_epoch demo_fallback demo_state =
      (st, Inr v, Some (demo_task, demo_fallback))"
    "v = new_view demo_task (tv_poll v) (unix_epoch + dc_ttl demo_config)" "st = demo_state\<lparr>ds_tasks := [(demo_task, v)]\<rparr>"
proof -
  obtain raw where raw: "sign_ticket ''key'' \<lparr>tc_task = demo_task, tc_purpose = purpose_poll, tc_expires = unix_epoch + dc_ttl demo_config\<rparr> unix_epoch = Inr raw"
    using demo_signs [of unix_epoch purpose_poll "dc_ttl demo_config"] demo_ttl by auto
  let ?poll = "with_base_url demo_config ((''/api/download/fallback/'' @ demo_task) @ ''?ticket='' @ raw)"
  let ?v = "new_view demo_task ?poll (unix_epoch + dc_ttl demo_config)"
  have b: "build_ticket_url demo_config (''/api/download/fallback/'' @ demo_task) demo_task purpose_poll (unix_epoch + dc_ttl demo_config) unix_epoch = Inr ?poll"
    using raw by (simp add: build_ticket_url_def demo_ttl)
  have "create_fallback demo_idna demo_config None (Inr ''0123456789abcdef'') unix_epoch unix_epoch (cf_request demo_fallback) demo_state =
      (demo_state\<lparr>ds_tasks := AList.update demo_task ?v (ds_tasks demo_state)\<rparr>, Inr ?v)"
    unfolding create_fallback_def Let_def
    using b demo_transfer_facts(1,4) by (simp add: demo_fallback_def validated_media_target_def max_bytes_def rbind_def require_def new_view_def)
  then have "runtime_create_fallback demo_idna demo_config None (Inr ''0123456789abcdef'') unix_epoch unix_epoch demo_fallback demo_state =
      (demo_state\<lparr>ds_tasks := [(demo_task, ?v)]\<rparr>, Inr ?v, Some (demo_task, demo_fallback))"
    by (simp add: runtime_create_fallback_def demo_state_def new_view_def)
  then show thesis by (rule that) (simp_all add: new_view_def)
qed

lemma demo_settles:
  assumes "st = demo_state\<lparr>ds_tasks := [(demo_task, v)]\<rparr>"
  obtains fs' st' w where "start_transfer demo_idna demo_transfer demo_task demo_fallback ([], st) = Some (fs', st')"
    "map_of (ds_tasks st') demo_task = Some w" "tv_status w = DlCompleted"
proof -
  obtain target where target: "new_fetch_url demo_idna (trim_space ''https://v.example/1.mp4'') = Some target" using demo_transfer_facts(4) by blast
  obtain st1 where acq: "acquire_transfer demo_config None ''c'' st = Inr st1"
    by (simp add: acquire_transfer_def assms demo_config_def demo_state_def get_or_def Let_def)
  obtain fs2 st2 where w: "write_completed_file Some (\<lambda>_. None) demo_config None unix_epoch demo_task ''abc'' [] ''video/mp4'' ([], st1) = ((fs2, st2), None)"
    using demo_transfer_facts(6,8,10)
    by (simp add: write_completed_file_def fails_def ensure_root_def reject_symlink_def write_part_def rbind_def demo_config_def Let_def)
  have "complete_transfer demo_idna demo_transfer demo_task demo_fallback ([], st) =
      Some ((fs2, release_transfer (client_or_anonymous ''c'') st2), None)"
    using target acq w demo_transfer_facts(7)
    by (simp add: complete_transfer_def held_transfer_def demo_transfer_def demo_fallback_def max_bytes_def)
  then have "start_transfer demo_idna demo_transfer demo_task demo_fallback ([], st) = Some (fs2, release_transfer (client_or_anonymous ''c'') st2)"
    by (simp add: start_transfer_def)
  then show thesis using write_records [OF w] that by (auto simp: release_keeps)
qed

lemma demo_quiet: "te_fetch demo_transfer = Some (\<lambda>_ s. (Inr \<lparr>tr_status = 200, tr_type = ''video/mp4'', tr_events = [StreamRead ''abc'' (Some None) 3 None]\<rparr>, s))"
  "te_config demo_transfer = demo_config"
  by (simp_all add: demo_transfer_def)

lemma demo_transfers_ok: "transfers_ok demo_config (demo_state\<lparr>ds_tasks := m\<rparr>, [])"
  by (simp add: transfers_ok_def demo_state_def demo_config_def get_or_def)

theorem fallback_transfer_settles_witness:
  "\<exists>st v fs' st' w. runtime_create_fallback demo_idna demo_config None (Inr ''0123456789abcdef'') unix_epoch unix_epoch demo_fallback demo_state =
      (st, Inr v, Some (demo_task, demo_fallback)) \<and>
    start_transfer demo_idna demo_transfer demo_task demo_fallback ([], st) = Some (fs', st') \<and> same_transfers st st' \<and>
    map_of (ds_tasks st') demo_task = Some w \<and> tv_status w = DlCompleted"
proof -
  obtain v st where c: "runtime_create_fallback demo_idna demo_config None (Inr ''0123456789abcdef'') unix_epoch unix_epoch demo_fallback demo_state =
      (st, Inr v, Some (demo_task, demo_fallback))" and st: "st = demo_state\<lparr>ds_tasks := [(demo_task, v)]\<rparr>" by (rule demo_created)
  obtain fs' st' w where s: "start_transfer demo_idna demo_transfer demo_task demo_fallback ([], st) = Some (fs', st')"
      "map_of (ds_tasks st') demo_task = Some w" "tv_status w = DlCompleted" by (rule demo_settles [OF st])
  have "same_transfers st st'"
    using fallback_transfer_settles [where env = demo_transfer, unfolded demo_quiet(2), OF c _ demo_quiet(1) _ demo_transfers_ok [of "[(demo_task, v)]", folded st] s(1)] by auto
  then show ?thesis using c s by blast
qed

end
