(* ===== verification/HttpApi.thy ===== *)
theory HttpApi imports
  HttpParse
  AppTransfers
  Auth
  AdminStore
begin

text \<open>
  The HTTP interface (\<open>internal/httpapi\<close>): client and download handlers, the middleware, the table of routes
  and the server's defaults; and what they report to (\<open>internal/observability\<close>).  Matching a request against
  the table is gin's; it is an argument.
\<close>

section \<open>Client handlers\<close>

text \<open>The bodies bound by the other handlers, None when \<open>ShouldBindJSON\<close> failed, and what gin passes on.\<close>
record fallback_body =
  fk_url :: gostring
  fk_media :: gostring
  fk_type :: media_type
  fk_attempt :: int

record api_request = http_request +
  ax_path :: gostring
  ax_header :: header
  ax_login :: "login_request option"
  ax_fallback :: "fallback_body option"
  ax_merge :: "gostring option"
  ax_admin :: admin_request
  ax_body :: "gostring option"

datatype router_reply = ApiReply api_reply | LoginReply login_result | AdminReply admin_reply | NotFound

record 'w client_api =
  ca_login :: "login_request \<Rightarrow> 'w \<Rightarrow> (error_kind + login_result) \<times> 'w"
  ca_auth :: "header \<Rightarrow> 'w \<Rightarrow> authenticated option"

type_synonym 'w parse_func = "authenticated \<Rightarrow> ParseService.request \<Rightarrow> 'w \<Rightarrow> (parse_fail + compat_data) \<times> 'w"

definition invalid_token_code :: int where "invalid_token_code = 1008"

text \<open>The UTF-8 bytes of the two messages.\<close>
definition login_unavailable :: gostring where
  "login_unavailable = map char_of [0xE5, 0xAE, 0xA2, 0xE6, 0x88, 0xB7, 0xE7, 0xAB, 0xAF, 0xE7, 0x99, 0xBB, 0xE5, 0xBD, 0x95, 0xE6, 0x9A, 0x82,
     0xE4, 0xB8, 0x8D, 0xE5, 0x8F, 0xAF, 0xE7, 0x94, 0xA8, 0xEF, 0xBC, 0x8C, 0xE8, 0xAF, 0xB7, 0xE9, 0x87, 0x8D, 0xE8, 0xAF, 0x95 :: nat]"

definition login_expired :: gostring where
  "login_expired = map char_of [0xE7, 0x99, 0xBB, 0xE5, 0xBD, 0x95, 0xE7, 0x8A, 0xB6, 0xE6, 0x80, 0x81, 0xE5, 0xB7, 0xB2, 0xE5, 0xA4, 0xB1,
     0xE6, 0x95, 0x88, 0xEF, 0xBC, 0x8C, 0xE8, 0xAF, 0xB7, 0xE9, 0x87, 0x8D, 0xE8, 0xAF, 0x95 :: nat]"

definition handle_client_session :: "'w client_api option \<Rightarrow> api_request \<Rightarrow> 'w \<Rightarrow> router_reply \<times> 'w" where
  "handle_client_session auth q w =
     (case ax_login q of
        None \<Rightarrow> (ApiReply (fail_reply 1004 ''invalid client session payload''), w)
      | Some r \<Rightarrow>
          (case auth of
             None \<Rightarrow> (ApiReply (fail_reply invalid_token_code login_unavailable), w)
           | Some a \<Rightarrow>
               (case ca_login a r w of
                  (Inl _, w') \<Rightarrow> (ApiReply (fail_reply invalid_token_code login_unavailable), w')
                | (Inr l, w') \<Rightarrow> (LoginReply l, w'))))"

definition client_authenticate :: "'w client_api option \<Rightarrow> api_request \<Rightarrow> 'w \<Rightarrow> authenticated option" where
  "client_authenticate auth q w = (case auth of None \<Rightarrow> None | Some a \<Rightarrow> ca_auth a (ax_header q) w)"

definition handle_parse_authenticated :: "'w client_api option \<Rightarrow> 'w parse_func option \<Rightarrow> api_request \<Rightarrow> 'w \<Rightarrow> api_reply \<times> 'w" where
  "handle_parse_authenticated auth run q w =
     (case hq_parse q of
        None \<Rightarrow> (fail_reply 1004 ''invalid parse payload'', w)
      | Some r \<Rightarrow>
          (case client_authenticate auth q w of
             None \<Rightarrow> (fail_reply invalid_token_code login_expired, w)
           | Some client \<Rightarrow>
               (case run of
                  None \<Rightarrow> (fail_reply 1004 ''parse handler unavailable'', w)
                | Some f \<Rightarrow>
                    (case f client (normalize_request r) w of
                       (Inl _, w') \<Rightarrow> (fail_reply 1001 ''parse failed'', w')
                     | (Inr d, w') \<Rightarrow> (ok_reply (ApiParse d), w')))))"

section \<open>Download handlers\<close>

record 'w download_api =
  da_create :: "create_request_full \<Rightarrow> 'w \<Rightarrow> (download_error + task_view) \<times> 'w"
  da_get :: "gostring \<Rightarrow> gostring \<Rightarrow> 'w \<Rightarrow> download_error + task_view option"
  da_create_m3u8 :: "gostring \<Rightarrow> 'w \<Rightarrow> (download_error + task_view) \<times> 'w"
  da_get_m3u8 :: "gostring \<Rightarrow> 'w \<Rightarrow> download_error + task_view option"
  da_check_download :: "gostring \<Rightarrow> gostring \<Rightarrow> 'w \<Rightarrow> download_error option"
  da_check_file :: "gostring \<Rightarrow> gostring \<Rightarrow> 'w \<Rightarrow> download_error option"
  da_serve :: "gostring \<Rightarrow> 'w \<Rightarrow> download_error + (gostring \<times> gostring \<times> gostring)"

text \<open>\<open>errors.Is\<close>: a failed URL wraps its cause.\<close>
fun download_is :: "download_error \<Rightarrow> download_error \<Rightarrow> bool" where
  "download_is (URLBuild e) x \<longleftrightarrow> x = URLBuild e \<or> download_is e x"
| "download_is e x \<longleftrightarrow> e = x"

definition download_error_response :: "download_error option \<Rightarrow> api_reply" where
  "download_error_response err =
     (let is = (\<lambda>x. case err of None \<Rightarrow> False | Some e \<Rightarrow> download_is e x) in
      if is AttemptTooEarly then fail_reply 1004 ''download fallback requires later attempts''
      else if is UnsafeTarget then fail_reply 1004 ''invalid download url''
      else if is ConcurrencyLimit then fail_reply 1009 ''download busy, please retry later''
      else if is InvalidTicket \<or> is ExpiredTicket then fail_reply 1008 ''download ticket invalid''
      else fail_reply 1001 ''download unavailable'')"

definition view_has_url :: "task_view \<Rightarrow> bool" where
  "view_has_url v \<longleftrightarrow> tv_id v \<noteq> [] \<and> (trim_space (tv_poll v) \<noteq> [] \<or> trim_space (tv_download v) \<noteq> [])"

definition dl_status_text :: "dl_status \<Rightarrow> gostring" where
  "dl_status_text s = (case s of DlPending \<Rightarrow> ''pending'' | DlRunning \<Rightarrow> ''running'' | DlCompleted \<Rightarrow> ''completed'' | DlFailed \<Rightarrow> ''failed'')"

text \<open>The members of the answer, whatever their order in the encoded map.\<close>
definition fallback_data :: "task_view \<Rightarrow> (gostring \<times> json) list" where
  "fallback_data v = [(''taskId'', JStr (tv_id v)), (''status'', JStr (dl_status_text (tv_status v)))] @
     (if tv_progress v \<noteq> 0 then [(''progress'', JNum (show_int (tv_progress v)))] else []) @
     (if tv_poll v \<noteq> [] then [(''pollUrl'', JStr (tv_poll v))] else []) @
     (if tv_download v \<noteq> [] then [(''downloadUrl'', JStr (tv_download v))] else [])"

definition m3u8_data :: "task_view \<Rightarrow> (gostring \<times> json) list" where
  "m3u8_data v = [(''taskId'', JStr (tv_id v)),
      (''status'', JStr (if tv_status v = DlCompleted then ''done'' else dl_status_text (tv_status v)))] @
     (if tv_progress v \<noteq> 0 then [(''progress'', JNum (show_int (tv_progress v)))] else []) @
     (if tv_poll v \<noteq> [] then [(''pollUrl'', JStr (tv_poll v))] else []) @
     (if tv_status v = DlCompleted \<and> tv_file v \<noteq> [] then [(''url'', JStr (tv_file v))] else [])"

definition handle_create_fallback :: "'w download_api option \<Rightarrow> api_request \<Rightarrow> 'w \<Rightarrow> api_reply \<times> 'w" where
  "handle_create_fallback svc q w =
     (case ax_fallback q of
        None \<Rightarrow> (fail_reply 1004 ''invalid download fallback payload'', w)
      | Some b \<Rightarrow>
          (case svc of
             None \<Rightarrow> (fail_reply 1001 ''download fallback unavailable'', w)
           | Some s \<Rightarrow>
               let media = (if trim_space (fk_media b) = [] then trim_space (fk_url b) else trim_space (fk_media b)) in
               (case da_create s \<lparr>cf_request = \<lparr>fb_url = media, fb_type = fk_type b, fb_attempt = fk_attempt b\<rparr>,
                   cf_client = first_header (hq_get_header q) [''X-Client-ID'', ''X-Client-Id'']\<rparr> w of
                  (Inl e, w') \<Rightarrow> (download_error_response (Some e), w')
                | (Inr v, w') \<Rightarrow>
                    (if view_has_url v then ok_reply (ApiObject (fallback_data v)) else download_error_response None, w'))))"

definition handle_get_fallback :: "'w download_api option \<Rightarrow> api_request \<Rightarrow> 'w \<Rightarrow> api_reply" where
  "handle_get_fallback svc q w =
     (case svc of
        None \<Rightarrow> fail_reply 1004 ''download task not found''
      | Some s \<Rightarrow>
          (case da_get s (trim_space (hq_param q ''id'')) (trim_space (hq_query q ''ticket'')) w of
             Inl e \<Rightarrow> download_error_response (Some e)
           | Inr None \<Rightarrow> fail_reply 1004 ''download task not found''
           | Inr (Some v) \<Rightarrow>
               if tv_status v = DlCompleted \<and> tv_download v = [] then fail_reply 1001 ''download unavailable''
               else ok_reply (ApiObject (fallback_data v))))"

definition handle_create_m3u8 :: "'w download_api option \<Rightarrow> api_request \<Rightarrow> 'w \<Rightarrow> api_reply \<times> 'w" where
  "handle_create_m3u8 svc q w =
     (case (if hq_method q = ''GET'' then Some (hq_query q ''url'') else ax_merge q) of
        None \<Rightarrow> (fail_reply 1004 ''invalid m3u8 payload'', w)
      | Some url \<Rightarrow>
          if trim_space url = [] then (fail_reply 1004 ''invalid m3u8 payload'', w)
          else (case svc of
              None \<Rightarrow> (fail_reply 1001 ''m3u8 task unavailable'', w)
            | Some s \<Rightarrow>
                (case da_create_m3u8 s url w of
                   (Inl e, w') \<Rightarrow> (download_error_response (Some e), w')
                 | (Inr v, w') \<Rightarrow>
                     (if tv_id v = [] \<or> tv_poll v = [] then download_error_response None else ok_reply (ApiObject (m3u8_data v)), w'))))"

definition handle_get_m3u8 :: "'w download_api option \<Rightarrow> api_request \<Rightarrow> 'w \<Rightarrow> api_reply" where
  "handle_get_m3u8 svc q w =
     (case svc of
        None \<Rightarrow> fail_reply 1004 ''m3u8 task not found''
      | Some s \<Rightarrow>
          (case da_get_m3u8 s (trim_space (hq_param q ''id'')) w of
             Inl e \<Rightarrow> download_error_response (Some e)
           | Inr None \<Rightarrow> fail_reply 1004 ''m3u8 task not found''
           | Inr (Some v) \<Rightarrow>
               if tv_status v = DlCompleted \<and> tv_file v = [] then fail_reply 1001 ''download unavailable''
               else ok_reply (ApiObject (m3u8_data v))))"

text \<open>\<open>GetFallbackFile\<close> and \<open>GetM3U8File\<close> differ in the ticket they check and in a message.\<close>
definition serve_with_ticket :: "('w download_api \<Rightarrow> gostring \<Rightarrow> gostring \<Rightarrow> 'w \<Rightarrow> download_error option) \<Rightarrow> gostring
    \<Rightarrow> 'w download_api option \<Rightarrow> api_request \<Rightarrow> 'w \<Rightarrow> api_reply" where
  "serve_with_ticket check missing svc q w =
     (case svc of
        None \<Rightarrow> Envelope 403 1008 ''invalid download ticket'' ApiNone
      | Some s \<Rightarrow>
          let tid = trim_space (hq_param q ''id'') in
          (case check s tid (trim_space (hq_query q ''ticket'')) w of
             Some _ \<Rightarrow> Envelope 403 1008 ''invalid download ticket'' ApiNone
           | None \<Rightarrow>
               (case da_serve s tid w of
                  Inl _ \<Rightarrow> Envelope 404 1004 missing ApiNone
                | Inr (ct, path, content) \<Rightarrow> FileReply ct path content)))"

definition handle_fallback_file :: "'w download_api option \<Rightarrow> api_request \<Rightarrow> 'w \<Rightarrow> api_reply" where
  "handle_fallback_file = serve_with_ticket da_check_download ''download file not found''"

definition handle_m3u8_file :: "'w download_api option \<Rightarrow> api_request \<Rightarrow> 'w \<Rightarrow> api_reply" where
  "handle_m3u8_file = serve_with_ticket da_check_file ''m3u8 file not found''"

section \<open>The download service behind them\<close>

text \<open>
  \<open>runtimeDownloadService\<close> over the modelled service, at the times and with the entropy of the call; the
  files are read with \<open>content\<close>.  The transfer a creation starts runs beside the request.
\<close>
definition runtime_download_api :: "idna \<Rightarrow> (gostring \<Rightarrow> gostring option) \<Rightarrow> (gostring \<Rightarrow> gostring)
    \<Rightarrow> (filesystem \<Rightarrow> gostring \<Rightarrow> download_error + gostring) \<Rightarrow> download_config \<Rightarrow> gostring + gostring \<Rightarrow> gotime \<Rightarrow> gotime
    \<Rightarrow> download_world download_api" where
  "runtime_download_api idna absolute mime content cfg entropy now now' =
     \<lparr>da_create = (\<lambda>q (fs, st). (case runtime_create_fallback idna cfg None entropy now now' q st of (st', r, _) \<Rightarrow> (r, (fs, st')))),
      da_get = (\<lambda>tid ticket (fs, st). get_fallback cfg tid ticket now st),
      da_create_m3u8 = (\<lambda>url (fs, st). (case create_m3u8 idna cfg None entropy now url st of (st', r) \<Rightarrow> (r, (fs, st')))),
      da_get_m3u8 = (\<lambda>tid (fs, st). get_m3u8 cfg tid now st),
      da_check_download = (\<lambda>tid ticket _. validate_download_ticket cfg tid ticket now),
      da_check_file = (\<lambda>tid ticket _. validate_file_ticket cfg tid ticket now),
      da_serve = (\<lambda>tid (fs, st). serve_task_file absolute mime (content fs) cfg st tid)\<rparr>"

section \<open>What the middleware does\<close>

definition hex_digit :: "char \<Rightarrow> bool" where
  "hex_digit c \<longleftrightarrow> hex_val c \<noteq> None"

text \<open>The pattern \<open>[a-fA-F0-9]{32}\<close>.\<close>
definition request_id_ok :: "gostring \<Rightarrow> bool" where
  "request_id_ok s \<longleftrightarrow> length s = 32 \<and> list_all hex_digit s"

text \<open>\<open>entropy\<close>: the 16 bytes read, or None.\<close>
definition new_request_id :: "gostring option \<Rightarrow> gostring" where
  "new_request_id entropy = (case entropy of None \<Rightarrow> replicate 32 (CHR ''0'') | Some raw \<Rightarrow> hex_encode raw)"

definition request_id :: "gostring option \<Rightarrow> (gostring \<Rightarrow> gostring) \<Rightarrow> gostring" where
  "request_id entropy get =
     (let s = trim_space (get ''X-Request-ID'') in to_lower (if request_id_ok s then s else new_request_id entropy))"

definition cors_headers :: "(gostring \<Rightarrow> gostring) \<Rightarrow> (gostring \<times> gostring) list" where
  "cors_headers get =
     (let origin = trim_space (get ''Origin'') in
      (if origin \<noteq> [] then [(''Access-Control-Allow-Origin'', origin), (''Vary'', ''Origin'')] else []) @
      [(''Access-Control-Allow-Methods'', ''GET,POST,OPTIONS''),
       (''Access-Control-Allow-Headers'', ''Content-Type, Authorization, token, X-Request-ID, X-CSRF-Token, X-Client-ID''),
       (''Access-Control-Expose-Headers'', ''X-Request-ID, Content-Length, Content-Range'')])"

definition status_error_kind :: "int \<Rightarrow> gostring" where
  "status_error_kind s = (if s \<ge> 500 then ''http_5xx'' else if s \<ge> 400 then ''http_4xx'' else [])"

text \<open>\<open>observability.Event\<close>, and the line \<open>Log\<close> writes.\<close>
record log_entry =
  le_request :: gostring
  le_task :: gostring
  le_platform :: gostring
  le_parser :: gostring
  le_stage :: gostring
  le_attempt :: int
  le_cache :: gostring
  le_fallback :: bool
  le_kind :: gostring
  le_duration :: duration
  le_url :: gostring
  le_headers :: "(gostring \<times> gostring) list"
  le_error :: gostring

text \<open>\<open>Duration.Milliseconds\<close>, which rounds towards zero.\<close>
definition milliseconds :: "duration \<Rightarrow> int" where
  "milliseconds d = (if d < 0 then - ((- d) div 1000000) else d div 1000000)"

text \<open>A Go map is encoded in the order of its keys.\<close>
definition log_line :: "log_entry \<Rightarrow> gostring" where
  "log_line e = json_print (JObj [(''attempt'', JNum (show_int (le_attempt e))), (''cache'', JStr (le_cache e)),
     (''durationMs'', JNum (show_int (milliseconds (le_duration e)))), (''errorKind'', JStr (le_kind e)), (''fallback'', JBool (le_fallback e)),
     (''parser'', JStr (le_parser e)), (''platform'', JStr (le_platform e)), (''requestId'', JStr (le_request e)),
     (''stage'', JStr (le_stage e)), (''taskId'', JStr (le_task e))]) @ [CHR 0x0A]"

definition http_event :: "gostring \<Rightarrow> int \<Rightarrow> duration \<Rightarrow> log_entry" where
  "http_event rid status d = \<lparr>le_request = rid, le_task = [], le_platform = [], le_parser = [], le_stage = ''http'', le_attempt = 0,
     le_cache = [], le_fallback = False, le_kind = status_error_kind status, le_duration = d, le_url = [], le_headers = [], le_error = []\<rparr>"

section \<open>Performance samples\<close>

record performance =
  pf_capacity :: int
  pf_max_bytes :: int
  pf_events :: "(gotime \<times> gostring) list"
  pf_dropped :: int

definition new_performance :: "int \<Rightarrow> int \<Rightarrow> performance" where
  "new_performance capacity max_body =
     \<lparr>pf_capacity = (if capacity \<le> 0 then 128 else capacity), pf_max_bytes = (if max_body \<le> 0 then 16 * 1024 else max_body),
      pf_events = [], pf_dropped = 0\<rparr>"

text \<open>\<open>ServeHTTP\<close>; the body is None when reading it fails.  The queue is never read in this program.\<close>
definition performance_serve :: "gotime \<Rightarrow> gostring \<Rightarrow> gostring option \<Rightarrow> performance \<Rightarrow> int \<times> performance" where
  "performance_serve now meth body p =
     (if meth \<noteq> ''POST'' then (405, p)
      else (case map_option (take (nat (pf_max_bytes p + 1))) body of
          None \<Rightarrow> (400, p)
        | Some b \<Rightarrow>
            if int (length b) > pf_max_bytes p then (413, p)
            else if int (length (pf_events p)) < pf_capacity p then (200, p\<lparr>pf_events := pf_events p @ [(now, b)]\<rparr>)
            else (200, p\<lparr>pf_dropped := pf_dropped p + 1\<rparr>)))"


section \<open>The router\<close>

datatype route = RHealth | RClientSession | RParseAuthenticated | RParse | RHybrid | RLegacyShare | RLegacyId | RParseCache | RV1Parse
  | RV1ParseId | RTaskSubmit | RTaskGet | RCreateFallback | RGetFallback | RFallbackFile | RCreateM3u8 | RGetM3u8 | RM3u8File
  | RAdminLogin | RAdminSummary | RAdminSettings | RAdminProfile | RPerformance

record 'w router_options =
  ro_auth :: "'w client_api option"
  ro_run :: "'w parse_func option"
  ro_parse :: "'w parse_api option"
  ro_tasks :: "'w task_api option"
  ro_download :: "'w download_api option"
  ro_admin :: "'w admin_service option"

text \<open>The routes in the order of their registration.\<close>
definition route_table :: "'w router_options \<Rightarrow> (gostring \<times> gostring \<times> route) list" where
  "route_table opts =
     [(''GET'', ''/healthz'', RHealth), (''GET'', ''/health'', RHealth), (''GET'', ''/api/health'', RHealth),
      (''POST'', ''/api/client/session'', RClientSession),
      (''POST'', ''/api/parse'', if ro_auth opts \<noteq> None \<or> ro_run opts \<noteq> None then RParseAuthenticated else RParse),
      (''GET'', ''/api/hybrid/video_data'', RHybrid), (''GET'', ''/video/share/url/parse'', RLegacyShare),
      (''GET'', ''/video/id/parse'', RLegacyId), (''GET'', ''/api/parse/cache/:id'', RParseCache),
      (''GET'', ''/api/v1/parse'', RV1Parse), (''GET'', ''/api/v1/parse/:source/:video_id'', RV1ParseId),
      (''POST'', ''/api/parse/task'', RTaskSubmit), (''GET'', ''/api/parse/task/:id'', RTaskGet),
      (''POST'', ''/api/download/fallback'', RCreateFallback), (''GET'', ''/api/download/fallback/:id'', RGetFallback),
      (''GET'', ''/api/download/file/:id'', RFallbackFile), (''POST'', ''/api/m3u8/merge'', RCreateM3u8),
      (''GET'', ''/api/task/:id'', RGetM3u8), (''GET'', ''/api/task/file/:id'', RM3u8File), (''GET'', ''/api/m3u8/merge'', RCreateM3u8),
      (''POST'', ''/admin/api/login'', RAdminLogin), (''GET'', ''/admin/api/summary'', RAdminSummary),
      (''POST'', ''/admin/api/settings'', RAdminSettings), (''GET'', ''/api/profile'', RAdminProfile),
      (''POST'', ''/api/client/performance'', RPerformance)]"

text \<open>The randomness and the clocks of one call.\<close>
record call_env =
  ce_entropy :: "gostring option"
  ce_admin_entropy :: gostring
  ce_matches :: "gostring \<Rightarrow> gostring \<Rightarrow> bool"
  ce_now :: gotime
  ce_wall :: gotime
  ce_elapsed :: duration

definition parse_world :: "(api_reply \<times> 'w) \<Rightarrow> performance \<Rightarrow> router_reply \<times> 'w \<times> performance" where
  "parse_world r p = (ApiReply (fst r), snd r, p)"

definition run_route :: "'w router_options \<Rightarrow> call_env \<Rightarrow> route \<Rightarrow> api_request \<Rightarrow> 'w \<times> performance \<Rightarrow> router_reply \<times> 'w \<times> performance" where
  "run_route opts env r q s =
     (case s of (w, p) \<Rightarrow>
        (case r of
           RHealth \<Rightarrow> (ApiReply (ok_reply (ApiObject [(''status'', JStr ''ok'')])), w, p)
         | RClientSession \<Rightarrow> (case handle_client_session (ro_auth opts) q w of (reply, w') \<Rightarrow> (reply, w', p))
         | RParseAuthenticated \<Rightarrow> parse_world (handle_parse_authenticated (ro_auth opts) (ro_run opts) q w) p
         | RParse \<Rightarrow> parse_world (handle_parse (ro_parse opts) q w) p
         | RHybrid \<Rightarrow> parse_world (handle_hybrid (ro_parse opts) q w) p
         | RLegacyShare \<Rightarrow> parse_world (handle_legacy_share (ro_parse opts) q w) p
         | RLegacyId \<Rightarrow> parse_world (handle_legacy_id (ro_parse opts) q w) p
         | RParseCache \<Rightarrow> parse_world (handle_parse_cache (ro_parse opts) q w) p
         | RV1Parse \<Rightarrow> parse_world (handle_v1_parse (ro_parse opts) q w) p
         | RV1ParseId \<Rightarrow> parse_world (handle_v1_parse_id (ro_parse opts) q w) p
         | RTaskSubmit \<Rightarrow> parse_world (handle_task_submit (ro_tasks opts) q w) p
         | RTaskGet \<Rightarrow> parse_world (handle_task_get (ro_tasks opts) q w) p
         | RCreateFallback \<Rightarrow> parse_world (handle_create_fallback (ro_download opts) q w) p
         | RGetFallback \<Rightarrow> (ApiReply (handle_get_fallback (ro_download opts) q w), w, p)
         | RFallbackFile \<Rightarrow> (ApiReply (handle_fallback_file (ro_download opts) q w), w, p)
         | RCreateM3u8 \<Rightarrow> parse_world (handle_create_m3u8 (ro_download opts) q w) p
         | RGetM3u8 \<Rightarrow> (ApiReply (handle_get_m3u8 (ro_download opts) q w), w, p)
         | RM3u8File \<Rightarrow> (ApiReply (handle_m3u8_file (ro_download opts) q w), w, p)
         | RAdminLogin \<Rightarrow>
             (AdminReply (handle_admin_login (ce_matches env) (ro_admin opts) (ce_admin_entropy env) (ce_now env) (ce_wall env) (ax_admin q) w), w, p)
         | RAdminSummary \<Rightarrow> (AdminReply (handle_admin_summary (ro_admin opts) (ce_now env) (ce_wall env) (ax_admin q) w), w, p)
         | RAdminSettings \<Rightarrow> (case handle_update_settings (ro_admin opts) (ce_now env) (ax_admin q) w of (w', reply) \<Rightarrow> (AdminReply reply, w', p))
         | RAdminProfile \<Rightarrow> (AdminReply handle_admin_profile, w, p)
         | RPerformance \<Rightarrow> (case performance_serve (ce_now env) (hq_method q) (ax_body q) p of (status, p') \<Rightarrow> (ApiReply (BareStatus status), w, p'))))"

definition reply_status :: "router_reply \<Rightarrow> int" where
  "reply_status r =
     (case r of
        ApiReply a \<Rightarrow> (case a of Envelope st _ _ _ \<Rightarrow> st | V1Error st _ _ \<Rightarrow> st | V1Success _ \<Rightarrow> 200 | FileReply _ _ _ \<Rightarrow> 200 | BareStatus st \<Rightarrow> st)
      | LoginReply _ \<Rightarrow> 200 | AdminReply a \<Rightarrow> ry_status a | NotFound \<Rightarrow> 404)"

text \<open>\<open>an_log\<close> is what the logger is given when the router has one.\<close>
record api_answer =
  an_request_id :: gostring
  an_headers :: "(gostring \<times> gostring) list"
  an_reply :: router_reply
  an_log :: "log_entry option"

text \<open>
  A request through the middleware and its route; \<open>gin\<close> is gin's look-up: the position of the route and the
  path's parameters; its redirects of paths with a spare slash are left out.  A preflight request ends in the
  CORS middleware, before anything is logged.
\<close>
definition serve_request :: "((gostring \<times> gostring) list \<Rightarrow> gostring \<Rightarrow> gostring \<Rightarrow> (nat \<times> (gostring \<Rightarrow> gostring)) option) \<Rightarrow> 'w router_options
    \<Rightarrow> call_env \<Rightarrow> api_request \<Rightarrow> 'w \<times> performance \<Rightarrow> api_answer \<times> 'w \<times> performance" where
  "serve_request gin opts env q s =
     (let rid = request_id (ce_entropy env) (hq_get_header q);
          table = route_table opts;
          headers = (''X-Request-ID'', rid) # cors_headers (hq_get_header q)
      in if hq_method q = ''OPTIONS'' then
           (\<lparr>an_request_id = rid, an_headers = headers, an_reply = ApiReply (BareStatus 204), an_log = None\<rparr>, s)
         else
           let (reply, s') = (case gin (map (\<lambda>(m, p, _). (m, p)) table) (hq_method q) (ax_path q) of
                 None \<Rightarrow> (NotFound, s)
               | Some (k, param) \<Rightarrow>
                   if k < length table then run_route opts env (snd (snd (table ! k))) (q\<lparr>hq_param := param\<rparr>) s else (NotFound, s))
           in (\<lparr>an_request_id = rid, an_headers = headers, an_reply = reply,
                an_log = Some (http_event rid (reply_status reply) (ce_elapsed env))\<rparr>, s'))"

section \<open>The server\<close>

record server_options =
  so_addr :: gostring
  so_read_header :: duration
  so_read :: duration
  so_write :: duration
  so_idle :: duration

definition positive_or :: "duration \<Rightarrow> duration \<Rightarrow> duration" where
  "positive_or d x = (if x \<le> 0 then d else x)"

definition new_server :: "server_options \<Rightarrow> server_options" where
  "new_server o' = \<lparr>so_addr = (if trim_space (so_addr o') = [] then '':5001'' else trim_space (so_addr o')),
     so_read_header = positive_or (10 * second) (so_read_header o'), so_read = positive_or (20 * second) (so_read o'),
     so_write = positive_or (40 * second) (so_write o'), so_idle = positive_or (60 * second) (so_idle o')\<rparr>"

definition server_from_port :: "gostring \<Rightarrow> server_options" where
  "server_from_port port = new_server \<lparr>so_addr = '':'' @ (if trim_space port = [] then ''5001'' else trim_space port),
     so_read_header = 0, so_read = 0, so_write = 0, so_idle = 0\<rparr>"


section \<open>Files need tickets\<close>

text \<open>Every recorded file is the one under the task's own path.\<close>
definition files_ok :: "(gostring \<Rightarrow> gostring option) \<Rightarrow> download_config \<Rightarrow> download_state \<Rightarrow> bool" where
  "files_ok absolute cfg st \<longleftrightarrow>
     (\<forall>tid path ct. map_of (ds_files st) tid = Some (path, ct) \<longrightarrow> task_file_path absolute cfg tid = Inr path)"

lemma served_path:
  assumes "serve_task_file absolute mime content cfg st tid = Inr (ct, path, body)" and "files_ok absolute cfg st"
  shows "task_file_path absolute cfg tid = Inr path" and "content path = Inr body"
proof -
  obtain path0 where p0: "task_file_path absolute cfg tid = Inr path0" and
      p: "content (if fst (get_or ([], []) (ds_files st) tid) \<noteq> [] then fst (get_or ([], []) (ds_files st) tid) else path0) = Inr body"
      "path = (if fst (get_or ([], []) (ds_files st) tid) \<noteq> [] then fst (get_or ([], []) (ds_files st) tid) else path0)"
    using assms(1) by (auto simp: serve_task_file_def go_errors Let_def case_prod_beta)
  show "content path = Inr body" using p by simp
  show "task_file_path absolute cfg tid = Inr path"
  proof (cases "fst (get_or ([], []) (ds_files st) tid) \<noteq> []")
    case True
    then obtain q c where "map_of (ds_files st) tid = Some (q, c)" "fst (get_or ([], []) (ds_files st) tid) = q"
      by (cases "map_of (ds_files st) tid") (auto simp: get_or_def)
    then show ?thesis using assms(2) p(2) True by (auto simp: files_ok_def)
  qed (use p0 p in simp)
qed

lemma ticket_checked:
  assumes "validate_ticket purpose cfg tid ticket now = None"
  shows "\<exists>claims seg sig. verify_ticket (dc_key cfg) ticket purpose now = Inr claims \<and> tc_task claims = trim_space tid \<and> now < tc_expires claims \<and>
    trim_space ticket = seg @ ''.'' @ sig \<and> b64_decode sig = Some (hmac_sha256 (dc_key cfg) seg)"
proof -
  obtain claims where v: "verify_ticket (dc_key cfg) ticket purpose now = Inr claims" "tc_task claims = trim_space tid"
    using assms by (auto simp: validate_ticket_def split: sum.splits if_splits)
  with verified_signed [OF v(1)] show ?thesis by blast
qed

text \<open>What a file that was sent to a client implies.\<close>
lemma file_reply_ticket:
  assumes "serve_with_ticket check missing (Some (runtime_download_api idna absolute mime content cfg entropy now now')) q (fs, st) = FileReply ct path body"
    and "\<And>tid ticket w. check (runtime_download_api idna absolute mime content cfg entropy now now') tid ticket w = validate_ticket purpose cfg tid ticket now"
    and "files_ok absolute cfg st"
  shows "\<exists>claims seg sig root. verify_ticket (dc_key cfg) (trim_space (hq_query q ''ticket'')) purpose now = Inr claims \<and>
    tc_task claims = trim_space (hq_param q ''id'') \<and> now < tc_expires claims \<and>
    trim_space (hq_query q ''ticket'') = seg @ ''.'' @ sig \<and> b64_decode sig = Some (hmac_sha256 (dc_key cfg) seg) \<and>
    absolute (dc_root cfg) = Some root \<and> path = root @ ''/'' @ tc_task claims @ ''.bin'' \<and> safe_task_id (tc_task claims) \<and>
    content fs path = Inr body"
proof -
  let ?tid = "trim_space (hq_param q ''id'')" and ?ticket = "trim_space (hq_query q ''ticket'')"
  have v: "validate_ticket purpose cfg ?tid ?ticket now = None"
      and s: "serve_task_file absolute mime (content fs) cfg st ?tid = Inr (ct, path, body)"
    using assms(1) unfolding serve_with_ticket_def option.case Let_def assms(2)
    by (auto simp: runtime_download_api_def split: option.splits sum.splits)
  obtain claims seg sig where c: "verify_ticket (dc_key cfg) ?ticket purpose now = Inr claims" "tc_task claims = ?tid" "now < tc_expires claims"
      "?ticket = seg @ ''.'' @ sig" "b64_decode sig = Some (hmac_sha256 (dc_key cfg) seg)"
    using ticket_checked [OF v] by auto
  obtain root where "absolute (dc_root cfg) = Some root" "safe_task_id ?tid" "path = root @ ''/'' @ ?tid @ ''.bin''"
    by (rule task_file_path_Inr [OF served_path(1) [OF s assms(3)]]) simp
  then show ?thesis using c served_path(2) [OF s assms(3)] by (metis (no_types))
qed

text \<open>The route gin found for a request.\<close>
definition routed :: "((gostring \<times> gostring) list \<Rightarrow> gostring \<Rightarrow> gostring \<Rightarrow> (nat \<times> (gostring \<Rightarrow> gostring)) option) \<Rightarrow> 'w router_options
    \<Rightarrow> api_request \<Rightarrow> (route \<times> (gostring \<Rightarrow> gostring)) option" where
  "routed gin opts q =
     (if hq_method q = ''OPTIONS'' then None
      else (case gin (map (\<lambda>(m, p, _). (m, p)) (route_table opts)) (hq_method q) (ax_path q) of
          None \<Rightarrow> None
        | Some (k, param) \<Rightarrow> if k < length (route_table opts) then Some (snd (snd (route_table opts ! k)), param) else None))"

lemma serve_routed:
  "serve_request gin opts env q s =
     (case routed gin opts q of
        Some (r, param) \<Rightarrow>
          (\<lparr>an_request_id = request_id (ce_entropy env) (hq_get_header q),
             an_headers = (''X-Request-ID'', request_id (ce_entropy env) (hq_get_header q)) # cors_headers (hq_get_header q),
             an_reply = fst (run_route opts env r (q\<lparr>hq_param := param\<rparr>) s),
             an_log = Some (http_event (request_id (ce_entropy env) (hq_get_header q))
               (reply_status (fst (run_route opts env r (q\<lparr>hq_param := param\<rparr>) s))) (ce_elapsed env))\<rparr>,
           snd (run_route opts env r (q\<lparr>hq_param := param\<rparr>) s))
      | None \<Rightarrow>
          (\<lparr>an_request_id = request_id (ce_entropy env) (hq_get_header q),
             an_headers = (''X-Request-ID'', request_id (ce_entropy env) (hq_get_header q)) # cors_headers (hq_get_header q),
             an_reply = (if hq_method q = ''OPTIONS'' then ApiReply (BareStatus 204) else NotFound),
             an_log = (if hq_method q = ''OPTIONS'' then None
               else Some (http_event (request_id (ce_entropy env) (hq_get_header q)) 404 (ce_elapsed env)))\<rparr>, s))"
  by (simp add: serve_request_def routed_def Let_def case_prod_beta reply_status_def split: option.split)

text \<open>No other handler sends a file.\<close>
lemma envelope_no_file:
  "ok_reply d \<noteq> FileReply ct path body" "fail_reply code msg \<noteq> FileReply ct path body" "download_error_response e \<noteq> FileReply ct path body"
  by (simp_all add: ok_reply_def fail_reply_def download_error_response_def Let_def)

lemma parse_no_file:
  "parse_reply okc f r \<noteq> FileReply ct path body" "v1_reply st r \<noteq> FileReply ct path body"
  by (simp_all add: parse_reply_def v1_reply_def fail_reply_def split: sum.split)

lemma no_file:
  "r \<noteq> RFallbackFile \<Longrightarrow> r \<noteq> RM3u8File \<Longrightarrow> fst (run_route opts env r q (w, p)) \<noteq> ApiReply (FileReply ct path body)"
  by (cases r)
    (auto simp: run_route_def parse_world_def handle_client_session_def handle_parse_authenticated_def handle_parse_def handle_hybrid_def
      handle_legacy_share_def handle_legacy_id_def handle_parse_cache_def handle_v1_parse_def handle_v1_parse_id_def handle_task_submit_def
      handle_task_get_def handle_create_fallback_def handle_get_fallback_def handle_create_m3u8_def handle_get_m3u8_def
      envelope_no_file parse_no_file Let_def split: option.splits sum.splits prod.splits)

lemma file_route:
  assumes "an_reply (fst (serve_request gin opts env q (w, p))) = ApiReply (FileReply ct path body)"
  shows "\<exists>r param. routed gin opts q = Some (r, param) \<and> snd (serve_request gin opts env q (w, p)) = (w, p) \<and>
    (r = RFallbackFile \<and> handle_fallback_file (ro_download opts) (q\<lparr>hq_param := param\<rparr>) w = FileReply ct path body \<or>
     r = RM3u8File \<and> handle_m3u8_file (ro_download opts) (q\<lparr>hq_param := param\<rparr>) w = FileReply ct path body)"
proof -
  obtain r param where r: "routed gin opts q = Some (r, param)"
    using assms by (auto simp: serve_routed split: option.splits if_splits)
  have run: "fst (run_route opts env r (q\<lparr>hq_param := param\<rparr>) (w, p)) = ApiReply (FileReply ct path body)"
    using assms r by (simp add: serve_routed)
  have "r = RFallbackFile \<or> r = RM3u8File"
    using run no_file [of r opts env _ w p ct path body] by blast
  then show ?thesis using run r by (auto simp: serve_routed run_route_def)
qed


section \<open>The steps of the download service\<close>

text \<open>What requests, transfers and the clean-up do to the files and the tasks, in any order.\<close>
inductive download_step :: "idna \<Rightarrow> (gostring \<Rightarrow> gostring option) \<Rightarrow> download_config \<Rightarrow> download_world \<Rightarrow> download_world \<Rightarrow> bool"
  for idna absolute cfg where
  step_create: "create_fallback idna cfg ctx entropy now now' q st = (st', r) \<Longrightarrow> download_step idna absolute cfg (fs, st) (fs, st')"
| step_m3u8: "create_m3u8 idna cfg ctx entropy now url st = (st', r) \<Longrightarrow> download_step idna absolute cfg (fs, st) (fs, st')"
| step_acquire: "acquire_transfer cfg ctx client st = Inr st' \<Longrightarrow> download_step idna absolute cfg (fs, st) (fs, st')"
| step_release: "download_step idna absolute cfg (fs, st) (fs, release_transfer client st)"
| step_write: "write_completed_file absolute fault cfg ctx now tid body wrote ct s = (s', e) \<Longrightarrow> download_step idna absolute cfg s s'"
| step_fail: "mark_failed cfg ctx now tid st = (st', e) \<Longrightarrow> download_step idna absolute cfg (fs, st) (fs, st')"
| step_cleanup: "cleanup_expired absolute fault cfg ctx clk now s = (s', n, e) \<Longrightarrow> download_step idna absolute cfg s s'"

lemma map_of_filter_key: "map_of (filter (\<lambda>(k, v). P k) m) x = (if P x then map_of m x else None)"
  by (induction m) auto

lemma files_kept:
  "create_fallback idna cfg ctx entropy now now' q st = (st', r) \<Longrightarrow> ds_files st' = ds_files st"
  "create_m3u8 idna cfg ctx entropy now url st = (st', r2) \<Longrightarrow> ds_files st' = ds_files st"
  "acquire_transfer cfg ctx client st = Inr st' \<Longrightarrow> ds_files st' = ds_files st"
  "mark_failed cfg ctx now tid st = (st', e) \<Longrightarrow> ds_files st' = ds_files st"
  by (auto simp: create_fallback_def create_m3u8_def acquire_transfer_def mark_failed_def Let_def split: sum.splits option.splits if_splits)

lemma files_ok_write:
  assumes "write_completed_file absolute fault cfg ctx now tid body wrote ct (fs, st) = ((fs', st'), e)" and "files_ok absolute cfg st"
  shows "files_ok absolute cfg st'"
proof (cases e)
  case (Some x)
  then show ?thesis using write_failed_state assms by metis
next
  case None
  have "\<exists>path v. task_file_path absolute cfg tid = Inr path \<and> ds_files st' = AList.update tid (path, v) (ds_files st)"
    using assms(1) None by (auto simp: write_completed_file_def rbind_def Let_def split: sum.splits prod.splits option.splits)
  then show ?thesis using assms(2) by (auto simp: files_ok_def update_conv' split: if_splits)
qed

lemma files_ok_step:
  assumes "download_step idna absolute cfg s s'" and "files_ok absolute cfg (snd s)"
  shows "files_ok absolute cfg (snd s')"
  using assms
proof (cases rule: download_step.cases)
  case (step_write fault ctx now tid body wrote ct e)
  then show ?thesis using assms(2) files_ok_write by (metis prod.collapse)
next
  case (step_cleanup fault ctx clk now n e)
  then show ?thesis using assms(2)
    by (auto simp: cleanup_expired_def files_ok_def Let_def map_of_filter_key split: option.splits prod.splits if_splits)
qed (auto simp: files_ok_def files_kept release_keeps)

lemma files_ok_run:
  assumes "new_download_service tmp options = Inr (cfg, st0)" and "(download_step idna absolute cfg)\<^sup>*\<^sup>* (fs0, st0) s"
  shows "files_ok absolute cfg (snd s)"
  using assms(2)
proof induction
  case base
  show ?case using assms(1) by (auto simp: new_download_service_def files_ok_def split: if_splits)
qed (rule files_ok_step)

text \<open>
  C38.  Files are sent only for their tickets.  After any sequence of steps of the download service, whatever
  request the server answers with a file came through one of the two file routes and carried a ticket that is
  signed with the service's key, not expired, made for that route and for the task in the path; the file is
  that task's own file under the root directory, and the request changed nothing.
\<close>
theorem download_file_needs_ticket:
  assumes "new_download_service tmp options = Inr (cfg, st0)" and "(download_step idna absolute cfg)\<^sup>*\<^sup>* (fs0, st0) (fs, st)"
    and "ro_download opts = Some (runtime_download_api idna absolute mime content cfg entropy now now')"
    and "serve_request gin opts env q ((fs, st), p) = (a, s')" and "an_reply a = ApiReply (FileReply ct path body)"
  shows "s' = ((fs, st), p) \<and>
    (\<exists>r param claims seg sig root. routed gin opts q = Some (r, param) \<and> r \<in> {RFallbackFile, RM3u8File} \<and>
       verify_ticket (dc_key cfg) (trim_space (hq_query q ''ticket'')) (if r = RFallbackFile then purpose_download else purpose_m3u8) now = Inr claims \<and>
       tc_task claims = trim_space (param ''id'') \<and> now < tc_expires claims \<and>
       trim_space (hq_query q ''ticket'') = seg @ ''.'' @ sig \<and> b64_decode sig = Some (hmac_sha256 (dc_key cfg) seg) \<and>
       absolute (dc_root cfg) = Some root \<and> path = root @ ''/'' @ tc_task claims @ ''.bin'' \<and> safe_task_id (tc_task claims) \<and>
       content fs path = Inr body)"
proof -
  have f: "files_ok absolute cfg st" using files_ok_run [OF assms(1,2)] by simp
  obtain r param where r: "routed gin opts q = Some (r, param)" "s' = ((fs, st), p)"
      "r = RFallbackFile \<and> handle_fallback_file (ro_download opts) (q\<lparr>hq_param := param\<rparr>) (fs, st) = FileReply ct path body \<or>
       r = RM3u8File \<and> handle_m3u8_file (ro_download opts) (q\<lparr>hq_param := param\<rparr>) (fs, st) = FileReply ct path body"
    using file_route [of gin opts env q "(fs, st)" p ct path body] assms(4,5) by auto
  note api = runtime_download_api_def validate_download_ticket_def validate_file_ticket_def
  from r(3) show ?thesis
  proof
    assume x: "r = RFallbackFile \<and> handle_fallback_file (ro_download opts) (q\<lparr>hq_param := param\<rparr>) (fs, st) = FileReply ct path body"
    have "serve_with_ticket da_check_download ''download file not found''
        (Some (runtime_download_api idna absolute mime content cfg entropy now now')) (q\<lparr>hq_param := param\<rparr>) (fs, st) = FileReply ct path body"
      using x by (simp add: handle_fallback_file_def assms(3))
    from file_reply_ticket [OF this _ f, of purpose_download] show ?thesis using r(1,2) x by (simp add: api)
  next
    assume x: "r = RM3u8File \<and> handle_m3u8_file (ro_download opts) (q\<lparr>hq_param := param\<rparr>) (fs, st) = FileReply ct path body"
    have "serve_with_ticket da_check_file ''m3u8 file not found''
        (Some (runtime_download_api idna absolute mime content cfg entropy now now')) (q\<lparr>hq_param := param\<rparr>) (fs, st) = FileReply ct path body"
      using x by (simp add: handle_m3u8_file_def assms(3))
    from file_reply_ticket [OF this _ f, of purpose_m3u8] show ?thesis using r(1,2) x by (simp add: api)
  qed
qed

section \<open>From the request to the file\<close>

lemma safe_id_ascii: "safe_task_id tid \<Longrightarrow> is_ascii tid"
  by (auto simp: safe_task_id_def is_ascii_def list_all_iff safe_id_char_def is_alnum_def Let_def)

lemma purposes_ascii: "is_ascii purpose_poll" "is_ascii purpose_download" "trim_space purpose_download \<noteq> []"
  by code_simp+

lemma signed_checks:
  assumes "sign_ticket (dc_key cfg) \<lparr>tc_task = tid, tc_purpose = purpose, tc_expires = ex\<rparr> now = Inr raw"
    and "is_ascii tid" and "trim_space tid = tid" and "is_ascii purpose" and "unix_epoch \<le> ex" and "ex < unix_epoch + 2 ^ 63" and "now' < ex"
  shows "verify_ticket (dc_key cfg) raw purpose now' = Inr \<lparr>tc_task = tid, tc_purpose = purpose, tc_expires = ex\<rparr>"
    and "validate_ticket purpose cfg tid raw now' = None"
proof -
  show v: "verify_ticket (dc_key cfg) raw purpose now' = Inr \<lparr>tc_task = tid, tc_purpose = purpose, tc_expires = ex\<rparr>"
    using signed_verifies [OF assms(1), of now'] assms(2-7) by simp
  then show "validate_ticket purpose cfg tid raw now' = None" by (simp add: validate_ticket_def assms(3))
qed

lemma served_file:
  assumes "task_file_path absolute cfg tid = Inr path" and "map_of (ds_files st) tid = Some (path, ct)" and "trim_space ct \<noteq> []"
    and "content path = Inr body"
  shows "serve_task_file absolute mime content cfg st tid = Inr (ct, path, body)"
proof -
  obtain root where "path = root @ ''/'' @ trim_space tid @ ''.bin''" by (rule task_file_path_Inr [OF assms(1)])
  then show ?thesis using assms by (auto simp: serve_task_file_def rbind_def get_or_def)
qed

lemma download_flow:
  assumes done': "transfer_completed idna env run tid r (fs, st) path ct body w" and safe: "safe_task_id tid" "trim_space tid = tid"
    and poll: "sign_ticket (dc_key (te_config env)) \<lparr>tc_task = tid, tc_purpose = purpose_poll, tc_expires = now + dc_ttl (te_config env)\<rparr> now' = Inr poll"
    and content: "\<And>p b. map_of fs p = Some (FileNode b) \<Longrightarrow> content fs p = Inr b"
    and times: "unix_epoch \<le> now" "now \<le> now1" "now1 < now + dc_ttl (te_config env)" "now1 + dc_ttl (te_config env) < unix_epoch + 2 ^ 63"
      "now2 < now1 + dc_ttl (te_config env)"
  obtains ticket where
    "\<And>q. hq_param q ''id'' = tid \<Longrightarrow> hq_query q ''ticket'' = poll \<Longrightarrow>
       handle_get_fallback (Some (runtime_download_api idna (te_absolute env) mime content (te_config env) e now1 n1)) q (fs, st) =
       ok_reply (ApiObject (fallback_data (w\<lparr>tv_download := with_base_url (te_config env) (''/api/download/file/'' @ tid @ ''?ticket='' @ ticket)\<rparr>)))"
    "\<And>q. hq_param q ''id'' = tid \<Longrightarrow> hq_query q ''ticket'' = ticket \<Longrightarrow>
       handle_fallback_file (Some (runtime_download_api idna (te_absolute env) mime content (te_config env) e2 now2 n2)) q (fs, st) = FileReply ct path body"
proof -
  let ?cfg = "te_config env"
  have key: "dc_key ?cfg \<noteq> []" "tid \<noteq> []" using poll safe(2) by (auto simp: sign_ticket_def Let_def split: if_splits)
  have ttl: "0 < dc_ttl ?cfg" "unix_epoch < now1 + dc_ttl ?cfg" using times by simp_all
  have e: "0 < unix_epoch" by code_simp
  obtain ticket where t: "sign_ticket (dc_key ?cfg) \<lparr>tc_task = tid, tc_purpose = purpose_download, tc_expires = now1 + dc_ttl ?cfg\<rparr> now1 = Inr ticket"
    using key ttl e safe(2) purposes_ascii by (auto simp: sign_ticket_def Let_def)
  have b: "build_ticket_url ?cfg (''/api/download/file/'' @ tid) tid purpose_download (now1 + dc_ttl ?cfg) now1 =
      Inr (with_base_url ?cfg (''/api/download/file/'' @ tid @ ''?ticket='' @ ticket))"
    using t by (simp add: build_ticket_url_def)
  note d = done' [unfolded transfer_completed_def fst_conv snd_conv]
  have v: "verify_ticket (dc_key ?cfg) poll purpose_poll now1 = Inr \<lparr>tc_task = tid, tc_purpose = purpose_poll, tc_expires = now + dc_ttl ?cfg\<rparr>"
    using signed_checks(1) [OF poll safe_id_ascii [OF safe(1)] safe(2) purposes_ascii(1)] times ttl by simp
  have c: "validate_ticket purpose_download ?cfg tid ticket now2 = None"
    using signed_checks(2) [OF t safe_id_ascii [OF safe(1)] safe(2) purposes_ascii(2)] times ttl by simp
  have "trim_space ''application/octet-stream'' \<noteq> []" by code_simp
  then have "trim_space ct \<noteq> []" using d by (auto split: if_splits)
  then have s: "serve_task_file (te_absolute env) mime (content fs) ?cfg st tid = Inr (ct, path, body)"
    using served_file [of "te_absolute env" ?cfg tid path st ct "content fs" body mime] content d by blast
  show thesis
  proof (rule that [of ticket])
    fix q :: api_request
    assume q: "hq_param q ''id'' = tid" "hq_query q ''ticket'' = poll"
    have "get_fallback ?cfg tid poll now1 st = Inr (Some (w\<lparr>tv_download := with_base_url ?cfg (''/api/download/file/'' @ tid @ ''?ticket='' @ ticket)\<rparr>))"
      using v b d safe(2) by (simp add: get_fallback_def rbind_def require_def)
    then show "handle_get_fallback (Some (runtime_download_api idna (te_absolute env) mime content ?cfg e now1 n1)) q (fs, st) =
       ok_reply (ApiObject (fallback_data (w\<lparr>tv_download := with_base_url ?cfg (''/api/download/file/'' @ tid @ ''?ticket='' @ ticket)\<rparr>)))"
      using q safe(2) signed_plain [OF poll] by (simp add: handle_get_fallback_def runtime_download_api_def with_base_url_def)
  next
    fix q :: api_request
    assume q: "hq_param q ''id'' = tid" "hq_query q ''ticket'' = ticket"
    show "handle_fallback_file (Some (runtime_download_api idna (te_absolute env) mime content ?cfg e2 now2 n2)) q (fs, st) = FileReply ct path body"
      using q safe(2) signed_plain [OF t] c s
      by (simp add: handle_fallback_file_def serve_with_ticket_def runtime_download_api_def validate_download_ticket_def Let_def)
  qed
qed

text \<open>
  C39.  A file can be fetched from its request to its bytes.  A fallback task is created and its transfer
  completes: the answer to the creation carries a poll URL whose ticket makes the poll route answer the task
  with a download URL, and that URL's ticket makes the file route send exactly the bytes that the guarded
  fetch of the requested URL brought, as long as each ticket is used before it expires.
\<close>
theorem fallback_download_flow:
  assumes "runtime_create_fallback idna (te_config env) None (Inr raw) now now' q st0 = (st, Inr v, Some (tid, q))" and "length raw = 16"
    and "te_fetch env = Some run" and "\<And>x s. snd (run x s) = s" and "transfers_ok (te_config env) (st, held)"
    and "start_transfer idna env tid q (fs, st) = Some (fs', st')" and "map_of (ds_tasks st') tid = Some w" and "tv_status w = DlCompleted"
    and "\<And>p b. map_of fs' p = Some (FileNode b) \<Longrightarrow> content fs' p = Inr b"
    and "unix_epoch \<le> now" and "now \<le> now1" and "now1 < now + dc_ttl (te_config env)" and "now1 + dc_ttl (te_config env) < unix_epoch + 2 ^ 63"
    and "now2 < now1 + dc_ttl (te_config env)"
  shows "\<exists>poll ticket path ct body target limit r t.
    tv_poll v = with_base_url (te_config env) (''/api/download/fallback/'' @ tid @ ''?ticket='' @ poll) \<and>
    (\<forall>h :: api_request. hq_param h ''id'' = tid \<longrightarrow> hq_query h ''ticket'' = poll \<longrightarrow>
       handle_get_fallback (Some (runtime_download_api idna (te_absolute env) mime content (te_config env) e now1 n1)) h (fs', st') =
       ok_reply (ApiObject (fallback_data (w\<lparr>tv_download := with_base_url (te_config env) (''/api/download/file/'' @ tid @ ''?ticket='' @ ticket)\<rparr>)))) \<and>
    (\<forall>h :: api_request. hq_param h ''id'' = tid \<longrightarrow> hq_query h ''ticket'' = ticket \<longrightarrow>
       handle_fallback_file (Some (runtime_download_api idna (te_absolute env) mime content (te_config env) e2 now2 n2)) h (fs', st') =
       FileReply ct path body) \<and>
    new_fetch_url idna (trim_space (fb_url (cf_request q))) = Some target \<and> max_bytes (fb_type (cf_request q)) = Inr limit \<and>
    fst (run \<lparr>fr_method = ''GET'', fr_url = Some target, fr_header = [], fr_redirects = 3\<rparr> t) = Inr r \<and>
    copy_stream limit [] (tr_events r) = Some (body, None)"
proof -
  have c: "create_fallback idna (te_config env) None (Inr raw) now now' (cf_request q) st0 = (st, Inr v)" and t: "tid = tv_id v"
    using assms(1) by (auto simp: runtime_create_fallback_def split: prod.splits sum.splits)
  note cr = created_fallback [OF c assms(2), folded t]
  have "(\<exists>w. map_of (ds_tasks st') tid = Some w \<and> tv_status w = DlFailed) \<or>
      (\<exists>path ct body w. transfer_completed idna env run tid (cf_request q) (fs', st') path ct body w)"
    using transfer_outcome [OF c assms(2) t assms(3-6)] by blast
  then obtain path ct body w' where d': "transfer_completed idna env run tid (cf_request q) (fs', st') path ct body w'"
    using assms(7,8) by auto
  have "w' = w" using d' assms(7) by (simp add: transfer_completed_def)
  note d = d' [unfolded this]
  obtain poll where p: "sign_ticket (dc_key (te_config env)) \<lparr>tc_task = tid, tc_purpose = purpose_poll, tc_expires = now + dc_ttl (te_config env)\<rparr> now' = Inr poll"
      and v: "tv_poll v = with_base_url (te_config env) (''/api/download/fallback/'' @ tid @ ''?ticket='' @ poll)"
    using cr(4) by (auto simp: build_ticket_url_def new_view_def split: sum.splits)
  obtain ticket where k:
    "\<And>h :: api_request. hq_param h ''id'' = tid \<Longrightarrow> hq_query h ''ticket'' = poll \<Longrightarrow>
       handle_get_fallback (Some (runtime_download_api idna (te_absolute env) mime content (te_config env) e now1 n1)) h (fs', st') =
       ok_reply (ApiObject (fallback_data (w\<lparr>tv_download := with_base_url (te_config env) (''/api/download/file/'' @ tid @ ''?ticket='' @ ticket)\<rparr>)))"
    "\<And>h :: api_request. hq_param h ''id'' = tid \<Longrightarrow> hq_query h ''ticket'' = ticket \<Longrightarrow>
       handle_fallback_file (Some (runtime_download_api idna (te_absolute env) mime content (te_config env) e2 now2 n2)) h (fs', st') = FileReply ct path body"
    using download_flow [where content = content, OF d cr(1,2) p assms(9-14)] by metis
  show ?thesis using d [unfolded transfer_completed_def fst_conv snd_conv] k v by blast
qed

definition demo_content :: "filesystem \<Rightarrow> gostring \<Rightarrow> download_error + gostring" where
  "demo_content fs p = (case map_of fs p of Some (FileNode b) \<Rightarrow> Inr b | _ \<Rightarrow> Inl UnsafePath)"

lemma demo_times: "0 < dc_ttl demo_config" "unix_epoch + 2 * dc_ttl demo_config < unix_epoch + 2 ^ 63"
  by (simp_all add: demo_config_def minute_def second_def)

theorem fallback_download_flow_witness:
  "\<exists>st v fs' st' poll ticket path ct.
    runtime_create_fallback demo_idna demo_config None (Inr ''0123456789abcdef'') unix_epoch unix_epoch demo_fallback demo_state =
      (st, Inr v, Some (demo_task, demo_fallback)) \<and>
    start_transfer demo_idna demo_transfer demo_task demo_fallback ([], st) = Some (fs', st') \<and>
    tv_poll v = with_base_url demo_config (''/api/download/fallback/'' @ demo_task @ ''?ticket='' @ poll) \<and>
    (\<forall>h :: api_request. hq_param h ''id'' = demo_task \<longrightarrow> hq_query h ''ticket'' = ticket \<longrightarrow>
       handle_fallback_file (Some (runtime_download_api demo_idna Some id demo_content demo_config (Inr []) unix_epoch unix_epoch)) h (fs', st') =
       FileReply ct path ''abc'')"
proof -
  obtain v st where c: "runtime_create_fallback demo_idna demo_config None (Inr ''0123456789abcdef'') unix_epoch unix_epoch demo_fallback demo_state =
      (st, Inr v, Some (demo_task, demo_fallback))" and st: "st = demo_state\<lparr>ds_tasks := [(demo_task, v)]\<rparr>" by (rule demo_created)
  obtain fs' st' w where s: "start_transfer demo_idna demo_transfer demo_task demo_fallback ([], st) = Some (fs', st')"
      "map_of (ds_tasks st') demo_task = Some w" "tv_status w = DlCompleted" by (rule demo_settles [OF st])
  have a: "te_absolute demo_transfer = Some" by (simp add: demo_transfer_def)
  have m: "cf_request demo_fallback = \<lparr>fb_url = ''https://v.example/1.mp4'', fb_type = MediaVideo, fb_attempt = 4\<rparr>" "max_bytes MediaVideo = Inr (300 * 1048576)"
    by (simp_all add: demo_fallback_def max_bytes_def)
  show ?thesis
    using fallback_download_flow [where env = demo_transfer, unfolded demo_quiet(2) a, OF c _ demo_quiet(1) _ demo_transfers_ok [of "[(demo_task, v)]", folded st] s,
        of demo_content unix_epoch unix_epoch id "Inr []" unix_epoch "Inr []" unix_epoch] c s(1) demo_times
    by (auto simp: demo_content_def m demo_transfer_facts(7))
qed

lemma demo_write: "case write_completed_file Some (\<lambda>_. None) demo_config None 5 ''task_001'' ''body'' [] [] ([], demo_state) of (_, None) \<Rightarrow> True | _ \<Rightarrow> False"
  by code_simp

definition demo_file_request :: "gostring \<Rightarrow> api_request" where
  "demo_file_request ticket = \<lparr>hq_method = ''GET'', hq_get_header = (\<lambda>_. []), hq_query = (\<lambda>k. if k = ''ticket'' then ticket else []),
     hq_param = (\<lambda>_. []), hq_parse = None, ax_path = ''/api/download/file/task_001'', ax_header = [], ax_login = None, ax_fallback = None,
     ax_merge = None, ax_admin = \<lparr>rq_login = None, rq_cookie = None, rq_method = ''GET'', rq_origin = [], rq_host = [], rq_csrf = [],
       rq_forwarded = [], rq_tls = True\<rparr>, ax_body = None\<rparr>"

definition demo_router :: "download_world router_options" where
  "demo_router = \<lparr>ro_auth = None, ro_run = None, ro_parse = None, ro_tasks = None,
     ro_download = Some (runtime_download_api demo_idna Some (\<lambda>_. []) demo_content demo_config (Inr []) unix_epoch unix_epoch), ro_admin = None\<rparr>"

definition demo_call :: call_env where
  "demo_call = \<lparr>ce_entropy = None, ce_admin_entropy = [], ce_matches = (\<lambda>_ _. False), ce_now = 0, ce_wall = 0, ce_elapsed = 0\<rparr>"

definition demo_gin :: "(gostring \<times> gostring) list \<Rightarrow> gostring \<Rightarrow> gostring \<Rightarrow> (nat \<times> (gostring \<Rightarrow> gostring)) option" where
  "demo_gin table m p = (if m = ''GET'' \<and> p = ''/api/download/file/task_001'' then Some (15, \<lambda>k. if k = ''id'' then ''task_001'' else []) else None)"

lemma demo_routed: "routed demo_gin demo_router (demo_file_request t) = Some (RFallbackFile, \<lambda>k. if k = ''id'' then ''task_001'' else [])"
  by (simp add: routed_def demo_gin_def demo_file_request_def route_table_def)

lemma demo_path: "task_file_path Some demo_config ''task_001'' = Inr ''/tmp/d/task_001.bin''" "trim_space ''task_001'' = ''task_001''"
    "is_ascii ''task_001''" "trim_space ''application/octet-stream'' \<noteq> []" "trim_space [] = []"
  by code_simp+

lemma demo_file_reply:
  assumes "write_completed_file Some (\<lambda>_. None) demo_config None 5 ''task_001'' ''body'' [] [] ([], demo_state) = ((fs, st), None)"
    and "validate_ticket purpose_download demo_config ''task_001'' raw unix_epoch = None" and "trim_space raw = raw"
  shows "an_reply (fst (serve_request demo_gin demo_router demo_call (demo_file_request raw) ((fs, st), new_performance 0 0))) =
    ApiReply (FileReply ''application/octet-stream'' ''/tmp/d/task_001.bin'' ''body'')"
proof -
  have f: "map_of (ds_files st) ''task_001'' = Some (''/tmp/d/task_001.bin'', ''application/octet-stream'')"
    using write_records [OF assms(1)] demo_path by auto
  have "map_of fs ''/tmp/d/task_001.bin'' = Some (FileNode ''body'')"
    using write_completed_cases [OF assms(1)] demo_path(1) by auto
  then have "serve_task_file Some mime (demo_content fs) demo_config st ''task_001'' = Inr (''application/octet-stream'', ''/tmp/d/task_001.bin'', ''body'')" for mime
    using served_file [OF demo_path(1) f demo_path(4)] by (simp add: demo_content_def)
  then have "handle_fallback_file (ro_download demo_router) ((demo_file_request raw)\<lparr>hq_param := \<lambda>k. if k = ''id'' then ''task_001'' else []\<rparr>) (fs, st) =
      FileReply ''application/octet-stream'' ''/tmp/d/task_001.bin'' ''body''"
    using assms(2,3) demo_path(2)
    by (simp add: demo_router_def handle_fallback_file_def serve_with_ticket_def runtime_download_api_def validate_download_ticket_def demo_file_request_def)
  then show ?thesis by (simp add: serve_routed demo_routed run_route_def)
qed

theorem download_file_needs_ticket_witness:
  "\<exists>raw fs st claims. (download_step demo_idna Some demo_config)\<^sup>*\<^sup>* ([], demo_state) (fs, st) \<and>
    an_reply (fst (serve_request demo_gin demo_router demo_call (demo_file_request raw) ((fs, st), new_performance 0 0))) =
      ApiReply (FileReply ''application/octet-stream'' ''/tmp/d/task_001.bin'' ''body'') \<and>
    verify_ticket (dc_key demo_config) (trim_space raw) purpose_download unix_epoch = Inr claims \<and> tc_task claims = ''task_001''"
proof -
  let ?w = "write_completed_file Some (\<lambda>_. None) demo_config None 5 ''task_001'' ''body'' [] [] ([], demo_state)"
  obtain fs st where w: "?w = ((fs, st), None)" using demo_write by (auto split: prod.splits option.splits)
  have run: "(download_step demo_idna Some demo_config)\<^sup>*\<^sup>* ([], demo_state) (fs, st)" using step_write [OF w] by blast
  have e: "0 < unix_epoch" by code_simp
  obtain raw where raw: "sign_ticket (dc_key demo_config) \<lparr>tc_task = ''task_001'', tc_purpose = purpose_download, tc_expires = unix_epoch + 100\<rparr> unix_epoch = Inr raw"
    using demo_path(2) purposes_ascii(3) e by (simp add: sign_ticket_def demo_config_def Let_def)
  have v: "validate_ticket purpose_download demo_config ''task_001'' raw unix_epoch = None"
    by (rule signed_checks(2) [OF raw demo_path(3,2) purposes_ascii(2)]) simp_all
  note reply = demo_file_reply [OF w v signed_plain(1) [OF raw]]
  have d: "ro_download demo_router = Some (runtime_download_api demo_idna Some (\<lambda>_. []) demo_content demo_config (Inr []) unix_epoch unix_epoch)"
    by (simp add: demo_router_def)
  have q: "hq_query (demo_file_request raw) ''ticket'' = raw" by (simp add: demo_file_request_def)
  obtain a s' where a: "serve_request demo_gin demo_router demo_call (demo_file_request raw) ((fs, st), new_performance 0 0) = (a, s')"
    by (metis prod.exhaust)
  obtain claims where "verify_ticket (dc_key demo_config) (trim_space raw) purpose_download unix_epoch = Inr claims" "tc_task claims = ''task_001''"
    using download_file_needs_ticket [OF demo_service run d a reply [unfolded a fst_conv]] demo_path(2) by (auto simp: demo_routed q)
  then show ?thesis using run reply by blast
qed

section \<open>What becomes of a merge\<close>

text \<open>
  What the running program does to the files and the tasks: requests create tasks, and the transfer of a
  fallback task writes or fails the task it was started for.  Nothing calls the clean-up, and nothing
  works on the tasks that \<open>CreateM3U8\<close> records.
\<close>
inductive runtime_step :: "idna \<Rightarrow> (gostring \<Rightarrow> gostring option) \<Rightarrow> download_config
    \<Rightarrow> download_world \<times> gostring set \<Rightarrow> download_world \<times> gostring set \<Rightarrow> bool"
  for idna absolute cfg where
  rs_refused: "runtime_create_fallback idna cfg ctx entropy now now' q st = (st', r, None) \<Longrightarrow> runtime_step idna absolute cfg ((fs, st), jobs) ((fs, st'), jobs)"
| rs_create: "runtime_create_fallback idna cfg ctx entropy now now' q st = (st', r, Some (tid, q')) \<Longrightarrow>
    runtime_step idna absolute cfg ((fs, st), jobs) ((fs, st'), insert tid jobs)"
| rs_m3u8: "create_m3u8 idna cfg ctx entropy now url st = (st', r) \<Longrightarrow> runtime_step idna absolute cfg ((fs, st), jobs) ((fs, st'), jobs)"
| rs_acquire: "acquire_transfer cfg ctx client st = Inr st' \<Longrightarrow> runtime_step idna absolute cfg ((fs, st), jobs) ((fs, st'), jobs)"
| rs_release: "runtime_step idna absolute cfg ((fs, st), jobs) ((fs, release_transfer client st), jobs)"
| rs_write: "tid \<in> jobs \<Longrightarrow> write_completed_file absolute fault cfg ctx now tid body wrote ct s = (s', e) \<Longrightarrow> runtime_step idna absolute cfg (s, jobs) (s', jobs)"
| rs_fail: "tid \<in> jobs \<Longrightarrow> mark_failed cfg ctx now tid st = (st', e) \<Longrightarrow> runtime_step idna absolute cfg ((fs, st), jobs) ((fs, st'), jobs)"

text \<open>Transfers work on fallback tasks, and a merge is still pending.\<close>
definition merges_pending :: "gostring \<Rightarrow> download_world \<times> gostring set \<Rightarrow> bool" where
  "merges_pending tid w \<longleftrightarrow> (\<forall>j \<in> snd w. has_prefix j ''download_'' \<and> trim_space j = j) \<and>
     (\<exists>v. map_of (ds_tasks (snd (fst w))) tid = Some v \<and> tv_id v = tid \<and> tv_status v = DlPending \<and> tv_progress v = 0)"

lemma media_no_job: "has_prefix tid ''media_'' \<Longrightarrow> \<not> has_prefix tid ''download_''"
  by (cases tid) (auto simp: has_prefix_def)

lemma created_job:
  assumes "runtime_create_fallback idna cfg ctx entropy now now' q st = (st', r, Some (tid, q'))"
  shows "has_prefix tid ''download_''" and "trim_space tid = tid"
proof -
  have "\<exists>raw. tid = ''download_'' @ b64_encode raw"
    using assms by (auto simp: runtime_create_fallback_def create_fallback_def dl_generate_id_def new_view_def rbind_def require_def Let_def
      split: sum.splits option.splits if_splits)
  then obtain raw where t: "tid = ''download_'' @ b64_encode raw" by blast
  have "list_all token_char ''download_''" by code_simp
  then have "list_all token_char tid" using b64_encode_token [of raw] by (simp add: t)
  then show "trim_space tid = tid" by (rule trim_space_token)
  show "has_prefix tid ''download_''" by (simp add: t has_prefix_def)
qed

lemma create_keeps_pending:
  assumes "create_fallback idna cfg ctx entropy now now' q st = (st', r) \<or> create_m3u8 idna cfg ctx entropy now url st = (st', r)"
    and "map_of (ds_tasks st) tid = Some v" and "tv_id v = tid" and "tv_status v = DlPending" and "tv_progress v = 0"
  shows "\<exists>v. map_of (ds_tasks st') tid = Some v \<and> tv_id v = tid \<and> tv_status v = DlPending \<and> tv_progress v = 0"
  using assms by (auto simp: create_fallback_def create_m3u8_def new_view_def rbind_def require_def Let_def split: sum.splits option.splits if_splits)

lemma runtime_step_pending:
  assumes "runtime_step idna absolute cfg w w'" and "merges_pending tid w" and "has_prefix tid ''media_''"
  shows "merges_pending tid w'"
  using assms(1)
proof cases
  case (rs_refused ctx entropy now now' q st st' r fs jobs)
  then show ?thesis using assms(2) create_keeps_pending by (fastforce simp: merges_pending_def runtime_create_fallback_def split: prod.splits sum.splits)
next
  case (rs_create ctx entropy now now' q st st' r jid q' fs jobs)
  note job = created_job [OF rs_create(3)]
  then show ?thesis using rs_create assms(2) create_keeps_pending by (fastforce simp: merges_pending_def runtime_create_fallback_def split: prod.splits sum.splits)
next
  case (rs_m3u8 ctx entropy now url st st' r fs jobs)
  then show ?thesis using assms(2) create_keeps_pending by (fastforce simp: merges_pending_def)
next
  case (rs_acquire ctx client st st' fs jobs)
  then show ?thesis using assms(2) acquire_tasks by (simp add: merges_pending_def)
next
  case (rs_release fs st jobs client)
  then show ?thesis using assms(2) by (simp add: merges_pending_def release_keeps)
next
  case (rs_write jid jobs fault ctx now body wrote ct s s' e)
  obtain fs st fs' st' where s: "s = (fs, st)" "s' = (fs', st')" by (cases s, cases s') simp
  have "jid \<noteq> tid" using rs_write(1,3) assms(2,3) media_no_job by (auto simp: merges_pending_def)
  then have "map_of (ds_tasks st') tid = map_of (ds_tasks st) tid"
    using rs_write(4) by (auto simp: s write_completed_file_def Let_def split: sum.splits prod.splits)
  then show ?thesis using rs_write(1,2) assms(2) by (simp add: merges_pending_def s)
next
  case (rs_fail jid jobs ctx now st st' e fs)
  have "trim_space jid \<noteq> tid" using rs_fail(1,3) assms(2,3) media_no_job by (fastforce simp: merges_pending_def)
  then have "map_of (ds_tasks st') tid = map_of (ds_tasks st) tid"
    using rs_fail(4) by (auto simp: mark_failed_def Let_def split: option.splits if_splits)
  then show ?thesis using rs_fail(1,2) assms(2) by (simp add: merges_pending_def)
qed

lemma runtime_step_jobs:
  assumes "runtime_step idna absolute cfg w w'" and "\<forall>j \<in> snd w. has_prefix j ''download_'' \<and> trim_space j = j"
  shows "\<forall>j \<in> snd w'. has_prefix j ''download_'' \<and> trim_space j = j"
  using assms by cases (auto simp: created_job)

lemma runtime_jobs:
  assumes "(runtime_step idna absolute cfg)\<^sup>*\<^sup>* (s, {}) w"
  shows "\<forall>j \<in> snd w. has_prefix j ''download_'' \<and> trim_space j = j"
  using assms
proof induction
  case (step w w')
  then show ?case using runtime_step_jobs by blast
qed simp

lemma created_merge:
  assumes "create_m3u8 idna cfg ctx entropy now url st = (st', Inr v)"
  shows "has_prefix (tv_id v) ''media_''" and "trim_space (tv_id v) = tv_id v" and "map_of (ds_tasks st') (tv_id v) = Some v"
    and "tv_status v = DlPending" and "tv_progress v = 0"
proof -
  have m: "\<exists>raw. tv_id v = ''media_'' @ b64_encode raw"
    using assms by (auto simp: create_m3u8_def dl_generate_id_def new_view_def rbind_def require_def Let_def split: sum.splits option.splits if_splits)
  then obtain raw where t: "tv_id v = ''media_'' @ b64_encode raw" by blast
  have "list_all token_char ''media_''" by code_simp
  then have "list_all token_char (tv_id v)" using b64_encode_token [of raw] by (simp add: t)
  then show "trim_space (tv_id v) = tv_id v" by (rule trim_space_token)
  show "has_prefix (tv_id v) ''media_''" by (simp add: t has_prefix_def)
  show "map_of (ds_tasks st') (tv_id v) = Some v" "tv_status v = DlPending" "tv_progress v = 0"
    using assms by (auto simp: create_m3u8_def new_view_def rbind_def require_def Let_def split: sum.splits option.splits if_splits)
qed

lemma merges_run:
  assumes "(runtime_step idna absolute cfg)\<^sup>*\<^sup>* w w'" and "merges_pending tid w" and "has_prefix tid ''media_''"
  shows "merges_pending tid w'"
  using assms
proof induction
  case (step x y)
  then show ?case using runtime_step_pending by blast
qed simp

text \<open>
  C40.  A merge is never worked on.  Whatever requests and transfers the running program goes through before
  and after \<open>CreateM3U8\<close> has accepted a merge, the task it answered is pending with no progress, and polling
  it says so: no code of the program ever completes or fails it.
\<close>
theorem merge_stays_pending:
  assumes "(runtime_step idna absolute cfg)\<^sup>*\<^sup>* ((fs0, st0), {}) ((fs, st), jobs)"
    and "create_m3u8 idna cfg ctx entropy now url st = (st1, Inr v)"
    and "(runtime_step idna absolute cfg)\<^sup>*\<^sup>* ((fs, st1), jobs) ((fs2, st2), jobs2)" and "hq_param h ''id'' = tv_id v"
  shows "\<exists>w. map_of (ds_tasks st2) (tv_id v) = Some w \<and> tv_status w = DlPending \<and> tv_progress w = 0 \<and>
    handle_get_m3u8 (Some (runtime_download_api idna absolute mime content cfg e now2 n2)) h (fs2, st2) = ok_reply (ApiObject (m3u8_data w)) \<and>
    (''status'', JStr ''pending'') \<in> set (m3u8_data w)"
proof -
  note c = created_merge [OF assms(2)]
  have "merges_pending (tv_id v) ((fs, st1), jobs)" using runtime_jobs [OF assms(1)] c by (simp add: merges_pending_def)
  from merges_run [OF assms(3) this c(1)] obtain w where
    "map_of (ds_tasks st2) (tv_id v) = Some w" "tv_status w = DlPending" "tv_progress w = 0" by (auto simp: merges_pending_def)
  then show ?thesis using c(2) assms(4)
    by (simp add: handle_get_m3u8_def runtime_download_api_def get_m3u8_def m3u8_data_def dl_status_text_def)
qed

definition demo_merge_task :: gostring where "demo_merge_task = ''media_MDEyMzQ1Njc4OWFiY2RlZg''"

lemma demo_merge_task_facts:
  "dl_generate_id (Inr ''0123456789abcdef'') ''media'' = Inr demo_merge_task" "validated_media_target demo_idna ''https://v.example/1.mp4'' \<noteq> None"
  by code_simp+

lemma demo_merged:
  obtains v st1 where "create_m3u8 demo_idna demo_config None (Inr ''0123456789abcdef'') unix_epoch ''https://v.example/1.mp4'' st = (st1, Inr v)"
    "tv_id v = demo_merge_task"
  using demo_merge_task_facts by (auto simp: create_m3u8_def rbind_def require_def new_view_def)

theorem merge_stays_pending_witness:
  "\<exists>st v st1 m fs2 st2 x w.
    runtime_create_fallback demo_idna demo_config None (Inr ''0123456789abcdef'') unix_epoch unix_epoch demo_fallback demo_state =
      (st, Inr v, Some (demo_task, demo_fallback)) \<and>
    create_m3u8 demo_idna demo_config None (Inr ''0123456789abcdef'') unix_epoch ''https://v.example/1.mp4'' st = (st1, Inr m) \<and>
    write_completed_file Some (\<lambda>_. None) demo_config None unix_epoch demo_task ''abc'' [] ''video/mp4'' ([], st1) = ((fs2, st2), None) \<and>
    map_of (ds_tasks st2) demo_task = Some x \<and> tv_status x = DlCompleted \<and>
    map_of (ds_tasks st2) demo_merge_task = Some w \<and> tv_status w = DlPending"
proof -
  obtain v st where c: "runtime_create_fallback demo_idna demo_config None (Inr ''0123456789abcdef'') unix_epoch unix_epoch demo_fallback demo_state =
      (st, Inr v, Some (demo_task, demo_fallback))" and st: "st = demo_state\<lparr>ds_tasks := [(demo_task, v)]\<rparr>" by (rule demo_created)
  obtain m st1 where m: "create_m3u8 demo_idna demo_config None (Inr ''0123456789abcdef'') unix_epoch ''https://v.example/1.mp4'' st = (st1, Inr m)"
    and i: "tv_id m = demo_merge_task" by (rule demo_merged)
  obtain fs2 st2 where w: "write_completed_file Some (\<lambda>_. None) demo_config None unix_epoch demo_task ''abc'' [] ''video/mp4'' ([], st1) = ((fs2, st2), None)"
    using demo_transfer_facts(6,8,10)
    by (simp add: write_completed_file_def fails_def ensure_root_def reject_symlink_def write_part_def rbind_def demo_config_def Let_def)
  have a: "(runtime_step demo_idna Some demo_config)\<^sup>*\<^sup>* (([], demo_state), {}) (([], st), {demo_task})"
    using rs_create [OF c, of Some "[]" "{}"] by blast
  have b: "(runtime_step demo_idna Some demo_config)\<^sup>*\<^sup>* (([], st1), {demo_task}) ((fs2, st2), {demo_task})"
    using rs_write [OF _ w, of "{demo_task}"] by blast
  obtain w' where "map_of (ds_tasks st2) demo_merge_task = Some w'" "tv_status w' = DlPending"
    using merge_stays_pending [OF a m b, of "(demo_file_request [])\<lparr>hq_param := \<lambda>_. tv_id m\<rparr>" id demo_content "Inr []" unix_epoch unix_epoch] by (auto simp: i)
  then show ?thesis using c m w write_records [OF w] by blast
qed

end
