(* ===== verification/Spec2Isabelle.thy ===== *)
theory Spec2Isabelle imports
  TaskClaims
  CacheTiered
  NetAuthority
  NetProxy
  Download
  AuthMySQL
  ParseUrl
  SessionMaterial
  RuntimeCache
  NativeAdapter
  AdminStore
  Dash
  ParseTasks
  Lifecycle
  Config
  HttpApi
begin

text \<open>
  watermark-go is a Go service that takes a shared text with a link, finds the platform the link belongs
  to, lets that platform's parser fetch and read the page, and answers the media URLs it found.  Every
  request that leaves the process goes through a network guard; results are cached under a key of the
  canonical URL; long requests become tasks that worker loops execute under leases; media can be
  downloaded with signed tickets; clients and administrators authenticate with tokens and cookies.

  \<^bold>\<open>Conventions.\<close>  A Go string or byte slice is a list of bytes (\<open>gostring\<close>), a map an association list in
  insertion order where the code ranges over it and a function otherwise, a time an integer number of
  nanoseconds, a pointer that is shared a position of an explicit heap, an error a constructor of a
  datatype with \<open>Inl\<close>, nil an option.  A method that holds its mutex for its whole body is one function
  on the state; one that releases it in between is several, interleaved by a step relation.  Integers
  that the code lets wrap are words (\<open>generation\<close> counters, durations that double, byte totals); sizes
  bounded by the inputs are \<open>int\<close>.  Clocks, entropy, sleeping callers, the network, the file system's
  failures and the database's failures are arguments.  Third-party packages (\<open>singleflight\<close>, \<open>bcrypt\<close>,
  \<open>idna\<close>, the Redis client and the MySQL driver) are arguments with their documented behaviour as
  hypotheses where a property needs it.

  \<^bold>\<open>Standard library.\<close>  \<open>Prelude\<close> (package \<open>strings\<close>, times, maps), \<open>Codec\<close> (base64, hex), \<open>Sha256\<close>
  (SHA-256, HMAC), \<open>Netip\<close> (\<open>net/netip\<close>), \<open>Url\<close> (\<open>net/url\<close>), \<open>Json\<close> and \<open>JsonTree\<close> (\<open>encoding/json\<close>: the
  decoder runs on fuel \<open>2 * length + 2\<close>, which is enough for any text because every step consumes a byte
  or closes a level, and the printer round trip is proved for whole trees).

  \<^bold>\<open>Tasks\<close> (\<open>internal/task\<close>, \<open>internal/store/runtime_mysql.go\<close>, \<open>internal/app/runtime_task_worker.go\<close>).  \<open>Task\<close> has the
  model, \<open>LeaseSpec\<close> the abstract lease map and the locale \<open>lease_store\<close> an implementation owes,
  \<open>TaskMemory\<close> and \<open>TaskMySQL\<close> the two stores with their interpretations, \<open>TaskWorker\<close> the worker and the
  component, \<open>TaskSystem\<close> the system of worker loops, clients and recovery as one transition system, and
  \<open>TaskClaims\<close> the properties: an attempt is executed at most once, a lease is exclusive until it runs
  out, a finished task stays finished, what a round of the worker leaves behind.  \<open>MySQLColumns\<close> says what
  the columns do to their values: times are rounded to whole seconds, text compares by the collation, so the
  interface \<open>lease_store\<close> has the key that a store makes of a name and the time it makes of a deadline, and a
  lease of the MySQL store is exclusive until the rounded deadline.

  \<^bold>\<open>Caches\<close> (\<open>internal/cache\<close>).  \<open>Cache\<close> has keys, the memory store and the Redis store under the locale
  \<open>cache_store\<close>; \<open>CacheTiered\<close> the two tiers, their coherence with an ideal map, and the keys' separation.

  \<^bold>\<open>Network guard\<close> (\<open>internal/netguard\<close>).  \<open>NetGuard\<close> has fetch URLs, the address validator and the redirect
  policy, \<open>NetAuthority\<close> the authority registry, \<open>NetTransport\<close> the guarded client with its limited
  readers, \<open>NetProxy\<close> the loopback proxy.  Only public addresses are dialled, redirects carry no sensitive
  header across origins, and no response is read beyond its limits.

  \<^bold>\<open>Downloads\<close> (\<open>internal/download\<close>, \<open>runtimeDownloadService\<close> in \<open>internal/app/app.go\<close>).  \<open>Ticket\<close> has the signed
  tickets, \<open>Download\<close> the transfer accounting and the files, \<open>AppTransfers\<close> the transfer that a created task
  starts: it settles its task, gives its slot back and stores only what the guarded fetch brought.

  \<^bold>\<open>Clients\<close> (\<open>internal/auth\<close>, \<open>runtime_mysql.go\<close>).  \<open>Auth\<close> has tokens, login and the memory store,
  \<open>AuthMySQL\<close> the statements on the client tables.

  \<^bold>\<open>Parsing\<close> (\<open>internal/parse\<close>, \<open>internal/parser\<close>, \<open>internal/app/runtime_cache.go\<close>).  \<open>ParseUrl\<close> has the
  extraction and canonical form of URLs and the compatibility data, \<open>ParserRegistry\<close> the registry of
  platforms and the request budget, \<open>SessionMaterial\<close> the single-flight provider of upstream material,
  \<open>ParseService\<close> the use case over the locale \<open>parse_cache\<close>, \<open>RuntimeCache\<close> the JSON records in the two-tier
  cache that interpret it.  Only results whose media URLs the guard accepts are ever answered.

  \<^bold>\<open>Platforms\<close> (\<open>internal/parser/result.go\<close>, \<open>internal/parser/native\<close>).  \<open>Candidates\<close> has the order, the
  normalisation and the budgeted attempts of media candidates, \<open>NativeCatalog\<close> the shipped table of 26
  platforms as a registry, \<open>NativeAdapter\<close> the adapter that runs a platform's scraper through the budgeted
  client and sanitises its errors, those apart that wrap the end of a context.  \<open>ParseTasks\<close> (\<open>internal/parse/tasks.go\<close>) submits a parse as a task, runs it
  and answers its view; its payloads and results are the JSON texts of the code.

  \<^bold>\<open>Media\<close> (\<open>internal/media\<close>).  \<open>Media\<close> has HLS manifests, their confinement to the guarded host and the ffmpeg
  command line, \<open>Dash\<close> the selection of streams, the concurrent prefetch (with the fetches that outlive an
  early return) and the merge.

  \<^bold>\<open>Administration\<close> (\<open>internal/admin\<close>, \<open>admin_handlers.go\<close>).  \<open>Admin\<close> has logins, cookies and guarded writes,
  \<open>AdminStore\<close> the two stores and the handlers: a change of settings carries an owner's cookie, the CSRF token
  and an allowed origin.

  \<^bold>\<open>HTTP\<close> (\<open>internal/httpapi\<close>, \<open>internal/observability\<close>).  \<open>HttpParse\<close> has the parse routes, \<open>HttpApi\<close> the other
  handlers, the middleware, the table of routes and \<open>serve_request\<close>, which composes them.  A file leaves the
  server only for its ticket; a fallback download can be followed from its request to its bytes; an accepted
  m3u8 merge stays pending for ever.

  \<^bold>\<open>Process\<close> (\<open>internal/app\<close>, \<open>internal/config\<close>).  \<open>Lifecycle\<close> has the start and the stop of the components as
  functions of what the channels and the context answer, \<open>Config\<close> the configuration read from the
  environment, its production rules and its redacted text.

  \<^bold>\<open>Not modelled.\<close>  Process entry points (\<open>cmd\<close>), the constructors in \<open>internal/app/app.go\<close> that only wire
  the modelled parts, schema migrations and their receipts, baseline runs and the pages of the
  administration, the helper processes (\<open>sandbox\<close>, \<open>universal\<close>, \<open>ytdlp\<close>), and the page scrapers of the single
  platforms (regular expressions, HTML and XPath queries over pages whose form only the platforms know).
  The manifest lists each with its reason.
\<close>


end
